(* ===== verification/Prelude.thy ===== *)
theory Prelude
  imports Main "HOL-Library.Word" "HOL-Library.Sublist"
begin

text \<open>
  Shared vocabulary of the development.

  \<^item> \<open>byte\<close> is an octet of a Node.js \<open>Buffer\<close>; \<open>ustring\<close> is a JavaScript string as its
    list of Unicode code points; \<open>path\<close> is a file-system path or another string whose
    encoding does not matter.
  \<^item> a call that can throw returns \<open>'e + 'a\<close>: \<open>Inl\<close> is the thrown error, \<open>Inr\<close> the value;
    \<open>bind_res\<close> is the sequencing of two such calls, \<open>map_res\<close> runs one over a list and
    stops at the first error, as a throwing loop body does.
  \<^item> generic facts on lists (windows of a list, lists keyed by an identifier as a JavaScript
    \<open>Map\<close> keeps them) that several components use.
\<close>

type_synonym byte = "8 word"
type_synonym ustring = "nat list"
type_synonym path = string

named_theorems res_simps \<open>unfolding of the error-passing combinators\<close>
named_theorems inv_intros \<open>preservation of component invariants\<close>
named_theorems frame_simps \<open>fields that an operation leaves alone\<close>

section \<open>Errors as values\<close>

definition bind_res :: "'e + 'a \<Rightarrow> ('a \<Rightarrow> 'e + 'b) \<Rightarrow> 'e + 'b" where
  "bind_res m f = (case m of Inl e \<Rightarrow> Inl e | Inr x \<Rightarrow> f x)"

definition guard_res :: "bool \<Rightarrow> 'e \<Rightarrow> 'e + unit" where
  "guard_res ok e = (if ok then Inr () else Inl e)"

fun map_res :: "('a \<Rightarrow> 'e + 'b) \<Rightarrow> 'a list \<Rightarrow> 'e + 'b list" where
  "map_res f [] = Inr []"
| "map_res f (x # xs) =
     bind_res (f x) (\<lambda>y. bind_res (map_res f xs) (\<lambda>ys. Inr (y # ys)))"

lemma bind_res_simps [simp, res_simps]:
  "bind_res (Inl e) f = Inl e"
  "bind_res (Inr x) f = f x"
  by (simp_all add: bind_res_def)

lemma bind_res_InrD:
  "bind_res m f = Inr y \<Longrightarrow> \<exists>x. m = Inr x \<and> f x = Inr y"
  by (cases m) auto

lemma bind_res_Inr_iff:
  "bind_res m f = Inr y \<longleftrightarrow> (\<exists>x. m = Inr x \<and> f x = Inr y)"
  by (cases m) auto

lemma bind_res_Inl_iff:
  "bind_res m f = Inl e \<longleftrightarrow> m = Inl e \<or> (\<exists>x. m = Inr x \<and> f x = Inl e)"
  by (cases m) auto

text \<open>A success carries over when every call that succeeded still succeeds with the same value.\<close>

lemma success_mono:
  "bind_res r f = Inr y \<Longrightarrow> (\<And>x. r = Inr x \<Longrightarrow> r' = Inr x) \<Longrightarrow> (\<And>x. f x = Inr y \<Longrightarrow> g x = Inr y)
    \<Longrightarrow> bind_res r' g = Inr y"
  "(if c then Inl e else u) = Inr y \<Longrightarrow> (u = Inr y \<Longrightarrow> v = Inr y) \<Longrightarrow> (if c then Inl e' else v) = Inr y"
  "(case ov of None \<Rightarrow> Inl e | Some x \<Rightarrow> h x) = Inr y \<Longrightarrow> (\<And>x. h x = Inr y \<Longrightarrow> k x = Inr y)
    \<Longrightarrow> (case ov of None \<Rightarrow> Inl e' | Some x \<Rightarrow> k x) = Inr y"
  by (auto simp: bind_res_def split: sum.splits if_splits option.splits)

lemma guard_res_simps [simp, res_simps]:
  "guard_res ok e = Inr u \<longleftrightarrow> ok"
  "guard_res ok e = Inl e' \<longleftrightarrow> \<not> ok \<and> e' = e"
  "guard_res True e = Inr ()"
  "guard_res False e = Inl e"
  by (auto simp: guard_res_def)

lemma map_res_length: "map_res f xs = Inr ys \<Longrightarrow> length ys = length xs"
  by (induction xs arbitrary: ys) (auto simp: bind_res_Inr_iff)

lemma map_res_nth:
  "map_res f xs = Inr ys \<Longrightarrow> i < length xs \<Longrightarrow> f (xs ! i) = Inr (ys ! i)"
  by (induction xs arbitrary: ys i) (auto simp: bind_res_Inr_iff nth_Cons split: nat.splits)

lemma map_res_set:
  "map_res f xs = Inr ys \<Longrightarrow> y \<in> set ys \<Longrightarrow> \<exists>x \<in> set xs. f x = Inr y"
  by (induction xs arbitrary: ys) (auto simp: bind_res_Inr_iff)

section \<open>Programs with a state and errors\<close>

text \<open>A sequence of operations on a state that an error ends; the state is kept.\<close>

type_synonym ('s, 'e, 'a) prog = "'s \<Rightarrow> ('e + 'a) \<times> 's"

definition ret :: "'a \<Rightarrow> ('s, 'e, 'a) prog" where
  "ret x = (\<lambda>w. (Inr x, w))"

definition raise :: "'e \<Rightarrow> ('s, 'e, 'a) prog" where
  "raise e = (\<lambda>w. (Inl e, w))"

definition and_then :: "('s, 'e, 'a) prog \<Rightarrow> ('a \<Rightarrow> ('s, 'e, 'b) prog) \<Rightarrow> ('s, 'e, 'b) prog" where
  "and_then m f = (\<lambda>w. case m w of (Inl e, w') \<Rightarrow> (Inl e, w') | (Inr x, w') \<Rightarrow> f x w')"

definition catching :: "('s, 'e, 'a) prog \<Rightarrow> ('e \<Rightarrow> ('s, 'e, 'a) prog) \<Rightarrow> ('s, 'e, 'a) prog" where
  "catching m h = (\<lambda>w. case m w of (Inl e, w') \<Rightarrow> h e w' | (Inr x, w') \<Rightarrow> (Inr x, w'))"

section \<open>Windows of a list\<close>

definition last_n :: "nat \<Rightarrow> 'a list \<Rightarrow> 'a list" where
  "last_n n xs = drop (length xs - n) xs"

lemma length_last_n [simp]: "length (last_n n xs) = min n (length xs)"
  by (simp add: last_n_def)

lemma last_n_all [simp]: "length xs \<le> n \<Longrightarrow> last_n n xs = xs"
  by (simp add: last_n_def)

lemma last_n_append: "last_n n (last_n n xs @ ys) = last_n n (xs @ ys)"
proof (cases "length xs \<le> n")
  case True
  then show ?thesis by simp
next
  case False
  then have "length xs + length ys - (length xs - n + n) + (length xs - n)
      = length xs + length ys - n"
    by simp
  then show ?thesis using False by (simp add: last_n_def)
qed

lemma take_drop_append_window:
  assumes "k \<le> length xs"
  shows "take k xs @ drop k xs = xs"
  using assms by simp

lemma append_longer:
  assumes "xs @ ys = zs @ ts" "length zs \<le> length xs"
  shows "\<exists>us. xs = zs @ us \<and> us @ ys = ts"
proof -
  have "take (length zs) (xs @ ys) = zs" by (simp add: assms(1))
  with assms(2) have "take (length zs) xs = zs" by simp
  then have xs: "xs = zs @ drop (length zs) xs" by (metis append_take_drop_id)
  with assms(1) have "drop (length zs) xs @ ys = ts" by (metis append.assoc same_append_eq)
  with xs show ?thesis by blast
qed

section \<open>Insertion-ordered maps\<close>

text \<open>
  A JavaScript \<open>Map\<close> iterates in insertion order. It is modelled by the list of its values,
  each carrying its key. \<open>find_key\<close> is \<open>get\<close>, \<open>del_key\<close> is \<open>delete\<close>, \<open>put_key\<close> is \<open>set\<close>: an
  existing key keeps its place, a new one goes to the end.
\<close>

definition find_key :: "('r \<Rightarrow> 'k) \<Rightarrow> 'k \<Rightarrow> 'r list \<Rightarrow> 'r option" where
  "find_key key k rs = find (\<lambda>r. key r = k) rs"

definition del_key :: "('r \<Rightarrow> 'k) \<Rightarrow> 'k \<Rightarrow> 'r list \<Rightarrow> 'r list" where
  "del_key key k rs = filter (\<lambda>r. key r \<noteq> k) rs"

fun put_key :: "('r \<Rightarrow> 'k) \<Rightarrow> 'r \<Rightarrow> 'r list \<Rightarrow> 'r list" where
  "put_key key r [] = [r]"
| "put_key key r (x # xs) = (if key x = key r then r # xs else x # put_key key r xs)"

definition upd_key :: "('r \<Rightarrow> 'k) \<Rightarrow> 'k \<Rightarrow> ('r \<Rightarrow> 'r) \<Rightarrow> 'r list \<Rightarrow> 'r list" where
  "upd_key key k f rs = map (\<lambda>r. if key r = k then f r else r) rs"

lemma find_key_SomeD: "find_key key k rs = Some r \<Longrightarrow> r \<in> set rs \<and> key r = k"
  by (auto simp: find_key_def find_Some_iff)

lemma find_key_None_iff: "find_key key k rs = None \<longleftrightarrow> k \<notin> key ` set rs"
  by (auto simp: find_key_def find_None_iff)

lemma find_key_distinct:
  "distinct (map key rs) \<Longrightarrow> r \<in> set rs \<Longrightarrow> find_key key (key r) rs = Some r"
  by (induction rs) (auto simp: find_key_def)

lemma find_key_put:
  "find_key key k (put_key key r rs) = (if k = key r then Some r else find_key key k rs)"
  by (induction rs) (auto simp: find_key_def)

lemma find_key_del:
  "find_key key k (del_key key k' rs) = (if k = k' then None else find_key key k rs)"
  by (induction rs) (auto simp: find_key_def del_key_def)

lemma set_del_key [simp]: "set (del_key key k rs) = {r \<in> set rs. key r \<noteq> k}"
  by (simp add: del_key_def)

lemma distinct_del_key: "distinct (map key rs) \<Longrightarrow> distinct (map key (del_key key k rs))"
  by (simp add: del_key_def distinct_map_filter)

lemma keys_put_key: "key ` set (put_key key r rs) = insert (key r) (key ` set rs)"
  by (induction rs) auto

lemma set_put_key_sub: "set (put_key key r rs) \<subseteq> insert r (set rs)"
  by (induction rs) auto

lemma distinct_put_key: "distinct (map key rs) \<Longrightarrow> distinct (map key (put_key key r rs))"
  by (induction rs) (auto simp: keys_put_key)

lemma put_key_fresh: "key r \<notin> key ` set rs \<Longrightarrow> put_key key r rs = rs @ [r]"
  by (induction rs) auto

lemma length_del_key:
  "distinct (map key rs) \<Longrightarrow> r \<in> set rs \<Longrightarrow> length (del_key key (key r) rs) = length rs - 1"
proof (induction rs)
  case Nil
  then show ?case by simp
next
  case (Cons x rs)
  show ?case
  proof (cases "x = r")
    case True
    from Cons.prems(1) have "key x \<notin> key ` set rs" by simp
    with True have "\<forall>y \<in> set rs. key y \<noteq> key r" by (metis imageI)
    then have "filter (\<lambda>y. key y \<noteq> key r) rs = rs" by (simp add: filter_id_conv)
    with True show ?thesis by (simp add: del_key_def)
  next
    case False
    with Cons.prems have "key x \<noteq> key r" and "r \<in> set rs" by auto
    moreover from \<open>r \<in> set rs\<close> have "0 < length rs" by auto
    ultimately show ?thesis using Cons by (simp add: del_key_def)
  qed
qed

lemma length_del_key_le: "length (del_key key k rs) \<le> length rs"
  by (simp add: del_key_def)

lemma upd_key_simps [simp]:
  "length (upd_key key k f rs) = length rs"
  by (simp_all add: upd_key_def)

lemma map_upd_key:
  assumes "\<And>r. key (f r) = key r"
  shows "map key (upd_key key k f rs) = map key rs"
  using assms by (induction rs) (auto simp: upd_key_def)

lemma set_upd_keyD:
  "x \<in> set (upd_key key k f rs) \<Longrightarrow> \<exists>r \<in> set rs. x = (if key r = k then f r else r)"
  by (auto simp: upd_key_def)

lemma ball_upd_key:
  "(\<forall>x \<in> set (upd_key key k f rs). P x) \<longleftrightarrow>
    (\<forall>r \<in> set rs. if key r = k then P (f r) else P r)"
  by (auto simp: upd_key_def)

lemma find_key_upd:
  assumes "\<And>r. key (f r) = key r"
  shows "find_key key k' (upd_key key k f rs) =
    (if k' = k then map_option f (find_key key k rs) else find_key key k' rs)"
  using assms by (induction rs) (auto simp: find_key_def upd_key_def)

lemma find_key_replace:
  "key r = k \<Longrightarrow> find_key key k' (upd_key key k (\<lambda>_. r) rs) =
    (if k' = k then map_option (\<lambda>_. r) (find_key key k rs) else find_key key k' rs)"
  by (induction rs) (auto simp: find_key_def upd_key_def)

text \<open>
  An array whose elements are found by a predicate: \<open>find\<close> gives the first, an assignment through
  the reference changes it in place, \<open>splice\<close> at its index removes it.
\<close>

fun upd_first :: "('a \<Rightarrow> bool) \<Rightarrow> ('a \<Rightarrow> 'a) \<Rightarrow> 'a list \<Rightarrow> 'a list" where
  "upd_first P f [] = []"
| "upd_first P f (x # xs) = (if P x then f x # xs else x # upd_first P f xs)"

fun del_first :: "('a \<Rightarrow> bool) \<Rightarrow> 'a list \<Rightarrow> 'a list" where
  "del_first P [] = []"
| "del_first P (x # xs) = (if P x then xs else x # del_first P xs)"

lemma length_upd_first [simp]: "length (upd_first P f xs) = length xs"
  by (induction xs) auto

lemma find_None_upd_first: "find P xs = None \<Longrightarrow> upd_first P f xs = xs"
  by (induction xs) (auto split: if_splits)

lemma upd_first_split:
  "find P xs = Some x \<Longrightarrow> \<exists>ys zs. xs = ys @ x # zs \<and> P x \<and> (\<forall>y \<in> set ys. \<not> P y) \<and> upd_first P f xs = ys @ f x # zs"
proof (induction xs)
  case (Cons a xs)
  show ?case
  proof (cases "P a")
    case True
    with Cons.prems show ?thesis by (auto intro: exI [of _ "[]"])
  next
    case False
    with Cons obtain ys zs where "xs = ys @ x # zs" "P x" "\<forall>y \<in> set ys. \<not> P y"
      "upd_first P f xs = ys @ f x # zs" by auto
    with False show ?thesis by (intro exI [of _ "a # ys"] exI [of _ zs]) simp
  qed
qed simp

lemma set_upd_firstD: "y \<in> set (upd_first P f xs) \<Longrightarrow> y \<in> set xs \<or> (\<exists>x \<in> set xs. P x \<and> y = f x)"
  by (induction xs) (auto split: if_splits)

lemma find_upd_first:
  "find P xs = Some x \<Longrightarrow> P (f x) \<Longrightarrow> find P (upd_first P f xs) = Some (f x)"
  by (induction xs) (auto split: if_splits)

lemma set_del_first_subset: "set (del_first P xs) \<subseteq> set xs"
  by (induction xs) auto

lemma length_del_first: "\<exists>x \<in> set xs. P x \<Longrightarrow> Suc (length (del_first P xs)) = length xs"
  by (induction xs) auto

lemma filter_del_first: "filter (\<lambda>x. \<not> P x) (del_first P xs) = filter (\<lambda>x. \<not> P x) xs"
  by (induction xs) auto

section \<open>JSON values\<close>

text \<open>
  What \<open>JSON.parse\<close> yields (\<open>JUndefined\<close> is the value of an absent property). Numbers are
  integers: the program writes no others.
\<close>

datatype jval =
    JUndefined
  | JNull
  | JBool bool
  | JNum int
  | JString string
  | JArr "jval list"
  | JObj "(string \<times> jval) list"

definition jget :: "jval \<Rightarrow> string \<Rightarrow> jval" where
  "jget v k = (case v of
     JObj fs \<Rightarrow> (case map_of fs k of Some w \<Rightarrow> w | None \<Rightarrow> JUndefined)
   | _ \<Rightarrow> JUndefined)"

fun is_JString :: "jval \<Rightarrow> bool" where
  "is_JString (JString s) = True"
| "is_JString v = False"

fun is_JNum :: "jval \<Rightarrow> bool" where
  "is_JNum (JNum n) = True"
| "is_JNum v = False"

fun is_JBool :: "jval \<Rightarrow> bool" where
  "is_JBool (JBool b) = True"
| "is_JBool v = False"

fun jstring :: "jval \<Rightarrow> string" where
  "jstring (JString s) = s"
| "jstring v = ''''"

fun jnum :: "jval \<Rightarrow> int" where
  "jnum (JNum n) = n"
| "jnum v = 0"

definition safe_integer :: "jval \<Rightarrow> bool" where
  "safe_integer v = (case v of JNum n \<Rightarrow> - (2 ^ 53 - 1) \<le> n \<and> n \<le> 2 ^ 53 - 1 | _ \<Rightarrow> False)"

text \<open>An object literal with a spread that drops \<open>undefined\<close> properties.\<close>

definition jobject :: "(string \<times> jval) list \<Rightarrow> jval" where
  "jobject fs = JObj (filter (\<lambda>(k, v). v \<noteq> JUndefined) fs)"

lemma map_of_filter_undefined:
  "distinct (map fst fs) \<Longrightarrow>
    (case map_of (filter (\<lambda>(k, v). v \<noteq> JUndefined) fs) k of Some w \<Rightarrow> w | None \<Rightarrow> JUndefined)
      = (case map_of fs k of Some w \<Rightarrow> w | None \<Rightarrow> JUndefined)"
proof (induction fs)
  case (Cons f fs)
  have "map_of (filter (\<lambda>(k, v). v \<noteq> JUndefined) fs) (fst f) = None"
    using Cons.prems by (auto simp: map_of_eq_None_iff)
  moreover have "map_of fs (fst f) = None"
    using Cons.prems by (auto simp: map_of_eq_None_iff)
  ultimately show ?case using Cons by (cases f) auto
qed simp

lemma jget_jobject:
  "distinct (map fst fs) \<Longrightarrow>
    jget (jobject fs) k = (case map_of fs k of Some w \<Rightarrow> w | None \<Rightarrow> JUndefined)"
  by (simp add: jget_def jobject_def map_of_filter_undefined)

lemma jget_simps [simp]:
  "jget (JObj fs) k = (case map_of fs k of Some w \<Rightarrow> w | None \<Rightarrow> JUndefined)"
  "jget JUndefined k = JUndefined" "jget JNull k = JUndefined" "jget (JString s) k = JUndefined"
  "jget (JNum n) k = JUndefined" "jget (JBool b) k = JUndefined" "jget (JArr vs) k = JUndefined"
  by (simp_all add: jget_def)

lemma is_JString_iff: "is_JString v \<longleftrightarrow> (\<exists>s. v = JString s)"
  by (cases v) auto

lemma is_JNum_iff: "is_JNum v \<longleftrightarrow> (\<exists>n. v = JNum n)"
  by (cases v) auto

lemma is_JBool_iff: "is_JBool v \<longleftrightarrow> (\<exists>b. v = JBool b)"
  by (cases v) auto

definition ends_with :: "string \<Rightarrow> string \<Rightarrow> bool" where
  "ends_with s suf \<longleftrightarrow> suffix suf s"

lemma ends_with_append [simp]: "ends_with (s @ suf) suf"
  by (simp add: ends_with_def suffix_def)

section \<open>Strings and sets of JavaScript\<close>

text \<open>
  What \<open>trim\<close> removes, for strings of the first 256 code units (\<open>string\<close> holds one code unit per
  character), and a \<open>Set\<close> spread into an array: the first occurrence of every element.
\<close>

definition js_space :: "char \<Rightarrow> bool" where
  "js_space c \<longleftrightarrow> c \<in> {CHR '' '', CHR 0x09, CHR 0x0A, CHR 0x0B, CHR 0x0C, CHR 0x0D, CHR 0xA0}"

definition js_trim :: "string \<Rightarrow> string" where
  "js_trim s = rev (dropWhile js_space (rev (dropWhile js_space s)))"

definition js_set :: "'a list \<Rightarrow> 'a list" where
  "js_set xs = rev (remdups (rev xs))"

lemma js_set_simps [simp]:
  "set (js_set xs) = set xs" "distinct (js_set xs)" "js_set [] = []"
  by (simp_all add: js_set_def)

lemma js_set_Nil_iff [simp]: "js_set xs = [] \<longleftrightarrow> xs = []"
  by (metis js_set_simps(1) set_empty)

lemma js_trim_Nil_iff: "js_trim s = [] \<longleftrightarrow> list_all js_space s"
proof
  assume "js_trim s = []"
  then have all: "\<forall>c \<in> set (dropWhile js_space s). js_space c"
    unfolding js_trim_def by (simp only: rev_is_Nil_conv dropWhile_eq_Nil_conv set_rev)
  have "dropWhile js_space s = []"
  proof (rule ccontr)
    assume ne: "dropWhile js_space s \<noteq> []"
    then have "\<not> js_space (hd (dropWhile js_space s))" by (rule hd_dropWhile)
    with bspec [OF all hd_in_set [OF ne]] show False by contradiction
  qed
  then show "list_all js_space s" by (simp only: dropWhile_eq_Nil_conv list_all_iff)
next
  assume "list_all js_space s"
  then have "dropWhile js_space s = []" by (simp only: dropWhile_eq_Nil_conv list_all_iff)
  then show "js_trim s = []" unfolding js_trim_def by (simp only: rev.simps dropWhile.simps)
qed

text \<open>The UTF-8 length of a string of code units below 256.\<close>

definition js_byteLength :: "string \<Rightarrow> nat" where
  "js_byteLength s = sum_list (map (\<lambda>c. if of_char c < (128 :: nat) then 1 else 2) s)"

text \<open>A version 4 UUID, as \<open>randomUUID\<close> makes them, in either case.\<close>

definition hex_digit :: "char \<Rightarrow> bool" where
  "hex_digit c \<longleftrightarrow> c \<in> set ''0123456789abcdefABCDEF''"

definition uuid_v4 :: "string \<Rightarrow> bool" where
  "uuid_v4 s \<longleftrightarrow> length s = 36
     \<and> (\<forall>i \<in> set [0..<36].
          if i \<in> {8, 13, 18, 23} then s ! i = CHR ''-''
          else if i = 14 then s ! i = CHR ''4''
          else if i = 19 then s ! i \<in> set ''89abAB''
          else hex_digit (s ! i))"

text \<open>Decimal notation, the bytes of a string in UTF-8, and the strings that \<open>join\<close> makes.\<close>

definition digit :: "char \<Rightarrow> bool" where
  "digit c \<longleftrightarrow> 48 \<le> (of_char c :: nat) \<and> (of_char c :: nat) \<le> 57"

definition digit_char :: "nat \<Rightarrow> char" where
  "digit_char n = char_of (48 + n)"

fun show_nat :: "nat \<Rightarrow> string" where
  "show_nat n = (if n < 10 then [digit_char n] else show_nat (n div 10) @ [digit_char (n mod 10)])"

declare show_nat.simps [simp del]

definition js_bytes :: "string \<Rightarrow> byte list" where
  "js_bytes s = concat (map (\<lambda>c. if of_char c < (128 :: nat) then [of_char c]
     else [0xC0 + of_char c div 64, 0x80 + of_char c mod 64]) s)"

lemma length_js_bytes: "length (js_bytes s) = js_byteLength s"
  by (induction s) (simp_all add: js_bytes_def js_byteLength_def)

lemma js_bytes_append [simp]: "js_bytes (s @ t) = js_bytes s @ js_bytes t"
  by (simp add: js_bytes_def)

fun join_with :: "'a list \<Rightarrow> 'a list list \<Rightarrow> 'a list" where
  "join_with sep [] = []"
| "join_with sep [s] = s"
| "join_with sep (s # ss) = s @ sep @ join_with sep ss"

text \<open>\<open>split\<close> at a character.\<close>

fun split_char :: "'a \<Rightarrow> 'a list \<Rightarrow> 'a list list" where
  "split_char sep [] = [[]]"
| "split_char sep (c # cs) =
     (if c = sep then [] # split_char sep cs else (c # hd (split_char sep cs)) # tl (split_char sep cs))"

lemma split_char_not_Nil [simp]: "split_char sep s \<noteq> []"
  by (cases s) auto

lemma split_char_none: "sep \<notin> set s \<Longrightarrow> split_char sep s = [s]"
  by (induction s) auto

lemma split_char_append: "sep \<notin> set s \<Longrightarrow> split_char sep (s @ sep # r) = s # split_char sep r"
  by (induction s) auto

lemma join_split_char: "join_with [sep] (split_char sep s) = s"
proof (induction s)
  case (Cons c cs)
  show ?case
  proof (cases "split_char sep cs")
    case (Cons x xs)
    with Cons.IH show ?thesis by (cases xs) auto
  qed simp
qed simp

text \<open>\<open>toLowerCase\<close> on the first 256 code units.\<close>

definition js_lower :: "char \<Rightarrow> char" where
  "js_lower c = (let n = of_char c :: int in
     if 65 \<le> n \<and> n \<le> 90 \<or> 192 \<le> n \<and> n \<le> 222 \<and> n \<noteq> 215 then char_of (n + 32) else c)"

end
