(* ===== verification/Utf8_Boundary.thy ===== *)
theory Utf8_Boundary
  imports Prelude
begin

text \<open>
  \<open>src/src/core/utf8-boundary.ts\<close>: \<open>completeUtf8Span\<close> finds the whole characters of a byte
  window, so that a log cursor never returns half a character. The Node.js encoder and decoder
  (\<open>Buffer.from(s, "utf8")\<close>, \<open>buf.toString("utf8")\<close>) are written out as \<open>utf8_encode\<close> and
  \<open>utf8_decode\<close>; the decoder replaces ill-formed input by U+FFFD as the WHATWG algorithm does.
  The lemmas show that the decoder inverts the encoder and that the span of any window of an
  encoded string is the encoding of a run of its characters.
\<close>

unbundle bit_operations_syntax

section \<open>The code's byte tests and loops\<close>

definition sequenceLength :: "byte \<Rightarrow> nat" where
  "sequenceLength lead =
     (if lead < 0x80 then 1
      else if lead AND 0xe0 = 0xc0 then 2
      else if lead AND 0xf0 = 0xe0 then 3
      else if lead AND 0xf8 = 0xf0 then 4
      else 1)"

definition isContinuation :: "byte \<Rightarrow> bool" where
  "isContinuation b \<longleftrightarrow> b AND 0xc0 = 0x80"

text \<open>\<open>while (start < bytes.length && start < 3 && isContinuation(bytes[start])) start += 1\<close>\<close>

function span_start :: "byte list \<Rightarrow> nat \<Rightarrow> nat" where
  "span_start bytes start =
     (if start < length bytes \<and> start < 3 \<and> isContinuation (bytes ! start)
      then span_start bytes (Suc start) else start)"
  by pat_completeness auto
termination
  by (relation "measure (\<lambda>(bytes, start). 3 - start)") auto

text \<open>
  \<open>for (index = length - 1; index >= lo; index -= 1)\<close> with \<open>lo = max(start, length - 4)\<close>:
  the value of \<open>end\<close> when the loop is left.
\<close>

function span_end :: "byte list \<Rightarrow> int \<Rightarrow> int \<Rightarrow> nat" where
  "span_end bytes lo index =
     (if index < lo \<or> index < 0 then length bytes
      else if isContinuation (bytes ! nat index) then span_end bytes lo (index - 1)
      else if nat index + sequenceLength (bytes ! nat index) > length bytes then nat index
      else length bytes)"
  by pat_completeness auto
termination
  by (relation "measure (\<lambda>(bytes, lo, index). nat (index + 1))") auto

declare span_start.simps [simp del] span_end.simps [simp del]

definition completeUtf8Span :: "byte list \<Rightarrow> nat \<times> nat" where
  "completeUtf8Span bytes =
     (let start = span_start bytes 0;
          n = int (length bytes);
          lo = max (int start) (n - 4)
      in (start, span_end bytes lo (n - 1)))"

section \<open>The Node.js UTF-8 encoder and decoder\<close>

definition scalar :: "nat \<Rightarrow> bool" where
  "scalar c \<longleftrightarrow> c < 0x110000 \<and> \<not> (0xD800 \<le> c \<and> c \<le> 0xDFFF)"

definition wf_str :: "ustring \<Rightarrow> bool" where
  "wf_str s \<longleftrightarrow> list_all scalar s"

definition encode_cp :: "nat \<Rightarrow> byte list" where
  "encode_cp c =
     (if c < 0x80 then [of_nat c]
      else if c < 0x800 then [of_nat (0xC0 + c div 64), of_nat (0x80 + c mod 64)]
      else if \<not> scalar c then [0xEF, 0xBF, 0xBD]
      else if c < 0x10000 then
        [of_nat (0xE0 + c div 4096), of_nat (0x80 + c div 64 mod 64), of_nat (0x80 + c mod 64)]
      else
        [of_nat (0xF0 + c div 262144), of_nat (0x80 + c div 4096 mod 64),
         of_nat (0x80 + c div 64 mod 64), of_nat (0x80 + c mod 64)])"

definition utf8_encode :: "ustring \<Rightarrow> byte list" where
  "utf8_encode s = concat (map encode_cp s)"

definition byteLength :: "ustring \<Rightarrow> nat" where
  "byteLength s = length (utf8_encode s)"

text \<open>
  The decoder: \<open>utf8_dec cp needed lo hi bytes\<close> has accumulated \<open>cp\<close>, waits for \<open>needed\<close>
  more bytes and accepts the next one between \<open>lo\<close> and \<open>hi\<close>. A byte out of range ends the
  sequence with U+FFFD and is read again as a lead byte.
\<close>

function (sequential) utf8_dec :: "nat \<Rightarrow> nat \<Rightarrow> nat \<Rightarrow> nat \<Rightarrow> byte list \<Rightarrow> ustring" where
  "utf8_dec cp needed lo hi [] = (if needed = 0 then [] else [0xFFFD])"
| "utf8_dec cp 0 lo hi (b # bs) =
     (let n = unat b in
      if n < 0x80 then n # utf8_dec 0 0 0x80 0xBF bs
      else if 0xC2 \<le> n \<and> n \<le> 0xDF then utf8_dec (n - 0xC0) 1 0x80 0xBF bs
      else if 0xE0 \<le> n \<and> n \<le> 0xEF then
        utf8_dec (n - 0xE0) 2 (if n = 0xE0 then 0xA0 else 0x80) (if n = 0xED then 0x9F else 0xBF) bs
      else if 0xF0 \<le> n \<and> n \<le> 0xF4 then
        utf8_dec (n - 0xF0) 3 (if n = 0xF0 then 0x90 else 0x80) (if n = 0xF4 then 0x8F else 0xBF) bs
      else 0xFFFD # utf8_dec 0 0 0x80 0xBF bs)"
| "utf8_dec cp (Suc k) lo hi (b # bs) =
     (let n = unat b in
      if lo \<le> n \<and> n \<le> hi then
        (let cp' = cp * 64 + (n - 0x80) in
         if k = 0 then cp' # utf8_dec 0 0 0x80 0xBF bs else utf8_dec cp' k 0x80 0xBF bs)
      else 0xFFFD # utf8_dec 0 0 0x80 0xBF (b # bs))"
  by pat_completeness auto
termination
  by (relation "measures [\<lambda>(cp, needed, lo, hi, bs). length bs, \<lambda>(cp, needed, lo, hi, bs). needed]")
    auto

definition utf8_decode :: "byte list \<Rightarrow> ustring" where
  "utf8_decode bs = utf8_dec 0 0 0x80 0xBF bs"

section \<open>Bytes by value\<close>

lemma all_bytes:
  assumes "list_all (\<lambda>n. P (word_of_nat n :: byte)) [0..<256]"
  shows "P b"
proof -
  have "unat b \<in> set [0..<256]"
    using unsigned_less [of b] by simp
  with assms have "P (word_of_nat (unat b))" by (simp only: list_all_iff)
  then show ?thesis by simp
qed

lemma isContinuation_unat: "isContinuation b \<longleftrightarrow> 128 \<le> unat b \<and> unat b < 192"
  by (rule all_bytes [where P = "\<lambda>b. isContinuation b \<longleftrightarrow> 128 \<le> unat b \<and> unat b < 192"]) code_simp

lemma sequenceLength_unat:
  "sequenceLength b =
    (if unat b < 192 then 1 else if unat b < 224 then 2 else if unat b < 240 then 3
     else if unat b < 248 then 4 else 1)"
  by (rule all_bytes [where P = "\<lambda>b. sequenceLength b =
    (if unat b < 192 then 1 else if unat b < 224 then 2 else if unat b < 240 then 3
     else if unat b < 248 then 4 else 1)"]) code_simp

lemma unat_of_nat_byte: "n < 256 \<Longrightarrow> unat (word_of_nat n :: byte) = n"
  by (simp add: unat_of_nat)

section \<open>The decoder inverts the encoder\<close>

lemma unat_small_sum: "a + b < 256 \<Longrightarrow> unat (word_of_nat (a + b) :: byte) = a + b"
  by (rule unat_of_nat_byte)

lemma digits64_3: "((c::nat) div 4096 * 64 + c div 64 mod 64) * 64 + c mod 64 = c"
proof -
  have "c div 4096 = c div 64 div 64" by (simp add: div_mult2_eq [symmetric])
  then show ?thesis by simp
qed

lemma digits64_4:
  "(((c::nat) div 262144 * 64 + c div 4096 mod 64) * 64 + c div 64 mod 64) * 64 + c mod 64 = c"
proof -
  have "c div 262144 = c div 64 div 4096" "c div 4096 = c div 64 div 64"
    by (simp_all add: div_mult2_eq [symmetric])
  then show ?thesis using digits64_3 [of "c div 64"] by simp
qed

lemma utf8_dec_lead2:
  "unat b = 0xC0 + x \<Longrightarrow> 2 \<le> x \<Longrightarrow> x \<le> 31 \<Longrightarrow>
    utf8_dec cp 0 lo hi (b # bs) = utf8_dec x (Suc 0) 0x80 0xBF bs"
  by (simp add: Let_def)

lemma utf8_dec_lead3:
  "unat b = 0xE0 + x \<Longrightarrow> x < 16 \<Longrightarrow>
    utf8_dec cp 0 lo hi (b # bs) =
    utf8_dec x (Suc (Suc 0)) (if x = 0 then 0xA0 else 0x80) (if x = 13 then 0x9F else 0xBF) bs"
  by (simp add: Let_def numeral_2_eq_2)

lemma utf8_dec_lead4:
  "unat b = 0xF0 + x \<Longrightarrow> x < 5 \<Longrightarrow>
    utf8_dec cp 0 lo hi (b # bs) =
    utf8_dec x (Suc (Suc (Suc 0))) (if x = 0 then 0x90 else 0x80) (if x = 4 then 0x8F else 0xBF) bs"
  by (simp add: Let_def numeral_3_eq_3)

lemma utf8_dec_mid:
  "unat b = 0x80 + y \<Longrightarrow> lo \<le> 0x80 + y \<Longrightarrow> 0x80 + y \<le> hi \<Longrightarrow>
    utf8_dec cp (Suc (Suc k)) lo hi (b # bs) = utf8_dec (cp * 64 + y) (Suc k) 0x80 0xBF bs"
  by (simp add: Let_def)

lemma utf8_dec_last:
  "unat b = 0x80 + y \<Longrightarrow> lo \<le> 0x80 + y \<Longrightarrow> 0x80 + y \<le> hi \<Longrightarrow>
    utf8_dec cp (Suc 0) lo hi (b # bs) = (cp * 64 + y) # utf8_dec 0 0 0x80 0xBF bs"
  by (simp add: Let_def)

lemma utf8_dec_encode_cp:
  assumes "scalar c"
  shows "utf8_dec cp 0 lo hi (encode_cp c @ r) = c # utf8_dec 0 0 0x80 0xBF r"
proof -
  have range: "c < 0x110000" "\<not> (0xD800 \<le> c \<and> c \<le> 0xDFFF)"
    using assms by (auto simp: scalar_def)
  consider (one) "c < 0x80" | (two) "0x80 \<le> c" "c < 0x800"
    | (three) "0x800 \<le> c" "c < 0x10000" | (four) "0x10000 \<le> c"
    by linarith
  then show ?thesis
  proof cases
    case one
    then show ?thesis by (simp add: encode_cp_def unat_of_nat_byte)
  next
    case two
    define x y where "x = c div 64" and "y = c mod 64"
    have b: "x \<le> 31" "2 \<le> x" "y < 64" and c: "c = x * 64 + y"
      using two by (auto simp: x_def y_def)
    have u: "unat (word_of_nat (0xC0 + x) :: byte) = 0xC0 + x"
      "unat (word_of_nat (0x80 + y) :: byte) = 0x80 + y"
      by (rule unat_of_nat_byte, use b in simp)+
    have e: "encode_cp c = [of_nat (0xC0 + x), of_nat (0x80 + y)]"
      using two by (simp add: encode_cp_def x_def y_def del: of_nat_add)
    show ?thesis
      unfolding e append_Cons append_Nil utf8_dec_lead2 [OF u(1) b(2,1)]
      using utf8_dec_last [OF u(2)] b(3) c by simp
  next
    case three
    define x y z where "x = c div 4096" and "y = c div 64 mod 64" and "z = c mod 64"
    have b: "x < 16" "y < 64" "z < 64" 
      using three by (simp_all add: x_def y_def z_def)
    have c: "c = (x * 64 + y) * 64 + z"
      unfolding x_def y_def z_def by (rule digits64_3 [symmetric])
    have u: "unat (word_of_nat (0xE0 + x) :: byte) = 0xE0 + x"
      "unat (word_of_nat (0x80 + y) :: byte) = 0x80 + y"
      "unat (word_of_nat (0x80 + z) :: byte) = 0x80 + z"
      by (rule unat_of_nat_byte, use b in simp)+
    have lo: "x = 0 \<Longrightarrow> 32 \<le> y" and hi: "x = 13 \<Longrightarrow> y < 32"
      using three range b unfolding c by auto
    have e: "encode_cp c = [of_nat (0xE0 + x), of_nat (0x80 + y), of_nat (0x80 + z)]"
      using three assms by (simp add: encode_cp_def x_def y_def z_def del: of_nat_add)
    have "utf8_dec x (Suc (Suc 0)) (if x = 0 then 0xA0 else 0x80) (if x = 13 then 0x9F else 0xBF)
        (of_nat (0x80 + y) # of_nat (0x80 + z) # r)
      = utf8_dec (x * 64 + y) (Suc 0) 0x80 0xBF (of_nat (0x80 + z) # r)"
      by (rule utf8_dec_mid [OF u(2)]) (use b lo hi in auto)
    moreover have "utf8_dec (x * 64 + y) (Suc 0) 0x80 0xBF (of_nat (0x80 + z) # r)
      = ((x * 64 + y) * 64 + z) # utf8_dec 0 0 0x80 0xBF r"
      by (rule utf8_dec_last [OF u(3)]) (use b in auto)
    ultimately show ?thesis
      unfolding e append_Cons append_Nil utf8_dec_lead3 [OF u(1) b(1)]
      by (simp only: c [symmetric])
  next
    case four
    define w x y z where "w = c div 262144" and "x = c div 4096 mod 64"
      and "y = c div 64 mod 64" and "z = c mod 64"
    have b: "w < 5" "x < 64" "y < 64" "z < 64" 
      using four range by (simp_all add: w_def x_def y_def z_def)
    have c: "c = ((w * 64 + x) * 64 + y) * 64 + z"
      unfolding w_def x_def y_def z_def by (rule digits64_4 [symmetric])
    have u: "unat (word_of_nat (0xF0 + w) :: byte) = 0xF0 + w"
      "unat (word_of_nat (0x80 + x) :: byte) = 0x80 + x"
      "unat (word_of_nat (0x80 + y) :: byte) = 0x80 + y"
      "unat (word_of_nat (0x80 + z) :: byte) = 0x80 + z"
      by (rule unat_of_nat_byte, use b in simp)+
    have lo: "w = 0 \<Longrightarrow> 16 \<le> x" and hi: "w = 4 \<Longrightarrow> x < 16"
      using four range b unfolding c by auto
    have e: "encode_cp c =
        [of_nat (0xF0 + w), of_nat (0x80 + x), of_nat (0x80 + y), of_nat (0x80 + z)]"
      using four assms by (simp add: encode_cp_def w_def x_def y_def z_def del: of_nat_add)
    have "utf8_dec w (Suc (Suc (Suc 0))) (if w = 0 then 0x90 else 0x80)
        (if w = 4 then 0x8F else 0xBF)
        (of_nat (0x80 + x) # of_nat (0x80 + y) # of_nat (0x80 + z) # r)
      = utf8_dec (w * 64 + x) (Suc (Suc 0)) 0x80 0xBF (of_nat (0x80 + y) # of_nat (0x80 + z) # r)"
      by (rule utf8_dec_mid [OF u(2)]) (use b lo hi in auto)
    moreover have "utf8_dec (w * 64 + x) (Suc (Suc 0)) 0x80 0xBF
        (of_nat (0x80 + y) # of_nat (0x80 + z) # r)
      = utf8_dec ((w * 64 + x) * 64 + y) (Suc 0) 0x80 0xBF (of_nat (0x80 + z) # r)"
      by (rule utf8_dec_mid [OF u(3)]) (use b in auto)
    moreover have "utf8_dec ((w * 64 + x) * 64 + y) (Suc 0) 0x80 0xBF (of_nat (0x80 + z) # r)
      = (((w * 64 + x) * 64 + y) * 64 + z) # utf8_dec 0 0 0x80 0xBF r"
      by (rule utf8_dec_last [OF u(4)]) (use b in auto)
    ultimately show ?thesis
      unfolding e append_Cons append_Nil utf8_dec_lead4 [OF u(1) b(1)]
      by (simp only: c [symmetric])
  qed
qed

lemma utf8_encode_simps [simp]:
  "utf8_encode [] = []"
  "utf8_encode (c # s) = encode_cp c @ utf8_encode s"
  "utf8_encode (s @ t) = utf8_encode s @ utf8_encode t"
  by (simp_all add: utf8_encode_def)

lemma wf_str_simps [simp]:
  "wf_str []" "wf_str (c # s) \<longleftrightarrow> scalar c \<and> wf_str s" "wf_str (s @ t) \<longleftrightarrow> wf_str s \<and> wf_str t"
  by (simp_all add: wf_str_def)

lemma utf8_dec_encode:
  "wf_str s \<Longrightarrow> utf8_dec cp 0 lo hi (utf8_encode s @ r) = s @ utf8_dec 0 0 0x80 0xBF r"
proof (induction s arbitrary: cp lo hi)
  case Nil
  then show ?case by (cases r) simp_all
next
  case (Cons c s)
  then show ?case by (simp add: utf8_dec_encode_cp)
qed

lemma utf8_decode_encode: "wf_str s \<Longrightarrow> utf8_decode (utf8_encode s) = s"
  using utf8_dec_encode [of s 0 "0x80" "0xBF" "[]"] by (simp add: utf8_decode_def)

section \<open>Characters as blocks of bytes\<close>

definition utf8_block :: "byte list \<Rightarrow> bool" where
  "utf8_block bs \<longleftrightarrow> bs \<noteq> [] \<and> \<not> isContinuation (hd bs) \<and> list_all isContinuation (tl bs)
     \<and> sequenceLength (hd bs) = length bs \<and> length bs \<le> 4"

lemma utf8_block_encode_cp: "utf8_block (encode_cp c)"
proof -
  consider (one) "c < 0x80" | (two) "0x80 \<le> c" "c < 0x800"
    | (bad) "0x800 \<le> c" "\<not> scalar c"
    | (three) "0x800 \<le> c" "scalar c" "c < 0x10000" | (four) "0x10000 \<le> c" "scalar c"
    by linarith
  then show ?thesis
  proof cases
    case one
    then show ?thesis
      by (simp add: utf8_block_def encode_cp_def isContinuation_unat sequenceLength_unat
          unat_of_nat_byte)
  next
    case two
    have "unat (word_of_nat (0xC0 + c div 64) :: byte) = 0xC0 + c div 64"
      "unat (word_of_nat (0x80 + c mod 64) :: byte) = 0x80 + c mod 64"
      by (rule unat_of_nat_byte, use two in simp)+
    then show ?thesis using two
      by (simp add: utf8_block_def encode_cp_def isContinuation_unat sequenceLength_unat
          div_less_iff_less_mult del: of_nat_add)
  next
    case bad
    then show ?thesis
      by (simp add: utf8_block_def encode_cp_def isContinuation_unat sequenceLength_unat)
  next
    case three
    have "unat (word_of_nat (0xE0 + c div 4096) :: byte) = 0xE0 + c div 4096"
      "unat (word_of_nat (0x80 + c div 64 mod 64) :: byte) = 0x80 + c div 64 mod 64"
      "unat (word_of_nat (0x80 + c mod 64) :: byte) = 0x80 + c mod 64"
      by (rule unat_of_nat_byte, use three in simp)+
    then show ?thesis using three
      by (simp add: utf8_block_def encode_cp_def isContinuation_unat sequenceLength_unat
          div_less_iff_less_mult del: of_nat_add)
  next
    case four
    then have "c < 0x110000" by (simp add: scalar_def)
    have "unat (word_of_nat (0xF0 + c div 262144) :: byte) = 0xF0 + c div 262144"
      "unat (word_of_nat (0x80 + c div 4096 mod 64) :: byte) = 0x80 + c div 4096 mod 64"
      "unat (word_of_nat (0x80 + c div 64 mod 64) :: byte) = 0x80 + c div 64 mod 64"
      "unat (word_of_nat (0x80 + c mod 64) :: byte) = 0x80 + c mod 64"
      by (rule unat_of_nat_byte, use \<open>c < 0x110000\<close> in simp)+
    then show ?thesis using four \<open>c < 0x110000\<close>
      by (simp add: utf8_block_def encode_cp_def isContinuation_unat sequenceLength_unat
          div_less_iff_less_mult del: of_nat_add)
  qed
qed

lemma utf8_blockE:
  assumes "utf8_block b"
  obtains lead cs where "b = lead # cs" "\<not> isContinuation lead" "list_all isContinuation cs"
    "sequenceLength lead = Suc (length cs)" "length cs \<le> 3"
  using assms by (cases b) (auto simp: utf8_block_def)

lemma span_start_run:
  assumes "list_all isContinuation q" "length q \<le> 3" "r = [] \<or> \<not> isContinuation (hd r)"
    "i \<le> length q"
  shows "span_start (q @ r) i = length q"
  using assms(4)
proof (induction "length q - i" arbitrary: i)
  case 0
  then have i: "i = length q" by simp
  have "\<not> (i < length (q @ r) \<and> i < 3 \<and> isContinuation ((q @ r) ! i))"
    using assms(3) i by (cases r) auto
  then show ?case using i by (subst span_start.simps) (simp only: if_False)
next
  case (Suc d)
  then have "i < length q" by simp
  moreover have "isContinuation (q ! i)"
    using assms(1) \<open>i < length q\<close> by (simp add: list_all_length)
  ultimately show ?case
    using Suc assms(2) by (subst span_start.simps) (simp add: nth_append)
qed

lemma span_end_low: "index < lo \<Longrightarrow> span_end bytes lo index = length bytes"
  by (subst span_end.simps) simp

lemma span_end_run:
  assumes "list_all isContinuation cs" "\<not> isContinuation lead" "lo \<le> int (length a)"
    "k \<le> length cs"
  shows "span_end (a @ lead # cs) lo (int (length a + k)) =
    (if length a + sequenceLength lead > length (a @ lead # cs) then length a
     else length (a @ lead # cs))"
  using assms(4)
proof (induction k)
  case 0
  then show ?case using assms(2,3) by (subst span_end.simps) simp
next
  case (Suc k)
  have "isContinuation ((a @ lead # cs) ! (length a + Suc k))"
    using assms(1) Suc.prems by (simp add: nth_append list_all_length)
  moreover have "nat (int (length a + Suc k)) = length a + Suc k" by simp
  moreover have "\<not> (int (length a + Suc k) < lo \<or> int (length a + Suc k) < 0)"
    using assms(3) by linarith
  moreover have "int (length a + Suc k) - 1 = int (length a + k)" by simp
  ultimately show ?case
    using Suc by (subst span_end.simps) (simp only: if_False if_True Suc_leD)
qed

text \<open>
  The span of \<open>q @ whole blocks @ p\<close>, where \<open>q\<close> is the tail of a character and \<open>p\<close> the
  head of one: exactly the whole blocks.
\<close>

lemma completeUtf8Span_blocks:
  assumes q: "list_all isContinuation q" "length q \<le> 3"
    and bl: "list_all utf8_block bl"
    and p: "p = [] \<or> (\<exists>r. r \<noteq> [] \<and> utf8_block (p @ r))"
  shows "completeUtf8Span (q @ concat bl @ p) = (length q, length q + length (concat bl))"
proof -
  let ?w = "q @ concat bl @ p"
  have hd: "concat bl @ p = [] \<or> \<not> isContinuation (hd (concat bl @ p))"
  proof (cases bl)
    case Nil
    with p show ?thesis by (cases p) (auto simp: utf8_block_def)
  next
    case (Cons b bs)
    with bl show ?thesis by (cases b) (auto simp: utf8_block_def)
  qed
  have start: "span_start ?w 0 = length q"
    using span_start_run [OF q hd, of 0] by simp
  have tail: "span_end ?w (max (int (length q)) (int (length ?w) - 4)) (int (length ?w) - 1)
      = length q + length (concat bl)"
  proof (cases "concat bl @ p = []")
    case True
    then have "?w = q" and "length (concat bl) = 0" by (metis append_Nil2, simp)
    moreover have "int (length q) - 1 < max (int (length q)) (int (length q) - 4)" by simp
    ultimately show ?thesis by (simp only: span_end_low add_0_right)
  next
    case False
    have "\<exists>a lead cs. concat bl @ p = a @ lead # cs \<and> \<not> isContinuation lead
        \<and> list_all isContinuation cs \<and> length cs \<le> 3
        \<and> (if length a + sequenceLength lead > length a + Suc (length cs) then length a
            else length a + Suc (length cs)) = length (concat bl)"
    proof (cases "p = []")
      case True
      with False obtain bl' b where b: "bl = bl' @ [b]" by (cases bl rule: rev_cases) auto
      with bl have "utf8_block b" by simp
      then obtain lead cs where "b = lead # cs" "\<not> isContinuation lead"
        "list_all isContinuation cs" "sequenceLength lead = Suc (length cs)" "length cs \<le> 3"
        by (rule utf8_blockE)
      with True b show ?thesis
        by (intro exI [of _ "concat bl'"] exI [of _ lead] exI [of _ cs]) simp
    next
      case False
      with p obtain r where "r \<noteq> []" and "utf8_block (p @ r)" by blast
      from this(2) obtain lead ds where ds: "p @ r = lead # ds" "\<not> isContinuation lead"
        "list_all isContinuation ds" "sequenceLength lead = Suc (length ds)" "length ds \<le> 3"
        by (rule utf8_blockE)
      from False ds(1) obtain cs where cs: "p = lead # cs" "ds = cs @ r" by (cases p) auto
      with ds \<open>r \<noteq> []\<close> show ?thesis
        by (intro exI [of _ "concat bl"] exI [of _ lead] exI [of _ cs]) simp
    qed
    then obtain a lead cs where split: "concat bl @ p = a @ lead # cs"
      and lead: "\<not> isContinuation lead" and cs: "list_all isContinuation cs" "length cs \<le> 3"
      and val: "(if length a + sequenceLength lead > length a + Suc (length cs) then length a
            else length a + Suc (length cs)) = length (concat bl)"
      by blast
    have w: "?w = (q @ a) @ lead # cs" using split by simp
    have last: "int (length ?w) - 1 = int (length (q @ a) + length cs)"
      unfolding w by simp
    have lo: "max (int (length q)) (int (length ?w) - 4) \<le> int (length (q @ a))"
      unfolding w using cs(2) by simp
    show ?thesis
      unfolding last unfolding w
      using span_end_run [OF cs(1) lead lo [unfolded w] order_refl] val
      by (auto split: if_splits)
  qed
  show ?thesis
    unfolding completeUtf8Span_def Let_def start using tail by simp
qed

section \<open>Windows of an encoded string\<close>

lemma blocks_of_string: "list_all utf8_block (map encode_cp s)"
  by (simp add: list_all_iff utf8_block_encode_cp)

lemma utf8_encode_prefix:
  assumes "w @ post = utf8_encode s"
  shows "\<exists>s1 s2 p. s = s1 @ s2 \<and> w = utf8_encode s1 @ p
    \<and> (p = [] \<or> (\<exists>c r s3. s2 = c # s3 \<and> encode_cp c = p @ r \<and> r \<noteq> []))"
  using assms
proof (induction s arbitrary: w)
  case Nil
  then show ?case by simp
next
  case (Cons c s)
  show ?case
  proof (cases "length w < length (encode_cp c)")
    case True
    with Cons.prems have w: "w = take (length w) (encode_cp c)"
      by (simp add: append_eq_append_conv_if)
    then have "encode_cp c = w @ drop (length w) (encode_cp c)"
      by (metis append_take_drop_id)
    moreover have "drop (length w) (encode_cp c) \<noteq> []" using True by simp
    ultimately show ?thesis
      by (intro exI [of _ "[]"] exI [of _ "c # s"] exI [of _ w]) auto
  next
    case False
    with Cons.prems obtain w' where w': "w = encode_cp c @ w'" "w' @ post = utf8_encode s"
      using append_longer [of w post "encode_cp c" "utf8_encode s"] by auto
    from Cons.IH [OF w'(2)] obtain s1 s2 p where "s = s1 @ s2" "w' = utf8_encode s1 @ p"
      and p: "p = [] \<or> (\<exists>c r s3. s2 = c # s3 \<and> encode_cp c = p @ r \<and> r \<noteq> [])"
      by blast
    with w'(1) show ?thesis
      by (intro exI [of _ "c # s1"] exI [of _ s2] exI [of _ p]) simp
  qed
qed

lemma partial_char:
  assumes "encode_cp c = p @ r" "r \<noteq> []"
  shows "p = [] \<or> (\<exists>r. r \<noteq> [] \<and> utf8_block (p @ r))" "length p \<le> 3"
proof -
  have "utf8_block (p @ r)" using utf8_block_encode_cp [of c] assms(1) by simp
  then show "p = [] \<or> (\<exists>r. r \<noteq> [] \<and> utf8_block (p @ r))"
    using assms(2) by blast
  from \<open>utf8_block (p @ r)\<close> have "length p + length r \<le> 4" by (simp add: utf8_block_def)
  moreover have "0 < length r" using assms(2) by simp
  ultimately show "length p \<le> 3" by linarith
qed

lemma char_tail:
  assumes "encode_cp c = p @ r" "p \<noteq> []"
  shows "list_all isContinuation r" "length r \<le> 3"
proof -
  have "utf8_block (p @ r)" using utf8_block_encode_cp [of c] assms(1) by simp
  with assms(2) show "list_all isContinuation r" "length r \<le> 3"
    by (auto simp: utf8_block_def neq_Nil_conv)
qed

text \<open>
  \<open>partial_of p s\<close>: the bytes \<open>p\<close> are the beginning of the first character of \<open>s\<close>, without its
  end (or there are none).
\<close>

definition partial_of :: "byte list \<Rightarrow> ustring \<Rightarrow> bool" where
  "partial_of p s \<longleftrightarrow> p = [] \<or> (\<exists>c r s'. s = c # s' \<and> encode_cp c = p @ r \<and> r \<noteq> [])"

lemma partial_of_Nil [simp]: "partial_of [] s"
  by (simp add: partial_of_def)

lemma partial_of_length: "partial_of p s \<Longrightarrow> length p \<le> 3"
  unfolding partial_of_def using partial_char(2) by fastforce

lemma partial_of_whole: "partial_of (utf8_encode s) s \<Longrightarrow> s = []"
proof (cases s)
  case (Cons c t)
  have "encode_cp c \<noteq> []" using utf8_block_encode_cp [of c] by (simp add: utf8_block_def)
  moreover assume "partial_of (utf8_encode s) s"
  ultimately show ?thesis using Cons by (auto simp: partial_of_def)
qed simp

text \<open>A window that starts at a character boundary.\<close>

lemma span_at_boundary:
  assumes "w @ post = utf8_encode s"
  shows "\<exists>s1 s2 p. s = s1 @ s2 \<and> w = utf8_encode s1 @ p \<and> partial_of p s2
    \<and> completeUtf8Span w = (0, byteLength s1)"
proof -
  from utf8_encode_prefix [OF assms] obtain s1 s2 p where s: "s = s1 @ s2"
    and w: "w = utf8_encode s1 @ p" and p: "partial_of p s2"
    unfolding partial_of_def by blast
  from p have "p = [] \<or> (\<exists>r. r \<noteq> [] \<and> utf8_block (p @ r))"
    unfolding partial_of_def using partial_char by metis
  then have "completeUtf8Span ([] @ concat (map encode_cp s1) @ p) = (0, byteLength s1)"
    using completeUtf8Span_blocks [OF _ _ blocks_of_string [of s1], of "[]" p]
    by (simp add: byteLength_def utf8_encode_def)
  then have "completeUtf8Span w = (0, byteLength s1)"
    by (simp add: w utf8_encode_def)
  with s w p show ?thesis by blast
qed

text \<open>A window that starts inside a character: the code skips the rest of that character.\<close>

lemma span_inside_char:
  assumes "r @ utf8_encode s = w @ post" "encode_cp c = p @ r" "p \<noteq> []"
  shows "\<exists>q s1 s2 p'. s = s1 @ s2 \<and> w = q @ utf8_encode s1 @ p' \<and> length p' \<le> 3 \<and> length q \<le> 3
    \<and> completeUtf8Span w = (length q, length q + byteLength s1)"
proof (cases "length w \<le> length r")
  case True
  then have "w = take (length w) r" using assms(1)
    by (metis append_eq_append_conv_if take_all_iff)
  then have "list_all isContinuation w" "length w \<le> 3"
    using char_tail [OF assms(2,3)] True by (metis append_take_drop_id list_all_append, simp)
  then have "completeUtf8Span w = (length w, length w + byteLength [])"
    using completeUtf8Span_blocks [of w "[]" "[]"] by (simp add: byteLength_def)
  with \<open>length w \<le> 3\<close> show ?thesis
    by (intro exI [of _ w] exI [of _ "[]"] exI [of _ s]) simp
next
  case False
  with assms(1) obtain w' where w': "w = r @ w'" "w' @ post = utf8_encode s"
    using append_longer [of w post r "utf8_encode s"] by auto
  from utf8_encode_prefix [OF w'(2)] obtain s1 s2 p' where s: "s = s1 @ s2"
    and w: "w' = utf8_encode s1 @ p'"
    and p: "p' = [] \<or> (\<exists>c r s3. s2 = c # s3 \<and> encode_cp c = p' @ r \<and> r \<noteq> [])"
    by blast
  from p have "p' = [] \<or> (\<exists>r. r \<noteq> [] \<and> utf8_block (p' @ r))" and len: "length p' \<le> 3"
    using partial_char by (metis, force)
  then have "completeUtf8Span w = (length r, length r + byteLength s1)"
    using completeUtf8Span_blocks [OF char_tail [OF assms(2,3)] blocks_of_string [of s1], of p']
    by (simp add: w' w byteLength_def utf8_encode_def)
  with s w w' len char_tail [OF assms(2,3)] show ?thesis by blast
qed

text \<open>
  The span of any window of an encoded string holds exactly the characters that lie wholly
  inside the window: at most three bytes are dropped on each side, and what is kept decodes
  (with the Node.js decoder) to a run of consecutive characters of the string.
\<close>

theorem completeUtf8Span_window:
  assumes wf: "wf_str s" and eq: "utf8_encode s = pre @ w @ post"
  shows "\<exists>s1 s2 s3 st en. s = s1 @ s2 @ s3 \<and> completeUtf8Span w = (st, en)
    \<and> st \<le> en \<and> en \<le> length w \<and> st \<le> 3 \<and> length w - en \<le> 3
    \<and> take (en - st) (drop st w) = utf8_encode s2
    \<and> utf8_decode (take (en - st) (drop st w)) = s2"
proof -
  from utf8_encode_prefix [OF eq [symmetric]] obtain s1 s' p where s: "s = s1 @ s'"
    and pre: "pre = utf8_encode s1 @ p"
    and p: "p = [] \<or> (\<exists>c r s3. s' = c # s3 \<and> encode_cp c = p @ r \<and> r \<noteq> [])"
    by blast
  have "\<exists>q sa sb sc p'. s' = sa @ sb @ sc \<and> w = q @ utf8_encode sb @ p' \<and> length p' \<le> 3
      \<and> length q \<le> 3 \<and> completeUtf8Span w = (length q, length q + byteLength sb)"
  proof (cases "p = []")
    case True
    with eq s pre have "w @ post = utf8_encode s'" by simp
    from span_at_boundary [OF this] show ?thesis
      by (metis append_Nil list.size(3) partial_of_length plus_nat.add_0 zero_le)
  next
    case False
    with p obtain c r s3 where c: "s' = c # s3" "encode_cp c = p @ r" by blast
    with eq s pre have "r @ utf8_encode s3 = w @ post" by simp
    from span_inside_char [OF this c(2) False] c(1) show ?thesis
      by (metis append_Cons append_Nil)
  qed
  then obtain q sa sb sc p' where d: "s' = sa @ sb @ sc" "w = q @ utf8_encode sb @ p'"
    "length p' \<le> 3" "length q \<le> 3" "completeUtf8Span w = (length q, length q + byteLength sb)"
    by blast
  have "take (byteLength sb) (drop (length q) w) = utf8_encode sb"
    using d(2) by (simp add: byteLength_def)
  moreover have "utf8_decode (utf8_encode sb) = sb"
    using wf s d(1) by (intro utf8_decode_encode) simp
  ultimately show ?thesis
    using s d by (intro exI [of _ "s1 @ sa"] exI [of _ sb] exI [of _ sc] exI [of _ "length q"]
        exI [of _ "length q + byteLength sb"]) (simp add: byteLength_def)
qed

theorem completeUtf8Span_window_witness:
  "\<exists>s1 s2 s3 st en. [0x41, 0x20AC, 0x42, 0x1F600] = s1 @ s2 @ s3
    \<and> completeUtf8Span [0x82, 0xAC, 0x42, 0xF0, 0x9F] = (st, en) \<and> st \<le> en
    \<and> en \<le> length [0x82, 0xAC, 0x42, 0xF0, 0x9F :: byte] \<and> st \<le> 3
    \<and> length [0x82, 0xAC, 0x42, 0xF0, 0x9F :: byte] - en \<le> 3
    \<and> take (en - st) (drop st [0x82, 0xAC, 0x42, 0xF0, 0x9F]) = utf8_encode s2
    \<and> utf8_decode (take (en - st) (drop st [0x82, 0xAC, 0x42, 0xF0, 0x9F])) = s2"
proof (rule completeUtf8Span_window [where pre = "[0x41, 0xE2]" and post = "[0x98, 0x80]"])
  show "wf_str [0x41, 0x20AC, 0x42, 0x1F600]" by (simp add: scalar_def)
  show "utf8_encode [0x41, 0x20AC, 0x42, 0x1F600] =
      [0x41, 0xE2] @ [0x82, 0xAC, 0x42, 0xF0, 0x9F] @ [0x98, 0x80]"
    by (simp add: encode_cp_def scalar_def)
qed

end
