(* ===== verification/Tail_Buffers.thy ===== *)
theory Tail_Buffers
  imports Utf8_Boundary
begin

text \<open>
  The byte tails that keep the last bytes of a child process's output: the \<open>TailBuffer\<close> of
  \<open>src/src/process/process-supervisor.ts\<close> (with cursor reads) and the \<open>TailBuffer\<close> of
  \<open>src/src/terminal/owner-shell-supervisor.ts\<close>. Both keep the contract of the locale
  \<open>tail_log\<close>: after any sequence of appends the buffer holds exactly the last \<open>maxBytes\<close> bytes
  of the stream, the number of bytes ever seen, and a flag that tells whether something was
  lost. A client that follows a stream with the returned cursor reads every character once.
\<close>

section \<open>The contract of a byte tail\<close>

locale tail_log =
  fixes add :: "nat \<Rightarrow> byte list \<Rightarrow> 'b \<Rightarrow> 'b"
    and fresh :: 'b
    and retained :: "'b \<Rightarrow> byte list"
    and seen :: "'b \<Rightarrow> nat"
    and lossy :: "'b \<Rightarrow> bool"
  assumes fresh_retained: "retained fresh = []"
    and fresh_seen: "seen fresh = 0"
    and fresh_lossy: "\<not> lossy fresh"
    and retained_add: "length (retained b) \<le> mx \<Longrightarrow> retained (add mx c b) = last_n mx (retained b @ c)"
    and seen_add: "seen (add mx c b) = seen b + length c"
    and lossy_add: "length (retained b) \<le> mx \<Longrightarrow>
      lossy (add mx c b) \<longleftrightarrow> lossy b \<or> mx < length (retained b) + length c"
begin

lemma stream_step:
  assumes "retained b = last_n mx xs" "seen b = length xs" "lossy b \<longleftrightarrow> mx < length xs"
  shows "retained (add mx c b) = last_n mx (xs @ c)"
    and "seen (add mx c b) = length (xs @ c)"
    and "lossy (add mx c b) \<longleftrightarrow> mx < length (xs @ c)"
  using assms by (auto simp: retained_add seen_add lossy_add last_n_append)

lemma stream_from:
  assumes "retained b = last_n mx xs" "seen b = length xs" "lossy b \<longleftrightarrow> mx < length xs"
  shows "retained (fold (add mx) cs b) = last_n mx (xs @ concat cs)
    \<and> seen (fold (add mx) cs b) = length (xs @ concat cs)
    \<and> (lossy (fold (add mx) cs b) \<longleftrightarrow> mx < length (xs @ concat cs))"
  using assms
proof (induction cs arbitrary: b xs)
  case Nil
  then show ?case by simp
next
  case (Cons c cs)
  from Cons.IH [OF stream_step [OF Cons.prems]] show ?case by simp
qed

lemma stream:
  "retained (fold (add mx) cs fresh) = last_n mx (concat cs)
    \<and> seen (fold (add mx) cs fresh) = length (concat cs)
    \<and> (lossy (fold (add mx) cs fresh) \<longleftrightarrow> mx < length (concat cs))"
  using stream_from [of fresh mx "[]" cs]
  by (simp add: fresh_retained fresh_seen fresh_lossy last_n_def)

end

section \<open>The process supervisor's TailBuffer\<close>

record tail_buffer =
  tb_value :: "byte list"
  tb_wasTruncated :: bool
  tb_totalBytes :: nat

definition tail_buffer_new :: tail_buffer where
  "tail_buffer_new = \<lparr>tb_value = [], tb_wasTruncated = False, tb_totalBytes = 0\<rparr>"

definition tail_append :: "nat \<Rightarrow> byte list \<Rightarrow> tail_buffer \<Rightarrow> tail_buffer" where
  "tail_append maxBytes chunk b =
     (if chunk = [] then b
      else
        (let b' = b\<lparr>tb_totalBytes := tb_totalBytes b + length chunk\<rparr>;
             combined = tb_value b' @ chunk
         in if length combined \<le> maxBytes then b'\<lparr>tb_value := combined\<rparr>
            else b'\<lparr>tb_wasTruncated := True,
                    tb_value := drop (length combined - maxBytes) combined\<rparr>))"

record log_slice =
  sl_content :: ustring
  sl_bytes :: nat
  sl_truncated :: bool
  sl_nextCursor :: "nat option"

definition tail_snapshot :: "tail_buffer \<Rightarrow> nat option \<Rightarrow> log_slice" where
  "tail_snapshot b cursor = (case cursor of
     None \<Rightarrow>
       (let (start, end) = completeUtf8Span (tb_value b);
            content = take (end - start) (drop start (tb_value b))
        in \<lparr>sl_content = utf8_decode content, sl_bytes = length content,
            sl_truncated = tb_wasTruncated b, sl_nextCursor = None\<rparr>)
   | Some cursor \<Rightarrow>
       (let firstAvailable = tb_totalBytes b - length (tb_value b);
            start = max cursor firstAvailable;
            offset = start - firstAvailable;
            available = drop offset (tb_value b);
            (s, e) = completeUtf8Span available;
            content = take (e - s) (drop s available)
        in \<lparr>sl_content = utf8_decode content, sl_bytes = length content,
            sl_truncated = (cursor < firstAvailable \<or> tb_wasTruncated b),
            sl_nextCursor = Some (tb_totalBytes b - (length available - e))\<rparr>))"

interpretation ptail: tail_log tail_append tail_buffer_new tb_value tb_totalBytes tb_wasTruncated
  by unfold_locales (auto simp: tail_buffer_new_def tail_append_def Let_def last_n_def)

section \<open>The owner shell's TailBuffer\<close>

record shell_tail =
  st_value :: "byte list"
  st_seen :: nat
  st_truncated :: bool

definition shell_tail_new :: shell_tail where
  "shell_tail_new = \<lparr>st_value = [], st_seen = 0, st_truncated = False\<rparr>"

definition shell_tail_append :: "nat \<Rightarrow> byte list \<Rightarrow> shell_tail \<Rightarrow> shell_tail" where
  "shell_tail_append maxBytes chunk b =
     (let b' = b\<lparr>st_seen := st_seen b + length chunk\<rparr>;
          combined = st_value b' @ chunk
      in if length combined \<le> maxBytes then b'\<lparr>st_value := combined\<rparr>
         else b'\<lparr>st_truncated := True,
                 st_value := drop (length combined - maxBytes) combined\<rparr>)"

definition shell_tail_snapshot :: "shell_tail \<Rightarrow> ustring \<times> nat \<times> bool" where
  "shell_tail_snapshot b = (utf8_decode (st_value b), st_seen b, st_truncated b)"

interpretation stail: tail_log shell_tail_append shell_tail_new st_value st_seen st_truncated
  by unfold_locales (auto simp: shell_tail_new_def shell_tail_append_def Let_def last_n_def)

section \<open>What the buffers hold\<close>

text \<open>
  After any sequence of output chunks the process supervisor's buffer holds the last
  \<open>maxBytes\<close> bytes of the stream, has counted every byte, and has its truncation flag set
  exactly when bytes were lost.
\<close>

theorem tail_append_stream:
  "tb_value (fold (tail_append mx) chunks tail_buffer_new) = last_n mx (concat chunks)
    \<and> tb_totalBytes (fold (tail_append mx) chunks tail_buffer_new) = length (concat chunks)
    \<and> (tb_wasTruncated (fold (tail_append mx) chunks tail_buffer_new)
        \<longleftrightarrow> mx < length (concat chunks))"
  by (rule ptail.stream)

text \<open>
  The two tail buffers of the code, written separately, agree: fed the same chunks they
  retain the same bytes, count the same total and report truncation alike.
\<close>

theorem tail_buffers_agree:
  "st_value (fold (shell_tail_append mx) chunks shell_tail_new)
      = tb_value (fold (tail_append mx) chunks tail_buffer_new)
    \<and> st_seen (fold (shell_tail_append mx) chunks shell_tail_new)
      = tb_totalBytes (fold (tail_append mx) chunks tail_buffer_new)
    \<and> st_truncated (fold (shell_tail_append mx) chunks shell_tail_new)
      = tb_wasTruncated (fold (tail_append mx) chunks tail_buffer_new)"
  using ptail.stream [of mx chunks] stail.stream [of mx chunks] by simp

section \<open>Following a stream with the cursor\<close>

definition holds_stream :: "nat \<Rightarrow> byte list \<Rightarrow> tail_buffer \<Rightarrow> bool" where
  "holds_stream mx xs b \<longleftrightarrow> tb_value b = last_n mx xs \<and> tb_totalBytes b = length xs
     \<and> (tb_wasTruncated b \<longleftrightarrow> mx < length xs)"

lemma holds_stream_new [simp]: "holds_stream mx [] tail_buffer_new"
  by (simp add: holds_stream_def tail_buffer_new_def last_n_def)

lemma holds_stream_append: "holds_stream mx xs b \<Longrightarrow> holds_stream mx (xs @ c) (tail_append mx c b)"
  unfolding holds_stream_def using ptail.stream_step [of b mx xs c] by blast

lemma snapshot_at_boundary:
  assumes b: "holds_stream mx xs b"
    and enc: "xs @ post = utf8_encode (s0 @ s')"
    and keep: "length xs - mx \<le> byteLength s0" "byteLength s0 \<le> length xs"
    and wf: "wf_str s'"
  shows "\<exists>s1 s2 p. s' = s1 @ s2 \<and> sl_content (tail_snapshot b (Some (byteLength s0))) = s1
    \<and> sl_nextCursor (tail_snapshot b (Some (byteLength s0))) = Some (byteLength (s0 @ s1))
    \<and> xs = utf8_encode (s0 @ s1) @ p \<and> partial_of p s2"
proof -
  let ?c = "byteLength s0" and ?first = "tb_totalBytes b - length (tb_value b)"
  have first: "?first = length xs - mx" using b by (simp add: holds_stream_def)
  have avail: "drop (?c - ?first) (tb_value b) = drop ?c xs"
    using b keep by (simp add: holds_stream_def last_n_def)
  from enc keep(2) obtain ys where ys: "xs = utf8_encode s0 @ ys" "ys @ post = utf8_encode s'"
    using append_longer [of xs post "utf8_encode s0" "utf8_encode s'"]
    by (auto simp: byteLength_def)
  then have rest: "drop ?c xs = ys" by (simp add: byteLength_def)
  from span_at_boundary [OF ys(2)] obtain s1 s2 p where s: "s' = s1 @ s2"
    and w: "ys = utf8_encode s1 @ p" and p: "partial_of p s2"
    and span: "completeUtf8Span ys = (0, byteLength s1)"
    by blast
  have "max ?c ?first = ?c" using keep first by simp
  then have snap: "tail_snapshot b (Some ?c) =
      \<lparr>sl_content = utf8_decode (take (byteLength s1 - 0) (drop 0 ys)),
        sl_bytes = length (take (byteLength s1 - 0) (drop 0 ys)),
        sl_truncated = (?c < ?first \<or> tb_wasTruncated b),
        sl_nextCursor = Some (tb_totalBytes b - (length ys - byteLength s1))\<rparr>"
    unfolding tail_snapshot_def option.case Let_def
    by (simp only: avail rest span prod.case)
  have "take (byteLength s1) ys = utf8_encode s1" by (simp add: w byteLength_def)
  moreover have "utf8_decode (utf8_encode s1) = s1"
    using wf s by (intro utf8_decode_encode) simp
  moreover have "tb_totalBytes b - (length ys - byteLength s1) = byteLength (s0 @ s1)"
    using b ys(1) w by (simp add: holds_stream_def byteLength_def)
  ultimately show ?thesis using s ys(1) w p snap
    by (intro exI [of _ s1] exI [of _ s2] exI [of _ p]) simp
qed

text \<open>
  A client that polls after every chunk, passing back the cursor it was given, and collects
  the text (the client is not part of the code; it states what the cursor is for).
\<close>

fun follow :: "nat \<Rightarrow> tail_buffer \<Rightarrow> nat \<Rightarrow> byte list list \<Rightarrow> ustring \<times> nat" where
  "follow mx b cursor [] = ([], cursor)"
| "follow mx b cursor (c # cs) =
     (let b' = tail_append mx c b;
          sl = tail_snapshot b' (Some cursor);
          (rest, final) = follow mx b' (the (sl_nextCursor sl)) cs
      in (sl_content sl @ rest, final))"

lemma follow_from:
  assumes "holds_stream mx xs b" "xs @ concat chunks @ post = utf8_encode (s0 @ s')"
    "xs = utf8_encode s0 @ p0" "length p0 \<le> 3" "partial_of p0 s'"
    "\<forall>c \<in> set chunks. length c + 3 \<le> mx" "wf_str s'"
  shows "\<exists>s1 s2 p. s' = s1 @ s2
    \<and> follow mx b (byteLength s0) chunks = (s1, byteLength (s0 @ s1))
    \<and> xs @ concat chunks = utf8_encode (s0 @ s1) @ p \<and> partial_of p s2"
  using assms
proof (induction chunks arbitrary: xs b s0 s' p0)
  case Nil
  then show ?case by (intro exI [of _ "[]"] exI [of _ s'] exI [of _ p0]) simp
next
  case (Cons c cs)
  let ?b = "tail_append mx c b" and ?sl = "tail_snapshot (tail_append mx c b) (Some (byteLength s0))"
  have hold: "holds_stream mx (xs @ c) ?b" by (rule holds_stream_append [OF Cons.prems(1)])
  have enc: "(xs @ c) @ concat cs @ post = utf8_encode (s0 @ s')" using Cons.prems(2) by simp
  have keep: "length (xs @ c) - mx \<le> byteLength s0" "byteLength s0 \<le> length (xs @ c)"
    using Cons.prems(3,4,6) by (auto simp: byteLength_def)
  from snapshot_at_boundary [OF hold enc keep Cons.prems(7)] obtain sa sb p where
    s': "s' = sa @ sb" and sl: "sl_content ?sl = sa" "sl_nextCursor ?sl = Some (byteLength (s0 @ sa))"
    and p: "xs @ c = utf8_encode (s0 @ sa) @ p" "partial_of p sb"
    by blast
  have "(xs @ c) @ concat cs @ post = utf8_encode ((s0 @ sa) @ sb)" using enc s' by simp
  from Cons.IH [OF hold this p(1) partial_of_length [OF p(2)] p(2)] Cons.prems(6,7) s'
  obtain s1 s2 p' where
    "sb = s1 @ s2" "follow mx ?b (byteLength (s0 @ sa)) cs = (s1, byteLength ((s0 @ sa) @ s1))"
    "(xs @ c) @ concat cs = utf8_encode ((s0 @ sa) @ s1) @ p'" "partial_of p' s2"
    by auto
  with s' sl show ?case
    by (intro exI [of _ "sa @ s1"] exI [of _ s2] exI [of _ p']) (simp add: Let_def)
qed



text \<open>
  With a cursor the in-memory buffer reports \<open>truncated\<close> for every read once any byte of the
  stream has been dropped, also when the cursor lies in the retained bytes and the content
  returned is everything after the cursor up to the last whole character.
\<close>

theorem snapshot_truncated_without_loss:
  assumes b: "holds_stream mx xs b" and long: "mx < length xs"
    and enc: "xs @ post = utf8_encode (s0 @ s')"
    and keep: "length xs - mx \<le> byteLength s0" "byteLength s0 \<le> length xs"
    and wf: "wf_str s'"
  shows "sl_truncated (tail_snapshot b (Some (byteLength s0)))
    \<and> (\<exists>s1 s2 p. s' = s1 @ s2 \<and> sl_content (tail_snapshot b (Some (byteLength s0))) = s1
        \<and> xs = utf8_encode (s0 @ s1) @ p \<and> partial_of p s2)"
proof
  show "sl_truncated (tail_snapshot b (Some (byteLength s0)))"
    using b long by (simp add: holds_stream_def tail_snapshot_def Let_def split: prod.splits)
  show "\<exists>s1 s2 p. s' = s1 @ s2 \<and> sl_content (tail_snapshot b (Some (byteLength s0))) = s1
        \<and> xs = utf8_encode (s0 @ s1) @ p \<and> partial_of p s2"
    using snapshot_at_boundary [OF b enc keep wf] by blast
qed

theorem snapshot_truncated_without_loss_witness:
  "sl_truncated (tail_snapshot (tail_append 2 [0x61, 0x62, 0x63] tail_buffer_new)
      (Some (byteLength [0x61])))
    \<and> (\<exists>s1 s2 p. [0x62, 0x63] = s1 @ s2
      \<and> sl_content (tail_snapshot (tail_append 2 [0x61, 0x62, 0x63] tail_buffer_new)
          (Some (byteLength [0x61]))) = s1
      \<and> [0x61, 0x62, 0x63] = utf8_encode ([0x61] @ s1) @ p \<and> partial_of p s2)"
proof (rule snapshot_truncated_without_loss [where mx = 2 and xs = "[0x61, 0x62, 0x63]" and post = "[]"])
  show "holds_stream 2 [0x61, 0x62, 0x63] (tail_append 2 [0x61, 0x62, 0x63] tail_buffer_new)"
    using holds_stream_append [OF holds_stream_new, of 2 "[0x61, 0x62, 0x63]"] by simp
qed (simp_all add: encode_cp_def byteLength_def scalar_def)

end
