(* ===== verification/Registry.thy ===== *)
theory Registry
  imports Prelude
begin

text \<open>
  The bounded registries of the process supervisor and of the terminal-session supervisor make
  room in the same way (\<open>reserveCapacity\<close>): while the registry and the starts in flight reach
  the limit, the completed record that started first is dropped; with none left the start is
  refused. The loop is defined here once over the two facts it reads of a record (is it running,
  when did it start) and each supervisor instantiates it.

  The locale \<open>capacity_registry\<close> is what the supervisors need of it: a reservation keeps the
  bound, never drops a running record, and a start that settles gives its place back.
\<close>

text \<open>The signals the supervisors send.\<close>

datatype os_signal = SIGTERM | SIGKILL

section \<open>Eviction\<close>

text \<open>\<open>[...records.values()].filter(r => r.state !== "running").sort(by startedAtMs)[0]\<close>\<close>

definition oldest_completed ::
  "('r \<Rightarrow> bool) \<Rightarrow> ('r \<Rightarrow> int) \<Rightarrow> 'r list \<Rightarrow> 'r option" where
  "oldest_completed running started rs =
     (case sort_key started (filter (\<lambda>r. \<not> running r) rs) of [] \<Rightarrow> None | r # _ \<Rightarrow> Some r)"

lemma oldest_completed_SomeD:
  assumes "oldest_completed running started rs = Some r"
  shows "r \<in> set rs" "\<not> running r"
    "\<And>x. x \<in> set rs \<Longrightarrow> \<not> running x \<Longrightarrow> started r \<le> started x"
proof -
  let ?s = "sort_key started (filter (\<lambda>r. \<not> running r) rs)"
  from assms obtain xs where s: "?s = r # xs"
    by (auto simp: oldest_completed_def split: list.splits)
  have mem: "set ?s = {x \<in> set rs. \<not> running x}" by simp
  with s show "r \<in> set rs" "\<not> running r" by auto
  have "sorted (map started ?s)" by (rule sorted_sort_key)
  then show "started r \<le> started x" if "x \<in> set rs" "\<not> running x" for x
    using s mem that by auto
qed

lemma oldest_completed_None_iff:
  "oldest_completed running started rs = None \<longleftrightarrow> (\<forall>r \<in> set rs. running r)"
proof -
  have "oldest_completed running started rs = None
      \<longleftrightarrow> sort_key started (filter (\<lambda>r. \<not> running r) rs) = []"
    by (simp add: oldest_completed_def split: list.split)
  also have "\<dots> \<longleftrightarrow> filter (\<lambda>r. \<not> running r) rs = []"
    by (metis length_0_conv length_sort)
  also have "\<dots> \<longleftrightarrow> (\<forall>r \<in> set rs. running r)" by (simp add: filter_empty_conv)
  finally show ?thesis .
qed

text \<open>
  The loop returns the remaining records, the evicted ones in order, and whether there is room.
\<close>

function evict_until ::
  "('r \<Rightarrow> bool) \<Rightarrow> ('r \<Rightarrow> int) \<Rightarrow> ('r \<Rightarrow> 'k) \<Rightarrow> int \<Rightarrow> int \<Rightarrow> 'r list \<Rightarrow> 'r list \<times> 'r list \<times> bool"
where
  "evict_until running started key mx pending rs =
     (if int (length rs) + pending \<ge> mx then
        (case oldest_completed running started rs of
           None \<Rightarrow> (rs, [], False)
         | Some c \<Rightarrow>
             (let (rs', gone, ok) = evict_until running started key mx pending (del_key key (key c) rs)
              in (rs', c # gone, ok)))
      else (rs, [], True))"
  by pat_completeness auto
termination
proof (relation "measure (\<lambda>(running, started, key, mx, pending, rs). length rs)", goal_cases)
  case 1
  show ?case by simp
next
  case (2 running started key mx pending rs c)
  then have "c \<in> set rs" by (auto dest: oldest_completed_SomeD(1))
  then have "length (filter (\<lambda>r. key r \<noteq> key c) rs) < length rs"
    by (rule length_filter_less) simp
  then show ?case by (simp add: del_key_def)
qed

declare evict_until.simps [simp del]

lemma evict_until_spec:
  assumes "evict_until running started key mx pending rs = (rs', gone, ok)" "distinct (map key rs)"
  shows "(ok \<longrightarrow> int (length rs') + pending < mx)
    \<and> (\<not> ok \<longrightarrow> (\<forall>r \<in> set rs'. running r) \<and> mx \<le> int (length rs') + pending)
    \<and> set rs' \<subseteq> set rs \<and> (\<forall>r \<in> set rs. running r \<longrightarrow> r \<in> set rs')
    \<and> set gone = set rs - set rs' \<and> (\<forall>r \<in> set gone. \<not> running r)
    \<and> distinct (map key rs') \<and> length rs' + length gone = length rs"
  using assms
proof (induction running started key mx pending rs arbitrary: rs' gone ok rule: evict_until.induct)
  case (1 running started key mx pending rs)
  show ?case
  proof (cases "int (length rs) + pending \<ge> mx")
    case False
    with "1.prems" show ?thesis by (subst (asm) evict_until.simps) auto
  next
    case full: True
    show ?thesis
    proof (cases "oldest_completed running started rs")
      case None
      then have "\<forall>r \<in> set rs. running r" by (simp add: oldest_completed_None_iff)
      moreover have "rs' = rs \<and> gone = [] \<and> \<not> ok"
        using "1.prems"(1) full None by (subst (asm) evict_until.simps) auto
      ultimately show ?thesis using full "1.prems"(2) by auto
    next
      case (Some c)
      note c = oldest_completed_SomeD [OF Some]
      let ?rs = "del_key key (key c) rs"
      obtain gone' where rec: "evict_until running started key mx pending ?rs = (rs', gone', ok)"
        and gone: "gone = c # gone'"
        using "1.prems"(1) full Some by (subst (asm) evict_until.simps) (auto split: prod.splits)
      have d: "distinct (map key ?rs)" by (rule distinct_del_key [OF "1.prems"(2)])
      have uniq: "r = c" if "r \<in> set rs" "key r = key c" for r
        using "1.prems"(2) c(1) that by (auto simp: distinct_map inj_on_def)
      have len: "length ?rs = length rs - 1" by (rule length_del_key [OF "1.prems"(2) c(1)])
      have pos: "0 < length rs" using c(1) by auto
      note IH = "1.IH" [OF full Some rec d]
      have set: "set ?rs = set rs - {c}" using uniq c(1) by auto
      have "c \<notin> set rs'" using IH set by blast
      then have g: "set gone = set rs - set rs'" using IH set gone c(1) by auto
      have run: "\<forall>r \<in> set rs. running r \<longrightarrow> r \<in> set rs'" using IH set c(2) by blast
      from IH g run gone c(2) set len pos show ?thesis by auto
    qed
  qed
qed

text \<open>
  With one start's room to make at most one record goes: the completed record with the
  earliest start.
\<close>

lemma evict_until_one:
  assumes "distinct (map key rs)" "int (length rs) + pending \<le> mx"
    "evict_until running started key mx pending rs = (rs', gone, ok)"
  shows "gone = (if int (length rs) + pending = mx
      then (case oldest_completed running started rs of None \<Rightarrow> [] | Some c \<Rightarrow> [c]) else [])"
proof (cases "int (length rs) + pending = mx")
  case False
  with assms(2,3) show ?thesis by (subst (asm) evict_until.simps) auto
next
  case True
  show ?thesis
  proof (cases "oldest_completed running started rs")
    case None
    with True assms(3) show ?thesis by (subst (asm) evict_until.simps) auto
  next
    case (Some c)
    note c = oldest_completed_SomeD [OF Some]
    have "length (del_key key (key c) rs) = length rs - 1" "0 < length rs"
      using length_del_key [OF assms(1) c(1)] c(1) by auto
    then have "int (length (del_key key (key c) rs)) + 1 = int (length rs)" by linarith
    then have "\<not> mx \<le> int (length (del_key key (key c) rs)) + pending" using True by simp
    then have "evict_until running started key mx pending (del_key key (key c) rs)
        = (del_key key (key c) rs, [], True)"
      by (subst evict_until.simps) simp
    with True Some assms(3) show ?thesis by (subst (asm) evict_until.simps) auto
  qed
qed

section \<open>The contract the supervisors rely on\<close>

locale capacity_registry =
  fixes recs :: "'s \<Rightarrow> 'r list"
    and starts :: "'s \<Rightarrow> int"
    and ident :: "'r \<Rightarrow> 'k"
    and live :: "'r \<Rightarrow> bool"
    and reserve :: "int \<Rightarrow> 's \<Rightarrow> 's \<times> bool"
    and give_up :: "'s \<Rightarrow> 's"
    and register :: "'r \<Rightarrow> 's \<Rightarrow> 's"
  assumes reserve_ok: "distinct (map ident (recs s)) \<Longrightarrow> reserve mx s = (s', True) \<Longrightarrow>
      int (length (recs s')) + starts s' \<le> mx \<and> starts s' = starts s + 1"
    and reserve_refused: "distinct (map ident (recs s)) \<Longrightarrow> reserve mx s = (s', False) \<Longrightarrow>
      starts s' = starts s \<and> length (recs s') \<le> length (recs s)"
    and reserve_recs: "distinct (map ident (recs s)) \<Longrightarrow> reserve mx s = (s', ok) \<Longrightarrow>
      set (recs s') \<subseteq> set (recs s) \<and> distinct (map ident (recs s'))
      \<and> (\<forall>r \<in> set (recs s). live r \<longrightarrow> r \<in> set (recs s'))"
    and give_up_recs: "recs (give_up s) = recs s" and give_up_starts: "starts (give_up s) = starts s - 1"
    and register_recs: "ident r \<notin> ident ` set (recs s) \<Longrightarrow> recs (register r s) = recs s @ [r]"
    and register_starts: "starts (register r s) = starts s - 1"
begin

lemma reserve_bound:
  assumes "distinct (map ident (recs s))" "int (length (recs s)) + starts s \<le> bound"
    "0 \<le> starts s" "mx \<le> bound" "reserve mx s = (s', ok)"
  shows "distinct (map ident (recs s')) \<and> int (length (recs s')) + starts s' \<le> bound
    \<and> 0 \<le> starts s'"
proof (cases ok)
  case True
  with assms show ?thesis using reserve_ok [of s mx s'] reserve_recs [of s mx s' ok] by auto
next
  case False
  with assms show ?thesis using reserve_refused [of s mx s'] reserve_recs [of s mx s' ok] by fastforce
qed

lemma give_up_bound:
  assumes "distinct (map ident (recs s))" "int (length (recs s)) + starts s \<le> mx" "0 < starts s"
  shows "distinct (map ident (recs (give_up s)))
    \<and> int (length (recs (give_up s))) + starts (give_up s) \<le> mx \<and> 0 \<le> starts (give_up s)"
  using assms by (simp add: give_up_recs give_up_starts)

lemma register_bound:
  assumes "distinct (map ident (recs s))" "int (length (recs s)) + starts s \<le> mx" "0 < starts s"
    "ident r \<notin> ident ` set (recs s)"
  shows "distinct (map ident (recs (register r s)))
    \<and> int (length (recs (register r s))) + starts (register r s) \<le> mx
    \<and> 0 \<le> starts (register r s)"
  using assms by (simp add: register_recs register_starts)

lemma live_survives:
  assumes "distinct (map ident (recs s))" "reserve mx s = (s', ok)" "r \<in> set (recs s)" "live r"
  shows "r \<in> set (recs s')"
  using reserve_recs [OF assms(1,2)] assms(3,4) by blast

end

end
