(* ===== verification/Process_Supervisor.thy ===== *)
theory Process_Supervisor
  imports Tail_Buffers Registry
begin

text \<open>
  \<open>src/src/process/process-supervisor.ts\<close>: the registry of managed background processes, with
  the records it keeps on disk so that a restarted daemon finds its jobs again. Every method is
  cut at its \<open>await\<close>s into the pieces that JavaScript runs without interruption; \<open>proc_step\<close> is
  the relation of all of them in any order.

  What a piece reads of the operating system is its argument \<open>env\<close>: which process identifiers
  are alive, the digest of the start time \<open>ps\<close> reports for one, which files exist and the parsed
  JSON of a file (\<open>None\<close> for a file that is missing or does not parse), whether a write
  succeeds, the clock and \<open>toISOString\<close>. \<open>ps_disk\<close> is the supervisor's own part of the
  persistence directory, the \<open><processId>.json\<close> files with their parsed content. Signals, control
  requests and audit records are logged in \<open>ps_log\<close>.

  The seven paths and the token of a persistent record are set together, so they are one
  optional field \<open>m_files\<close>. The calls of \<open>startInternal\<close> in flight are listed in \<open>ps_pending\<close>
  beside the counter \<open>pendingStarts\<close> that the code keeps; a promise is named by a number.
\<close>

datatype proc_state = Running | Stopping | Exited | Stopped | Unknown

datatype job_status = JRunning | JStopping | JCompleted | JFailed | JCancelled | JUnknown

datatype proc_error =
    KeyConflict
  | ProcRegistryFull
  | NoPid
  | IdentityUnverified
  | ControlUnavailable
  | TerminationTimeout
  | SignalError
  | ResultMalformed

datatype sig_outcome = SigOk | SigESRCH | SigEPERM | SigOther

datatype proc_effect =
    ESignal int os_signal
  | EControlStop path string
  | EUnref string
  | EAudit string string int proc_state
  | EUnlink path

record proc_files =
  pf_stdout :: path
  pf_stderr :: path
  pf_result :: path
  pf_manifest :: path
  pf_control :: path
  pf_token :: string
  pf_cursor :: path

record managed =
  m_processId :: string
  m_command :: string
  m_argCount :: int
  m_cwd :: path
  m_state :: proc_state
  m_startedAt :: string
  m_startedAtMs :: int
  m_exitedAt :: jval
  m_exitCode :: jval
  m_signal :: jval
  m_child :: bool
  m_pid :: int
  m_argsDigest :: string
  m_idempotencyKey :: "string option"
  m_stdout :: tail_buffer
  m_stderr :: tail_buffer
  m_files :: "proc_files option"
  m_fingerprint :: jval
  m_resultErrorCode :: "string option"
  m_persistent :: bool
  m_terminationRequested :: bool
  m_closed :: bool

record proc_summary =
  su_processId :: string
  su_command :: string
  su_argCount :: int
  su_cwd :: path
  su_state :: proc_state
  su_startedAt :: string
  su_exitedAt :: jval
  su_exitCode :: jval
  su_signal :: jval
  su_jobId :: string
  su_status :: job_status

record start_input =
  si_command :: string
  si_args :: "ustring list"
  si_cwd :: path
  si_key :: "string option"

record inflight =
  if_key :: string
  if_promise :: nat
  if_command :: string
  if_cwd :: path
  if_digest :: string

record pending_start =
  pn_promise :: nat
  pn_input :: start_input

record proc_options =
  po_maxManaged :: int
  po_maxLogBytes :: nat
  po_win32 :: bool
  po_persistence :: "path option"
  po_digest :: "ustring list \<Rightarrow> string"

record proc_env =
  pe_alive :: "int \<Rightarrow> bool"
  pe_fingerprint :: "int \<Rightarrow> string option"
  pe_exists :: "path \<Rightarrow> bool"
  pe_json :: "path \<Rightarrow> jval option"
  pe_write_ok :: bool
  pe_unlink_ok :: "path \<Rightarrow> bool"
  pe_now :: int
  pe_iso :: "int \<Rightarrow> string"

record proc_sup =
  ps_records :: "managed list"
  ps_detached :: "managed list"
  ps_inFlight :: "inflight list"
  ps_pending :: "pending_start list"
  ps_pendingStarts :: int
  ps_closed :: bool
  ps_disk :: "(string \<times> jval option) list"
  ps_log :: "proc_effect list"
  ps_promises :: nat

section \<open>Status\<close>

definition jobStatus :: "proc_state \<Rightarrow> jval \<Rightarrow> job_status" where
  "jobStatus state exitCode =
     (if state = Running then JRunning
      else if state = Stopping then JStopping
      else if state = Stopped then JCancelled
      else if state = Unknown then JUnknown
      else if exitCode = JNum 0 then JCompleted else JFailed)"

definition summary :: "managed \<Rightarrow> proc_summary" where
  "summary r =
     \<lparr>su_processId = m_processId r, su_command = m_command r, su_argCount = m_argCount r,
      su_cwd = m_cwd r, su_state = m_state r, su_startedAt = m_startedAt r,
      su_exitedAt = m_exitedAt r, su_exitCode = m_exitCode r, su_signal = m_signal r,
      su_jobId = m_processId r, su_status = jobStatus (m_state r) (m_exitCode r)\<rparr>"

definition processFingerprint :: "proc_env \<Rightarrow> int \<Rightarrow> jval" where
  "processFingerprint env pid =
     (case pe_fingerprint env pid of
        None \<Rightarrow> JUndefined
      | Some v \<Rightarrow> JObj [(''source'', JString ''ps''), (''value'', JString v)])"

definition sameProcessFingerprint :: "proc_env \<Rightarrow> int \<Rightarrow> jval \<Rightarrow> bool" where
  "sameProcessFingerprint env pid expected =
     (let current = processFingerprint env pid
      in current \<noteq> JUndefined \<and> jget current ''source'' = jget expected ''source''
         \<and> jget current ''value'' = jget expected ''value'')"

abbreviation get_proc :: "string \<Rightarrow> proc_sup \<Rightarrow> managed option" where
  "get_proc i s \<equiv> find_key m_processId i (ps_records s)"

definition put_proc :: "managed \<Rightarrow> proc_sup \<Rightarrow> proc_sup" where
  "put_proc r s = s\<lparr>ps_records := upd_key m_processId (m_processId r) (\<lambda>_. r) (ps_records s)\<rparr>"

definition proc_emit :: "proc_effect list \<Rightarrow> proc_sup \<Rightarrow> proc_sup" where
  "proc_emit es s = s\<lparr>ps_log := ps_log s @ es\<rparr>"

definition recordAudit :: "string \<Rightarrow> managed \<Rightarrow> proc_sup \<Rightarrow> proc_sup" where
  "recordAudit action r = proc_emit [EAudit action (m_command r) (m_argCount r) (m_state r)]"

section \<open>Records on disk\<close>

fun state_name :: "proc_state \<Rightarrow> string" where
  "state_name Running = ''running''"
| "state_name Stopping = ''stopping''"
| "state_name Exited = ''exited''"
| "state_name Stopped = ''stopped''"
| "state_name Unknown = ''unknown''"

definition state_of_name :: "jval \<Rightarrow> proc_state option" where
  "state_of_name v =
     (if v = JString ''running'' then Some Running
      else if v = JString ''stopping'' then Some Stopping
      else if v = JString ''exited'' then Some Exited
      else if v = JString ''stopped'' then Some Stopped
      else if v = JString ''unknown'' then Some Unknown else None)"

text \<open>The object that \<open>persistRecord\<close> writes.\<close>

definition persisted :: "managed \<Rightarrow> proc_files \<Rightarrow> jval" where
  "persisted r f = jobject
     [(''version'', JNum 2),
      (''processId'', JString (m_processId r)),
      (''command'', JString (m_command r)),
      (''argCount'', JNum (m_argCount r)),
      (''argsDigest'', JString (m_argsDigest r)),
      (''cwd'', JString (m_cwd r)),
      (''state'', JString (state_name (m_state r))),
      (''startedAt'', JString (m_startedAt r)),
      (''startedAtMs'', JNum (m_startedAtMs r)),
      (''pid'', JNum (m_pid r)),
      (''exitedAt'', m_exitedAt r),
      (''exitCode'', m_exitCode r),
      (''signal'', m_signal r),
      (''idempotencyKey'', case m_idempotencyKey r of None \<Rightarrow> JUndefined | Some k \<Rightarrow> JString k),
      (''stdoutPath'', JString (pf_stdout f)),
      (''stderrPath'', JString (pf_stderr f)),
      (''resultPath'', JString (pf_result f)),
      (''manifestPath'', JString (pf_manifest f)),
      (''controlPath'', JString (pf_control f)),
      (''controlToken'', JString (pf_token f)),
      (''cursorPath'', JString (pf_cursor f)),
      (''fingerprint'', m_fingerprint r)]"

definition persistRecord :: "proc_options \<Rightarrow> proc_env \<Rightarrow> managed \<Rightarrow> proc_sup \<Rightarrow> proc_sup" where
  "persistRecord opts env r s =
     (if ps_closed s then s
      else if \<not> m_persistent r then s
      else (case (po_persistence opts, m_files r) of
              (Some dir, Some f) \<Rightarrow>
                if \<not> pe_exists env dir then s
                else if pe_write_ok env
                     then s\<lparr>ps_disk := put_key fst (m_processId r @ ''.json'', Some (persisted r f))
                              (ps_disk s)\<rparr>
                     else s
            | _ \<Rightarrow> s))"

definition applyIndependentResult :: "proc_env \<Rightarrow> managed \<Rightarrow> managed \<times> bool" where
  "applyIndependentResult env r =
     (case m_files r of
        None \<Rightarrow> (r, False)
      | Some f \<Rightarrow>
          (case pe_json env (pf_result f) of
             None \<Rightarrow> (r, False)
           | Some result \<Rightarrow>
               if jget result ''version'' \<noteq> JNum 1 \<or> \<not> is_JBool (jget result ''started'')
                 \<or> \<not> is_JString (jget result ''finishedAt'') then (r, False)
               else
                 (let r1 = r\<lparr>m_exitedAt := jget result ''finishedAt''\<rparr>;
                      started = (jget result ''started'' = JBool True);
                      exitCode = jget result ''exitCode'';
                      signal = jget result ''signal''
                  in if started \<and> (is_JNum exitCode \<or> exitCode = JNull)
                       \<and> (is_JString signal \<or> signal = JNull \<or> signal = JUndefined)
                     then
                       (r1\<lparr>m_state := (if m_terminationRequested r1 \<and> signal \<noteq> JNull
                                        then Stopped else Exited),
                           m_exitCode := exitCode,
                           m_signal := (if signal \<noteq> JUndefined then signal else m_signal r1)\<rparr>,
                        True)
                     else
                       (r1\<lparr>m_resultErrorCode :=
                             (if \<not> started \<and> is_JString (jget result ''errorCode'')
                              then Some (jstring (jget result ''errorCode''))
                              else m_resultErrorCode r1),
                           m_state := Unknown\<rparr>, False))))"

text \<open>
  \<open>JSON.parse\<close> also accepts the text \<open>null\<close>. Reading a field of it throws a \<open>TypeError\<close> outside the
  inner \<open>try\<close>: then \<open>applyIndependentResult\<close> does not return. The pieces that call it leave the
  record as it is (\<open>stop\<close> and the queries then answer with that error; of the queries only the state is
  modelled in this case, in \<open>descriptors\<close> with the later records still looked at); the constructor
  moves the record's file away and keeps the record.
\<close>

definition resultThrows :: "proc_env \<Rightarrow> managed \<Rightarrow> bool" where
  "resultThrows env r =
     (case m_files r of None \<Rightarrow> False | Some f \<Rightarrow> pe_json env (pf_result f) = Some JNull)"

text \<open>The checks of \<open>restorePersistedRecords\<close> on a parsed file.\<close>

definition restorable :: "jval \<Rightarrow> bool" where
  "restorable v \<longleftrightarrow> jget v ''version'' = JNum 2
     \<and> is_JString (jget v ''processId'') \<and> is_JString (jget v ''command'')
     \<and> is_JNum (jget v ''argCount'') \<and> is_JString (jget v ''cwd'')
     \<and> is_JNum (jget v ''pid'') \<and> is_JString (jget v ''startedAt'')
     \<and> is_JNum (jget v ''startedAtMs'') \<and> is_JString (jget v ''argsDigest'')
     \<and> is_JString (jget v ''stdoutPath'') \<and> is_JString (jget v ''stderrPath'')
     \<and> is_JString (jget v ''resultPath'') \<and> is_JString (jget v ''manifestPath'')
     \<and> is_JString (jget v ''controlPath'') \<and> is_JString (jget v ''controlToken'')
     \<and> is_JString (jget v ''cursorPath'')
     \<and> state_of_name (jget v ''state'') \<noteq> None"

definition restored_files :: "jval \<Rightarrow> proc_files" where
  "restored_files v =
     \<lparr>pf_stdout = jstring (jget v ''stdoutPath''), pf_stderr = jstring (jget v ''stderrPath''),
      pf_result = jstring (jget v ''resultPath''), pf_manifest = jstring (jget v ''manifestPath''),
      pf_control = jstring (jget v ''controlPath''), pf_token = jstring (jget v ''controlToken''),
      pf_cursor = jstring (jget v ''cursorPath'')\<rparr>"

text \<open>
  The record of a file that passes the checks. An \<open>idempotencyKey\<close> that is not a string counts as
  absent: the code keeps it, but no key of a start is equal to it.
\<close>

definition restored_record :: "proc_state \<Rightarrow> jval \<Rightarrow> managed" where
  "restored_record state v =
     \<lparr>m_processId = jstring (jget v ''processId''), m_command = jstring (jget v ''command''),
      m_argCount = jnum (jget v ''argCount''), m_cwd = jstring (jget v ''cwd''),
      m_state = state, m_startedAt = jstring (jget v ''startedAt''),
      m_startedAtMs = jnum (jget v ''startedAtMs''), m_exitedAt = jget v ''exitedAt'',
      m_exitCode = jget v ''exitCode'', m_signal = jget v ''signal'',
      m_child = False, m_pid = jnum (jget v ''pid''),
      m_argsDigest = jstring (jget v ''argsDigest''),
      m_idempotencyKey = (if is_JString (jget v ''idempotencyKey'')
                          then Some (jstring (jget v ''idempotencyKey'')) else None),
      m_stdout = tail_buffer_new, m_stderr = tail_buffer_new,
      m_files = Some (restored_files v), m_fingerprint = jget v ''fingerprint'',
      m_resultErrorCode = None, m_persistent = True, m_terminationRequested = False,
      m_closed = True\<rparr>"

text \<open>The record a valid file becomes, and whether it is written back.\<close>

definition recovered :: "proc_env \<Rightarrow> jval \<Rightarrow> managed \<times> bool" where
  "recovered env v =
     (let persistedState = the (state_of_name (jget v ''state''));
          pid = jnum (jget v ''pid'');
          resultExists = pe_exists env (jstring (jget v ''resultPath''));
          alive = (persistedState = Running \<and> pe_alive env pid
            \<and> jget v ''fingerprint'' \<noteq> JUndefined
            \<and> sameProcessFingerprint env pid (jget v ''fingerprint''));
          state = (if resultExists then Unknown
                   else if alive then Running
                   else if persistedState = Running then Unknown else persistedState);
          r0 = restored_record state v;
          r = (if resultExists then fst (applyIndependentResult env r0) else r0)
      in (r, state \<noteq> persistedState \<or> (m_state r = Running \<and> \<not> alive)))"

text \<open>The handler of an error in the loop: the file is renamed, if the file system lets it.\<close>

definition set_corrupt :: "proc_env \<Rightarrow> path \<Rightarrow> string \<Rightarrow> proc_sup \<Rightarrow> proc_sup" where
  "set_corrupt env suffix' name s =
     (if pe_write_ok env
      then s\<lparr>ps_disk := put_key fst (name @ ''.corrupt-'' @ suffix', None) (del_key fst name (ps_disk s))\<rparr>
      else s)"

definition restore_one ::
  "proc_options \<Rightarrow> proc_env \<Rightarrow> path \<Rightarrow> string \<times> jval option \<Rightarrow> proc_sup \<Rightarrow> proc_sup" where
  "restore_one opts env suffix' file s =
     (case file of (name, content) \<Rightarrow>
        if \<not> ends_with name ''.json'' then s
        else (case (if content = Some JNull then None else content) of
          None \<Rightarrow> set_corrupt env suffix' name s
        | Some v \<Rightarrow>
            if \<not> restorable v then s
            else
              (case recovered env v of
                 (r, write) \<Rightarrow>
                   (let s1 = s\<lparr>ps_records := put_key m_processId r (ps_records s)\<rparr>
                    in if pe_exists env (jstring (jget v ''resultPath'')) \<and> resultThrows env r
                       then set_corrupt env suffix' name s1
                       else if write then persistRecord opts env r s1 else s1))))"

text \<open>The constructor: every file of the persistence directory is offered for recovery.\<close>

definition proc_sup_new ::
  "proc_options \<Rightarrow> proc_env \<Rightarrow> path \<Rightarrow> (string \<times> jval option) list \<Rightarrow> proc_sup" where
  "proc_sup_new opts env suffix' files =
     (let s = \<lparr>ps_records = [], ps_detached = [], ps_inFlight = [], ps_pending = [],
               ps_pendingStarts = 0, ps_closed = False, ps_disk = files, ps_log = [],
               ps_promises = 0\<rparr>
      in if po_persistence opts = None then s
         else fold (restore_one opts env suffix') files s)"

section \<open>Starting a process\<close>

definition truthy_key :: "string option \<Rightarrow> bool" where
  "truthy_key k \<longleftrightarrow> k \<noteq> None \<and> k \<noteq> Some ''''"

definition removePersistedRecord ::
  "proc_options \<Rightarrow> proc_env \<Rightarrow> managed \<Rightarrow> proc_sup \<Rightarrow> proc_sup" where
  "removePersistedRecord opts env r s =
     (case po_persistence opts of
        None \<Rightarrow> s
      | Some dir \<Rightarrow>
          (let name = m_processId r @ ''.json'';
               own = (case m_files r of
                        None \<Rightarrow> []
                      | Some f \<Rightarrow> [pf_manifest f, pf_result f, pf_stdout f, pf_stderr f, pf_cursor f]);
               s1 = (if pe_unlink_ok env name then s\<lparr>ps_disk := del_key fst name (ps_disk s)\<rparr> else s)
           in proc_emit (map EUnlink (name # own)) s1))"

definition proc_reserveCapacity ::
  "proc_options \<Rightarrow> proc_env \<Rightarrow> proc_sup \<Rightarrow> proc_sup \<times> bool" where
  "proc_reserveCapacity opts env s =
     (case evict_until (\<lambda>r. m_state r = Running) m_startedAtMs m_processId (po_maxManaged opts)
             (ps_pendingStarts s) (ps_records s) of
        (rs, gone, ok) \<Rightarrow>
          (let s1 = fold (removePersistedRecord opts env) gone
                      (s\<lparr>ps_records := rs, ps_detached := ps_detached s @ gone\<rparr>)
           in if ok then (s1\<lparr>ps_pendingStarts := ps_pendingStarts s1 + 1\<rparr>, True)
              else (s1, False)))"

datatype start_outcome =
    StartFailed proc_error
  | StartExisting proc_summary
  | StartPending nat
  | StartJoined nat

text \<open>
  \<open>startInternal\<close> up to \<open>await resolveExecutablePath\<close>; \<open>promise\<close> names the promise the call returns.
\<close>

definition startInternal ::
  "proc_options \<Rightarrow> proc_env \<Rightarrow> start_input \<Rightarrow> nat \<Rightarrow> proc_sup \<Rightarrow> proc_sup \<times> start_outcome" where
  "startInternal opts env inp promise s =
     (let argsDigest = po_digest opts (si_args inp);
          existing = (if truthy_key (si_key inp)
                      then find (\<lambda>r. m_idempotencyKey r = si_key inp) (ps_records s) else None)
      in case existing of
           Some e \<Rightarrow>
             if m_command e \<noteq> si_command inp \<or> m_cwd e \<noteq> si_cwd inp \<or> m_argsDigest e \<noteq> argsDigest
             then (s, StartFailed KeyConflict) else (s, StartExisting (summary e))
         | None \<Rightarrow>
             (case proc_reserveCapacity opts env s of
                (s1, False) \<Rightarrow> (s1, StartFailed ProcRegistryFull)
              | (s1, True) \<Rightarrow>
                  (s1\<lparr>ps_pending := ps_pending s1 @ [\<lparr>pn_promise = promise, pn_input = inp\<rparr>]\<rparr>,
                   StartPending promise)))"

definition start_process ::
  "proc_options \<Rightarrow> proc_env \<Rightarrow> start_input \<Rightarrow> proc_sup \<Rightarrow> proc_sup \<times> start_outcome" where
  "start_process opts env inp s =
     (let promise = ps_promises s;
          s0 = s\<lparr>ps_promises := promise + 1\<rparr>
      in if truthy_key (si_key inp) then
           (let key = the (si_key inp);
                argsDigest = po_digest opts (si_args inp)
            in case find_key if_key key (ps_inFlight s) of
                 Some e \<Rightarrow>
                   if if_command e \<noteq> si_command inp \<or> if_cwd e \<noteq> si_cwd inp \<or> if_digest e \<noteq> argsDigest
                   then (s, StartFailed KeyConflict) else (s, StartJoined (if_promise e))
               | None \<Rightarrow>
                   (case startInternal opts env inp promise s0 of
                      (s1, out) \<Rightarrow>
                        (s1\<lparr>ps_inFlight := put_key if_key
                              \<lparr>if_key = key, if_promise = promise, if_command = si_command inp,
                               if_cwd = si_cwd inp, if_digest = argsDigest\<rparr> (ps_inFlight s1)\<rparr>, out)))
         else startInternal opts env inp promise s0)"

text \<open>The \<open>finally\<close> of \<open>start\<close>, once the promise has settled.\<close>

definition start_settled :: "string \<Rightarrow> nat \<Rightarrow> proc_sup \<Rightarrow> proc_sup" where
  "start_settled key promise s =
     (if map_option if_promise (find_key if_key key (ps_inFlight s)) = Some promise
      then s\<lparr>ps_inFlight := del_key if_key key (ps_inFlight s)\<rparr> else s)"

definition take_pending :: "nat \<Rightarrow> proc_sup \<Rightarrow> proc_sup" where
  "take_pending promise s =
     s\<lparr>ps_pending := del_key pn_promise promise (ps_pending s),
       ps_pendingStarts := ps_pendingStarts s - 1\<rparr>"

text \<open>
  The preparation threw, or the child reported \<open>error\<close> before \<open>spawn\<close>: the reserved place is
  given back.
\<close>

definition start_failed :: "nat \<Rightarrow> proc_sup \<Rightarrow> proc_sup" where
  "start_failed promise s = take_pending promise s"

definition files_of :: "path \<Rightarrow> string \<Rightarrow> path \<Rightarrow> string \<Rightarrow> proc_files" where
  "files_of dir i control token =
     \<lparr>pf_stdout = dir @ ''/'' @ i @ ''.stdout.log'', pf_stderr = dir @ ''/'' @ i @ ''.stderr.log'',
      pf_result = dir @ ''/'' @ i @ ''.result.json'',
      pf_manifest = dir @ ''/'' @ i @ ''.manifest.json'',
      pf_control = control, pf_token = token, pf_cursor = dir @ ''/'' @ i @ ''.cursor.json''\<rparr>"

definition created_record ::
  "proc_options \<Rightarrow> proc_env \<Rightarrow> start_input \<Rightarrow> string \<Rightarrow> int \<Rightarrow> path \<Rightarrow> string \<Rightarrow> managed" where
  "created_record opts env inp i pid control token =
     \<lparr>m_processId = i, m_command = si_command inp, m_argCount = int (length (si_args inp)),
      m_cwd = si_cwd inp, m_state = Running, m_startedAt = pe_iso env (pe_now env),
      m_startedAtMs = pe_now env, m_exitedAt = JUndefined, m_exitCode = JUndefined,
      m_signal = JUndefined, m_child = True, m_pid = pid,
      m_argsDigest = po_digest opts (si_args inp), m_idempotencyKey = si_key inp,
      m_stdout = tail_buffer_new, m_stderr = tail_buffer_new,
      m_files = map_option (\<lambda>dir. files_of dir i control token) (po_persistence opts),
      m_fingerprint = processFingerprint env pid, m_resultErrorCode = None,
      m_persistent = (po_persistence opts \<noteq> None), m_terminationRequested = False,
      m_closed = False\<rparr>"

text \<open>The \<open>spawn\<close> event; \<open>pid\<close> is \<open>None\<close> when the child reports none.\<close>

definition start_spawned ::
  "proc_options \<Rightarrow> proc_env \<Rightarrow> pending_start \<Rightarrow> string \<Rightarrow> int option \<Rightarrow> path \<Rightarrow> string \<Rightarrow> proc_sup
   \<Rightarrow> proc_sup \<times> (proc_error + proc_summary)"
where
  "start_spawned opts env p i pid control token s0 =
     (let s = take_pending (pn_promise p) s0
      in case pid of
           None \<Rightarrow> (s, Inl NoPid)
         | Some pid \<Rightarrow>
             (let r = created_record opts env (pn_input p) i pid control token;
                  s1 = s\<lparr>ps_records := put_key m_processId r (ps_records s)\<rparr>;
                  s2 = recordAudit ''process.start'' r (persistRecord opts env r s1)
              in (s2, Inr (summary r))))"

section \<open>Events of the child\<close>

definition proc_stdout :: "proc_options \<Rightarrow> string \<Rightarrow> byte list \<Rightarrow> proc_sup \<Rightarrow> proc_sup" where
  "proc_stdout opts i chunk s =
     s\<lparr>ps_records := upd_key m_processId i (\<lambda>r. if m_persistent r then r
         else r\<lparr>m_stdout := tail_append (po_maxLogBytes opts) chunk (m_stdout r)\<rparr>) (ps_records s)\<rparr>"

definition proc_stderr :: "proc_options \<Rightarrow> string \<Rightarrow> byte list \<Rightarrow> proc_sup \<Rightarrow> proc_sup" where
  "proc_stderr opts i chunk s =
     s\<lparr>ps_records := upd_key m_processId i (\<lambda>r. if m_persistent r then r
         else r\<lparr>m_stderr := tail_append (po_maxLogBytes opts) chunk (m_stderr r)\<rparr>) (ps_records s)\<rparr>"

definition closed_record :: "proc_env \<Rightarrow> jval \<Rightarrow> jval \<Rightarrow> managed \<Rightarrow> managed" where
  "closed_record env exitCode signal r =
     (if m_persistent r then
        (let r1 = fst (applyIndependentResult env r)
         in if m_state r1 = Running
            then r1\<lparr>m_state := Unknown, m_exitedAt := JString (pe_iso env (pe_now env))\<rparr> else r1)
      else
        r\<lparr>m_state := (if m_terminationRequested r then Stopped else Exited),
          m_exitedAt := JString (pe_iso env (pe_now env)), m_exitCode := exitCode,
          m_signal := signal\<rparr>)\<lparr>m_closed := True\<rparr>"

text \<open>
  The \<open>close\<close> event. Its closure holds the record itself, so it also reaches a record that has
  been evicted from the registry in the meantime, and persists it again.
\<close>

definition proc_closed ::
  "proc_options \<Rightarrow> proc_env \<Rightarrow> string \<Rightarrow> jval \<Rightarrow> jval \<Rightarrow> proc_sup \<Rightarrow> proc_sup" where
  "proc_closed opts env i exitCode signal s =
     (case get_proc i s of
        Some r \<Rightarrow>
          if m_persistent r \<and> resultThrows env r then s else
          (let r' = closed_record env exitCode signal r
           in persistRecord opts env r' (put_proc r' s))
      | None \<Rightarrow>
          (case find_key m_processId i (ps_detached s) of
             Some r \<Rightarrow>
               if m_persistent r \<and> resultThrows env r then s else
               (let r' = closed_record env exitCode signal r
                in persistRecord opts env r'
                     (s\<lparr>ps_detached := upd_key m_processId i (\<lambda>_. r') (ps_detached s)\<rparr>))
           | None \<Rightarrow> s))"

section \<open>Observing a record\<close>

text \<open>
  \<open>refreshRecovered\<close> as a function on the record: the updated record and whether it is persisted.
\<close>

definition refreshed :: "proc_env \<Rightarrow> managed \<Rightarrow> managed \<times> bool" where
  "refreshed env r =
     (let lost = (\<lambda>r. r\<lparr>m_state := Unknown, m_exitedAt := JString (pe_iso env (pe_now env))\<rparr>)
      in if m_state r \<in> {Unknown, Stopping, Running} \<and> resultThrows env r then (r, False)
         else if m_state r = Unknown then applyIndependentResult env r
         else if m_state r = Stopping then
           (case applyIndependentResult env r of
              (r1, True) \<Rightarrow> (r1, False)
            | (r1, False) \<Rightarrow> if pe_alive env (m_pid r1) then (r1, False) else (lost r1, True))
         else if m_state r \<noteq> Running then (r, False)
         else
           (case applyIndependentResult env r of
              (r1, True) \<Rightarrow> (r1, True)
            | (r1, False) \<Rightarrow>
                if \<not> pe_alive env (m_pid r1)
                  \<or> (m_persistent r1 \<and> (m_fingerprint r1 = JUndefined
                       \<or> \<not> sameProcessFingerprint env (m_pid r1) (m_fingerprint r1)))
                then (lost r1, True) else (r1, False)))"

definition refreshRecovered ::
  "proc_options \<Rightarrow> proc_env \<Rightarrow> string \<Rightarrow> proc_sup \<Rightarrow> proc_sup" where
  "refreshRecovered opts env i s =
     (case get_proc i s of
        None \<Rightarrow> s
      | Some r \<Rightarrow>
          (case refreshed env r of
             (r', persist) \<Rightarrow>
               if persist then persistRecord opts env r' (put_proc r' s) else put_proc r' s))"

definition proc_descriptors ::
  "proc_options \<Rightarrow> proc_env \<Rightarrow> proc_sup \<Rightarrow> proc_sup \<times> (string \<times> string \<times> path) list" where
  "proc_descriptors opts env s =
     (let s' = fold (refreshRecovered opts env) (map m_processId (ps_records s)) s
      in (s', map (\<lambda>r. (m_processId r, m_command r, m_cwd r)) (ps_records s')))"

definition proc_status ::
  "proc_options \<Rightarrow> proc_env \<Rightarrow> string \<Rightarrow> proc_sup \<Rightarrow> proc_sup \<times> proc_summary option" where
  "proc_status opts env i s =
     (let s' = refreshRecovered opts env i s in (s', map_option summary (get_proc i s')))"

section \<open>Reading the logs\<close>

text \<open>The offsets the wrapper publishes, 0 when its file is absent or malformed.\<close>

definition cursorState :: "proc_env \<Rightarrow> path \<Rightarrow> int \<times> int" where
  "cursorState env cursorPath =
     (case pe_json env cursorPath of
        None \<Rightarrow> (0, 0)
      | Some v \<Rightarrow>
          ((if safe_integer (jget v ''stdout'') then jnum (jget v ''stdout'') else 0),
           (if safe_integer (jget v ''stderr'') then jnum (jget v ''stderr'') else 0)))"

text \<open>
  \<open>readStream\<close>: \<open>file\<close> is the content of the log (\<open>None\<close>: no such file), \<open>logical\<close> the published
  offset of its stream. Both readings are the non-negative ones the wrapper writes.
\<close>

definition readStream :: "byte list option \<Rightarrow> nat \<Rightarrow> nat option \<Rightarrow> log_slice" where
  "readStream file logicalBytes cursor =
     (case file of
        None \<Rightarrow>
          \<lparr>sl_content = [], sl_bytes = 0, sl_truncated = False,
           sl_nextCursor = (if cursor \<noteq> None then Some logicalBytes else None)\<rparr>
      | Some content \<Rightarrow>
          (let physicalBytes = length content;
               firstAvailable = logicalBytes - physicalBytes;
               requested = (case cursor of Some c \<Rightarrow> c | None \<Rightarrow> firstAvailable);
               logicalStart = min (max requested firstAvailable) logicalBytes;
               physicalStart = logicalStart - firstAvailable;
               raw = drop physicalStart content;
               (s, e) = completeUtf8Span raw;
               shown = take (e - s) (drop s raw);
               truncated = (requested < firstAvailable \<or> (cursor = None \<and> firstAvailable > 0))
           in \<lparr>sl_content = utf8_decode shown, sl_bytes = length shown, sl_truncated = truncated,
               sl_nextCursor = (if cursor \<noteq> None
                                then Some (logicalBytes - (length raw - e)) else None)\<rparr>))"

record proc_logs =
  lg_processId :: string
  lg_cursor :: "nat option"
  lg_stdout :: log_slice
  lg_stderr :: log_slice

definition proc_logs ::
  "proc_options \<Rightarrow> proc_env \<Rightarrow> (path \<Rightarrow> byte list option) \<Rightarrow> string \<Rightarrow> nat option \<Rightarrow> proc_sup
   \<Rightarrow> proc_sup \<times> proc_logs option"
where
  "proc_logs opts env content i cursor s =
     (let s' = refreshRecovered opts env i s
      in case get_proc i s' of
           None \<Rightarrow> (s', None)
         | Some r \<Rightarrow>
             (s', Some (case (if m_persistent r then m_files r else None) of
                None \<Rightarrow>
                  \<lparr>lg_processId = i, lg_cursor = cursor,
                   lg_stdout = tail_snapshot (m_stdout r) cursor,
                   lg_stderr = tail_snapshot (m_stderr r) cursor\<rparr>
              | Some f \<Rightarrow>
                  (case cursorState env (pf_cursor f) of
                     (out, err) \<Rightarrow>
                       \<lparr>lg_processId = i, lg_cursor = cursor,
                        lg_stdout = readStream (content (pf_stdout f)) (nat out) cursor,
                        lg_stderr = readStream (content (pf_stderr f)) (nat err) cursor\<rparr>))))"

section \<open>Stopping a process\<close>

text \<open>
  \<open>sendSignal\<close>: the targets signalled in order and whether it returns; \<open>answer\<close> is what
  \<open>process.kill\<close> does on a target. Off Windows the group is signalled, and on \<open>EPERM\<close> the
  process alone.
\<close>

definition sendSignal ::
  "proc_options \<Rightarrow> (int \<Rightarrow> sig_outcome) \<Rightarrow> int \<Rightarrow> os_signal \<Rightarrow> proc_effect list \<times> (proc_error + unit)" where
  "sendSignal opts answer pid signal =
     (let target = (if po_win32 opts then pid else - pid)
      in case answer target of
           SigOk \<Rightarrow> ([ESignal target signal], Inr ())
         | SigESRCH \<Rightarrow> ([ESignal target signal], Inr ())
         | SigOther \<Rightarrow> ([ESignal target signal], Inl SignalError)
         | SigEPERM \<Rightarrow>
             if target \<noteq> pid then
               (case answer pid of
                  SigOk \<Rightarrow> ([ESignal target signal, ESignal pid signal], Inr ())
                | _ \<Rightarrow> ([ESignal target signal, ESignal pid signal], Inl SignalError))
             else ([ESignal target signal], Inl SignalError))"

text \<open>
  \<open>terminate\<close> up to its first \<open>await\<close>. A persistent process is asked to stop over its control
  socket (answered by \<open>control_reply\<close>); another one is signalled and waited for.
\<close>

definition proc_terminate ::
  "proc_options \<Rightarrow> proc_env \<Rightarrow> (int \<Rightarrow> sig_outcome) \<Rightarrow> string \<Rightarrow> proc_sup \<Rightarrow> proc_sup \<times> (proc_error + unit)"
where
  "proc_terminate opts env answer i s =
     (case get_proc i s of
        None \<Rightarrow> (s, Inr ())
      | Some r \<Rightarrow>
          if m_state r \<noteq> Running then (s, Inr ())
          else
            (let r1 = r\<lparr>m_terminationRequested := True\<rparr>; s1 = put_proc r1 s
             in if m_persistent r1 then
                  (case m_files r1 of
                     None \<Rightarrow> (s, Inl ControlUnavailable)
                   | Some f \<Rightarrow> if pf_control f = '''' \<or> pf_token f = '''' then (s, Inl ControlUnavailable)
                       else (proc_emit [EControlStop (pf_control f) (pf_token f)] s1, Inr ()))
                else
                  (case sendSignal opts answer (m_pid r1) SIGTERM of
                     (es, Inl e) \<Rightarrow> (proc_emit es s1, Inl e)
                   | (es, Inr _) \<Rightarrow>
                       (let s2 = proc_emit es s1
                        in if m_child r1 then (s2, Inr ())
                           else
                             (let r2 = r1\<lparr>m_state := Stopped,
                                          m_exitedAt := JString (pe_iso env (pe_now env)),
                                          m_signal := JString ''SIGTERM''\<rparr>
                              in (persistRecord opts env r2 (put_proc r2 s2), Inr ()))))))"

text \<open>The control socket answers, or fails or times out (\<open>ok\<close> false).\<close>

definition control_reply ::
  "proc_options \<Rightarrow> proc_env \<Rightarrow> string \<Rightarrow> bool \<Rightarrow> proc_sup \<Rightarrow> proc_sup \<times> (proc_error + unit)" where
  "control_reply opts env i ok s =
     (case get_proc i s of
        None \<Rightarrow> (s, Inr ())
      | Some r \<Rightarrow>
          if \<not> ok then (put_proc (r\<lparr>m_terminationRequested := False\<rparr>) s, Inl ControlUnavailable)
          else if m_child r then (s, Inr ())
          else
            (let r1 = r\<lparr>m_state := Stopping\<rparr> in (persistRecord opts env r1 (put_proc r1 s), Inr ())))"

text \<open>The grace time of \<open>waitForClose\<close> is over.\<close>

definition proc_grace_expired ::
  "proc_options \<Rightarrow> (int \<Rightarrow> sig_outcome) \<Rightarrow> string \<Rightarrow> proc_sup \<Rightarrow> proc_sup \<times> (proc_error + unit)" where
  "proc_grace_expired opts answer i s =
     (case get_proc i s of
        None \<Rightarrow> (s, Inr ())
      | Some r \<Rightarrow>
          if m_closed r \<or> m_state r \<noteq> Running then (s, Inr ())
          else if m_persistent r then (s, Inl TerminationTimeout)
          else (case sendSignal opts answer (m_pid r) SIGKILL of (es, res) \<Rightarrow> (proc_emit es s, res)))"

definition proc_stop ::
  "proc_options \<Rightarrow> proc_env \<Rightarrow> (int \<Rightarrow> sig_outcome) \<Rightarrow> string \<Rightarrow> proc_sup
   \<Rightarrow> proc_sup \<times> (proc_error + proc_summary option)"
where
  "proc_stop opts env answer i s =
     (let s1 = refreshRecovered opts env i s
      in case get_proc i s1 of
           None \<Rightarrow> (s1, Inr None)
         | Some r \<Rightarrow>
             if m_state r \<in> {Unknown, Stopping, Running} \<and> resultThrows env r then (s1, Inl ResultMalformed)
             else if m_persistent r \<and> m_state r = Unknown then (s1, Inl IdentityUnverified)
             else if m_state r \<noteq> Running then (s1, Inr (Some (summary r)))
             else (case proc_terminate opts env answer i s1 of
                     (s2, Inl e) \<Rightarrow> (s2, Inl e)
                   | (s2, Inr _) \<Rightarrow> (s2, Inr (map_option summary (get_proc i s2)))))"

text \<open>\<open>stop\<close> and \<open>close\<close> audit after \<open>terminate\<close> has returned.\<close>

definition stop_audited :: "string \<Rightarrow> proc_sup \<Rightarrow> proc_sup" where
  "stop_audited i s =
     (case get_proc i s of None \<Rightarrow> s | Some r \<Rightarrow> recordAudit ''process.stop'' r s)"

definition proc_close_begin ::
  "proc_options \<Rightarrow> proc_env \<Rightarrow> (int \<Rightarrow> sig_outcome) \<Rightarrow> bool \<Rightarrow> proc_sup \<Rightarrow> proc_sup" where
  "proc_close_begin opts env answer preservePersistent s =
     (let unref = (if preservePersistent
                   then map (\<lambda>r. EUnref (m_processId r))
                     (filter (\<lambda>r. m_state r = Running \<and> m_persistent r \<and> m_child r) (ps_records s))
                   else []);
          running = filter (\<lambda>r. m_state r = Running \<and> (\<not> m_persistent r \<or> \<not> preservePersistent))
                      (ps_records s)
      in fold (\<lambda>i t. fst (proc_terminate opts env answer i t)) (map m_processId running)
           (proc_emit unref s))"

text \<open>Every termination of \<open>close\<close> has settled without an error it does not handle.\<close>

definition proc_close_end :: "proc_sup \<Rightarrow> proc_sup" where
  "proc_close_end s = s\<lparr>ps_closed := True\<rparr>"

section \<open>All interleavings\<close>

inductive proc_step :: "proc_options \<Rightarrow> proc_sup \<Rightarrow> proc_sup \<Rightarrow> bool" for opts where
  pst_start: "proc_step opts s (fst (start_process opts env inp s))"
| pst_settled: "\<forall>p \<in> set (ps_pending s). pn_promise p \<noteq> promise \<Longrightarrow>
    proc_step opts s (start_settled key promise s)"
| pst_failed: "p \<in> set (ps_pending s) \<Longrightarrow> proc_step opts s (start_failed (pn_promise p) s)"
| pst_spawned: "p \<in> set (ps_pending s) \<Longrightarrow>
    proc_step opts s (fst (start_spawned opts env p i pid control token s))"
| pst_stdout: "proc_step opts s (proc_stdout opts i chunk s)"
| pst_stderr: "proc_step opts s (proc_stderr opts i chunk s)"
| pst_closed: "\<forall>r. get_proc i s = Some r \<longrightarrow> m_child r \<and> \<not> m_closed r \<Longrightarrow>
    proc_step opts s (proc_closed opts env i exitCode signal s)"
| pst_descriptors: "proc_step opts s (fst (proc_descriptors opts env s))"
| pst_status: "proc_step opts s (fst (proc_status opts env i s))"
| pst_logs: "proc_step opts s (fst (proc_logs opts env content i cursor s))"
| pst_stop: "proc_step opts s (fst (proc_stop opts env answer i s))"
| pst_reply: "proc_step opts s (fst (control_reply opts env i ok s))"
| pst_grace: "proc_step opts s (fst (proc_grace_expired opts answer i s))"
| pst_audited: "proc_step opts s (stop_audited i s)"
| pst_close: "proc_step opts s (proc_close_begin opts env answer preserve s)"
| pst_close_end: "proc_step opts s (proc_close_end s)"

inductive proc_reachable :: "proc_options \<Rightarrow> proc_sup \<Rightarrow> proc_sup \<Rightarrow> bool" for opts s0 where
  prc_init: "proc_reachable opts s0 s0"
| prc_step: "proc_reachable opts s0 s \<Longrightarrow> proc_step opts s t \<Longrightarrow> proc_reachable opts s0 t"

section \<open>What most operations leave alone\<close>

text \<open>
  The skeleton of a state: the identity of every record, the starts in flight, the counter and
  the idempotency map. Everything but starting a process keeps it.
\<close>

definition rec_skel :: "managed \<Rightarrow> string \<times> string option \<times> bool" where
  "rec_skel r = (m_processId r, m_idempotencyKey r, m_persistent r)"

definition skel ::
  "proc_sup \<Rightarrow> (string \<times> string option \<times> bool) list \<times> pending_start list \<times> int \<times> inflight list \<times> nat"
where
  "skel s = (map rec_skel (ps_records s), ps_pending s, ps_pendingStarts s, ps_inFlight s, ps_promises s)"

abbreviation ids :: "proc_sup \<Rightarrow> string list" where
  "ids s \<equiv> map m_processId (ps_records s)"

lemma ids_skel: "ids s = map fst (fst (skel s))"
  by (simp add: skel_def rec_skel_def comp_def)

lemma ids_cong: "skel s = skel t \<Longrightarrow> ids s = ids t"
  by (simp add: ids_skel)

lemma persistRecord_frame [simp]:
  "ps_records (persistRecord opts env r s) = ps_records s"
  "ps_detached (persistRecord opts env r s) = ps_detached s"
  "ps_log (persistRecord opts env r s) = ps_log s"
  "ps_pendingStarts (persistRecord opts env r s) = ps_pendingStarts s"
  "ps_pending (persistRecord opts env r s) = ps_pending s"
  "ps_inFlight (persistRecord opts env r s) = ps_inFlight s"
  "ps_promises (persistRecord opts env r s) = ps_promises s"
  by (auto simp: persistRecord_def split: option.splits)

lemma proc_emit_frame [simp]:
  "ps_records (proc_emit es s) = ps_records s" "ps_log (proc_emit es s) = ps_log s @ es"
  "ps_pending (proc_emit es s) = ps_pending s" "ps_pendingStarts (proc_emit es s) = ps_pendingStarts s"
  "ps_inFlight (proc_emit es s) = ps_inFlight s" "ps_promises (proc_emit es s) = ps_promises s"
  by (simp_all add: proc_emit_def)

lemma put_proc_frame [simp]:
  "ps_log (put_proc r s) = ps_log s" "ps_pending (put_proc r s) = ps_pending s"
  "ps_pendingStarts (put_proc r s) = ps_pendingStarts s"
  "ps_inFlight (put_proc r s) = ps_inFlight s" "ps_promises (put_proc r s) = ps_promises s"
  by (simp_all add: put_proc_def)

lemma skel_frames [simp]:
  "skel (persistRecord opts env r s) = skel s"
  "skel (proc_emit es s) = skel s"
  "skel (recordAudit a r s) = skel s"
  by (simp_all add: skel_def recordAudit_def)

lemma upd_key_same_skel:
  assumes "distinct (map m_processId rs)" "find_key m_processId i rs = Some r0"
    "rec_skel r = rec_skel r0"
  shows "map rec_skel (upd_key m_processId i (\<lambda>_. r) rs) = map rec_skel rs"
proof -
  have r0: "r0 \<in> set rs" "m_processId r0 = i" using find_key_SomeD [OF assms(2)] by auto
  have "rec_skel (if m_processId x = i then r else x) = rec_skel x" if "x \<in> set rs" for x
  proof (cases "m_processId x = i")
    case True
    with r0 assms(1) that have "x = r0" by (auto simp: distinct_map inj_on_def)
    with assms(3) True show ?thesis by simp
  qed simp
  then show ?thesis by (simp add: upd_key_def)
qed

lemma skel_put_proc:
  assumes "distinct (ids s)" "get_proc i s = Some r0" "rec_skel r = rec_skel r0"
  shows "skel (put_proc r s) = skel s"
proof -
  have "m_processId r = i" using find_key_SomeD [OF assms(2)] assms(3) by (simp add: rec_skel_def)
  then show ?thesis
    using upd_key_same_skel [OF assms] by (simp add: skel_def put_proc_def)
qed

lemma applyIndependentResult_skel [simp]:
  "rec_skel (fst (applyIndependentResult env r)) = rec_skel r"
  by (simp add: applyIndependentResult_def rec_skel_def Let_def split: option.split)

lemma closed_record_skel [simp]: "rec_skel (closed_record env c g r) = rec_skel r"
  using applyIndependentResult_skel [of env r]
  by (simp add: closed_record_def rec_skel_def Let_def)

lemma refreshed_skel [simp]: "rec_skel (fst (refreshed env r)) = rec_skel r"
proof -
  obtain r1 b where a: "applyIndependentResult env r = (r1, b)" by fastforce
  then have "rec_skel r1 = rec_skel r" using applyIndependentResult_skel [of env r] by simp
  with a show ?thesis
    by (cases b) (simp_all add: refreshed_def rec_skel_def Let_def)
qed

lemma refreshRecovered_skel:
  assumes "distinct (ids s)"
  shows "skel (refreshRecovered opts env i s) = skel s"
proof (cases "get_proc i s")
  case (Some r)
  obtain r' b where rr: "refreshed env r = (r', b)" by fastforce
  then have "rec_skel r' = rec_skel r" using refreshed_skel [of env r] by simp
  from skel_put_proc [OF assms Some this] show ?thesis
    by (simp add: refreshRecovered_def Some rr)
qed (simp add: refreshRecovered_def)

lemma fold_skel:
  assumes "distinct (ids s)" "\<And>t i. distinct (ids t) \<Longrightarrow> skel (f i t) = skel t"
  shows "skel (fold f is s) = skel s"
  using assms(1)
proof (induction "is" arbitrary: s)
  case (Cons i "is")
  have "skel (f i s) = skel s" by (rule assms(2) [OF Cons.prems])
  moreover from this have "distinct (ids (f i s))" using Cons.prems ids_cong by metis
  ultimately show ?case using Cons.IH by simp
qed simp

lemma skel_descriptors: "distinct (ids s) \<Longrightarrow> skel (fst (proc_descriptors opts env s)) = skel s"
  by (simp add: proc_descriptors_def Let_def fold_skel refreshRecovered_skel)

lemma skel_status: "distinct (ids s) \<Longrightarrow> skel (fst (proc_status opts env i s)) = skel s"
  by (simp add: proc_status_def Let_def refreshRecovered_skel)

lemma skel_logs: "distinct (ids s) \<Longrightarrow> skel (fst (proc_logs opts env content i cursor s)) = skel s"
  by (simp add: proc_logs_def Let_def refreshRecovered_skel split: option.split)

lemma skel_streams:
  "skel (proc_stdout opts i chunk s) = skel s" "skel (proc_stderr opts i chunk s) = skel s"
  by (simp_all add: proc_stdout_def proc_stderr_def skel_def upd_key_def rec_skel_def)

lemma skel_closed:
  assumes "distinct (ids s)"
  shows "skel (proc_closed opts env i c g s) = skel s"
proof (cases "get_proc i s")
  case None
  then show ?thesis by (auto simp: proc_closed_def Let_def skel_def split: option.split)
next
  case (Some r)
  from skel_put_proc [OF assms Some closed_record_skel] show ?thesis
    by (simp add: proc_closed_def Let_def Some)
qed

lemma skel_terminate:
  assumes "distinct (ids s)"
  shows "skel (fst (proc_terminate opts env answer i s)) = skel s"
proof (cases "get_proc i s")
  case (Some r)
  have 1: "skel (put_proc (r\<lparr>m_terminationRequested := True\<rparr>) s) = skel s" (is "skel ?s1 = _")
    by (rule skel_put_proc [OF assms Some]) (simp add: rec_skel_def)
  have d: "distinct (ids ?s1)" using ids_cong [OF 1] assms by simp
  have id: "m_processId r = i" using find_key_SomeD [OF Some] by simp
  have "get_proc i ?s1 = Some (r\<lparr>m_terminationRequested := True\<rparr>)"
    using Some id by (simp add: put_proc_def find_key_replace)
  then have 2: "skel (put_proc (r\<lparr>m_terminationRequested := True, m_state := Stopped,
      m_exitedAt := JString (pe_iso env (pe_now env)), m_signal := JString ''SIGTERM''\<rparr>)
      (proc_emit es ?s1)) = skel s" for es
    using skel_put_proc [of "proc_emit es ?s1" i] d 1 by (simp add: rec_skel_def)
  obtain es res where "sendSignal opts answer (m_pid r) SIGTERM = (es, res)" by fastforce
  with 1 2 show ?thesis
    by (cases res) (simp_all add: proc_terminate_def Some Let_def split: option.split)
qed (simp add: proc_terminate_def)

lemma skel_grace: "skel (fst (proc_grace_expired opts answer i s)) = skel s"
  by (auto simp: proc_grace_expired_def split: option.split prod.split)

lemma skel_stop:
  assumes "distinct (ids s)"
  shows "skel (fst (proc_stop opts env answer i s)) = skel s"
proof -
  let ?s1 = "refreshRecovered opts env i s"
  have 1: "skel ?s1 = skel s" by (rule refreshRecovered_skel [OF assms])
  then have d: "distinct (ids ?s1)" using assms ids_cong by metis
  obtain s2 res where t: "proc_terminate opts env answer i ?s1 = (s2, res)" by fastforce
  then have "skel s2 = skel s" using skel_terminate [OF d, of opts env answer i] 1 by simp
  with 1 t show ?thesis
    by (auto simp: proc_stop_def Let_def split: option.split sum.split)
qed

lemma skel_reply:
  assumes "distinct (ids s)"
  shows "skel (fst (control_reply opts env i ok s)) = skel s"
proof (cases "get_proc i s")
  case (Some r)
  show ?thesis
    using skel_put_proc [OF assms Some, of "r\<lparr>m_terminationRequested := False\<rparr>"]
      skel_put_proc [OF assms Some, of "r\<lparr>m_state := Stopping\<rparr>"]
    by (simp add: control_reply_def Some Let_def rec_skel_def)
qed (simp add: control_reply_def)

lemma skel_close:
  assumes "distinct (ids s)"
  shows "skel (proc_close_begin opts env answer preserve s) = skel s"
proof -
  have "skel (fold (\<lambda>i t. fst (proc_terminate opts env answer i t)) js (proc_emit es s))
      = skel (proc_emit es s)" for js es
    by (rule fold_skel) (simp_all add: assms skel_terminate)
  then show ?thesis by (simp add: proc_close_begin_def Let_def)
qed

lemma skel_others:
  "skel (proc_close_end s) = skel s" "skel (stop_audited i s) = skel s"
  by (simp_all add: proc_close_end_def stop_audited_def skel_def recordAudit_def split: option.split)

lemmas skel_simps = skel_descriptors skel_status skel_logs skel_streams skel_closed skel_stop
  skel_reply skel_grace skel_close skel_others

text \<open>So every step is a start step or keeps the skeleton.\<close>

inductive start_step :: "proc_options \<Rightarrow> proc_sup \<Rightarrow> proc_sup \<Rightarrow> bool" for opts where
  ss_start: "start_step opts s (fst (start_process opts env inp s))"
| ss_settled: "\<forall>p \<in> set (ps_pending s). pn_promise p \<noteq> promise \<Longrightarrow>
    start_step opts s (start_settled key promise s)"
| ss_failed: "p \<in> set (ps_pending s) \<Longrightarrow> start_step opts s (start_failed (pn_promise p) s)"
| ss_spawned: "p \<in> set (ps_pending s) \<Longrightarrow>
    start_step opts s (fst (start_spawned opts env p i pid control token s))"

lemma proc_step_cases:
  assumes "proc_step opts s t" "distinct (ids s)"
  shows "start_step opts s t \<or> skel t = skel s"
  using assms by (cases rule: proc_step.cases) (auto simp: skel_simps intro: start_step.intros)

section \<open>The registry invariant\<close>

lemma removePersistedRecord_frame [simp]:
  "ps_records (removePersistedRecord opts env r s) = ps_records s"
  "ps_pending (removePersistedRecord opts env r s) = ps_pending s"
  "ps_pendingStarts (removePersistedRecord opts env r s) = ps_pendingStarts s"
  "ps_inFlight (removePersistedRecord opts env r s) = ps_inFlight s"
  "ps_promises (removePersistedRecord opts env r s) = ps_promises s"
  by (simp_all add: removePersistedRecord_def Let_def split: option.split)

lemma fold_removePersisted_frame [simp]:
  "ps_records (fold (removePersistedRecord opts env) gone s) = ps_records s"
  "ps_pending (fold (removePersistedRecord opts env) gone s) = ps_pending s"
  "ps_pendingStarts (fold (removePersistedRecord opts env) gone s) = ps_pendingStarts s"
  "ps_inFlight (fold (removePersistedRecord opts env) gone s) = ps_inFlight s"
  "ps_promises (fold (removePersistedRecord opts env) gone s) = ps_promises s"
  by (induction gone arbitrary: s) simp_all

lemma proc_reserve_frame:
  assumes "proc_reserveCapacity opts env s = (s', ok)"
  shows "ps_pending s' = ps_pending s" "ps_inFlight s' = ps_inFlight s"
    "ps_promises s' = ps_promises s"
    "ps_pendingStarts s' = ps_pendingStarts s + (if ok then 1 else 0)"
  using assms by (auto simp: proc_reserveCapacity_def Let_def split: prod.splits if_splits)

definition proc_give_up :: "proc_sup \<Rightarrow> proc_sup" where
  "proc_give_up s = s\<lparr>ps_pendingStarts := ps_pendingStarts s - 1\<rparr>"

definition proc_register :: "managed \<Rightarrow> proc_sup \<Rightarrow> proc_sup" where
  "proc_register r s = (proc_give_up s)\<lparr>ps_records := put_key m_processId r (ps_records s)\<rparr>"

interpretation proc_registry: capacity_registry
  ps_records ps_pendingStarts m_processId "\<lambda>r. m_state r = Running"
  "\<lambda>mx. proc_reserveCapacity (opts\<lparr>po_maxManaged := mx\<rparr>) env" proc_give_up proc_register
  for opts env
proof (unfold_locales, goal_cases)
  case (1 s mx s')
  then obtain rs gone where
    e: "evict_until (\<lambda>r. m_state r = Running) m_startedAtMs m_processId mx (ps_pendingStarts s)
      (ps_records s) = (rs, gone, True)" and "ps_records s' = rs"
      "ps_pendingStarts s' = ps_pendingStarts s + 1"
    by (auto simp: proc_reserveCapacity_def Let_def split: prod.splits if_splits)
  then show ?case using evict_until_spec [OF e 1(1)] by simp
next
  case (2 s mx s')
  then obtain rs gone where
    e: "evict_until (\<lambda>r. m_state r = Running) m_startedAtMs m_processId mx (ps_pendingStarts s)
      (ps_records s) = (rs, gone, False)" and "ps_records s' = rs"
      "ps_pendingStarts s' = ps_pendingStarts s"
    by (auto simp: proc_reserveCapacity_def Let_def split: prod.splits if_splits)
  then show ?case using evict_until_spec [OF e 2(1)] by simp
next
  case (3 s mx s' ok)
  then obtain rs gone where
    e: "evict_until (\<lambda>r. m_state r = Running) m_startedAtMs m_processId mx (ps_pendingStarts s)
      (ps_records s) = (rs, gone, ok)" and "ps_records s' = rs"
    by (auto simp: proc_reserveCapacity_def Let_def split: prod.splits if_splits)
  then show ?case using evict_until_spec [OF e 3(1)] by simp
qed (simp_all add: proc_give_up_def proc_register_def put_key_fresh)

text \<open>
  The registry is bounded, its identifiers are distinct, and the counter \<open>pendingStarts\<close> is the
  number of starts in flight.
\<close>

definition proc_inv :: "int \<Rightarrow> proc_sup \<Rightarrow> bool" where
  "proc_inv bound s \<longleftrightarrow> distinct (ids s)
     \<and> int (length (ps_records s)) + ps_pendingStarts s \<le> bound
     \<and> ps_pendingStarts s = int (length (ps_pending s))
     \<and> distinct (map pn_promise (ps_pending s))
     \<and> (\<forall>p \<in> set (ps_pending s). pn_promise p < ps_promises s)"

definition key_of :: "pending_start \<Rightarrow> string option" where
  "key_of p = si_key (pn_input p)"

text \<open>
  Every keyed start in flight owns the in-flight entry of its key and no record has that key;
  no two records share a key.
\<close>

definition skel_set :: "proc_sup \<Rightarrow> (string \<times> string option \<times> bool) set" where
  "skel_set s = set (map rec_skel (ps_records s))"

definition keys_owned :: "proc_sup \<Rightarrow> bool" where
  "keys_owned s \<longleftrightarrow> (\<forall>p \<in> set (ps_pending s). truthy_key (key_of p) \<longrightarrow>
     (\<exists>e \<in> set (ps_inFlight s). Some (if_key e) = key_of p \<and> if_promise e = pn_promise p))"

definition keys_fresh :: "proc_sup \<Rightarrow> bool" where
  "keys_fresh s \<longleftrightarrow> (\<forall>p \<in> set (ps_pending s). truthy_key (key_of p) \<longrightarrow>
     (\<forall>x \<in> skel_set s. fst (snd x) \<noteq> key_of p))"

definition keys_unique :: "proc_sup \<Rightarrow> bool" where
  "keys_unique s \<longleftrightarrow> (\<forall>x \<in> skel_set s. \<forall>y \<in> skel_set s.
     truthy_key (fst (snd x)) \<and> fst (snd x) = fst (snd y) \<longrightarrow> fst x = fst y)"

definition key_inv :: "proc_sup \<Rightarrow> bool" where
  "key_inv s \<longleftrightarrow> distinct (map if_key (ps_inFlight s)) \<and> keys_owned s \<and> keys_fresh s \<and> keys_unique s"

lemmas key_defs = keys_owned_def keys_fresh_def keys_unique_def skel_set_def

lemma invs_cong:
  assumes "skel s = skel t"
  shows "proc_inv b s = proc_inv b t" "key_inv s = key_inv t"
proof -
  have "map rec_skel (ps_records s) = map rec_skel (ps_records t)" "ps_pending s = ps_pending t"
    "ps_pendingStarts s = ps_pendingStarts t" "ps_inFlight s = ps_inFlight t"
    "ps_promises s = ps_promises t"
    using assms by (simp_all add: skel_def)
  moreover from this(1) have "length (ps_records s) = length (ps_records t)"
    by (rule map_eq_imp_length_eq)
  moreover have "ids s = ids t" by (rule ids_cong [OF assms])
  ultimately show "proc_inv b s = proc_inv b t" "key_inv s = key_inv t"
    by (simp_all only: proc_inv_def key_inv_def key_defs)
qed

lemma length_put_key_le: "length (put_key key r rs) \<le> length rs + 1"
  by (induction rs) auto

lemma take_pending_inv:
  assumes "proc_inv b s" "p \<in> set (ps_pending s)"
  shows "proc_inv b (take_pending (pn_promise p) s)"
    "int (length (ps_records s)) + ps_pendingStarts (take_pending (pn_promise p) s) + 1 \<le> b"
proof -
  have d: "distinct (map pn_promise (ps_pending s))" using assms(1) by (simp add: proc_inv_def)
  have "0 < length (ps_pending s)" using assms(2) by auto
  with length_del_key [OF d assms(2)]
  have "int (length (del_key pn_promise (pn_promise p) (ps_pending s))) = int (length (ps_pending s)) - 1"
    by linarith
  then show "proc_inv b (take_pending (pn_promise p) s)"
    "int (length (ps_records s)) + ps_pendingStarts (take_pending (pn_promise p) s) + 1 \<le> b"
    using assms(1) distinct_del_key [OF d] by (auto simp: proc_inv_def take_pending_def)
qed

lemma startInternal_state:
  assumes "startInternal opts env inp promise s = (s', out)"
  shows "s' = s \<or>
    (truthy_key (si_key inp) \<longrightarrow> (\<forall>r \<in> set (ps_records s). m_idempotencyKey r \<noteq> si_key inp)) \<and>
    (\<exists>s1 ok. proc_reserveCapacity opts env s = (s1, ok) \<and> s' =
       (if ok then s1\<lparr>ps_pending := ps_pending s1 @ [\<lparr>pn_promise = promise, pn_input = inp\<rparr>]\<rparr> else s1))"
proof (cases "if truthy_key (si_key inp)
    then find (\<lambda>r. m_idempotencyKey r = si_key inp) (ps_records s) else None")
  case None
  then have key: "truthy_key (si_key inp) \<longrightarrow> (\<forall>r \<in> set (ps_records s). m_idempotencyKey r \<noteq> si_key inp)"
    by (auto simp: find_None_iff split: if_splits)
  obtain s1 ok where r: "proc_reserveCapacity opts env s = (s1, ok)" by fastforce
  from None r assms have "s' =
      (if ok then s1\<lparr>ps_pending := ps_pending s1 @ [\<lparr>pn_promise = promise, pn_input = inp\<rparr>]\<rparr> else s1)"
    by (cases ok) (simp_all add: startInternal_def Let_def)
  with key r show ?thesis by blast
next
  case (Some e)
  with assms have "s' = s" by (simp add: startInternal_def Let_def split: if_splits)
  then show ?thesis by simp
qed

lemma reserve_inv:
  assumes "proc_inv b s" "po_maxManaged opts \<le> b" "proc_reserveCapacity opts env s = (s1, ok)"
  shows "distinct (ids s1) \<and> int (length (ps_records s1)) + ps_pendingStarts s1 \<le> b
    \<and> set (ps_records s1) \<subseteq> set (ps_records s)"
proof -
  have d: "distinct (ids s)" using assms(1) by (simp add: proc_inv_def)
  have "opts\<lparr>po_maxManaged := po_maxManaged opts\<rparr> = opts" by simp
  with assms(3) have r: "proc_reserveCapacity (opts\<lparr>po_maxManaged := po_maxManaged opts\<rparr>) env s = (s1, ok)"
    by simp
  from proc_registry.reserve_bound [OF d _ _ assms(2) r] proc_registry.reserve_recs [OF d r] assms(1)
  show ?thesis by (simp add: proc_inv_def)
qed

lemma startInternal_inv:
  assumes "proc_inv b s" "po_maxManaged opts \<le> b" "ps_promises s = promise + 1"
    "\<forall>p \<in> set (ps_pending s). pn_promise p < promise"
  shows "proc_inv b (fst (startInternal opts env inp promise s))"
proof -
  obtain s' out where si: "startInternal opts env inp promise s = (s', out)" by fastforce
  then consider "fst (startInternal opts env inp promise s) = s"
    | s1 ok where "proc_reserveCapacity opts env s = (s1, ok)"
      "fst (startInternal opts env inp promise s) = (if ok
        then s1\<lparr>ps_pending := ps_pending s1 @ [\<lparr>pn_promise = promise, pn_input = inp\<rparr>]\<rparr> else s1)"
    using startInternal_state [OF si] by auto
  then show ?thesis
  proof cases
    case 1
    then show ?thesis using assms(1) by simp
  next
    case 2
    from reserve_inv [OF assms(1,2) 2(1)] proc_reserve_frame [OF 2(1)] assms 2(2)
    show ?thesis by (auto simp: proc_inv_def)
  qed
qed

lemma proc_inv_simple:
  "proc_inv b s \<Longrightarrow> proc_inv b (s\<lparr>ps_promises := ps_promises s + 1\<rparr>)"
  "proc_inv b (s\<lparr>ps_inFlight := x\<rparr>) = proc_inv b s"
  by (auto simp: proc_inv_def)

lemma start_process_inv:
  assumes "proc_inv b s" "po_maxManaged opts \<le> b"
  shows "proc_inv b (fst (start_process opts env inp s))"
proof -
  let ?s0 = "s\<lparr>ps_promises := ps_promises s + 1\<rparr>"
  obtain s1 out where i: "startInternal opts env inp (ps_promises s) ?s0 = (s1, out)" by fastforce
  have "proc_inv b (fst (startInternal opts env inp (ps_promises s) ?s0))"
    using assms by (intro startInternal_inv) (auto simp: proc_inv_def)
  with i have "proc_inv b s1" by simp
  then show ?thesis using assms(1) i
    by (simp add: start_process_def Let_def proc_inv_simple split: option.split)
qed

lemma start_spawned_inv:
  assumes "proc_inv b s" "p \<in> set (ps_pending s)"
  shows "proc_inv b (fst (start_spawned opts env p i pid control token s))"
proof (cases pid)
  case None
  then show ?thesis using take_pending_inv(1) [OF assms] by (simp add: start_spawned_def Let_def)
next
  case (Some n)
  let ?s = "take_pending (pn_promise p) s"
  let ?r = "created_record opts env (pn_input p) i n control token"
  have "ps_records ?s = ps_records s" by (simp add: take_pending_def)
  then have "proc_inv b (?s\<lparr>ps_records := put_key m_processId ?r (ps_records ?s)\<rparr>)"
    using take_pending_inv [OF assms] length_put_key_le [of m_processId ?r "ps_records s"]
    by (auto simp: proc_inv_def distinct_put_key)
  then show ?thesis
    using invs_cong(1) [OF skel_frames(3)] invs_cong(1) [OF skel_frames(1)]
    by (simp add: start_spawned_def Let_def Some)
qed

lemma proc_step_inv:
  assumes "proc_step opts s t" "proc_inv b s" "po_maxManaged opts \<le> b"
  shows "proc_inv b t"
proof -
  have "distinct (ids s)" using assms(2) by (simp add: proc_inv_def)
  from proc_step_cases [OF assms(1) this] show ?thesis
  proof
    assume "skel t = skel s"
    from invs_cong(1) [OF this] assms(2) show ?thesis by simp
  next
    assume "start_step opts s t"
    then show ?thesis
    proof cases
      case ss_settled
      then show ?thesis using assms(2) by (simp add: start_settled_def proc_inv_simple)
    qed (use assms in \<open>auto simp: start_failed_def start_process_inv start_spawned_inv take_pending_inv\<close>)
  qed
qed

section \<open>The idempotency invariant\<close>

lemma key_inv_fewer:
  assumes "key_inv s" "set (ps_records t) \<subseteq> set (ps_records s)"
    "ps_pending t = ps_pending s" "ps_inFlight t = ps_inFlight s"
  shows "key_inv t"
proof -
  have "skel_set t \<subseteq> skel_set s" using assms(2) by (auto simp: skel_set_def)
  with assms(1) have "keys_fresh t" "keys_unique t"
    unfolding key_inv_def keys_fresh_def keys_unique_def assms(3) by blast+
  with assms show ?thesis by (simp add: key_inv_def keys_owned_def)
qed

lemma key_inv_take:
  assumes "key_inv s"
  shows "key_inv (take_pending k s)"
  using assms by (auto simp: key_inv_def key_defs take_pending_def)

lemma keys_inFlight [simp]:
  "keys_fresh (s\<lparr>ps_inFlight := x\<rparr>) = keys_fresh s"
  "keys_unique (s\<lparr>ps_inFlight := x\<rparr>) = keys_unique s"
  by (simp_all add: keys_fresh_def keys_unique_def skel_set_def)

lemma keys_ownedE:
  assumes "key_inv s" "p \<in> set (ps_pending s)" "truthy_key (key_of p)"
  obtains e where "e \<in> set (ps_inFlight s)" "Some (if_key e) = key_of p" "if_promise e = pn_promise p"
  using assms unfolding key_inv_def keys_owned_def by blast

lemma inFlight_unique:
  "key_inv s \<Longrightarrow> e \<in> set (ps_inFlight s) \<Longrightarrow> f \<in> set (ps_inFlight s) \<Longrightarrow> if_key e = if_key f \<Longrightarrow> e = f"
  by (auto simp: key_inv_def distinct_map inj_on_def)

lemma key_inv_settled:
  assumes "key_inv s" "\<forall>p \<in> set (ps_pending s). pn_promise p \<noteq> promise"
  shows "key_inv (start_settled key promise s)"
proof (cases "map_option if_promise (find_key if_key key (ps_inFlight s)) = Some promise")
  case True
  then obtain e where e: "e \<in> set (ps_inFlight s)" "if_key e = key" "if_promise e = promise"
    by (auto dest: find_key_SomeD)
  have keep: "x \<in> set (del_key if_key key (ps_inFlight s))"
    if "p \<in> set (ps_pending s)" "x \<in> set (ps_inFlight s)" "if_promise x = pn_promise p" for p x
    using inFlight_unique [OF assms(1) that(2) e(1)] assms(2) that e by auto
  have "keys_owned (s\<lparr>ps_inFlight := del_key if_key key (ps_inFlight s)\<rparr>)"
    unfolding keys_owned_def
  proof (intro ballI impI)
    fix p assume p: "p \<in> set (ps_pending (s\<lparr>ps_inFlight := del_key if_key key (ps_inFlight s)\<rparr>))"
      "truthy_key (key_of p)"
    with assms(1) obtain x where
      "x \<in> set (ps_inFlight s)" "Some (if_key x) = key_of p" "if_promise x = pn_promise p"
      unfolding key_inv_def keys_owned_def by auto
    with keep p show "\<exists>x \<in> set (ps_inFlight (s\<lparr>ps_inFlight := del_key if_key key (ps_inFlight s)\<rparr>)).
        Some (if_key x) = key_of p \<and> if_promise x = pn_promise p"
      by (intro bexI [of _ x]) simp_all
  qed
  moreover have "distinct (map if_key (del_key if_key key (ps_inFlight s)))"
    using assms(1) by (intro distinct_del_key) (simp add: key_inv_def)
  ultimately show ?thesis
    using assms(1) True by (simp add: start_settled_def key_inv_def)
qed (auto simp: start_settled_def assms(1))

lemma key_inv_spawned:
  assumes "key_inv s" "p \<in> set (ps_pending s)"
  shows "key_inv (fst (start_spawned opts env p i pid control token s))"
proof (cases pid)
  case None
  then show ?thesis using key_inv_take [OF assms(1)] by (simp add: start_spawned_def Let_def)
next
  case (Some n)
  let ?t = "take_pending (pn_promise p) s"
  let ?r = "created_record opts env (pn_input p) i n control token"
  let ?u = "?t\<lparr>ps_records := put_key m_processId ?r (ps_records ?t)\<rparr>"
  have t: "key_inv ?t" by (rule key_inv_take [OF assms(1)])
  have new: "fst (snd (rec_skel ?r)) = key_of p"
    by (simp add: created_record_def key_of_def rec_skel_def)
  have st: "skel_set ?t = skel_set s" by (simp add: skel_set_def take_pending_def)
  have sub: "x = rec_skel ?r \<or> x \<in> skel_set s" if "x \<in> skel_set ?u" for x
    using that set_put_key_sub [of m_processId ?r "ps_records s"]
    by (auto simp: skel_set_def take_pending_def)
  have none: "fst (snd x) \<noteq> key_of p" if "x \<in> skel_set s" "truthy_key (key_of p)" for x
    using assms that unfolding key_inv_def keys_fresh_def by blast
  have pend: "key_of q \<noteq> key_of p" if q: "q \<in> set (ps_pending ?t)" and tr: "truthy_key (key_of q)" for q
  proof
    assume same: "key_of q = key_of p"
    from q have "q \<in> set (ps_pending s)" "pn_promise q \<noteq> pn_promise p"
      by (auto simp: take_pending_def)
    from keys_ownedE [OF assms] tr same obtain e where
      e: "e \<in> set (ps_inFlight s)" "Some (if_key e) = key_of p" "if_promise e = pn_promise p" by auto
    from keys_ownedE [OF assms(1) \<open>q \<in> set (ps_pending s)\<close> tr] obtain f where
      f: "f \<in> set (ps_inFlight s)" "Some (if_key f) = key_of q" "if_promise f = pn_promise q" by auto
    have "Some (if_key e) = Some (if_key f)" using e(2) f(2) same by simp
    then have "e = f" using inFlight_unique [OF assms(1) e(1) f(1)] by simp
    with e(3) f(3) \<open>pn_promise q \<noteq> pn_promise p\<close> show False by simp
  qed
  have "keys_fresh ?u"
    unfolding keys_fresh_def
  proof (intro ballI impI)
    fix q x assume q: "q \<in> set (ps_pending ?u)" "truthy_key (key_of q)" and x: "x \<in> skel_set ?u"
    from q(1) have q': "q \<in> set (ps_pending ?t)" by simp
    from sub [OF x] show "fst (snd x) \<noteq> key_of q"
    proof
      assume "x = rec_skel ?r"
      then show ?thesis using new pend [OF q' q(2)] by metis
    next
      assume "x \<in> skel_set s"
      then show ?thesis using t q' q(2) st unfolding key_inv_def keys_fresh_def by blast
    qed
  qed
  moreover have "keys_unique ?u"
    unfolding keys_unique_def
  proof (intro ballI impI, elim conjE)
    fix x y assume xy: "x \<in> skel_set ?u" "y \<in> skel_set ?u" "truthy_key (fst (snd x))"
      "fst (snd x) = fst (snd y)"
    have old: "fst x = fst y" if "x \<in> skel_set s" "y \<in> skel_set s"
      using assms(1) that xy(3,4) unfolding key_inv_def keys_unique_def by blast
    show "fst x = fst y" using sub [OF xy(1)] sub [OF xy(2)] old none new xy(3,4) by metis
  qed
  ultimately have "key_inv ?u" using t by (simp add: key_inv_def keys_owned_def)
  moreover have "skel (fst (start_spawned opts env p i pid control token s)) = skel ?u"
    by (simp add: start_spawned_def Let_def Some)
  ultimately show ?thesis using invs_cong(2) by metis
qed

lemma key_inv_add_entry:
  assumes "key_inv s" "if_key e \<notin> if_key ` set (ps_inFlight s)"
  shows "key_inv (s\<lparr>ps_inFlight := put_key if_key e (ps_inFlight s)\<rparr>)"
proof -
  have "put_key if_key e (ps_inFlight s) = ps_inFlight s @ [e]" by (rule put_key_fresh [OF assms(2)])
  then show ?thesis using assms by (auto simp: key_inv_def keys_owned_def)
qed

lemma key_inv_promises: "key_inv (s\<lparr>ps_promises := n\<rparr>) = key_inv s"
  by (simp add: key_inv_def key_defs)

lemma key_inv_commute:
  "key_inv (s\<lparr>ps_inFlight := a, ps_pending := b\<rparr>) = key_inv (s\<lparr>ps_pending := b, ps_inFlight := a\<rparr>)"
  by (cases s) simp

text \<open>A new start in flight: its key is owned by its own entry, and no record has it.\<close>

lemma key_inv_add_pending:
  assumes "key_inv s" "truthy_key (key_of p) \<longrightarrow>
      (\<forall>x \<in> skel_set s. fst (snd x) \<noteq> key_of p) \<and>
      (\<exists>e \<in> set (ps_inFlight s). Some (if_key e) = key_of p \<and> if_promise e = pn_promise p)"
  shows "key_inv (s\<lparr>ps_pending := ps_pending s @ [p]\<rparr>)"
proof -
  let ?t = "s\<lparr>ps_pending := ps_pending s @ [p]\<rparr>"
  have st: "skel_set ?t = skel_set s" by (simp add: skel_set_def)
  have "keys_owned ?t" using assms by (auto simp: key_inv_def keys_owned_def)
  moreover have "keys_fresh ?t" using assms unfolding key_inv_def keys_fresh_def st by auto
  moreover have "keys_unique ?t" using assms(1) unfolding key_inv_def keys_unique_def st by blast
  ultimately show ?thesis using assms(1) by (simp add: key_inv_def)
qed

lemma key_inv_start:
  assumes "key_inv s" "proc_inv b s" "po_maxManaged opts \<le> b"
  shows "key_inv (fst (start_process opts env inp s))"
proof -
  let ?n = "ps_promises s" and ?s0 = "s\<lparr>ps_promises := ps_promises s + 1\<rparr>"
  let ?p = "\<lparr>pn_promise = ?n, pn_input = inp\<rparr>"
  obtain s1 out where si: "startInternal opts env inp ?n ?s0 = (s1, out)" by fastforce
  have i0: "key_inv ?s0" "proc_inv b ?s0"
    using assms by (simp_all only: key_inv_promises proc_inv_simple)
  consider (same) "s1 = ?s0"
    | (reserved) s2 ok where "proc_reserveCapacity opts env ?s0 = (s2, ok)"
      "truthy_key (si_key inp) \<longrightarrow> (\<forall>r \<in> set (ps_records ?s0). m_idempotencyKey r \<noteq> si_key inp)"
      "s1 = (if ok then s2\<lparr>ps_pending := ps_pending s2 @ [?p]\<rparr> else s2)"
    using startInternal_state [OF si] by blast
  note cases = this
  have fewer: "key_inv s2 \<and> ps_inFlight s2 = ps_inFlight s
      \<and> (truthy_key (key_of ?p) \<longrightarrow> (\<forall>x \<in> skel_set s2. fst (snd x) \<noteq> key_of ?p))"
    if "proc_reserveCapacity opts env ?s0 = (s2, ok)"
      "truthy_key (si_key inp) \<longrightarrow> (\<forall>r \<in> set (ps_records ?s0). m_idempotencyKey r \<noteq> si_key inp)" for s2 ok
  proof -
    have sub: "set (ps_records s2) \<subseteq> set (ps_records ?s0)"
      using reserve_inv [OF i0(2) assms(3) that(1)] by blast
    then have "key_inv s2"
      using proc_reserve_frame [OF that(1)] by (intro key_inv_fewer [OF i0(1)]) simp_all
    with sub that(2) show ?thesis
      using proc_reserve_frame [OF that(1)] by (auto simp: skel_set_def key_of_def rec_skel_def)
  qed
  show ?thesis
  proof (cases "truthy_key (si_key inp)")
    case False
    then have "fst (start_process opts env inp s) = s1"
      using si by (simp add: start_process_def Let_def)
    moreover have "\<not> truthy_key (key_of ?p)" using False by (simp add: key_of_def)
    moreover from cases have "key_inv s1"
    proof cases
      case same
      with i0(1) show ?thesis by simp
    next
      case reserved
      from fewer [OF reserved(1,2)] have "key_inv s2" by simp
      with reserved(3) key_inv_add_pending [of s2 ?p] False show ?thesis
        by (cases ok) (simp_all add: key_of_def)
    qed
    ultimately show ?thesis by simp
  next
    case True
    then obtain k where k: "si_key inp = Some k" by (auto simp: truthy_key_def)
    let ?e = "\<lparr>if_key = k, if_promise = ?n, if_command = si_command inp, if_cwd = si_cwd inp,
      if_digest = po_digest opts (si_args inp)\<rparr>"
    show ?thesis
    proof (cases "find_key if_key k (ps_inFlight s)")
      case (Some e)
      with True k assms(1) show ?thesis by (simp add: start_process_def Let_def)
    next
      case None
      have out: "fst (start_process opts env inp s)
          = s1\<lparr>ps_inFlight := put_key if_key ?e (ps_inFlight s1)\<rparr>"
        using True k None si by (simp add: start_process_def Let_def)
      have fresh: "if_key ?e \<notin> if_key ` set (ps_inFlight s)"
        using None by (simp add: find_key_None_iff)
      from cases show ?thesis
      proof cases
        case same
        with out i0(1) fresh show ?thesis using key_inv_add_entry [of ?s0 ?e] by simp
      next
        case reserved
        from fewer [OF reserved(1,2)] have s2: "key_inv s2" "ps_inFlight s2 = ps_inFlight s"
          "\<forall>x \<in> skel_set s2. fst (snd x) \<noteq> key_of ?p"
          using True by (simp_all add: key_of_def)
        let ?t = "s2\<lparr>ps_inFlight := put_key if_key ?e (ps_inFlight s2)\<rparr>"
        have t: "key_inv ?t" using key_inv_add_entry [OF s2(1), of ?e] fresh s2(2) by simp
        have "?e \<in> set (ps_inFlight ?t)"
          using put_key_fresh [of if_key ?e "ps_inFlight s2"] fresh s2(2) by simp
        then have "\<exists>e \<in> set (ps_inFlight ?t). Some (if_key e) = key_of ?p \<and> if_promise e = pn_promise ?p"
          by (rule bexI [rotated]) (simp add: key_of_def k)
        moreover have "skel_set ?t = skel_set s2" by (simp add: skel_set_def)
        ultimately have "key_inv (?t\<lparr>ps_pending := ps_pending ?t @ [?p]\<rparr>)"
          using s2(3) by (intro key_inv_add_pending [OF t]) simp
        then show ?thesis using t out reserved(3) by (cases ok) (simp_all add: key_inv_commute)
      qed
    qed
  qed
qed

lemma proc_step_key_inv:
  assumes "proc_step opts s t" "key_inv s" "proc_inv b s" "po_maxManaged opts \<le> b"
  shows "key_inv t"
proof -
  have "distinct (ids s)" using assms(3) by (simp add: proc_inv_def)
  from proc_step_cases [OF assms(1) this] show ?thesis
  proof
    assume "skel t = skel s"
    from invs_cong(2) [OF this] assms(2) show ?thesis by simp
  next
    assume "start_step opts s t"
    then show ?thesis
      using assms(2-4)
      by cases (auto simp: start_failed_def key_inv_take key_inv_settled key_inv_spawned key_inv_start)
  qed
qed

lemma reachable_invs:
  assumes "proc_reachable opts s0 s" "proc_inv b s0" "po_maxManaged opts \<le> b"
  shows "proc_inv b s" "key_inv s0 \<longrightarrow> key_inv s"
proof -
  from assms(1) have "proc_inv b s \<and> (key_inv s0 \<longrightarrow> key_inv s)"
  proof induction
    case prc_init
    then show ?case using assms(2) by simp
  next
    case (prc_step s t)
    then show ?case using proc_step_inv proc_step_key_inv assms(3) by blast
  qed
  then show "proc_inv b s" "key_inv s0 \<longrightarrow> key_inv s" by auto
qed

section \<open>Recovery\<close>

lemma recovered_persistent: "m_persistent (fst (recovered env v))"
  using applyIndependentResult_skel [of env "restored_record st v" for st]
  by (simp add: recovered_def Let_def rec_skel_def restored_record_def)

lemma set_corrupt_frame [simp]:
  "ps_records (set_corrupt env x name s) = ps_records s"
  "ps_pending (set_corrupt env x name s) = ps_pending s"
  "ps_pendingStarts (set_corrupt env x name s) = ps_pendingStarts s"
  "ps_inFlight (set_corrupt env x name s) = ps_inFlight s"
  "ps_promises (set_corrupt env x name s) = ps_promises s"
  "ps_log (set_corrupt env x name s) = ps_log s"
  "ps_detached (set_corrupt env x name s) = ps_detached s"
  by (simp_all add: set_corrupt_def)

lemma restore_one_records:
  obtains "ps_records (restore_one opts env x file s) = ps_records s"
  | r where "ps_records (restore_one opts env x file s) = put_key m_processId r (ps_records s)"
      "m_persistent r"
proof -
  obtain name content where f: "file = (name, content)" by fastforce
  have "ps_records (restore_one opts env x file s) = ps_records s
      \<or> (\<exists>v. ps_records (restore_one opts env x file s)
            = put_key m_processId (fst (recovered env v)) (ps_records s))"
  proof (cases content)
    case None
    with f show ?thesis by (simp add: restore_one_def)
  next
    case (Some v)
    obtain r w where "recovered env v = (r, w)" by fastforce
    then have "fst (recovered env v) = r" by simp
    then have "\<exists>v. put_key m_processId r (ps_records s)
        = put_key m_processId (fst (recovered env v)) (ps_records s)" by metis
    with f Some \<open>recovered env v = (r, w)\<close> show ?thesis
      by (simp add: restore_one_def Let_def)
  qed
  with that recovered_persistent show ?thesis by blast
qed

lemma restore_one_frame:
  "ps_pending (restore_one opts env x file s) = ps_pending s"
  "ps_pendingStarts (restore_one opts env x file s) = ps_pendingStarts s"
  "ps_inFlight (restore_one opts env x file s) = ps_inFlight s"
  "ps_promises (restore_one opts env x file s) = ps_promises s"
  "ps_log (restore_one opts env x file s) = ps_log s"
  "ps_detached (restore_one opts env x file s) = ps_detached s"
  by (simp_all add: restore_one_def Let_def split: prod.split option.split)

lemma fold_restore:
  assumes "distinct (ids s)" "\<forall>r \<in> set (ps_records s). m_persistent r"
  shows "distinct (ids (fold (restore_one opts env x) files s))
    \<and> (\<forall>r \<in> set (ps_records (fold (restore_one opts env x) files s)). m_persistent r)
    \<and> ps_pending (fold (restore_one opts env x) files s) = ps_pending s
    \<and> ps_pendingStarts (fold (restore_one opts env x) files s) = ps_pendingStarts s
    \<and> ps_inFlight (fold (restore_one opts env x) files s) = ps_inFlight s
    \<and> ps_log (fold (restore_one opts env x) files s) = ps_log s"
  using assms
proof (induction files arbitrary: s)
  case (Cons f files)
  let ?s = "restore_one opts env x f s"
  have "distinct (ids ?s) \<and> (\<forall>r \<in> set (ps_records ?s). m_persistent r)"
  proof (cases rule: restore_one_records [of opts env x f s])
    case 1
    with Cons.prems show ?thesis by simp
  next
    case (2 r)
    have "\<forall>q \<in> set (put_key m_processId r (ps_records s)). m_persistent q"
      using 2(2) Cons.prems(2) set_put_key_sub [of m_processId r "ps_records s"] by blast
    with 2(1) Cons.prems(1) show ?thesis by (simp add: distinct_put_key)
  qed
  with Cons.IH [of ?s] show ?case by (simp add: restore_one_frame)
qed simp

lemma proc_sup_new_inv:
  "proc_inv (max (po_maxManaged opts) (int (length (ps_records (proc_sup_new opts env x files)))))
     (proc_sup_new opts env x files)"
proof -
  let ?s = "\<lparr>ps_records = [], ps_detached = [], ps_inFlight = [], ps_pending = [],
    ps_pendingStarts = 0, ps_closed = False, ps_disk = files, ps_log = [], ps_promises = 0\<rparr>"
  show ?thesis
    using fold_restore [of ?s opts env x files] by (simp add: proc_sup_new_def Let_def proc_inv_def)
qed

text \<open>
  C12: Whatever starts, exits, queries and stops interleave after a supervisor came up, its registry
  keeps distinct process identifiers, records and starts in flight together never exceed the
  configured limit (or what recovery found, if that was more), and the counter \<open>pendingStarts\<close>
  is exactly the number of starts in flight: no path loses or returns a place twice.
\<close>

theorem process_registry_invariant:
  assumes "proc_reachable opts (proc_sup_new opts env x files) s"
  shows "distinct (map m_processId (ps_records s))
    \<and> int (length (ps_records s)) + ps_pendingStarts s
        \<le> max (po_maxManaged opts) (int (length (ps_records (proc_sup_new opts env x files))))
    \<and> ps_pendingStarts s = int (length (ps_pending s))"
  using reachable_invs(1) [OF assms proc_sup_new_inv] by (simp add: proc_inv_def)

text \<open>The record that recovery makes of a file, and its idempotency key if it has one.\<close>

definition file_record :: "proc_env \<Rightarrow> string \<times> jval option \<Rightarrow> managed option" where
  "file_record env file =
     (case file of
        (name, Some v) \<Rightarrow>
          if ends_with name ''.json'' \<and> restorable v then Some (fst (recovered env v)) else None
      | (name, None) \<Rightarrow> None)"

definition file_key :: "string \<times> jval option \<Rightarrow> string option" where
  "file_key file =
     (case file of
        (name, Some v) \<Rightarrow>
          if ends_with name ''.json'' \<and> restorable v \<and> is_JString (jget v ''idempotencyKey'')
             \<and> jget v ''idempotencyKey'' \<noteq> JString ''''
          then Some (jstring (jget v ''idempotencyKey'')) else None
      | (name, None) \<Rightarrow> None)"

lemma applied_frame [simp]:
  "m_processId (fst (applyIndependentResult env r)) = m_processId r"
  "m_idempotencyKey (fst (applyIndependentResult env r)) = m_idempotencyKey r"
  using applyIndependentResult_skel [of env r] by (simp_all add: rec_skel_def)

lemma recovered_key:
  "m_idempotencyKey (fst (recovered env v))
    = (if is_JString (jget v ''idempotencyKey'') then Some (jstring (jget v ''idempotencyKey'')) else None)"
  using applied_frame by (simp add: recovered_def Let_def restored_record_def)

lemma file_record_key:
  assumes "file_record env f = Some r" "truthy_key (m_idempotencyKey r)"
  shows "file_key f = m_idempotencyKey r"
  using assms
  by (auto simp: file_record_def file_key_def recovered_key truthy_key_def is_JString_iff
      split: prod.splits option.splits if_splits)

lemma restore_one_file_record:
  "ps_records (restore_one opts env x f s)
    = (case file_record env f of None \<Rightarrow> ps_records s | Some r \<Rightarrow> put_key m_processId r (ps_records s))"
  by (auto simp: restore_one_def file_record_def restorable_def Let_def split: prod.splits option.splits)

lemma fold_restore_records:
  "r \<in> set (ps_records (fold (restore_one opts env x) files s)) \<Longrightarrow>
    r \<in> set (ps_records s) \<or> (\<exists>f \<in> set files. file_record env f = Some r)"
proof (induction files arbitrary: s)
  case (Cons f files)
  have "q \<in> set (ps_records s) \<or> file_record env f = Some q"
    if "q \<in> set (ps_records (restore_one opts env x f s))" for q
    using that set_put_key_sub [of m_processId _ "ps_records s"]
    by (fastforce simp: restore_one_file_record split: option.splits)
  with Cons.IH [of "restore_one opts env x f s"] Cons.prems show ?case by fastforce
qed simp

lemma map_filter_mem: "x \<in> set xs \<Longrightarrow> g x = Some k \<Longrightarrow> k \<in> set (List.map_filter g xs)"
  by (induction xs) (auto simp: List.map_filter_simps split: option.splits)

lemma map_filter_once:
  assumes "distinct (List.map_filter g xs)" "x \<in> set xs" "y \<in> set xs" "g x = Some k" "g y = Some k"
  shows "x = y"
  using assms
proof (induction xs)
  case (Cons a xs)
  show ?case
  proof (cases "g a = Some k")
    case True
    with Cons.prems(1) have "\<forall>z \<in> set xs. g z \<noteq> Some k"
      by (auto simp: List.map_filter_simps dest: map_filter_mem)
    with Cons.prems show ?thesis by auto
  next
    case False
    with Cons.prems have "x \<in> set xs" "y \<in> set xs" by auto
    moreover have "distinct (List.map_filter g xs)"
      using Cons.prems(1) by (auto simp: List.map_filter_simps split: option.splits)
    ultimately show ?thesis using Cons.IH Cons.prems(4,5) by blast
  qed
qed simp

lemma proc_sup_new_records:
  "r \<in> set (ps_records (proc_sup_new opts env x files)) \<Longrightarrow> \<exists>f \<in> set files. file_record env f = Some r"
  using fold_restore_records [of r opts env x files "\<lparr>ps_records = [], ps_detached = [], ps_inFlight = [],
      ps_pending = [], ps_pendingStarts = 0, ps_closed = False, ps_disk = files, ps_log = [], ps_promises = 0\<rparr>"]
  by (cases "po_persistence opts") (simp_all add: proc_sup_new_def Let_def)

lemma recovered_keys_unique:
  assumes "distinct (List.map_filter file_key files)"
  shows "keys_unique (proc_sup_new opts env x files)"
proof -
  have "m_processId r = m_processId r'"
    if "r \<in> set (ps_records (proc_sup_new opts env x files))" "r' \<in> set (ps_records (proc_sup_new opts env x files))"
      "truthy_key (m_idempotencyKey r)" "m_idempotencyKey r = m_idempotencyKey r'" for r r'
  proof -
    from that(1,2) obtain f f' where f: "f \<in> set files" "file_record env f = Some r"
      "f' \<in> set files" "file_record env f' = Some r'"
      by (blast dest: proc_sup_new_records)
    from that(3) obtain k where "m_idempotencyKey r = Some k" by (auto simp: truthy_key_def)
    with file_record_key [OF f(2) that(3)] file_record_key [OF f(4)] that(3,4)
    have "file_key f = Some k" "file_key f' = Some k" by simp_all
    from map_filter_once [OF assms f(1) f(3) this] have "f = f'" .
    with f(2,4) have "r = r'" by simp
    then show ?thesis by (rule arg_cong)
  qed
  note unique = this
  let ?s = "proc_sup_new opts env x files"
  show ?thesis unfolding keys_unique_def
  proof (intro ballI impI)
    fix a b assume ab: "a \<in> skel_set ?s" "b \<in> skel_set ?s"
      and k: "truthy_key (fst (snd a)) \<and> fst (snd a) = fst (snd b)"
    from ab obtain r r' where r: "r \<in> set (ps_records ?s)" "a = rec_skel r"
      "r' \<in> set (ps_records ?s)" "b = rec_skel r'"
      by (auto simp: skel_set_def)
    from unique [OF r(1) r(3)] k show "fst a = fst b" unfolding r(2,4) rec_skel_def fst_conv snd_conv by blast
  qed
qed

text \<open>
  C14: As long as the daemon runs, an idempotency key names one process: when the record files
  found at its start carry pairwise different keys (as an empty directory does), then in every
  reachable state two records with the same non-empty key are the same process, and a start in
  flight with that key has no record beside it. Across restarts the condition on the files can
  fail: \<open>late_close_duplicates_key\<close>.
\<close>

theorem idempotency_key_unique:
  assumes "proc_reachable opts (proc_sup_new opts env x files) s"
    "distinct (List.map_filter file_key files)"
    "r \<in> set (ps_records s)" "truthy_key (m_idempotencyKey r)"
  shows "(\<forall>r' \<in> set (ps_records s). m_idempotencyKey r' = m_idempotencyKey r
        \<longrightarrow> m_processId r' = m_processId r)
    \<and> (\<forall>p \<in> set (ps_pending s). si_key (pn_input p) \<noteq> m_idempotencyKey r)"
proof -
  let ?s0 = "proc_sup_new opts env x files"
  let ?i = "\<lparr>ps_records = [], ps_detached = [], ps_inFlight = [], ps_pending = [],
    ps_pendingStarts = 0, ps_closed = False, ps_disk = files, ps_log = [], ps_promises = 0\<rparr>"
  have "ps_pending ?s0 = [] \<and> ps_inFlight ?s0 = []"
    using fold_restore [of ?i opts env x files] by (simp add: proc_sup_new_def Let_def)
  then have "key_inv ?s0" using recovered_keys_unique [OF assms(2)] by (simp add: key_inv_def keys_owned_def keys_fresh_def)
  then have k: "key_inv s" using reachable_invs(2) [OF assms(1) proc_sup_new_inv] by simp
  have mem: "rec_skel q \<in> skel_set s" if "q \<in> set (ps_records s)" for q
    using that by (simp add: skel_set_def)
  have "m_processId q = m_processId r"
    if "q \<in> set (ps_records s)" "m_idempotencyKey q = m_idempotencyKey r" for q
    using k mem [OF that(1)] mem [OF assms(3)] assms(4) that(2)
    unfolding key_inv_def keys_unique_def by (fastforce simp: rec_skel_def)
  moreover have "si_key (pn_input p) \<noteq> m_idempotencyKey r" if "p \<in> set (ps_pending s)" for p
    using k mem [OF assms(3)] assms(4) that
    unfolding key_inv_def keys_fresh_def by (fastforce simp: rec_skel_def key_of_def)
  ultimately show ?thesis by blast
qed

section \<open>No process identifier is signalled when jobs are persistent\<close>

fun is_signal :: "proc_effect \<Rightarrow> bool" where
  "is_signal (ESignal t g) = True"
| "is_signal e = False"

definition signals :: "proc_sup \<Rightarrow> proc_effect list" where
  "signals s = filter is_signal (ps_log s)"

definition all_persistent :: "proc_sup \<Rightarrow> bool" where
  "all_persistent s \<longleftrightarrow> (\<forall>x \<in> skel_set s. snd (snd x))"

lemma all_persistentD: "all_persistent s \<Longrightarrow> r \<in> set (ps_records s) \<Longrightarrow> m_persistent r"
  by (auto simp: all_persistent_def skel_set_def rec_skel_def)

lemma all_persistent_cong: "skel s = skel t \<Longrightarrow> all_persistent s = all_persistent t"
  by (simp add: all_persistent_def skel_set_def skel_def)

lemma signals_frames [simp]:
  "signals (persistRecord opts env r s) = signals s"
  "signals (put_proc r s) = signals s"
  "signals (recordAudit a r s) = signals s"
  "signals (proc_emit [EControlStop c t] s) = signals s"
  "signals (proc_emit (map (\<lambda>r. EUnref (f r)) rs) s) = signals s"
  "signals (proc_emit [] s) = signals s"
  "signals (take_pending k s) = signals s"
  by (simp_all add: signals_def recordAudit_def take_pending_def filter_map comp_def)

lemma signals_updates [simp]:
  "signals (s\<lparr>ps_records := a\<rparr>) = signals s" "signals (s\<lparr>ps_detached := b\<rparr>) = signals s"
  "signals (s\<lparr>ps_inFlight := c\<rparr>) = signals s" "signals (s\<lparr>ps_pending := d\<rparr>) = signals s"
  "signals (s\<lparr>ps_pendingStarts := e\<rparr>) = signals s" "signals (s\<lparr>ps_closed := f\<rparr>) = signals s"
  "signals (s\<lparr>ps_promises := g\<rparr>) = signals s" "signals (s\<lparr>ps_disk := h\<rparr>) = signals s"
  by (simp_all add: signals_def)

lemma signals_refresh [simp]: "signals (refreshRecovered opts env i s) = signals s"
  by (simp add: refreshRecovered_def split: option.split prod.split)

lemma signals_fold:
  assumes "\<And>t i. signals (f i t) = signals t"
  shows "signals (fold f is s) = signals s"
  by (induction "is" arbitrary: s) (simp_all add: assms)

lemma signals_terminate:
  assumes "all_persistent s"
  shows "signals (fst (proc_terminate opts env answer i s)) = signals s"
proof (cases "get_proc i s")
  case (Some r)
  then have "m_persistent r" using assms all_persistentD find_key_SomeD by metis
  with Some show ?thesis by (simp add: proc_terminate_def Let_def split: option.split)
qed (simp add: proc_terminate_def)

lemma signals_terminate_all:
  assumes "all_persistent s" "distinct (ids s)"
  shows "signals (fold (\<lambda>i t. fst (proc_terminate opts env answer i t)) is s) = signals s"
  using assms
proof (induction "is" arbitrary: s)
  case (Cons i "is")
  let ?t = "fst (proc_terminate opts env answer i s)"
  have "skel ?t = skel s" by (rule skel_terminate [OF Cons.prems(2)])
  then have "all_persistent ?t" "distinct (ids ?t)"
    using Cons.prems all_persistent_cong [of ?t s] ids_cong [of ?t s] by simp_all
  then show ?case using Cons.IH signals_terminate [OF Cons.prems(1)] by simp
qed simp

lemma signals_stop:
  assumes "all_persistent s" "distinct (ids s)"
  shows "signals (fst (proc_stop opts env answer i s)) = signals s"
proof -
  let ?s1 = "refreshRecovered opts env i s"
  have "all_persistent ?s1"
    using all_persistent_cong [OF refreshRecovered_skel [OF assms(2)]] assms(1) by simp
  from signals_terminate [OF this, of opts env answer i] show ?thesis
    by (auto simp: proc_stop_def Let_def split: option.split sum.split prod.split)
qed

lemma signals_grace:
  assumes "all_persistent s"
  shows "signals (fst (proc_grace_expired opts answer i s)) = signals s"
proof (cases "get_proc i s")
  case (Some r)
  then have "m_persistent r" using assms all_persistentD find_key_SomeD by metis
  with Some show ?thesis by (simp add: proc_grace_expired_def)
qed (simp add: proc_grace_expired_def)

lemma signals_remove [simp]: "signals (removePersistedRecord opts env r s) = signals s"
proof -
  have "filter is_signal (map EUnlink xs) = []" for xs by (induction xs) auto
  then show ?thesis
    by (simp add: removePersistedRecord_def Let_def signals_def split: option.split del: list.map)
qed

lemma signals_reserve:
  "proc_reserveCapacity opts env s = (s', ok) \<Longrightarrow> signals s' = signals s"
  by (auto simp: proc_reserveCapacity_def Let_def signals_fold split: prod.splits if_splits)

lemma signals_start [simp]: "signals (fst (start_process opts env inp s)) = signals s"
proof -
  have "signals (fst (startInternal opts env inp n s)) = signals s" for n s
  proof -
    obtain s' out where si: "startInternal opts env inp n s = (s', out)" by fastforce
    from startInternal_state [OF si] signals_reserve show ?thesis
      using si by (auto split: if_splits)
  qed
  note i = this
  obtain s1 out where si: "startInternal opts env inp (ps_promises s)
      (s\<lparr>ps_promises := ps_promises s + 1\<rparr>) = (s1, out)" by fastforce
  then have "signals s1 = signals s"
    using i [of "ps_promises s" "s\<lparr>ps_promises := ps_promises s + 1\<rparr>"] by simp
  with si show ?thesis
    by (simp add: start_process_def Let_def split: option.split)
qed

lemma signals_step:
  assumes "proc_step opts s t" "all_persistent s" "distinct (ids s)"
  shows "signals t = signals s"
  using assms
proof cases
  case pst_stop
  then show ?thesis using signals_stop assms by simp
next
  case pst_close
  have "all_persistent (proc_emit es s)" "distinct (ids (proc_emit es s))" for es
    using assms(2,3) by (simp_all add: all_persistent_def skel_set_def)
  from signals_terminate_all [OF this] pst_close show ?thesis
    by (simp add: proc_close_begin_def Let_def)
next
  case (pst_spawned p env i pid control token)
  then show ?thesis by (simp add: start_spawned_def Let_def split: option.split)
next
  case pst_closed
  then show ?thesis by (simp add: proc_closed_def Let_def split: option.split)
next
  case pst_descriptors
  then show ?thesis by (simp add: proc_descriptors_def Let_def signals_fold)
next
  case pst_logs
  then show ?thesis by (simp add: proc_logs_def Let_def split: option.split)
qed (simp_all add: signals_grace proc_status_def Let_def start_settled_def start_failed_def
      proc_stdout_def proc_stderr_def control_reply_def stop_audited_def
      proc_close_end_def split: option.split)

lemma all_persistent_start:
  assumes "start_step opts s t" "all_persistent s" "po_persistence opts \<noteq> None"
    "proc_inv b s" "po_maxManaged opts \<le> b"
  shows "all_persistent t"
proof -
  have P: "all_persistent u" if "\<forall>r \<in> set (ps_records u). m_persistent r" for u
    using that by (simp add: all_persistent_def skel_set_def rec_skel_def)
  have Q: "m_persistent r" if "r \<in> set (ps_records s)" for r using all_persistentD [OF assms(2) that] .
  from assms(1) show ?thesis
  proof cases
    case (ss_start env inp)
    let ?s0 = "s\<lparr>ps_promises := ps_promises s + 1\<rparr>"
    obtain s1 out where si: "startInternal opts env inp (ps_promises s) ?s0 = (s1, out)" by fastforce
    have "set (ps_records s1) \<subseteq> set (ps_records s)"
      using startInternal_state [OF si] reserve_inv [OF proc_inv_simple(1) [OF assms(4)] assms(5)]
      by (fastforce split: if_splits)
    moreover have "ps_records t = ps_records s \<or> ps_records t = ps_records s1"
      using ss_start si by (simp add: start_process_def Let_def split: option.split)
    ultimately show ?thesis using Q by (intro P) auto
  next
    case ss_settled
    then show ?thesis using Q by (intro P) (simp add: start_settled_def)
  next
    case ss_failed
    then show ?thesis using Q by (intro P) (simp add: start_failed_def take_pending_def)
  next
    case (ss_spawned p env i pid control token)
    let ?r = "\<lambda>n. created_record opts env (pn_input p) i n control token"
    have "m_persistent (?r n)" for n using assms(3) by (simp add: created_record_def)
    moreover have "ps_records t = ps_records s
        \<or> (\<exists>n. ps_records t = put_key m_processId (?r n) (ps_records s))"
      using ss_spawned
      by (auto simp: start_spawned_def Let_def take_pending_def recordAudit_def split: option.splits)
    moreover have "q = x \<or> q \<in> set (ps_records s)" if "q \<in> set (put_key m_processId x (ps_records s))"
      for q x using that set_put_key_sub [of m_processId x "ps_records s"] by blast
    ultimately have "m_persistent q" if "q \<in> set (ps_records t)" for q
      using Q that by metis
    then show ?thesis by (intro P) blast
  qed
qed

lemma persistent_reachable:
  assumes "proc_reachable opts s0 s" "po_persistence opts \<noteq> None" "all_persistent s0"
    "proc_inv b s0" "po_maxManaged opts \<le> b"
  shows "all_persistent s \<and> signals s = signals s0"
  using assms(1)
proof induction
  case prc_init
  then show ?case using assms(3) by simp
next
  case (prc_step s t)
  have inv: "proc_inv b s" by (rule reachable_invs(1) [OF prc_step.hyps(1) assms(4,5)])
  then have d: "distinct (ids s)" by (simp add: proc_inv_def)
  have "all_persistent t"
    using proc_step_cases [OF prc_step.hyps(2) d] prc_step.IH
      all_persistent_start [OF _ _ assms(2) inv assms(5)] all_persistent_cong by blast
  then show ?case using signals_step [OF prc_step.hyps(2) _ d] prc_step.IH by simp
qed

text \<open>
  C21: A supervisor with a persistence directory never signals a process identifier: whatever
  happens, no \<open>SIGTERM\<close> or \<open>SIGKILL\<close> is sent, so a recycled identifier of a job that outlived a
  daemon cannot be hit. Stopping goes through the control socket only.
\<close>

theorem persistent_jobs_never_signalled:
  assumes "proc_reachable opts (proc_sup_new opts env x files) s" "po_persistence opts \<noteq> None"
  shows "ESignal target signal \<notin> set (ps_log s)"
proof -
  let ?s0 = "proc_sup_new opts env x files"
  let ?i = "\<lparr>ps_records = [], ps_detached = [], ps_inFlight = [], ps_pending = [],
    ps_pendingStarts = 0, ps_closed = False, ps_disk = files, ps_log = [], ps_promises = 0\<rparr>"
  have "all_persistent ?s0 \<and> signals ?s0 = []"
    using fold_restore [of ?i opts env x files] assms(2)
    by (auto simp: proc_sup_new_def Let_def all_persistent_def skel_set_def rec_skel_def signals_def)
  with persistent_reachable [OF assms _ proc_sup_new_inv] have "signals s = []" by simp
  then show ?thesis by (auto simp: signals_def filter_empty_conv)
qed

section \<open>A job survives a restart\<close>

lemma persisted_fields [simp]:
  "jget (persisted r f) ''version'' = JNum 2"
  "jget (persisted r f) ''processId'' = JString (m_processId r)"
  "jget (persisted r f) ''command'' = JString (m_command r)"
  "jget (persisted r f) ''argCount'' = JNum (m_argCount r)"
  "jget (persisted r f) ''argsDigest'' = JString (m_argsDigest r)"
  "jget (persisted r f) ''cwd'' = JString (m_cwd r)"
  "jget (persisted r f) ''state'' = JString (state_name (m_state r))"
  "jget (persisted r f) ''startedAt'' = JString (m_startedAt r)"
  "jget (persisted r f) ''startedAtMs'' = JNum (m_startedAtMs r)"
  "jget (persisted r f) ''pid'' = JNum (m_pid r)"
  "jget (persisted r f) ''exitedAt'' = m_exitedAt r"
  "jget (persisted r f) ''exitCode'' = m_exitCode r"
  "jget (persisted r f) ''signal'' = m_signal r"
  "jget (persisted r f) ''idempotencyKey''
    = (case m_idempotencyKey r of None \<Rightarrow> JUndefined | Some k \<Rightarrow> JString k)"
  "jget (persisted r f) ''stdoutPath'' = JString (pf_stdout f)"
  "jget (persisted r f) ''stderrPath'' = JString (pf_stderr f)"
  "jget (persisted r f) ''resultPath'' = JString (pf_result f)"
  "jget (persisted r f) ''manifestPath'' = JString (pf_manifest f)"
  "jget (persisted r f) ''controlPath'' = JString (pf_control f)"
  "jget (persisted r f) ''controlToken'' = JString (pf_token f)"
  "jget (persisted r f) ''cursorPath'' = JString (pf_cursor f)"
  "jget (persisted r f) ''fingerprint'' = m_fingerprint r"
  unfolding persisted_def by (subst jget_jobject; simp)+

lemma state_of_name_name [simp]: "state_of_name (JString (state_name st)) = Some st"
  by (cases st) (simp_all add: state_of_name_def)

lemma restorable_persisted: "restorable (persisted r f)"
  by (simp add: restorable_def)

lemma recovered_persisted:
  assumes "\<not> pe_exists env (pf_result f)"
  shows "recovered env (persisted r f) =
    (let alive = (m_state r = Running \<and> pe_alive env (m_pid r) \<and> m_fingerprint r \<noteq> JUndefined
           \<and> sameProcessFingerprint env (m_pid r) (m_fingerprint r));
         state = (if alive then Running else if m_state r = Running then Unknown else m_state r)
     in (restored_record state (persisted r f), state \<noteq> m_state r))"
  using assms by (auto simp: recovered_def Let_def restored_record_def)

text \<open>
  C22: A job that is still running is found again after a restart of the daemon exactly as it was:
  the file \<open>persistRecord\<close> wrote is accepted, and, as long as its process is alive with the
  same start-time fingerprint and has published no result, the recovered record has the same
  summary, process identifier, paths, argument digest and idempotency key, and is not written
  back.
\<close>

theorem running_job_recovered:
  assumes "m_state r = Running" "\<not> pe_exists env (pf_result f)" "pe_alive env (m_pid r)"
    "m_fingerprint r = processFingerprint env (m_pid r)" "m_fingerprint r \<noteq> JUndefined"
  shows "restorable (persisted r f)
    \<and> (\<exists>r'. recovered env (persisted r f) = (r', False) \<and> summary r' = summary r
        \<and> m_pid r' = m_pid r \<and> m_files r' = Some f \<and> m_argsDigest r' = m_argsDigest r
        \<and> m_idempotencyKey r' = m_idempotencyKey r \<and> \<not> m_terminationRequested r')"
proof -
  have same: "sameProcessFingerprint env (m_pid r) (m_fingerprint r)"
    using assms(4,5) by (simp add: sameProcessFingerprint_def Let_def)
  have "recovered env (persisted r f) = (restored_record Running (persisted r f), False)"
    using recovered_persisted [OF assms(2), of r] assms(1,3,5) same by simp
  then show ?thesis using assms(1)
    by (simp add: restorable_persisted restored_record_def restored_files_def summary_def
        split: option.split)
qed

definition demo_env :: proc_env where
  "demo_env = \<lparr>pe_alive = (\<lambda>p. p = 7), pe_fingerprint = (\<lambda>p. if p = 7 then Some ''t'' else None),
     pe_exists = (\<lambda>p. p = ''d''), pe_json = (\<lambda>p. None), pe_write_ok = True,
     pe_unlink_ok = (\<lambda>p. True), pe_now = 5, pe_iso = (\<lambda>n. ''now'')\<rparr>"

definition demo_popts :: proc_options where
  "demo_popts = \<lparr>po_maxManaged = 1, po_maxLogBytes = 64, po_win32 = False,
     po_persistence = Some ''d'', po_digest = (\<lambda>a. ''digest'')\<rparr>"

definition demo_input :: start_input where
  "demo_input = \<lparr>si_command = ''npm'', si_args = [[116]], si_cwd = ''w'', si_key = Some ''k''\<rparr>"

abbreviation demo_record :: managed where
  "demo_record \<equiv> created_record demo_popts demo_env demo_input ''a'' 7 ''s'' ''t''"

theorem running_job_recovered_witness:
  "\<exists>r'. recovered demo_env (persisted demo_record (files_of ''d'' ''a'' ''s'' ''t'')) = (r', False)
     \<and> summary r' = summary demo_record"
  using running_job_recovered [of demo_record demo_env "files_of ''d'' ''a'' ''s'' ''t''"]
  by (fastforce simp: created_record_def demo_env_def processFingerprint_def files_of_def)

text \<open>
  C35: A restart forgets that a job was cancelled. A job reported as \<open>cancelled\<close> whose wrapper
  published the result of the \<open>SIGTERM\<close> (started, no exit code) is recovered with
  \<open>terminationRequested\<close> false, so the same result now means \<open>exited\<close> and the job is reported
  as \<open>failed\<close>.
\<close>

theorem restart_turns_cancelled_into_failed:
  assumes "m_state r = Stopped" "pe_exists env (pf_result f)"
    "pe_json env (pf_result f) = Some (jobject [(''version'', JNum 1), (''started'', JBool True),
       (''finishedAt'', JString t), (''exitCode'', JNull), (''signal'', JString ''SIGTERM'')])"
  shows "su_status (summary r) = JCancelled
    \<and> su_status (summary (fst (recovered env (persisted r f)))) = JFailed"
proof
  show "su_status (summary r) = JCancelled" using assms(1) by (simp add: summary_def jobStatus_def)
  have "pe_exists env (jstring (jget (persisted r f) ''resultPath''))" using assms(2) by simp
  then have "fst (recovered env (persisted r f))
      = fst (applyIndependentResult env (restored_record Unknown (persisted r f)))"
    by (simp add: recovered_def Let_def)
  moreover have "m_files (restored_record Unknown (persisted r f)) = Some (restored_files (persisted r f))"
    "\<not> m_terminationRequested (restored_record Unknown (persisted r f))"
    "pf_result (restored_files (persisted r f)) = pf_result f"
    by (simp_all add: restored_record_def restored_files_def)
  ultimately show "su_status (summary (fst (recovered env (persisted r f)))) = JFailed"
    by (simp add: applyIndependentResult_def assms(3) jget_jobject Let_def summary_def jobStatus_def)
qed

theorem restart_turns_cancelled_into_failed_witness:
  "su_status (summary (fst (recovered
     (demo_env\<lparr>pe_exists := (\<lambda>p. True),
        pe_json := (\<lambda>p. Some (jobject [(''version'', JNum 1), (''started'', JBool True),
          (''finishedAt'', JString ''x''), (''exitCode'', JNull), (''signal'', JString ''SIGTERM'')]))\<rparr>)
     (persisted (demo_record\<lparr>m_state := Stopped\<rparr>) (files_of ''d'' ''a'' ''s'' ''t''))))) = JFailed"
  by (rule restart_turns_cancelled_into_failed [THEN conjunct2]) (rule refl | simp)+

section \<open>A key that a restart duplicates\<close>

definition named_disk :: "(string \<times> jval option) list \<Rightarrow> bool" where
  "named_disk files \<longleftrightarrow> distinct (map fst files)
     \<and> (\<forall>e \<in> set files. \<forall>v. snd e = Some v \<longrightarrow> restorable v \<longrightarrow> fst e = jstring (jget v ''processId'') @ ''.json'')"

lemma closed_record_files: "m_files (closed_record env c g r) = m_files r"
  by (simp add: closed_record_def applyIndependentResult_def Let_def split: option.split)

lemma put_key_mem: "r \<in> set (put_key key r rs)"
  by (induction rs) auto

lemma put_key_other: "x \<in> set rs \<Longrightarrow> key x \<noteq> key r \<Longrightarrow> x \<in> set (put_key key r rs)"
  by (induction rs) auto

lemma recovered_id: "m_processId (fst (recovered env v)) = jstring (jget v ''processId'')"
  by (simp add: recovered_def Let_def restored_record_def)

lemma fold_restore_keeps:
  assumes "find_key m_processId i (ps_records s) = Some r"
    "\<forall>e \<in> set files. \<forall>v. snd e = Some v \<longrightarrow> restorable v \<longrightarrow> jstring (jget v ''processId'') \<noteq> i"
  shows "find_key m_processId i (ps_records (fold (restore_one opts env x) files s)) = Some r"
  using assms
proof (induction files arbitrary: s)
  case (Cons e files)
  have "find_key m_processId i (ps_records (restore_one opts env x e s)) = Some r"
    using Cons.prems
    by (cases e) (auto simp: restore_one_file_record file_record_def find_key_put recovered_id split: option.splits)
  with Cons show ?case by simp
qed simp

lemma fold_restore_finds:
  assumes "named_disk files" "(i @ ''.json'', Some v) \<in> set files" "restorable v"
  shows "find_key m_processId i (ps_records (fold (restore_one opts env x) files s)) = Some (fst (recovered env v))"
proof -
  from assms(2) obtain before after where f: "files = before @ (i @ ''.json'', Some v) # after"
    by (meson split_list)
  from assms have i: "jstring (jget v ''processId'') = i" by (fastforce simp: named_disk_def)
  let ?s = "fold (restore_one opts env x) before s"
  have "file_record env (i @ ''.json'', Some v) = Some (fst (recovered env v))"
    using assms(3) by (simp add: file_record_def ends_with_def suffix_def)
  then have "find_key m_processId i (ps_records (restore_one opts env x (i @ ''.json'', Some v) ?s))
      = Some (fst (recovered env v))"
    by (simp add: restore_one_file_record find_key_put recovered_id i)
  moreover have "\<forall>e \<in> set after. \<forall>u. snd e = Some u \<longrightarrow> restorable u \<longrightarrow> jstring (jget u ''processId'') \<noteq> i"
  proof (intro ballI allI impI notI)
    fix e u assume e: "e \<in> set after" "snd e = Some u" "restorable u" "jstring (jget u ''processId'') = i"
    with assms(1) f have "fst e = i @ ''.json''" by (auto simp: named_disk_def)
    then have "i @ ''.json'' \<in> fst ` set after" using e(1) by force
    with assms(1) f show False by (simp add: named_disk_def)
  qed
  ultimately show ?thesis using fold_restore_keeps f by simp
qed

lemma named_disk_recovered:
  assumes "po_persistence opts = Some dir" "named_disk files" "(i @ ''.json'', Some v) \<in> set files" "restorable v"
  shows "\<exists>p \<in> set (ps_records (proc_sup_new opts env x files)). m_processId p = i
    \<and> m_idempotencyKey p = m_idempotencyKey (fst (recovered env v))"
proof -
  from fold_restore_finds [OF assms(2-4), of opts env x] assms(1)
  have "find_key m_processId i (ps_records (proc_sup_new opts env x files)) = Some (fst (recovered env v))"
    by (simp add: proc_sup_new_def Let_def)
  from find_key_SomeD [OF this] show ?thesis by blast
qed

definition demo_evicted :: proc_sup where
  "demo_evicted = \<lparr>ps_records = [demo_record\<lparr>m_processId := ''b''\<rparr>], ps_detached = [demo_record],
     ps_inFlight = [], ps_pending = [], ps_pendingStarts = 0, ps_closed = False,
     ps_disk = [(''b.json'', Some (persisted (demo_record\<lparr>m_processId := ''b''\<rparr>) (files_of ''d'' ''b'' ''s'' ''t'')))],
     ps_log = [], ps_promises = 0\<rparr>"

text \<open>
  A restart can find two processes with one idempotency key. The \<open>close\<close> event of a persistent
  process that was evicted from the registry (its result had been seen, its files were removed)
  writes the record file again. When a later process with the same key has its own record file,
  the supervisor that is started on the directory recovers both: two records with the same key
  and different identifiers. The record files are assumed to be named after their processes, as
  \<open>persistRecord\<close> names them, with different names.
\<close>

theorem late_close_duplicates_key:
  assumes "get_proc i s = None" "find_key m_processId i (ps_detached s) = Some r"
    "m_persistent r" "m_files r = Some f" "\<not> resultThrows env r"
    "\<not> ps_closed s" "po_persistence opts = Some dir" "pe_exists env dir" "pe_write_ok env"
    and later: "(i2 @ ''.json'', Some (persisted r2 f2)) \<in> set (ps_disk s)" "m_processId r2 = i2" "i2 \<noteq> i"
    and key: "m_idempotencyKey r = Some k" "m_idempotencyKey r2 = Some k"
    and disk: "distinct (map fst (ps_disk s))"
      "\<forall>(name, content) \<in> set (ps_disk s). \<forall>v. content = Some v \<longrightarrow> restorable v \<longrightarrow>
          name = jstring (jget v ''processId'') @ ''.json''"
  shows "\<exists>p \<in> set (ps_records (proc_sup_new opts env' x (ps_disk (proc_closed opts env i c g s)))).
     \<exists>q \<in> set (ps_records (proc_sup_new opts env' x (ps_disk (proc_closed opts env i c g s)))).
       m_processId p = i \<and> m_processId q = i2 \<and> m_idempotencyKey p = Some k \<and> m_idempotencyKey q = Some k"
proof -
  let ?r = "closed_record env c g r" and ?d = "ps_disk (proc_closed opts env i c g s)"
  have r: "m_processId ?r = i" "m_idempotencyKey ?r = Some k" "m_persistent ?r" "m_files ?r = Some f"
    using closed_record_skel [of env c g r] find_key_SomeD [OF assms(2)] key(1) assms(3,4)
    by (simp_all add: rec_skel_def closed_record_files)
  have d: "?d = put_key fst (i @ ''.json'', Some (persisted ?r f)) (ps_disk s)"
    using assms(1-9) r by (simp add: proc_closed_def persistRecord_def Let_def)
  have ok: "named_disk ?d" unfolding d named_disk_def
  proof
    show "distinct (map fst (put_key fst (i @ ''.json'', Some (persisted ?r f)) (ps_disk s)))"
      using disk(1) by (rule distinct_put_key)
    show "\<forall>e \<in> set (put_key fst (i @ ''.json'', Some (persisted ?r f)) (ps_disk s)). \<forall>v. snd e = Some v \<longrightarrow>
        restorable v \<longrightarrow> fst e = jstring (jget v ''processId'') @ ''.json''"
      using disk(2) set_put_key_sub [of fst "(i @ ''.json'', Some (persisted ?r f))" "ps_disk s"] r(1) by fastforce
  qed
  have "(i @ ''.json'', Some (persisted ?r f)) \<in> set ?d" unfolding d by (rule put_key_mem)
  moreover have "(i2 @ ''.json'', Some (persisted r2 f2)) \<in> set ?d"
    unfolding d by (rule put_key_other) (use later in auto)
  ultimately obtain p q where
    "p \<in> set (ps_records (proc_sup_new opts env' x ?d))" "m_processId p = i"
    "m_idempotencyKey p = m_idempotencyKey (fst (recovered env' (persisted ?r f)))"
    "q \<in> set (ps_records (proc_sup_new opts env' x ?d))" "m_processId q = i2"
    "m_idempotencyKey q = m_idempotencyKey (fst (recovered env' (persisted r2 f2)))"
    using named_disk_recovered [OF assms(7) ok] restorable_persisted by metis
  then show ?thesis using r(2) key(2) by (intro bexI [of _ p] bexI [of _ q]) (simp_all add: recovered_key)
qed

theorem late_close_duplicates_key_witness:
  "\<exists>p \<in> set (ps_records (proc_sup_new demo_popts demo_env ''0'' (ps_disk (proc_closed demo_popts demo_env ''a''
        JNull JNull demo_evicted)))).
     \<exists>q \<in> set (ps_records (proc_sup_new demo_popts demo_env ''0'' (ps_disk (proc_closed demo_popts demo_env ''a''
        JNull JNull demo_evicted)))).
       m_processId p = ''a'' \<and> m_processId q = ''b'' \<and> m_idempotencyKey p = Some ''k'' \<and> m_idempotencyKey q = Some ''k''"
proof (rule late_close_duplicates_key)
  show "(''b'' @ ''.json'', Some (persisted (demo_record\<lparr>m_processId := ''b''\<rparr>) (files_of ''d'' ''b'' ''s'' ''t'')))
      \<in> set (ps_disk demo_evicted)" by (simp add: demo_evicted_def)
  show "\<forall>(name, content) \<in> set (ps_disk demo_evicted). \<forall>v. content = Some v \<longrightarrow> restorable v \<longrightarrow>
      name = jstring (jget v ''processId'') @ ''.json''" by (simp add: demo_evicted_def)
  show "find_key m_processId ''a'' (ps_detached demo_evicted) = Some demo_record"
    by (simp add: demo_evicted_def find_key_def created_record_def)
qed (simp_all add: demo_evicted_def demo_popts_def demo_env_def created_record_def demo_input_def resultThrows_def find_key_def)

section \<open>Signals\<close>

text \<open>
  \<open>sendSignal\<close> returns exactly when the group took the signal or was gone, or, after an
  \<open>EPERM\<close> off Windows, when the process itself took it. In particular it throws when the group
  answers \<open>EPERM\<close> and the process is already gone, although the inner handler lets that
  \<open>ESRCH\<close> pass. It never signals anything but the process and its group, the group first.
\<close>

theorem sendSignal_outcome:
  "(snd (sendSignal opts answer pid g) = Inr ()
      \<longleftrightarrow> (let target = (if po_win32 opts then pid else - pid)
           in answer target \<in> {SigOk, SigESRCH}
              \<or> (answer target = SigEPERM \<and> target \<noteq> pid \<and> answer pid = SigOk)))
    \<and> fst (sendSignal opts answer pid g)
        \<in> {[ESignal (if po_win32 opts then pid else - pid) g],
           [ESignal (- pid) g, ESignal pid g]}"
  by (cases "po_win32 opts"; cases "answer (- pid)"; cases "answer pid")
    (simp_all add: sendSignal_def Let_def)

section \<open>Concrete histories\<close>

definition demo_p1 :: proc_sup where
  "demo_p1 = fst (start_process demo_popts demo_env demo_input (proc_sup_new demo_popts demo_env ''0'' []))"

definition demo_p2 :: proc_sup where
  "demo_p2 = fst (start_spawned demo_popts demo_env \<lparr>pn_promise = 0, pn_input = demo_input\<rparr> ''a'' (Some 7)
     ''s'' ''t'' demo_p1)"

lemma demo_new: "proc_sup_new demo_popts demo_env ''0'' [] =
  \<lparr>ps_records = [], ps_detached = [], ps_inFlight = [], ps_pending = [], ps_pendingStarts = 0,
    ps_closed = False, ps_disk = [], ps_log = [], ps_promises = 0\<rparr>"
  by (simp add: proc_sup_new_def Let_def)

lemma demo_p1_eq: "demo_p1 =
  \<lparr>ps_records = [], ps_detached = [],
    ps_inFlight = [\<lparr>if_key = ''k'', if_promise = 0, if_command = ''npm'', if_cwd = ''w'',
      if_digest = ''digest''\<rparr>],
    ps_pending = [\<lparr>pn_promise = 0, pn_input = demo_input\<rparr>], ps_pendingStarts = 1,
    ps_closed = False, ps_disk = [], ps_log = [], ps_promises = 1\<rparr>"
  unfolding demo_p1_def demo_new
  by (simp add: start_process_def startInternal_def proc_reserveCapacity_def Let_def demo_input_def
      truthy_key_def demo_popts_def find_key_def evict_until.simps)

lemma demo_p2_records: "ps_records demo_p2 = [demo_record]"
  by (simp add: demo_p2_def demo_p1_eq start_spawned_def Let_def take_pending_def recordAudit_def)

lemma demo_p2_reachable: "proc_reachable demo_popts (proc_sup_new demo_popts demo_env ''0'' []) demo_p2"
proof -
  have "proc_reachable demo_popts (proc_sup_new demo_popts demo_env ''0'' []) demo_p1"
    unfolding demo_p1_def by (rule prc_step [OF prc_init pst_start])
  then show ?thesis
    unfolding demo_p2_def by (rule prc_step) (rule pst_spawned, simp add: demo_p1_eq)
qed

theorem process_registry_invariant_witness:
  "length (ps_records demo_p2) = 1 \<and> ps_pendingStarts demo_p2 = int (length (ps_pending demo_p2))"
  using process_registry_invariant [OF demo_p2_reachable] demo_p2_records by simp

theorem idempotency_key_unique_witness:
  "list_all (\<lambda>r'. m_idempotencyKey r' = Some ''k'' \<longrightarrow> m_processId r' = ''a'') (ps_records demo_p2)"
proof -
  have r: "demo_record \<in> set (ps_records demo_p2)" by (simp add: demo_p2_records)
  have k: "m_idempotencyKey demo_record = Some ''k''" "m_processId demo_record = ''a''"
    by (simp_all add: created_record_def demo_input_def)
  have "distinct (List.map_filter file_key [])" by (simp add: List.map_filter_simps)
  from idempotency_key_unique [OF demo_p2_reachable this r] k show ?thesis
    by (simp add: truthy_key_def list_all_iff)
qed

theorem persistent_jobs_never_signalled_witness: "ESignal (-7) SIGKILL \<notin> set (ps_log demo_p2)"
  by (rule persistent_jobs_never_signalled [OF demo_p2_reachable]) (simp add: demo_popts_def)

end
