(* ===== verification/Process_Wrapper.thy ===== *)
theory Process_Wrapper
  imports Process_Supervisor
begin

text \<open>
  \<open>src/src/process/process-wrapper.ts\<close>: the independent process that owns a persistent job, and
  what the supervisor reads of it. The wrapper loads its manifest, appends every chunk of output
  to a bounded log file, publishes the number of bytes ever written beside it, answers stop
  requests that carry its token, and publishes one result. Proved here: the log file and the
  published offset are the in-memory tail of the same stream, so reading a persistent log and
  reading a memory buffer agree except for the \<open>truncated\<close> flag; a result the wrapper publishes
  is authoritative for the supervisor.
\<close>

section \<open>Loading the manifest\<close>

record manifest =
  mf_command :: string
  mf_args :: "string list"
  mf_cwd :: path
  mf_stdoutPath :: path
  mf_stderrPath :: path
  mf_resultPath :: path
  mf_controlPath :: path
  mf_controlToken :: string
  mf_cursorPath :: path
  mf_maxLogBytes :: nat

fun jarray :: "jval \<Rightarrow> jval list option" where
  "jarray (JArr vs) = Some vs"
| "jarray v = None"

definition loadManifest :: "jval \<Rightarrow> manifest option" where
  "loadManifest v =
     (case jarray (jget v ''args'') of
        None \<Rightarrow> None
      | Some args \<Rightarrow>
          if jget v ''version'' \<noteq> JNum 1 \<or> \<not> is_JString (jget v ''command'')
            \<or> \<not> is_JString (jget v ''cwd'') \<or> \<not> is_JString (jget v ''stdoutPath'')
            \<or> \<not> is_JString (jget v ''stderrPath'') \<or> \<not> is_JString (jget v ''resultPath'')
            \<or> \<not> is_JString (jget v ''controlPath'') \<or> \<not> is_JString (jget v ''controlToken'')
            \<or> \<not> is_JString (jget v ''cursorPath'') \<or> \<not> is_JNum (jget v ''maxLogBytes'')
            \<or> \<not> safe_integer (jget v ''maxLogBytes'') \<or> jnum (jget v ''maxLogBytes'') < 1
          then None
          else Some
            \<lparr>mf_command = jstring (jget v ''command''),
             mf_args = map jstring (filter is_JString args),
             mf_cwd = jstring (jget v ''cwd''),
             mf_stdoutPath = jstring (jget v ''stdoutPath''),
             mf_stderrPath = jstring (jget v ''stderrPath''),
             mf_resultPath = jstring (jget v ''resultPath''),
             mf_controlPath = jstring (jget v ''controlPath''),
             mf_controlToken = jstring (jget v ''controlToken''),
             mf_cursorPath = jstring (jget v ''cursorPath''),
             mf_maxLogBytes = nat (jnum (jget v ''maxLogBytes''))\<rparr>)"

text \<open>The manifest object that the supervisor's \<open>startInternal\<close> writes.\<close>

definition manifest_json :: "path \<Rightarrow> string list \<Rightarrow> path \<Rightarrow> proc_files \<Rightarrow> nat \<Rightarrow> jval" where
  "manifest_json executablePath args cwd f maxLogBytes = jobject
     [(''version'', JNum 1), (''command'', JString executablePath),
      (''args'', JArr (map JString args)), (''cwd'', JString cwd),
      (''stdoutPath'', JString (pf_stdout f)), (''stderrPath'', JString (pf_stderr f)),
      (''resultPath'', JString (pf_result f)), (''controlPath'', JString (pf_control f)),
      (''controlToken'', JString (pf_token f)), (''cursorPath'', JString (pf_cursor f)),
      (''maxLogBytes'', JNum (int maxLogBytes))]"

section \<open>The bounded log and its offset\<close>

definition appendBounded :: "nat \<Rightarrow> byte list \<Rightarrow> byte list \<Rightarrow> byte list" where
  "appendBounded maxBytes chunk file =
     (let content = file @ chunk
      in if length content \<le> maxBytes then content
         else drop (length content - maxBytes) content)"

record wrapper_log =
  wl_file :: "byte list"
  wl_offset :: nat

definition wrapper_log_new :: wrapper_log where
  "wrapper_log_new = \<lparr>wl_file = [], wl_offset = 0\<rparr>"

text \<open>A \<open>data\<close> event of one of the two streams.\<close>

definition wrapper_data :: "nat \<Rightarrow> byte list \<Rightarrow> wrapper_log \<Rightarrow> wrapper_log" where
  "wrapper_data maxLogBytes value w =
     \<lparr>wl_file = appendBounded maxLogBytes value (wl_file w), wl_offset = wl_offset w + length value\<rparr>"

section \<open>The result and the control socket\<close>

definition finalize_result :: "string \<Rightarrow> jval \<Rightarrow> jval \<Rightarrow> jval" where
  "finalize_result finishedAt exitCode signal = jobject
     [(''version'', JNum 1), (''started'', JBool True), (''finishedAt'', JString finishedAt),
      (''exitCode'', exitCode), (''signal'', signal)]"

definition start_failed_result :: "string \<Rightarrow> string \<Rightarrow> jval \<Rightarrow> jval" where
  "start_failed_result finishedAt errorCode message = jobject
     [(''version'', JNum 1), (''started'', JBool False), (''finishedAt'', JString finishedAt),
      (''errorCode'', JString errorCode), (''message'', message)]"

datatype child_end = ChildError | ChildClosed "int option" "string option"

text \<open>
  The result file after the events of the child, in their order: the first one is final. The
  child's \<open>error\<close> event (it could not be spawned, or not be killed) is published as a started
  process without exit code.
\<close>

fun finalize_event :: "string \<Rightarrow> child_end \<Rightarrow> jval option \<Rightarrow> jval option" where
  "finalize_event now e (Some result) = Some result"
| "finalize_event now ChildError None = Some (finalize_result now JNull JNull)"
| "finalize_event now (ChildClosed exitCode signal) None =
     Some (finalize_result now (case exitCode of None \<Rightarrow> JNull | Some n \<Rightarrow> JNum n)
             (case signal of None \<Rightarrow> JNull | Some g \<Rightarrow> JString g))"

text \<open>
  A request line on the control socket (\<open>None\<close>: it does not parse): whether \<open>SIGTERM\<close> is
  forwarded to the child, and the answer.
\<close>

definition control_request :: "string \<Rightarrow> jval option \<Rightarrow> bool \<times> jval" where
  "control_request controlToken request =
     (case request of
        None \<Rightarrow> (False, JObj [(''ok'', JBool False), (''code'', JString ''PROCESS_CONTROL_INVALID'')])
      | Some v \<Rightarrow>
          if jget v ''token'' \<noteq> JString controlToken \<or> jget v ''operation'' \<noteq> JString ''stop''
          then (False, JObj [(''ok'', JBool False), (''code'', JString ''PROCESS_CONTROL_INVALID'')])
          else (True, JObj [(''ok'', JBool True)]))"

text \<open>The request \<open>requestIndependentStop\<close> sends and how it judges the answer.\<close>

definition stop_request :: "string \<Rightarrow> jval" where
  "stop_request controlToken =
     JObj [(''token'', JString controlToken), (''operation'', JString ''stop'')]"

definition stop_accepted :: "jval option \<Rightarrow> bool" where
  "stop_accepted response =
     (case response of None \<Rightarrow> False | Some v \<Rightarrow> jget v ''ok'' = JBool True)"

section \<open>What the two processes agree on\<close>

text \<open>
  C23: The supervisor and the wrapper agree on their protocol: the wrapper accepts the manifest the
  supervisor writes and gets back every field of it; a stop request with the manifest's token is
  forwarded as \<open>SIGTERM\<close> and acknowledged, and a request with any other token or operation is
  refused and changes nothing.
\<close>

theorem wrapper_protocol:
  assumes "1 \<le> maxLogBytes" "int maxLogBytes \<le> 2 ^ 53 - 1"
  shows "(\<exists>m. loadManifest (manifest_json exe args cwd f maxLogBytes) = Some m
      \<and> mf_command m = exe \<and> mf_args m = args \<and> mf_cwd m = cwd
      \<and> mf_stdoutPath m = pf_stdout f \<and> mf_stderrPath m = pf_stderr f
      \<and> mf_resultPath m = pf_result f \<and> mf_controlPath m = pf_control f
      \<and> mf_controlToken m = pf_token f \<and> mf_cursorPath m = pf_cursor f
      \<and> mf_maxLogBytes m = maxLogBytes
      \<and> fst (control_request (mf_controlToken m) (Some (stop_request (pf_token f))))
      \<and> stop_accepted (Some (snd (control_request (mf_controlToken m)
            (Some (stop_request (pf_token f)))))))
    \<and> (\<forall>request. jget request ''token'' \<noteq> JString (pf_token f)
          \<or> jget request ''operation'' \<noteq> JString ''stop'' \<longrightarrow>
        \<not> fst (control_request (pf_token f) (Some request))
        \<and> \<not> stop_accepted (Some (snd (control_request (pf_token f) (Some request)))))"
proof -
  have strs: "filter is_JString (map JString args) = map JString args"
    by (simp add: filter_map comp_def)
  have unjson: "map jstring (map JString args) = args" by (simp add: comp_def)
  have fields: "jget (manifest_json exe args cwd f maxLogBytes) ''version'' = JNum 1"
    "jget (manifest_json exe args cwd f maxLogBytes) ''command'' = JString exe"
    "jget (manifest_json exe args cwd f maxLogBytes) ''args'' = JArr (map JString args)"
    "jget (manifest_json exe args cwd f maxLogBytes) ''cwd'' = JString cwd"
    "jget (manifest_json exe args cwd f maxLogBytes) ''stdoutPath'' = JString (pf_stdout f)"
    "jget (manifest_json exe args cwd f maxLogBytes) ''stderrPath'' = JString (pf_stderr f)"
    "jget (manifest_json exe args cwd f maxLogBytes) ''resultPath'' = JString (pf_result f)"
    "jget (manifest_json exe args cwd f maxLogBytes) ''controlPath'' = JString (pf_control f)"
    "jget (manifest_json exe args cwd f maxLogBytes) ''controlToken'' = JString (pf_token f)"
    "jget (manifest_json exe args cwd f maxLogBytes) ''cursorPath'' = JString (pf_cursor f)"
    "jget (manifest_json exe args cwd f maxLogBytes) ''maxLogBytes'' = JNum (int maxLogBytes)"
    unfolding manifest_json_def by (subst jget_jobject; simp)+
  have "safe_integer (JNum (int maxLogBytes))" using assms by (simp add: safe_integer_def)
  then show ?thesis
    using assms(1) strs unjson
    by (simp add: loadManifest_def fields control_request_def stop_request_def stop_accepted_def
        del: map_map)
qed

theorem wrapper_protocol_witness:
  "\<exists>m. loadManifest (manifest_json ''/bin/ls'' [''-l''] ''/w'' (files_of ''d'' ''a'' ''s'' ''t'') 4096) = Some m
     \<and> mf_args m = [''-l'']"
  using wrapper_protocol [of 4096 "''/bin/ls''" "[''-l'']" "''/w''" "files_of ''d'' ''a'' ''s'' ''t''"]
  by auto

text \<open>
  C24: Reading the log of a persistent job is reading the in-memory buffer of a plain one: after
  the same chunks of output the file is the buffer's content and the published offset its byte
  count, and for every cursor the two reads return the same text, byte count and next cursor.
  The flag \<open>truncated\<close> is stated exactly for both: without a cursor they agree (it says that
  bytes were dropped at all); with a cursor the file read reports it exactly when bytes between
  the cursor and the file's first byte are gone, the buffer whenever bytes were dropped at all.
\<close>

theorem persistent_log_is_tail_buffer:
  fixes mx :: nat and chunks :: "byte list list"
  defines "w \<equiv> fold (wrapper_data mx) chunks wrapper_log_new"
    and "b \<equiv> fold (tail_append mx) chunks tail_buffer_new"
  shows "wl_file w = tb_value b \<and> wl_offset w = tb_totalBytes b
    \<and> sl_content (readStream (Some (wl_file w)) (wl_offset w) cursor) = sl_content (tail_snapshot b cursor)
    \<and> sl_bytes (readStream (Some (wl_file w)) (wl_offset w) cursor) = sl_bytes (tail_snapshot b cursor)
    \<and> sl_nextCursor (readStream (Some (wl_file w)) (wl_offset w) cursor)
        = sl_nextCursor (tail_snapshot b cursor)
    \<and> (sl_truncated (readStream (Some (wl_file w)) (wl_offset w) (Some c))
        \<longleftrightarrow> c < length (concat chunks) - mx)
    \<and> (sl_truncated (readStream (Some (wl_file w)) (wl_offset w) None) \<longleftrightarrow> mx < length (concat chunks))
    \<and> (sl_truncated (tail_snapshot b cursor) \<longleftrightarrow> mx < length (concat chunks))"
proof -
  have sim: "wl_file (fold (wrapper_data mx) cs w0) = tb_value (fold (tail_append mx) cs b0)
      \<and> wl_offset (fold (wrapper_data mx) cs w0) = tb_totalBytes (fold (tail_append mx) cs b0)"
    if "wl_file w0 = tb_value b0" "wl_offset w0 = tb_totalBytes b0" "length (tb_value b0) \<le> mx"
    for cs w0 b0
    using that
  proof (induction cs arbitrary: w0 b0)
    case (Cons c cs)
    show ?case
      using Cons.prems Cons.IH [of "wrapper_data mx c w0" "tail_append mx c b0"]
      by (auto simp: wrapper_data_def appendBounded_def tail_append_def Let_def)
  qed simp
  have same: "wl_file w = tb_value b" "wl_offset w = tb_totalBytes b"
    unfolding w_def b_def
    using sim [of wrapper_log_new tail_buffer_new chunks] ptail.fresh_retained ptail.fresh_seen
    by (simp_all add: wrapper_log_new_def)
  have tail: "tb_value b = last_n mx (concat chunks)" "tb_totalBytes b = length (concat chunks)"
    unfolding b_def using ptail.stream [of mx chunks] by simp_all
  let ?first = "tb_totalBytes b - length (tb_value b)"
  have le: "length (tb_value b) \<le> tb_totalBytes b" using tail by simp
  have drop: "drop (min (max x ?first) (tb_totalBytes b) - ?first) (tb_value b)
      = drop (max x ?first - ?first) (tb_value b)" for x
    using le by (cases "max x ?first \<le> tb_totalBytes b") (simp_all add: min_def)
  have "sl_content (readStream (Some (wl_file w)) (wl_offset w) cursor) = sl_content (tail_snapshot b cursor)
    \<and> sl_bytes (readStream (Some (wl_file w)) (wl_offset w) cursor) = sl_bytes (tail_snapshot b cursor)
    \<and> sl_nextCursor (readStream (Some (wl_file w)) (wl_offset w) cursor)
        = sl_nextCursor (tail_snapshot b cursor)"
  proof (cases cursor)
    case None
    have "min ?first (tb_totalBytes b) - ?first = 0" by simp
    with None show ?thesis
      by (simp add: readStream_def tail_snapshot_def same Let_def split: prod.split)
  next
    case (Some x)
    show ?thesis
      unfolding Some readStream_def tail_snapshot_def same Let_def
      by (simp add: drop split: prod.split)
  qed
  moreover have "sl_truncated (readStream (Some (wl_file w)) (wl_offset w) (Some c))
      \<longleftrightarrow> c < length (concat chunks) - mx"
    using tail by (auto simp: readStream_def same Let_def min_def split: prod.split)
  moreover have "sl_truncated (readStream (Some (wl_file w)) (wl_offset w) None) \<longleftrightarrow> mx < length (concat chunks)"
    using tail by (auto simp: readStream_def same Let_def min_def split: prod.split)
  moreover have "tb_wasTruncated b \<longleftrightarrow> mx < length (concat chunks)"
    unfolding b_def using ptail.stream [of mx chunks] by simp
  then have "sl_truncated (tail_snapshot b cursor) \<longleftrightarrow> mx < length (concat chunks)"
    using tail by (cases cursor) (auto simp: tail_snapshot_def Let_def split: prod.split)
  ultimately show ?thesis using same by blast
qed

text \<open>
  The wrapper's result is authoritative, however late it is seen: a status query on a job that
  is running, stopping or unknown, whose wrapper has published the end of its child, reports the
  exit code, signal and time of that result; without a stop request (or without a signal) the
  job is completed when the exit code is 0 and failed otherwise, and a signal after a stop
  request means cancelled. Whether the process identifier looks alive plays no part.
\<close>

theorem independent_result_authoritative:
  assumes "get_proc i s = Some r" "m_files r = Some f"
    "m_state r \<in> {Running, Stopping, Unknown}"
    "pe_json env (pf_result f) = finalize_event t (ChildClosed code sig) None"
  shows "\<exists>sm. snd (proc_status opts env i s) = Some sm \<and> su_processId sm = i
    \<and> su_exitedAt sm = JString t
    \<and> su_exitCode sm = (case code of None \<Rightarrow> JNull | Some n \<Rightarrow> JNum n)
    \<and> su_signal sm = (case sig of None \<Rightarrow> JNull | Some g \<Rightarrow> JString g)
    \<and> su_status sm = (if m_terminationRequested r \<and> sig \<noteq> None then JCancelled
        else if code = Some 0 then JCompleted else JFailed)"
proof -
  let ?code = "case code of None \<Rightarrow> JNull | Some n \<Rightarrow> JNum n"
  let ?sig = "case sig of None \<Rightarrow> JNull | Some g \<Rightarrow> JString g"
  let ?r = "r\<lparr>m_exitedAt := JString t,
    m_state := (if m_terminationRequested r \<and> sig \<noteq> None then Stopped else Exited),
    m_exitCode := ?code, m_signal := ?sig\<rparr>"
  have "pe_json env (pf_result f) = Some (finalize_result t ?code ?sig)" using assms(4) by simp
  then have apply': "applyIndependentResult env r = (?r, True)"
    using assms(2)
    by (cases code; cases sig)
      (simp_all add: applyIndependentResult_def finalize_result_def jget_jobject Let_def)
  have "\<not> resultThrows env r"
    using assms(2,4) by (simp add: resultThrows_def finalize_result_def jobject_def)
  then have "fst (refreshed env r) = ?r" using assms(3) by (auto simp: refreshed_def Let_def apply')
  moreover have i: "m_processId r = i" using find_key_SomeD [OF assms(1)] by simp
  ultimately have "get_proc i (refreshRecovered opts env i s) = Some ?r"
    using assms(1)
    by (cases "refreshed env r") (simp add: refreshRecovered_def put_proc_def find_key_replace)
  then have "snd (proc_status opts env i s) = Some (summary ?r)"
    by (simp add: proc_status_def Let_def)
  then show ?thesis using i
    by (cases code; cases sig) (simp_all add: summary_def jobStatus_def)
qed

definition finished_env :: proc_env where
  "finished_env = demo_env\<lparr>pe_alive := (\<lambda>p. False),
     pe_json := (\<lambda>p. finalize_event ''end'' (ChildClosed (Some 0) None) None)\<rparr>"

theorem independent_result_authoritative_witness:
  "\<exists>sm. snd (proc_status demo_popts finished_env ''a'' demo_p2) = Some sm
    \<and> su_status sm = JCompleted"
proof -
  have "get_proc ''a'' demo_p2 = Some demo_record"
    by (simp add: demo_p2_records find_key_def created_record_def)
  moreover have "m_files demo_record = Some (files_of ''d'' ''a'' ''s'' ''t'')"
    by (simp add: created_record_def demo_popts_def)
  moreover have "m_state demo_record = Running" by (simp add: created_record_def)
  ultimately show ?thesis
    using independent_result_authoritative [of "''a''" demo_p2 demo_record
        "files_of ''d'' ''a'' ''s'' ''t''" finished_env "''end''" "Some 0" None demo_popts]
    by (auto simp: demo_p2_records finished_env_def)
qed

end
