(* ===== verification/Terminal_Output.thy ===== *)
theory Terminal_Output
  imports Utf8_Boundary
begin

text \<open>
  \<open>src/src/terminal/terminal-output-buffer.ts\<close>: the bounded, sequence-numbered output of one
  terminal session. The abstract specification is the list of all chunks ever appended; the
  buffer is shown to answer every read as that list would, and to admit a loss (by
  \<open>truncatedBefore\<close>) exactly when it cannot.
\<close>

datatype range_error = RangeError

record output_chunk =
  oc_sequence :: nat
  oc_data :: ustring
  oc_bytes :: nat
  oc_prefixTruncated :: bool

record output_buffer =
  ob_maxBytes :: nat
  ob_chunks :: "output_chunk list"
  ob_sequence :: nat
  ob_retainedBytes :: nat

record output_read =
  or_data :: ustring
  or_bytes :: nat
  or_nextSequence :: nat
  or_truncatedBefore :: bool

text \<open>\<open>while (start < encoded.byteLength && (encoded[start] & 0xc0) === 0x80) start += 1\<close>\<close>

function skip_continuation :: "byte list \<Rightarrow> nat \<Rightarrow> nat" where
  "skip_continuation encoded start =
     (if start < length encoded \<and> isContinuation (encoded ! start)
      then skip_continuation encoded (Suc start) else start)"
  by pat_completeness auto
termination
  by (relation "measure (\<lambda>(encoded, start). length encoded - start)") auto

declare skip_continuation.simps [simp del]

definition utf8Tail :: "ustring \<Rightarrow> nat \<Rightarrow> ustring \<times> nat \<times> bool" where
  "utf8Tail value maxBytes =
     (let encoded = utf8_encode value
      in if length encoded \<le> maxBytes then (value, length encoded, False)
         else (let start = skip_continuation encoded (length encoded - maxBytes);
                   tail = drop start encoded
               in (utf8_decode tail, length tail, True)))"

definition new_output_buffer :: "int \<Rightarrow> range_error + output_buffer" where
  "new_output_buffer maxBytes =
     (if maxBytes \<le> 0 then Inl RangeError
      else Inr \<lparr>ob_maxBytes = nat maxBytes, ob_chunks = [], ob_sequence = 0, ob_retainedBytes = 0\<rparr>)"

text \<open>\<open>while (retainedBytes > maxBytes && chunks.length > 1)\<close> drop the oldest chunk.\<close>

fun evict_chunks :: "nat \<Rightarrow> output_chunk list \<Rightarrow> nat \<Rightarrow> output_chunk list \<times> nat" where
  "evict_chunks maxBytes (c # c' # cs) retained =
     (if retained > maxBytes then evict_chunks maxBytes (c' # cs) (retained - oc_bytes c)
      else (c # c' # cs, retained))"
| "evict_chunks maxBytes cs retained = (cs, retained)"

definition ob_append :: "ustring \<Rightarrow> output_buffer \<Rightarrow> output_buffer \<times> nat" where
  "ob_append data b =
     (if data = [] then (b, ob_sequence b)
      else
        (let sequence = Suc (ob_sequence b);
             (tdata, tbytes, ttrunc) = utf8Tail data (ob_maxBytes b);
             chunks = (if ttrunc then [] else ob_chunks b);
             retained = (if ttrunc then 0 else ob_retainedBytes b);
             (chunks', retained') = evict_chunks (ob_maxBytes b)
                (chunks @ [\<lparr>oc_sequence = sequence, oc_data = tdata, oc_bytes = tbytes,
                            oc_prefixTruncated = ttrunc\<rparr>]) (retained + tbytes)
         in (b\<lparr>ob_chunks := chunks', ob_sequence := sequence, ob_retainedBytes := retained'\<rparr>,
             sequence)))"

definition ob_read :: "int \<Rightarrow> output_buffer \<Rightarrow> range_error + output_read" where
  "ob_read after b =
     (if after < 0 then Inl RangeError
      else if after > int (ob_sequence b) then Inl RangeError
      else
        (case filter (\<lambda>c. int (oc_sequence c) > after) (ob_chunks b) of
           [] \<Rightarrow> Inr \<lparr>or_data = [], or_bytes = 0, or_nextSequence = ob_sequence b,
                      or_truncatedBefore = False\<rparr>
         | first # rest \<Rightarrow>
             (let data = concat (map oc_data (first # rest))
              in Inr \<lparr>or_data = data, or_bytes = byteLength data, or_nextSequence = ob_sequence b,
                      or_truncatedBefore =
                        (after < int (oc_sequence first) - 1
                         \<or> (oc_prefixTruncated first \<and> after < int (oc_sequence first)))\<rparr>)))"

section \<open>The UTF-8 tail\<close>

lemma drop_skip_continuation:
  "drop (skip_continuation bs i) bs = dropWhile isContinuation (drop i bs)"
proof (induction bs i rule: skip_continuation.induct)
  case (1 bs i)
  show ?case
  proof (cases "i < length bs")
    case True
    then have "drop i bs = bs ! i # drop (Suc i) bs" by (simp add: Cons_nth_drop_Suc)
    with True 1 show ?thesis by (subst skip_continuation.simps) simp
  next
    case False
    then show ?thesis by (subst skip_continuation.simps) simp
  qed
qed

lemma dropWhile_encode: "dropWhile isContinuation (utf8_encode s) = utf8_encode s"
proof (cases s)
  case (Cons c t)
  have "utf8_block (encode_cp c)" by (rule utf8_block_encode_cp)
  then obtain l cs where "encode_cp c = l # cs" "\<not> isContinuation l" by (rule utf8_blockE)
  then show ?thesis using Cons by simp
qed simp

lemma encode_suffix:
  assumes "pre @ w = utf8_encode s"
  shows "\<exists>s1 s2 q. s = s1 @ s2 \<and> w = q @ utf8_encode s2 \<and> dropWhile isContinuation w = utf8_encode s2
    \<and> length q \<le> 3 \<and> (q = [] \<longrightarrow> pre = utf8_encode s1)"
proof -
  from utf8_encode_prefix [OF assms] obtain s1 s2 p where s: "s = s1 @ s2"
    and pre: "pre = utf8_encode s1 @ p"
    and p: "p = [] \<or> (\<exists>c r s3. s2 = c # s3 \<and> encode_cp c = p @ r \<and> r \<noteq> [])"
    by blast
  show ?thesis
  proof (cases "p = []")
    case True
    with assms s pre have "w = utf8_encode s2" by simp
    then show ?thesis using s pre True
      by (intro exI [of _ s1] exI [of _ s2] exI [of _ "[]"]) (simp add: dropWhile_encode)
  next
    case False
    with p obtain c r s3 where c: "s2 = c # s3" "encode_cp c = p @ r" "r \<noteq> []" by blast
    with assms s pre have w: "w = r @ utf8_encode s3" by simp
    have r: "list_all isContinuation r" "length r \<le> 3" using char_tail [OF c(2) False] by auto
    from r(1) have "dropWhile isContinuation (r @ utf8_encode s3) = utf8_encode s3"
      by (simp add: list_all_iff dropWhile_append2 dropWhile_encode)
    with w s c r(2) show ?thesis
      by (intro exI [of _ "s1 @ [c]"] exI [of _ s3] exI [of _ r]) simp
  qed
qed

lemma utf8Tail_short:
  "byteLength value \<le> mx \<Longrightarrow> utf8Tail value mx = (value, byteLength value, False)"
  by (simp add: utf8Tail_def byteLength_def Let_def)

lemma utf8Tail_long:
  assumes "mx < byteLength value" "wf_str value"
  shows "\<exists>cut kept. value = cut @ kept \<and> cut \<noteq> [] \<and> utf8Tail value mx = (kept, byteLength kept, True)
    \<and> byteLength kept \<le> mx \<and> mx \<le> byteLength kept + 3"
proof -
  let ?e = "utf8_encode value"
  let ?start = "length ?e - mx"
  have "take ?start ?e @ drop ?start ?e = ?e" by simp
  from encode_suffix [OF this] obtain cut kept q where v: "value = cut @ kept"
    and w: "drop ?start ?e = q @ utf8_encode kept"
    and d: "dropWhile isContinuation (drop ?start ?e) = utf8_encode kept" and q: "length q \<le> 3"
    by blast
  have len: "mx = length q + byteLength kept"
    using arg_cong [OF w, of length] assms(1) by (simp add: byteLength_def)
  have "utf8_decode (utf8_encode kept) = kept"
    using assms(2) v by (intro utf8_decode_encode) simp
  then have "utf8Tail value mx = (kept, byteLength kept, True)"
    using assms(1)
    by (simp add: utf8Tail_def Let_def drop_skip_continuation d byteLength_def del: length_drop)
  moreover have "cut \<noteq> []" using assms(1) v len by (auto simp: byteLength_def)
  ultimately show ?thesis using v len q by (intro exI [of _ cut] exI [of _ kept]) simp
qed

section \<open>The buffer against the list of all chunks\<close>

text \<open>
  \<open>ob_rep h b\<close>: the buffer \<open>b\<close> represents the history \<open>h\<close>. Its chunks are the last ones of \<open>h\<close>,
  in order and numbered; only the oldest may have lost a prefix, and says so.
\<close>

definition chunk_of :: "ustring list \<Rightarrow> output_chunk \<Rightarrow> bool" where
  "chunk_of h c \<longleftrightarrow> 0 < oc_sequence c \<and> oc_sequence c \<le> length h
     \<and> oc_bytes c = byteLength (oc_data c)
     \<and> (if oc_prefixTruncated c
        then \<exists>cut. cut \<noteq> [] \<and> h ! (oc_sequence c - 1) = cut @ oc_data c
        else oc_data c = h ! (oc_sequence c - 1))"

definition ob_rep :: "ustring list \<Rightarrow> output_buffer \<Rightarrow> bool" where
  "ob_rep h b \<longleftrightarrow> [] \<notin> set h \<and> ob_sequence b = length h
     \<and> map oc_sequence (ob_chunks b)
        = [Suc (length h) - length (ob_chunks b)..<Suc (length h)]
     \<and> length (ob_chunks b) \<le> length h
     \<and> (h \<noteq> [] \<longrightarrow> ob_chunks b \<noteq> [])
     \<and> (\<forall>c \<in> set (ob_chunks b). chunk_of h c)
     \<and> (\<forall>c \<in> set (tl (ob_chunks b)). \<not> oc_prefixTruncated c)
     \<and> ob_retainedBytes b = sum_list (map oc_bytes (ob_chunks b))
     \<and> ob_retainedBytes b \<le> ob_maxBytes b"

lemma evict_chunks_spec:
  "cs \<noteq> [] \<Longrightarrow> r = sum_list (map oc_bytes cs) \<Longrightarrow>
    \<exists>k. k < length cs \<and> evict_chunks mx cs r = (drop k cs, sum_list (map oc_bytes (drop k cs)))
      \<and> (sum_list (map oc_bytes (drop k cs)) \<le> mx \<or> Suc k = length cs)"
proof (induction mx cs r rule: evict_chunks.induct)
  case (1 mx c c' cs r)
  show ?case
  proof (cases "r > mx")
    case True
    with 1 obtain k where "k < length (c' # cs)"
      "evict_chunks mx (c' # cs) (r - oc_bytes c)
        = (drop k (c' # cs), sum_list (map oc_bytes (drop k (c' # cs))))"
      "sum_list (map oc_bytes (drop k (c' # cs))) \<le> mx \<or> Suc k = length (c' # cs)"
      by auto
    with True show ?thesis by (intro exI [of _ "Suc k"]) simp
  next
    case False
    with 1 show ?thesis by (intro exI [of _ 0]) simp
  qed
qed (auto intro: exI [of _ "0::nat"])

lemma chunk_of_mono: "chunk_of h c \<Longrightarrow> chunk_of (h @ [x]) c"
  by (auto simp: chunk_of_def nth_append split: if_splits)

lemma drop_upt_chunks:
  assumes "map oc_sequence cs = [Suc n - length cs..<Suc n]" "k < length cs" "length cs \<le> n"
  shows "map oc_sequence (drop k cs) = [Suc n - length (drop k cs)..<Suc n]"
  using assms by (simp add: drop_map [symmetric] drop_upt Suc_diff_le)

text \<open>Dropping old chunks and setting the retained count keeps the representation.\<close>

lemma ob_rep_evict:
  assumes h: "[] \<notin> set h" "ob_sequence b = length h"
    and seqs: "map oc_sequence cs = [Suc (length h) - length cs..<Suc (length h)]"
    and len: "length cs \<le> length h" "cs \<noteq> []"
    and ok: "\<forall>c \<in> set cs. chunk_of h c" "\<forall>c \<in> set (tl cs). \<not> oc_prefixTruncated c"
    and small: "\<forall>c \<in> set cs. oc_bytes c \<le> ob_maxBytes b"
    and ev: "evict_chunks (ob_maxBytes b) cs (sum_list (map oc_bytes cs)) = (cs', r')"
  shows "ob_rep h (b\<lparr>ob_chunks := cs', ob_retainedBytes := r'\<rparr>)"
proof -
  from evict_chunks_spec [OF len(2) refl, of "ob_maxBytes b"] ev obtain k where
    k: "k < length cs" and cs': "cs' = drop k cs" and r': "r' = sum_list (map oc_bytes cs')"
    and fit: "r' \<le> ob_maxBytes b \<or> Suc k = length cs"
    by auto
  have bound: "r' \<le> ob_maxBytes b"
  proof (cases "Suc k = length cs")
    case True
    then have "cs' = [cs ! k]" using k cs' by (metis Cons_nth_drop_Suc drop_all order_refl)
    then show ?thesis using small r' k by simp
  next
    case False
    with fit show ?thesis by simp
  qed
  have "set cs' \<subseteq> set cs" "set (tl cs') \<subseteq> set (tl cs)"
    using cs' by (auto simp: tl_drop dest: in_set_dropD)
  then show ?thesis
    unfolding ob_rep_def
    using h ok len k r' bound drop_upt_chunks [OF seqs k len(1)] by (auto simp: cs')
qed

lemma ob_append_rep:
  assumes rep: "ob_rep h b" and wf: "wf_str data" and ne: "data \<noteq> []"
  shows "ob_rep (h @ [data]) (fst (ob_append data b))" "snd (ob_append data b) = Suc (length h)"
proof -
  let ?h = "h @ [data]"
  obtain td tb tt where t: "utf8Tail data (ob_maxBytes b) = (td, tb, tt)"
    by (cases "utf8Tail data (ob_maxBytes b)") auto
  have tail: "tb = byteLength td" "tb \<le> ob_maxBytes b"
    "if tt then \<exists>cut. cut \<noteq> [] \<and> data = cut @ td else td = data"
    using t utf8Tail_short [of data "ob_maxBytes b"] utf8Tail_long [OF _ wf, of "ob_maxBytes b"]
    by (cases "byteLength data \<le> ob_maxBytes b"; force)+
  let ?c = "\<lparr>oc_sequence = Suc (length h), oc_data = td, oc_bytes = tb, oc_prefixTruncated = tt\<rparr>"
  define cs where "cs = (if tt then [] else ob_chunks b) @ [?c]"
  obtain cs' r' where ev: "evict_chunks (ob_maxBytes b) cs (sum_list (map oc_bytes cs)) = (cs', r')"
    by (cases "evict_chunks (ob_maxBytes b) cs (sum_list (map oc_bytes cs))") auto
  have seq: "ob_sequence b = length h" using rep by (simp add: ob_rep_def)
  have retained: "(if tt then 0 else ob_retainedBytes b) + tb = sum_list (map oc_bytes cs)"
    using rep by (simp add: cs_def ob_rep_def)
  have app: "ob_append data b =
      (b\<lparr>ob_chunks := cs', ob_sequence := Suc (length h), ob_retainedBytes := r'\<rparr>, Suc (length h))"
    using ne ev retained unfolding ob_append_def Let_def t seq by (simp add: cs_def)
  have "chunk_of ?h ?c" using tail by (auto simp: chunk_of_def)
  moreover have "\<forall>c \<in> set (ob_chunks b). chunk_of ?h c"
    using rep by (auto simp: ob_rep_def intro: chunk_of_mono)
  ultimately have ok: "\<forall>c \<in> set cs. chunk_of ?h c" by (auto simp: cs_def)
  have tl: "\<forall>c \<in> set (tl cs). \<not> oc_prefixTruncated c"
    using rep by (cases "ob_chunks b") (auto simp: cs_def ob_rep_def)
  have bytes: "oc_bytes c \<le> ob_maxBytes b" if "c \<in> set (ob_chunks b)" for c
    using rep that member_le_sum_list [of "oc_bytes c" "map oc_bytes (ob_chunks b)"]
    by (auto simp: ob_rep_def)
  then have small: "\<forall>c \<in> set cs. oc_bytes c \<le> ob_maxBytes (b\<lparr>ob_sequence := Suc (length h)\<rparr>)"
    using tail(2) by (auto simp: cs_def)
  have seqs: "map oc_sequence cs = [Suc (length ?h) - length cs..<Suc (length ?h)]"
    and len: "length cs \<le> length ?h" "cs \<noteq> []"
    using rep by (auto simp: cs_def ob_rep_def Suc_diff_le)
  have "ob_rep ?h ((b\<lparr>ob_sequence := Suc (length h)\<rparr>)\<lparr>ob_chunks := cs', ob_retainedBytes := r'\<rparr>)"
    by (rule ob_rep_evict [OF _ _ seqs len ok tl small])
      (use rep ne ev in \<open>auto simp: ob_rep_def\<close>)
  moreover have "(b\<lparr>ob_sequence := Suc (length h)\<rparr>)\<lparr>ob_chunks := cs', ob_retainedBytes := r'\<rparr>
      = fst (ob_append data b)"
    using app by (cases b) simp
  ultimately show "ob_rep ?h (fst (ob_append data b))" by (simp only:)
  show "snd (ob_append data b) = Suc (length h)" using app by simp
qed

section \<open>Reads\<close>

lemma filter_after_drop:
  "map oc_sequence cs = [m..<n] \<Longrightarrow> filter (\<lambda>c. a < oc_sequence c) cs = drop (Suc a - m) cs"
proof (induction cs arbitrary: m)
  case Nil
  then show ?case by simp
next
  case (Cons c cs)
  then have eq: "oc_sequence c # map oc_sequence cs = [m..<n]" by simp
  then have "m < n" by (cases "m < n") auto
  with eq have m: "m < n" "oc_sequence c = m" "map oc_sequence cs = [Suc m..<n]"
    by (simp_all add: upt_conv_Cons)
  show ?case
  proof (cases "a < m")
    case True
    have "oc_sequence ` set cs = {Suc m..<n}" using arg_cong [OF m(3), of set] by simp
    then have "oc_sequence x \<in> {Suc m..<n}" if "x \<in> set cs" for x using that by blast
    with True have "\<forall>x \<in> set cs. a < oc_sequence x" by fastforce
    with True m show ?thesis by simp
  next
    case False
    with Cons.IH [OF m(3)] m(2) show ?thesis by (simp add: Suc_diff_le)
  qed
qed

lemma exact_chunks:
  assumes "map oc_sequence cs = [Suc a..<Suc (length h)]"
    "\<forall>c \<in> set cs. chunk_of h c \<and> \<not> oc_prefixTruncated c"
  shows "map oc_data cs = drop a h"
proof (rule nth_equalityI)
  have len: "length cs = length h - a"
    using arg_cong [OF assms(1), of length] by (simp del: upt_Suc)
  then show "length (map oc_data cs) = length (drop a h)" by simp
  fix i assume i: "i < length (map oc_data cs)"
  then have "map oc_sequence cs ! i = [Suc a..<Suc (length h)] ! i" using assms(1) by simp
  with i len have "oc_sequence (cs ! i) = Suc (a + i)" by (simp del: upt_Suc)
  moreover have "chunk_of h (cs ! i) \<and> \<not> oc_prefixTruncated (cs ! i)" using assms(2) i by simp
  ultimately show "map oc_data cs ! i = drop a h ! i"
    using i len by (simp add: chunk_of_def)
qed

lemma ob_read_rep:
  assumes rep: "ob_rep h b" and after: "after \<le> length h"
  shows "\<exists>r cut. ob_read (int after) b = Inr r \<and> or_nextSequence r = length h
    \<and> or_bytes r = byteLength (or_data r)
    \<and> concat (drop after h) = cut @ or_data r \<and> (or_truncatedBefore r \<longleftrightarrow> cut \<noteq> [])"
proof -
  let ?n = "length (ob_chunks b)"
  let ?sel = "filter (\<lambda>c. int (oc_sequence c) > int after) (ob_chunks b)"
  have seqs: "map oc_sequence (ob_chunks b) = [Suc (length h) - ?n..<Suc (length h)]"
    and n: "?n \<le> length h" "h \<noteq> [] \<Longrightarrow> 0 < ?n" and seq: "ob_sequence b = length h"
    using rep by (auto simp: ob_rep_def)
  have sel: "?sel = drop (Suc after - (Suc (length h) - ?n)) (ob_chunks b)"
    using filter_after_drop [OF seqs, of after] by simp
  show ?thesis
  proof (cases "?sel")
    case Nil
    with sel have "?n \<le> Suc after - (Suc (length h) - ?n)" by simp
    moreover have "h = [] \<or> 0 < ?n" using n(2) by blast
    ultimately have "after = length h" using n(1) after
      by (elim disjE) (simp, linarith)
    with Nil after show ?thesis
      by (intro exI [of _ "\<lparr>or_data = [], or_bytes = 0, or_nextSequence = length h,
          or_truncatedBefore = False\<rparr>"] exI [of _ "[]"])
        (simp add: ob_read_def seq byteLength_def)
  next
    case (Cons first rest)
    let ?k = "Suc after - (Suc (length h) - ?n)"
    have k: "?k < ?n" using Cons sel by (metis drop_all leI list.distinct(1))
    have fr: "drop ?k (ob_chunks b) = first # rest" using Cons sel by simp
    have selseq: "map oc_sequence (first # rest)
        = [Suc (length h) - length (first # rest)..<Suc (length h)]"
      using drop_upt_chunks [OF seqs k n(1)] fr by simp
    have "drop ?k (tl (ob_chunks b)) = rest" using fr by (metis drop_Suc list.sel(3) tl_drop)
    then have inS: "first \<in> set (ob_chunks b)" "set rest \<subseteq> set (ob_chunks b)"
      "set rest \<subseteq> set (tl (ob_chunks b))"
      using fr by (metis in_set_dropD list.set_intros(1),
          metis fr set_drop_subset set_subset_Cons subset_trans, metis set_drop_subset)
    have all: "\<forall>c \<in> set (ob_chunks b). chunk_of h c"
      "\<forall>c \<in> set (tl (ob_chunks b)). \<not> oc_prefixTruncated c"
      using rep unfolding ob_rep_def by blast+
    with inS have cf: "chunk_of h first"
      and cr: "\<forall>c \<in> set rest. chunk_of h c \<and> \<not> oc_prefixTruncated c"
      by blast+
    let ?s = "oc_sequence first"
    have s: "0 < ?s" "?s \<le> length h" using cf by (auto simp: chunk_of_def)
    have "oc_sequence first # map oc_sequence rest
        = [Suc (length h) - length (first # rest)..<Suc (length h)]" using selseq by simp
    moreover have "Suc (length h) - length (first # rest) < Suc (length h)" by simp
    ultimately have sv: "?s = Suc (length h) - length (first # rest)"
      and rs: "map oc_sequence rest = [Suc ?s..<Suc (length h)]"
      by (simp_all only: upt_conv_Cons list.inject)
    have rest: "map oc_data rest = drop ?s h" by (rule exact_chunks [OF rs cr])
    have as: "after < ?s" using Cons by (metis (mono_tags) filter_eq_Cons_iff of_nat_less_iff)
    obtain cut0 where cut0: "h ! (?s - 1) = cut0 @ oc_data first"
      "oc_prefixTruncated first \<longleftrightarrow> cut0 \<noteq> []"
      using cf by (auto simp: chunk_of_def split: if_splits)
    have "drop (?s - 1 - after) (drop after h) = drop (?s - 1) h"
      using as by simp
    then have a: "drop after h = take (?s - 1 - after) (drop after h) @ drop (?s - 1) h"
      by (metis append_take_drop_id)
    have b: "drop (?s - 1) h = h ! (?s - 1) # drop ?s h"
      using s Cons_nth_drop_Suc [of "?s - 1" h] by simp
    have "concat (drop after h) = concat (take (?s - 1 - after) (drop after h))
        @ concat (h ! (?s - 1) # drop ?s h)"
      using arg_cong [OF a, of concat] unfolding concat_append b .
    then have split: "concat (drop after h) =
        (concat (take (?s - 1 - after) (drop after h)) @ cut0) @ concat (map oc_data (first # rest))"
      by (simp only: cut0(1) rest concat.simps list.map append.assoc)
    have "concat (take (?s - 1 - after) (drop after h)) = [] \<longleftrightarrow> \<not> after < ?s - 1"
    proof -
      have "[] \<notin> set (take (?s - 1 - after) (drop after h))"
        using rep by (auto simp: ob_rep_def dest: in_set_takeD in_set_dropD)
      then have "concat (take (?s - 1 - after) (drop after h)) = []
          \<longleftrightarrow> take (?s - 1 - after) (drop after h) = []"
        by (metis concat.simps(1) concat_eq_Nil_conv list.set_sel(1))
      then show ?thesis using s as by auto
    qed
    then have "(concat (take (?s - 1 - after) (drop after h)) @ cut0 \<noteq> [])
        = (int after < int ?s - 1 \<or> oc_prefixTruncated first \<and> int after < int ?s)"
      using as cut0(2) by auto
    then show ?thesis
      using after split Cons
      by (intro exI [of _ "\<lparr>or_data = concat (map oc_data (first # rest)),
            or_bytes = byteLength (concat (map oc_data (first # rest))),
            or_nextSequence = length h,
            or_truncatedBefore = (int after < int ?s - 1
              \<or> oc_prefixTruncated first \<and> int after < int ?s)\<rparr>"]
          exI [of _ "concat (take (?s - 1 - after) (drop after h)) @ cut0"])
        (simp add: ob_read_def seq Let_def)
  qed
qed

section \<open>Whole sessions\<close>

fun append_all :: "ustring list \<Rightarrow> output_buffer \<Rightarrow> output_buffer" where
  "append_all [] b = b"
| "append_all (d # ds) b = append_all ds (fst (ob_append d b))"

lemma ob_append_maxBytes [frame_simps]: "ob_maxBytes (fst (ob_append d b)) = ob_maxBytes b"
  by (simp add: ob_append_def Let_def split: prod.splits)

lemma append_all_rep:
  "ob_rep h b \<Longrightarrow> list_all wf_str ds \<Longrightarrow>
    ob_rep (h @ filter (\<lambda>d. d \<noteq> []) ds) (append_all ds b)"
proof (induction ds arbitrary: h b)
  case Nil
  then show ?case by simp
next
  case (Cons d ds)
  show ?case
  proof (cases "d = []")
    case True
    with Cons show ?thesis by (simp add: ob_append_def)
  next
    case False
    with Cons.prems have "ob_rep (h @ [d]) (fst (ob_append d b))" by (simp add: ob_append_rep)
    with Cons.IH [OF this] Cons.prems(2) False show ?thesis by simp
  qed
qed

lemma new_output_buffer_rep: "new_output_buffer mx = Inr b \<Longrightarrow> ob_rep [] b"
  by (auto simp: new_output_buffer_def ob_rep_def split: if_splits)

text \<open>
  C27: The output buffer answers reads like the full list of chunks. In any session whose
  chunks are well-formed strings, a read after a sequence number the client has seen returns
  the next cursor and a suffix of everything appended since; it reports \<open>truncatedBefore\<close>
  exactly when that suffix is not all of it, so no output is lost silently.
\<close>

theorem terminal_read_correct:
  assumes new: "new_output_buffer mx = Inr b0" and wf: "list_all wf_str ds"
    and h: "h = filter (\<lambda>d. d \<noteq> []) ds" and after: "after \<le> length h"
  shows "\<exists>r cut. ob_read (int after) (append_all ds b0) = Inr r \<and> or_nextSequence r = length h
    \<and> or_bytes r = byteLength (or_data r)
    \<and> concat (drop after h) = cut @ or_data r \<and> (or_truncatedBefore r \<longleftrightarrow> cut \<noteq> [])"
proof -
  have "ob_rep h (append_all ds b0)"
    using append_all_rep [OF new_output_buffer_rep [OF new] wf] h by simp
  from ob_read_rep [OF this after] show ?thesis .
qed

theorem terminal_read_correct_witness:
  "\<exists>r cut. ob_read (int 0) (append_all [[0x61, 0x62], [], [0x20AC, 0x63]]
        \<lparr>ob_maxBytes = 3, ob_chunks = [], ob_sequence = 0, ob_retainedBytes = 0\<rparr>) = Inr r
    \<and> or_nextSequence r = length [[0x61, 0x62], [0x20AC, 0x63 :: nat]]
    \<and> or_bytes r = byteLength (or_data r)
    \<and> concat (drop 0 [[0x61, 0x62], [0x20AC, 0x63]]) = cut @ or_data r
    \<and> (or_truncatedBefore r \<longleftrightarrow> cut \<noteq> [])"
  by (rule terminal_read_correct [where mx = 3 and ds = "[[0x61, 0x62], [], [0x20AC, 0x63]]"])
    (simp_all add: new_output_buffer_def scalar_def)

text \<open>
  The buffer's memory bound: whatever is appended, the retained bytes are counted exactly
  and never exceed the configured limit, and the sequence number counts the non-empty chunks.
\<close>

theorem terminal_output_bounded:
  assumes new: "new_output_buffer mx = Inr b0" and wf: "list_all wf_str ds"
  shows "ob_retainedBytes (append_all ds b0)
      = sum_list (map (byteLength \<circ> oc_data) (ob_chunks (append_all ds b0)))
    \<and> int (ob_retainedBytes (append_all ds b0)) \<le> mx
    \<and> ob_sequence (append_all ds b0) = length (filter (\<lambda>d. d \<noteq> []) ds)"
proof -
  let ?b = "append_all ds b0" and ?h = "filter (\<lambda>d. d \<noteq> []) ds"
  have rep: "ob_rep ?h ?b"
    using append_all_rep [OF new_output_buffer_rep [OF new] wf] by simp
  have "ob_maxBytes ?b = ob_maxBytes b0"
    by (induction ds arbitrary: b0) (simp_all add: frame_simps)
  moreover have "int (ob_maxBytes b0) = mx" using new by (auto simp: new_output_buffer_def split: if_splits)
  moreover have "sum_list (map oc_bytes (ob_chunks ?b))
      = sum_list (map (byteLength \<circ> oc_data) (ob_chunks ?b))"
    using rep by (intro arg_cong [where f = sum_list]) (auto simp: ob_rep_def chunk_of_def)
  moreover have "ob_retainedBytes ?b = sum_list (map oc_bytes (ob_chunks ?b))"
    "ob_retainedBytes ?b \<le> ob_maxBytes ?b" "ob_sequence ?b = length ?h"
    using rep unfolding ob_rep_def by blast+
  ultimately show ?thesis by simp
qed

theorem terminal_output_bounded_witness:
  "ob_retainedBytes (append_all [[0x61, 0x62], [0x20AC, 0x63]]
        \<lparr>ob_maxBytes = 3, ob_chunks = [], ob_sequence = 0, ob_retainedBytes = 0\<rparr>)
      = sum_list (map (byteLength \<circ> oc_data) (ob_chunks (append_all [[0x61, 0x62], [0x20AC, 0x63]]
        \<lparr>ob_maxBytes = 3, ob_chunks = [], ob_sequence = 0, ob_retainedBytes = 0\<rparr>)))
    \<and> int (ob_retainedBytes (append_all [[0x61, 0x62], [0x20AC, 0x63]]
        \<lparr>ob_maxBytes = 3, ob_chunks = [], ob_sequence = 0, ob_retainedBytes = 0\<rparr>)) \<le> 3
    \<and> ob_sequence (append_all [[0x61, 0x62], [0x20AC, 0x63]]
        \<lparr>ob_maxBytes = 3, ob_chunks = [], ob_sequence = 0, ob_retainedBytes = 0\<rparr>)
      = length (filter (\<lambda>d. d \<noteq> []) [[0x61, 0x62], [0x20AC, 0x63 :: nat]])"
  by (rule terminal_output_bounded) (simp_all add: new_output_buffer_def scalar_def)

end
