(* ===== verification/Terminal_Sessions.thy ===== *)
theory Terminal_Sessions
  imports Terminal_Output Registry
begin

text \<open>
  \<open>src/src/terminal/terminal-session-supervisor.ts\<close>: the registry of persistent terminal
  sessions. Every method is cut at its \<open>await\<close>s into the pieces that JavaScript runs without
  interruption; each piece is a function on the supervisor's state, and \<open>term_step\<close> is the
  relation of all of them, in any order the event loop and the operating system may choose.

  Times are the milliseconds \<open>now()\<close> returns (the code stores \<open>toISOString\<close> of them beside).
  \<open>undefined\<close> properties are \<open>None\<close>; a property that can be \<open>null\<close> as well is an option of an
  option. Calls on the pseudo-terminal, the operating system and the mirror are recorded in
  \<open>ts_log\<close> in the order they are made.
\<close>

datatype term_error = Closing | RegistryFull | NoUniqueId | OutputRange | InputTooLarge

datatype session_state = SRunning | SExited | SStopped

text \<open>What \<open>signalProcess\<close> does: deliver, throw \<open>ESRCH\<close>, or throw another error.\<close>

datatype signal_result = Delivered | NoSuchProcess | SignalFailed

text \<open>How far the attempt behind \<open>terminationPromise\<close> is (\<open>NotRequested\<close>: no such promise).\<close>

datatype term_phase = NotRequested | InGrace | AwaitClose | Settled

datatype term_effect =
    PtyWrite string ustring
  | PtyResize string nat nat
  | PtyKill string os_signal
  | SignalGroup string int os_signal
  | MirrorStart string path
  | MirrorAppend string ustring
  | MirrorFinish string session_state "int option"

record session =
  s_id :: string
  s_cwd :: path
  s_state :: session_state
  s_cols :: nat
  s_rows :: nat
  s_startedAtMs :: int
  s_exitedAt :: "int option"
  s_exitCode :: "int option option"
  s_signal :: "int option option"
  s_pid :: int
  s_output :: output_buffer
  s_terminationRequested :: bool
  s_termination :: term_phase

record session_summary =
  sm_id :: string
  sm_cwd :: path
  sm_state :: session_state
  sm_cols :: nat
  sm_rows :: nat
  sm_startedAt :: int
  sm_exitedAt :: "int option"
  sm_exitCode :: "int option option"
  sm_signal :: "int option option"
  sm_outputSequence :: nat

record term_options =
  to_maxSessions :: int
  to_maxOutputBytes :: int
  to_maxInputBytes :: nat
  to_win32 :: bool
  to_mirror :: bool

record term_sup =
  ts_records :: "session list"
  ts_pendingStarts :: int
  ts_closing :: bool
  ts_log :: "term_effect list"

definition term_sup_new :: term_sup where
  "term_sup_new = \<lparr>ts_records = [], ts_pendingStarts = 0, ts_closing = False, ts_log = []\<rparr>"

definition session_summary :: "session \<Rightarrow> session_summary" where
  "session_summary r =
     \<lparr>sm_id = s_id r, sm_cwd = s_cwd r, sm_state = s_state r, sm_cols = s_cols r,
      sm_rows = s_rows r, sm_startedAt = s_startedAtMs r, sm_exitedAt = s_exitedAt r,
      sm_exitCode = s_exitCode r, sm_signal = s_signal r,
      sm_outputSequence = ob_sequence (s_output r)\<rparr>"

abbreviation is_running :: "session \<Rightarrow> bool" where
  "is_running r \<equiv> s_state r = SRunning"

abbreviation get_session :: "string \<Rightarrow> term_sup \<Rightarrow> session option" where
  "get_session i s \<equiv> find_key s_id i (ts_records s)"

definition put_session :: "string \<Rightarrow> (session \<Rightarrow> session) \<Rightarrow> term_sup \<Rightarrow> term_sup" where
  "put_session i f s = s\<lparr>ts_records := upd_key s_id i f (ts_records s)\<rparr>"

definition emit :: "term_effect list \<Rightarrow> term_sup \<Rightarrow> term_sup" where
  "emit es s = s\<lparr>ts_log := ts_log s @ es\<rparr>"

definition mirrored :: "term_options \<Rightarrow> term_effect \<Rightarrow> term_effect list" where
  "mirrored opts e = (if to_mirror opts then [e] else [])"

section \<open>Opening a session\<close>

definition term_reserveCapacity :: "term_options \<Rightarrow> term_sup \<Rightarrow> term_sup \<times> bool" where
  "term_reserveCapacity opts s =
     (case evict_until is_running s_startedAtMs s_id (to_maxSessions opts)
             (ts_pendingStarts s) (ts_records s) of
        (rs, gone, ok) \<Rightarrow>
          (s\<lparr>ts_records := rs,
             ts_pendingStarts := ts_pendingStarts s + (if ok then 1 else 0)\<rparr>, ok))"

text \<open>\<open>open\<close> up to \<open>await backend.spawn\<close>.\<close>

definition open_begin :: "term_options \<Rightarrow> term_sup \<Rightarrow> term_sup \<times> (term_error + unit)" where
  "open_begin opts s =
     (if ts_closing s then (s, Inl Closing)
      else (case term_reserveCapacity opts s of
              (s', True) \<Rightarrow> (s', Inr ())
            | (s', False) \<Rightarrow> (s', Inl RegistryFull)))"

text \<open>The \<open>catch\<close> around the spawn.\<close>

definition open_failed :: "term_sup \<Rightarrow> term_sup" where
  "open_failed s = s\<lparr>ts_pendingStarts := ts_pendingStarts s - 1\<rparr>"

text \<open>\<open>newUniqueSessionId\<close>: \<open>ids n\<close> is what the \<open>n\<close>-th call of \<open>newSessionId\<close> returns.\<close>

definition newUniqueSessionId :: "(nat \<Rightarrow> string) \<Rightarrow> term_sup \<Rightarrow> string option" where
  "newUniqueSessionId ids s =
     map_option ids (find (\<lambda>attempt. get_session (ids attempt) s = None) [0..<8])"

text \<open>\<open>open\<close> after the spawn: \<open>pid\<close> is the pseudo-terminal, \<open>now\<close> the clock.\<close>

definition open_spawned ::
  "term_options \<Rightarrow> path \<Rightarrow> nat \<Rightarrow> nat \<Rightarrow> int \<Rightarrow> int \<Rightarrow> (nat \<Rightarrow> string) \<Rightarrow> term_sup
   \<Rightarrow> term_sup \<times> (term_error + session_summary)"
where
  "open_spawned opts cwd cols rows pid now ids s0 =
     (let s = s0\<lparr>ts_pendingStarts := ts_pendingStarts s0 - 1\<rparr>
      in case newUniqueSessionId ids s of
           None \<Rightarrow> (s, Inl NoUniqueId)
         | Some i \<Rightarrow>
             (case new_output_buffer (to_maxOutputBytes opts) of
                Inl _ \<Rightarrow> (s, Inl OutputRange)
              | Inr output \<Rightarrow>
                  (let r = \<lparr>s_id = i, s_cwd = cwd, s_state = SRunning, s_cols = cols, s_rows = rows,
                            s_startedAtMs = now, s_exitedAt = None, s_exitCode = None,
                            s_signal = None, s_pid = pid, s_output = output,
                            s_terminationRequested = False, s_termination = NotRequested\<rparr>;
                       s' = emit (mirrored opts (MirrorStart i cwd))
                              (s\<lparr>ts_records := put_key s_id r (ts_records s)\<rparr>)
                   in (s', Inr (session_summary r)))))"

section \<open>Events of the pseudo-terminal\<close>

definition on_data :: "term_options \<Rightarrow> string \<Rightarrow> ustring \<Rightarrow> term_sup \<Rightarrow> term_sup" where
  "on_data opts i data s =
     emit (mirrored opts (MirrorAppend i data))
       (put_session i (\<lambda>r. r\<lparr>s_output := fst (ob_append data (s_output r))\<rparr>) s)"

definition on_exit :: "term_options \<Rightarrow> string \<Rightarrow> int \<Rightarrow> int option \<Rightarrow> int \<Rightarrow> term_sup \<Rightarrow> term_sup" where
  "on_exit opts i code signal now s =
     (case get_session i s of
        None \<Rightarrow> s
      | Some r \<Rightarrow>
          if \<not> is_running r then s
          else
            (let state = (if s_terminationRequested r then SStopped else SExited)
             in emit (mirrored opts (MirrorFinish i state (Some code)))
                  (put_session i (\<lambda>r. r\<lparr>s_state := state, s_exitedAt := Some now,
                     s_exitCode := Some (Some code), s_signal := Some signal\<rparr>) s)))"

section \<open>Queries and input\<close>

definition descriptors :: "term_sup \<Rightarrow> (string \<times> path) list" where
  "descriptors s = map (\<lambda>r. (s_id r, s_cwd r)) (ts_records s)"

definition session_status :: "string \<Rightarrow> term_sup \<Rightarrow> session_summary option" where
  "session_status i s = map_option session_summary (get_session i s)"

definition session_read ::
  "string \<Rightarrow> int \<Rightarrow> term_sup \<Rightarrow> (range_error + string \<times> session_state \<times> output_read) option" where
  "session_read i after s =
     (case get_session i s of
        None \<Rightarrow> None
      | Some r \<Rightarrow> Some (bind_res (ob_read after (s_output r)) (\<lambda>out. Inr (i, s_state r, out))))"

definition session_write ::
  "term_options \<Rightarrow> string \<Rightarrow> ustring \<Rightarrow> term_sup
   \<Rightarrow> term_sup \<times> (term_error + session_summary option)" where
  "session_write opts i data s =
     (case get_session i s of
        None \<Rightarrow> (s, Inr None)
      | Some r \<Rightarrow>
          if \<not> is_running r then (s, Inr (Some (session_summary r)))
          else if byteLength data > to_maxInputBytes opts then (s, Inl InputTooLarge)
          else (emit [PtyWrite i data] s, Inr (Some (session_summary r))))"

definition session_resize ::
  "string \<Rightarrow> nat \<Rightarrow> nat \<Rightarrow> term_sup \<Rightarrow> term_sup \<times> session_summary option" where
  "session_resize i cols rows s =
     (case get_session i s of
        None \<Rightarrow> (s, None)
      | Some r \<Rightarrow>
          if \<not> is_running r then (s, Some (session_summary r))
          else
            (let s' = put_session i (\<lambda>r. r\<lparr>s_cols := cols, s_rows := rows\<rparr>)
                        (emit [PtyResize i cols rows] s)
             in (s', map_option session_summary (get_session i s'))))"

section \<open>Termination\<close>

text \<open>
  \<open>sendSignal\<close>: on Windows the pseudo-terminal is killed and the call reports success;
  elsewhere the process group is signalled and \<open>ESRCH\<close> is reported as false.
\<close>

definition send_signal ::
  "term_options \<Rightarrow> session \<Rightarrow> os_signal \<Rightarrow> signal_result \<Rightarrow> term_sup \<Rightarrow> term_sup \<times> signal_result" where
  "send_signal opts r sig outcome s =
     (if to_win32 opts then (emit [PtyKill (s_id r) sig] s, Delivered)
      else (emit [SignalGroup (s_id r) (- s_pid r) sig] s, outcome))"

definition finish_already_gone :: "term_options \<Rightarrow> string \<Rightarrow> int \<Rightarrow> term_sup \<Rightarrow> term_sup" where
  "finish_already_gone opts i now s =
     (case get_session i s of
        None \<Rightarrow> s
      | Some r \<Rightarrow>
          if \<not> is_running r then s
          else emit (mirrored opts (MirrorFinish i SStopped None))
                 (put_session i (\<lambda>r. r\<lparr>s_state := SStopped, s_exitedAt := Some now,
                    s_exitCode := Some None, s_signal := Some None\<rparr>) s))"

text \<open>
  \<open>terminate\<close> up to the first \<open>await\<close> of \<open>terminateOnce\<close>: a running session without an
  attempt under way is marked, signalled, and either settled at once or left in its grace time.
\<close>

definition terminate_begin ::
  "term_options \<Rightarrow> string \<Rightarrow> signal_result \<Rightarrow> int \<Rightarrow> term_sup \<Rightarrow> term_sup" where
  "terminate_begin opts i outcome now s =
     (case get_session i s of
        None \<Rightarrow> s
      | Some r \<Rightarrow>
          if \<not> is_running r \<or> s_termination r \<noteq> NotRequested then s
          else
            (let s1 = put_session i (\<lambda>r. r\<lparr>s_terminationRequested := True\<rparr>) s
             in case send_signal opts r SIGTERM outcome s1 of
                  (s2, Delivered) \<Rightarrow> put_session i (\<lambda>r. r\<lparr>s_termination := InGrace\<rparr>) s2
                | (s2, NoSuchProcess) \<Rightarrow>
                    put_session i (\<lambda>r. r\<lparr>s_termination := Settled\<rparr>)
                      (finish_already_gone opts i now s2)
                | (s2, SignalFailed) \<Rightarrow> s2))"

text \<open>The grace timer of \<open>waitForClose\<close> fires before the session closed.\<close>

definition grace_expired ::
  "term_options \<Rightarrow> string \<Rightarrow> signal_result \<Rightarrow> int \<Rightarrow> term_sup \<Rightarrow> term_sup" where
  "grace_expired opts i outcome now s =
     (case get_session i s of
        None \<Rightarrow> s
      | Some r \<Rightarrow>
          if s_termination r \<noteq> InGrace then s
          else if \<not> is_running r then put_session i (\<lambda>r. r\<lparr>s_termination := Settled\<rparr>) s
          else
            (case send_signal opts r SIGKILL outcome s of
               (s2, Delivered) \<Rightarrow> put_session i (\<lambda>r. r\<lparr>s_termination := AwaitClose\<rparr>) s2
             | (s2, NoSuchProcess) \<Rightarrow>
                 put_session i (\<lambda>r. r\<lparr>s_termination := Settled\<rparr>) (finish_already_gone opts i now s2)
             | (s2, SignalFailed) \<Rightarrow> put_session i (\<lambda>r. r\<lparr>s_termination := NotRequested\<rparr>) s2))"

definition session_stop ::
  "term_options \<Rightarrow> string \<Rightarrow> signal_result \<Rightarrow> int \<Rightarrow> term_sup \<Rightarrow> term_sup" where
  "session_stop opts i outcome now s =
     (case get_session i s of
        None \<Rightarrow> s
      | Some r \<Rightarrow> if \<not> is_running r then s else terminate_begin opts i outcome now s)"

text \<open>\<open>close\<close>: no more opens, and every session running now is terminated.\<close>

definition term_close ::
  "term_options \<Rightarrow> (string \<Rightarrow> signal_result) \<Rightarrow> int \<Rightarrow> term_sup \<Rightarrow> term_sup" where
  "term_close opts outcome now s =
     fold (\<lambda>i. terminate_begin opts i (outcome i) now)
       (map s_id (filter is_running (ts_records s))) (s\<lparr>ts_closing := True\<rparr>)"

section \<open>All interleavings\<close>

inductive term_step :: "term_options \<Rightarrow> term_sup \<Rightarrow> term_sup \<Rightarrow> bool" for opts where
  st_open: "term_step opts s (fst (open_begin opts s))"
| st_open_failed: "0 < ts_pendingStarts s \<Longrightarrow> term_step opts s (open_failed s)"
| st_open_spawned: "0 < ts_pendingStarts s \<Longrightarrow>
    term_step opts s (fst (open_spawned opts cwd cols rows pid now ids s))"
| st_data: "wf_str data \<Longrightarrow> term_step opts s (on_data opts i data s)"
| st_exit: "term_step opts s (on_exit opts i code signal now s)"
| st_write: "term_step opts s (fst (session_write opts i data s))"
| st_resize: "term_step opts s (fst (session_resize i cols rows s))"
| st_stop: "term_step opts s (session_stop opts i outcome now s)"
| st_grace: "term_step opts s (grace_expired opts i outcome now s)"
| st_close: "term_step opts s (term_close opts outcomes now s)"

inductive_cases term_stepE: "term_step opts s t"

inductive term_reachable :: "term_options \<Rightarrow> term_sup \<Rightarrow> bool" for opts where
  tr_init: "term_reachable opts term_sup_new"
| tr_step: "term_reachable opts s \<Longrightarrow> term_step opts s t \<Longrightarrow> term_reachable opts t"

section \<open>The session invariant\<close>

text \<open>
  A session record is consistent: it has an exit time exactly when it is not running, exit
  code and signal are set with it, a stopped session or one with an attempt under way had its
  termination requested, and its output buffer represents some history of chunks.
\<close>

definition session_ok :: "session \<Rightarrow> bool" where
  "session_ok r \<longleftrightarrow> (is_running r \<longleftrightarrow> s_exitedAt r = None)
     \<and> (s_exitCode r = None \<longleftrightarrow> is_running r) \<and> (s_signal r = None \<longleftrightarrow> is_running r)
     \<and> (s_state r = SStopped \<longrightarrow> s_terminationRequested r)
     \<and> (s_termination r \<noteq> NotRequested \<longrightarrow> s_terminationRequested r)
     \<and> (\<exists>h. ob_rep h (s_output r))"

definition term_inv :: "term_options \<Rightarrow> term_sup \<Rightarrow> bool" where
  "term_inv opts s \<longleftrightarrow> distinct (map s_id (ts_records s))
     \<and> int (length (ts_records s)) + ts_pendingStarts s \<le> max 0 (to_maxSessions opts)
     \<and> 0 \<le> ts_pendingStarts s
     \<and> (\<forall>r \<in> set (ts_records s). session_ok r)"

text \<open>Which fields the small updates touch.\<close>

lemma put_session_frame [frame_simps, simp]:
  "ts_pendingStarts (put_session i f s) = ts_pendingStarts s"
  "ts_closing (put_session i f s) = ts_closing s"
  "ts_log (put_session i f s) = ts_log s"
  "length (ts_records (put_session i f s)) = length (ts_records s)"
  by (simp_all add: put_session_def)

lemma emit_frame [frame_simps, simp]:
  "ts_records (emit es s) = ts_records s"
  "ts_pendingStarts (emit es s) = ts_pendingStarts s"
  "ts_closing (emit es s) = ts_closing s"
  "ts_log (emit es s) = ts_log s @ es"
  by (simp_all add: emit_def)

lemma send_signal_frame [frame_simps]:
  assumes "send_signal opts r sig outcome s = (s', res)"
  shows "ts_records s' = ts_records s" "ts_pendingStarts s' = ts_pendingStarts s"
    "ts_closing s' = ts_closing s"
  using assms by (auto simp: send_signal_def split: if_splits)

lemma term_inv_emit [inv_intros]: "term_inv opts s \<Longrightarrow> term_inv opts (emit es s)"
  by (simp add: term_inv_def)

lemma term_inv_send [inv_intros]:
  "send_signal opts r sig outcome s = (s', res) \<Longrightarrow> term_inv opts s \<Longrightarrow> term_inv opts s'"
  by (auto simp: term_inv_def send_signal_frame)

lemma term_inv_put [inv_intros]:
  assumes "term_inv opts s" "\<And>r. s_id (f r) = s_id r"
    "\<And>r. r \<in> set (ts_records s) \<Longrightarrow> s_id r = i \<Longrightarrow> session_ok r \<Longrightarrow> session_ok (f r)"
  shows "term_inv opts (put_session i f s)"
proof -
  have recs: "ts_records (put_session i f s) = upd_key s_id i f (ts_records s)"
    by (simp add: put_session_def)
  have "map s_id (ts_records (put_session i f s)) = map s_id (ts_records s)"
    unfolding recs by (rule map_upd_key) (rule assms(2))
  then have "distinct (map s_id (ts_records (put_session i f s)))"
    using assms(1) by (simp only: term_inv_def)
  moreover have "\<forall>x \<in> set (ts_records (put_session i f s)). session_ok x"
    unfolding recs ball_upd_key
  proof
    fix r assume r: "r \<in> set (ts_records s)"
    then have "session_ok r" using assms(1) unfolding term_inv_def by blast
    with assms(3) [OF r] show "if s_id r = i then session_ok (f r) else session_ok r" by simp
  qed
  ultimately show ?thesis
    using assms(1) unfolding term_inv_def put_session_frame by blast
qed

lemma get_session_unique:
  assumes "term_inv opts s" "get_session i s = Some r" "x \<in> set (ts_records s)" "s_id x = i"
  shows "x = r"
  using assms find_key_distinct [of s_id "ts_records s" x] by (auto simp: term_inv_def)

section \<open>Every operation keeps it\<close>

lemma on_data_inv [inv_intros]:
  assumes "term_inv opts s" "wf_str data"
  shows "term_inv opts (on_data opts i data s)"
proof -
  have "ob_rep (if data = [] then h else h @ [data]) (fst (ob_append data b))"
    if "ob_rep h b" for h b
    using that assms(2) by (simp add: ob_append_rep(1)) (simp add: ob_append_def)
  then have "session_ok (r\<lparr>s_output := fst (ob_append data (s_output r))\<rparr>)" if "session_ok r" for r
    using that unfolding session_ok_def by auto
  then show ?thesis unfolding on_data_def using assms(1) by (intro term_inv_emit term_inv_put) simp_all
qed

lemma on_exit_inv [inv_intros]:
  assumes "term_inv opts s"
  shows "term_inv opts (on_exit opts i code signal now s)"
proof (cases "get_session i s")
  case None
  then show ?thesis using assms by (simp add: on_exit_def)
next
  case (Some r)
  note uniq = get_session_unique [OF assms Some]
  show ?thesis
    unfolding on_exit_def using assms Some
    by (auto simp: Let_def session_ok_def dest: uniq intro!: term_inv_emit term_inv_put)
qed

definition requested :: "string \<Rightarrow> term_sup \<Rightarrow> bool" where
  "requested i s \<longleftrightarrow> (\<forall>x \<in> set (ts_records s). s_id x = i \<longrightarrow> s_terminationRequested x)"

lemma requested_put:
  assumes "\<And>r. s_id (f r) = s_id r" "\<And>r. s_terminationRequested (f r)"
  shows "requested i (put_session i f s)"
  using assms by (simp add: requested_def put_session_def ball_upd_key)

lemma requested_finish:
  "requested i s \<Longrightarrow> requested i (finish_already_gone opts i now s)"
  by (simp add: requested_def finish_already_gone_def put_session_def ball_upd_key
      split: option.splits)

lemma finish_already_gone_inv [inv_intros]:
  assumes "term_inv opts s" "requested i s"
  shows "term_inv opts (finish_already_gone opts i now s)"
proof (cases "get_session i s")
  case None
  then show ?thesis using assms by (simp add: finish_already_gone_def)
next
  case (Some r)
  show ?thesis
    unfolding finish_already_gone_def using assms Some
    by (auto simp: session_ok_def requested_def intro!: term_inv_emit term_inv_put)
qed

lemma terminate_begin_inv [inv_intros]:
  assumes "term_inv opts s"
  shows "term_inv opts (terminate_begin opts i outcome now s)"
proof (cases "get_session i s")
  case None
  then show ?thesis using assms by (simp add: terminate_begin_def)
next
  case (Some r)
  let ?f = "\<lambda>r. r\<lparr>s_terminationRequested := True\<rparr>"
  let ?s1 = "put_session i ?f s"
  have 1: "term_inv opts ?s1"
    using assms by (intro term_inv_put) (auto simp: session_ok_def)
  obtain s2 res where send: "send_signal opts r SIGTERM outcome ?s1 = (s2, res)"
    by (cases "send_signal opts r SIGTERM outcome ?s1") auto
  have 2: "term_inv opts s2" by (rule term_inv_send [OF send 1])
  have "requested i ?s1" by (rule requested_put) simp_all
  then have req: "requested i s2" by (simp add: requested_def send_signal_frame [OF send])
  have "term_inv opts (put_session i (\<lambda>r. r\<lparr>s_termination := InGrace\<rparr>) s2)"
    using 2 req by (intro term_inv_put) (auto simp: session_ok_def requested_def)
  moreover have "term_inv opts (put_session i (\<lambda>r. r\<lparr>s_termination := Settled\<rparr>)
      (finish_already_gone opts i now s2))"
    using finish_already_gone_inv [OF 2 req] requested_finish [OF req]
    by (intro term_inv_put) (auto simp: session_ok_def requested_def)
  ultimately show ?thesis
    using Some assms send 2 by (auto simp: terminate_begin_def split: signal_result.splits)
qed

lemma grace_expired_inv [inv_intros]:
  assumes "term_inv opts s"
  shows "term_inv opts (grace_expired opts i outcome now s)"
proof (cases "get_session i s")
  case None
  then show ?thesis using assms by (simp add: grace_expired_def)
next
  case (Some r)
  show ?thesis
  proof (cases "s_termination r = InGrace")
    case False
    with Some assms show ?thesis by (simp add: grace_expired_def)
  next
    case True
    have ok: "session_ok r" using Some assms by (auto simp: term_inv_def dest: find_key_SomeD)
    with True have rr: "s_terminationRequested r" by (simp add: session_ok_def)
    obtain s2 res where send: "send_signal opts r SIGKILL outcome s = (s2, res)"
      by (cases "send_signal opts r SIGKILL outcome s") auto
    have 2: "term_inv opts s2" by (rule term_inv_send [OF send assms])
    have req0: "requested i s"
      unfolding requested_def using get_session_unique [OF assms Some] rr by blast
    then have req: "requested i s2" by (simp add: requested_def send_signal_frame [OF send])
    have "term_inv opts (put_session i (\<lambda>r. r\<lparr>s_termination := Settled\<rparr>) s)"
      using assms req0 by (intro term_inv_put) (auto simp: session_ok_def requested_def)
    moreover have "term_inv opts (put_session i (\<lambda>r. r\<lparr>s_termination := AwaitClose\<rparr>) s2)"
      "term_inv opts (put_session i (\<lambda>r. r\<lparr>s_termination := NotRequested\<rparr>) s2)"
      using 2 req by (auto intro!: term_inv_put simp: session_ok_def requested_def)
    moreover have "term_inv opts (put_session i (\<lambda>r. r\<lparr>s_termination := Settled\<rparr>)
        (finish_already_gone opts i now s2))"
      using finish_already_gone_inv [OF 2 req] requested_finish [OF req]
      by (intro term_inv_put) (auto simp: session_ok_def requested_def)
    ultimately show ?thesis
      using Some True send by (auto simp: grace_expired_def split: signal_result.splits)
  qed
qed

lemma term_close_inv [inv_intros]:
  assumes "term_inv opts s"
  shows "term_inv opts (term_close opts outcomes now s)"
proof -
  have "term_inv opts (fold (\<lambda>i. terminate_begin opts i (outcomes i) now) is t)"
    if "term_inv opts t" for "is" t
    using that by (induction "is" arbitrary: t) (simp_all add: terminate_begin_inv)
  moreover have "term_inv opts (s\<lparr>ts_closing := True\<rparr>)" using assms by (simp add: term_inv_def)
  ultimately show ?thesis by (simp add: term_close_def)
qed

lemma session_write_inv [inv_intros]:
  "term_inv opts s \<Longrightarrow> term_inv opts (fst (session_write opts i data s))"
  by (auto simp: session_write_def term_inv_emit split: option.splits)

lemma session_resize_inv [inv_intros]:
  assumes "term_inv opts s"
  shows "term_inv opts (fst (session_resize i cols rows s))"
proof -
  have "term_inv opts (put_session i (\<lambda>r. r\<lparr>s_cols := cols, s_rows := rows\<rparr>)
      (emit [PtyResize i cols rows] s))"
    using assms by (auto intro!: term_inv_put term_inv_emit simp: session_ok_def)
  with assms show ?thesis
    by (auto simp: session_resize_def Let_def split: option.splits)
qed

text \<open>The supervisor's registry keeps the contract of \<open>capacity_registry\<close>.\<close>

interpretation term_registry: capacity_registry ts_records ts_pendingStarts s_id is_running
  "\<lambda>mx. term_reserveCapacity (opts\<lparr>to_maxSessions := mx\<rparr>)" open_failed
  "\<lambda>r s. s\<lparr>ts_pendingStarts := ts_pendingStarts s - 1,
            ts_records := put_key s_id r (ts_records s)\<rparr>"
  for opts :: term_options
proof (unfold_locales, goal_cases)
  case (1 s mx s')
  then show ?case
    by (auto simp: term_reserveCapacity_def split: prod.splits dest!: evict_until_spec)
next
  case (2 s mx s')
  then show ?case
    by (auto simp: term_reserveCapacity_def split: prod.splits dest!: evict_until_spec)
next
  case (3 s mx s' ok)
  then show ?case
    by (auto simp: term_reserveCapacity_def split: prod.splits dest!: evict_until_spec)
qed (simp_all add: open_failed_def put_key_fresh)

lemma term_reserve_facts:
  assumes "term_inv opts s" "term_reserveCapacity opts s = (s', ok)"
  shows "term_inv opts s'" "ts_closing s' = ts_closing s" "ts_log s' = ts_log s"
proof -
  have opts: "opts\<lparr>to_maxSessions := to_maxSessions opts\<rparr> = opts" by simp
  have d: "distinct (map s_id (ts_records s))" using assms(1) by (simp add: term_inv_def)
  have "distinct (map s_id (ts_records s'))
      \<and> int (length (ts_records s')) + ts_pendingStarts s' \<le> max 0 (to_maxSessions opts)
      \<and> 0 \<le> ts_pendingStarts s'"
    by (rule term_registry.reserve_bound [where s = s and mx = "to_maxSessions opts"
          and opts = opts and ok = ok])
      (use assms in \<open>simp_all add: term_inv_def opts\<close>)
  moreover have "set (ts_records s') \<subseteq> set (ts_records s)"
    using term_registry.reserve_recs [OF d, where opts = opts and mx = "to_maxSessions opts"
        and s' = s' and ok = ok] assms(2)
    by (simp add: opts)
  ultimately show "term_inv opts s'" using assms(1) by (auto simp: term_inv_def)
  show "ts_closing s' = ts_closing s" "ts_log s' = ts_log s"
    using assms(2) by (auto simp: term_reserveCapacity_def split: prod.splits)
qed

lemma open_begin_inv [inv_intros]:
  "term_inv opts s \<Longrightarrow> term_inv opts (fst (open_begin opts s))"
  using term_reserve_facts(1)
  by (auto simp: open_begin_def split: prod.splits bool.splits)

lemma open_failed_inv [inv_intros]:
  "term_inv opts s \<Longrightarrow> 0 < ts_pendingStarts s \<Longrightarrow> term_inv opts (open_failed s)"
  using term_registry.give_up_bound by (simp add: term_inv_def open_failed_def)

lemma newUniqueSessionId_fresh:
  "newUniqueSessionId ids s = Some i \<Longrightarrow> i \<notin> s_id ` set (ts_records s)"
  by (auto simp: newUniqueSessionId_def find_Some_iff find_key_None_iff)

text \<open>The three outcomes of a spawn that succeeded.\<close>

lemma open_spawned_cases:
  fixes s0 :: term_sup
  defines "s \<equiv> s0\<lparr>ts_pendingStarts := ts_pendingStarts s0 - 1\<rparr>"
  shows "(newUniqueSessionId ids s = None
      \<and> open_spawned opts cwd cols rows pid now ids s0 = (s, Inl NoUniqueId))
    \<or> (to_maxOutputBytes opts \<le> 0
      \<and> open_spawned opts cwd cols rows pid now ids s0 = (s, Inl OutputRange))
    \<or> (\<exists>r. s_id r \<notin> s_id ` set (ts_records s0) \<and> is_running r \<and> s_pid r = pid \<and> s_cwd r = cwd
      \<and> \<not> s_terminationRequested r \<and> session_ok r
      \<and> open_spawned opts cwd cols rows pid now ids s0
        = (emit (mirrored opts (MirrorStart (s_id r) cwd))
             (s\<lparr>ts_records := ts_records s0 @ [r]\<rparr>), Inr (session_summary r)))"
proof (cases "newUniqueSessionId ids s")
  case None
  then show ?thesis by (simp add: open_spawned_def s_def)
next
  case (Some i)
  show ?thesis
  proof (cases "new_output_buffer (to_maxOutputBytes opts)")
    case (Inl e)
    then have "to_maxOutputBytes opts \<le> 0" by (auto simp: new_output_buffer_def split: if_splits)
    with Inl Some show ?thesis by (simp add: open_spawned_def s_def)
  next
    case (Inr out)
    let ?r = "\<lparr>s_id = i, s_cwd = cwd, s_state = SRunning, s_cols = cols, s_rows = rows,
        s_startedAtMs = now, s_exitedAt = None, s_exitCode = None, s_signal = None, s_pid = pid,
        s_output = out, s_terminationRequested = False, s_termination = NotRequested\<rparr>"
    have fresh: "i \<notin> s_id ` set (ts_records s0)"
      using newUniqueSessionId_fresh [OF Some] by (simp add: s_def)
    have "session_ok ?r"
      using new_output_buffer_rep [OF Inr] by (auto simp: session_ok_def)
    moreover have "put_key s_id ?r (ts_records s0) = ts_records s0 @ [?r]"
      using fresh by (intro put_key_fresh) simp
    ultimately have "open_spawned opts cwd cols rows pid now ids s0
        = (emit (mirrored opts (MirrorStart (s_id ?r) cwd))
             (s\<lparr>ts_records := ts_records s0 @ [?r]\<rparr>), Inr (session_summary ?r))"
      using Some Inr by (simp add: open_spawned_def s_def Let_def)
    with fresh \<open>session_ok ?r\<close> show ?thesis
      by (intro disjI2 exI [of _ ?r]) simp
  qed
qed

lemma open_spawned_inv [inv_intros]:
  assumes "term_inv opts s" "0 < ts_pendingStarts s"
  shows "term_inv opts (fst (open_spawned opts cwd cols rows pid now ids s))"
proof -
  have "term_inv opts (s\<lparr>ts_pendingStarts := ts_pendingStarts s - 1\<rparr>)"
    using open_failed_inv [OF assms] by (simp add: open_failed_def)
  moreover have "term_inv opts (emit es (s\<lparr>ts_pendingStarts := ts_pendingStarts s - 1,
      ts_records := ts_records s @ [r]\<rparr>))"
    if "s_id r \<notin> s_id ` set (ts_records s)" "session_ok r" for es r
    using assms that by (simp add: term_inv_def)
  ultimately show ?thesis
    using open_spawned_cases [of ids s opts cwd cols rows pid now] by auto
qed

lemma session_stop_inv [inv_intros]:
  "term_inv opts s \<Longrightarrow> term_inv opts (session_stop opts i outcome now s)"
  by (simp add: session_stop_def terminate_begin_inv split: option.splits)

lemma term_step_inv:
  assumes "term_step opts s t" "term_inv opts s"
  shows "term_inv opts t"
  using assms
  by (cases rule: term_step.cases)
    (simp_all add: open_begin_inv open_failed_inv open_spawned_inv on_data_inv on_exit_inv
      session_write_inv session_resize_inv session_stop_inv grace_expired_inv term_close_inv)

lemma term_reachable_inv: "term_reachable opts s \<Longrightarrow> term_inv opts s"
proof (induction rule: term_reachable.induct)
  case tr_init
  show ?case by (simp add: term_inv_def term_sup_new_def)
next
  case (tr_step s t)
  then show ?case by (blast intro: term_step_inv)
qed

section \<open>Properties\<close>

definition demo_opts :: term_options where
  "demo_opts = \<lparr>to_maxSessions = 1, to_maxOutputBytes = 16, to_maxInputBytes = 4,
     to_win32 = False, to_mirror = True\<rparr>"

definition demo_open :: "term_sup" where
  "demo_open = fst (open_spawned demo_opts ''/w'' 80 24 77 5 (\<lambda>_. ''a'')
     (fst (open_begin demo_opts term_sup_new)))"

definition demo_exit :: "term_sup" where
  "demo_exit = on_exit demo_opts ''a'' 0 None 9 demo_open"

lemmas demo_defs = demo_opts_def demo_open_def demo_exit_def term_sup_new_def open_begin_def
  term_reserveCapacity_def open_spawned_def newUniqueSessionId_def new_output_buffer_def
  on_exit_def Let_def emit_def mirrored_def put_session_def session_summary_def find_key_def
  upd_key_def upt_rec evict_until.simps

lemma demo_open_reachable: "term_reachable demo_opts demo_open"
proof -
  have 1: "term_reachable demo_opts (fst (open_begin demo_opts term_sup_new))"
    by (rule tr_step [OF tr_init st_open])
  have "0 < ts_pendingStarts (fst (open_begin demo_opts term_sup_new))"
    by (simp add: demo_defs)
  then show ?thesis unfolding demo_open_def by (intro tr_step [OF 1 st_open_spawned])
qed

lemma demo_exit_reachable: "term_reachable demo_opts demo_exit"
  unfolding demo_exit_def by (rule tr_step [OF demo_open_reachable st_exit])

text \<open>
  C26: In every reachable state of the terminal supervisor, whatever the order of opens, exits,
  stops, timeouts and close, session ids are distinct, records and starts in flight together
  stay within \<open>maxSessions\<close>, and every record is consistent: exit data exactly when not
  running, \<open>stopped\<close> only after a requested termination, and output memory within its bound.
\<close>

theorem terminal_sessions_invariant:
  assumes "term_reachable opts s"
  shows "distinct (map s_id (ts_records s))
    \<and> int (length (ts_records s)) + ts_pendingStarts s \<le> max 0 (to_maxSessions opts)
    \<and> 0 \<le> ts_pendingStarts s
    \<and> (\<forall>r \<in> set (ts_records s). (is_running r \<longleftrightarrow> s_exitedAt r = None)
        \<and> (is_running r \<longleftrightarrow> s_exitCode r = None) \<and> (is_running r \<longleftrightarrow> s_signal r = None)
        \<and> (s_state r = SStopped \<longrightarrow> s_terminationRequested r)
        \<and> ob_retainedBytes (s_output r) \<le> ob_maxBytes (s_output r))"
  using term_reachable_inv [OF assms] by (auto simp: term_inv_def session_ok_def ob_rep_def)

theorem terminal_sessions_invariant_witness:
  "ts_records demo_exit \<noteq> [] \<and> distinct (map s_id (ts_records demo_exit))"
proof
  show "ts_records demo_exit \<noteq> []" by (simp add: demo_defs)
  show "distinct (map s_id (ts_records demo_exit))"
    using terminal_sessions_invariant [OF demo_exit_reachable] by blast
qed

text \<open>
  Opening a session, every branch up to the spawn. A closing supervisor refuses. Below the
  limit nothing is evicted. At the limit the completed session with the earliest start goes and
  nothing else; if all are running, the open is refused and the registry is as before.
\<close>

theorem terminal_open_capacity:
  assumes reach: "term_reachable opts s" and pos: "0 < to_maxSessions opts"
  shows "open_begin opts s =
    (if ts_closing s then (s, Inl Closing)
     else if int (length (ts_records s)) + ts_pendingStarts s < to_maxSessions opts
     then (s\<lparr>ts_pendingStarts := ts_pendingStarts s + 1\<rparr>, Inr ())
     else (case oldest_completed is_running s_startedAtMs (ts_records s) of
             None \<Rightarrow> (s, Inl RegistryFull)
           | Some c \<Rightarrow> (s\<lparr>ts_records := del_key s_id (s_id c) (ts_records s),
                          ts_pendingStarts := ts_pendingStarts s + 1\<rparr>, Inr ())))"
proof -
  let ?n = "int (length (ts_records s)) + ts_pendingStarts s"
  have inv: "term_inv opts s" by (rule term_reachable_inv [OF reach])
  then have d: "distinct (map s_id (ts_records s))" and n: "?n \<le> to_maxSessions opts"
    using pos by (auto simp: term_inv_def)
  show ?thesis
  proof (cases "?n < to_maxSessions opts")
    case True
    then show ?thesis
      by (simp add: open_begin_def term_reserveCapacity_def evict_until.simps)
  next
    case False
    with n have eq: "?n = to_maxSessions opts" by simp
    show ?thesis
    proof (cases "oldest_completed is_running s_startedAtMs (ts_records s)")
      case None
      with eq show ?thesis
        by (simp add: open_begin_def term_reserveCapacity_def evict_until.simps)
    next
      case (Some c)
      note c = oldest_completed_SomeD [OF Some]
      have "int (length (del_key s_id (s_id c) (ts_records s))) + 1 = int (length (ts_records s))"
        using length_del_key [OF d c(1)] c(1) by (cases "ts_records s") auto
      with eq Some show ?thesis
        by (simp add: open_begin_def term_reserveCapacity_def
            evict_until.simps [of _ _ _ _ _ "ts_records s"]
            evict_until.simps [of _ _ _ _ _ "del_key s_id (s_id c) (ts_records s)"])
    qed
  qed
qed

theorem terminal_open_capacity_witness:
  "open_begin demo_opts demo_exit
    = (demo_exit\<lparr>ts_records := [], ts_pendingStarts := 1\<rparr>, Inr ())"
  using terminal_open_capacity [OF demo_exit_reachable]
  by (simp add: demo_defs oldest_completed_def del_key_def)

section \<open>Completed sessions are final\<close>

definition final_data :: "session \<Rightarrow> session_state \<times> int option \<times> int option option \<times> int option option" where
  "final_data r = (s_state r, s_exitedAt r, s_exitCode r, s_signal r)"

definition keeps_final :: "term_sup \<Rightarrow> term_sup \<Rightarrow> bool" where
  "keeps_final s t \<longleftrightarrow> (\<forall>i r. get_session i s = Some r \<longrightarrow> \<not> is_running r \<longrightarrow>
     (\<exists>r'. get_session i t = Some r' \<and> final_data r' = final_data r))"

lemma get_put_session:
  assumes "\<And>r. s_id (f r) = s_id r"
  shows "get_session j (put_session i f s) =
    (if j = i then map_option f (get_session j s) else get_session j s)"
  unfolding put_session_def using assms by (simp add: find_key_upd)

lemma final_data_running: "final_data r' = final_data r \<Longrightarrow> is_running r' = is_running r"
  by (simp add: final_data_def)

lemma keeps_final_refl [simp]: "keeps_final s s"
  by (auto simp: keeps_final_def)

lemma keeps_final_trans: "keeps_final s t \<Longrightarrow> keeps_final t u \<Longrightarrow> keeps_final s u"
  unfolding keeps_final_def by (metis final_data_running)

lemma keeps_final_records: "ts_records t = ts_records s \<Longrightarrow> keeps_final s t"
  by (simp add: keeps_final_def)

lemma keeps_final_put:
  assumes "\<And>r. s_id (f r) = s_id r" "\<And>r. final_data (f r) = final_data r"
  shows "keeps_final s (put_session i f s)"
  unfolding keeps_final_def get_put_session [of f, OF assms(1)] using assms(2) by auto

lemma keeps_final_put_running:
  assumes "\<And>r. s_id (f r) = s_id r" "get_session i s = Some r" "is_running r"
  shows "keeps_final s (put_session i f s)"
  unfolding keeps_final_def get_put_session [of f, OF assms(1)] using assms(2,3) by auto

lemma keeps_final_emit: "keeps_final s t \<Longrightarrow> keeps_final s (emit es t)"
  by (simp add: keeps_final_def)

lemma keeps_final_finish: "keeps_final s (finish_already_gone opts i now s)"
  by (auto simp: finish_already_gone_def intro!: keeps_final_emit keeps_final_put_running
      split: option.splits)

lemma keeps_final_send: "send_signal opts r sig outcome s = (s', res) \<Longrightarrow> keeps_final s s'"
  by (rule keeps_final_records) (rule send_signal_frame(1))

lemma keeps_final_phase: "keeps_final s (put_session i (\<lambda>r. r\<lparr>s_termination := ph\<rparr>) s)"
  by (rule keeps_final_put) (simp_all add: final_data_def)

lemma keeps_final_terminate: "keeps_final s (terminate_begin opts i outcome now s)"
proof (cases "get_session i s")
  case None
  then show ?thesis by (simp add: terminate_begin_def)
next
  case (Some r)
  let ?s1 = "put_session i (\<lambda>r. r\<lparr>s_terminationRequested := True\<rparr>) s"
  obtain s2 res where send: "send_signal opts r SIGTERM outcome ?s1 = (s2, res)"
    by (cases "send_signal opts r SIGTERM outcome ?s1") auto
  have "keeps_final s ?s1" by (rule keeps_final_put) (simp_all add: final_data_def)
  then have 2: "keeps_final s s2" using keeps_final_send [OF send] keeps_final_trans by blast
  then have "keeps_final s (finish_already_gone opts i now s2)"
    using keeps_final_finish keeps_final_trans by blast
  with 2 Some send show ?thesis
    by (auto simp: terminate_begin_def split: signal_result.splits
        intro: keeps_final_trans keeps_final_phase)
qed

lemma keeps_final_grace: "keeps_final s (grace_expired opts i outcome now s)"
proof (cases "get_session i s")
  case None
  then show ?thesis by (simp add: grace_expired_def)
next
  case (Some r)
  obtain s2 res where send: "send_signal opts r SIGKILL outcome s = (s2, res)"
    by (cases "send_signal opts r SIGKILL outcome s") auto
  then have 2: "keeps_final s s2" by (rule keeps_final_send)
  then have "keeps_final s (finish_already_gone opts i now s2)"
    using keeps_final_finish keeps_final_trans by blast
  with 2 Some send show ?thesis
    by (auto simp: grace_expired_def keeps_final_phase split: signal_result.splits
        intro: keeps_final_trans keeps_final_phase)
qed

lemma keeps_final_close: "keeps_final s (term_close opts outcomes now s)"
proof -
  have "keeps_final t (fold (\<lambda>i. terminate_begin opts i (outcomes i) now) is t)" for "is" t
    by (induction "is" arbitrary: t) (auto intro: keeps_final_trans keeps_final_terminate)
  moreover have "keeps_final s (s\<lparr>ts_closing := True\<rparr>)" by (rule keeps_final_records) simp
  ultimately show ?thesis unfolding term_close_def by (blast intro: keeps_final_trans)
qed

lemma keeps_final_simple_ops:
  "keeps_final s (on_data opts i data s)"
  "keeps_final s (on_exit opts i code signal now s)"
  "keeps_final s (fst (session_write opts i data s))"
  "keeps_final s (fst (session_resize i cols rows s))"
  "keeps_final s (session_stop opts i outcome now s)"
  "keeps_final s (open_failed s)"
proof -
  show "keeps_final s (on_data opts i data s)"
    unfolding on_data_def by (intro keeps_final_emit keeps_final_put) (simp_all add: final_data_def)
  show "keeps_final s (on_exit opts i code signal now s)"
    by (auto simp: on_exit_def Let_def intro!: keeps_final_emit keeps_final_put_running
        split: option.splits)
  show "keeps_final s (fst (session_write opts i data s))"
    by (auto simp: session_write_def intro: keeps_final_emit split: option.splits)
  show "keeps_final s (fst (session_resize i cols rows s))"
  proof -
    have *: "keeps_final s (put_session i (\<lambda>r. r\<lparr>s_cols := cols, s_rows := rows\<rparr>) (emit es s))"
      for es
    proof (rule keeps_final_trans)
      show "keeps_final s (emit es s)" by (rule keeps_final_emit) (rule keeps_final_refl)
      show "keeps_final (emit es s)
        (put_session i (\<lambda>r. r\<lparr>s_cols := cols, s_rows := rows\<rparr>) (emit es s))"
        by (rule keeps_final_put) (simp_all add: final_data_def)
    qed
    show ?thesis
      by (auto simp: session_resize_def Let_def * split: option.splits)
  qed
  show "keeps_final s (session_stop opts i outcome now s)"
    by (simp add: session_stop_def keeps_final_terminate split: option.splits)
  show "keeps_final s (open_failed s)" by (rule keeps_final_records) (simp add: open_failed_def)
qed

lemma find_key_append_fresh:
  "find_key key k rs = Some r \<Longrightarrow> find_key key k (rs @ xs) = Some r"
  by (induction rs) (auto simp: find_key_def)

lemma keeps_final_spawned: "keeps_final s (fst (open_spawned opts cwd cols rows pid now ids s))"
  using open_spawned_cases [of ids s opts cwd cols rows pid now]
  by (auto simp: keeps_final_def find_key_append_fresh)

lemma open_begin_evicts:
  assumes "term_inv opts s" "get_session i s = Some r"
  shows "get_session i (fst (open_begin opts s)) = None
    \<or> get_session i (fst (open_begin opts s)) = Some r"
proof -
  obtain s' ok where res: "term_reserveCapacity opts s = (s', ok)"
    by (cases "term_reserveCapacity opts s") auto
  have d: "distinct (map s_id (ts_records s))" using assms(1) by (simp add: term_inv_def)
  have "opts\<lparr>to_maxSessions := to_maxSessions opts\<rparr> = opts" by simp
  with res term_registry.reserve_recs [OF d, where opts = opts and mx = "to_maxSessions opts"
      and s' = s' and ok = ok]
  have sub: "set (ts_records s') \<subseteq> set (ts_records s)" by simp
  have "get_session i s' = None \<or> get_session i s' = Some r"
  proof (cases "get_session i s'")
    case (Some r')
    then have "r' \<in> set (ts_records s')" "s_id r' = i" by (auto dest: find_key_SomeD)
    with sub have "r' \<in> set (ts_records s)" "s_id r' = i" by auto
    then have "get_session i s = Some r'" using d find_key_distinct by fastforce
    with assms(2) Some show ?thesis by simp
  qed simp
  with assms(2) res show ?thesis by (cases ok) (simp_all add: open_begin_def)
qed

text \<open>
  A session that has left the running state is final: no step of any kind changes its state,
  exit time, exit code or signal; the only thing that can happen to its record is eviction.
\<close>

theorem terminal_session_final:
  assumes "term_reachable opts s" "term_step opts s t"
    "get_session i s = Some r" "\<not> is_running r"
  shows "get_session i t = None \<or> (\<exists>r'. get_session i t = Some r' \<and> s_state r' = s_state r
    \<and> s_exitedAt r' = s_exitedAt r \<and> s_exitCode r' = s_exitCode r \<and> s_signal r' = s_signal r)"
proof -
  have inv: "term_inv opts s" by (rule term_reachable_inv [OF assms(1)])
  from assms(2) have "keeps_final s t \<or> t = fst (open_begin opts s)"
    by (cases rule: term_step.cases)
      (auto simp: keeps_final_simple_ops keeps_final_spawned keeps_final_grace keeps_final_close)
  then show ?thesis
    using assms(3,4) open_begin_evicts [OF inv assms(3)]
    by (auto simp: keeps_final_def final_data_def)
qed

theorem terminal_session_final_witness:
  "get_session ''a'' (on_exit demo_opts ''a'' 1 None 10 demo_exit) = None
    \<or> (\<exists>r'. get_session ''a'' (on_exit demo_opts ''a'' 1 None 10 demo_exit) = Some r'
      \<and> s_state r' = SExited \<and> s_exitedAt r' = Some 9 \<and> s_exitCode r' = Some (Some 0)
      \<and> s_signal r' = Some None)"
proof -
  obtain r where r: "get_session ''a'' demo_exit = Some r" "s_state r = SExited"
    "s_exitedAt r = Some 9" "s_exitCode r = Some (Some 0)" "s_signal r = Some None"
    by (simp add: demo_defs)
  from terminal_session_final [OF demo_exit_reachable st_exit r(1),
      of "''a''" 1 None 10] r
  show ?thesis by simp
qed

end
