(* ===== verification/Path_Lock.thy ===== *)
theory Path_Lock
  imports Prelude "HOL-Library.List_Lexorder" "HOL-Library.Char_ord"
begin

text \<open>
  \<open>src/src/core/path-lock.ts\<close>: the per-path locks of the file tools. A lock is a chain of
  promises: \<open>queues\<close> maps a path to the last promise of its chain, a new operation runs when
  the promise before it has settled (well or not), and the entry is dropped when its last
  promise settles. \<open>withPathLocks\<close> takes the locks of several paths one inside the other, in
  sorted order.

  A promise of a chain is a ticket. Every call of \<open>withCanonicalLock\<close> makes one
  (\<open>lock_enqueue\<close>), its operation starts when the ticket before it is settled (\<open>lock_grant\<close>),
  and settles it at the end (\<open>lock_release\<close>). Shown for every interleaving of any number of
  operations: two operations that share a path never run together, and sorted acquisition
  never deadlocks.
\<close>

section \<open>The lock table\<close>

record ticket =
  tk_key :: path
  tk_previous :: "nat option"
  tk_settled :: bool

record lock_op =
  lo_keys :: "path list"
  lo_held :: "nat list"
  lo_waiting :: "nat option"
  lo_releasing :: bool

record lock_table =
  lt_queues :: "path \<Rightarrow> nat option"
  lt_tickets :: "ticket list"
  lt_ops :: "lock_op list"

definition lock_table_new :: lock_table where
  "lock_table_new = \<lparr>lt_queues = (\<lambda>k. None), lt_tickets = [], lt_ops = []\<rparr>"

text \<open>\<open>[...new Set(canonical)].sort()\<close>\<close>

definition lock_keys :: "path list \<Rightarrow> path list" where
  "lock_keys canonical = sort (remdups canonical)"

definition lock_begin :: "path list \<Rightarrow> lock_table \<Rightarrow> lock_table" where
  "lock_begin targets t = t\<lparr>lt_ops := lt_ops t @
     [\<lparr>lo_keys = lock_keys targets, lo_held = [], lo_waiting = None, lo_releasing = False\<rparr>]\<rparr>"

definition put_op :: "nat \<Rightarrow> lock_op \<Rightarrow> lock_table \<Rightarrow> lock_table" where
  "put_op i x t = t\<lparr>lt_ops := (lt_ops t)[i := x]\<rparr>"

text \<open>\<open>acquire(index)\<close> below the last key calls \<open>withCanonicalLock(keys[index])\<close>.\<close>

definition lock_enqueue :: "nat \<Rightarrow> lock_table \<Rightarrow> lock_table" where
  "lock_enqueue i t =
     (let x = lt_ops t ! i; key = lo_keys x ! length (lo_held x); run = length (lt_tickets t)
      in put_op i (x\<lparr>lo_waiting := Some run\<rparr>)
           (t\<lparr>lt_tickets := lt_tickets t @
                [\<lparr>tk_key = key, tk_previous = lt_queues t key, tk_settled = False\<rparr>],
              lt_queues := (lt_queues t)(key := Some run)\<rparr>))"

definition ticket_ready :: "lock_table \<Rightarrow> nat \<Rightarrow> bool" where
  "ticket_ready t n =
     (case tk_previous (lt_tickets t ! n) of None \<Rightarrow> True | Some p \<Rightarrow> tk_settled (lt_tickets t ! p))"

definition lock_grant :: "nat \<Rightarrow> lock_table \<Rightarrow> lock_table" where
  "lock_grant i t =
     (let x = lt_ops t ! i
      in put_op i (x\<lparr>lo_held := lo_held x @ [the (lo_waiting x)], lo_waiting := None\<rparr>) t)"

definition lock_finish :: "nat \<Rightarrow> lock_table \<Rightarrow> lock_table" where
  "lock_finish i t = put_op i ((lt_ops t ! i)\<lparr>lo_releasing := True\<rparr>) t"

text \<open>The innermost lock settles; its entry goes if no later call has replaced it.\<close>

definition lock_release :: "nat \<Rightarrow> lock_table \<Rightarrow> lock_table" where
  "lock_release i t =
     (let x = lt_ops t ! i; n = last (lo_held x); k = lt_tickets t ! n
      in put_op i (x\<lparr>lo_held := butlast (lo_held x)\<rparr>)
           (t\<lparr>lt_tickets := (lt_tickets t)[n := k\<lparr>tk_settled := True\<rparr>],
              lt_queues := (if lt_queues t (tk_key k) = Some n then (lt_queues t)(tk_key k := None)
                            else lt_queues t)\<rparr>))"

definition op_working :: "lock_op \<Rightarrow> bool" where
  "op_working x \<longleftrightarrow> \<not> lo_releasing x \<and> lo_waiting x = None \<and> length (lo_held x) = length (lo_keys x)"

definition op_done :: "lock_op \<Rightarrow> bool" where
  "op_done x \<longleftrightarrow> lo_releasing x \<and> lo_held x = []"

text \<open>The steps of the operations that are under way.\<close>

inductive lock_run :: "lock_table \<Rightarrow> lock_table \<Rightarrow> bool" where
  lr_enqueue: "i < length (lt_ops t) \<Longrightarrow> x = lt_ops t ! i \<Longrightarrow> \<not> lo_releasing x \<Longrightarrow>
    lo_waiting x = None \<Longrightarrow> length (lo_held x) < length (lo_keys x) \<Longrightarrow> lock_run t (lock_enqueue i t)"
| lr_grant: "i < length (lt_ops t) \<Longrightarrow> lo_waiting (lt_ops t ! i) = Some n \<Longrightarrow> ticket_ready t n \<Longrightarrow>
    lock_run t (lock_grant i t)"
| lr_finish: "i < length (lt_ops t) \<Longrightarrow> op_working (lt_ops t ! i) \<Longrightarrow> lock_run t (lock_finish i t)"
| lr_release: "i < length (lt_ops t) \<Longrightarrow> lo_releasing (lt_ops t ! i) \<Longrightarrow> lo_held (lt_ops t ! i) \<noteq> [] \<Longrightarrow>
    lock_run t (lock_release i t)"

inductive lock_reachable :: "lock_table \<Rightarrow> bool" where
  lk_new: "lock_reachable lock_table_new"
| lk_begin: "lock_reachable t \<Longrightarrow> lock_reachable (lock_begin targets t)"
| lk_run: "lock_reachable t \<Longrightarrow> lock_run t u \<Longrightarrow> lock_reachable u"

section \<open>The invariant\<close>

abbreviation keyof :: "lock_table \<Rightarrow> nat \<Rightarrow> path" where
  "keyof t n \<equiv> tk_key (lt_tickets t ! n)"

abbreviation settled :: "lock_table \<Rightarrow> nat \<Rightarrow> bool" where
  "settled t n \<equiv> tk_settled (lt_tickets t ! n)"

text \<open>The chain of every key: its last entry is the latest ticket, and tickets link to their predecessor.\<close>

definition chain_ok :: "lock_table \<Rightarrow> bool" where
  "chain_ok t \<longleftrightarrow>
     (\<forall>k. case lt_queues t k of
        None \<Rightarrow> \<forall>m < length (lt_tickets t). keyof t m = k \<longrightarrow> settled t m
      | Some n \<Rightarrow> n < length (lt_tickets t) \<and> keyof t n = k \<and> \<not> settled t n
          \<and> (\<forall>m < length (lt_tickets t). keyof t m = k \<longrightarrow> m \<le> n)) \<and>
     (\<forall>n < length (lt_tickets t). case tk_previous (lt_tickets t ! n) of
        None \<Rightarrow> \<forall>m < n. keyof t m = keyof t n \<longrightarrow> settled t m
      | Some p \<Rightarrow> p < n \<and> keyof t p = keyof t n \<and> (\<forall>m < n. keyof t m = keyof t n \<longrightarrow> m \<le> p)) \<and>
     (\<forall>n < length (lt_tickets t). settled t n \<longrightarrow> (\<forall>m < n. keyof t m = keyof t n \<longrightarrow> settled t m))"

text \<open>
  Every operation holds the tickets of the first keys of its sorted list and waits for the next;
  what it holds is running, so every earlier ticket of that key is settled.
\<close>

definition op_ok :: "lock_table \<Rightarrow> lock_op \<Rightarrow> bool" where
  "op_ok t x \<longleftrightarrow> sorted_wrt (<) (lo_keys x) \<and> length (lo_held x) \<le> length (lo_keys x)
     \<and> (\<forall>j < length (lo_held x). lo_held x ! j < length (lt_tickets t)
          \<and> keyof t (lo_held x ! j) = lo_keys x ! j \<and> \<not> settled t (lo_held x ! j)
          \<and> (\<forall>m < lo_held x ! j. keyof t m = lo_keys x ! j \<longrightarrow> settled t m))
     \<and> (\<forall>n. lo_waiting x = Some n \<longrightarrow> \<not> lo_releasing x \<and> length (lo_held x) < length (lo_keys x)
          \<and> n < length (lt_tickets t) \<and> keyof t n = lo_keys x ! length (lo_held x) \<and> \<not> settled t n)"

definition owned :: "lock_op \<Rightarrow> nat set" where
  "owned x = set (lo_held x) \<union> set_option (lo_waiting x)"

definition lock_inv :: "lock_table \<Rightarrow> bool" where
  "lock_inv t \<longleftrightarrow> chain_ok t \<and> (\<forall>x \<in> set (lt_ops t). op_ok t x)
     \<and> (\<forall>n < length (lt_tickets t). \<not> settled t n \<longrightarrow> (\<exists>x \<in> set (lt_ops t). n \<in> owned x))
     \<and> (\<forall>i < length (lt_ops t). \<forall>j < length (lt_ops t). i \<noteq> j \<longrightarrow>
          owned (lt_ops t ! i) \<inter> owned (lt_ops t ! j) = {})"

text \<open>A table with the same old tickets, settled at least as far, keeps the operations that own none of the new settlements.\<close>

lemma op_ok_mono:
  assumes "op_ok t x" "length (lt_tickets t) \<le> length (lt_tickets u)"
    "\<And>m. m < length (lt_tickets t) \<Longrightarrow> keyof u m = keyof t m"
    "\<And>m. m < length (lt_tickets t) \<Longrightarrow> settled t m \<Longrightarrow> settled u m"
    "\<And>m. m \<in> owned x \<Longrightarrow> m < length (lt_tickets t) \<Longrightarrow> \<not> settled t m \<Longrightarrow> \<not> settled u m"
  shows "op_ok u x"
proof -
  have held: "lo_held x ! j < length (lt_tickets u) \<and> keyof u (lo_held x ! j) = lo_keys x ! j
      \<and> \<not> settled u (lo_held x ! j) \<and> (\<forall>m < lo_held x ! j. keyof u m = lo_keys x ! j \<longrightarrow> settled u m)"
    if j: "j < length (lo_held x)" for j
  proof -
    have o: "lo_held x ! j \<in> owned x" using j by (simp add: owned_def)
    have h: "lo_held x ! j < length (lt_tickets t)" "keyof t (lo_held x ! j) = lo_keys x ! j"
      "\<not> settled t (lo_held x ! j)"
      "\<And>m. m < lo_held x ! j \<Longrightarrow> keyof t m = lo_keys x ! j \<Longrightarrow> settled t m"
      using assms(1) j unfolding op_ok_def by blast+
    have "settled u m" if "m < lo_held x ! j" "keyof u m = lo_keys x ! j" for m
      using h(1,4) that assms(3,4) by simp
    then show ?thesis using h assms(2,3) assms(5) [OF o h(1,3)] by simp
  qed
  have wait: "\<not> lo_releasing x \<and> length (lo_held x) < length (lo_keys x) \<and> n < length (lt_tickets u)
      \<and> keyof u n = lo_keys x ! length (lo_held x) \<and> \<not> settled u n" if n: "lo_waiting x = Some n" for n
  proof -
    have o: "n \<in> owned x" using n by (simp add: owned_def)
    have h: "\<not> lo_releasing x" "length (lo_held x) < length (lo_keys x)" "n < length (lt_tickets t)"
      "keyof t n = lo_keys x ! length (lo_held x)" "\<not> settled t n"
      using assms(1) n unfolding op_ok_def by blast+
    then show ?thesis using assms(2,3) assms(5) [OF o h(3,5)] by simp
  qed
  show ?thesis using assms(1) held wait unfolding op_ok_def by blast
qed

lemma lock_inv_ops:
  assumes "lock_inv t" "i < length (lt_ops t)"
  shows "op_ok t (lt_ops t ! i)"
  using assms by (simp add: lock_inv_def)

lemma lock_inv_chain: "lock_inv t \<Longrightarrow> chain_ok t"
  by (simp add: lock_inv_def)

text \<open>How the ownership part follows when one operation changes.\<close>

lemma lock_inv_update:
  assumes "lock_inv t" "i < length (lt_ops t)" "lt_ops u = (lt_ops t)[i := y]" "chain_ok u" "op_ok u y"
    "\<And>j. j < length (lt_ops t) \<Longrightarrow> j \<noteq> i \<Longrightarrow> op_ok u (lt_ops t ! j)"
    "\<And>n. n < length (lt_tickets u) \<Longrightarrow> \<not> settled u n \<Longrightarrow>
      n \<in> owned y \<or> (n < length (lt_tickets t) \<and> \<not> settled t n \<and> n \<notin> owned (lt_ops t ! i))"
    "\<And>n. n \<in> owned y \<Longrightarrow> n \<in> owned (lt_ops t ! i) \<or> length (lt_tickets t) \<le> n"
  shows "lock_inv u"
proof -
  have le: "n < length (lt_tickets t)" if "n \<in> owned (lt_ops t ! j)" "j < length (lt_ops t)" for n j
    using lock_inv_ops [OF assms(1) that(2)] that(1)
    by (auto simp: op_ok_def owned_def in_set_conv_nth)
  have ok: "\<forall>x \<in> set (lt_ops u). op_ok u x"
    unfolding all_set_conv_all_nth
  proof (intro allI impI)
    fix j assume "j < length (lt_ops u)"
    then show "op_ok u (lt_ops u ! j)" using assms(3,5,6) by (cases "j = i") simp_all
  qed
  have own: "\<exists>x \<in> set (lt_ops u). n \<in> owned x" if "n < length (lt_tickets u)" "\<not> settled u n" for n
  proof (cases "n \<in> owned y")
    case True
    then show ?thesis using assms(2,3) by (metis set_update_memI)
  next
    case False
    with assms(7) [OF that] have n: "n < length (lt_tickets t)" "\<not> settled t n" "n \<notin> owned (lt_ops t ! i)"
      by auto
    then obtain j where j: "j < length (lt_ops t)" "n \<in> owned (lt_ops t ! j)"
      using assms(1) unfolding lock_inv_def by (metis in_set_conv_nth)
    then have "j \<noteq> i" using n(3) by metis
    then have "lt_ops t ! j \<in> set (lt_ops u)"
      using assms(3) j(1) by (metis length_list_update nth_list_update_neq nth_mem)
    then show ?thesis using j(2) by blast
  qed
  have dis: "owned (lt_ops t ! a) \<inter> owned (lt_ops t ! b) = {}"
    if "a < length (lt_ops t)" "b < length (lt_ops t)" "a \<noteq> b" for a b
    using assms(1) that unfolding lock_inv_def by blast
  have y: "owned y \<inter> owned (lt_ops t ! j) = {}" if "j < length (lt_ops t)" "j \<noteq> i" for j
    using assms(8) dis [OF assms(2) that(1)] le [OF _ that(1)] that(2) by fastforce
  have "owned (lt_ops u ! a) \<inter> owned (lt_ops u ! b) = {}"
    if "a < length (lt_ops u)" "b < length (lt_ops u)" "a \<noteq> b" for a b
    using that assms(3) dis [of a b] y [of a] y [of b]
    by (cases "a = i"; cases "b = i") (simp_all add: Int_commute)
  then show ?thesis using assms(4) ok own unfolding lock_inv_def by blast
qed

lemma chain_ok_tickets:
  "lt_tickets u = lt_tickets t \<Longrightarrow> lt_queues u = lt_queues t \<Longrightarrow> chain_ok u = chain_ok t"
  "lt_tickets u = lt_tickets t \<Longrightarrow> op_ok u x = op_ok t x"
  by (simp_all add: chain_ok_def op_ok_def cong: option.case_cong)

lemma lock_inv_finish:
  assumes "lock_inv t" "i < length (lt_ops t)" "op_working (lt_ops t ! i)"
  shows "lock_inv (lock_finish i t)"
proof (rule lock_inv_update [OF assms(1,2)])
  have "op_ok t (lt_ops t ! i)" by (rule lock_inv_ops [OF assms(1,2)])
  then have "op_ok t ((lt_ops t ! i)\<lparr>lo_releasing := True\<rparr>)"
    using assms(3) by (simp add: op_ok_def op_working_def)
  then show "op_ok (lock_finish i t) ((lt_ops t ! i)\<lparr>lo_releasing := True\<rparr>)"
    by (simp add: lock_finish_def put_op_def op_ok_def)
  show "chain_ok (lock_finish i t)"
    using lock_inv_chain [OF assms(1)] chain_ok_tickets(1) [of "lock_finish i t" t]
    by (simp add: lock_finish_def put_op_def)
  show "op_ok (lock_finish i t) (lt_ops t ! j)" if "j < length (lt_ops t)" for j
    using lock_inv_ops [OF assms(1) that] by (simp add: lock_finish_def put_op_def op_ok_def)
  show "n \<in> owned ((lt_ops t ! i)\<lparr>lo_releasing := True\<rparr>)
      \<or> (n < length (lt_tickets t) \<and> \<not> settled t n \<and> n \<notin> owned (lt_ops t ! i))"
    if "n < length (lt_tickets (lock_finish i t))" "\<not> settled (lock_finish i t) n" for n
    using that by (auto simp: lock_finish_def put_op_def owned_def)
qed (simp_all add: lock_finish_def put_op_def owned_def)

lemma chain_settledD:
  "chain_ok t \<Longrightarrow> settled t p \<Longrightarrow> p < length (lt_tickets t) \<Longrightarrow> m < p \<Longrightarrow> keyof t m = keyof t p \<Longrightarrow>
    settled t m"
  unfolding chain_ok_def by blast

lemma chain_previousD:
  assumes "chain_ok t" "n < length (lt_tickets t)"
  shows "case tk_previous (lt_tickets t ! n) of
        None \<Rightarrow> \<forall>m < n. keyof t m = keyof t n \<longrightarrow> settled t m
      | Some p \<Rightarrow> p < n \<and> keyof t p = keyof t n \<and> (\<forall>m < n. keyof t m = keyof t n \<longrightarrow> m \<le> p)"
  using assms unfolding chain_ok_def by blast

lemma chain_queueD:
  assumes "chain_ok t"
  shows "case lt_queues t k of
        None \<Rightarrow> \<forall>m < length (lt_tickets t). keyof t m = k \<longrightarrow> settled t m
      | Some n \<Rightarrow> n < length (lt_tickets t) \<and> keyof t n = k \<and> \<not> settled t n
          \<and> (\<forall>m < length (lt_tickets t). keyof t m = k \<longrightarrow> m \<le> n)"
  using assms unfolding chain_ok_def by blast

lemma ready_earlier:
  assumes "chain_ok t" "ticket_ready t n" "n < length (lt_tickets t)" "m < n" "keyof t m = keyof t n"
  shows "settled t m"
proof (cases "tk_previous (lt_tickets t ! n)")
  case None
  with chain_previousD [OF assms(1,3)] assms(4,5) show ?thesis by simp
next
  case (Some p)
  with chain_previousD [OF assms(1,3)] assms(4,5)
  have p: "p < n" "keyof t p = keyof t n" "m \<le> p" by auto
  have s: "settled t p" using assms(2) Some by (simp add: ticket_ready_def)
  show ?thesis
  proof (cases "m = p")
    case False
    with p assms(3,5) show ?thesis by (intro chain_settledD [OF assms(1) s]) simp_all
  qed (simp add: s)
qed

lemma lock_inv_grant:
  assumes "lock_inv t" "i < length (lt_ops t)" "lo_waiting (lt_ops t ! i) = Some n" "ticket_ready t n"
  shows "lock_inv (lock_grant i t)"
proof -
  let ?x = "lt_ops t ! i" and ?u = "lock_grant i t"
  let ?y = "?x\<lparr>lo_held := lo_held ?x @ [n], lo_waiting := None\<rparr>"
  have x: "op_ok t ?x" by (rule lock_inv_ops [OF assms(1,2)])
  have tk: "lt_tickets ?u = lt_tickets t" "lt_queues ?u = lt_queues t" "lt_ops ?u = (lt_ops t)[i := ?y]"
    using assms(3) by (simp_all add: lock_grant_def put_op_def Let_def)
  have n: "n < length (lt_tickets t)" "keyof t n = lo_keys ?x ! length (lo_held ?x)" "\<not> settled t n"
    "length (lo_held ?x) < length (lo_keys ?x)"
    using x assms(3) unfolding op_ok_def by blast+
  have early: "settled t m" if "m < n" "keyof t m = lo_keys ?x ! length (lo_held ?x)" for m
    using ready_earlier [OF lock_inv_chain [OF assms(1)] assms(4) n(1) that(1)] that(2) n(2) by simp
  have "op_ok t ?y"
    using x n early unfolding op_ok_def by (auto simp: nth_append less_Suc_eq)
  then have y: "op_ok ?u ?y" using chain_ok_tickets(2) [OF tk(1)] by simp
  have own: "owned ?y = owned ?x" using assms(3) by (auto simp: owned_def)
  show ?thesis
  proof (rule lock_inv_update [OF assms(1,2) tk(3) _ y])
    show "chain_ok ?u" using chain_ok_tickets(1) [OF tk(1,2)] lock_inv_chain [OF assms(1)] by simp
    show "op_ok ?u (lt_ops t ! j)" if "j < length (lt_ops t)" for j
      using chain_ok_tickets(2) [OF tk(1)] lock_inv_ops [OF assms(1) that] by simp
  qed (use own tk(1) in auto)
qed

lemma lock_inv_enqueue:
  assumes inv: "lock_inv t" and i: "i < length (lt_ops t)" and x: "\<not> lo_releasing (lt_ops t ! i)"
    "lo_waiting (lt_ops t ! i) = None" "length (lo_held (lt_ops t ! i)) < length (lo_keys (lt_ops t ! i))"
  shows "lock_inv (lock_enqueue i t)"
proof -
  let ?x = "lt_ops t ! i" and ?u = "lock_enqueue i t" and ?N = "length (lt_tickets t)"
  let ?y = "?x\<lparr>lo_waiting := Some ?N\<rparr>" and ?k = "lo_keys ?x ! length (lo_held ?x)"
  let ?T = "\<lparr>tk_key = ?k, tk_previous = lt_queues t ?k, tk_settled = False\<rparr>"
  have u: "lt_tickets ?u = lt_tickets t @ [?T]" "lt_queues ?u = (lt_queues t)(?k := Some ?N)"
    "lt_ops ?u = (lt_ops t)[i := ?y]"
    by (simp_all add: lock_enqueue_def put_op_def Let_def)
  have old: "lt_tickets ?u ! m = lt_tickets t ! m" if "m < ?N" for m
    using that by (simp add: u(1) nth_append)
  have new: "lt_tickets ?u ! ?N = ?T" by (simp add: u(1))
  note c = lock_inv_chain [OF inv]
  have ok: "op_ok ?u (lt_ops t ! j)" if "j < length (lt_ops t)" for j
    using lock_inv_ops [OF inv that] by (rule op_ok_mono) (simp_all add: u(1) nth_append)
  show ?thesis
  proof (rule lock_inv_update [OF inv i u(3)])
    show "op_ok ?u ?y"
      using ok [OF i] x new u(1) by (simp add: op_ok_def)
    show "op_ok ?u (lt_ops t ! j)" if "j < length (lt_ops t)" for j using ok [OF that] .
    show "chain_ok ?u"
      unfolding chain_ok_def
    proof (intro conjI allI impI)
      fix k
      show "case lt_queues ?u k of
          None \<Rightarrow> \<forall>m < length (lt_tickets ?u). keyof ?u m = k \<longrightarrow> settled ?u m
        | Some n \<Rightarrow> n < length (lt_tickets ?u) \<and> keyof ?u n = k \<and> \<not> settled ?u n
            \<and> (\<forall>m < length (lt_tickets ?u). keyof ?u m = k \<longrightarrow> m \<le> n)"
      proof (cases "k = ?k")
        case True
        then show ?thesis using new by (auto simp: u)
      next
        case False
        then show ?thesis
          using chain_queueD [OF c, of k] by (auto simp: u nth_append split: option.splits)
      qed
    next
      fix n assume n: "n < length (lt_tickets ?u)"
      show "case tk_previous (lt_tickets ?u ! n) of
          None \<Rightarrow> \<forall>m < n. keyof ?u m = keyof ?u n \<longrightarrow> settled ?u m
        | Some p \<Rightarrow> p < n \<and> keyof ?u p = keyof ?u n \<and> (\<forall>m < n. keyof ?u m = keyof ?u n \<longrightarrow> m \<le> p)"
      proof (cases "n = ?N")
        case True
        then show ?thesis
          using chain_queueD [OF c, of ?k] new old by (auto split: option.splits)
      next
        case False
        with n have "n < ?N" by (simp add: u(1))
        then show ?thesis
          using chain_previousD [OF c, of n] old by (auto split: option.splits)
      qed
    next
      fix n m assume "n < length (lt_tickets ?u)" "settled ?u n" "m < n" "keyof ?u m = keyof ?u n"
      moreover from this have "n < ?N" using new u(1) by (cases "n = ?N") auto
      ultimately show "settled ?u m" using chain_settledD [OF c, of n m] old by simp
    qed
    show "n \<in> owned ?y \<or> (n < ?N \<and> \<not> settled t n \<and> n \<notin> owned ?x)"
      if "n < length (lt_tickets ?u)" "\<not> settled ?u n" for n
      using that x(2) old by (cases "n = ?N") (auto simp: owned_def u(1))
  qed (use x(2) in \<open>auto simp: owned_def\<close>)
qed

lemma lock_inv_release:
  assumes inv: "lock_inv t" and i: "i < length (lt_ops t)" and rel: "lo_releasing (lt_ops t ! i)"
    and held: "lo_held (lt_ops t ! i) \<noteq> []"
  shows "lock_inv (lock_release i t)"
proof -
  let ?x = "lt_ops t ! i" and ?u = "lock_release i t"
  let ?n = "last (lo_held ?x)" and ?y = "?x\<lparr>lo_held := butlast (lo_held ?x)\<rparr>"
  let ?j = "length (lo_held ?x) - 1"
  note c = lock_inv_chain [OF inv]
  have x: "op_ok t ?x" by (rule lock_inv_ops [OF inv i])
  have nth: "?n = lo_held ?x ! ?j" "?j < length (lo_held ?x)" using held by (simp_all add: last_conv_nth)
  have n: "?n < length (lt_tickets t)" "keyof t ?n = lo_keys ?x ! ?j" "\<not> settled t ?n"
    "\<And>m. m < ?n \<Longrightarrow> keyof t m = lo_keys ?x ! ?j \<Longrightarrow> settled t m"
    using x nth unfolding op_ok_def by metis+
  have wait: "lo_waiting ?x = None" using x rel unfolding op_ok_def by (cases "lo_waiting ?x") auto
  have u: "lt_tickets ?u = (lt_tickets t)[?n := (lt_tickets t ! ?n)\<lparr>tk_settled := True\<rparr>]"
    "lt_queues ?u = (if lt_queues t (keyof t ?n) = Some ?n then (lt_queues t)(keyof t ?n := None)
       else lt_queues t)"
    "lt_ops ?u = (lt_ops t)[i := ?y]"
    by (simp_all add: lock_release_def put_op_def Let_def)
  have len: "length (lt_tickets ?u) = length (lt_tickets t)" by (simp add: u(1))
  have key: "keyof ?u m = keyof t m" "tk_previous (lt_tickets ?u ! m) = tk_previous (lt_tickets t ! m)"
    if "m < length (lt_tickets t)" for m
    using that n(1) by (cases "m = ?n"; simp add: u(1))+
  have set: "settled ?u m \<longleftrightarrow> m = ?n \<or> settled t m" if "m < length (lt_tickets t)" for m
    using that n(1) by (cases "m = ?n") (simp_all add: u(1))
  have dist: "lo_held ?x ! a \<noteq> ?n" if "a < ?j" for a
  proof
    assume "lo_held ?x ! a = ?n"
    moreover have "keyof t (lo_held ?x ! a) = lo_keys ?x ! a" using x that unfolding op_ok_def by simp
    moreover have "lo_keys ?x ! a < lo_keys ?x ! ?j"
      using x that nth(2) unfolding op_ok_def by (intro sorted_wrt_nth_less [of "(<)"]) auto
    ultimately show False using n(2) by simp
  qed
  have own: "owned ?x = insert ?n (owned ?y)" "?n \<notin> owned ?y"
  proof -
    have "lo_held ?x = butlast (lo_held ?x) @ [?n]" using held by simp
    then have "set (lo_held ?x) = insert ?n (set (butlast (lo_held ?x)))"
      by (metis Un_insert_right append_Nil2 list.simps(15) set_append sup_bot_right empty_set)
    then show "owned ?x = insert ?n (owned ?y)" by (simp add: owned_def)
    show "?n \<notin> owned ?y" using dist wait by (auto simp: owned_def in_set_conv_nth nth_butlast)
  qed
  have others: "?n \<notin> owned (lt_ops t ! j)" if "j < length (lt_ops t)" "j \<noteq> i" for j
    using inv i that own(1) unfolding lock_inv_def by blast
  show ?thesis
  proof (rule lock_inv_update [OF inv i u(3)])
    have "butlast (lo_held ?x) ! a < length (lt_tickets t)
        \<and> keyof t (butlast (lo_held ?x) ! a) = lo_keys ?x ! a \<and> \<not> settled t (butlast (lo_held ?x) ! a)
        \<and> (\<forall>m < butlast (lo_held ?x) ! a. keyof t m = lo_keys ?x ! a \<longrightarrow> settled t m)"
      if "a < length (butlast (lo_held ?x))" for a
    proof -
      have "a < length (lo_held ?x)" using that by simp
      then show ?thesis using x unfolding op_ok_def nth_butlast [OF that] by blast
    qed
    moreover have "length (butlast (lo_held ?x)) \<le> length (lo_keys ?x)" "sorted_wrt (<) (lo_keys ?x)"
      using x unfolding op_ok_def by auto
    ultimately have "op_ok t ?y" unfolding op_ok_def by (simp add: wait del: length_butlast)
    then show "op_ok ?u ?y"
      by (rule op_ok_mono) (use own(2) key set len in auto)
    show "op_ok ?u (lt_ops t ! j)" if "j < length (lt_ops t)" "j \<noteq> i" for j
      using lock_inv_ops [OF inv that(1)] by (rule op_ok_mono) (use others [OF that] key set len in auto)
    show "chain_ok ?u"
      unfolding chain_ok_def len
    proof (intro conjI allI impI)
      fix k
      have q: "case lt_queues t k of
          None \<Rightarrow> \<forall>m < length (lt_tickets t). keyof t m = k \<longrightarrow> settled t m
        | Some l \<Rightarrow> l < length (lt_tickets t) \<and> keyof t l = k \<and> \<not> settled t l
            \<and> (\<forall>m < length (lt_tickets t). keyof t m = k \<longrightarrow> m \<le> l)"
        by (rule chain_queueD [OF c])
      show "case lt_queues ?u k of
          None \<Rightarrow> \<forall>m < length (lt_tickets t). keyof ?u m = k \<longrightarrow> settled ?u m
        | Some l \<Rightarrow> l < length (lt_tickets t) \<and> keyof ?u l = k \<and> \<not> settled ?u l
            \<and> (\<forall>m < length (lt_tickets t). keyof ?u m = k \<longrightarrow> m \<le> l)"
      proof (cases "lt_queues t k = Some ?n")
        case True
        with q have k: "keyof t ?n = k" "\<forall>m < length (lt_tickets t). keyof t m = k \<longrightarrow> m \<le> ?n" by auto
        then have "\<forall>m < length (lt_tickets t). keyof ?u m = k \<longrightarrow> settled ?u m"
          using n(2,4) key(1) set by (metis le_neq_implies_less)
        then show ?thesis using True k(1) by (simp add: u(2))
      next
        case False
        then have "lt_queues ?u k = lt_queues t k" by (auto simp: u(2))
        then show ?thesis using q False key(1) set by (auto split: option.splits)
      qed
    next
      fix l assume l: "l < length (lt_tickets t)"
      show "case tk_previous (lt_tickets ?u ! l) of
          None \<Rightarrow> \<forall>m < l. keyof ?u m = keyof ?u l \<longrightarrow> settled ?u m
        | Some p \<Rightarrow> p < l \<and> keyof ?u p = keyof ?u l \<and> (\<forall>m < l. keyof ?u m = keyof ?u l \<longrightarrow> m \<le> p)"
        using chain_previousD [OF c l] key [of _] set l by (auto split: option.splits)
    next
      fix l m assume l: "l < length (lt_tickets t)" "settled ?u l" "m < l" "keyof ?u m = keyof ?u l"
      have km: "keyof t m = keyof t l" using l key by simp
      show "settled ?u m"
      proof (cases "l = ?n")
        case True
        with l km n(2,4) have "settled t m" by simp
        then show ?thesis using set l by simp
      next
        case False
        with l set have "settled t l" by simp
        then show ?thesis using chain_settledD [OF c _ l(1,3) km] set l by simp
      qed
    qed
    show "m \<in> owned ?y \<or> (m < length (lt_tickets t) \<and> \<not> settled t m \<and> m \<notin> owned ?x)"
      if "m < length (lt_tickets ?u)" "\<not> settled ?u m" for m
      using that set len own(1) by auto
  qed (use own(1) in auto)
qed

lemma lock_keys_sorted: "sorted_wrt (<) (lock_keys targets)" "set (lock_keys targets) = set targets"
  by (simp_all add: lock_keys_def strict_sorted_iff)

lemma lock_inv_begin:
  assumes "lock_inv t"
  shows "lock_inv (lock_begin targets t)"
proof -
  let ?u = "lock_begin targets t"
  have tk: "lt_tickets ?u = lt_tickets t" "lt_queues ?u = lt_queues t" by (simp_all add: lock_begin_def)
  have "op_ok ?u x" if "x \<in> set (lt_ops ?u)" for x
    using that assms lock_keys_sorted(1) [of targets]
    by (auto simp: lock_begin_def op_ok_def lock_inv_def)
  moreover have "owned (lt_ops ?u ! a) \<inter> owned (lt_ops ?u ! b) = {}"
    if "a < length (lt_ops ?u)" "b < length (lt_ops ?u)" "a \<noteq> b" for a b
  proof -
    have "owned (lt_ops ?u ! length (lt_ops t)) = {}" by (simp add: lock_begin_def owned_def)
    moreover have "lt_ops ?u ! c = lt_ops t ! c" if "c < length (lt_ops t)" for c
      using that by (simp add: lock_begin_def nth_append)
    moreover have "c < length (lt_ops t) \<or> c = length (lt_ops t)" if "c < length (lt_ops ?u)" for c
      using that by (auto simp: lock_begin_def)
    moreover have "owned (lt_ops t ! a) \<inter> owned (lt_ops t ! b) = {}"
      if "a < length (lt_ops t)" "b < length (lt_ops t)"
      using assms that \<open>a \<noteq> b\<close> unfolding lock_inv_def by blast
    ultimately show ?thesis using that by (metis Int_empty_left Int_empty_right)
  qed
  moreover have "\<exists>x \<in> set (lt_ops ?u). n \<in> owned x"
    if "n < length (lt_tickets ?u)" "\<not> settled ?u n" for n
    using assms that unfolding lock_inv_def tk by (auto simp: lock_begin_def)
  moreover have "chain_ok ?u"
    using chain_ok_tickets(1) [OF tk] lock_inv_chain [OF assms] by simp
  ultimately show ?thesis unfolding lock_inv_def by blast
qed

lemma lock_reachable_inv: "lock_reachable t \<Longrightarrow> lock_inv t"
proof (induction rule: lock_reachable.induct)
  case lk_new
  then show ?case by (simp add: lock_inv_def lock_table_new_def chain_ok_def)
next
  case (lk_begin t targets)
  then show ?case by (simp add: lock_inv_begin)
next
  case (lk_run t u)
  from lk_run(2) lk_run(3) show ?case
    by cases (auto simp: lock_inv_enqueue lock_inv_grant lock_inv_finish lock_inv_release)
qed

section \<open>Exclusion and progress\<close>

text \<open>
  C10: Operations that run at the same time have no path in common: whatever calls of
  \<open>withPathLock\<close> and \<open>withPathLocks\<close> are in flight and however they interleave, two different
  operations whose bodies are running lock disjoint sets of paths.
\<close>

theorem path_locks_exclusive:
  assumes "lock_reachable t" "i < length (lt_ops t)" "j < length (lt_ops t)" "i \<noteq> j"
    "op_working (lt_ops t ! i)" "op_working (lt_ops t ! j)"
  shows "set (lo_keys (lt_ops t ! i)) \<inter> set (lo_keys (lt_ops t ! j)) = {}"
proof (rule ccontr)
  note inv = lock_reachable_inv [OF assms(1)]
  have held: "\<exists>n. n \<in> owned x \<and> keyof t n = k \<and> \<not> settled t n \<and> n < length (lt_tickets t)
      \<and> (\<forall>m < n. keyof t m = k \<longrightarrow> settled t m)"
    if "op_ok t x" "op_working x" "k \<in> set (lo_keys x)" for x k
  proof -
    from that(3) obtain a where a: "a < length (lo_keys x)" "k = lo_keys x ! a" by (auto simp: in_set_conv_nth)
    with that(2) have "a < length (lo_held x)" by (simp add: op_working_def)
    with that(1) a(2) show ?thesis
      unfolding op_ok_def owned_def by (intro exI [of _ "lo_held x ! a"]) auto
  qed
  assume "set (lo_keys (lt_ops t ! i)) \<inter> set (lo_keys (lt_ops t ! j)) \<noteq> {}"
  then obtain k where k: "k \<in> set (lo_keys (lt_ops t ! i))" "k \<in> set (lo_keys (lt_ops t ! j))" by blast
  from held [OF lock_inv_ops [OF inv assms(2)] assms(5) k(1)] obtain n where
    n: "n \<in> owned (lt_ops t ! i)" "keyof t n = k" "\<not> settled t n" "\<forall>m < n. keyof t m = k \<longrightarrow> settled t m" by blast
  from held [OF lock_inv_ops [OF inv assms(3)] assms(6) k(2)] obtain m where
    m: "m \<in> owned (lt_ops t ! j)" "keyof t m = k" "\<not> settled t m" "\<forall>l < m. keyof t l = k \<longrightarrow> settled t l" by blast
  have "\<not> n < m" "\<not> m < n" using n m by blast+
  then have "n = m" by simp
  with n(1) m(1) inv assms(2-4) show False unfolding lock_inv_def by blast
qed

lemma op_step_or_wait:
  assumes "lock_inv t" "i < length (lt_ops t)" "\<not> op_done (lt_ops t ! i)" "\<not> (\<exists>u. lock_run t u)"
  shows "\<exists>n. lo_waiting (lt_ops t ! i) = Some n \<and> \<not> ticket_ready t n"
proof -
  let ?x = "lt_ops t ! i"
  have x: "op_ok t ?x" by (rule lock_inv_ops [OF assms(1,2)])
  show ?thesis
  proof (cases "lo_waiting ?x")
    case (Some n)
    then show ?thesis using lr_grant [OF assms(2)] assms(4) by blast
  next
    case None
    have "lo_releasing ?x \<longrightarrow> lo_held ?x \<noteq> []" using assms(3) by (simp add: op_done_def)
    then have "\<not> lo_releasing ?x" using lr_release [OF assms(2)] assms(4) by blast
    moreover have "length (lo_held ?x) \<le> length (lo_keys ?x)" using x by (simp add: op_ok_def)
    ultimately have "op_working ?x"
      using lr_enqueue [OF assms(2) refl _ None] assms(4) None by (fastforce simp: op_working_def)
    then show ?thesis using lr_finish [OF assms(2)] assms(4) by blast
  qed
qed

text \<open>
  C11: Sorted acquisition never deadlocks: in every reachable state in which some operation has not
  finished, some operation can make a step (take a lock, start, finish or release), without any
  new call arriving.
\<close>

theorem path_locks_progress:
  assumes "lock_reachable t" "x \<in> set (lt_ops t)" "\<not> op_done x"
  shows "\<exists>u. lock_run t u"
proof (rule ccontr)
  assume stuck: "\<not> (\<exists>u. lock_run t u)"
  note inv = lock_reachable_inv [OF assms(1)]
  define W where "W = {n. \<exists>y \<in> set (lt_ops t). lo_waiting y = Some n}"
  have wait: "\<exists>n. lo_waiting y = Some n \<and> \<not> ticket_ready t n" if "y \<in> set (lt_ops t)" "\<not> op_done y" for y
    using that op_step_or_wait [OF inv _ _ stuck] by (metis in_set_conv_nth)
  have ok: "op_ok t y" if "y \<in> set (lt_ops t)" for y using inv that by (simp add: lock_inv_def)
  have Wlen: "n < length (lt_tickets t)" if "n \<in> W" for n using that ok by (auto simp: W_def op_ok_def)
  then have "finite W" by (meson finite_nat_set_iff_bounded)
  moreover have ne: "W \<noteq> {}" using wait [OF assms(2,3)] assms(2) by (auto simp: W_def)
  ultimately have fin: "finite (keyof t ` W)" "keyof t ` W \<noteq> {}" by auto
  define k where "k = Max (keyof t ` W)"
  have k: "k \<in> keyof t ` W" "\<And>n. n \<in> W \<Longrightarrow> keyof t n \<le> k"
    unfolding k_def using fin by auto
  define n where "n = (LEAST n. n \<in> W \<and> keyof t n = k)"
  have "\<exists>n. n \<in> W \<and> keyof t n = k" using k(1) by auto
  then have n: "n \<in> W" "keyof t n = k" unfolding n_def by (auto intro: LeastI_ex [THEN conjunct1] LeastI_ex [THEN conjunct2])
  have least: "n \<le> m" if "m \<in> W" "keyof t m = k" for m unfolding n_def using that by (intro Least_le) simp
  from n(1) obtain y where y: "y \<in> set (lt_ops t)" "lo_waiting y = Some n" by (auto simp: W_def)
  have "\<not> op_done y" using ok [OF y(1)] y(2) by (auto simp: op_done_def op_ok_def)
  with wait [OF y(1)] y(2) have "\<not> ticket_ready t n" by simp
  then obtain p where p: "tk_previous (lt_tickets t ! n) = Some p" "\<not> settled t p"
    by (auto simp: ticket_ready_def split: option.splits)
  with chain_previousD [OF lock_inv_chain [OF inv] Wlen [OF n(1)]]
  have pn: "p < n" "keyof t p = k" using n(2) by auto
  then have "p < length (lt_tickets t)" using Wlen [OF n(1)] by simp
  with p(2) inv obtain z where z: "z \<in> set (lt_ops t)" "p \<in> owned z" unfolding lock_inv_def by blast
  have "\<not> op_done z" using z(2) ok [OF z(1)] by (auto simp: op_done_def owned_def op_ok_def)
  with wait [OF z(1)] obtain q where q: "lo_waiting z = Some q" by blast
  then have qW: "q \<in> W" using z(1) by (auto simp: W_def)
  have "p \<noteq> q" using least [OF qW] pn by auto
  with z(2) q obtain a where a: "a < length (lo_held z)" "p = lo_held z ! a"
    by (auto simp: owned_def in_set_conv_nth)
  have zk: "sorted_wrt (<) (lo_keys z)" "length (lo_held z) < length (lo_keys z)"
    "keyof t q = lo_keys z ! length (lo_held z)" "keyof t p = lo_keys z ! a"
    using ok [OF z(1)] q a unfolding op_ok_def by blast+
  then have "keyof t p < keyof t q" using a(1) by (simp add: sorted_wrt_nth_less)
  then show False using k(2) [OF qW] pn(2) by simp
qed

section \<open>A concrete history\<close>

text \<open>Two operations with an overlapping path: the first holds its lock, the second waits.\<close>

definition demo_locks :: lock_table where
  "demo_locks = lock_enqueue 1 (lock_grant 0 (lock_enqueue 0
     (lock_begin [''b'', ''a''] (lock_begin [''a''] lock_table_new))))"

lemma demo_locks_reachable: "lock_reachable demo_locks"
proof -
  let ?t0 = "lock_begin [''b'', ''a''] (lock_begin [''a''] lock_table_new)"
  have 0: "lock_reachable ?t0" by (intro lk_begin lk_new)
  have "lock_run ?t0 (lock_enqueue 0 ?t0)"
    by (rule lr_enqueue [OF _ refl]) (simp_all add: lock_begin_def lock_table_new_def lock_keys_def)
  with 0 have 1: "lock_reachable (lock_enqueue 0 ?t0)" by (rule lk_run)
  have "lock_run (lock_enqueue 0 ?t0) (lock_grant 0 (lock_enqueue 0 ?t0))"
    by (rule lr_grant [where n = 0])
      (simp_all add: lock_begin_def lock_table_new_def lock_keys_def lock_enqueue_def put_op_def
        ticket_ready_def Let_def)
  with 1 have 2: "lock_reachable (lock_grant 0 (lock_enqueue 0 ?t0))" by (rule lk_run)
  have "lock_run (lock_grant 0 (lock_enqueue 0 ?t0)) (lock_enqueue 1 (lock_grant 0 (lock_enqueue 0 ?t0)))"
    by (rule lr_enqueue [OF _ refl])
      (simp_all add: lock_begin_def lock_table_new_def lock_keys_def lock_enqueue_def lock_grant_def
        put_op_def Let_def)
  with 2 show ?thesis unfolding demo_locks_def by (rule lk_run)
qed

lemmas demo_locks_eval = demo_locks_def lock_begin_def lock_table_new_def lock_keys_def
  lock_enqueue_def lock_grant_def put_op_def Let_def

theorem path_locks_progress_witness: "\<exists>u. lock_run demo_locks u"
  by (rule path_locks_progress [OF demo_locks_reachable, of "lt_ops demo_locks ! 1"])
    (simp_all add: demo_locks_eval op_done_def)

text \<open>Two operations on different paths, both running.\<close>

definition demo_both :: lock_table where
  "demo_both = lock_grant 1 (lock_enqueue 1 (lock_grant 0 (lock_enqueue 0
     (lock_begin [''b''] (lock_begin [''a''] lock_table_new)))))"

lemma demo_both_reachable: "lock_reachable demo_both"
proof -
  note evals = lock_begin_def lock_table_new_def lock_keys_def lock_enqueue_def lock_grant_def
    put_op_def ticket_ready_def Let_def
  let ?t0 = "lock_begin [''b''] (lock_begin [''a''] lock_table_new)"
  let ?t1 = "lock_enqueue 0 ?t0" let ?t2 = "lock_grant 0 ?t1" let ?t3 = "lock_enqueue 1 ?t2"
  have 0: "lock_reachable ?t0" by (intro lk_begin lk_new)
  have "lock_run ?t0 ?t1" by (rule lr_enqueue [OF _ refl]) (simp_all add: evals)
  with 0 have 1: "lock_reachable ?t1" by (rule lk_run)
  have "lock_run ?t1 ?t2" by (rule lr_grant [where n = 0]) (simp_all add: evals)
  with 1 have 2: "lock_reachable ?t2" by (rule lk_run)
  have "lock_run ?t2 ?t3" by (rule lr_enqueue [OF _ refl]) (simp_all add: evals)
  with 2 have 3: "lock_reachable ?t3" by (rule lk_run)
  have "lock_run ?t3 (lock_grant 1 ?t3)" by (rule lr_grant [where n = 1]) (simp_all add: evals)
  with 3 show ?thesis unfolding demo_both_def by (rule lk_run)
qed

theorem path_locks_exclusive_witness:
  "set (lo_keys (lt_ops demo_both ! 0)) \<inter> set (lo_keys (lt_ops demo_both ! 1)) = {}"
  by (rule path_locks_exclusive [OF demo_both_reachable])
    (simp_all add: demo_both_def lock_begin_def lock_table_new_def lock_keys_def
      lock_enqueue_def lock_grant_def put_op_def Let_def op_working_def)

end
