(* ===== verification/Path_Policy.thy ===== *)
theory Path_Policy
  imports Prelude
begin

text \<open>
  \<open>src/src/core/policy.ts\<close>: which paths the tools may touch. A normalised absolute path is the
  list of its components; \<open>path.resolve\<close>, \<open>path.relative\<close> and \<open>path.dirname\<close> of Node's POSIX
  \<open>path\<close> module are defined on these. The file system is a parameter: \<open>lst\<close> is the outcome of
  \<open>lstat\<close>, \<open>real\<close> that of \<open>realpath\<close> (\<open>None\<close>: it throws).

  Shown: a path that is let through is confined, its canonical form lies below the canonical
  form of an allowed root; without symbolic links exactly the paths below a root are let
  through, and \<open>display\<close> never shows an absolute path for one of them.
\<close>

type_synonym abspath = "string list"

datatype lstat_result = LExists | LMissing | LFails

datatype policy_error = EmptyPath | NoRoots | NoAncestor | FsError | SymlinkEscape | OutsideRoots

section \<open>Node's path module\<close>

definition isAbsolute :: "string \<Rightarrow> bool" where
  "isAbsolute s \<longleftrightarrow> take 1 s = ''/''"

definition push_segment :: "abspath \<Rightarrow> string \<Rightarrow> abspath" where
  "push_segment acc seg =
     (if seg = [] \<or> seg = ''.'' then acc else if seg = ''..'' then butlast acc else acc @ [seg])"

definition path_resolve :: "abspath \<Rightarrow> string \<Rightarrow> abspath" where
  "path_resolve base input =
     foldl push_segment (if isAbsolute input then [] else base) (split_char CHR ''/'' input)"

definition path_string :: "abspath \<Rightarrow> string" where
  "path_string p = CHR ''/'' # join_with ''/'' p"

fun common :: "abspath \<Rightarrow> abspath \<Rightarrow> nat" where
  "common (a # as) (b # bs) = (if a = b then Suc (common as bs) else 0)"
| "common _ _ = 0"

definition path_relative :: "abspath \<Rightarrow> abspath \<Rightarrow> string list" where
  "path_relative from' to' =
     replicate (length from' - common from' to') ''..'' @ drop (common from' to') to'"

text \<open>
  A relative path is \<open>..\<close> or starts with \<open>../\<close> when its first component is \<open>..\<close>; it is never
  absolute.
\<close>

definition isInside :: "abspath \<Rightarrow> abspath \<Rightarrow> bool" where
  "isInside root candidate \<longleftrightarrow>
     (let relative = path_relative root candidate in relative = [] \<or> hd relative \<noteq> ''..'')"

section \<open>Canonical paths\<close>

function nearestExistingAncestor :: "(abspath \<Rightarrow> lstat_result) \<Rightarrow> abspath \<Rightarrow> policy_error + abspath" where
  "nearestExistingAncestor lst current =
     (case lst current of
        LExists \<Rightarrow> Inr current
      | LFails \<Rightarrow> Inl FsError
      | LMissing \<Rightarrow>
          if current = [] then Inl NoAncestor else nearestExistingAncestor lst (butlast current))"
  by pat_completeness auto
termination by (relation "measure (\<lambda>(lst, current). length current)") auto

declare nearestExistingAncestor.simps [simp del]

definition canonicalizePath ::
  "(abspath \<Rightarrow> lstat_result) \<Rightarrow> (abspath \<Rightarrow> abspath option) \<Rightarrow> abspath \<Rightarrow> policy_error + abspath" where
  "canonicalizePath lst real candidate =
     bind_res (nearestExistingAncestor lst candidate) (\<lambda>ancestor.
       case real ancestor of
         None \<Rightarrow> Inl FsError
       | Some realAncestor \<Rightarrow>
           (let suffix = path_relative ancestor candidate
            in Inr (if suffix = [] then realAncestor else foldl push_segment realAncestor suffix)))"

section \<open>PathPolicy\<close>

fun inside_some ::
  "(abspath \<Rightarrow> lstat_result) \<Rightarrow> (abspath \<Rightarrow> abspath option) \<Rightarrow> abspath \<Rightarrow> abspath list \<Rightarrow> policy_error + bool"
where
  "inside_some lst real canonicalCandidate [] = Inr False"
| "inside_some lst real canonicalCandidate (root # roots) =
     bind_res (canonicalizePath lst real root) (\<lambda>canonicalRoot.
       if isInside canonicalRoot canonicalCandidate then Inr True
       else inside_some lst real canonicalCandidate roots)"

definition policy_resolve ::
  "(abspath \<Rightarrow> lstat_result) \<Rightarrow> (abspath \<Rightarrow> abspath option) \<Rightarrow> abspath list \<Rightarrow> string
   \<Rightarrow> policy_error + abspath"
where
  "policy_resolve lst real roots input =
     (if list_all js_space input then Inl EmptyPath
      else if \<not> isAbsolute input \<and> roots = [] then Inl NoRoots
      else
        (let candidate = (if isAbsolute input then path_resolve [] input
                          else path_resolve (hd roots) input)
         in case find (\<lambda>root. isInside root candidate) roots of
              Some lexicalRoot \<Rightarrow>
                bind_res (canonicalizePath lst real lexicalRoot) (\<lambda>canonicalRoot.
                bind_res (canonicalizePath lst real candidate) (\<lambda>canonicalCandidate.
                  if \<not> isInside canonicalRoot canonicalCandidate then Inl SymlinkEscape
                  else Inr candidate))
            | None \<Rightarrow>
                bind_res (canonicalizePath lst real candidate) (\<lambda>canonicalCandidate.
                bind_res (inside_some lst real canonicalCandidate roots) (\<lambda>inside.
                  if inside then Inr candidate else Inl OutsideRoots))))"

definition policy_display :: "abspath list \<Rightarrow> abspath \<Rightarrow> abspath + string list" where
  "policy_display roots candidate =
     (case find (\<lambda>item. isInside item candidate) roots of
        None \<Rightarrow> Inl candidate
      | Some root \<Rightarrow>
          (let relative = path_relative root candidate
           in Inr (if relative = [] then [''.''] else relative)))"

section \<open>Components\<close>

text \<open>A normalised path has no empty, \<open>.\<close> or \<open>..\<close> component.\<close>

definition norm_path :: "abspath \<Rightarrow> bool" where
  "norm_path p \<longleftrightarrow> [] \<notin> set p \<and> ''.'' \<notin> set p \<and> ''..'' \<notin> set p"

lemma norm_path_simps [simp]:
  "norm_path []"
  "norm_path (p @ q) \<longleftrightarrow> norm_path p \<and> norm_path q"
  by (auto simp: norm_path_def)

lemma norm_path_sub: "norm_path p \<Longrightarrow> set q \<subseteq> set p \<Longrightarrow> norm_path q"
  by (auto simp: norm_path_def)

lemma push_segment_norm: "norm_path p \<Longrightarrow> norm_path (push_segment p s)"
  by (auto simp: push_segment_def norm_path_def dest: in_set_butlastD)

lemma foldl_push_norm: "norm_path p \<Longrightarrow> norm_path (foldl push_segment p ss)"
  by (induction ss arbitrary: p) (simp_all add: push_segment_norm)

lemma path_resolve_norm: "norm_path base \<Longrightarrow> norm_path (path_resolve base input)"
  by (simp add: path_resolve_def foldl_push_norm)

lemma foldl_push_plain: "norm_path ss \<Longrightarrow> foldl push_segment p ss = p @ ss"
  by (induction ss arbitrary: p) (auto simp: push_segment_def norm_path_def)

lemma common_le: "common p q \<le> length p" "common p q \<le> length q"
  by (induction p q rule: common.induct) auto

lemma common_prefix: "take (common p q) p = take (common p q) q"
  by (induction p q rule: common.induct) auto

lemma common_prefix_eq: "common p (p @ q) = length p"
  by (induction p) (cases q, simp_all)

lemma path_relative_below: "path_relative p (p @ q) = q"
  by (simp add: path_relative_def common_prefix_eq)

lemma isInside_iff:
  assumes "norm_path candidate"
  shows "isInside root candidate \<longleftrightarrow> prefix root candidate"
proof
  assume "prefix root candidate"
  then obtain q where q: "candidate = root @ q" by (auto simp: prefix_def)
  with assms have "''..'' \<notin> set q" by (simp add: norm_path_def)
  then show "isInside root candidate"
    using q path_relative_below [of root "[]"]
    by (cases q) (auto simp: isInside_def Let_def path_relative_below)
next
  assume inside: "isInside root candidate"
  have "length root - common root candidate = 0"
  proof (rule ccontr)
    assume "length root - common root candidate \<noteq> 0"
    then obtain n where "length root - common root candidate = Suc n" by (cases "length root - common root candidate") auto
    then have "path_relative root candidate \<noteq> [] \<and> hd (path_relative root candidate) = ''..''"
      by (simp add: path_relative_def)
    with inside show False by (simp add: isInside_def Let_def)
  qed
  with common_le(1) [of root candidate] have "common root candidate = length root" by simp
  with common_prefix [of root candidate] have "root = take (length root) candidate" by simp
  then show "prefix root candidate" by (metis take_is_prefix)
qed

lemma nearest_prefix:
  "nearestExistingAncestor lst p = Inr a \<Longrightarrow> prefix a p \<and> lst a = LExists"
proof (induction lst p rule: nearestExistingAncestor.induct)
  case (1 lst current)
  show ?case
  proof (cases "lst current")
    case LExists
    with "1.prems" show ?thesis by (simp add: nearestExistingAncestor.simps [of lst current])
  next
    case LMissing
    with "1.prems" have "current \<noteq> []" "nearestExistingAncestor lst (butlast current) = Inr a"
      by (auto simp: nearestExistingAncestor.simps [of lst current] split: if_splits)
    with "1.IH" [OF LMissing] have "prefix a (butlast current)" "lst a = LExists" by auto
    then show ?thesis by (metis prefix_order.trans prefixeq_butlast)
  next
    case LFails
    with "1.prems" show ?thesis by (simp add: nearestExistingAncestor.simps [of lst current])
  qed
qed

lemma nearest_exists:
  assumes "lst [] = LExists" "\<forall>p. lst p \<noteq> LFails"
  shows "\<exists>a. nearestExistingAncestor lst p = Inr a"
proof (induction p rule: rev_induct)
  case Nil
  then show ?case using assms(1) by (simp add: nearestExistingAncestor.simps)
next
  case (snoc x p)
  then show ?case
    using assms by (cases "lst (p @ [x])") (simp_all add: nearestExistingAncestor.simps [of lst "p @ [x]"])
qed

lemma canonicalize_plain:
  assumes "norm_path p" "\<forall>a. lst a = LExists \<longrightarrow> real a = Some a" "lst [] = LExists"
    "\<forall>p. lst p \<noteq> LFails"
  shows "canonicalizePath lst real p = Inr p"
proof -
  obtain a where a: "nearestExistingAncestor lst p = Inr a" using nearest_exists [OF assms(3,4)] by blast
  from nearest_prefix [OF a] obtain q where q: "p = a @ q" and e: "lst a = LExists"
    by (auto simp: prefix_def)
  have "norm_path q" using assms(1) q by simp
  then show ?thesis
    using a e assms(2) q by (simp add: canonicalizePath_def path_relative_below foldl_push_plain Let_def)
qed

lemma canonicalize_norm:
  assumes "canonicalizePath lst real p = Inr c" "\<forall>a b. real a = Some b \<longrightarrow> norm_path b"
  shows "norm_path c"
  using assms
  by (auto simp: canonicalizePath_def bind_res_Inr_iff Let_def foldl_push_norm split: option.splits if_splits)

lemma inside_some_True:
  "inside_some lst real c roots = Inr True \<Longrightarrow>
    \<exists>root \<in> set roots. \<exists>cr. canonicalizePath lst real root = Inr cr \<and> isInside cr c"
  by (induction roots) (auto simp: bind_res_Inr_iff split: if_splits)

lemma inside_some_plain:
  assumes "\<forall>root \<in> set roots. canonicalizePath lst real root = Inr root"
  shows "inside_some lst real c roots = Inr (\<exists>root \<in> set roots. isInside root c)"
  using assms by (induction roots) auto

section \<open>What the policy promises\<close>

text \<open>What \<open>resolve\<close> has checked when it returns a path.\<close>

lemma policy_resolve_InrD:
  assumes "policy_resolve lst real roots input = Inr p" "\<forall>root \<in> set roots. norm_path root"
  shows "norm_path p \<and> (\<exists>root \<in> set roots. \<exists>cr cp. canonicalizePath lst real root = Inr cr
    \<and> canonicalizePath lst real p = Inr cp \<and> isInside cr cp)"
proof -
  let ?c = "if isAbsolute input then path_resolve [] input else path_resolve (hd roots) input"
  have p: "p = ?c" and roots: "isAbsolute input \<or> roots \<noteq> []"
    using assms(1) by (auto simp: policy_resolve_def Let_def bind_res_Inr_iff split: if_splits option.splits)
  have norm: "norm_path ?c"
    using roots assms(2) by (cases roots) (auto simp: path_resolve_norm)
  have "\<exists>root \<in> set roots. \<exists>cr cp. canonicalizePath lst real root = Inr cr
      \<and> canonicalizePath lst real p = Inr cp \<and> isInside cr cp"
  proof (cases "find (\<lambda>root. isInside root ?c) roots")
    case (Some root)
    then have "root \<in> set roots" by (auto simp: find_Some_iff)
    with Some assms(1) p show ?thesis
      by (auto simp: policy_resolve_def Let_def bind_res_Inr_iff split: if_splits)
  next
    case None
    then obtain cp where "canonicalizePath lst real p = Inr cp" "inside_some lst real cp roots = Inr True"
      using assms(1) p
      by (auto simp: policy_resolve_def Let_def bind_res_Inr_iff split: if_splits)
    with inside_some_True show ?thesis by blast
  qed
  then show ?thesis using norm p by simp
qed

text \<open>
  C25: A path that \<open>resolve\<close> lets through is confined: it is a normalised absolute path, and at
  the time of the check its canonical form, all symbolic links followed, lies below the
  canonical form of one of the allowed roots.
\<close>

theorem resolve_confined:
  assumes "policy_resolve lst real roots input = Inr p" "\<forall>root \<in> set roots. norm_path root"
    "\<forall>a b. real a = Some b \<longrightarrow> norm_path b"
  shows "norm_path p \<and> (\<exists>root \<in> set roots. \<exists>canonicalRoot canonicalPath.
    canonicalizePath lst real root = Inr canonicalRoot \<and>
    canonicalizePath lst real p = Inr canonicalPath \<and> prefix canonicalRoot canonicalPath)"
  using policy_resolve_InrD [OF assms(1,2)] isInside_iff [OF canonicalize_norm [OF _ assms(3)]] by blast

definition demo_lst :: "abspath \<Rightarrow> lstat_result" where
  "demo_lst p = (if p \<in> {[], [''w''], [''w'', ''link'']} then LExists else LMissing)"

definition demo_real :: "abspath \<Rightarrow> abspath option" where
  "demo_real p = (if p = [''w'', ''link''] then Some [''w'', ''x'']
     else if p \<in> {[], [''w'']} then Some p else None)"

theorem resolve_confined_witness:
  "norm_path [''w'', ''link'', ''new.txt''] \<and>
   (\<exists>root \<in> set [[''w'']]. \<exists>canonicalRoot canonicalPath.
     canonicalizePath demo_lst demo_real root = Inr canonicalRoot \<and>
     canonicalizePath demo_lst demo_real [''w'', ''link'', ''new.txt''] = Inr canonicalPath \<and>
     prefix canonicalRoot canonicalPath)"
proof (rule resolve_confined)
  show "policy_resolve demo_lst demo_real [[''w'']] ''a/../link//new.txt'' = Inr [''w'', ''link'', ''new.txt'']"
    by code_simp
qed (auto simp: norm_path_def demo_real_def split: if_splits)

text \<open>
  Without symbolic links \<open>resolve\<close> lets through exactly the paths below a root: a blank input
  is refused, a relative one is taken from the first root, \<open>.\<close> and \<open>..\<close> are resolved first, and
  the answer is the normalised path if a root is a prefix of it and an error otherwise. What is
  let through is displayed relative to a root.
\<close>

theorem resolve_without_links:
  assumes "\<forall>root \<in> set roots. norm_path root" "roots \<noteq> []" "\<not> list_all js_space input"
    "lst [] = LExists" "\<forall>p. lst p \<noteq> LFails" "\<forall>a. lst a = LExists \<longrightarrow> real a = Some a"
    "candidate = (if isAbsolute input then path_resolve [] input else path_resolve (hd roots) input)"
  shows "policy_resolve lst real roots input =
      (if \<exists>root \<in> set roots. prefix root candidate then Inr candidate else Inl OutsideRoots)
    \<and> ((\<exists>shown. policy_display roots candidate = Inr shown) \<longleftrightarrow> (\<exists>root \<in> set roots. prefix root candidate))"
proof -
  have norm: "norm_path candidate"
    using assms(1,2,7) by (cases roots) (auto simp: path_resolve_norm)
  note plain = canonicalize_plain [OF _ assms(6,4,5)]
  have c: "canonicalizePath lst real candidate = Inr candidate" by (rule plain [OF norm])
  have r: "\<forall>root \<in> set roots. canonicalizePath lst real root = Inr root" using assms(1) plain by blast
  show ?thesis
  proof (cases "find (\<lambda>root. isInside root candidate) roots")
    case (Some root)
    then have "root \<in> set roots" "isInside root candidate" by (auto simp: find_Some_iff)
    with Some c r assms(2,3,7) isInside_iff [OF norm] show ?thesis
      by (auto simp: policy_resolve_def policy_display_def Let_def)
  next
    case None
    then have out: "\<not> (\<exists>root \<in> set roots. isInside root candidate)" by (auto simp: find_None_iff)
    with isInside_iff [OF norm] have "\<not> (\<exists>root \<in> set roots. prefix root candidate)" by blast
    with None c inside_some_plain [OF r, of candidate] out assms(2,3,7) show ?thesis
      by (auto simp: policy_resolve_def policy_display_def Let_def)
  qed
qed

theorem resolve_without_links_witness:
  "policy_resolve (\<lambda>p. LExists) Some [[''w'']] ''../etc/passwd'' = Inl OutsideRoots
   \<and> policy_resolve (\<lambda>p. LExists) Some [[''w'']] ''a/../b'' = Inr [''w'', ''b'']"
  using resolve_without_links [where roots = "[[''w'']]" and input = "''../etc/passwd''"
      and lst = "\<lambda>p. LExists" and real = Some and candidate = "[''etc'', ''passwd'']"]
    resolve_without_links [where roots = "[[''w'']]" and input = "''a/../b''"
      and lst = "\<lambda>p. LExists" and real = Some and candidate = "[''w'', ''b'']"]
  by (simp add: norm_path_def js_space_def isAbsolute_def path_resolve_def push_segment_def)

end
