(* ===== verification/Unified_Patch.thy ===== *)
theory Unified_Patch
  imports Prelude
begin

text \<open>
  \<open>src/src/fs/unified-patch.ts\<close>: what happens to a unified diff before the \<open>diff\<close> package sees it.
  \<open>normalizeUnifiedPatchHunkHeaders\<close> recomputes the line counts of every hunk header from the
  hunk's body; \<open>validateUnifiedPatch\<close> turns the parser's answers into typed errors. The parser
  (\<open>parsePatch\<close>) is a parameter. Line numbers are natural numbers: JavaScript agrees up to
  \<open>2 ^ 53\<close>. In the header pattern \<open>.\<close> does not match a line end, so a trailer with a
  carriage return is no header.
\<close>

section \<open>Strings\<close>

fun split_lines :: "string \<Rightarrow> string list" where
  "split_lines [] = [[]]"
| "split_lines (c # cs) =
     (if c = CHR 0x0A then [] # split_lines cs
      else (case split_lines cs of [] \<Rightarrow> [[c]] | s # ss \<Rightarrow> (c # s) # ss))"

fun join_lines :: "string list \<Rightarrow> string" where
  "join_lines [] = []"
| "join_lines [s] = s"
| "join_lines (s # ss) = s @ CHR 0x0A # join_lines ss"

definition starts_with :: "string \<Rightarrow> string \<Rightarrow> bool" where
  "starts_with s pre \<longleftrightarrow> take (length pre) s = pre"

fun string_includes :: "string \<Rightarrow> string \<Rightarrow> bool" where
  "string_includes [] sub \<longleftrightarrow> sub = []"
| "string_includes (c # cs) sub \<longleftrightarrow> starts_with (c # cs) sub \<or> string_includes cs sub"

definition digit_value :: "char \<Rightarrow> nat" where
  "digit_value c = of_char c - 48"

fun number_of :: "nat \<Rightarrow> string \<Rightarrow> nat" where
  "number_of acc [] = acc"
| "number_of acc (c # cs) = number_of (10 * acc + digit_value c) cs"

section \<open>Hunk headers\<close>

record hunk_header =
  hh_oldStart :: nat
  hh_newStart :: nat
  hh_trailer :: string

text \<open>\<open>\\d+\<close>: the longest run of digits, which must not be empty, and the rest.\<close>

definition take_number :: "string \<Rightarrow> (nat \<times> string) option" where
  "take_number s =
     (let ds = takeWhile digit s
      in if ds = [] then None else Some (number_of 0 ds, drop (length ds) s))"

definition expect :: "string \<Rightarrow> string \<Rightarrow> string option" where
  "expect pre s = (if starts_with s pre then Some (drop (length pre) s) else None)"

text \<open>\<open>(?:,(\\d+))?\<close>\<close>

definition take_count :: "string \<Rightarrow> (nat option \<times> string)" where
  "take_count s =
     (case Option.bind (expect '','' s) take_number of
        None \<Rightarrow> (None, s)
      | Some (n, rest) \<Rightarrow> (Some n, rest))"

definition parseHunkHeader :: "string \<Rightarrow> (hunk_header \<times> nat \<times> nat) option" where
  "parseHunkHeader line =
     (case expect ''@@ -'' line of None \<Rightarrow> None | Some s1 \<Rightarrow>
     (case take_number s1 of None \<Rightarrow> None | Some (oldStart, s2) \<Rightarrow>
     (case take_count s2 of (oldLines, s3) \<Rightarrow>
     (case expect '' +'' s3 of None \<Rightarrow> None | Some s4 \<Rightarrow>
     (case take_number s4 of None \<Rightarrow> None | Some (newStart, s5) \<Rightarrow>
     (case take_count s5 of (newLines, s6) \<Rightarrow>
     (case expect '' @@'' s6 of None \<Rightarrow> None | Some trailer \<Rightarrow>
       if CHR 0x0A \<in> set trailer \<or> CHR 0x0D \<in> set trailer then None
       else Some (\<lparr>hh_oldStart = oldStart, hh_newStart = newStart, hh_trailer = trailer\<rparr>,
                  case oldLines of None \<Rightarrow> 1 | Some n \<Rightarrow> n,
                  case newLines of None \<Rightarrow> 1 | Some n \<Rightarrow> n))))))))"

definition isFileHeader :: "string \<Rightarrow> bool" where
  "isFileHeader line \<longleftrightarrow> starts_with line ''--- '' \<or> starts_with line ''+++ ''
     \<or> starts_with line ''diff '' \<or> starts_with line ''Index:''"

definition formatHunkHeader :: "hunk_header \<Rightarrow> nat \<Rightarrow> nat \<Rightarrow> string" where
  "formatHunkHeader header oldLines newLines =
     ''@@ -'' @ show_nat (hh_oldStart header) @ '','' @ show_nat oldLines @ '' +''
       @ show_nat (hh_newStart header) @ '','' @ show_nat newLines @ '' @@'' @ hh_trailer header"

section \<open>Normalisation\<close>

text \<open>
  The inner loop: the body of a hunk, its two line counts and the lines after it. \<open>None\<close> is a line
  with an invalid prefix. An empty last line ends the text; another empty line is context.
\<close>

fun scan_body :: "string list \<Rightarrow> (string list \<times> nat \<times> nat \<times> string list) option" where
  "scan_body [] = Some ([], 0, 0, [])"
| "scan_body (candidate # rest) =
     (if parseHunkHeader candidate \<noteq> None \<or> isFileHeader candidate then Some ([], 0, 0, candidate # rest)
      else if candidate = [] \<and> rest = [] then Some ([], 0, 0, [candidate])
      else
        (let more = (\<lambda>dOld dNew.
               map_option (\<lambda>(body, old, new, after). (candidate # body, old + dOld, new + dNew, after))
                 (scan_body rest))
         in if candidate = [] then more 1 1
            else if hd candidate = CHR '' '' then more 1 1
            else if hd candidate = CHR ''-'' then more 1 0
            else if hd candidate = CHR ''+'' then more 0 1
            else if hd candidate = CHR 0x5C then more 0 0
            else None))"

lemma scan_body_length:
  "scan_body ls = Some (body, old, new, after) \<Longrightarrow> length after \<le> length ls \<and> ls = body @ after"
proof (induction ls arbitrary: body old new after)
  case (Cons l ls)
  then show ?case by (fastforce simp: Let_def split: if_splits)
qed simp

function normalize_lines :: "string list \<Rightarrow> (string list \<times> bool) option" where
  "normalize_lines [] = Some ([], False)"
| "normalize_lines (line # rest) =
     (case parseHunkHeader line of
        None \<Rightarrow> map_option (\<lambda>(out, changed). (line # out, changed)) (normalize_lines rest)
      | Some (header, oldLines, newLines) \<Rightarrow>
          (case scan_body rest of
             None \<Rightarrow> None
           | Some (body, old, new, after) \<Rightarrow>
               if body = [] then None
               else map_option (\<lambda>(out, changed).
                      (formatHunkHeader header old new # body @ out,
                       changed \<or> old \<noteq> oldLines \<or> new \<noteq> newLines))
                    (normalize_lines after)))"
  by pat_completeness auto
termination
  by (relation "measure length") (auto dest!: scan_body_length)

definition normalizeUnifiedPatchHunkHeaders :: "string \<Rightarrow> string \<times> bool" where
  "normalizeUnifiedPatchHunkHeaders patchText =
     (case normalize_lines (split_lines patchText) of
        None \<Rightarrow> (patchText, False)
      | Some (output, normalized) \<Rightarrow>
          (if normalized then join_lines output else patchText, normalized))"

section \<open>Validation\<close>

datatype patch_reason =
  MultipleFiles | InvalidHunkLine | MissingFileHeader | HunkLineCountMismatch | Unparseable

definition patchInvalidError :: "string \<Rightarrow> patch_reason" where
  "patchInvalidError message =
     (if string_includes message ''only works with a single input'' then MultipleFiles
      else if string_includes message ''contained invalid line'' then InvalidHunkLine
      else if starts_with message ''Missing '' then MissingFileHeader
      else if string_includes message ''line count did not match''
        \<or> string_includes message ''has more lines than expected'' then HunkLineCountMismatch
      else Unparseable)"

text \<open>What \<open>applyPatch\<close> of the \<open>diff\<close> package does: throw, return \<open>false\<close>, or return the new text.\<close>

datatype apply_result = ApplyThrows string | ApplyRejects | Applied ustring

record parsed_hunk =
  ph_oldStart :: int
  ph_oldLines :: int
  ph_newStart :: int
  ph_newLines :: int
  ph_lines :: "string list"

text \<open>\<open>parse\<close> is \<open>parsePatch\<close>: the message it throws, or the hunks of every file it found.\<close>

definition validateUnifiedPatch ::
  "(string \<Rightarrow> string + parsed_hunk list list) \<Rightarrow> string \<Rightarrow> patch_reason + unit" where
  "validateUnifiedPatch parse patchText =
     (case parse patchText of
        Inl message \<Rightarrow> Inl (patchInvalidError message)
      | Inr parsed \<Rightarrow>
          if length parsed \<noteq> 1 \<or> length (hd parsed) < 1 then Inl MultipleFiles
          else if list_ex (\<lambda>h. ph_oldLines h < 0 \<or> ph_newLines h < 0 \<or> length (ph_lines h) < 1) (hd parsed)
          then Inl Unparseable
          else Inr ())"

section \<open>Numbers and lines\<close>

lemma digit_char: "n < 10 \<Longrightarrow> digit (digit_char n) \<and> digit_value (digit_char n) = n"
  by (simp add: digit_def digit_value_def digit_char_def)

lemma number_of_append: "number_of acc (s @ t) = number_of (number_of acc s) t"
  by (induction s arbitrary: acc) simp_all

lemma show_nat: "list_all digit (show_nat n) \<and> show_nat n \<noteq> [] \<and> number_of 0 (show_nat n) = n"
proof (induction n rule: show_nat.induct)
  case (1 n)
  then show ?case
    by (subst (1 2 3) show_nat.simps) (auto simp: digit_char number_of_append)
qed

lemma take_number_show:
  assumes "s = [] \<or> \<not> digit (hd s)"
  shows "take_number (show_nat n @ s) = Some (n, s)"
proof -
  have "takeWhile digit (show_nat n @ s) = show_nat n"
    using show_nat [of n] assms by (cases s) (auto simp: list_all_iff takeWhile_append)
  then show ?thesis using show_nat [of n] by (simp add: take_number_def Let_def)
qed

lemma expect_append: "expect pre (pre @ s) = Some s"
  by (simp add: expect_def starts_with_def)

lemma take_count_show:
  assumes "s = [] \<or> \<not> digit (hd s)"
  shows "take_count ('','' @ show_nat n @ s) = (Some n, s)"
  unfolding take_count_def expect_append by (simp add: take_number_show [OF assms])

lemma parse_format:
  assumes "CHR 0x0A \<notin> set (hh_trailer h)" "CHR 0x0D \<notin> set (hh_trailer h)"
  shows "parseHunkHeader (formatHunkHeader h old new) = Some (h, old, new)"
proof -
  have d: "\<not> digit CHR '',''" "\<not> digit CHR '' ''" by (simp_all add: digit_def)
  have 1: "take_number (show_nat n @ '','' @ s) = Some (n, '','' @ s)" for n s
    by (rule take_number_show) (simp add: d)
  have 2: "take_count ('','' @ show_nat n @ '' +'' @ s) = (Some n, '' +'' @ s)" for n s
    by (rule take_count_show) (simp add: d)
  have 3: "take_count ('','' @ show_nat n @ '' @@'' @ s) = (Some n, '' @@'' @ s)" for n s
    by (rule take_count_show) (simp add: d)
  show ?thesis
    unfolding parseHunkHeader_def formatHunkHeader_def expect_append
    by (simp only: 1 2 3 option.case prod.case expect_append) (use assms in simp)
qed

lemma parse_trailer:
  "parseHunkHeader line = Some (h, old, new) \<Longrightarrow>
    CHR 0x0A \<notin> set (hh_trailer h) \<and> CHR 0x0D \<notin> set (hh_trailer h)"
  by (auto simp: parseHunkHeader_def split: option.splits prod.splits if_splits)

lemma join_split: "join_lines (split_lines s) = s"
proof (induction s)
  case (Cons c cs)
  have "split_lines cs \<noteq> []" by (induction cs) (auto split: list.splits)
  with Cons show ?case
    by (cases "split_lines cs"; cases "tl (split_lines cs)") auto
qed simp

lemma split_lines_line: "CHR 0x0A \<notin> set l \<Longrightarrow> split_lines l = [l]"
  by (induction l) auto

lemma split_lines_append:
  "CHR 0x0A \<notin> set l \<Longrightarrow> split_lines (l @ CHR 0x0A # s) = l # split_lines s"
  by (induction l) auto

lemma split_join:
  assumes "ls \<noteq> []" "\<forall>l \<in> set ls. CHR 0x0A \<notin> set l"
  shows "split_lines (join_lines ls) = ls"
  using assms by (induction ls rule: join_lines.induct) (simp_all add: split_lines_line split_lines_append)

lemma split_lines_ne: "split_lines s \<noteq> []"
  by (induction s) (auto split: list.splits)

lemma split_lines_no_break: "l \<in> set (split_lines s) \<Longrightarrow> CHR 0x0A \<notin> set l"
  by (induction s arbitrary: l) (auto split: if_splits list.splits)

section \<open>What normalisation does\<close>

text \<open>Lines at which the body of a hunk ends.\<close>

definition stops :: "string list \<Rightarrow> bool" where
  "stops ls \<longleftrightarrow> ls = [] \<or> ls = [[]] \<or> parseHunkHeader (hd ls) \<noteq> None \<or> isFileHeader (hd ls)"

lemma parse_Nil [simp]: "parseHunkHeader [] = None"
  by (simp add: parseHunkHeader_def expect_def starts_with_def)

lemma scan_body_stops: "stops ls \<Longrightarrow> scan_body ls = Some ([], 0, 0, ls)"
  by (cases ls) (auto simp: stops_def)

lemma scan_body_split:
  assumes "scan_body ls = Some (body, old, new, after)"
  shows "stops after \<and> (\<forall>after'. length after' = length after \<longrightarrow> stops after' \<longrightarrow>
    scan_body (body @ after') = Some (body, old, new, after'))"
  using assms
proof (induction ls arbitrary: body old new after)
  case Nil
  then show ?case by (auto simp: stops_def)
next
  case (Cons l ls)
  show ?case
  proof (cases "parseHunkHeader l \<noteq> None \<or> isFileHeader l \<or> (l = [] \<and> ls = [])")
    case True
    then have "body = [] \<and> old = 0 \<and> new = 0 \<and> after = l # ls" using Cons.prems by (auto split: if_splits)
    with True show ?thesis using scan_body_stops by (auto simp: stops_def)
  next
    case False
    then obtain dO dN body' o' n' where sc: "scan_body ls = Some (body', o', n', after)"
      and b: "body = l # body'" "old = o' + dO" "new = n' + dN"
      and pre: "(l = [] \<and> dO = 1 \<and> dN = 1) \<or> (l \<noteq> [] \<and> hd l = CHR '' '' \<and> dO = 1 \<and> dN = 1)
        \<or> (l \<noteq> [] \<and> hd l = CHR ''-'' \<and> dO = 1 \<and> dN = 0) \<or> (l \<noteq> [] \<and> hd l = CHR ''+'' \<and> dO = 0 \<and> dN = 1)
        \<or> (l \<noteq> [] \<and> hd l = CHR 0x5C \<and> dO = 0 \<and> dN = 0)"
      using Cons.prems by (auto simp: Let_def split: if_splits)
    note IH = Cons.IH [OF sc]
    have ls: "ls = body' @ after" using scan_body_length [OF sc] by simp
    have "scan_body (body @ after') = Some (body, old, new, after')"
      if "length after' = length after" "stops after'" for after'
    proof -
      have "(l = [] \<and> body' @ after' = []) \<longleftrightarrow> (l = [] \<and> ls = [])" using ls that(1) by auto
      with False have n: "\<not> (parseHunkHeader l \<noteq> None \<or> isFileHeader l)" "\<not> (l = [] \<and> body' @ after' = [])"
        by auto
      have s: "scan_body (body' @ after') = Some (body', o', n', after')" using IH that by blast
      show ?thesis using n s b pre by (auto simp: Let_def)
    qed
    with IH show ?thesis by blast
  qed
qed

definition header_only :: "string \<Rightarrow> string \<Rightarrow> bool" where
  "header_only a b \<longleftrightarrow> a = b \<or> (\<exists>h old new old' new'. parseHunkHeader a = Some (h, old, new)
     \<and> b = formatHunkHeader h old' new')"

lemma header_only_refl: "list_all2 header_only ls ls"
  by (auto simp: list_all2_conv_all_nth header_only_def)

lemma parse_format_line:
  "parseHunkHeader line = Some (h, old, new) \<Longrightarrow>
    parseHunkHeader (formatHunkHeader h old' new') = Some (h, old', new')"
  using parse_trailer parse_format by blast

lemma normalize_lines_spec:
  assumes "normalize_lines ls = Some (out, changed)"
  shows "list_all2 header_only ls out \<and> normalize_lines out = Some (out, False)
    \<and> (stops ls \<longrightarrow> stops out)"
  using assms
proof (induction ls arbitrary: out changed rule: normalize_lines.induct)
  case 1
  then show ?case by (simp add: stops_def)
next
  case (2 line rest)
  show ?case
  proof (cases "parseHunkHeader line")
    case None
    with "2.prems" obtain out' where out: "out = line # out'" "normalize_lines rest = Some (out', changed)"
      by auto
    from "2.IH"(1) [OF None out(2)] have IH: "list_all2 header_only rest out'"
      "normalize_lines out' = Some (out', False)" by auto
    have "stops (line # rest) \<longrightarrow> stops (line # out')"
      using IH(1) None by (auto simp: stops_def)
    moreover have "header_only line line" by (simp add: header_only_def)
    ultimately show ?thesis using IH out(1) None by simp
  next
    case (Some p)
    obtain h oldLines newLines where p: "parseHunkHeader line = Some (h, oldLines, newLines)"
      using Some by (cases p) auto
    with "2.prems" obtain body old new after where sc: "scan_body rest = Some (body, old, new, after)"
      and ne: "body \<noteq> []"
      by (auto split: option.splits if_splits)
    with "2.prems" p obtain out' changed' where n: "normalize_lines after = Some (out', changed')"
      and out: "out = formatHunkHeader h old new # body @ out'"
      by auto
    from "2.IH"(2) [OF p refl refl sc refl refl refl ne n]
    have IH: "list_all2 header_only after out'" "normalize_lines out' = Some (out', False)"
      "stops after \<longrightarrow> stops out'" by auto
    have len: "length out' = length after" using IH(1) by (simp add: list_all2_lengthD)
    have "scan_body (body @ out') = Some (body, old, new, out')"
      using scan_body_split [OF sc] IH(3) len by blast
    then have idem: "normalize_lines out = Some (out, False)"
      using out ne IH(2) parse_format_line [OF p] by simp
    have "rest = body @ after" using scan_body_length [OF sc] by simp
    then have rel: "list_all2 header_only (line # rest) out"
      using out p IH(1) header_only_refl [of body]
      by (auto simp: header_only_def intro!: list_all2_appendI)
    have "stops out" using out parse_format_line [OF p] by (simp add: stops_def)
    with idem rel show ?thesis by blast
  qed
qed

lemma digits_no_break: "CHR 0x0A \<notin> set (show_nat n)"
proof -
  have "\<not> digit (CHR 0x0A)" by (simp add: digit_def)
  with show_nat [of n] show ?thesis by (auto simp: list_all_iff)
qed

lemma format_no_break: "CHR 0x0A \<notin> set (hh_trailer h) \<Longrightarrow> CHR 0x0A \<notin> set (formatHunkHeader h old new)"
  by (simp add: formatHunkHeader_def digits_no_break)

text \<open>
  Normalising a patch only corrects line counts: line by line the result is the input, except
  that a hunk header may be reprinted with other counts, its start lines and its trailer as
  they were; when nothing had to be corrected the text is returned untouched; and the result
  is a fixed point, all its counts agree with the bodies.
\<close>

theorem normalize_patch_spec:
  "list_all2 header_only (split_lines patchText)
      (split_lines (fst (normalizeUnifiedPatchHunkHeaders patchText)))
    \<and> (snd (normalizeUnifiedPatchHunkHeaders patchText)
        \<or> fst (normalizeUnifiedPatchHunkHeaders patchText) = patchText)
    \<and> normalizeUnifiedPatchHunkHeaders (fst (normalizeUnifiedPatchHunkHeaders patchText))
        = (fst (normalizeUnifiedPatchHunkHeaders patchText), False)"
proof (cases "normalize_lines (split_lines patchText)")
  case None
  then show ?thesis by (simp add: normalizeUnifiedPatchHunkHeaders_def header_only_refl)
next
  case (Some r)
  then obtain out changed where n: "normalize_lines (split_lines patchText) = Some (out, changed)"
    by (cases r) auto
  note spec = normalize_lines_spec [OF n]
  show ?thesis
  proof (cases changed)
    case False
    then show ?thesis using n by (simp add: normalizeUnifiedPatchHunkHeaders_def header_only_refl)
  next
    case True
    have "CHR 0x0A \<notin> set b" if "header_only a b" "a \<in> set (split_lines patchText)" for a b
      using that split_lines_no_break parse_trailer format_no_break unfolding header_only_def by metis
    then have "\<forall>l \<in> set out. CHR 0x0A \<notin> set l"
      using spec by (metis in_set_conv_nth list_all2_conv_all_nth)
    moreover have "out \<noteq> []"
      using spec split_lines_ne [of patchText] by auto
    ultimately have "split_lines (join_lines out) = out" by (intro split_join)
    with n True spec show ?thesis by (simp add: normalizeUnifiedPatchHunkHeaders_def)
  qed
qed

text \<open>
  Normalisation breaks a correct patch that deletes a line starting with two dashes and a
  space (a comment in SQL, Lua or Haskell): the deleted line then starts with three dashes and is taken
  for a file header, the body is cut before it, and the correct count of old lines is replaced
  by a wrong one.
\<close>

theorem normalize_cuts_deleted_comment:
  assumes "CHR 0x0A \<notin> set (hh_trailer h)" "CHR 0x0D \<notin> set (hh_trailer h)"
    "parseHunkHeader (CHR '' '' # context) = None" "starts_with comment ''-- ''"
  shows "normalize_lines [formatHunkHeader h 2 1, CHR '' '' # context, CHR ''-'' # comment, []]
    = Some ([formatHunkHeader h 1 1, CHR '' '' # context, CHR ''-'' # comment, []], True)"
proof -
  have f: "isFileHeader (CHR ''-'' # comment)" "parseHunkHeader (CHR ''-'' # comment) = None"
    using assms(4) by (auto simp: isFileHeader_def starts_with_def parseHunkHeader_def expect_def)
  have c: "\<not> isFileHeader (CHR '' '' # context)" by (simp add: isFileHeader_def starts_with_def)
  show ?thesis
    by (simp add: parse_format [OF assms(1,2)] assms(3) f c)
qed

theorem normalize_cuts_deleted_comment_witness:
  "normalizeUnifiedPatchHunkHeaders
     (join_lines [formatHunkHeader \<lparr>hh_oldStart = 1, hh_newStart = 1, hh_trailer = []\<rparr> 2 1,
        '' select 1;'', ''--- old comment'', []])
   = (join_lines [formatHunkHeader \<lparr>hh_oldStart = 1, hh_newStart = 1, hh_trailer = []\<rparr> 1 1,
        '' select 1;'', ''--- old comment'', []], True)"
proof -
  let ?h = "\<lparr>hh_oldStart = 1, hh_newStart = 1, hh_trailer = []\<rparr>"
  have "normalize_lines [formatHunkHeader ?h 2 1, CHR '' '' # ''select 1;'', CHR ''-'' # ''-- old comment'', []]
      = Some ([formatHunkHeader ?h 1 1, CHR '' '' # ''select 1;'', CHR ''-'' # ''-- old comment'', []], True)"
    by (rule normalize_cuts_deleted_comment)
      (simp_all add: parseHunkHeader_def expect_def starts_with_def)
  moreover have "split_lines (join_lines [formatHunkHeader ?h 2 1, '' select 1;'', ''--- old comment'', []])
      = [formatHunkHeader ?h 2 1, '' select 1;'', ''--- old comment'', []]"
    by (rule split_join) (simp_all add: format_no_break)
  ultimately show ?thesis by (simp add: normalizeUnifiedPatchHunkHeaders_def)
qed

end
