(* ===== verification/Crash_Triples.thy ===== *)
theory Crash_Triples
  imports Prelude
begin

text \<open>
  Reasoning about programs on a disk that can crash or fail anywhere. A state \<open>w\<close> has a current
  disk \<open>dsk w\<close> and a history \<open>hist w\<close> of all disks there were. \<open>crash_triple dsk hist R P m Q E\<close>:
  started in a state with \<open>P\<close>, with \<open>R\<close> true of every disk in the history, \<open>m\<close> leaves \<open>R\<close> true of
  every disk it adds, and ends with \<open>Q\<close>, or with \<open>E\<close> when it throws. Used for the patch sets and
  for the file service.
\<close>

section \<open>Loops\<close>

fun each :: "('a \<Rightarrow> ('s, 'e, unit) prog) \<Rightarrow> 'a list \<Rightarrow> ('s, 'e, unit) prog" where
  "each f [] = ret ()"
| "each f (x # xs) = and_then (f x) (\<lambda>_. each f xs)"

text \<open>\<open>Promise.all\<close>: every one runs, the first error is thrown.\<close>

fun each_all :: "('a \<Rightarrow> ('s, 'e, unit) prog) \<Rightarrow> 'a list \<Rightarrow> ('s, 'e, unit) prog" where
  "each_all f [] = ret ()"
| "each_all f (x # xs) = (\<lambda>w.
     (case f x w of (r, w1) \<Rightarrow>
       (case each_all f xs w1 of (r', w2) \<Rightarrow> ((case r of Inl e \<Rightarrow> Inl e | Inr _ \<Rightarrow> r'), w2))))"

definition when' :: "bool \<Rightarrow> ('s, 'e, unit) prog \<Rightarrow> ('s, 'e, unit) prog" where
  "when' b m = (if b then m else ret ())"

section \<open>Reasoning about every state in between\<close>

definition crash_hist :: "('s \<Rightarrow> 'd list) \<Rightarrow> ('d \<Rightarrow> bool) \<Rightarrow> 's \<Rightarrow> bool" where
  "crash_hist hist R w \<longleftrightarrow> (\<forall>d \<in> set (hist w). R d)"

definition crash_triple ::
  "('s \<Rightarrow> 'd) \<Rightarrow> ('s \<Rightarrow> 'd list) \<Rightarrow> ('d \<Rightarrow> bool) \<Rightarrow> ('d \<Rightarrow> bool) \<Rightarrow> ('s, 'e, 'a) prog
   \<Rightarrow> ('a \<Rightarrow> 'd \<Rightarrow> bool) \<Rightarrow> ('d \<Rightarrow> bool) \<Rightarrow> bool"
where
  "crash_triple dsk hist R P m Q E \<longleftrightarrow>
     (\<forall>w res w'. P (dsk w) \<longrightarrow> crash_hist hist R w \<longrightarrow> m w = (res, w') \<longrightarrow>
        crash_hist hist R w' \<and> (\<forall>e. res = Inl e \<longrightarrow> E (dsk w')) \<and> (\<forall>x. res = Inr x \<longrightarrow> Q x (dsk w')))"

lemma tripleI:
  assumes "\<And>w res w'. P (dsk w) \<Longrightarrow> crash_hist hist R w \<Longrightarrow> m w = (res, w') \<Longrightarrow>
    crash_hist hist R w' \<and> (\<forall>e. res = Inl e \<longrightarrow> E (dsk w')) \<and> (\<forall>x. res = Inr x \<longrightarrow> Q x (dsk w'))"
  shows "crash_triple dsk hist R P m Q E"
  using assms unfolding crash_triple_def by blast

lemma tripleD:
  assumes "crash_triple dsk hist R P m Q E" "P (dsk w)" "crash_hist hist R w" "m w = (res, w')"
  shows "crash_hist hist R w'" "res = Inl e \<Longrightarrow> E (dsk w')" "res = Inr x \<Longrightarrow> Q x (dsk w')"
  using assms unfolding crash_triple_def by blast+

lemma triple_conseq:
  assumes "crash_triple dsk hist R P m Q E" "\<And>d. P' d \<Longrightarrow> P d" "\<And>x d. Q x d \<Longrightarrow> Q' x d" "\<And>d. E d \<Longrightarrow> E' d"
  shows "crash_triple dsk hist R P' m Q' E'"
  using tripleD [OF assms(1)] assms(2-) by (intro tripleI) blast

lemma triple_ret: "(\<And>d. P d \<Longrightarrow> Q x d) \<Longrightarrow> crash_triple dsk hist R P (ret x) Q E"
  by (auto simp: crash_triple_def ret_def)

lemma triple_raise: "(\<And>d. P d \<Longrightarrow> E d) \<Longrightarrow> crash_triple dsk hist R P (raise e) Q E"
  by (auto simp: crash_triple_def raise_def)

lemma triple_and_then:
  assumes "crash_triple dsk hist R P m Q' E" "\<And>x. crash_triple dsk hist R (Q' x) (f x) Q E"
  shows "crash_triple dsk hist R P (and_then m f) Q E"
proof (rule tripleI)
  fix w res w' assume w: "P (dsk w)" "crash_hist hist R w" and e: "and_then m f w = (res, w')"
  obtain r w1 where m: "m w = (r, w1)" by fastforce
  note D = tripleD [OF assms(1) w m]
  show "crash_hist hist R w' \<and> (\<forall>e. res = Inl e \<longrightarrow> E (dsk w')) \<and> (\<forall>x. res = Inr x \<longrightarrow> Q x (dsk w'))"
  proof (cases r)
    case (Inl e')
    with e m D show ?thesis by (auto simp: and_then_def)
  next
    case (Inr x)
    with e m have "f x w1 = (res, w')" by (simp add: and_then_def)
    with tripleD [OF assms(2) D(3) [OF Inr] D(1) this] show ?thesis by blast
  qed
qed

lemma triple_catching:
  assumes "crash_triple dsk hist R P m Q E'" "\<And>e. crash_triple dsk hist R E' (h e) Q E"
  shows "crash_triple dsk hist R P (catching m h) Q E"
proof (rule tripleI)
  fix w res w' assume w: "P (dsk w)" "crash_hist hist R w" and e: "catching m h w = (res, w')"
  obtain r w1 where m: "m w = (r, w1)" by fastforce
  note D = tripleD [OF assms(1) w m]
  show "crash_hist hist R w' \<and> (\<forall>e. res = Inl e \<longrightarrow> E (dsk w')) \<and> (\<forall>x. res = Inr x \<longrightarrow> Q x (dsk w'))"
  proof (cases r)
    case (Inr x)
    with e m D show ?thesis by (auto simp: catching_def)
  next
    case (Inl e')
    with e m have "h e' w1 = (res, w')" by (simp add: catching_def)
    with tripleD [OF assms(2) D(2) [OF Inl] D(1) this] show ?thesis by blast
  qed
qed

lemma triple_pure:
  "(b \<Longrightarrow> crash_triple dsk hist R P m Q E) \<Longrightarrow> crash_triple dsk hist R (\<lambda>d. b \<and> P d) m Q E"
  by (auto simp: crash_triple_def)

lemma triple_if:
  "(b \<Longrightarrow> crash_triple dsk hist R P m Q E) \<Longrightarrow> (\<not> b \<Longrightarrow> crash_triple dsk hist R P m' Q E) \<Longrightarrow> crash_triple dsk hist R P (if b then m else m') Q E"
  by simp

lemma triple_each:
  assumes "\<And>x done rest. xs = done @ x # rest \<Longrightarrow> crash_triple dsk hist R (I (x # rest)) (f x) (\<lambda>_. I rest) E"
  shows "crash_triple dsk hist R (I xs) (each f xs) (\<lambda>_. I []) E"
  using assms
proof (induction xs)
  case Nil
  show ?case by (simp add: triple_ret)
next
  case (Cons x xs)
  have "crash_triple dsk hist R (I (x # xs)) (f x) (\<lambda>_. I xs) E" using Cons.prems [of "[]" x xs] by simp
  moreover have "crash_triple dsk hist R (I xs) (each f xs) (\<lambda>_. I []) E"
    by (rule Cons.IH) (use Cons.prems in \<open>metis append_Cons\<close>)
  ultimately show ?case by (simp add: triple_and_then)
qed

text \<open>An invariant that does not depend on the position.\<close>

lemma triple_each_inv:
  assumes "\<And>x. x \<in> set xs \<Longrightarrow> crash_triple dsk hist R I (f x) (\<lambda>_. I) E"
  shows "crash_triple dsk hist R I (each f xs) (\<lambda>_. I) E"
  by (rule triple_each [where I = "\<lambda>_. I"]) (use assms in auto)

lemma triple_each_all:
  assumes "\<And>x. x \<in> set xs \<Longrightarrow> crash_triple dsk hist R I (f x) (\<lambda>_. I) I"
  shows "crash_triple dsk hist R I (each_all f xs) (\<lambda>_. I) I"
  using assms
proof (induction xs)
  case Nil
  show ?case by (simp add: triple_ret)
next
  case (Cons x xs)
  have h: "crash_triple dsk hist R I (f x) (\<lambda>_. I) I" "crash_triple dsk hist R I (each_all f xs) (\<lambda>_. I) I" using Cons by auto
  show ?case
  proof (rule tripleI)
    fix w res w' assume w: "I (dsk w)" "crash_hist hist R w" and e: "each_all f (x # xs) w = (res, w')"
    obtain r w1 where 1: "f x w = (r, w1)" by fastforce
    obtain r' w2 where 2: "each_all f xs w1 = (r', w2)" by fastforce
    note D = tripleD [OF h(1) w 1]
    have I1: "I (dsk w1)" using D(2,3) by (cases r) auto
    note D2 = tripleD [OF h(2) I1 D(1) 2]
    have "I (dsk w2)" using D2(2,3) by (cases r') auto
    moreover have "w' = w2" using e 1 2 by simp
    ultimately show "crash_hist hist R w' \<and> (\<forall>e. res = Inl e \<longrightarrow> I (dsk w')) \<and> (\<forall>x. res = Inr x \<longrightarrow> I (dsk w'))"
      using D2(1) by simp
  qed
qed

lemma triple_read:
  assumes "\<And>w res w'. P (dsk w) \<Longrightarrow> m w = (res, w') \<Longrightarrow> w' = w \<and>
    (\<forall>e. res = Inl e \<longrightarrow> E (dsk w)) \<and> (\<forall>x. res = Inr x \<longrightarrow> Q x (dsk w))"
  shows "crash_triple dsk hist R P m Q E"
  using assms by (intro tripleI) blast

lemma and_then_InrD:
  "and_then m f w = (Inr y, w') \<Longrightarrow> \<exists>x w1. m w = (Inr x, w1) \<and> f x w1 = (Inr y, w')"
  by (auto simp: and_then_def split: prod.splits sum.splits)

end
