(* ===== verification/Patch_Set.thy ===== *)
theory Patch_Set
  imports Path_Policy Unified_Patch Utf8_Boundary Crash_Triples "HOL-Library.List_Lexorder" "HOL-Library.Char_ord"
begin

text \<open>
  \<open>src/src/fs/patch-set-service.ts\<close>: patches to several files as one transaction, with a journal
  on disk so that a crash can be undone. The file system is explicit: a map from paths to
  nodes and the journal directory. Every operation on it first consults \<open>pc_fails\<close>, which says
  for the n-th operation whether it fails with an input/output error, so a theorem for all
  \<open>pc_fails\<close> covers every error path; after every change the new state is added to
  \<open>pw_history\<close>, so the history lists all states in which a crash can leave the disk.

  Opening a file for exclusive creation and writing it are two steps. A journal is written to a
  temporary file and renamed, so it is one step; the temporary file is not a journal name and
  is left out. Parameters (fields of \<open>patch_config\<close>): SHA-256, \<open>parsePatch\<close> and \<open>applyPatch\<close> of the
  \<open>diff\<close> package, the path policy's \<open>resolve\<close>, \<open>realpath\<close>, the process umask, the size of a serialised
  journal. A patch text is the character list of its UTF-8 encoding.
\<close>

datatype node = Regular "byte list" nat | Symlink | Directory

datatype journal_state = Prepared | Committing | Committed

datatype patch_error =
    PeLimit
  | PePolicy
  | PeConflict
  | PeRecovery
  | PePatchInvalid patch_reason
  | PeMissing
  | PeIo

record patch_input =
  pi_path :: string
  pi_patch :: string
  pi_expectedSha256 :: string

record prepared_patch =
  pp_target :: abspath
  pp_original :: "byte list"
  pp_replacement :: "byte list"
  pp_originalSha256 :: string
  pp_newSha256 :: string
  pp_mode :: nat
  pp_temp :: abspath
  pp_backup :: abspath

record journal_entry =
  je_target :: abspath
  je_temp :: abspath
  je_backup :: abspath
  je_originalSha256 :: string
  je_newSha256 :: string
  je_mode :: nat

record patch_journal =
  jn_transactionId :: string
  jn_scopeFingerprint :: string
  jn_state :: journal_state
  jn_entries :: "journal_entry list"

text \<open>A file of the journal directory: a parsed journal, or something that is not one.\<close>

datatype journal_file = JournalGarbage | JournalOf patch_journal

record patch_config =
  pc_sha :: "byte list \<Rightarrow> string"
  pc_parse :: "string \<Rightarrow> string + parsed_hunk list list"
  pc_applyPatch :: "ustring \<Rightarrow> string \<Rightarrow> apply_result"
  pc_resolve :: "string \<Rightarrow> policy_error + abspath"
  pc_realpath :: "abspath \<Rightarrow> abspath option"
  pc_umask :: "nat \<Rightarrow> nat"
  pc_roots :: "abspath list"
  pc_fingerprint :: string
  pc_maxReadBytes :: nat
  pc_maxWriteBytes :: nat
  pc_journalBytes :: "patch_journal \<Rightarrow> nat"
  pc_fails :: "nat \<Rightarrow> bool"

type_synonym disk = "(abspath \<Rightarrow> node option) \<times> (string \<times> journal_file) list"

record pworld =
  pw_files :: "abspath \<Rightarrow> node option"
  pw_journals :: "(string \<times> journal_file) list"
  pw_history :: "disk list"
  pw_ops :: nat

type_synonym 'a patch_m = "(pworld, patch_error, 'a) prog"

section \<open>The file system\<close>

definition disk_of :: "pworld \<Rightarrow> disk" where
  "disk_of w = (pw_files w, pw_journals w)"

text \<open>One operation: it fails, or changes (or reads) the disk.\<close>

definition io :: "patch_config \<Rightarrow> 'a patch_m \<Rightarrow> 'a patch_m" where
  "io c m = (\<lambda>w. let w1 = w\<lparr>pw_ops := pw_ops w + 1\<rparr>
     in if pc_fails c (pw_ops w) then (Inl PeIo, w1) else m w1)"

definition set_files :: "(abspath \<Rightarrow> node option) \<Rightarrow> unit patch_m" where
  "set_files fs = (\<lambda>w. (Inr (), w\<lparr>pw_files := fs, pw_history := pw_history w @ [(fs, pw_journals w)]\<rparr>))"

definition set_journals :: "(string \<times> journal_file) list \<Rightarrow> unit patch_m" where
  "set_journals js = (\<lambda>w. (Inr (), w\<lparr>pw_journals := js, pw_history := pw_history w @ [(pw_files w, js)]\<rparr>))"

definition fs_exists :: "patch_config \<Rightarrow> abspath \<Rightarrow> bool patch_m" where
  "fs_exists c p = io c (\<lambda>w. (Inr (pw_files w p \<noteq> None), w))"

definition readRegularNoFollow :: "patch_config \<Rightarrow> abspath \<Rightarrow> (byte list \<times> nat) patch_m" where
  "readRegularNoFollow c p = io c (\<lambda>w.
     (case pw_files w p of
        None \<Rightarrow> (Inl PeMissing, w)
      | Some Symlink \<Rightarrow> (Inl PePolicy, w)
      | Some Directory \<Rightarrow> (Inl PePolicy, w)
      | Some (Regular b mode) \<Rightarrow>
          if length b > pc_maxReadBytes c then (Inl PeLimit, w) else (Inr (b, mode), w)))"

definition safeUnlink :: "patch_config \<Rightarrow> abspath \<Rightarrow> unit patch_m" where
  "safeUnlink c p = io c (\<lambda>w.
     (case pw_files w p of
        None \<Rightarrow> (Inr (), w)
      | Some Directory \<Rightarrow> (Inl PeIo, w)
      | Some _ \<Rightarrow> set_files ((pw_files w)(p := None)) w))"

definition fs_rename :: "patch_config \<Rightarrow> abspath \<Rightarrow> abspath \<Rightarrow> unit patch_m" where
  "fs_rename c a b = io c (\<lambda>w.
     (case pw_files w a of
        None \<Rightarrow> (Inl PeMissing, w)
      | Some n \<Rightarrow>
          if pw_files w b = Some Directory then (Inl PeIo, w)
          else set_files ((pw_files w)(b := Some n, a := None)) w))"

definition writeExclusive :: "patch_config \<Rightarrow> abspath \<Rightarrow> nat \<Rightarrow> byte list \<Rightarrow> unit patch_m" where
  "writeExclusive c p mode content =
     and_then (io c (\<lambda>w. if pw_files w p \<noteq> None then (Inl PeIo, w)
                         else set_files ((pw_files w)(p := Some (Regular [] (pc_umask c mode)))) w))
       (\<lambda>_. io c (\<lambda>w. set_files ((pw_files w)(p := Some (Regular content (pc_umask c mode)))) w))"

definition writeJournal :: "patch_config \<Rightarrow> patch_journal \<Rightarrow> unit patch_m" where
  "writeJournal c j = io c (\<lambda>w.
     set_journals (put_key fst (jn_transactionId j, JournalOf j) (pw_journals w)) w)"

definition unlinkJournal :: "patch_config \<Rightarrow> string \<Rightarrow> unit patch_m" where
  "unlinkJournal c tid = io c (\<lambda>w.
     if find_key fst tid (pw_journals w) = None then (Inr (), w)
     else set_journals (del_key fst tid (pw_journals w)) w)"

definition journalExists :: "patch_config \<Rightarrow> string \<Rightarrow> bool patch_m" where
  "journalExists c tid = io c (\<lambda>w. (Inr (find_key fst tid (pw_journals w) \<noteq> None), w))"

section \<open>Journals\<close>

definition MAX_PATCH_COUNT :: nat where "MAX_PATCH_COUNT = 100"
definition MAX_TOTAL_PATCH_BYTES :: nat where "MAX_TOTAL_PATCH_BYTES = 4 * 1024 * 1024"
definition MAX_TRANSACTION_BYTES :: nat where "MAX_TRANSACTION_BYTES = 16 * 1024 * 1024"
definition MAX_JOURNALS :: nat where "MAX_JOURNALS = 32"

definition requirePatchCount :: "nat \<Rightarrow> unit patch_m" where
  "requirePatchCount count =
     (if count < 1 \<or> count > MAX_PATCH_COUNT then raise PeLimit else ret ())"

definition hex64 :: "string \<Rightarrow> bool" where
  "hex64 s \<longleftrightarrow> length s = 64 \<and> list_all (\<lambda>ch. ch \<in> set ''0123456789abcdef'') s"

definition journalShape :: "patch_journal \<Rightarrow> bool" where
  "journalShape j \<longleftrightarrow> 1 \<le> length (jn_entries j) \<and> length (jn_entries j) \<le> MAX_PATCH_COUNT
     \<and> list_all (\<lambda>e. hex64 (je_originalSha256 e) \<and> hex64 (je_newSha256 e)) (jn_entries j)"

definition artifactPath :: "abspath \<Rightarrow> string \<Rightarrow> string \<Rightarrow> abspath" where
  "artifactPath target transactionId ext =
     butlast target @ [''.'' @ last target @ ''.'' @ transactionId @ ext]"

definition validateJournalEntry :: "patch_config \<Rightarrow> journal_entry \<Rightarrow> unit patch_m" where
  "validateJournalEntry c e =
     (if \<not> list_ex (\<lambda>root. isInside root (je_target e)) (pc_roots c) then raise PeRecovery
      else if butlast (je_temp e) \<noteq> butlast (je_target e) \<or> butlast (je_backup e) \<noteq> butlast (je_target e)
      then raise PeRecovery
      else if \<not> starts_with (last (je_temp e)) (''.'' @ last (je_target e) @ ''.'')
        \<or> \<not> ends_with (last (je_temp e)) ''.next''
        \<or> \<not> starts_with (last (je_backup e)) (''.'' @ last (je_target e) @ ''.'')
        \<or> \<not> ends_with (last (je_backup e)) ''.backup''
      then raise PeRecovery else ret ())"

definition targetHash :: "patch_config \<Rightarrow> abspath \<Rightarrow> string option patch_m" where
  "targetHash c p =
     catching (and_then (readRegularNoFollow c p) (\<lambda>(b, _). ret (Some (pc_sha c b))))
       (\<lambda>e. if e = PeMissing then ret None else raise e)"

definition cleanupJournal :: "patch_config \<Rightarrow> patch_journal \<Rightarrow> string \<Rightarrow> unit patch_m" where
  "cleanupJournal c j journalPath =
     and_then (each (\<lambda>e. and_then (safeUnlink c (je_temp e)) (\<lambda>_. safeUnlink c (je_backup e))) (jn_entries j))
       (\<lambda>_. unlinkJournal c journalPath)"

definition rollbackEntry :: "patch_config \<Rightarrow> journal_entry \<Rightarrow> unit patch_m" where
  "rollbackEntry c e =
     and_then (validateJournalEntry c e) (\<lambda>_.
     and_then (targetHash c (je_target e)) (\<lambda>currentHash.
       if currentHash = Some (je_originalSha256 e) then ret ()
       else if currentHash \<noteq> Some (je_newSha256 e) then raise PeRecovery
       else and_then (fs_exists c (je_backup e)) (\<lambda>ex.
         if \<not> ex then raise PeRecovery
         else and_then (readRegularNoFollow c (je_backup e)) (\<lambda>(backup, _).
           if pc_sha c backup \<noteq> je_originalSha256 e then raise PeRecovery
           else fs_rename c (je_backup e) (je_target e)))))"

definition rollbackCommitting :: "patch_config \<Rightarrow> patch_journal \<Rightarrow> string \<Rightarrow> unit patch_m" where
  "rollbackCommitting c j journalPath =
     and_then (each (rollbackEntry c) (jn_entries j)) (\<lambda>_. cleanupJournal c j journalPath)"

definition requireHashes ::
  "patch_config \<Rightarrow> (journal_entry \<Rightarrow> string) \<Rightarrow> journal_entry list \<Rightarrow> unit patch_m" where
  "requireHashes c expected es =
     each (\<lambda>e. and_then (targetHash c (je_target e)) (\<lambda>currentHash.
       if currentHash \<noteq> Some (expected e) then raise PeRecovery else ret ())) es"

text \<open>The journal whose file is named after \<open>tid\<close>; reading it is one operation.\<close>

definition recoverOne :: "patch_config \<Rightarrow> string \<Rightarrow> unit patch_m" where
  "recoverOne c tid =
     and_then (catching (io c (\<lambda>w. (case find_key fst tid (pw_journals w) of
         None \<Rightarrow> (Inl PeMissing, w) | Some (_, f) \<Rightarrow> (Inr f, w)))) (\<lambda>e. raise PeRecovery)) (\<lambda>f.
     (case f of
        JournalGarbage \<Rightarrow> raise PeRecovery
      | JournalOf j \<Rightarrow>
          if pc_journalBytes c j > pc_maxWriteBytes c then raise PeRecovery
          else if \<not> journalShape j \<or> jn_scopeFingerprint j \<noteq> pc_fingerprint c then raise PeRecovery
          else and_then (each (validateJournalEntry c) (jn_entries j)) (\<lambda>_.
            (case jn_state j of
               Prepared \<Rightarrow>
                 and_then (requireHashes c je_originalSha256 (jn_entries j)) (\<lambda>_. cleanupJournal c j tid)
             | Committing \<Rightarrow> rollbackCommitting c j tid
             | Committed \<Rightarrow>
                 and_then (requireHashes c je_newSha256 (jn_entries j)) (\<lambda>_. cleanupJournal c j tid)))))"

definition recoverPending :: "patch_config \<Rightarrow> nat patch_m" where
  "recoverPending c =
     and_then (io c (\<lambda>w. (Inr (sort (map fst (pw_journals w))), w))) (\<lambda>journals.
       if length journals > MAX_JOURNALS then raise PeRecovery
       else and_then (each (recoverOne c) journals) (\<lambda>_. ret (length journals)))"

section \<open>Preparing\<close>

definition policyError :: "policy_error \<Rightarrow> patch_error" where
  "policyError e = (if e = FsError then PeIo else PePolicy)"

definition prepareOne ::
  "patch_config \<Rightarrow> string \<Rightarrow> patch_input \<Rightarrow> abspath list \<Rightarrow> (prepared_patch \<times> abspath) patch_m" where
  "prepareOne c transactionId input seen =
     (case pc_resolve c (pi_path input) of
        Inl e \<Rightarrow> raise (policyError e)
      | Inr target \<Rightarrow>
          and_then (io c (\<lambda>w. (case pw_files w target of
             None \<Rightarrow> (Inl PeMissing, w)
           | Some (Regular b m) \<Rightarrow> (Inr (), w)
           | Some _ \<Rightarrow> (Inl PePolicy, w)))) (\<lambda>_.
          (case pc_realpath c target of
             None \<Rightarrow> raise PeIo
           | Some canonical \<Rightarrow>
               if canonical \<in> set seen then raise PePolicy
               else and_then (readRegularNoFollow c target) (\<lambda>(current, mode).
                 if pc_sha c current \<noteq> pi_expectedSha256 input then raise PeConflict
                 else
                   (let normalized = fst (normalizeUnifiedPatchHunkHeaders (pi_patch input))
                    in case validateUnifiedPatch (pc_parse c) normalized of
                         Inl reason \<Rightarrow> raise (PePatchInvalid reason)
                       | Inr _ \<Rightarrow>
                           (case pc_applyPatch c (utf8_decode current) normalized of
                              ApplyThrows message \<Rightarrow> raise (PePatchInvalid (patchInvalidError message))
                            | ApplyRejects \<Rightarrow> raise PeConflict
                            | Applied patched \<Rightarrow>
                                (let replacement = utf8_encode patched
                                 in if length replacement > pc_maxWriteBytes c then raise PeLimit
                                    else ret
                                      (\<lparr>pp_target = target, pp_original = current,
                                        pp_replacement = replacement,
                                        pp_originalSha256 = pc_sha c current,
                                        pp_newSha256 = pc_sha c replacement, pp_mode = mode,
                                        pp_temp = artifactPath target transactionId ''.next'',
                                        pp_backup = artifactPath target transactionId ''.backup''\<rparr>,
                                       canonical))))))))"

fun prepareEach ::
  "patch_config \<Rightarrow> string \<Rightarrow> patch_input list \<Rightarrow> nat \<Rightarrow> nat \<Rightarrow> abspath list \<Rightarrow> prepared_patch list patch_m"
where
  "prepareEach c transactionId [] patchBytes transactionBytes seen = ret []"
| "prepareEach c transactionId (input # inputs) patchBytes transactionBytes seen =
     (let patchBytes' = patchBytes + length (pi_patch input)
      in if patchBytes' > MAX_TOTAL_PATCH_BYTES then raise PeLimit
         else and_then (prepareOne c transactionId input seen) (\<lambda>(p, canonical).
           (let transactionBytes' = transactionBytes + length (pp_original p) + length (pp_replacement p)
            in if transactionBytes' > MAX_TRANSACTION_BYTES then raise PeLimit
               else and_then (prepareEach c transactionId inputs patchBytes' transactionBytes' (canonical # seen))
                      (\<lambda>ps. ret (p # ps)))))"

definition prepare :: "patch_config \<Rightarrow> patch_input list \<Rightarrow> string \<Rightarrow> prepared_patch list patch_m" where
  "prepare c inputs transactionId =
     and_then (requirePatchCount (length inputs)) (\<lambda>_. prepareEach c transactionId inputs 0 0 [])"

section \<open>Applying\<close>

text \<open>
  The loop of \<open>materializeTransaction\<close> with the files it has created; on an error these are
  removed.
\<close>

fun materializeEach ::
  "patch_config \<Rightarrow> prepared_patch list \<Rightarrow> abspath list \<Rightarrow> unit patch_m" where
  "materializeEach c [] created = ret ()"
| "materializeEach c (p # ps) created =
     (let undo = (\<lambda>created m. catching m (\<lambda>e. and_then (each_all (safeUnlink c) created) (\<lambda>_. raise e)))
      in and_then (undo created (writeExclusive c (pp_backup p) (pp_mode p) (pp_original p))) (\<lambda>_.
         and_then (undo (created @ [pp_backup p]) (writeExclusive c (pp_temp p) (pp_mode p) (pp_replacement p)))
           (\<lambda>_. materializeEach c ps (created @ [pp_backup p, pp_temp p]))))"

definition materializeTransaction :: "patch_config \<Rightarrow> prepared_patch list \<Rightarrow> unit patch_m" where
  "materializeTransaction c entries = materializeEach c entries []"

definition toJournal :: "patch_config \<Rightarrow> string \<Rightarrow> journal_state \<Rightarrow> prepared_patch list \<Rightarrow> patch_journal" where
  "toJournal c transactionId st entries =
     \<lparr>jn_transactionId = transactionId, jn_scopeFingerprint = pc_fingerprint c, jn_state = st,
      jn_entries = map (\<lambda>p. \<lparr>je_target = pp_target p, je_temp = pp_temp p, je_backup = pp_backup p,
        je_originalSha256 = pp_originalSha256 p, je_newSha256 = pp_newSha256 p, je_mode = pp_mode p\<rparr>)
        entries\<rparr>"

definition cleanupPrepared :: "patch_config \<Rightarrow> prepared_patch list \<Rightarrow> string option \<Rightarrow> unit patch_m" where
  "cleanupPrepared c entries journal =
     and_then (each (\<lambda>p. and_then (safeUnlink c (pp_temp p)) (\<lambda>_. safeUnlink c (pp_backup p))) entries)
       (\<lambda>_. case journal of None \<Rightarrow> ret () | Some tid \<Rightarrow> unlinkJournal c tid)"

text \<open>The body of the audited operation in \<open>applyLocked\<close>.\<close>

definition commitEntries :: "patch_config \<Rightarrow> string \<Rightarrow> prepared_patch list \<Rightarrow> unit patch_m" where
  "commitEntries c transactionId entries =
     and_then (writeJournal c (toJournal c transactionId Prepared entries)) (\<lambda>_.
     and_then (each (\<lambda>p. and_then (readRegularNoFollow c (pp_target p)) (\<lambda>(current, _).
         if pc_sha c current \<noteq> pp_originalSha256 p
         then and_then (cleanupPrepared c entries (Some transactionId)) (\<lambda>_. raise PeConflict)
         else ret ())) entries) (\<lambda>_.
     and_then (writeJournal c (toJournal c transactionId Committing entries)) (\<lambda>_.
     and_then (catching (each (\<lambda>p. fs_rename c (pp_temp p) (pp_target p)) entries)
         (\<lambda>e. and_then (catching (rollbackCommitting c (toJournal c transactionId Committing entries) transactionId)
                         (\<lambda>r. raise PeRecovery)) (\<lambda>_. raise e))) (\<lambda>_.
     and_then (writeJournal c (toJournal c transactionId Committed entries)) (\<lambda>_.
       cleanupJournal c (toJournal c transactionId Committed entries) transactionId)))))"

definition applyEntries :: "patch_config \<Rightarrow> string \<Rightarrow> prepared_patch list \<Rightarrow> unit patch_m" where
  "applyEntries c transactionId entries =
     and_then (materializeTransaction c entries) (\<lambda>_.
     catching (commitEntries c transactionId entries) (\<lambda>e.
       and_then
         (when' (e \<noteq> PeRecovery)
           (and_then (journalExists c transactionId) (\<lambda>ex.
              when' (\<not> ex) (cleanupPrepared c entries None))))
         (\<lambda>_. raise e)))"

text \<open>
  \<open>applyLocked\<close>: what is returned is the number of recovered transactions and the new sizes and
  hashes.
\<close>

definition applyLocked ::
  "patch_config \<Rightarrow> string \<Rightarrow> patch_input list \<Rightarrow> (nat \<times> (abspath \<times> nat \<times> string) list) patch_m" where
  "applyLocked c transactionId inputs =
     and_then (recoverPending c) (\<lambda>recovered.
     and_then (prepare c inputs transactionId) (\<lambda>entries.
     and_then (applyEntries c transactionId entries) (\<lambda>_.
       ret (recovered, map (\<lambda>p. (pp_target p, length (pp_replacement p), pp_newSha256 p)) entries))))"

definition applyPatchSet ::
  "patch_config \<Rightarrow> string \<Rightarrow> patch_input list \<Rightarrow> (nat \<times> (abspath \<times> nat \<times> string) list) patch_m" where
  "applyPatchSet c transactionId inputs =
     and_then (requirePatchCount (length inputs)) (\<lambda>_.
       if list_ex (\<lambda>i. case pc_resolve c (pi_path i) of Inl _ \<Rightarrow> True | Inr _ \<Rightarrow> False) inputs
       then raise PePolicy else applyLocked c transactionId inputs)"

section \<open>Reasoning about every state in between\<close>

abbreviation hist_ok :: "(disk \<Rightarrow> bool) \<Rightarrow> pworld \<Rightarrow> bool" where
  "hist_ok \<equiv> crash_hist pw_history"

abbreviation triple ::
  "(disk \<Rightarrow> bool) \<Rightarrow> (disk \<Rightarrow> bool) \<Rightarrow> 'a patch_m \<Rightarrow> ('a \<Rightarrow> disk \<Rightarrow> bool) \<Rightarrow> (disk \<Rightarrow> bool) \<Rightarrow> bool"
where
  "triple \<equiv> crash_triple disk_of pw_history"

lemma triple_io:
  assumes "triple R P m Q E" "\<And>d n. pc_fails c n \<Longrightarrow> P d \<Longrightarrow> E d"
  shows "triple R P (io c m) Q E"
proof (rule tripleI)
  fix w res w' assume w: "P (disk_of w)" "hist_ok R w" and e: "io c m w = (res, w')"
  let ?w = "w\<lparr>pw_ops := pw_ops w + 1\<rparr>"
  have w1: "disk_of ?w = disk_of w" "hist_ok R ?w" using w(2) by (simp_all add: disk_of_def crash_hist_def)
  show "hist_ok R w' \<and> (\<forall>e. res = Inl e \<longrightarrow> E (disk_of w')) \<and> (\<forall>x. res = Inr x \<longrightarrow> Q x (disk_of w'))"
  proof (cases "pc_fails c (pw_ops w)")
    case True
    with e w w1 assms(2) show ?thesis by (auto simp: io_def Let_def)
  next
    case False
    with e have "m ?w = (res, w')" by (simp add: io_def Let_def)
    with tripleD [OF assms(1), of ?w] w w1 show ?thesis by auto
  qed
qed

lemma set_files_effect:
  assumes "set_files fs w = (res, w')" "hist_ok R w" "R (fs, pw_journals w)"
  shows "hist_ok R w' \<and> res = Inr () \<and> disk_of w' = (fs, pw_journals w)"
  using assms by (auto simp: set_files_def disk_of_def crash_hist_def)

lemma set_journals_effect:
  assumes "set_journals js w = (res, w')" "hist_ok R w" "R (pw_files w, js)"
  shows "hist_ok R w' \<and> res = Inr () \<and> disk_of w' = (pw_files w, js)"
  using assms by (auto simp: set_journals_def disk_of_def crash_hist_def)

lemma triple_unlink:
  assumes "\<And>d n. pc_fails c n \<Longrightarrow> P d \<Longrightarrow> E d" "\<And>d. P d \<Longrightarrow> fst d p = Some Directory \<Longrightarrow> E d"
    "\<And>d. P d \<Longrightarrow> fst d p = None \<Longrightarrow> Q () d"
    "\<And>d. P d \<Longrightarrow> R ((fst d)(p := None), snd d) \<and> Q () ((fst d)(p := None), snd d)"
  shows "triple R P (safeUnlink c p) Q E"
  unfolding safeUnlink_def
proof (rule triple_io [OF tripleI])
  fix w res w' assume w: "P (disk_of w)" "hist_ok R w"
    and e: "(case pw_files w p of None \<Rightarrow> (Inr (), w) | Some Directory \<Rightarrow> (Inl PeIo, w)
      | Some _ \<Rightarrow> set_files ((pw_files w)(p := None)) w) = (res, w')"
  have d: "fst (disk_of w) = pw_files w" "snd (disk_of w) = pw_journals w" by (simp_all add: disk_of_def)
  consider "pw_files w p = None" | "pw_files w p = Some Directory"
    | "set_files ((pw_files w)(p := None)) w = (res, w')"
    using e by (auto split: option.splits node.splits)
  then show "hist_ok R w' \<and> (\<forall>e. res = Inl e \<longrightarrow> E (disk_of w')) \<and> (\<forall>x. res = Inr x \<longrightarrow> Q x (disk_of w'))"
  proof cases
    case 3
    from assms(4) [OF w(1)] d set_files_effect [OF 3 w(2)] show ?thesis by simp
  qed (use e w assms(2,3) d in auto)
qed (rule assms(1))

lemma triple_rename:
  assumes "\<And>d n. pc_fails c n \<Longrightarrow> P d \<Longrightarrow> E d"
    "\<And>d. P d \<Longrightarrow> fst d a = None \<or> fst d b = Some Directory \<Longrightarrow> E d"
    "\<And>d n. P d \<Longrightarrow> fst d a = Some n \<Longrightarrow>
      R ((fst d)(b := Some n, a := None), snd d) \<and> Q () ((fst d)(b := Some n, a := None), snd d)"
  shows "triple R P (fs_rename c a b) Q E"
  unfolding fs_rename_def
proof (rule triple_io [OF tripleI])
  fix w res w' assume w: "P (disk_of w)" "hist_ok R w"
    and e: "(case pw_files w a of None \<Rightarrow> (Inl PeMissing, w)
      | Some n \<Rightarrow> if pw_files w b = Some Directory then (Inl PeIo, w)
          else set_files ((pw_files w)(b := Some n, a := None)) w) = (res, w')"
  have d: "fst (disk_of w) = pw_files w" "snd (disk_of w) = pw_journals w" by (simp_all add: disk_of_def)
  consider "w' = w" "res \<in> {Inl PeMissing, Inl PeIo}" "pw_files w a = None \<or> pw_files w b = Some Directory"
    | n where "pw_files w a = Some n" "set_files ((pw_files w)(b := Some n, a := None)) w = (res, w')"
    using e by (auto split: option.splits if_splits)
  then show "hist_ok R w' \<and> (\<forall>e. res = Inl e \<longrightarrow> E (disk_of w')) \<and> (\<forall>x. res = Inr x \<longrightarrow> Q x (disk_of w'))"
  proof cases
    case (2 n)
    with assms(3) [OF w(1), of n] d set_files_effect [OF 2(2) w(2)] show ?thesis by simp
  qed (use w assms(2) [of "disk_of w"] d in auto)
qed (rule assms(1))

lemma triple_write:
  assumes "\<And>d. P d \<Longrightarrow> E d"
    "\<And>d n. P d \<Longrightarrow> fst d p = None \<Longrightarrow> R ((fst d)(p := Some (Regular [] n)), snd d)
      \<and> E ((fst d)(p := Some (Regular [] n)), snd d)"
    "\<And>d n. P d \<Longrightarrow> fst d p = None \<Longrightarrow> R ((fst d)(p := Some (Regular content n)), snd d)
      \<and> Q () ((fst d)(p := Some (Regular content n)), snd d)"
  shows "triple R P (writeExclusive c p mode content) Q E"
  unfolding writeExclusive_def
proof (rule triple_and_then)
  let ?n = "pc_umask c mode"
  let ?M = "\<lambda>x d. \<exists>d0. P d0 \<and> fst d0 p = None \<and> d = ((fst d0)(p := Some (Regular [] ?n)), snd d0)"
  show "triple R P (io c (\<lambda>w. if pw_files w p \<noteq> None then (Inl PeIo, w)
      else set_files ((pw_files w)(p := Some (Regular [] ?n))) w)) ?M E"
  proof (rule triple_io [OF tripleI])
    fix w res w' assume w: "P (disk_of w)" "hist_ok R w"
      and e: "(if pw_files w p \<noteq> None then (Inl PeIo, w)
        else set_files ((pw_files w)(p := Some (Regular [] ?n))) w) = (res, w')"
    have d: "fst (disk_of w) = pw_files w" "snd (disk_of w) = pw_journals w" by (simp_all add: disk_of_def)
    show "hist_ok R w' \<and> (\<forall>e. res = Inl e \<longrightarrow> E (disk_of w')) \<and> (\<forall>x. res = Inr x \<longrightarrow> ?M x (disk_of w'))"
    proof (cases "pw_files w p")
      case None
      with e have "set_files ((pw_files w)(p := Some (Regular [] ?n))) w = (res, w')" by simp
      from set_files_effect [OF this w(2)] assms(2) [OF w(1)] None d
      have "hist_ok R w'" "res = Inr ()" "disk_of w' = ((pw_files w)(p := Some (Regular [] ?n)), pw_journals w)"
        by auto
      with w None d show ?thesis by (intro conjI allI impI exI [of _ "disk_of w"]) auto
    next
      case (Some x)
      with e w assms(1) show ?thesis by auto
    qed
  qed (rule assms(1))
  fix x :: unit
  show "triple R (?M x) (io c (\<lambda>w. set_files ((pw_files w)(p := Some (Regular content ?n))) w)) Q E"
  proof (rule triple_io [OF tripleI])
    fix w res w' assume w: "?M x (disk_of w)" "hist_ok R w"
      and e: "set_files ((pw_files w)(p := Some (Regular content ?n))) w = (res, w')"
    from w(1) obtain d0 where d0: "P d0" "fst d0 p = None"
      "disk_of w = ((fst d0)(p := Some (Regular [] ?n)), snd d0)" by blast
    then have "(pw_files w)(p := Some (Regular content ?n)) = (fst d0)(p := Some (Regular content ?n))"
      "pw_journals w = snd d0" by (simp_all add: disk_of_def)
    with set_files_effect [OF e w(2)] assms(3) [OF d0(1,2)]
    show "hist_ok R w' \<and> (\<forall>e. res = Inl e \<longrightarrow> E (disk_of w')) \<and> (\<forall>x. res = Inr x \<longrightarrow> Q x (disk_of w'))"
      by simp
  next
    show "E d" if "?M x d" for d using that assms(2) by blast
  qed
qed

lemma triple_journal:
  assumes "\<And>d n. pc_fails c n \<Longrightarrow> P d \<Longrightarrow> E d"
    "\<And>d. P d \<Longrightarrow> R (fst d, put_key fst (jn_transactionId j, JournalOf j) (snd d))
      \<and> Q () (fst d, put_key fst (jn_transactionId j, JournalOf j) (snd d))"
  shows "triple R P (writeJournal c j) Q E"
  unfolding writeJournal_def
proof (rule triple_io [OF tripleI])
  fix w res w' assume w: "P (disk_of w)" "hist_ok R w"
    and e: "set_journals (put_key fst (jn_transactionId j, JournalOf j) (pw_journals w)) w = (res, w')"
  from set_journals_effect [OF e w(2)] assms(2) [OF w(1)]
  show "hist_ok R w' \<and> (\<forall>e. res = Inl e \<longrightarrow> E (disk_of w')) \<and> (\<forall>x. res = Inr x \<longrightarrow> Q x (disk_of w'))"
    by (simp add: disk_of_def)
qed (rule assms(1))

lemma triple_unlink_journal:
  assumes "\<And>d n. pc_fails c n \<Longrightarrow> P d \<Longrightarrow> E d" "\<And>d. P d \<Longrightarrow> find_key fst tid (snd d) = None \<Longrightarrow> Q () d"
    "\<And>d. P d \<Longrightarrow> R (fst d, del_key fst tid (snd d)) \<and> Q () (fst d, del_key fst tid (snd d))"
  shows "triple R P (unlinkJournal c tid) Q E"
  unfolding unlinkJournal_def
proof (rule triple_io [OF tripleI])
  fix w res w' assume w: "P (disk_of w)" "hist_ok R w"
    and e: "(if find_key fst tid (pw_journals w) = None then (Inr (), w)
      else set_journals (del_key fst tid (pw_journals w)) w) = (res, w')"
  show "hist_ok R w' \<and> (\<forall>e. res = Inl e \<longrightarrow> E (disk_of w')) \<and> (\<forall>x. res = Inr x \<longrightarrow> Q x (disk_of w'))"
  proof (cases "find_key fst tid (pw_journals w) = None")
    case True
    with e w assms(2) [OF w(1)] show ?thesis by (auto simp: disk_of_def)
  next
    case False
    with e have "set_journals (del_key fst tid (pw_journals w)) w = (res, w')" by simp
    from set_journals_effect [OF this w(2)] assms(3) [OF w(1)] show ?thesis by (simp add: disk_of_def)
  qed
qed (rule assms(1))

definition content :: "(abspath \<Rightarrow> node option) \<Rightarrow> abspath \<Rightarrow> byte list option" where
  "content fs p = (case fs p of Some (Regular b m) \<Rightarrow> Some b | _ \<Rightarrow> None)"

lemma triple_read_file:
  assumes "\<And>d n. pc_fails c n \<Longrightarrow> P d \<Longrightarrow> E d"
    "\<And>d. P d \<Longrightarrow> content (fst d) p = None \<Longrightarrow> E d"
    "\<And>d b. P d \<Longrightarrow> content (fst d) p = Some b \<Longrightarrow> pc_maxReadBytes c < length b \<Longrightarrow> E d"
    "\<And>d b m. P d \<Longrightarrow> content (fst d) p = Some b \<Longrightarrow> Q (b, m) d"
  shows "triple R P (readRegularNoFollow c p) Q E"
  unfolding readRegularNoFollow_def
proof (rule triple_io [OF triple_read])
  fix w res w' assume w: "P (disk_of w)"
    and e: "(case pw_files w p of None \<Rightarrow> (Inl PeMissing, w) | Some Symlink \<Rightarrow> (Inl PePolicy, w)
      | Some Directory \<Rightarrow> (Inl PePolicy, w)
      | Some (Regular b mode) \<Rightarrow>
          if length b > pc_maxReadBytes c then (Inl PeLimit, w) else (Inr (b, mode), w)) = (res, w')"
  have d: "fst (disk_of w) = pw_files w" by (simp add: disk_of_def)
  show "w' = w \<and> (\<forall>e. res = Inl e \<longrightarrow> E (disk_of w)) \<and> (\<forall>x. res = Inr x \<longrightarrow> Q x (disk_of w))"
    using e assms(2-4) [OF w] by (auto simp: d content_def split: option.splits node.splits if_splits)
qed (rule assms(1))

lemma targetHash_io:
  "targetHash c p = io c (\<lambda>w. (case pw_files w p of
     None \<Rightarrow> (Inr None, w) | Some Symlink \<Rightarrow> (Inl PePolicy, w) | Some Directory \<Rightarrow> (Inl PePolicy, w)
   | Some (Regular b mode) \<Rightarrow>
       if length b > pc_maxReadBytes c then (Inl PeLimit, w) else (Inr (Some (pc_sha c b)), w)))"
  by (rule ext)
    (auto simp: targetHash_def catching_def and_then_def readRegularNoFollow_def io_def Let_def ret_def
      raise_def split: option.split node.split)

lemma triple_hash:
  assumes "\<And>d n. pc_fails c n \<Longrightarrow> P d \<Longrightarrow> E d"
    "\<And>d. P d \<Longrightarrow> \<exists>b. content (fst d) p = Some b \<and> length b \<le> pc_maxReadBytes c
      \<and> Q (Some (pc_sha c b)) d"
  shows "triple R P (targetHash c p) Q E"
  unfolding targetHash_io
proof (rule triple_io [OF triple_read])
  fix w res w' assume w: "P (disk_of w)"
    and e: "(case pw_files w p of
      None \<Rightarrow> (Inr None, w) | Some Symlink \<Rightarrow> (Inl PePolicy, w) | Some Directory \<Rightarrow> (Inl PePolicy, w)
    | Some (Regular b mode) \<Rightarrow>
        if length b > pc_maxReadBytes c then (Inl PeLimit, w) else (Inr (Some (pc_sha c b)), w)) = (res, w')"
  from assms(2) [OF w] obtain b m where "pw_files w p = Some (Regular b m)" "length b \<le> pc_maxReadBytes c"
    "Q (Some (pc_sha c b)) (disk_of w)"
    by (auto simp: disk_of_def content_def split: option.splits node.splits)
  with e show "w' = w \<and> (\<forall>e. res = Inl e \<longrightarrow> E (disk_of w)) \<and> (\<forall>x. res = Inr x \<longrightarrow> Q x (disk_of w))"
    by auto
qed (rule assms(1))

lemma triple_exists:
  assumes "\<And>d n. pc_fails c n \<Longrightarrow> P d \<Longrightarrow> E d" "\<And>d. P d \<Longrightarrow> Q (fst d p \<noteq> None) d"
  shows "triple R P (fs_exists c p) Q E"
  unfolding fs_exists_def
  by (rule triple_io [OF triple_read]) (use assms in \<open>auto simp: disk_of_def\<close>)

lemma triple_journal_exists:
  assumes "\<And>d n. pc_fails c n \<Longrightarrow> P d \<Longrightarrow> E d" "\<And>d. P d \<Longrightarrow> Q (find_key fst tid (snd d) \<noteq> None) d"
  shows "triple R P (journalExists c tid) Q E"
  unfolding journalExists_def
  by (rule triple_io [OF triple_read]) (use assms in \<open>auto simp: disk_of_def\<close>)

section \<open>The states of a transaction\<close>

definition orig_at :: "disk \<Rightarrow> prepared_patch \<Rightarrow> bool" where
  "orig_at d p \<longleftrightarrow> content (fst d) (pp_target p) = Some (pp_original p)"

definition new_at :: "disk \<Rightarrow> prepared_patch \<Rightarrow> bool" where
  "new_at d p \<longleftrightarrow> content (fst d) (pp_target p) = Some (pp_replacement p)"

definition backup_at :: "disk \<Rightarrow> prepared_patch \<Rightarrow> bool" where
  "backup_at d p \<longleftrightarrow> content (fst d) (pp_backup p) = Some (pp_original p)"

definition temp_at :: "disk \<Rightarrow> prepared_patch \<Rightarrow> bool" where
  "temp_at d p \<longleftrightarrow> content (fst d) (pp_temp p) = Some (pp_replacement p)"

definition all_orig :: "prepared_patch list \<Rightarrow> disk \<Rightarrow> bool" where
  "all_orig ps d \<longleftrightarrow> (\<forall>p \<in> set ps. orig_at d p)"

definition all_new :: "prepared_patch list \<Rightarrow> disk \<Rightarrow> bool" where
  "all_new ps d \<longleftrightarrow> (\<forall>p \<in> set ps. new_at d p)"

definition artifacts :: "prepared_patch list \<Rightarrow> abspath set" where
  "artifacts ps = pp_temp ` set ps \<union> pp_backup ` set ps"

text \<open>Nothing but the targets and the artifacts is touched, and no artifact is a directory.\<close>

definition frame :: "(abspath \<Rightarrow> node option) \<Rightarrow> prepared_patch list \<Rightarrow> disk \<Rightarrow> bool" where
  "frame fs ps d \<longleftrightarrow> (\<forall>q. q \<notin> pp_target ` set ps \<union> artifacts ps \<longrightarrow> fst d q = fs q)
     \<and> (\<forall>q \<in> artifacts ps. fst d q \<noteq> Some Directory)"

definition no_artifacts :: "prepared_patch list \<Rightarrow> disk \<Rightarrow> bool" where
  "no_artifacts ps d \<longleftrightarrow> (\<forall>q \<in> artifacts ps. fst d q = None)"

text \<open>Every target has its original content, or its new content and an intact backup.\<close>

definition undoable :: "prepared_patch list \<Rightarrow> disk \<Rightarrow> bool" where
  "undoable ps d \<longleftrightarrow> (\<forall>p \<in> set ps. orig_at d p \<or> (new_at d p \<and> backup_at d p))"

definition journal_of ::
  "patch_config \<Rightarrow> string \<Rightarrow> journal_state \<Rightarrow> prepared_patch list \<Rightarrow> (string \<times> journal_file) list" where
  "journal_of c tid st ps = [(tid, JournalOf (toJournal c tid st ps))]"

text \<open>The disks from which recovery ends with all targets old or all targets new.\<close>

definition recoverable ::
  "patch_config \<Rightarrow> string \<Rightarrow> prepared_patch list \<Rightarrow> (abspath \<Rightarrow> node option) \<Rightarrow> disk \<Rightarrow> bool" where
  "recoverable c tid ps fs d \<longleftrightarrow> frame fs ps d \<and>
     ((snd d = [] \<and> (all_orig ps d \<or> all_new ps d))
      \<or> (snd d = journal_of c tid Prepared ps \<and> all_orig ps d)
      \<or> (snd d = journal_of c tid Committing ps \<and> undoable ps d)
      \<or> (snd d = journal_of c tid Committed ps \<and> all_new ps d))"

text \<open>
  What \<open>prepare\<close> establishes of its entries, and what is assumed of the configuration: the hash
  tells the old content of a target from the new one, both can be read back within the read
  limit, and the journal within the write limit.
\<close>

definition entry_ok :: "patch_config \<Rightarrow> string \<Rightarrow> prepared_patch \<Rightarrow> bool" where
  "entry_ok c tid p \<longleftrightarrow> pp_originalSha256 p = pc_sha c (pp_original p)
     \<and> pp_newSha256 p = pc_sha c (pp_replacement p)
     \<and> (pc_sha c (pp_original p) = pc_sha c (pp_replacement p) \<longrightarrow> pp_original p = pp_replacement p)
     \<and> hex64 (pp_originalSha256 p) \<and> hex64 (pp_newSha256 p)
     \<and> length (pp_original p) \<le> pc_maxReadBytes c \<and> length (pp_replacement p) \<le> pc_maxReadBytes c
     \<and> list_ex (\<lambda>root. isInside root (pp_target p)) (pc_roots c)
     \<and> pp_temp p = artifactPath (pp_target p) tid ''.next''
     \<and> pp_backup p = artifactPath (pp_target p) tid ''.backup''"

definition tx_ok :: "patch_config \<Rightarrow> string \<Rightarrow> prepared_patch list \<Rightarrow> bool" where
  "tx_ok c tid ps \<longleftrightarrow> distinct (map pp_target ps @ map pp_temp ps @ map pp_backup ps)
     \<and> 1 \<le> length ps \<and> length ps \<le> MAX_PATCH_COUNT \<and> list_all (entry_ok c tid) ps
     \<and> (\<forall>st. pc_journalBytes c (toJournal c tid st ps) \<le> pc_maxWriteBytes c)"

definition to_entry :: "prepared_patch \<Rightarrow> journal_entry" where
  "to_entry p = \<lparr>je_target = pp_target p, je_temp = pp_temp p, je_backup = pp_backup p,
     je_originalSha256 = pp_originalSha256 p, je_newSha256 = pp_newSha256 p, je_mode = pp_mode p\<rparr>"

lemma toJournal_fields [simp]:
  "jn_entries (toJournal c tid st ps) = map to_entry ps"
  "jn_transactionId (toJournal c tid st ps) = tid"
  "jn_state (toJournal c tid st ps) = st"
  "jn_scopeFingerprint (toJournal c tid st ps) = pc_fingerprint c"
  by (simp_all add: toJournal_def to_entry_def)

lemma to_entry_fields [simp]:
  "je_target (to_entry p) = pp_target p" "je_temp (to_entry p) = pp_temp p"
  "je_backup (to_entry p) = pp_backup p" "je_originalSha256 (to_entry p) = pp_originalSha256 p"
  "je_newSha256 (to_entry p) = pp_newSha256 p"
  by (simp_all add: to_entry_def)

lemma each_map: "each f (map g xs) = each (\<lambda>x. f (g x)) xs"
  by (induction xs) simp_all

lemma cleanup_journal_prepared:
  "cleanupJournal c (toJournal c tid st ps) tid = cleanupPrepared c ps (Some tid)"
  by (simp add: cleanupJournal_def cleanupPrepared_def each_map)

lemma journal_of_simps [simp]:
  "put_key fst (tid, JournalOf (toJournal c tid st ps)) [] = journal_of c tid st ps"
  "put_key fst (tid, JournalOf (toJournal c tid st' ps)) (journal_of c tid st ps) = journal_of c tid st' ps"
  "del_key fst tid (journal_of c tid st ps) = []"
  "find_key fst tid (journal_of c tid st ps) = Some (tid, JournalOf (toJournal c tid st ps))"
  "journal_of c tid st ps \<noteq> []" "[] \<noteq> journal_of c tid st ps"
  by (simp_all add: journal_of_def del_key_def find_key_def)

lemma txD:
  assumes "tx_ok c tid ps" "p \<in> set ps"
  shows "entry_ok c tid p"
    and "pp_temp p \<notin> pp_target ` set ps" "pp_backup p \<notin> pp_target ` set ps"
    and "q \<in> set ps \<Longrightarrow> pp_target q = pp_target p \<longleftrightarrow> q = p"
    and "q \<in> set ps \<Longrightarrow> pp_temp q = pp_temp p \<longleftrightarrow> q = p"
    and "q \<in> set ps \<Longrightarrow> pp_backup q = pp_backup p \<longleftrightarrow> q = p"
    and "q \<in> set ps \<Longrightarrow> pp_temp q \<noteq> pp_backup p"
  using assms by (auto simp: tx_ok_def list_all_iff distinct_map inj_on_def)

lemma content_upd [simp]:
  "content (fs(q := x)) p = (if p = q then content (\<lambda>_. x) p else content fs p)"
  by (simp add: content_def)

lemma content_Some_exists: "content fs p = Some b \<Longrightarrow> fs p \<noteq> None"
  by (cases "fs p") (auto simp: content_def)

lemma content_const [simp]:
  "content (\<lambda>_. None) p = None" "content (\<lambda>_. Some (Regular b m)) p = Some b"
  by (simp_all add: content_def)

text \<open>Removing or writing an artifact changes no target.\<close>

lemma artifact_upd:
  assumes "tx_ok c tid ps" "q \<in> artifacts ps"
  shows "p \<in> set ps \<Longrightarrow> orig_at (((fst d)(q := x)), js) p = orig_at d p"
    "p \<in> set ps \<Longrightarrow> new_at (((fst d)(q := x)), js) p = new_at d p"
    "all_orig ps (((fst d)(q := x)), js) = all_orig ps d"
    "all_new ps (((fst d)(q := x)), js) = all_new ps d"
    "frame fs ps d \<Longrightarrow> x \<noteq> Some Directory \<Longrightarrow> frame fs ps ((fst d)(q := x), js)"
proof -
  from assms(2) obtain p' where "p' \<in> set ps" "q = pp_temp p' \<or> q = pp_backup p'"
    by (auto simp: artifacts_def)
  then have q: "q \<notin> pp_target ` set ps" using txD(2,3) [OF assms(1)] by metis
  show 1: "orig_at (((fst d)(q := x)), js) p = orig_at d p" if "p \<in> set ps" for p
    using q that by (auto simp: orig_at_def)
  show 2: "new_at (((fst d)(q := x)), js) p = new_at d p" if "p \<in> set ps" for p
    using q that by (auto simp: new_at_def)
  show "all_orig ps (((fst d)(q := x)), js) = all_orig ps d" "all_new ps (((fst d)(q := x)), js) = all_new ps d"
    using 1 2 by (simp_all add: all_orig_def all_new_def)
  show "frame fs ps ((fst d)(q := x), js)" if "frame fs ps d" "x \<noteq> Some Directory"
    using that assms(2) by (auto simp: frame_def)
qed

section \<open>Cleaning up\<close>

text \<open>
  Removing the artifacts of all entries under a base predicate that artifacts do not matter to.
\<close>

lemma triple_remove_artifacts:
  assumes "tx_ok c tid ps"
    and nodir: "\<And>d q. B d \<Longrightarrow> q \<in> artifacts ps \<Longrightarrow> fst d q \<noteq> Some Directory"
    and step: "\<And>d q. B d \<Longrightarrow> q \<in> artifacts ps \<Longrightarrow> R ((fst d)(q := None), snd d) \<and> B ((fst d)(q := None), snd d)"
    and err: "\<And>d n. pc_fails c n \<Longrightarrow> B d \<Longrightarrow> E d"
  shows "triple R B (each (\<lambda>p. and_then (safeUnlink c (pp_temp p)) (\<lambda>_. safeUnlink c (pp_backup p))) ps)
    (\<lambda>_ d. B d \<and> no_artifacts ps d) E"
proof -
  let ?gone = "\<lambda>rest d. \<forall>p \<in> set ps. p \<notin> set rest \<longrightarrow> fst d (pp_temp p) = None \<and> fst d (pp_backup p) = None"
  let ?I = "\<lambda>rest d. B d \<and> ?gone rest d"
  have "triple R (?I ps) (each (\<lambda>p. and_then (safeUnlink c (pp_temp p)) (\<lambda>_. safeUnlink c (pp_backup p))) ps)
    (\<lambda>_. ?I []) E"
  proof (rule triple_each [where I = ?I])
    fix p pre rest assume ps: "ps = pre @ p # rest"
    then have p: "p \<in> set ps" by simp
    then have art: "pp_temp p \<in> artifacts ps" "pp_backup p \<in> artifacts ps" by (auto simp: artifacts_def)
    show "triple R (?I (p # rest)) (and_then (safeUnlink c (pp_temp p)) (\<lambda>_. safeUnlink c (pp_backup p)))
        (\<lambda>_. ?I rest) E"
    proof (rule triple_and_then)
      show "triple R (?I (p # rest)) (safeUnlink c (pp_temp p))
          (\<lambda>_ d. ?I (p # rest) d \<and> fst d (pp_temp p) = None) E"
        by (rule triple_unlink) (use nodir [OF _ art(1)] step [OF _ art(1)] err in \<open>fastforce+\<close>)
      show "triple R (\<lambda>d. ?I (p # rest) d \<and> fst d (pp_temp p) = None) (safeUnlink c (pp_backup p))
          (\<lambda>_. ?I rest) E"
        by (rule triple_unlink) (use nodir [OF _ art(2)] step [OF _ art(2)] err in \<open>fastforce+\<close>)
    qed
  qed
  then show ?thesis
    by (rule triple_conseq) (auto simp: no_artifacts_def artifacts_def)
qed

lemma cleanup_base:
  assumes "tx_ok c tid ps" "q \<in> artifacts ps" "frame fs ps d" "all_orig ps d \<or> all_new ps d"
  shows "fst d q \<noteq> Some Directory" "frame fs ps ((fst d)(q := None), snd d)"
    "all_orig ps d \<Longrightarrow> all_orig ps ((fst d)(q := None), snd d)"
    "all_new ps d \<Longrightarrow> all_new ps ((fst d)(q := None), snd d)"
  using assms artifact_upd [OF assms(1,2)] by (auto simp: frame_def)

text \<open>The clean-up of a transaction whose targets are all old, or all new.\<close>

lemma triple_cleanup:
  assumes tx: "tx_ok c tid ps"
    and K: "K = all_orig ps \<and> js \<in> {journal_of c tid Prepared ps, journal_of c tid Committing ps}
      \<or> K = all_new ps \<and> js = journal_of c tid Committed ps"
    and err: "\<And>d n. pc_fails c n \<Longrightarrow> recoverable c tid ps fs d \<Longrightarrow> E d"
  shows "triple (recoverable c tid ps fs) (\<lambda>d. frame fs ps d \<and> K d \<and> snd d = js)
    (cleanupPrepared c ps (Some tid))
    (\<lambda>_ d. frame fs ps d \<and> K d \<and> snd d = [] \<and> no_artifacts ps d) E"
proof -
  let ?R = "recoverable c tid ps fs" and ?B = "\<lambda>d. frame fs ps d \<and> K d \<and> snd d = js"
  have K': "all_orig ps d \<or> all_new ps d" if "K d" for d using K that by auto
  have rec: "?R d" if "?B d" for d
    using that K by (auto simp: recoverable_def undoable_def all_orig_def)
  have rec0: "?R d" if "frame fs ps d" "K d" "snd d = []" for d
    using that K' by (simp add: recoverable_def)
  have keep: "?B ((fst d)(q := None), snd d)" if "?B d" "q \<in> artifacts ps" for d q
    using that cleanup_base [OF tx that(2), of fs d] K K' by auto
  show ?thesis
    unfolding cleanupPrepared_def option.case
  proof (rule triple_and_then)
    show "triple ?R ?B (each (\<lambda>p. and_then (safeUnlink c (pp_temp p)) (\<lambda>_. safeUnlink c (pp_backup p))) ps)
        (\<lambda>_ d. ?B d \<and> no_artifacts ps d) E"
    proof (rule triple_remove_artifacts [OF tx])
      show "fst d q \<noteq> Some Directory" if "?B d" "q \<in> artifacts ps" for d q
        using that cleanup_base(1) [OF tx that(2), of fs d] K' by auto
      show "?R ((fst d)(q := None), snd d) \<and> ?B ((fst d)(q := None), snd d)"
        if "?B d" "q \<in> artifacts ps" for d q using keep [OF that] rec by blast
      show "E d" if "pc_fails c n" "?B d" for d n using err that rec by blast
    qed
    have js: "del_key fst tid js = []" "find_key fst tid js \<noteq> None" using K by auto
    show "triple ?R (\<lambda>d. ?B d \<and> no_artifacts ps d) (unlinkJournal c tid)
        (\<lambda>_ d. frame fs ps d \<and> K d \<and> snd d = [] \<and> no_artifacts ps d) E" for x :: unit
    proof (rule triple_unlink_journal)
      show "E d" if "pc_fails c n" "?B d \<and> no_artifacts ps d" for d n using err that rec by blast
      fix d assume d: "?B d \<and> no_artifacts ps d"
      have e: "frame fs ps (fst d, []) = frame fs ps d" "no_artifacts ps (fst d, []) = no_artifacts ps d"
        "K (fst d, []) = K d"
        using K by (auto simp: frame_def no_artifacts_def all_orig_def all_new_def orig_at_def new_at_def)
      then have "frame fs ps (fst d, []) \<and> K (fst d, []) \<and> no_artifacts ps (fst d, [])" using d by simp
      with d js rec0 [of "(fst d, [])"] show "?R (fst d, del_key fst tid (snd d))
          \<and> (frame fs ps (fst d, del_key fst tid (snd d)) \<and> K (fst d, del_key fst tid (snd d))
            \<and> snd (fst d, del_key fst tid (snd d)) = [] \<and> no_artifacts ps (fst d, del_key fst tid (snd d)))"
        by simp
      show "frame fs ps d \<and> K d \<and> snd d = [] \<and> no_artifacts ps d" if "find_key fst tid (snd d) = None"
        using d js that by simp
    qed
  qed
qed

section \<open>Rolling back\<close>

lemma validate_ok:
  assumes "tx_ok c tid ps" "p \<in> set ps"
  shows "validateJournalEntry c (to_entry p) = ret ()"
proof -
  have "starts_with (''.'' @ a @ ''.'' @ b) (''.'' @ a @ ''.'')" for a b by (simp add: starts_with_def)
  moreover have "ends_with (''.'' @ a @ ''.'' @ b @ x) x" for a b x
    unfolding ends_with_def suffix_def by (rule exI [of _ "''.'' @ a @ ''.'' @ b"]) simp
  ultimately show ?thesis
    using txD(1) [OF assms]
    by (simp add: validateJournalEntry_def entry_ok_def artifactPath_def)
qed

lemma triple_rollback_entry:
  assumes tx: "tx_ok c tid ps" and p: "p \<in> set ps"
    and err: "\<And>d n. pc_fails c n \<Longrightarrow> recoverable c tid ps fs d \<Longrightarrow> E d"
  shows "triple (recoverable c tid ps fs)
    (\<lambda>d. frame fs ps d \<and> undoable ps d \<and> snd d = journal_of c tid Committing ps
      \<and> (\<forall>q \<in> set ps. q \<in> D \<longrightarrow> orig_at d q))
    (rollbackEntry c (to_entry p))
    (\<lambda>_ d. frame fs ps d \<and> undoable ps d \<and> snd d = journal_of c tid Committing ps
      \<and> (\<forall>q \<in> set ps. q \<in> insert p D \<longrightarrow> orig_at d q)) E"
proof -
  let ?R = "recoverable c tid ps fs"
  let ?P = "\<lambda>d. frame fs ps d \<and> undoable ps d \<and> snd d = journal_of c tid Committing ps
      \<and> (\<forall>q \<in> set ps. q \<in> D \<longrightarrow> orig_at d q)"
  let ?Q = "\<lambda>d. frame fs ps d \<and> undoable ps d \<and> snd d = journal_of c tid Committing ps
      \<and> (\<forall>q \<in> set ps. q \<in> insert p D \<longrightarrow> orig_at d q)"
  have rec: "?R d" if "frame fs ps d" "undoable ps d" "snd d = journal_of c tid Committing ps" for d
    using that by (simp add: recoverable_def)
  have e: "E d" if "pc_fails c n" "?P d" for d n using err rec that by blast
  note ok = txD(1) [OF tx p, unfolded entry_ok_def]
  let ?S = "\<lambda>d. ?P d \<and> new_at d p \<and> backup_at d p"
  have e': "E d" if "pc_fails c n" "?S d" for d n using e that by blast
  have rename: "triple ?R ?S (fs_rename c (pp_backup p) (pp_target p)) (\<lambda>_. ?Q) E"
  proof (rule triple_rename)
    show "E d" if "pc_fails c n" "?S d" for d n using e' that by blast
    show "E d" if "?S d" "fst d (pp_backup p) = None \<or> fst d (pp_target p) = Some Directory" for d
      using that by (auto simp: new_at_def backup_at_def content_def)
    fix d n assume d: "?S d" and n: "fst d (pp_backup p) = Some n"
    let ?d = "((fst d)(pp_target p := Some n, pp_backup p := None), snd d)"
    have c: "content (\<lambda>_. Some n) x = Some (pp_original p)" for x
      using d n by (auto simp: backup_at_def content_def)
    have tb: "pp_backup p \<noteq> pp_target q" if "q \<in> set ps" for q using txD(3) [OF tx p] that by auto
    have at: "orig_at ?d p" using c tb [OF p] by (simp add: orig_at_def)
    have other: "orig_at ?d q = orig_at d q \<and> new_at ?d q = new_at d q \<and> backup_at ?d q = backup_at d q"
      if "q \<in> set ps" "q \<noteq> p" for q
    proof -
      have "pp_target q \<noteq> pp_target p" "pp_backup q \<noteq> pp_backup p"
        using txD(4,6) [OF tx p that(1)] that(2) by auto
      moreover have "pp_target q \<noteq> pp_backup p" using tb [OF that(1)] by auto
      moreover have "pp_backup q \<noteq> pp_target p" using txD(3) [OF tx that(1)] p by auto
      ultimately show ?thesis by (simp add: orig_at_def new_at_def backup_at_def)
    qed
    have "undoable ps ?d"
      unfolding undoable_def
    proof
      fix q assume q: "q \<in> set ps"
      show "orig_at ?d q \<or> new_at ?d q \<and> backup_at ?d q"
        using other [OF q] at d q by (cases "q = p") (auto simp: undoable_def)
    qed
    moreover have "\<forall>q \<in> set ps. q \<in> insert p D \<longrightarrow> orig_at ?d q"
      using other at d by auto
    moreover have "n \<noteq> Directory" using c by (auto simp: content_def split: node.splits)
    then have "frame fs ps ?d"
      using d p by (auto simp: frame_def artifacts_def)
    ultimately show "?R ?d \<and> ?Q ?d" using d rec [of ?d] by simp
  qed
  show ?thesis
    unfolding rollbackEntry_def to_entry_fields
  proof (rule triple_and_then)
    show "triple ?R ?P (validateJournalEntry c (to_entry p)) (\<lambda>_. ?P) E"
      unfolding validate_ok [OF tx p] by (rule triple_ret)
    fix u :: unit
    let ?H = "\<lambda>h d. ?P d \<and> (h = Some (pp_originalSha256 p) \<and> orig_at d p
      \<or> h = Some (pp_newSha256 p) \<and> new_at d p \<and> backup_at d p)"
    have hash: "triple ?R ?P (targetHash c (pp_target p)) ?H E"
    proof (rule triple_hash)
      show "E d" if "pc_fails c n" "?P d" for d n using e that by blast
      fix d assume d: "?P d"
      then have "orig_at d p \<or> new_at d p \<and> backup_at d p" using p by (auto simp: undoable_def)
      then show "\<exists>b. content (fst d) (pp_target p) = Some b \<and> length b \<le> pc_maxReadBytes c
          \<and> ?H (Some (pc_sha c b)) d"
        using d ok by (auto simp: orig_at_def new_at_def)
    qed
    show "triple ?R ?P (and_then (targetHash c (pp_target p)) (\<lambda>currentHash.
        if currentHash = Some (pp_originalSha256 p) then ret ()
        else if currentHash \<noteq> Some (pp_newSha256 p) then raise PeRecovery
        else and_then (fs_exists c (pp_backup p)) (\<lambda>ex. if \<not> ex then raise PeRecovery
          else and_then (readRegularNoFollow c (pp_backup p)) (\<lambda>(backup, _).
            if pc_sha c backup \<noteq> pp_originalSha256 p then raise PeRecovery
            else fs_rename c (pp_backup p) (pp_target p))))) (\<lambda>_. ?Q) E"
    proof (rule triple_and_then [OF hash])
      fix h
      have orig: "orig_at d p" if "?H h d" "h = Some (pp_originalSha256 p)" for d
        using that ok by (auto simp: orig_at_def new_at_def)
      have read: "triple ?R ?S (and_then (readRegularNoFollow c (pp_backup p)) (\<lambda>(backup, _).
          if pc_sha c backup \<noteq> pp_originalSha256 p then raise PeRecovery
          else fs_rename c (pp_backup p) (pp_target p))) (\<lambda>_. ?Q) E"
      proof (rule triple_and_then)
        show "triple ?R ?S (readRegularNoFollow c (pp_backup p))
            (\<lambda>x d. ?S d \<and> fst x = pp_original p) E"
          by (rule triple_read_file) (use e' ok in \<open>auto simp: backup_at_def\<close>)
        show "triple ?R (\<lambda>d. ?S d \<and> fst x = pp_original p) (case x of (backup, _) \<Rightarrow>
            if pc_sha c backup \<noteq> pp_originalSha256 p then raise PeRecovery
            else fs_rename c (pp_backup p) (pp_target p)) (\<lambda>_. ?Q) E" for x
        proof (cases "fst x = pp_original p")
          case True
          then show ?thesis using ok rename by (auto split: prod.split intro: triple_conseq)
        next
          case False
          then show ?thesis by (simp add: crash_triple_def)
        qed
      qed
      have ex: "triple ?R ?S (and_then (fs_exists c (pp_backup p)) (\<lambda>ex. if \<not> ex then raise PeRecovery
          else and_then (readRegularNoFollow c (pp_backup p)) (\<lambda>(backup, _).
            if pc_sha c backup \<noteq> pp_originalSha256 p then raise PeRecovery
            else fs_rename c (pp_backup p) (pp_target p)))) (\<lambda>_. ?Q) E"
      proof (rule triple_and_then)
        show "triple ?R ?S (fs_exists c (pp_backup p)) (\<lambda>ex d. ?S d \<and> ex) E"
        proof (rule triple_exists)
          show "E d" if "pc_fails c n" "?S d" for d n using e' [OF that] .
          show "?S d \<and> fst d (pp_backup p) \<noteq> None" if "?S d" for d
            using that content_Some_exists unfolding backup_at_def by blast
        qed
        show "triple ?R (\<lambda>d. ?S d \<and> ex) (if \<not> ex then raise PeRecovery
          else and_then (readRegularNoFollow c (pp_backup p)) (\<lambda>(backup, _).
            if pc_sha c backup \<noteq> pp_originalSha256 p then raise PeRecovery
            else fs_rename c (pp_backup p) (pp_target p))) (\<lambda>_. ?Q) E" for ex
        proof (cases ex)
          case True
          with read show ?thesis by simp
        next
          case False
          then show ?thesis by (simp add: crash_triple_def)
        qed
      qed
      consider "h = Some (pp_originalSha256 p)"
        | "h \<noteq> Some (pp_originalSha256 p)" "h = Some (pp_newSha256 p)"
        | "h \<noteq> Some (pp_originalSha256 p)" "h \<noteq> Some (pp_newSha256 p)" by blast
      then show "triple ?R (?H h) (if h = Some (pp_originalSha256 p) then ret ()
          else if h \<noteq> Some (pp_newSha256 p) then raise PeRecovery
          else and_then (fs_exists c (pp_backup p)) (\<lambda>ex. if \<not> ex then raise PeRecovery
            else and_then (readRegularNoFollow c (pp_backup p)) (\<lambda>(backup, _).
              if pc_sha c backup \<noteq> pp_originalSha256 p then raise PeRecovery
              else fs_rename c (pp_backup p) (pp_target p)))) (\<lambda>_. ?Q) E"
      proof cases
        case 1
        show ?thesis using 1 orig by (auto intro!: triple_ret)
      next
        case 2
        have "triple ?R (?H h) (and_then (fs_exists c (pp_backup p)) (\<lambda>ex. if \<not> ex then raise PeRecovery
          else and_then (readRegularNoFollow c (pp_backup p)) (\<lambda>(backup, _).
            if pc_sha c backup \<noteq> pp_originalSha256 p then raise PeRecovery
            else fs_rename c (pp_backup p) (pp_target p)))) (\<lambda>_. ?Q) E"
          by (rule triple_conseq [OF ex]) (use 2 in auto)
        with 2 show ?thesis by simp
      next
        case 3
        then show ?thesis by (simp add: crash_triple_def)
      qed
    qed
  qed
qed

lemma triple_rollback:
  assumes tx: "tx_ok c tid ps"
    and err: "\<And>d n. pc_fails c n \<Longrightarrow> recoverable c tid ps fs d \<Longrightarrow> E d"
  shows "triple (recoverable c tid ps fs)
    (\<lambda>d. frame fs ps d \<and> undoable ps d \<and> snd d = journal_of c tid Committing ps)
    (rollbackCommitting c (toJournal c tid Committing ps) tid)
    (\<lambda>_ d. frame fs ps d \<and> all_orig ps d \<and> snd d = [] \<and> no_artifacts ps d) E"
  unfolding rollbackCommitting_def cleanup_journal_prepared toJournal_fields each_map
proof (rule triple_and_then)
  let ?I = "\<lambda>rest d. frame fs ps d \<and> undoable ps d \<and> snd d = journal_of c tid Committing ps
      \<and> (\<forall>q \<in> set ps. q \<in> - set rest \<longrightarrow> orig_at d q)"
  have "triple (recoverable c tid ps fs) (?I ps) (each (\<lambda>p. rollbackEntry c (to_entry p)) ps) (\<lambda>_. ?I []) E"
  proof (rule triple_each [where I = ?I])
    fix p pre rest assume "ps = pre @ p # rest"
    then have p: "p \<in> set ps" by simp
    have "insert p (- set (p # rest)) \<supseteq> - set rest" by auto
    then show "triple (recoverable c tid ps fs) (?I (p # rest)) (rollbackEntry c (to_entry p)) (\<lambda>_. ?I rest) E"
      by (intro triple_conseq [OF triple_rollback_entry [OF tx p err, where D = "- set (p # rest)"]]) blast+
  qed
  then show "triple (recoverable c tid ps fs)
      (\<lambda>d. frame fs ps d \<and> undoable ps d \<and> snd d = journal_of c tid Committing ps)
      (each (\<lambda>p. rollbackEntry c (to_entry p)) ps)
      (\<lambda>_ d. frame fs ps d \<and> all_orig ps d \<and> snd d = journal_of c tid Committing ps) E"
    by (rule triple_conseq) (auto simp: all_orig_def)
  show "triple (recoverable c tid ps fs)
      (\<lambda>d. frame fs ps d \<and> all_orig ps d \<and> snd d = journal_of c tid Committing ps)
      (cleanupPrepared c ps (Some tid))
      (\<lambda>_ d. frame fs ps d \<and> all_orig ps d \<and> snd d = [] \<and> no_artifacts ps d) E"
    by (rule triple_cleanup [OF tx _ err]) simp_all
qed

section \<open>Recovery from every recoverable disk\<close>

lemma triple_require:
  assumes tx: "tx_ok c tid ps" and nofail: "\<And>n. \<not> pc_fails c n"
    and K: "\<And>d p. B d \<Longrightarrow> p \<in> set ps \<Longrightarrow> content (fst d) (pp_target p) = Some (want p)"
    and hash: "\<And>p. p \<in> set ps \<Longrightarrow> pc_sha c (want p) = expected (to_entry p) \<and> length (want p) \<le> pc_maxReadBytes c"
  shows "triple R B (requireHashes c expected (map to_entry ps)) (\<lambda>_. B) (\<lambda>_. False)"
  unfolding requireHashes_def each_map
proof (rule triple_each_inv)
  fix p assume p: "p \<in> set ps"
  show "triple R B (and_then (targetHash c (je_target (to_entry p))) (\<lambda>currentHash.
      if currentHash \<noteq> Some (expected (to_entry p)) then raise PeRecovery else ret ())) (\<lambda>_. B) (\<lambda>_. False)"
  proof (rule triple_and_then)
    show "triple R B (targetHash c (je_target (to_entry p)))
        (\<lambda>h d. B d \<and> h = Some (expected (to_entry p))) (\<lambda>_. False)"
      by (rule triple_hash) (use nofail K [OF _ p] hash [OF p] in auto)
    show "triple R (\<lambda>d. B d \<and> h = Some (expected (to_entry p)))
        (if h \<noteq> Some (expected (to_entry p)) then raise PeRecovery else ret ()) (\<lambda>_. B) (\<lambda>_. False)" for h
    proof (cases "h = Some (expected (to_entry p))")
      case True
      then show ?thesis by (simp add: triple_ret)
    next
      case False
      then show ?thesis by (simp add: crash_triple_def)
    qed
  qed
qed

lemma triple_recover_one:
  assumes tx: "tx_ok c tid ps" and nofail: "\<And>n. \<not> pc_fails c n"
  shows "triple (recoverable c tid ps fs)
    (\<lambda>d. recoverable c tid ps fs d \<and> snd d = journal_of c tid st ps)
    (recoverOne c tid)
    (\<lambda>_ d. frame fs ps d \<and> snd d = [] \<and> no_artifacts ps d
      \<and> (if st = Committed then all_new ps d else all_orig ps d)) (\<lambda>_. False)"
proof -
  let ?R = "recoverable c tid ps fs" and ?j = "toJournal c tid st ps"
  let ?P = "\<lambda>d. ?R d \<and> snd d = journal_of c tid st ps"
  let ?Q = "\<lambda>d. frame fs ps d \<and> snd d = [] \<and> no_artifacts ps d
      \<and> (if st = Committed then all_new ps d else all_orig ps d)"
  have "hex64 (pp_originalSha256 p) \<and> hex64 (pp_newSha256 p)" if "p \<in> set ps" for p
    using txD(1) [OF tx that] unfolding entry_ok_def by blast
  then have shape: "journalShape ?j"
    using tx by (auto simp: journalShape_def tx_ok_def list_all_iff)
  have size: "\<not> pc_maxWriteBytes c < pc_journalBytes c ?j" using tx by (auto simp: tx_ok_def not_less)
  have distinct: "journal_of c tid a ps = journal_of c tid b ps \<longleftrightarrow> a = b" for a b
    by (auto simp: journal_of_def toJournal_def)
  have P: "frame fs ps d \<and> (st = Prepared \<longrightarrow> all_orig ps d) \<and> (st = Committing \<longrightarrow> undoable ps d)
      \<and> (st = Committed \<longrightarrow> all_new ps d)" if "?P d" for d
    using that by (cases st) (auto simp: recoverable_def distinct)
  note ok = txD(1) [OF tx, unfolded entry_ok_def]
  have valid: "triple ?R ?P (each (validateJournalEntry c) (jn_entries ?j)) (\<lambda>_. ?P) (\<lambda>_. False)"
    unfolding toJournal_fields each_map
    by (rule triple_each_inv) (simp add: validate_ok [OF tx] triple_ret)
  have clean: "triple ?R (\<lambda>d. frame fs ps d \<and> all_orig ps d \<and> snd d = journal_of c tid Prepared ps)
      (cleanupPrepared c ps (Some tid))
      (\<lambda>_ d. frame fs ps d \<and> all_orig ps d \<and> snd d = [] \<and> no_artifacts ps d) (\<lambda>_. False)"
    "triple ?R (\<lambda>d. frame fs ps d \<and> all_new ps d \<and> snd d = journal_of c tid Committed ps)
      (cleanupPrepared c ps (Some tid))
      (\<lambda>_ d. frame fs ps d \<and> all_new ps d \<and> snd d = [] \<and> no_artifacts ps d) (\<lambda>_. False)"
    by (rule triple_cleanup [OF tx]; simp add: nofail)+
  have finish: "triple ?R ?P (case jn_state ?j of
       Prepared \<Rightarrow> and_then (requireHashes c je_originalSha256 (jn_entries ?j)) (\<lambda>_. cleanupJournal c ?j tid)
     | Committing \<Rightarrow> rollbackCommitting c ?j tid
     | Committed \<Rightarrow> and_then (requireHashes c je_newSha256 (jn_entries ?j)) (\<lambda>_. cleanupJournal c ?j tid))
     (\<lambda>_. ?Q) (\<lambda>_. False)"
  proof (cases st)
    case Prepared
    let ?B = "\<lambda>d. frame fs ps d \<and> all_orig ps d \<and> snd d = journal_of c tid Prepared ps"
    have "triple ?R ?B (requireHashes c je_originalSha256 (map to_entry ps)) (\<lambda>_. ?B) (\<lambda>_. False)"
      by (rule triple_require [OF tx nofail, where want = pp_original])
        (use ok in \<open>auto simp: all_orig_def orig_at_def\<close>)
    from triple_and_then [OF this clean(1)]
    have "triple ?R ?B (and_then (requireHashes c je_originalSha256 (map to_entry ps))
        (\<lambda>_. cleanupPrepared c ps (Some tid)))
        (\<lambda>_ d. frame fs ps d \<and> all_orig ps d \<and> snd d = [] \<and> no_artifacts ps d) (\<lambda>_. False)" .
    then have "triple ?R ?P (and_then (requireHashes c je_originalSha256 (map to_entry ps))
        (\<lambda>_. cleanupPrepared c ps (Some tid))) (\<lambda>_. ?Q) (\<lambda>_. False)"
      by (rule triple_conseq) (use P Prepared in auto)
    then show ?thesis by (simp add: Prepared cleanup_journal_prepared)
  next
    case Committing
    have "triple ?R ?P (rollbackCommitting c (toJournal c tid Committing ps) tid) (\<lambda>_. ?Q) (\<lambda>_. False)"
      by (rule triple_conseq [OF triple_rollback [OF tx]]) (use P Committing nofail in auto)
    then show ?thesis by (simp add: Committing)
  next
    case Committed
    let ?B = "\<lambda>d. frame fs ps d \<and> all_new ps d \<and> snd d = journal_of c tid Committed ps"
    have "triple ?R ?B (requireHashes c je_newSha256 (map to_entry ps)) (\<lambda>_. ?B) (\<lambda>_. False)"
      by (rule triple_require [OF tx nofail, where want = pp_replacement])
        (use ok in \<open>auto simp: all_new_def new_at_def\<close>)
    from triple_and_then [OF this clean(2)]
    have "triple ?R ?B (and_then (requireHashes c je_newSha256 (map to_entry ps))
        (\<lambda>_. cleanupPrepared c ps (Some tid)))
        (\<lambda>_ d. frame fs ps d \<and> all_new ps d \<and> snd d = [] \<and> no_artifacts ps d) (\<lambda>_. False)" .
    then have "triple ?R ?P (and_then (requireHashes c je_newSha256 (map to_entry ps))
        (\<lambda>_. cleanupPrepared c ps (Some tid))) (\<lambda>_. ?Q) (\<lambda>_. False)"
      by (rule triple_conseq) (use P Committed in auto)
    then show ?thesis by (simp add: Committed cleanup_journal_prepared)
  qed
  show ?thesis
    unfolding recoverOne_def
  proof (rule triple_and_then)
    show "triple ?R ?P (catching (io c (\<lambda>w. (case find_key fst tid (pw_journals w) of
         None \<Rightarrow> (Inl PeMissing, w) | Some (_, f) \<Rightarrow> (Inr f, w)))) (\<lambda>e. raise PeRecovery))
        (\<lambda>f d. ?P d \<and> f = JournalOf ?j) (\<lambda>_. False)"
    proof (rule triple_catching)
      show "triple ?R ?P (io c (\<lambda>w. (case find_key fst tid (pw_journals w) of
          None \<Rightarrow> (Inl PeMissing, w) | Some (_, f) \<Rightarrow> (Inr f, w)))) (\<lambda>f d. ?P d \<and> f = JournalOf ?j) (\<lambda>_. False)"
        by (rule triple_io [OF triple_read]) (auto simp: disk_of_def nofail)
    qed (simp add: crash_triple_def)
    fix f
    show "triple ?R (\<lambda>d. ?P d \<and> f = JournalOf ?j) (case f of JournalGarbage \<Rightarrow> raise PeRecovery
      | JournalOf j \<Rightarrow>
          if pc_journalBytes c j > pc_maxWriteBytes c then raise PeRecovery
          else if \<not> journalShape j \<or> jn_scopeFingerprint j \<noteq> pc_fingerprint c then raise PeRecovery
          else and_then (each (validateJournalEntry c) (jn_entries j)) (\<lambda>_.
            (case jn_state j of
               Prepared \<Rightarrow>
                 and_then (requireHashes c je_originalSha256 (jn_entries j)) (\<lambda>_. cleanupJournal c j tid)
             | Committing \<Rightarrow> rollbackCommitting c j tid
             | Committed \<Rightarrow>
                 and_then (requireHashes c je_newSha256 (jn_entries j)) (\<lambda>_. cleanupJournal c j tid))))
        (\<lambda>_. ?Q) (\<lambda>_. False)"
    proof (cases "f = JournalOf ?j")
      case True
      have "triple ?R ?P (and_then (each (validateJournalEntry c) (jn_entries ?j)) (\<lambda>_.
            (case jn_state ?j of
               Prepared \<Rightarrow>
                 and_then (requireHashes c je_originalSha256 (jn_entries ?j)) (\<lambda>_. cleanupJournal c ?j tid)
             | Committing \<Rightarrow> rollbackCommitting c ?j tid
             | Committed \<Rightarrow>
                 and_then (requireHashes c je_newSha256 (jn_entries ?j)) (\<lambda>_. cleanupJournal c ?j tid))))
          (\<lambda>_. ?Q) (\<lambda>_. False)"
        by (rule triple_and_then [OF valid finish])
      with True shape size show ?thesis by simp
    next
      case False
      then show ?thesis by (simp add: crash_triple_def)
    qed
  qed
qed

section \<open>The run of a transaction\<close>

definition untouched :: "(abspath \<Rightarrow> node option) \<Rightarrow> prepared_patch list \<Rightarrow> disk \<Rightarrow> bool" where
  "untouched fs ps d \<longleftrightarrow> frame fs ps d \<and> all_orig ps d \<and> snd d = []"

definition materialized :: "prepared_patch list \<Rightarrow> disk \<Rightarrow> bool" where
  "materialized ps d \<longleftrightarrow> (\<forall>p \<in> set ps. backup_at d p \<and> temp_at d p)"

lemma untouched_recoverable: "untouched fs ps d \<Longrightarrow> recoverable c tid ps fs d"
  by (simp add: untouched_def recoverable_def)

lemma untouched_upd:
  assumes "tx_ok c tid ps" "untouched fs ps d" "q \<in> artifacts ps" "x \<noteq> Some Directory"
  shows "untouched fs ps ((fst d)(q := x), snd d)"
  using assms artifact_upd [OF assms(1,3)] by (auto simp: untouched_def)

lemma triple_undo:
  assumes tx: "tx_ok c tid ps" and created: "set created \<subseteq> artifacts ps"
    and m: "triple (recoverable c tid ps fs) A m Q (untouched fs ps)"
  shows "triple (recoverable c tid ps fs) A
    (catching m (\<lambda>e. and_then (each_all (safeUnlink c) created) (\<lambda>_. raise e))) Q (untouched fs ps)"
proof (rule triple_catching [OF m])
  fix e
  show "triple (recoverable c tid ps fs) (untouched fs ps)
      (and_then (each_all (safeUnlink c) created) (\<lambda>_. raise e)) Q (untouched fs ps)"
  proof (rule triple_and_then)
    show "triple (recoverable c tid ps fs) (untouched fs ps) (each_all (safeUnlink c) created)
        (\<lambda>_. untouched fs ps) (untouched fs ps)"
    proof (rule triple_each_all)
      fix q assume "q \<in> set created"
      with created have q: "q \<in> artifacts ps" by auto
      show "triple (recoverable c tid ps fs) (untouched fs ps) (safeUnlink c q)
          (\<lambda>_. untouched fs ps) (untouched fs ps)"
        by (rule triple_unlink)
          (simp_all add: untouched_upd [OF tx _ q] untouched_recoverable)
    qed
  qed (rule triple_raise)
qed

lemma triple_materializeEach:
  assumes tx: "tx_ok c tid ps"
  shows "ps = pre @ rest \<Longrightarrow> set created \<subseteq> artifacts ps \<Longrightarrow>
    triple (recoverable c tid ps fs) (\<lambda>d. untouched fs ps d \<and> materialized pre d)
      (materializeEach c rest created) (\<lambda>_ d. untouched fs ps d \<and> materialized ps d) (untouched fs ps)"
proof (induction rest arbitrary: pre created)
  case Nil
  then show ?case by (simp add: triple_ret)
next
  case (Cons p rest)
  let ?R = "recoverable c tid ps fs"
  have p: "p \<in> set ps" using Cons.prems(1) by simp
  have art: "pp_backup p \<in> artifacts ps" "pp_temp p \<in> artifacts ps" using p by (auto simp: artifacts_def)
  have "distinct ps" using tx distinct_map [of pp_target ps] by (auto simp: tx_ok_def)
  then have pre: "q \<in> set ps \<and> q \<noteq> p" if "q \<in> set pre" for q using that Cons.prems(1) by auto
  note D = txD(5-7) [OF tx p] txD(7) [OF tx _ p]
  have keep: "materialized pre ((fst d)(pp_backup p := x), js) = materialized pre d"
    "materialized pre ((fst d)(pp_temp p := x), js) = materialized pre d" for d x js
  proof -
    have ne: "pp_backup q \<noteq> pp_backup p" "pp_temp q \<noteq> pp_backup p" "pp_backup q \<noteq> pp_temp p"
      "pp_temp q \<noteq> pp_temp p" if "q \<in> set pre" for q
      using pre [OF that] txD(5,6,7) [OF tx p] txD(7) [OF tx _ p] by metis+
    show "materialized pre ((fst d)(pp_backup p := x), js) = materialized pre d"
      "materialized pre ((fst d)(pp_temp p := x), js) = materialized pre d"
      using ne by (auto simp: materialized_def backup_at_def temp_at_def)
  qed
  have tb: "pp_temp p \<noteq> pp_backup p" using txD(7) [OF tx p p] .
  let ?A = "\<lambda>d. untouched fs ps d \<and> materialized pre d"
  let ?B = "\<lambda>d. ?A d \<and> backup_at d p"
  have 1: "triple ?R ?A (writeExclusive c (pp_backup p) (pp_mode p) (pp_original p)) (\<lambda>_. ?B) (untouched fs ps)"
    by (rule triple_write)
      (simp_all add: untouched_upd [OF tx _ art(1)] untouched_recoverable keep backup_at_def)
  have 2: "triple ?R ?B (writeExclusive c (pp_temp p) (pp_mode p) (pp_replacement p))
      (\<lambda>_ d. untouched fs ps d \<and> materialized (pre @ [p]) d) (untouched fs ps)"
  proof (rule triple_write)
    fix d n assume d: "?B d"
    let ?d = "((fst d)(pp_temp p := Some (Regular (pp_replacement p) n)), snd d)"
    have "materialized pre ?d" using d keep(2) by simp
    then have "materialized (pre @ [p]) ?d"
      using d tb by (auto simp: materialized_def backup_at_def temp_at_def)
    moreover have "untouched fs ps ?d" using d untouched_upd [OF tx _ art(2)] by simp
    ultimately show "?R ?d \<and> untouched fs ps ?d \<and> materialized (pre @ [p]) ?d"
      using untouched_recoverable by blast
  qed (simp_all add: untouched_upd [OF tx _ art(2)] untouched_recoverable)
  have 3: "triple ?R (\<lambda>d. untouched fs ps d \<and> materialized (pre @ [p]) d)
      (materializeEach c rest (created @ [pp_backup p, pp_temp p]))
      (\<lambda>_ d. untouched fs ps d \<and> materialized ps d) (untouched fs ps)"
    by (rule Cons.IH) (use Cons.prems art in auto)
  have c2: "set (created @ [pp_backup p]) \<subseteq> artifacts ps" using Cons.prems(2) art by auto
  show ?case
    unfolding materializeEach.simps Let_def
    by (rule triple_and_then [OF triple_undo [OF tx Cons.prems(2) 1]
          triple_and_then [OF triple_undo [OF tx c2 2] 3]])
qed

text \<open>The journal plays no part in what the files hold.\<close>

lemma files_only:
  "frame fs ps (fst d, js) = frame fs ps d" "all_orig ps (fst d, js) = all_orig ps d"
  "all_new ps (fst d, js) = all_new ps d" "undoable ps (fst d, js) = undoable ps d"
  "materialized ps (fst d, js) = materialized ps d" "no_artifacts ps (fst d, js) = no_artifacts ps d"
  by (simp_all add: frame_def all_orig_def all_new_def undoable_def materialized_def no_artifacts_def
      orig_at_def new_at_def backup_at_def temp_at_def)

lemma write_transaction_journal:
  assumes "\<And>d. P d \<Longrightarrow> recoverable c tid ps fs d"
    "\<And>d. P d \<Longrightarrow> snd d = [] \<or> (\<exists>st'. snd d = journal_of c tid st' ps)"
    "\<And>d. P d \<Longrightarrow> recoverable c tid ps fs (fst d, journal_of c tid st ps) \<and> Q (fst d, journal_of c tid st ps)"
  shows "triple (recoverable c tid ps fs) P (writeJournal c (toJournal c tid st ps)) (\<lambda>_. Q)
    (recoverable c tid ps fs)"
proof (rule triple_journal)
  fix d assume d: "P d"
  have "put_key fst (jn_transactionId (toJournal c tid st ps), JournalOf (toJournal c tid st ps)) (snd d)
      = journal_of c tid st ps"
    using assms(2) [OF d] by (auto simp: journal_of_def)
  with assms(3) [OF d] show "recoverable c tid ps fs (fst d, put_key fst
        (jn_transactionId (toJournal c tid st ps), JournalOf (toJournal c tid st ps)) (snd d))
      \<and> Q (fst d, put_key fst (jn_transactionId (toJournal c tid st ps), JournalOf (toJournal c tid st ps)) (snd d))"
    by simp
qed (rule assms(1))

text \<open>The renames: targets become new one by one, every backup stays.\<close>

lemma triple_renames:
  assumes tx: "tx_ok c tid ps"
  shows "triple (recoverable c tid ps fs)
    (\<lambda>d. frame fs ps d \<and> snd d = journal_of c tid Committing ps \<and> all_orig ps d \<and> materialized ps d)
    (each (\<lambda>p. fs_rename c (pp_temp p) (pp_target p)) ps)
    (\<lambda>_ d. frame fs ps d \<and> snd d = journal_of c tid Committing ps \<and> all_new ps d \<and> undoable ps d)
    (\<lambda>d. frame fs ps d \<and> undoable ps d \<and> snd d = journal_of c tid Committing ps)"
proof -
  let ?at = "\<lambda>rest d p. backup_at d p \<and> (if p \<in> set rest then orig_at d p \<and> temp_at d p else new_at d p)"
  let ?I = "\<lambda>rest d. frame fs ps d \<and> snd d = journal_of c tid Committing ps \<and> (\<forall>p \<in> set ps. ?at rest d p)"
  have und: "undoable ps d" if "?I rest d" for rest d
    unfolding undoable_def using that by (metis (no_types, lifting))
  have rec: "recoverable c tid ps fs d" if "?I rest d" for rest d
    using und [OF that] that by (simp add: recoverable_def)
  have "distinct ps" using tx distinct_map [of pp_target ps] by (auto simp: tx_ok_def)
  have "triple (recoverable c tid ps fs) (?I ps) (each (\<lambda>p. fs_rename c (pp_temp p) (pp_target p)) ps)
      (\<lambda>_. ?I []) (\<lambda>d. frame fs ps d \<and> undoable ps d \<and> snd d = journal_of c tid Committing ps)"
  proof (rule triple_each [where I = ?I])
    fix p pre rest assume ps: "ps = pre @ p # rest"
    then have p: "p \<in> set ps" "p \<notin> set rest" using \<open>distinct ps\<close> by auto
    show "triple (recoverable c tid ps fs) (?I (p # rest)) (fs_rename c (pp_temp p) (pp_target p))
        (\<lambda>_. ?I rest) (\<lambda>d. frame fs ps d \<and> undoable ps d \<and> snd d = journal_of c tid Committing ps)"
    proof (rule triple_rename)
      fix d n assume d: "?I (p # rest) d" and n: "fst d (pp_temp p) = Some n"
      let ?d = "((fst d)(pp_target p := Some n, pp_temp p := None), snd d)"
      have "temp_at d p" using d p(1) by auto
      then have c: "content (\<lambda>_. Some n) x = Some (pp_replacement p)" for x
        using n by (auto simp: temp_at_def content_def)
      have tp: "pp_temp p \<noteq> pp_target q" if "q \<in> set ps" for q using txD(2) [OF tx p(1)] that by auto
      have "?at rest ?d q" if q: "q \<in> set ps" for q
      proof (cases "q = p")
        case True
        have "backup_at d p" using d p(1) by auto
        moreover have "pp_backup p \<noteq> pp_target p" using txD(3) [OF tx p(1)] p(1) by auto
        moreover have "pp_backup p \<noteq> pp_temp p" using txD(7) [OF tx p(1) p(1)] by simp
        ultimately show ?thesis
          using True p(2) c tp [OF p(1)] by (simp add: backup_at_def new_at_def)
      next
        case False
        have "pp_target q \<noteq> pp_target p" "pp_temp q \<noteq> pp_temp p"
          using txD(4,5) [OF tx p(1) q] False by auto
        moreover have "pp_target q \<noteq> pp_temp p" using tp [OF q] by auto
        moreover have "pp_temp q \<noteq> pp_target p" "pp_backup q \<noteq> pp_target p"
          using txD(2,3) [OF tx q] p(1) by auto
        moreover have "pp_backup q \<noteq> pp_temp p" using txD(7) [OF tx q p(1)] by simp
        ultimately have "orig_at ?d q = orig_at d q" "new_at ?d q = new_at d q"
          "backup_at ?d q = backup_at d q" "temp_at ?d q = temp_at d q"
          by (simp_all add: orig_at_def new_at_def backup_at_def temp_at_def)
        moreover have "?at (p # rest) d q" using d q by blast
        ultimately show ?thesis using False by simp
      qed
      moreover have "n \<noteq> Directory" using c by (auto simp: content_def split: node.splits)
      then have "frame fs ps ?d" using d p(1) by (auto simp: frame_def artifacts_def)
      moreover have "snd ?d = journal_of c tid Committing ps" using d by simp
      ultimately have "?I rest ?d" by blast
      then show "recoverable c tid ps fs ?d \<and> ?I rest ?d" using rec by blast
    next
      show "frame fs ps d \<and> undoable ps d \<and> snd d = journal_of c tid Committing ps" if "?I (p # rest) d" for d
        using that und [OF that] by blast
      show "frame fs ps d \<and> undoable ps d \<and> snd d = journal_of c tid Committing ps" if "?I (p # rest) d" for d
        using that und [OF that] by blast
    qed
  qed
  then show ?thesis
  proof (rule triple_conseq)
    fix d assume "?I [] d"
    then show "frame fs ps d \<and> snd d = journal_of c tid Committing ps \<and> all_new ps d \<and> undoable ps d"
      using und [where rest = "[]"] by (simp add: all_new_def)
  qed (auto simp: all_orig_def materialized_def)
qed

lemma triple_cleanup_none:
  assumes tx: "tx_ok c tid ps"
  shows "triple (recoverable c tid ps fs) (\<lambda>d. recoverable c tid ps fs d \<and> snd d = [])
    (cleanupPrepared c ps None) (\<lambda>_. recoverable c tid ps fs) (recoverable c tid ps fs)"
proof -
  let ?R = "recoverable c tid ps fs" and ?B = "\<lambda>d. recoverable c tid ps fs d \<and> snd d = []"
  have base: "frame fs ps d \<and> (all_orig ps d \<or> all_new ps d)" if "?B d" for d
    using that by (auto simp: recoverable_def)
  have "triple ?R ?B (each (\<lambda>p. and_then (safeUnlink c (pp_temp p)) (\<lambda>_. safeUnlink c (pp_backup p))) ps)
      (\<lambda>_ d. ?B d \<and> no_artifacts ps d) ?R"
  proof (rule triple_remove_artifacts [OF tx])
    fix d q assume d: "?B d" and q: "q \<in> artifacts ps"
    note b = cleanup_base [OF tx q, of fs d]
    show "fst d q \<noteq> Some Directory" using b(1) base [OF d] by blast
    have "frame fs ps ((fst d)(q := None), snd d)"
      "all_orig ps ((fst d)(q := None), snd d) \<or> all_new ps ((fst d)(q := None), snd d)"
      using b(2-4) base [OF d] by blast+
    then show "?R ((fst d)(q := None), snd d) \<and> ?B ((fst d)(q := None), snd d)"
      using d by (simp add: recoverable_def)
  qed simp
  then show ?thesis
    unfolding cleanupPrepared_def option.case by (rule triple_and_then) (rule triple_ret, blast)
qed

lemma triple_commit:
  assumes tx: "tx_ok c tid ps"
  shows "triple (recoverable c tid ps fs) (\<lambda>d. untouched fs ps d \<and> materialized ps d)
    (commitEntries c tid ps)
    (\<lambda>_ d. frame fs ps d \<and> all_new ps d \<and> snd d = [] \<and> no_artifacts ps d)
    (recoverable c tid ps fs)"
proof -
  let ?R = "recoverable c tid ps fs"
  let ?prepared = "\<lambda>d. frame fs ps d \<and> all_orig ps d \<and> materialized ps d \<and> snd d = journal_of c tid Prepared ps"
  let ?C = "\<lambda>d. frame fs ps d \<and> undoable ps d \<and> snd d = journal_of c tid Committing ps"
  note ok = txD(1) [OF tx, unfolded entry_ok_def]
  have 1: "triple ?R (\<lambda>d. untouched fs ps d \<and> materialized ps d)
      (writeJournal c (toJournal c tid Prepared ps)) (\<lambda>_. ?prepared) ?R"
  proof (rule write_transaction_journal)
    fix d assume d: "untouched fs ps d \<and> materialized ps d"
    then show "?R d" using untouched_recoverable by blast
    show "snd d = [] \<or> (\<exists>st'. snd d = journal_of c tid st' ps)" using d by (simp add: untouched_def)
    show "?R (fst d, journal_of c tid Prepared ps) \<and> ?prepared (fst d, journal_of c tid Prepared ps)"
      using d by (simp add: untouched_def recoverable_def files_only)
  qed
  have 2: "triple ?R ?prepared (each (\<lambda>p. and_then (readRegularNoFollow c (pp_target p)) (\<lambda>(current, _).
         if pc_sha c current \<noteq> pp_originalSha256 p
         then and_then (cleanupPrepared c ps (Some tid)) (\<lambda>_. raise PeConflict)
         else ret ())) ps) (\<lambda>_. ?prepared) ?R"
  proof (rule triple_each_inv)
    fix p assume p: "p \<in> set ps"
    show "triple ?R ?prepared (and_then (readRegularNoFollow c (pp_target p)) (\<lambda>(current, _).
         if pc_sha c current \<noteq> pp_originalSha256 p
         then and_then (cleanupPrepared c ps (Some tid)) (\<lambda>_. raise PeConflict)
         else ret ())) (\<lambda>_. ?prepared) ?R"
    proof (rule triple_and_then)
      show "triple ?R ?prepared (readRegularNoFollow c (pp_target p))
          (\<lambda>x d. ?prepared d \<and> fst x = pp_original p) ?R"
        by (rule triple_read_file) (use p in \<open>auto simp: recoverable_def all_orig_def orig_at_def\<close>)
      show "triple ?R (\<lambda>d. ?prepared d \<and> fst x = pp_original p) (case x of (current, _) \<Rightarrow>
          if pc_sha c current \<noteq> pp_originalSha256 p
          then and_then (cleanupPrepared c ps (Some tid)) (\<lambda>_. raise PeConflict)
          else ret ()) (\<lambda>_. ?prepared) ?R" for x
      proof (cases "fst x = pp_original p")
        case True
        then show ?thesis using ok [OF p] by (cases x) (simp add: triple_ret)
      next
        case False
        then show ?thesis by (simp add: crash_triple_def)
      qed
    qed
  qed
  let ?committing = "\<lambda>d. frame fs ps d \<and> snd d = journal_of c tid Committing ps \<and> all_orig ps d \<and> materialized ps d"
  have 3: "triple ?R ?prepared (writeJournal c (toJournal c tid Committing ps)) (\<lambda>_. ?committing) ?R"
  proof (rule write_transaction_journal)
    fix d assume d: "?prepared d"
    show "?R d" using d by (simp add: recoverable_def)
    show "snd d = [] \<or> (\<exists>st'. snd d = journal_of c tid st' ps)" using d by blast
    have "undoable ps d" using d by (simp add: undoable_def all_orig_def)
    with d show "?R (fst d, journal_of c tid Committing ps) \<and> ?committing (fst d, journal_of c tid Committing ps)"
      by (simp add: recoverable_def files_only)
  qed
  let ?renamed = "\<lambda>d. frame fs ps d \<and> snd d = journal_of c tid Committing ps \<and> all_new ps d \<and> undoable ps d"
  have undo: "triple ?R ?C (catching (rollbackCommitting c (toJournal c tid Committing ps) tid) (\<lambda>r. raise PeRecovery))
      (\<lambda>_. ?R) ?R"
  proof (rule triple_catching)
    show "triple ?R ?C (rollbackCommitting c (toJournal c tid Committing ps) tid) (\<lambda>_. ?R) ?R"
      by (rule triple_conseq [OF triple_rollback [OF tx]]) (auto simp: recoverable_def)
  qed (rule triple_raise)
  have 4: "triple ?R ?committing (catching (each (\<lambda>p. fs_rename c (pp_temp p) (pp_target p)) ps)
         (\<lambda>e. and_then (catching (rollbackCommitting c (toJournal c tid Committing ps) tid)
                         (\<lambda>r. raise PeRecovery)) (\<lambda>_. raise e))) (\<lambda>_. ?renamed) ?R"
  proof (rule triple_catching [OF triple_renames [OF tx]])
    show "triple ?R ?C (and_then (catching (rollbackCommitting c (toJournal c tid Committing ps) tid)
                         (\<lambda>r. raise PeRecovery)) (\<lambda>_. raise e)) (\<lambda>_. ?renamed) ?R" for e
      by (rule triple_and_then [OF undo]) (rule triple_raise)
  qed
  let ?committed = "\<lambda>d. frame fs ps d \<and> all_new ps d \<and> snd d = journal_of c tid Committed ps"
  have 5: "triple ?R ?renamed (writeJournal c (toJournal c tid Committed ps)) (\<lambda>_. ?committed) ?R"
  proof (rule write_transaction_journal)
    fix d assume d: "?renamed d"
    show "?R d" using d by (simp add: recoverable_def)
    show "snd d = [] \<or> (\<exists>st'. snd d = journal_of c tid st' ps)" using d by blast
    from d show "?R (fst d, journal_of c tid Committed ps) \<and> ?committed (fst d, journal_of c tid Committed ps)"
      by (simp add: recoverable_def files_only)
  qed
  have 6: "triple ?R ?committed (cleanupJournal c (toJournal c tid Committed ps) tid)
      (\<lambda>_ d. frame fs ps d \<and> all_new ps d \<and> snd d = [] \<and> no_artifacts ps d) ?R"
    unfolding cleanup_journal_prepared by (rule triple_cleanup [OF tx]) simp_all
  show ?thesis
    unfolding commitEntries_def
    by (rule triple_and_then [OF 1 triple_and_then [OF 2 triple_and_then [OF 3 triple_and_then [OF 4
          triple_and_then [OF 5 6]]]]])
qed

lemma triple_apply:
  assumes tx: "tx_ok c tid ps"
  shows "triple (recoverable c tid ps fs) (untouched fs ps) (applyEntries c tid ps)
    (\<lambda>_ d. frame fs ps d \<and> all_new ps d \<and> snd d = [] \<and> no_artifacts ps d)
    (recoverable c tid ps fs)"
proof -
  let ?R = "recoverable c tid ps fs"
  let ?Q = "\<lambda>_ d. frame fs ps d \<and> all_new ps d \<and> snd d = [] \<and> no_artifacts ps d"
  have mat: "triple ?R (untouched fs ps) (materializeTransaction c ps)
      (\<lambda>_ d. untouched fs ps d \<and> materialized ps d) ?R"
    unfolding materializeTransaction_def
    by (rule triple_conseq [OF triple_materializeEach [OF tx, of "[]" ps "[]"]])
      (auto simp: materialized_def untouched_recoverable)
  have clean: "triple ?R ?R (when' (e \<noteq> PeRecovery)
      (and_then (journalExists c tid) (\<lambda>ex. when' (\<not> ex) (cleanupPrepared c ps None)))) (\<lambda>_. ?R) ?R" for e
  proof (cases "e = PeRecovery")
    case True
    then show ?thesis by (simp add: when'_def triple_ret)
  next
    case False
    have "triple ?R ?R (and_then (journalExists c tid) (\<lambda>ex. when' (\<not> ex) (cleanupPrepared c ps None)))
        (\<lambda>_. ?R) ?R"
    proof (rule triple_and_then)
      show "triple ?R ?R (journalExists c tid) (\<lambda>ex d. ?R d \<and> (\<not> ex \<longrightarrow> snd d = [])) ?R"
        by (rule triple_journal_exists) (auto simp: recoverable_def)
      show "triple ?R (\<lambda>d. ?R d \<and> (\<not> ex \<longrightarrow> snd d = [])) (when' (\<not> ex) (cleanupPrepared c ps None)) (\<lambda>_. ?R) ?R" for ex
        using triple_cleanup_none [OF tx, of fs] by (cases ex) (simp_all add: when'_def triple_ret)
    qed
    with False show ?thesis by (simp add: when'_def)
  qed
  show ?thesis
    unfolding applyEntries_def
  proof (rule triple_and_then [OF mat triple_catching [OF triple_commit [OF tx]]])
    show "triple ?R ?R (and_then (when' (e \<noteq> PeRecovery)
        (and_then (journalExists c tid) (\<lambda>ex. when' (\<not> ex) (cleanupPrepared c ps None)))) (\<lambda>_. raise e)) ?Q ?R" for e
      by (rule triple_and_then [OF clean]) (rule triple_raise)
  qed
qed

section \<open>Crash atomicity\<close>

definition reliable :: "patch_config \<Rightarrow> patch_config" where
  "reliable c = c\<lparr>pc_fails := \<lambda>_. False\<rparr>"

lemma reliable_simps [simp]:
  "toJournal (reliable c) = toJournal c" "journal_of (reliable c) = journal_of c"
  "recoverable (reliable c) = recoverable c" "tx_ok (reliable c) = tx_ok c"
  "\<not> pc_fails (reliable c) n"
proof -
  show j: "toJournal (reliable c) = toJournal c" by (intro ext) (simp add: toJournal_def reliable_def)
  show o: "journal_of (reliable c) = journal_of c" by (intro ext) (simp add: journal_of_def j)
  show "recoverable (reliable c) = recoverable c" by (intro ext) (simp add: recoverable_def o)
  have "entry_ok (reliable c) = entry_ok c" by (intro ext) (simp add: entry_ok_def reliable_def)
  then show "tx_ok (reliable c) = tx_ok c"
    by (intro ext) (simp add: tx_ok_def j, simp add: reliable_def)
  show "\<not> pc_fails (reliable c) n" by (simp add: reliable_def)
qed

lemma recover_recoverable:
  assumes tx: "tx_ok c tid ps" and d: "recoverable c tid ps fs (disk_of w)" and h: "pw_history w = []"
  shows "\<exists>n w'. recoverPending (reliable c) w = (Inr n, w') \<and> pw_journals w' = []
    \<and> (all_orig ps (disk_of w') \<or> all_new ps (disk_of w')) \<and> frame fs ps (disk_of w')"
proof -
  let ?c = "reliable c" and ?w = "w\<lparr>pw_ops := pw_ops w + 1\<rparr>"
  have dw: "disk_of ?w = disk_of w" by (simp add: disk_of_def)
  show ?thesis
  proof (cases "pw_journals w = []")
    case True
    then have "recoverPending ?c w = (Inr 0, ?w)"
      by (simp add: recoverPending_def and_then_def io_def Let_def ret_def reliable_def)
    with True d show ?thesis by (auto simp: recoverable_def disk_of_def)
  next
    case False
    then obtain st where js: "pw_journals w = journal_of c tid st ps"
      using d by (auto simp: recoverable_def disk_of_def)
    obtain res w1 where r: "recoverOne ?c tid ?w = (res, w1)" by fastforce
    have T: "triple (recoverable c tid ps fs)
        (\<lambda>d. recoverable c tid ps fs d \<and> snd d = journal_of c tid st ps) (recoverOne ?c tid)
        (\<lambda>_ d. frame fs ps d \<and> snd d = [] \<and> no_artifacts ps d
          \<and> (if st = Committed then all_new ps d else all_orig ps d)) (\<lambda>_. False)"
      using triple_recover_one [of ?c tid ps fs st] tx by simp
    have pre: "recoverable c tid ps fs (disk_of ?w) \<and> snd (disk_of ?w) = journal_of c tid st ps"
      using d js by (simp add: disk_of_def)
    have hist: "hist_ok (recoverable c tid ps fs) ?w" using h by (simp add: crash_hist_def)
    note D = tripleD [OF T pre hist r]
    obtain x where x: "res = Inr x" using D(2) by (cases res) auto
    have "recoverPending ?c w = (Inr 1, w1)"
      using r x js
      by (simp add: recoverPending_def and_then_def io_def Let_def ret_def reliable_def MAX_JOURNALS_def
          journal_of_def)
    moreover have "pw_journals w1 = [] \<and> (all_orig ps (disk_of w1) \<or> all_new ps (disk_of w1))
        \<and> frame fs ps (disk_of w1)"
      using D(3) [OF x] by (auto simp: disk_of_def split: if_splits)
    ultimately show ?thesis by blast
  qed
qed

definition boot :: "disk \<Rightarrow> pworld" where
  "boot d = \<lparr>pw_files = fst d, pw_journals = snd d, pw_history = [], pw_ops = 0\<rparr>"

text \<open>
  The transaction on entries that satisfy \<open>tx_ok\<close>: after a crash at any disk of its run, recovery
  restores all targets or completes all of them.
\<close>

lemma transaction_crash_atomic:
  assumes tx: "tx_ok c tid ps" and w: "pw_journals w = []" "pw_history w = []"
    and orig: "all_orig ps (disk_of w)" and fresh: "no_artifacts ps (disk_of w)"
    and run: "applyEntries c tid ps w = (res, w')"
    and crash: "d \<in> set (pw_history w') \<union> {disk_of w, disk_of w'}"
  shows "(\<exists>n w''. recoverPending (reliable c) (boot d) = (Inr n, w'') \<and> pw_journals w'' = []
      \<and> (all_orig ps (disk_of w'') \<or> all_new ps (disk_of w''))
      \<and> (\<forall>q. q \<notin> pp_target ` set ps \<union> artifacts ps \<longrightarrow> pw_files w'' q = pw_files w q))
    \<and> (res = Inr () \<longrightarrow> all_new ps (disk_of w') \<and> no_artifacts ps (disk_of w') \<and> pw_journals w' = [])"
proof -
  let ?fs = "pw_files w" and ?R = "recoverable c tid ps (pw_files w)"
  have f: "frame ?fs ps (disk_of w)" using fresh by (auto simp: frame_def disk_of_def no_artifacts_def)
  then have u: "untouched ?fs ps (disk_of w)" using orig w by (simp add: untouched_def disk_of_def)
  have h: "hist_ok ?R w" using w by (simp add: crash_hist_def)
  note D = tripleD [OF triple_apply [OF tx] u h run]
  have fin: "?R (disk_of w')"
  proof (cases res)
    case (Inl e)
    with D(2) show ?thesis by simp
  next
    case (Inr x)
    with D(3) show ?thesis by (auto simp: recoverable_def)
  qed
  have "?R d" using crash D(1) fin untouched_recoverable [OF u] by (auto simp: crash_hist_def)
  then have "?R (disk_of (boot d))" by (simp add: boot_def disk_of_def)
  from recover_recoverable [OF tx this]
  obtain n w'' where "recoverPending (reliable c) (boot d) = (Inr n, w'')" "pw_journals w'' = []"
    "all_orig ps (disk_of w'') \<or> all_new ps (disk_of w'')" "frame ?fs ps (disk_of w'')"
    by (auto simp: boot_def)
  moreover from this(4) have "\<forall>q. q \<notin> pp_target ` set ps \<union> artifacts ps \<longrightarrow> pw_files w'' q = pw_files w q"
    by (simp add: frame_def disk_of_def)
  ultimately have 1: "\<exists>n w''. recoverPending (reliable c) (boot d) = (Inr n, w'') \<and> pw_journals w'' = []
      \<and> (all_orig ps (disk_of w'') \<or> all_new ps (disk_of w''))
      \<and> (\<forall>q. q \<notin> pp_target ` set ps \<union> artifacts ps \<longrightarrow> pw_files w'' q = pw_files w q)"
    by blast
  have 2: "res = Inr () \<longrightarrow> all_new ps (disk_of w') \<and> no_artifacts ps (disk_of w') \<and> pw_journals w' = []"
    using D(3) by (auto simp: disk_of_def)
  from 1 2 show ?thesis by blast
qed

definition demo_sha :: "byte list \<Rightarrow> string" where
  "demo_sha b = replicate 64 (if b = [1] then CHR ''a'' else CHR ''b'')"

definition demo_config :: patch_config where
  "demo_config = \<lparr>pc_sha = demo_sha, pc_parse = (\<lambda>_. Inr [[\<lparr>ph_oldStart = 1, ph_oldLines = 1,
       ph_newStart = 1, ph_newLines = 1, ph_lines = [''+x'']\<rparr>]]),
     pc_applyPatch = (\<lambda>_ _. Applied [2]), pc_resolve = (\<lambda>_. Inr [''w'', ''f'']), pc_realpath = Some,
     pc_umask = (\<lambda>m. m), pc_roots = [[''w'']], pc_fingerprint = ''s'', pc_maxReadBytes = 4,
     pc_maxWriteBytes = 8, pc_journalBytes = (\<lambda>_. 1), pc_fails = (\<lambda>n. n = 8)\<rparr>"

definition demo_patch :: prepared_patch where
  "demo_patch = \<lparr>pp_target = [''w'', ''f''], pp_original = [1], pp_replacement = [2],
     pp_originalSha256 = demo_sha [1], pp_newSha256 = demo_sha [2], pp_mode = 420,
     pp_temp = artifactPath [''w'', ''f''] ''t'' ''.next'',
     pp_backup = artifactPath [''w'', ''f''] ''t'' ''.backup''\<rparr>"

definition demo_world :: pworld where
  "demo_world = boot ((\<lambda>q. if q = [''w'', ''f''] then Some (Regular [1] 420) else None), [])"

lemma demo_tx: "tx_ok demo_config ''t'' [demo_patch]"
  by (simp add: tx_ok_def entry_ok_def demo_patch_def demo_config_def artifactPath_def demo_sha_def
      hex64_def MAX_PATCH_COUNT_def isInside_def path_relative_def list_all_iff)

text \<open>
  A transaction whose new content is larger than the read limit blocks its scope. The write
  limit (which bounds the new content) may be larger than the read limit, and by default is;
  a crash after the commit then leaves a journal that every later recovery refuses with a
  limit error, without removing it.
\<close>

theorem recovery_blocked_by_read_limit:
  assumes "entry_ok c tid (p\<lparr>pp_replacement := small\<rparr>)" "pp_newSha256 p = pc_sha c (pp_replacement p)"
    "pc_maxReadBytes c < length (pp_replacement p)" "new_at d p"
    "snd d = journal_of c tid Committed [p]"
    "pc_journalBytes c (toJournal c tid Committed [p]) \<le> pc_maxWriteBytes c"
  shows "\<exists>w'. recoverPending (reliable c) (boot d) = (Inl PeLimit, w') \<and> pw_journals w' = snd d"
proof -
  let ?c = "reliable c"
  have target: "\<exists>m. fst d (pp_target p) = Some (Regular (pp_replacement p) m)"
    using assms(4) by (auto simp: new_at_def content_def split: option.splits node.splits)
  have "validateJournalEntry ?c (to_entry p) = ret ()"
  proof -
    have "starts_with (''.'' @ a @ ''.'' @ b) (''.'' @ a @ ''.'')" for a b by (simp add: starts_with_def)
    moreover have "ends_with (''.'' @ a @ ''.'' @ b @ x) x" for a b x
      unfolding ends_with_def suffix_def by (rule exI [of _ "''.'' @ a @ ''.'' @ b"]) simp
    ultimately show ?thesis
      using assms(1) by (simp add: validateJournalEntry_def entry_ok_def artifactPath_def reliable_def)
  qed
  moreover have "journalShape (toJournal c tid Committed [p])"
    using assms(1) by (auto simp: journalShape_def entry_ok_def MAX_PATCH_COUNT_def)
  moreover have "\<not> pc_maxWriteBytes c < pc_journalBytes c (toJournal c tid Committed [p])"
    using assms(6) by simp
  ultimately show ?thesis
    using target assms(3,5)
    by (auto simp: recoverPending_def recoverOne_def and_then_def io_def Let_def ret_def raise_def catching_def
        boot_def MAX_JOURNALS_def journal_of_def find_key_def requireHashes_def targetHash_io reliable_def)
qed

theorem recovery_blocked_by_read_limit_witness:
  "\<exists>w'. recoverPending (reliable demo_config)
      (boot ((\<lambda>q. Some (Regular [2, 2, 2, 2, 2] 420)),
        journal_of demo_config ''t'' Committed [demo_patch\<lparr>pp_replacement := [2, 2, 2, 2, 2]\<rparr>])) = (Inl PeLimit, w')"
proof -
  let ?p = "demo_patch\<lparr>pp_replacement := [2, 2, 2, 2, 2]\<rparr>"
  let ?d = "((\<lambda>q. Some (Regular [2, 2, 2, 2, 2] 420)), journal_of demo_config ''t'' Committed [?p]) :: disk"
  have "\<exists>w'. recoverPending (reliable demo_config) (boot ?d) = (Inl PeLimit, w') \<and> pw_journals w' = snd ?d"
  proof (rule recovery_blocked_by_read_limit [where tid = "''t''" and p = ?p and small = "[2]"])
    have "?p\<lparr>pp_replacement := [2]\<rparr> = demo_patch" by (simp add: demo_patch_def)
    then show "entry_ok demo_config ''t'' (?p\<lparr>pp_replacement := [2]\<rparr>)"
      using demo_tx by (simp add: tx_ok_def)
  qed (simp_all add: demo_patch_def demo_config_def demo_sha_def new_at_def content_def)
  then show ?thesis by blast
qed

section \<open>What preparation establishes\<close>

text \<open>The entry made for one input, on a disk that preparation does not change.\<close>

definition prepared_for ::
  "patch_config \<Rightarrow> string \<Rightarrow> (abspath \<Rightarrow> node option) \<Rightarrow> patch_input \<Rightarrow> prepared_patch \<Rightarrow> bool" where
  "prepared_for c tid fs input p \<longleftrightarrow>
     pc_resolve c (pi_path input) = Inr (pp_target p)
     \<and> content fs (pp_target p) = Some (pp_original p)
     \<and> pc_sha c (pp_original p) = pi_expectedSha256 input
     \<and> validateUnifiedPatch (pc_parse c) (fst (normalizeUnifiedPatchHunkHeaders (pi_patch input))) = Inr ()
     \<and> (\<exists>patched. pc_applyPatch c (utf8_decode (pp_original p))
            (fst (normalizeUnifiedPatchHunkHeaders (pi_patch input))) = Applied patched
          \<and> pp_replacement p = utf8_encode patched)
     \<and> pp_originalSha256 p = pc_sha c (pp_original p) \<and> pp_newSha256 p = pc_sha c (pp_replacement p)
     \<and> length (pp_original p) \<le> pc_maxReadBytes c \<and> length (pp_replacement p) \<le> pc_maxWriteBytes c
     \<and> pp_temp p = artifactPath (pp_target p) tid ''.next''
     \<and> pp_backup p = artifactPath (pp_target p) tid ''.backup''"

lemma io_InrD: "io c m w = (Inr y, w') \<Longrightarrow> m (w\<lparr>pw_ops := pw_ops w + 1\<rparr>) = (Inr y, w')"
  by (auto simp: io_def Let_def split: if_splits)

lemma prepareOne_sound:
  assumes "prepareOne c tid input seen w = (Inr (p, canonical), w')"
  shows "prepared_for c tid (pw_files w) input p \<and> disk_of w' = disk_of w \<and> pw_history w' = pw_history w
    \<and> pc_realpath c (pp_target p) = Some canonical \<and> canonical \<notin> set seen"
proof -
  obtain target where t: "pc_resolve c (pi_path input) = Inr target"
    using assms by (cases "pc_resolve c (pi_path input)") (auto simp: prepareOne_def raise_def)
  from and_then_InrD [OF assms [unfolded prepareOne_def t sum.case]] obtain w1 where
    l: "io c (\<lambda>w. case pw_files w target of None \<Rightarrow> (Inl PeMissing, w) | Some (Regular b m) \<Rightarrow> (Inr (), w)
        | Some _ \<Rightarrow> (Inl PePolicy, w)) w = (Inr (), w1)"
    and k: "(case pc_realpath c target of None \<Rightarrow> raise PeIo
        | Some canonical \<Rightarrow> if canonical \<in> set seen then raise PePolicy
          else and_then (readRegularNoFollow c target) (\<lambda>(current, mode).
            if pc_sha c current \<noteq> pi_expectedSha256 input then raise PeConflict
            else let normalized = fst (normalizeUnifiedPatchHunkHeaders (pi_patch input))
              in case validateUnifiedPatch (pc_parse c) normalized of
                   Inl reason \<Rightarrow> raise (PePatchInvalid reason)
                 | Inr _ \<Rightarrow> (case pc_applyPatch c (utf8_decode current) normalized of
                     ApplyThrows message \<Rightarrow> raise (PePatchInvalid (patchInvalidError message))
                   | ApplyRejects \<Rightarrow> raise PeConflict
                   | Applied patched \<Rightarrow>
                       let replacement = utf8_encode patched
                       in if length replacement > pc_maxWriteBytes c then raise PeLimit
                          else ret (\<lparr>pp_target = target, pp_original = current,
                            pp_replacement = replacement, pp_originalSha256 = pc_sha c current,
                            pp_newSha256 = pc_sha c replacement, pp_mode = mode,
                            pp_temp = artifactPath target tid ''.next'',
                            pp_backup = artifactPath target tid ''.backup''\<rparr>, canonical)))) w1
        = (Inr (p, canonical), w')"
    by (auto simp: unit_eq)
  from io_InrD [OF l] have w1: "disk_of w1 = disk_of w" "pw_history w1 = pw_history w"
    by (auto simp: disk_of_def split: option.splits node.splits)
  from k obtain c0 where rp: "pc_realpath c target = Some c0" "c0 \<notin> set seen"
    by (auto simp: raise_def split: option.splits if_splits)
  from and_then_InrD [OF k [unfolded rp(1) option.case, simplified rp(2) if_False]] obtain cur mode w2 where
    rd: "readRegularNoFollow c target w1 = (Inr (cur, mode), w2)"
    and fin: "(if pc_sha c cur \<noteq> pi_expectedSha256 input then raise PeConflict
            else let normalized = fst (normalizeUnifiedPatchHunkHeaders (pi_patch input))
              in case validateUnifiedPatch (pc_parse c) normalized of
                   Inl reason \<Rightarrow> raise (PePatchInvalid reason)
                 | Inr _ \<Rightarrow> (case pc_applyPatch c (utf8_decode cur) normalized of
                     ApplyThrows message \<Rightarrow> raise (PePatchInvalid (patchInvalidError message))
                   | ApplyRejects \<Rightarrow> raise PeConflict
                   | Applied patched \<Rightarrow>
                       let replacement = utf8_encode patched
                       in if length replacement > pc_maxWriteBytes c then raise PeLimit
                          else ret (\<lparr>pp_target = target, pp_original = cur,
                            pp_replacement = replacement, pp_originalSha256 = pc_sha c cur,
                            pp_newSha256 = pc_sha c replacement, pp_mode = mode,
                            pp_temp = artifactPath target tid ''.next'',
                            pp_backup = artifactPath target tid ''.backup''\<rparr>, c0))) w2
        = (Inr (p, canonical), w')"
    by auto
  from io_InrD [OF rd [unfolded readRegularNoFollow_def]]
  have c: "content (pw_files w1) target = Some cur" "length cur \<le> pc_maxReadBytes c"
    "disk_of w2 = disk_of w1" "pw_history w2 = pw_history w1"
    by (auto simp: disk_of_def content_def split: option.splits node.splits if_splits)
  have "pw_files w1 = pw_files w" using w1 by (simp add: disk_of_def)
  with fin c t rp w1 show ?thesis
    by (auto simp: prepared_for_def raise_def ret_def Let_def split: if_splits sum.splits apply_result.splits)
qed

lemma prepareEach_sound:
  assumes "prepareEach c tid inputs pb tb seen w = (Inr ps, w')"
  shows "list_all2 (prepared_for c tid (pw_files w)) inputs ps \<and> disk_of w' = disk_of w
    \<and> pw_history w' = pw_history w
    \<and> (\<exists>cs. map (\<lambda>p. pc_realpath c (pp_target p)) ps = map Some cs \<and> distinct cs \<and> set cs \<inter> set seen = {})
    \<and> (inputs \<noteq> [] \<longrightarrow> pb + sum_list (map (\<lambda>i. length (pi_patch i)) inputs) \<le> MAX_TOTAL_PATCH_BYTES
        \<and> tb + sum_list (map (\<lambda>p. length (pp_original p) + length (pp_replacement p)) ps) \<le> MAX_TRANSACTION_BYTES)"
  using assms
proof (induction inputs arbitrary: pb tb seen w ps w')
  case Nil
  then show ?case by (simp add: ret_def)
next
  case (Cons i rest)
  let ?pb = "pb + length (pi_patch i)"
  from Cons.prems have pb: "?pb \<le> MAX_TOTAL_PATCH_BYTES"
    by (auto simp: Let_def raise_def split: if_splits)
  with Cons.prems obtain p canonical w1 where
    one: "prepareOne c tid i seen w = (Inr (p, canonical), w1)"
    and k: "(let tb' = tb + length (pp_original p) + length (pp_replacement p)
            in if tb' > MAX_TRANSACTION_BYTES then raise PeLimit
               else and_then (prepareEach c tid rest ?pb tb' (canonical # seen)) (\<lambda>ps. ret (p # ps))) w1
          = (Inr ps, w')"
    by (auto simp: Let_def dest!: and_then_InrD)
  let ?tb = "tb + length (pp_original p) + length (pp_replacement p)"
  from k have tb: "?tb \<le> MAX_TRANSACTION_BYTES"
    by (auto simp: Let_def raise_def split: if_splits)
  with k obtain ps' where res: "prepareEach c tid rest ?pb ?tb (canonical # seen) w1 = (Inr ps', w')"
    and ps: "ps = p # ps'"
    by (auto simp: Let_def ret_def dest!: and_then_InrD)
  note o = prepareOne_sound [OF one]
  note r = Cons.IH [OF res]
  have f: "pw_files w1 = pw_files w" using o by (simp add: disk_of_def)
  from r obtain cs where cs: "map (\<lambda>p. pc_realpath c (pp_target p)) ps' = map Some cs" "distinct cs"
    "set cs \<inter> set (canonical # seen) = {}" by blast
  have d: "map (\<lambda>p. pc_realpath c (pp_target p)) ps = map Some (canonical # cs)"
    "distinct (canonical # cs)" "set (canonical # cs) \<inter> set seen = {}"
    using cs o ps by auto
  have "list_all2 (prepared_for c tid (pw_files w)) rest ps'" using r f by simp
  moreover have "?pb + sum_list (map (\<lambda>i. length (pi_patch i)) rest) \<le> MAX_TOTAL_PATCH_BYTES
      \<and> ?tb + sum_list (map (\<lambda>p. length (pp_original p) + length (pp_replacement p)) ps') \<le> MAX_TRANSACTION_BYTES"
  proof (cases "rest = []")
    case True
    with res have "ps' = []" by (simp add: ret_def)
    with True pb tb show ?thesis by simp
  next
    case False
    with r show ?thesis by blast
  qed
  ultimately show ?case using o r ps by (intro conjI exI [of _ "canonical # cs"] d) (auto simp: add.assoc)
qed

lemma demo_valid:
  "validateUnifiedPatch (\<lambda>_. Inr [[\<lparr>ph_oldStart = 1, ph_oldLines = 1,
     ph_newStart = 1, ph_newLines = 1, ph_lines = [''+x'']\<rparr>]]) (fst (normalizeUnifiedPatchHunkHeaders [])) = Inr ()"
  by code_simp

text \<open>
  C29: A patch set that preparation accepts has between 1 and 100 patches within the byte budgets,
  each entry holds the checked original content of the file its path resolves to and the
  content the patch makes of it, the files are pairwise different files (by real path), and
  preparation has written nothing.
\<close>

theorem prepare_sound:
  assumes "prepare c inputs tid w = (Inr ps, w')"
  shows "list_all2 (prepared_for c tid (pw_files w)) inputs ps
    \<and> (\<exists>cs. map (\<lambda>p. pc_realpath c (pp_target p)) ps = map Some cs \<and> distinct cs)
    \<and> 1 \<le> length inputs \<and> length inputs \<le> MAX_PATCH_COUNT
    \<and> sum_list (map (\<lambda>i. length (pi_patch i)) inputs) \<le> MAX_TOTAL_PATCH_BYTES
    \<and> sum_list (map (\<lambda>p. length (pp_original p) + length (pp_replacement p)) ps) \<le> MAX_TRANSACTION_BYTES
    \<and> pw_files w' = pw_files w \<and> pw_journals w' = pw_journals w \<and> pw_history w' = pw_history w"
proof -
  from assms have n: "1 \<le> length inputs" "length inputs \<le> MAX_PATCH_COUNT"
    and e: "prepareEach c tid inputs 0 0 [] w = (Inr ps, w')"
    by (auto simp: prepare_def requirePatchCount_def and_then_def ret_def raise_def Suc_le_eq
        split: if_splits prod.splits)
  then have "inputs \<noteq> []" by auto
  note r = prepareEach_sound [OF e]
  from r \<open>inputs \<noteq> []\<close> have
    b: "sum_list (map (\<lambda>i. length (pi_patch i)) inputs) \<le> MAX_TOTAL_PATCH_BYTES"
      "sum_list (map (\<lambda>p. length (pp_original p) + length (pp_replacement p)) ps) \<le> MAX_TRANSACTION_BYTES"
    by simp_all
  from r have f: "pw_files w' = pw_files w" "pw_journals w' = pw_journals w" "pw_history w' = pw_history w"
    by (simp_all add: disk_of_def)
  from r have c: "\<exists>cs. map (\<lambda>p. pc_realpath c (pp_target p)) ps = map Some cs \<and> distinct cs" by blast
  from r have l: "list_all2 (prepared_for c tid (pw_files w)) inputs ps" by (rule conjunct1)
  show ?thesis by (intro conjI l c n b f)
qed

theorem prepare_sound_witness:
  "case prepare demo_config [\<lparr>pi_path = ''f'', pi_patch = [], pi_expectedSha256 = demo_sha [1]\<rparr>] ''t'' demo_world of
     (Inr ps, w') \<Rightarrow> pw_files w' = pw_files demo_world \<and> length ps = 1
   | (Inl _, _) \<Rightarrow> False"
proof -
  let ?i = "\<lparr>pi_path = ''f'', pi_patch = [], pi_expectedSha256 = demo_sha [1]\<rparr>"
  obtain ps w' where run: "prepare demo_config [?i] ''t'' demo_world = (Inr ps, w')"
    by (simp add: prepare_def requirePatchCount_def MAX_PATCH_COUNT_def MAX_TOTAL_PATCH_BYTES_def
        MAX_TRANSACTION_BYTES_def prepareOne_def readRegularNoFollow_def io_def Let_def
        and_then_def ret_def raise_def demo_config_def demo_world_def boot_def demo_valid encode_cp_def)
  note s = prepare_sound [OF run]
  from s [THEN conjunct1] have "length ps = 1" by (auto dest: list_all2_lengthD)
  with s run show ?thesis by simp
qed

section \<open>From preparation to recovery\<close>

lemma artifactPath_eq:
  assumes "artifactPath t tid e = artifactPath t' tid e'" "t \<noteq> []" "t' \<noteq> []"
    "e \<in> {''.next'', ''.backup''}" "e' \<in> {''.next'', ''.backup''}"
  shows "t = t' \<and> e = e'"
proof -
  from assms(1) have b: "butlast t = butlast t'" and l: "last t @ ''.'' @ tid @ e = last t' @ ''.'' @ tid @ e'"
    by (simp_all add: artifactPath_def)
  from arg_cong [OF l, of last] assms(4,5) have e: "e = e'" by auto
  with l have "last t = last t'" by simp
  with b assms(2,3) have "t = t'" by (metis append_butlast_last_id)
  with e show ?thesis by blast
qed

lemma prepared_tx_ok:
  assumes prep: "prepare c inputs tid w0 = (Inr ps, w)"
    and fresh: "no_artifacts ps (disk_of w0)"
    and policy: "\<forall>path t. pc_resolve c path = Inr t \<longrightarrow> t \<noteq> [] \<and> list_ex (\<lambda>root. isInside root t) (pc_roots c)"
    and sha: "\<forall>b. hex64 (pc_sha c b)"
      "\<forall>p \<in> set ps. pc_sha c (pp_original p) = pc_sha c (pp_replacement p) \<longrightarrow> pp_original p = pp_replacement p"
    and limits: "\<forall>p \<in> set ps. length (pp_replacement p) \<le> pc_maxReadBytes c"
      "\<forall>st. pc_journalBytes c (toJournal c tid st ps) \<le> pc_maxWriteBytes c"
  shows "tx_ok c tid ps \<and> all_orig ps (disk_of w) \<and> disk_of w = disk_of w0 \<and> pw_history w = pw_history w0"
proof -
  from prep have n: "1 \<le> length inputs" "length inputs \<le> MAX_PATCH_COUNT"
    and e: "prepareEach c tid inputs 0 0 [] w0 = (Inr ps, w)"
    by (auto simp: prepare_def requirePatchCount_def and_then_def ret_def raise_def Suc_le_eq
        split: if_splits prod.splits)
  note r = prepareEach_sound [OF e]
  then have len: "length ps = length inputs" by (auto dest: list_all2_lengthD)
  have each: "\<exists>i. prepared_for c tid (pw_files w0) i p" if "p \<in> set ps" for p
    using r that by (auto simp: list_all2_conv_all_nth in_set_conv_nth)
  have target: "pp_target p \<noteq> [] \<and> list_ex (\<lambda>root. isInside root (pp_target p)) (pc_roots c)
      \<and> content (pw_files w0) (pp_target p) = Some (pp_original p)
      \<and> pp_temp p = artifactPath (pp_target p) tid ''.next'' \<and> pp_backup p = artifactPath (pp_target p) tid ''.backup''"
    if "p \<in> set ps" for p
    using each [OF that] policy by (auto simp: prepared_for_def)
  have ok: "entry_ok c tid p" if "p \<in> set ps" for p
  proof -
    from each [OF that] obtain i where i: "prepared_for c tid (pw_files w0) i p" by blast
    then have h: "pp_originalSha256 p = pc_sha c (pp_original p)" "pp_newSha256 p = pc_sha c (pp_replacement p)"
      "length (pp_original p) \<le> pc_maxReadBytes c"
      by (simp_all add: prepared_for_def)
    show ?thesis unfolding entry_ok_def h(1,2) using target [OF that] sha limits(1) that h(3) by blast
  qed
  from r obtain cs where "map (\<lambda>p. pc_realpath c (pp_target p)) ps = map Some cs" "distinct cs" by blast
  then have "distinct (map (pc_realpath c) (map pp_target ps))" by (simp add: distinct_map o_def)
  then have dt: "distinct (map pp_target ps)" using distinct_map by blast
  then have ij: "inj_on pp_target (set ps)" "distinct ps" by (simp_all add: distinct_map)
  have art: "p = q \<and> ext = ext'"
    if "p \<in> set ps" "q \<in> set ps" "artifactPath (pp_target p) tid ext = artifactPath (pp_target q) tid ext'"
      "ext \<in> {''.next'', ''.backup''}" "ext' \<in> {''.next'', ''.backup''}" for p q ext ext'
    using artifactPath_eq [OF that(3)] target that(1,2,4,5) ij(1) by (auto simp: inj_on_def)
  have same: "p = q" if "p \<in> set ps" "q \<in> set ps" "pp_temp p = pp_temp q \<or> pp_backup p = pp_backup q" for p q
    using art [OF that(1,2)] target [OF that(1)] target [OF that(2)] that(3) by auto
  have apart: "pp_temp p \<noteq> pp_backup q" if "p \<in> set ps" "q \<in> set ps" for p q
    using art [OF that, of "''.next''" "''.backup''"] target [OF that(1)] target [OF that(2)] by auto
  have "distinct (map pp_temp ps)" "distinct (map pp_backup ps)"
    unfolding distinct_map using ij(2) by (auto intro!: inj_onI same)
  moreover have "set (map pp_temp ps) \<inter> set (map pp_backup ps) = {}" using apart by auto
  moreover have "set (map pp_target ps) \<inter> (set (map pp_temp ps) \<union> set (map pp_backup ps)) = {}"
  proof -
    have "fst (disk_of w0) q = None" if "q \<in> set (map pp_temp ps) \<union> set (map pp_backup ps)" for q
      using fresh that by (auto simp: no_artifacts_def artifacts_def)
    moreover have "fst (disk_of w0) q \<noteq> None" if "q \<in> set (map pp_target ps)" for q
      using target that by (auto simp: disk_of_def dest: content_Some_exists)
    ultimately show ?thesis by blast
  qed
  ultimately have "distinct (map pp_target ps @ map pp_temp ps @ map pp_backup ps)" using dt by auto
  with ok n len limits(2) have "tx_ok c tid ps" by (simp add: tx_ok_def list_all_iff)
  moreover from r have d: "disk_of w = disk_of w0" "pw_history w = pw_history w0" by simp_all
  moreover have "all_orig ps (disk_of w0)"
    using target by (auto simp: all_orig_def orig_at_def disk_of_def)
  ultimately show ?thesis by simp
qed


lemma demo_prepared:
  "\<exists>w. prepare demo_config [\<lparr>pi_path = ''f'', pi_patch = [], pi_expectedSha256 = demo_sha [1]\<rparr>] ''t'' demo_world
     = (Inr [demo_patch], w)"
  by (simp add: prepare_def requirePatchCount_def MAX_PATCH_COUNT_def MAX_TOTAL_PATCH_BYTES_def
        MAX_TRANSACTION_BYTES_def prepareOne_def readRegularNoFollow_def io_def Let_def
        and_then_def ret_def raise_def demo_config_def demo_world_def boot_def demo_valid encode_cp_def demo_patch_def)


end
