(* ===== verification/Authority.thy ===== *)
theory Authority
  imports Path_Policy
begin

text \<open>
  \<open>src/src/core/authority.ts\<close>: leases on project roots. A lease is stored under the digest of its
  identifier, expires, and can be ended; a lookup that fails is recorded in the audit log, where
  refusals of the same kind are summed up over a window of a minute. Times are milliseconds
  (an ISO string of the code stands for the same instant); SHA-256, the random identifier, the
  clock and the file system are parameters of a call.

  Shown: every stored lease is confined (existing directories, never the file-system root or the
  home directory, at most eight hours); a lookup by identifier follows the abstract life of the
  lease; the denial audit counts every refusal exactly once and stays small under a flood.
\<close>

datatype auth_error =
    NoExplicitRoot
  | NotDirectory string
  | Unresolvable string "string option"
  | RootOrHome string
  | HomeFails
  | AuthorityRequired
  | AuthorityExpired

datatype denial_reason = Missing | UnknownLease

datatype lifecycle = AuthStart | AuthEnd | AuthExpired

datatype auth_event =
    Lifecycle lifecycle nat string "int option"
  | Denied denial_reason nat int

record stored_lease =
  sl_roots :: "abspath list"
  sl_terminalEnabled :: bool
  sl_commands :: "string list"
  sl_createdAt :: int
  sl_expiresAtMs :: int

record denial_window =
  dw_startedAtMs :: int
  dw_pending :: nat

record auth_options =
  ao_home :: string
  ao_commands :: "string list"
  ao_terminalEnabled :: bool
  ao_audited :: bool
  ao_sha :: "string \<Rightarrow> string"
  ao_scopeDigest :: "abspath list \<Rightarrow> string"

text \<open>
  The file system a call sees: \<open>realpath\<close> (\<open>Inl\<close> carries the error's code, if it has one) and
  whether \<open>stat\<close> finds a directory; the working directory; the clock.
\<close>

record auth_env =
  ae_cwd :: abspath
  ae_real :: "abspath \<Rightarrow> string option + abspath"
  ae_isDirectory :: "abspath \<Rightarrow> string option + bool"
  ae_now :: int

record auth_state =
  as_leases :: "(string \<times> stored_lease) list"
  as_windows :: "(denial_reason \<times> denial_window) list"
  as_audit :: "auth_event list"

definition DENIAL_WINDOW_MS :: int where "DENIAL_WINDOW_MS = 60000"
definition PROJECT_MAX_TTL_SECONDS :: int where "PROJECT_MAX_TTL_SECONDS = 8 * 60 * 60"

definition auth_new :: auth_state where
  "auth_new = \<lparr>as_leases = [], as_windows = [], as_audit = []\<rparr>"

section \<open>Roots\<close>

definition canonical_root :: "auth_env \<Rightarrow> abspath \<Rightarrow> string \<Rightarrow> auth_error + abspath" where
  "canonical_root env home requestedRoot =
     (case ae_real env (path_resolve (ae_cwd env) requestedRoot) of
        Inl causeCode \<Rightarrow> Inl (Unresolvable requestedRoot causeCode)
      | Inr canonical \<Rightarrow>
          (case ae_isDirectory env canonical of
             Inl causeCode \<Rightarrow> Inl (Unresolvable requestedRoot causeCode)
           | Inr False \<Rightarrow> Inl (NotDirectory requestedRoot)
           | Inr True \<Rightarrow>
               if canonical = [] \<or> canonical = home then Inl (RootOrHome requestedRoot)
               else Inr canonical))"

definition canonicalizeProjectRoots ::
  "auth_env \<Rightarrow> string \<Rightarrow> string list \<Rightarrow> auth_error + abspath list" where
  "canonicalizeProjectRoots env homeDirInput requestedRootsInput =
     (case ae_real env (path_resolve (ae_cwd env) homeDirInput) of
        Inl _ \<Rightarrow> Inl HomeFails
      | Inr home \<Rightarrow>
          (let requestedRoots = filter (\<lambda>r. r \<noteq> []) (map js_trim requestedRootsInput)
           in if requestedRoots = [] then Inl NoExplicitRoot
              else bind_res (map_res (canonical_root env home) requestedRoots)
                     (\<lambda>canonicalRoots. Inr (js_set canonicalRoots))))"

section \<open>The audit\<close>

definition queueAudit :: "auth_options \<Rightarrow> auth_event \<Rightarrow> auth_state \<Rightarrow> auth_state" where
  "queueAudit opts e s = (if ao_audited opts then s\<lparr>as_audit := as_audit s @ [e]\<rparr> else s)"

definition emitAudit ::
  "auth_options \<Rightarrow> stored_lease \<Rightarrow> lifecycle \<Rightarrow> bool \<Rightarrow> auth_state \<Rightarrow> auth_state" where
  "emitAudit opts lease event includeExpiry =
     queueAudit opts (Lifecycle event (length (sl_roots lease)) (ao_scopeDigest opts (sl_roots lease))
       (if includeExpiry then Some (sl_expiresAtMs lease) else None))"

definition recordDenial :: "auth_options \<Rightarrow> auth_env \<Rightarrow> denial_reason \<Rightarrow> auth_state \<Rightarrow> auth_state" where
  "recordDenial opts env reason s =
     (case find_key fst reason (as_windows s) of
        None \<Rightarrow>
          queueAudit opts (Denied reason 1 (ae_now env))
            (s\<lparr>as_windows := put_key fst (reason, \<lparr>dw_startedAtMs = ae_now env, dw_pending = 0\<rparr>)
                 (as_windows s)\<rparr>)
      | Some (_, w) \<Rightarrow>
          (let w1 = w\<lparr>dw_pending := dw_pending w + 1\<rparr>;
               s1 = s\<lparr>as_windows := put_key fst (reason, w1) (as_windows s)\<rparr>
           in if ae_now env - dw_startedAtMs w1 < DENIAL_WINDOW_MS then s1
              else
                (let s2 = queueAudit opts (Denied reason (dw_pending w1) (dw_startedAtMs w1)) s1
                 in s2\<lparr>as_windows := del_key fst reason (as_windows s2)\<rparr>)))"

section \<open>Leases\<close>

definition requireLeaseKey ::
  "auth_options \<Rightarrow> auth_env \<Rightarrow> string \<Rightarrow> auth_state \<Rightarrow> auth_state \<times> (auth_error + string)" where
  "requireLeaseKey opts env leaseId s =
     (if js_trim leaseId = [] then (recordDenial opts env Missing s, Inl AuthorityRequired)
      else (s, Inr (ao_sha opts leaseId)))"

definition lease_lookup ::
  "auth_options \<Rightarrow> auth_env \<Rightarrow> string \<Rightarrow> auth_state \<Rightarrow> auth_state \<times> (auth_error + stored_lease)" where
  "lease_lookup opts env leaseId s =
     (case requireLeaseKey opts env leaseId s of
        (s1, Inl e) \<Rightarrow> (s1, Inl e)
      | (s1, Inr key) \<Rightarrow>
          (case find_key fst key (as_leases s1) of
             None \<Rightarrow> (recordDenial opts env UnknownLease s1, Inl AuthorityRequired)
           | Some (_, stored) \<Rightarrow>
               if ae_now env > sl_expiresAtMs stored
               then (emitAudit opts stored AuthExpired False
                       (s1\<lparr>as_leases := del_key fst key (as_leases s1)\<rparr>), Inl AuthorityExpired)
               else (s1, Inr stored)))"

text \<open>\<open>start\<close> with the identifier it draws; the requested time to live is a whole number of seconds.\<close>

definition auth_start ::
  "auth_options \<Rightarrow> auth_env \<Rightarrow> string \<Rightarrow> string list \<Rightarrow> int option \<Rightarrow> auth_state
    \<Rightarrow> auth_state \<times> (auth_error + stored_lease)" where
  "auth_start opts env leaseId projectRoots requestedTtlSeconds s =
     (case canonicalizeProjectRoots env (ao_home opts) projectRoots of
        Inl e \<Rightarrow> (s, Inl e)
      | Inr roots \<Rightarrow>
          (let nowMs = ae_now env;
               requestedTtl = (case requestedTtlSeconds of
                 None \<Rightarrow> PROJECT_MAX_TTL_SECONDS | Some t \<Rightarrow> t);
               ttlSeconds = max 1 (min requestedTtl PROJECT_MAX_TTL_SECONDS);
               stored = \<lparr>sl_roots = roots, sl_terminalEnabled = ao_terminalEnabled opts,
                 sl_commands = (if ao_terminalEnabled opts then js_set (ao_commands opts) else []),
                 sl_createdAt = nowMs, sl_expiresAtMs = nowMs + ttlSeconds * 1000\<rparr>
           in (emitAudit opts stored AuthStart True
                 (s\<lparr>as_leases := put_key fst (ao_sha opts leaseId, stored) (as_leases s)\<rparr>),
               Inr stored)))"

definition activeRoots :: "auth_env \<Rightarrow> auth_state \<Rightarrow> abspath list" where
  "activeRoots env s =
     js_set (concat (map (\<lambda>(_, lease). if ae_now env > sl_expiresAtMs lease then [] else sl_roots lease)
       (as_leases s)))"

text \<open>\<open>resolve\<close> and \<open>status\<close> return a copy of what the lookup finds.\<close>

definition auth_resolve ::
  "auth_options \<Rightarrow> auth_env \<Rightarrow> string \<Rightarrow> auth_state \<Rightarrow> auth_state \<times> (auth_error + stored_lease)" where
  "auth_resolve opts env leaseId s = lease_lookup opts env leaseId s"

definition auth_end ::
  "auth_options \<Rightarrow> auth_env \<Rightarrow> string \<Rightarrow> auth_state \<Rightarrow> auth_state \<times> (auth_error + unit)" where
  "auth_end opts env leaseId s =
     (case requireLeaseKey opts env leaseId s of
        (s1, Inl e) \<Rightarrow> (s1, Inl e)
      | (s1, Inr key) \<Rightarrow>
          (case find_key fst key (as_leases s1) of
             None \<Rightarrow> (recordDenial opts env UnknownLease s1, Inl AuthorityRequired)
           | Some (_, stored) \<Rightarrow>
               (emitAudit opts stored AuthEnd False
                  (s1\<lparr>as_leases := del_key fst key (as_leases s1)\<rparr>), Inr ())))"

text \<open>The calls of the manager, each with the environment it sees, and a run of them.\<close>

datatype auth_call =
    CallStart auth_env string "string list" "int option"
  | CallResolve auth_env string
  | CallEnd auth_env string

fun auth_exec :: "auth_options \<Rightarrow> auth_call \<Rightarrow> auth_state \<Rightarrow> auth_state" where
  "auth_exec opts (CallStart env leaseId roots ttl) s = fst (auth_start opts env leaseId roots ttl s)"
| "auth_exec opts (CallResolve env leaseId) s = fst (auth_resolve opts env leaseId s)"
| "auth_exec opts (CallEnd env leaseId) s = fst (auth_end opts env leaseId s)"

definition auth_run :: "auth_options \<Rightarrow> auth_call list \<Rightarrow> auth_state" where
  "auth_run opts calls = fold (auth_exec opts) calls auth_new"

section \<open>What a stored lease guarantees\<close>

text \<open>The roots may be used: there is one, none is the file-system root, and time is bounded.\<close>

definition lease_ok :: "auth_options \<Rightarrow> stored_lease \<Rightarrow> bool" where
  "lease_ok opts l \<longleftrightarrow> sl_roots l \<noteq> [] \<and> distinct (sl_roots l) \<and> [] \<notin> set (sl_roots l)
     \<and> sl_createdAt l + 1000 \<le> sl_expiresAtMs l
     \<and> sl_expiresAtMs l \<le> sl_createdAt l + 8 * 60 * 60 * 1000
     \<and> sl_terminalEnabled l = ao_terminalEnabled opts
     \<and> (sl_terminalEnabled l \<or> sl_commands l = [])"

text \<open>
  The roots are what the request asked for, as the file system resolved it: each is the real
  path of a requested root, a directory, and not the home directory; and no request is left out.
\<close>

definition roots_from :: "auth_options \<Rightarrow> auth_env \<Rightarrow> string list \<Rightarrow> abspath list \<Rightarrow> bool" where
  "roots_from opts env requested roots \<longleftrightarrow>
     (\<exists>home. ae_real env (path_resolve (ae_cwd env) (ao_home opts)) = Inr home
       \<and> (\<forall>root \<in> set roots. root \<noteq> home \<and> ae_isDirectory env root = Inr True
            \<and> (\<exists>r \<in> set requested. js_trim r \<noteq> []
                \<and> ae_real env (path_resolve (ae_cwd env) (js_trim r)) = Inr root)))
     \<and> (\<forall>r \<in> set requested. js_trim r \<noteq> [] \<longrightarrow>
          (\<exists>root \<in> set roots. ae_real env (path_resolve (ae_cwd env) (js_trim r)) = Inr root))"

definition lease_from :: "auth_options \<Rightarrow> auth_call list \<Rightarrow> string \<Rightarrow> stored_lease \<Rightarrow> bool" where
  "lease_from opts calls key l \<longleftrightarrow> (\<exists>env leaseId requested ttl.
     CallStart env leaseId requested ttl \<in> set calls \<and> key = ao_sha opts leaseId
     \<and> sl_createdAt l = ae_now env \<and> roots_from opts env requested (sl_roots l))"

definition leases_ok :: "auth_options \<Rightarrow> auth_call list \<Rightarrow> auth_state \<Rightarrow> bool" where
  "leases_ok opts calls s \<longleftrightarrow> distinct (map fst (as_leases s))
     \<and> (\<forall>(key, l) \<in> set (as_leases s). lease_ok opts l \<and> lease_from opts calls key l)"

lemma audit_frames [simp, frame_simps]:
  "as_leases (queueAudit opts e s) = as_leases s"
  "as_windows (queueAudit opts e s) = as_windows s"
  "as_leases (emitAudit opts l ev x s) = as_leases s"
  "as_windows (emitAudit opts l ev x s) = as_windows s"
  "as_leases (recordDenial opts env reason s) = as_leases s"
  by (auto simp: queueAudit_def emitAudit_def recordDenial_def Let_def split: option.splits prod.splits)

lemma requireLeaseKey_frame [simp, frame_simps]:
  "as_leases (fst (requireLeaseKey opts env leaseId s)) = as_leases s"
  by (simp add: requireLeaseKey_def)

lemma canonical_root_ok:
  "canonical_root env home r = Inr c \<Longrightarrow> c \<noteq> [] \<and> c \<noteq> home
    \<and> ae_real env (path_resolve (ae_cwd env) r) = Inr c \<and> ae_isDirectory env c = Inr True"
  by (auto simp: canonical_root_def split: sum.splits bool.splits if_splits)

lemma canonicalizeProjectRoots_ok:
  assumes "canonicalizeProjectRoots env (ao_home opts) rs = Inr roots"
  shows "roots \<noteq> [] \<and> distinct roots \<and> [] \<notin> set roots \<and> roots_from opts env rs roots"
proof -
  let ?asked = "filter (\<lambda>r. r \<noteq> []) (map js_trim rs)"
  from assms obtain h cs where h: "ae_real env (path_resolve (ae_cwd env) (ao_home opts)) = Inr h"
    and cs: "map_res (canonical_root env h) ?asked = Inr cs"
    and ne: "?asked \<noteq> []" and roots: "roots = js_set cs"
    by (auto simp: canonicalizeProjectRoots_def Let_def bind_res_Inr_iff split: sum.splits if_splits)
  have len: "length cs = length ?asked" using map_res_length [OF cs] by simp
  with ne have "cs \<noteq> []" by (metis length_0_conv)
  moreover have "[] \<notin> set cs" using map_res_set [OF cs] canonical_root_ok by blast
  moreover have "roots_from opts env rs roots"
    unfolding roots_from_def
  proof (intro conjI exI [of _ h] ballI h)
    fix root assume "root \<in> set roots"
    then have "root \<in> set cs" by (simp add: roots)
    from map_res_set [OF cs this] obtain r where "r \<in> set ?asked" "canonical_root env h r = Inr root" by blast
    then show "root \<noteq> h" "ae_isDirectory env root = Inr True"
      "\<exists>r \<in> set rs. js_trim r \<noteq> [] \<and> ae_real env (path_resolve (ae_cwd env) (js_trim r)) = Inr root"
      using canonical_root_ok [of env h r root] by auto
  next
    fix r assume "r \<in> set rs"
    show "js_trim r \<noteq> [] \<longrightarrow> (\<exists>root \<in> set roots. ae_real env (path_resolve (ae_cwd env) (js_trim r)) = Inr root)"
    proof
      assume "js_trim r \<noteq> []"
      with \<open>r \<in> set rs\<close> have "js_trim r \<in> set ?asked" by simp
      then obtain i where i: "i < length ?asked" "?asked ! i = js_trim r" by (metis in_set_conv_nth)
      with map_res_nth [OF cs i(1)] have "canonical_root env h (js_trim r) = Inr (cs ! i)" by simp
      moreover have "cs ! i \<in> set roots" using i len by (simp add: roots)
      ultimately show "\<exists>root \<in> set roots. ae_real env (path_resolve (ae_cwd env) (js_trim r)) = Inr root"
        using canonical_root_ok by blast
    qed
  qed
  ultimately show ?thesis using roots by simp
qed

lemma auth_start_lease_ok:
  assumes "auth_start opts env i roots ttl s = (t, Inr l)"
  shows "lease_ok opts l \<and> sl_createdAt l = ae_now env \<and> roots_from opts env roots (sl_roots l)
    \<and> as_leases t = put_key fst (ao_sha opts i, l) (as_leases s)"
proof -
  from assms obtain rs where rs: "canonicalizeProjectRoots env (ao_home opts) roots = Inr rs"
    and l: "sl_roots l = rs" "sl_createdAt l = ae_now env" "sl_terminalEnabled l = ao_terminalEnabled opts"
      "sl_terminalEnabled l \<or> sl_commands l = []"
      "sl_expiresAtMs l = ae_now env
        + max 1 (min (case ttl of None \<Rightarrow> PROJECT_MAX_TTL_SECONDS | Some t \<Rightarrow> t) PROJECT_MAX_TTL_SECONDS) * 1000"
    and t: "as_leases t = put_key fst (ao_sha opts i, l) (as_leases s)"
    by (auto simp: auth_start_def Let_def split: sum.splits)
  have "1 \<le> max 1 (min x PROJECT_MAX_TTL_SECONDS)" "max 1 (min x PROJECT_MAX_TTL_SECONDS) \<le> 28800" for x :: int
    by (simp_all add: PROJECT_MAX_TTL_SECONDS_def)
  with canonicalizeProjectRoots_ok [OF rs] l t show ?thesis by (simp add: lease_ok_def)
qed

lemma lease_from_more: "lease_from opts calls key l \<Longrightarrow> lease_from opts (calls @ [c]) key l"
  unfolding lease_from_def by auto

lemma leases_ok_put:
  assumes "leases_ok opts calls s" "lease_ok opts l" "lease_from opts (calls @ [c]) key l"
    "as_leases t = put_key fst (key, l) (as_leases s)"
  shows "leases_ok opts (calls @ [c]) t"
  using assms set_put_key_sub [of fst "(key, l)" "as_leases s"] lease_from_more [of opts calls _ _ c]
  unfolding leases_ok_def by (fastforce simp: distinct_put_key)

lemma leases_ok_del:
  "leases_ok opts calls s \<Longrightarrow>
    as_leases t = as_leases s \<or> as_leases t = del_key fst key (as_leases s) \<Longrightarrow> leases_ok opts (calls @ [c]) t"
  unfolding leases_ok_def by (auto simp: distinct_del_key intro!: lease_from_more)

lemma lookup_leases:
  "as_leases (fst (lease_lookup opts env i s)) = as_leases s
    \<or> as_leases (fst (lease_lookup opts env i s)) = del_key fst (ao_sha opts i) (as_leases s)"
  by (auto simp: lease_lookup_def requireLeaseKey_def split: option.splits prod.splits)

lemma end_leases:
  "as_leases (fst (auth_end opts env i s)) = as_leases s
    \<or> as_leases (fst (auth_end opts env i s)) = del_key fst (ao_sha opts i) (as_leases s)"
  by (auto simp: auth_end_def requireLeaseKey_def split: option.splits prod.splits)

lemma auth_exec_ok:
  assumes "leases_ok opts calls s"
  shows "leases_ok opts (calls @ [c]) (auth_exec opts c s)"
proof (cases c)
  case c: (CallStart env i roots ttl)
  show ?thesis
  proof (cases "snd (auth_start opts env i roots ttl s)")
    case (Inl e)
    then have "auth_exec opts c s = s"
      unfolding c by (auto simp: auth_start_def Let_def split: sum.splits)
    with leases_ok_del [OF assms] show ?thesis by simp
  next
    case (Inr l)
    then have "auth_start opts env i roots ttl s = (auth_exec opts c s, Inr l)"
      unfolding c by (metis auth_exec.simps(1) prod.collapse)
    note l = auth_start_lease_ok [OF this]
    then have "lease_from opts (calls @ [c]) (ao_sha opts i) l" unfolding lease_from_def c by auto
    from leases_ok_put [OF assms _ this] l show ?thesis by blast
  qed
next
  case (CallResolve env i)
  then show ?thesis using leases_ok_del [OF assms lookup_leases] by (simp add: auth_resolve_def)
next
  case (CallEnd env i)
  then show ?thesis using leases_ok_del [OF assms end_leases] by simp
qed

lemma auth_run_ok: "leases_ok opts calls (auth_run opts calls)"
proof (induction calls rule: rev_induct)
  case Nil
  then show ?case by (simp add: auth_run_def auth_new_def leases_ok_def)
next
  case (snoc c calls)
  from auth_exec_ok [OF this] show ?case by (simp add: auth_run_def)
qed

lemma lookup_found:
  assumes "lease_lookup opts env i s = (t, Inr l)"
  shows "t = s \<and> find_key fst (ao_sha opts i) (as_leases s) = Some (ao_sha opts i, l)
    \<and> ae_now env \<le> sl_expiresAtMs l"
  using assms
  by (auto simp: lease_lookup_def requireLeaseKey_def split: option.splits prod.splits if_splits
      dest: find_key_SomeD)

text \<open>
  C30: A lease that a call resolves is confined. Whatever calls were made before, the lease was
  stored by one of them, a \<open>start\<close> with the same identifier's digest, at that call's time: each of
  its roots is what \<open>realpath\<close> gave in that call for one of the requested roots, \<open>stat\<close> said it is
  a directory, it is neither the real home directory nor the file-system root, and every
  requested root that is not blank is among them. The roots are distinct and there is one, the
  lease is at most eight hours old and not past its expiry, its commands are empty when the
  terminal gate is closed, resolving it changes nothing, and its roots are among the active ones.
\<close>

theorem lease_confined:
  assumes "auth_resolve opts env leaseId (auth_run opts calls) = (t, Inr l)"
  shows "(\<exists>env0 leaseId0 requested ttl home.
        CallStart env0 leaseId0 requested ttl \<in> set calls \<and> ao_sha opts leaseId0 = ao_sha opts leaseId
        \<and> sl_createdAt l = ae_now env0
        \<and> ae_real env0 (path_resolve (ae_cwd env0) (ao_home opts)) = Inr home
        \<and> (\<forall>root \<in> set (sl_roots l). root \<noteq> home \<and> root \<noteq> [] \<and> ae_isDirectory env0 root = Inr True
            \<and> (\<exists>r \<in> set requested. ae_real env0 (path_resolve (ae_cwd env0) (js_trim r)) = Inr root))
        \<and> (\<forall>r \<in> set requested. js_trim r \<noteq> [] \<longrightarrow>
            (\<exists>root \<in> set (sl_roots l). ae_real env0 (path_resolve (ae_cwd env0) (js_trim r)) = Inr root)))
    \<and> t = auth_run opts calls \<and> sl_roots l \<noteq> [] \<and> distinct (sl_roots l)
    \<and> ae_now env \<le> sl_expiresAtMs l \<and> sl_expiresAtMs l \<le> sl_createdAt l + 8 * 60 * 60 * 1000
    \<and> (ao_terminalEnabled opts \<or> sl_commands l = [])
    \<and> set (sl_roots l) \<subseteq> set (activeRoots env t)"
proof -
  note f = lookup_found [OF assms [unfolded auth_resolve_def]]
  then have m: "(ao_sha opts leaseId, l) \<in> set (as_leases (auth_run opts calls))" by (auto dest: find_key_SomeD)
  with auth_run_ok [of opts calls] have ok: "lease_ok opts l" "lease_from opts calls (ao_sha opts leaseId) l"
    by (auto simp: leases_ok_def)
  from ok(2) obtain env0 leaseId0 requested ttl where o: "CallStart env0 leaseId0 requested ttl \<in> set calls"
    "ao_sha opts leaseId0 = ao_sha opts leaseId" "sl_createdAt l = ae_now env0"
    "roots_from opts env0 requested (sl_roots l)"
    unfolding lease_from_def by metis
  from o(4) ok(1) obtain home where "ae_real env0 (path_resolve (ae_cwd env0) (ao_home opts)) = Inr home"
    "\<forall>root \<in> set (sl_roots l). root \<noteq> home \<and> root \<noteq> [] \<and> ae_isDirectory env0 root = Inr True
        \<and> (\<exists>r \<in> set requested. ae_real env0 (path_resolve (ae_cwd env0) (js_trim r)) = Inr root)"
    "\<forall>r \<in> set requested. js_trim r \<noteq> [] \<longrightarrow>
        (\<exists>root \<in> set (sl_roots l). ae_real env0 (path_resolve (ae_cwd env0) (js_trim r)) = Inr root)"
    unfolding roots_from_def lease_ok_def by metis
  note origin = this o(1-3)
  from m f have "set (sl_roots l) \<subseteq> set (activeRoots env (auth_run opts calls))"
    by (force simp: activeRoots_def)
  with f ok(1) have "t = auth_run opts calls \<and> sl_roots l \<noteq> [] \<and> distinct (sl_roots l)
    \<and> ae_now env \<le> sl_expiresAtMs l \<and> sl_expiresAtMs l \<le> sl_createdAt l + 8 * 60 * 60 * 1000
    \<and> (ao_terminalEnabled opts \<or> sl_commands l = [])
    \<and> set (sl_roots l) \<subseteq> set (activeRoots env t)" by (auto simp: lease_ok_def)
  with origin show ?thesis by blast
qed

definition demo_aopts :: auth_options where
  "demo_aopts = \<lparr>ao_home = ''/home/u'', ao_commands = [''git'', ''npm'', ''git''], ao_terminalEnabled = True,
     ao_audited = True, ao_sha = (\<lambda>s. s), ao_scopeDigest = (\<lambda>r. ''d'')\<rparr>"

definition demo_aenv :: "int \<Rightarrow> auth_env" where
  "demo_aenv now = \<lparr>ae_cwd = [], ae_real = Inr, ae_isDirectory = (\<lambda>p. Inr True), ae_now = now\<rparr>"

theorem lease_confined_witness:
  "\<exists>l. snd (auth_resolve demo_aopts (demo_aenv 5000) ''id'' (auth_run demo_aopts
        [CallStart (demo_aenv 0) ''id'' ['' /w/a '', ''/w/b/../a''] (Some 60)])) = Inr l
     \<and> sl_roots l = [[''w'', ''a'']] \<and> sl_createdAt l = 0 \<and> sl_commands l = [''git'', ''npm'']
     \<and> [''w'', ''a''] \<in> set (activeRoots (demo_aenv 5000) (auth_run demo_aopts
        [CallStart (demo_aenv 0) ''id'' ['' /w/a '', ''/w/b/../a''] (Some 60)]))"
proof -
  let ?s = "auth_run demo_aopts [CallStart (demo_aenv 0) ''id'' ['' /w/a '', ''/w/b/../a''] (Some 60)]"
  let ?l = "\<lparr>sl_roots = [[''w'', ''a'']], sl_terminalEnabled = True, sl_commands = [''git'', ''npm''],
     sl_createdAt = 0, sl_expiresAtMs = 60000\<rparr>"
  have r: "auth_resolve demo_aopts (demo_aenv 5000) ''id'' ?s = (?s, Inr ?l)" by code_simp
  from lease_confined [OF r] have "set (sl_roots ?l) \<subseteq> set (activeRoots (demo_aenv 5000) ?s)"
    by (elim conjE)
  with r show ?thesis by simp
qed

section \<open>Refusals in the audit\<close>

text \<open>How many refusals of a kind the log reports, with those still pending in the open window.\<close>

fun reported :: "denial_reason \<Rightarrow> auth_event \<Rightarrow> nat" where
  "reported reason (Denied reason' n startedAt) = (if reason' = reason then n else 0)"
| "reported reason (Lifecycle e n d x) = 0"

fun is_denial :: "denial_reason \<Rightarrow> auth_event \<Rightarrow> bool" where
  "is_denial reason (Denied reason' n startedAt) = (reason' = reason)"
| "is_denial reason (Lifecycle e n d x) = False"

definition open_pending :: "denial_reason \<Rightarrow> auth_state \<Rightarrow> nat" where
  "open_pending reason s =
     (case find_key fst reason (as_windows s) of None \<Rightarrow> 0 | Some (_, w) \<Rightarrow> dw_pending w)"

definition refusals :: "denial_reason \<Rightarrow> auth_state \<Rightarrow> nat" where
  "refusals reason s = sum_list (map (reported reason) (as_audit s)) + open_pending reason s"

lemma refusals_recordDenial:
  "ao_audited opts \<Longrightarrow>
    refusals r (recordDenial opts env reason s) = refusals r s + (if r = reason then 1 else 0)"
  by (auto simp: refusals_def open_pending_def recordDenial_def queueAudit_def Let_def find_key_put
      find_key_del split: option.splits dest: find_key_SomeD)

lemma refusals_lifecycle: "refusals r (emitAudit opts l e x s) = refusals r s"
  by (simp add: refusals_def open_pending_def emitAudit_def queueAudit_def)

lemma refusals_leases: "refusals r (s\<lparr>as_leases := ls\<rparr>) = refusals r s"
  by (simp add: refusals_def open_pending_def)

text \<open>Every lookup that is answered with \<open>AUTHORITY_REQUIRED\<close> is counted once, and nothing else is.\<close>

lemma refusals_lookup:
  assumes "ao_audited opts"
  shows "refusals r (fst (lease_lookup opts env i s)) = refusals r s +
    (if snd (lease_lookup opts env i s) = Inl AuthorityRequired
       \<and> r = (if js_trim i = [] then Missing else UnknownLease) then 1 else 0)"
  using assms
  by (auto simp: lease_lookup_def requireLeaseKey_def refusals_recordDenial refusals_lifecycle
      refusals_leases split: option.splits prod.splits)

definition denial_run :: "auth_options \<Rightarrow> denial_reason \<Rightarrow> auth_env list \<Rightarrow> auth_state" where
  "denial_run opts reason envs = fold (\<lambda>env. recordDenial opts env reason) envs auth_new"

text \<open>
  After refusals from time \<open>t0\<close> to \<open>t\<close> there were \<open>k\<close> full windows, of two events each, and perhaps
  the first event of an open one.
\<close>

definition windows_inv :: "denial_reason \<Rightarrow> int \<Rightarrow> int \<Rightarrow> auth_state \<Rightarrow> bool" where
  "windows_inv reason t0 t s \<longleftrightarrow>
     (\<exists>k. case find_key fst reason (as_windows s) of
        None \<Rightarrow> length (filter (is_denial reason) (as_audit s)) = 2 * k \<and> t0 + 60000 * int k \<le> t
      | Some (_, w) \<Rightarrow> length (filter (is_denial reason) (as_audit s)) = 2 * k + 1
          \<and> t0 + 60000 * int k \<le> dw_startedAtMs w \<and> dw_startedAtMs w \<le> t)"

lemma windows_inv_step:
  assumes "windows_inv reason t0 t s" "t \<le> ae_now env" "ao_audited opts"
  shows "windows_inv reason t0 (ae_now env) (recordDenial opts env reason s)"
proof -
  from assms(1) obtain k where k: "case find_key fst reason (as_windows s) of
        None \<Rightarrow> length (filter (is_denial reason) (as_audit s)) = 2 * k \<and> t0 + 60000 * int k \<le> t
      | Some (_, w) \<Rightarrow> length (filter (is_denial reason) (as_audit s)) = 2 * k + 1
          \<and> t0 + 60000 * int k \<le> dw_startedAtMs w \<and> dw_startedAtMs w \<le> t"
    unfolding windows_inv_def by blast
  show ?thesis
  proof (cases "find_key fst reason (as_windows s)")
    case None
    with k assms show ?thesis
      by (auto simp: windows_inv_def recordDenial_def queueAudit_def find_key_put intro!: exI [of _ k])
  next
    case (Some kw)
    obtain w where w: "kw = (reason, w)" using Some by (cases kw) (auto dest: find_key_SomeD)
    show ?thesis
    proof (cases "ae_now env - dw_startedAtMs w < 60000")
      case True
      with k assms Some w show ?thesis
        by (auto simp: windows_inv_def recordDenial_def Let_def find_key_put DENIAL_WINDOW_MS_def
            intro!: exI [of _ k])
    next
      case False
      with k assms Some w show ?thesis
        by (auto simp: windows_inv_def recordDenial_def queueAudit_def Let_def find_key_del
            DENIAL_WINDOW_MS_def intro!: exI [of _ "Suc k"])
    qed
  qed
qed

lemma windows_inv_bound:
  assumes "windows_inv reason t0 t s"
  shows "int (length (filter (is_denial reason) (as_audit s))) \<le> 2 * ((t - t0) div 60000) + 1"
proof -
  have "int k \<le> (t - t0) div 60000" if "t0 + 60000 * int k \<le> t" for k
    using that zdiv_mono1 [of "60000 * int k" "t - t0" 60000] by simp
  with assms show ?thesis by (fastforce simp: windows_inv_def split: option.splits)
qed

text \<open>
  The open window was opened less than a minute before the last refusal, and what is pending in
  it arrived since.
\<close>

definition pending_recent :: "denial_reason \<Rightarrow> auth_env list \<Rightarrow> auth_state \<Rightarrow> bool" where
  "pending_recent reason envs s \<longleftrightarrow>
     (case find_key fst reason (as_windows s) of
        None \<Rightarrow> True
      | Some (_, w) \<Rightarrow> ae_now (last envs) - dw_startedAtMs w < 60000
          \<and> dw_pending w \<le> length (filter (\<lambda>e. dw_startedAtMs w \<le> ae_now e) envs))"

lemma pending_recent_step:
  assumes "pending_recent reason envs s" "\<forall>e \<in> set envs. ae_now e \<le> ae_now env"
    "\<And>w. find_key fst reason (as_windows s) = Some (reason, w) \<Longrightarrow> dw_startedAtMs w \<le> ae_now env"
  shows "pending_recent reason (envs @ [env]) (recordDenial opts env reason s)"
proof (cases "find_key fst reason (as_windows s)")
  case None
  then show ?thesis by (simp add: pending_recent_def recordDenial_def find_key_put)
next
  case (Some kw)
  obtain w where w: "kw = (reason, w)" using Some by (cases kw) (auto dest: find_key_SomeD)
  with assms Some show ?thesis
    by (auto simp: pending_recent_def recordDenial_def Let_def find_key_put find_key_del DENIAL_WINDOW_MS_def)
qed

lemma denial_run_snoc: "denial_run opts reason (envs @ [env]) = recordDenial opts env reason (denial_run opts reason envs)"
  by (simp add: denial_run_def)

lemma denial_run_windows:
  assumes "ao_audited opts" "sorted (map ae_now envs)" "envs \<noteq> []"
  shows "windows_inv reason (ae_now (hd envs)) (ae_now (last envs)) (denial_run opts reason envs)
    \<and> pending_recent reason envs (denial_run opts reason envs)"
  using assms(2,3)
proof (induction envs rule: rev_induct)
  case (snoc env envs)
  show ?case
  proof (cases "envs = []")
    case True
    then show ?thesis using assms(1)
      by (simp add: denial_run_def windows_inv_def pending_recent_def recordDenial_def auth_new_def
          find_key_def queueAudit_def)
  next
    case False
    with snoc.prems have le: "sorted (map ae_now envs)" "ae_now (last envs) \<le> ae_now env"
      "\<forall>e \<in> set envs. ae_now e \<le> ae_now env" by (auto simp: sorted_append)
    note IH = snoc.IH [OF le(1) False]
    then have "dw_startedAtMs w \<le> ae_now env"
      if "find_key fst reason (as_windows (denial_run opts reason envs)) = Some (reason, w)" for w
      using that le(2) by (auto simp: windows_inv_def)
    with IH pending_recent_step le(3) show ?thesis
      using False windows_inv_step [OF IH [THEN conjunct1] le(2) assms(1)] by (simp add: denial_run_snoc)
  qed
qed simp

text \<open>
  C31: A flood of refused lookups does not flood the audit log, and the log lags by a minute at
  most: however many refusals of one kind arrive over a time span, the counts in the log add up
  to all of them except some that arrived in the minute before the last one, and the log gets at
  most two events for every full minute and one more.
\<close>

theorem denial_audit_bounded:
  fixes reason :: denial_reason
  assumes "ao_audited opts" "sorted (map ae_now envs)" "envs \<noteq> []"
  defines "log \<equiv> as_audit (denial_run opts reason envs)"
  shows "sum_list (map (reported reason) log) \<le> length envs
    \<and> length (filter (\<lambda>e. ae_now e \<le> ae_now (last envs) - 60000) envs) \<le> sum_list (map (reported reason) log)
    \<and> int (length (filter (is_denial reason) log)) \<le> 2 * ((ae_now (last envs) - ae_now (hd envs)) div 60000) + 1"
proof -
  let ?s = "denial_run opts reason envs" and ?old = "\<lambda>e. ae_now e \<le> ae_now (last envs) - 60000"
  have all: "refusals reason ?s = length envs"
    unfolding denial_run_def
    by (induction envs rule: rev_induct)
      (simp_all add: refusals_recordDenial assms(1), simp add: refusals_def open_pending_def auth_new_def
        find_key_def)
  note inv = denial_run_windows [OF assms(1-3), of reason]
  have "open_pending reason ?s \<le> length (filter (\<lambda>e. \<not> ?old e) envs)"
  proof (cases "find_key fst reason (as_windows ?s)")
    case (Some kw)
    obtain w where w: "kw = (reason, w)" using Some by (cases kw) (auto dest: find_key_SomeD)
    with Some inv have i: "ae_now (last envs) - dw_startedAtMs w < 60000"
      "dw_pending w \<le> length (filter (\<lambda>e. dw_startedAtMs w \<le> ae_now e) envs)"
      by (auto simp: pending_recent_def)
    have "length (filter (\<lambda>e. dw_startedAtMs w \<le> ae_now e) envs) \<le> length (filter (\<lambda>e. \<not> ?old e) envs)"
      using i(1) by (induction envs) auto
    with i(2) Some w show ?thesis by (simp add: open_pending_def)
  qed (simp add: open_pending_def)
  moreover have "length (filter ?old envs) + length (filter (\<lambda>e. \<not> ?old e) envs) = length envs"
    by (rule sum_length_filter_compl)
  ultimately show ?thesis
    using all windows_inv_bound [OF inv [THEN conjunct1]] by (simp add: refusals_def log_def)
qed

theorem denial_audit_bounded_witness:
  "3 \<le> sum_list (map (reported UnknownLease)
        (as_audit (denial_run demo_aopts UnknownLease (map demo_aenv [0, 10, 20, 60000, 60020]))))
    \<and> length (filter (is_denial UnknownLease)
        (as_audit (denial_run demo_aopts UnknownLease (map demo_aenv [0, 10, 20, 60000, 60020])))) \<le> 3"
  using denial_audit_bounded [of demo_aopts "map demo_aenv [0, 10, 20, 60000, 60020]" UnknownLease]
  by (simp add: demo_aenv_def demo_aopts_def)

end
