(* ===== verification/Worker_Store.thy ===== *)
theory Worker_Store
  imports Unified_Patch
begin

text \<open>
  \<open>src/src/agent/worker-store.ts\<close>: the store of worker runs, one JSON file. Every operation reads the
  file, checks and repairs each entry, changes the record it is about, and writes the whole file
  back, bounded. Strings hold one UTF-16 code unit per character; random identifiers and clock
  readings of a call are the sequences \<open>we_uuid\<close> and \<open>we_now\<close>, in the order they are drawn.

  Shown: what reading accepts is well formed and survives being written and read again; a
  message never displaces an unread one; a finished worker's alias is fenced off, until 200 more
  have been; the bound on the number of runs can drop a run that is still active.
\<close>

datatype worker_state = WActive | WSleeping | WFinished | WFailed

datatype message_sender = FromPrime | FromWorker

datatype worker_error =
    StoreUnreadable
  | RunMissing
  | WorkerMissing
  | BadPrime
  | ContextTooLong
  | BadSpecCount
  | BadTask
  | SlotsExceeded
  | BadMessage
  | WorkerDone
  | QueueFull
  | WriteFails
  | WorkerRetired string

record agent_message =
  am_id :: string
  am_from :: message_sender
  am_text :: string
  am_sentAt :: string
  am_readAt :: "string option"

record worker =
  wk_id :: string
  wk_label :: string
  wk_task :: string
  wk_state :: worker_state
  wk_alias :: "string option"
  wk_worktreePath :: "string option"
  wk_inbox :: "agent_message list"
  wk_createdAt :: string
  wk_lastSeenAt :: string
  wk_result :: "string option"

record worker_run =
  wr_runId :: string
  wr_primeAlias :: string
  wr_sharedContext :: string
  wr_createdAt :: string
  wr_parked :: bool
  wr_workers :: "worker list"

record retired_alias =
  rt_alias :: string
  rt_runId :: string
  rt_workerId :: string
  rt_retiredAt :: string

record worker_spec =
  ws_task :: string
  ws_label :: "string option"
  ws_alias :: "string option"
  ws_worktreePath :: "string option"

record store_file =
  sf_runs :: "worker_run list"
  sf_retired :: "retired_alias list"

text \<open>The file on disk: absent, not readable as JSON, or a JSON value.\<close>

datatype store_disk = NoStore | BadStore | StoreJson jval

record worker_env =
  we_uuid :: "nat \<Rightarrow> string"
  we_now :: "nat \<Rightarrow> string"
  we_epoch :: string
  we_writes :: bool
  we_before :: string
  we_between :: string

record worker_limits =
  wm_maxWorkers :: nat
  wm_maxParkedRuns :: nat

definition MAX_LABEL_CHARS :: nat where "MAX_LABEL_CHARS = 60"
definition MAX_TASK_CHARS :: nat where "MAX_TASK_CHARS = 4000"
definition MAX_CONTEXT_CHARS :: nat where "MAX_CONTEXT_CHARS = 4000"
definition MAX_MESSAGE_CHARS :: nat where "MAX_MESSAGE_CHARS = 4000"
definition MAX_QUEUE :: nat where "MAX_QUEUE = 200"
definition MAX_RETIRED :: nat where "MAX_RETIRED = 200"
definition MAX_ALIAS_CHARS :: nat where "MAX_ALIAS_CHARS = 128"

section \<open>Checks\<close>

text \<open>
  The two fixed Turkish fragments of the brief, which have characters above U+00FF, are fields of
  the environment.
\<close>

definition briefFor :: "worker_env \<Rightarrow> string \<Rightarrow> string \<Rightarrow> string" where
  "briefFor env sharedContext task =
     (if js_trim sharedContext = [] then task
      else we_before env @ sharedContext @ we_between env @ task)"

definition isTerminal :: "worker_state \<Rightarrow> bool" where
  "isTerminal state \<longleftrightarrow> state = WFinished \<or> state = WFailed"

definition activeWorkers :: "worker_run \<Rightarrow> worker list" where
  "activeWorkers run = filter (\<lambda>w. \<not> isTerminal (wk_state w) \<and> wk_state w = WActive) (wr_workers run)"

definition is_object :: "jval \<Rightarrow> bool" where
  "is_object v = (case v of JObj _ \<Rightarrow> True | JArr _ \<Rightarrow> True | _ \<Rightarrow> False)"

definition string_or :: "string \<Rightarrow> jval \<Rightarrow> string" where
  "string_or d v = (if is_JString v then jstring v else d)"

definition string_or_null :: "jval \<Rightarrow> string option" where
  "string_or_null v = (if is_JString v then Some (jstring v) else None)"

definition validMessage :: "jval \<Rightarrow> agent_message option" where
  "validMessage v =
     (if \<not> is_object v then None
      else if \<not> is_JString (jget v ''id'') \<or> jget v ''id'' = JString [] then None
      else if jget v ''from'' \<noteq> JString ''prime'' \<and> jget v ''from'' \<noteq> JString ''worker'' then None
      else if \<not> is_JString (jget v ''text'') \<or> jget v ''text'' = JString [] then None
      else if \<not> is_JString (jget v ''sentAt'') then None
      else if jget v ''readAt'' \<noteq> JNull \<and> \<not> is_JString (jget v ''readAt'') then None
      else Some \<lparr>am_id = jstring (jget v ''id''),
        am_from = (if jget v ''from'' = JString ''prime'' then FromPrime else FromWorker),
        am_text = take MAX_MESSAGE_CHARS (jstring (jget v ''text'')),
        am_sentAt = jstring (jget v ''sentAt''),
        am_readAt = (if jget v ''readAt'' = JNull then None else Some (jstring (jget v ''readAt'')))\<rparr>)"

fun jlist :: "jval \<Rightarrow> jval list option" where
  "jlist (JArr vs) = Some vs"
| "jlist _ = None"

text \<open>The messages made of old notes; \<open>n\<close> counts the identifiers drawn so far.\<close>

fun legacy_inbox :: "worker_env \<Rightarrow> nat \<Rightarrow> string list \<Rightarrow> agent_message list" where
  "legacy_inbox env n [] = []"
| "legacy_inbox env n (text # texts) =
     \<lparr>am_id = ''m-'' @ take 8 (we_uuid env n), am_from = FromPrime,
      am_text = take MAX_MESSAGE_CHARS text, am_sentAt = we_epoch env, am_readAt = None\<rparr>
       # legacy_inbox env (n + 1) texts"

definition validWorker :: "worker_env \<Rightarrow> nat \<Rightarrow> jval \<Rightarrow> worker option \<times> nat" where
  "validWorker env n v =
     (if \<not> is_object v then (None, n)
      else if \<not> is_JString (jget v ''id'') \<or> \<not> is_JString (jget v ''task'') then (None, n)
      else
        (let legacyNotes = (case jlist (jget v ''notes'') of
               Some notes \<Rightarrow> map jstring (filter (\<lambda>note. is_JString note \<and> note \<noteq> JString []) notes)
             | None \<Rightarrow> []);
             (inbox, n') = (case jlist (jget v ''inbox'') of
               Some ms \<Rightarrow> (List.map_filter validMessage ms, n)
             | None \<Rightarrow> (legacy_inbox env n legacyNotes, n + length legacyNotes));
             i = jstring (jget v ''id'')
         in (Some \<lparr>wk_id = i, wk_label = string_or i (jget v ''label''),
               wk_task = jstring (jget v ''task''),
               wk_state = (if jget v ''state'' = JString ''sleeping'' then WSleeping
                           else if jget v ''state'' = JString ''finished'' then WFinished
                           else if jget v ''state'' = JString ''failed'' then WFailed else WActive),
               wk_alias = string_or_null (jget v ''alias''),
               wk_worktreePath = string_or_null (jget v ''worktreePath''),
               wk_inbox = last_n MAX_QUEUE inbox,
               wk_createdAt = string_or (we_epoch env) (jget v ''createdAt''),
               wk_lastSeenAt = string_or (we_epoch env) (jget v ''lastSeenAt''),
               wk_result = string_or_null (jget v ''result'')\<rparr>, n')))"

fun validWorkers :: "worker_env \<Rightarrow> nat \<Rightarrow> jval list \<Rightarrow> worker list \<times> nat" where
  "validWorkers env n [] = ([], n)"
| "validWorkers env n (v # vs) =
     (case validWorker env n v of (w, n1) \<Rightarrow>
        (case validWorkers env n1 vs of (ws, n2) \<Rightarrow>
           ((case w of None \<Rightarrow> ws | Some w \<Rightarrow> w # ws), n2)))"

definition validRetired :: "worker_env \<Rightarrow> jval \<Rightarrow> retired_alias option" where
  "validRetired env v =
     (if \<not> is_object v then None
      else if \<not> is_JString (jget v ''alias'') \<or> jget v ''alias'' = JString [] then None
      else if \<not> is_JString (jget v ''runId'') \<or> \<not> is_JString (jget v ''workerId'') then None
      else Some \<lparr>rt_alias = jstring (jget v ''alias''), rt_runId = jstring (jget v ''runId''),
        rt_workerId = jstring (jget v ''workerId''),
        rt_retiredAt = string_or (we_epoch env) (jget v ''retiredAt'')\<rparr>)"

fun runsFromLegacy :: "worker_env \<Rightarrow> nat \<Rightarrow> jval list \<Rightarrow> worker_run list \<times> nat" where
  "runsFromLegacy env n [] = ([], n)"
| "runsFromLegacy env n (v # vs) =
     (if \<not> is_object v \<or> \<not> is_JString (jget v ''runId'') \<or> \<not> is_JString (jget v ''primeAlias'')
       then runsFromLegacy env n vs
      else (case jlist (jget v ''workers'') of
          None \<Rightarrow> runsFromLegacy env n vs
        | Some ws \<Rightarrow>
            (case validWorkers env n ws of (workers, n1) \<Rightarrow>
              (case runsFromLegacy env n1 vs of (runs, n2) \<Rightarrow>
                (\<lparr>wr_runId = jstring (jget v ''runId''), wr_primeAlias = jstring (jget v ''primeAlias''),
                  wr_sharedContext = string_or [] (jget v ''sharedContext''),
                  wr_createdAt = string_or (we_epoch env) (jget v ''createdAt''),
                  wr_parked = (jget v ''parked'' = JBool True), wr_workers = workers\<rparr> # runs, n2)))))"

text \<open>\<open>load\<close>, with the number of identifiers it drew.\<close>

definition worker_load :: "worker_env \<Rightarrow> store_disk \<Rightarrow> worker_error + (store_file \<times> nat)" where
  "worker_load env disk =
     (case disk of
        NoStore \<Rightarrow> Inr (\<lparr>sf_runs = [], sf_retired = []\<rparr>, 0)
      | BadStore \<Rightarrow> Inl StoreUnreadable
      | StoreJson v \<Rightarrow>
          (case jlist v of
             Some entries \<Rightarrow>
               (case runsFromLegacy env 0 entries of (runs, n) \<Rightarrow>
                  Inr (\<lparr>sf_runs = runs, sf_retired = []\<rparr>, n))
           | None \<Rightarrow>
               if \<not> is_object v then Inr (\<lparr>sf_runs = [], sf_retired = []\<rparr>, 0)
               else
                 (case (case jlist (jget v ''runs'') of
                          None \<Rightarrow> ([], 0) | Some rs \<Rightarrow> runsFromLegacy env 0 rs) of (runs, n) \<Rightarrow>
                    Inr (\<lparr>sf_runs = runs, sf_retired = (case jlist (jget v ''retired'') of
                        None \<Rightarrow> []
                      | Some es \<Rightarrow> last_n MAX_RETIRED (List.map_filter (validRetired env) es))\<rparr>, n))))"

section \<open>Writing\<close>

definition jnullable :: "string option \<Rightarrow> jval" where
  "jnullable s = (case s of None \<Rightarrow> JNull | Some s \<Rightarrow> JString s)"

definition message_json :: "agent_message \<Rightarrow> jval" where
  "message_json m = JObj [(''id'', JString (am_id m)),
     (''from'', JString (if am_from m = FromPrime then ''prime'' else ''worker'')),
     (''text'', JString (am_text m)), (''sentAt'', JString (am_sentAt m)),
     (''readAt'', jnullable (am_readAt m))]"

definition worker_json :: "worker \<Rightarrow> jval" where
  "worker_json w = JObj [(''id'', JString (wk_id w)), (''label'', JString (wk_label w)),
     (''task'', JString (wk_task w)),
     (''state'', JString (case wk_state w of WActive \<Rightarrow> ''active'' | WSleeping \<Rightarrow> ''sleeping''
        | WFinished \<Rightarrow> ''finished'' | WFailed \<Rightarrow> ''failed'')),
     (''alias'', jnullable (wk_alias w)), (''worktreePath'', jnullable (wk_worktreePath w)),
     (''inbox'', JArr (map message_json (wk_inbox w))),
     (''createdAt'', JString (wk_createdAt w)), (''lastSeenAt'', JString (wk_lastSeenAt w)),
     (''result'', jnullable (wk_result w))]"

definition run_json :: "worker_run \<Rightarrow> jval" where
  "run_json r = JObj [(''runId'', JString (wr_runId r)), (''primeAlias'', JString (wr_primeAlias r)),
     (''sharedContext'', JString (wr_sharedContext r)), (''createdAt'', JString (wr_createdAt r)),
     (''parked'', JBool (wr_parked r)), (''workers'', JArr (map worker_json (wr_workers r)))]"

definition retired_json :: "retired_alias \<Rightarrow> jval" where
  "retired_json e = JObj [(''alias'', JString (rt_alias e)), (''runId'', JString (rt_runId e)),
     (''workerId'', JString (rt_workerId e)), (''retiredAt'', JString (rt_retiredAt e))]"

definition bounded :: "worker_limits \<Rightarrow> store_file \<Rightarrow> store_file" where
  "bounded lim f = \<lparr>sf_runs = last_n (wm_maxParkedRuns lim + 8) (sf_runs f),
     sf_retired = last_n MAX_RETIRED (sf_retired f)\<rparr>"

definition worker_save ::
  "worker_limits \<Rightarrow> worker_env \<Rightarrow> store_file \<Rightarrow> store_disk \<Rightarrow> store_disk \<times> (worker_error + unit)" where
  "worker_save lim env f disk =
     (if \<not> we_writes env then (disk, Inl WriteFails)
      else (StoreJson (JObj [(''version'', JNum 1),
              (''runs'', JArr (map run_json (sf_runs (bounded lim f)))),
              (''retired'', JArr (map retired_json (sf_retired (bounded lim f))))]), Inr ()))"

section \<open>Operations\<close>

definition findRun :: "worker_run list \<Rightarrow> string \<Rightarrow> worker_error + worker_run" where
  "findRun runs runId =
     (case find (\<lambda>r. wr_runId r = runId) runs of None \<Rightarrow> Inl RunMissing | Some r \<Rightarrow> Inr r)"

definition findWorker :: "worker_run \<Rightarrow> string \<Rightarrow> worker_error + worker" where
  "findWorker run workerId =
     (case find (\<lambda>w. wk_id w = workerId) (wr_workers run) of None \<Rightarrow> Inl WorkerMissing | Some w \<Rightarrow> Inr w)"

definition put_run :: "worker_run \<Rightarrow> store_file \<Rightarrow> store_file" where
  "put_run run f = f\<lparr>sf_runs := upd_first (\<lambda>r. wr_runId r = wr_runId run) (\<lambda>_. run) (sf_runs f)\<rparr>"

definition put_worker :: "worker \<Rightarrow> worker_run \<Rightarrow> worker_run" where
  "put_worker w run =
     run\<lparr>wr_workers := upd_first (\<lambda>x. wk_id x = wk_id w) (\<lambda>_. w) (wr_workers run)\<rparr>"

text \<open>
  The frame of the operations: read the file and compute a new one and an answer, then write.
  Between the two lie awaits and no lock, so other calls may write in between:
  \<open>store_read\<close> is given the disk that the call reads, \<open>store_commit\<close> the disk that it replaces.
  Each operation is defined as its reading half, which also has its guards; the whole call on
  one disk, with no other call in between, is \<open>store_commit\<close> after it.
\<close>

definition store_read ::
  "worker_env \<Rightarrow> (store_file \<Rightarrow> nat \<Rightarrow> worker_error + (store_file \<times> 'a))
    \<Rightarrow> store_disk \<Rightarrow> worker_error + (store_file \<times> 'a)" where
  "store_read env body disk = bind_res (worker_load env disk) (\<lambda>(f, n). body f n)"

definition store_commit ::
  "worker_limits \<Rightarrow> worker_env \<Rightarrow> worker_error + (store_file \<times> 'a)
    \<Rightarrow> store_disk \<Rightarrow> store_disk \<times> (worker_error + 'a)" where
  "store_commit lim env r disk =
     (case r of
        Inl e \<Rightarrow> (disk, Inl e)
      | Inr (f', answer) \<Rightarrow>
          (case worker_save lim env f' disk of
             (disk', Inl e) \<Rightarrow> (disk', Inl e)
           | (disk', Inr _) \<Rightarrow> (disk', Inr answer)))"

text \<open>The loop of \<open>spawn\<close> over the specifications; \<open>n\<close> is the next identifier.\<close>

fun spawn_workers ::
  "worker_env \<Rightarrow> string \<Rightarrow> nat \<Rightarrow> worker_spec list \<Rightarrow> worker list \<Rightarrow> worker_error + worker list" where
  "spawn_workers env sharedContext n [] workers = Inr workers"
| "spawn_workers env sharedContext n (spec # specs) workers =
     (let task = js_trim (ws_task spec)
      in if task = [] \<or> length task > MAX_TASK_CHARS then Inl BadTask
         else spawn_workers env sharedContext (n + 1) specs (workers @
           [\<lparr>wk_id = ''w-'' @ take 8 (we_uuid env n),
             wk_label = take MAX_LABEL_CHARS (case ws_label spec of
                 None \<Rightarrow> ''worker-'' @ show_nat (length workers + 1) | Some l \<Rightarrow> l),
             wk_task = briefFor env sharedContext task, wk_state = WActive,
             wk_alias = ws_alias spec, wk_worktreePath = ws_worktreePath spec, wk_inbox = [],
             wk_createdAt = we_now env 0, wk_lastSeenAt = we_now env 0, wk_result = None\<rparr>]))"

definition spawn_read ::
  "worker_limits \<Rightarrow> worker_env \<Rightarrow> string \<Rightarrow> string \<Rightarrow> worker_spec list \<Rightarrow> store_disk
    \<Rightarrow> worker_error + (store_file \<times> worker_run)" where
  "spawn_read lim env primeAlias sharedContext specs disk =
     (let prime = js_trim primeAlias
      in if prime = [] \<or> length prime > MAX_ALIAS_CHARS then Inl BadPrime
         else if length sharedContext > MAX_CONTEXT_CHARS then Inl ContextTooLong
         else if specs = [] \<or> length specs > 8 then Inl BadSpecCount
         else store_read env (\<lambda>f n.
           bind_res (spawn_workers env sharedContext (n + 1) specs []) (\<lambda>workers.
             (let run = \<lparr>wr_runId = we_uuid env n, wr_primeAlias = prime,
                wr_sharedContext = sharedContext, wr_createdAt = we_now env 0, wr_parked = False,
                wr_workers = workers\<rparr>
              in if length (activeWorkers run) > wm_maxWorkers lim then Inl SlotsExceeded
                 else Inr (f\<lparr>sf_runs := sf_runs f @ [run]\<rparr>, run)))) disk)"

definition worker_spawn ::
  "worker_limits \<Rightarrow> worker_env \<Rightarrow> string \<Rightarrow> string \<Rightarrow> worker_spec list \<Rightarrow> store_disk
    \<Rightarrow> store_disk \<times> (worker_error + worker_run)" where
  "worker_spawn lim env primeAlias sharedContext specs disk =
     store_commit lim env (spawn_read lim env primeAlias sharedContext specs disk) disk"

definition read_message :: "string \<Rightarrow> agent_message \<Rightarrow> agent_message" where
  "read_message now m = (if am_readAt m = None then m\<lparr>am_readAt := Some now\<rparr> else m)"

definition status_read ::
  "worker_env \<Rightarrow> string \<Rightarrow> store_disk \<Rightarrow> worker_error + (store_file \<times> worker_run)" where
  "status_read env runId =
     store_read env (\<lambda>f n. bind_res (findRun (sf_runs f) runId) (\<lambda>run.
       (let run' = run\<lparr>wr_workers := map (\<lambda>w.
              w\<lparr>wk_inbox := map (read_message (we_now env 0)) (wk_inbox w)\<rparr>) (wr_workers run)\<rparr>
        in Inr (put_run run' f, run'))))"

definition worker_status ::
  "worker_limits \<Rightarrow> worker_env \<Rightarrow> string \<Rightarrow> store_disk \<Rightarrow> store_disk \<times> (worker_error + worker_run)" where
  "worker_status lim env runId disk = store_commit lim env (status_read env runId disk) disk"

definition worker_listForPrime ::
  "worker_env \<Rightarrow> string \<Rightarrow> store_disk \<Rightarrow> worker_error + worker_run list" where
  "worker_listForPrime env primeAlias disk =
     bind_res (worker_load env disk) (\<lambda>(f, _).
       Inr (filter (\<lambda>run. wr_primeAlias run = primeAlias) (sf_runs f)))"

text \<open>What happens to a full inbox: the oldest read message goes, and if none is read, nothing.\<close>

definition make_room :: "agent_message list \<Rightarrow> worker_error + agent_message list" where
  "make_room inbox =
     (if length inbox \<ge> MAX_QUEUE then
        (case find (\<lambda>m. am_readAt m \<noteq> None) inbox of
           None \<Rightarrow> Inl QueueFull
         | Some _ \<Rightarrow> Inr (del_first (\<lambda>m. am_readAt m \<noteq> None) inbox))
      else Inr inbox)"

definition message_read ::
  "worker_env \<Rightarrow> string \<Rightarrow> string \<Rightarrow> string \<Rightarrow> message_sender \<Rightarrow> store_disk
    \<Rightarrow> worker_error + (store_file \<times> worker_run)" where
  "message_read env runId workerId message from' disk =
     (let text = js_trim message
      in if text = [] \<or> length text > MAX_MESSAGE_CHARS then Inl BadMessage
         else store_read env (\<lambda>f n.
           bind_res (findRun (sf_runs f) runId) (\<lambda>run.
           bind_res (findWorker run workerId) (\<lambda>w.
             if isTerminal (wk_state w) then Inl WorkerDone
             else bind_res (make_room (wk_inbox w)) (\<lambda>inbox.
               (let m = \<lparr>am_id = ''m-'' @ take 8 (we_uuid env n), am_from = from', am_text = text,
                      am_sentAt = we_now env 0, am_readAt = None\<rparr>;
                    w' = w\<lparr>wk_inbox := inbox @ [m], wk_lastSeenAt := we_now env 1,
                           wk_state := (if wk_state w = WSleeping then WActive else wk_state w)\<rparr>;
                    run' = put_worker w' run
                in Inr (put_run run' f, run')))))) disk)"

definition worker_message ::
  "worker_limits \<Rightarrow> worker_env \<Rightarrow> string \<Rightarrow> string \<Rightarrow> string \<Rightarrow> message_sender \<Rightarrow> store_disk
    \<Rightarrow> store_disk \<times> (worker_error + worker_run)" where
  "worker_message lim env runId workerId message from' disk =
     store_commit lim env (message_read env runId workerId message from' disk) disk"

definition sleep_read ::
  "worker_env \<Rightarrow> string \<Rightarrow> string \<Rightarrow> store_disk \<Rightarrow> worker_error + (store_file \<times> worker_run)" where
  "sleep_read env runId workerId =
     store_read env (\<lambda>f n.
       bind_res (findRun (sf_runs f) runId) (\<lambda>run.
       bind_res (findWorker run workerId) (\<lambda>w.
         if isTerminal (wk_state w) then Inl WorkerDone
         else
           (let run' = put_worker (w\<lparr>wk_state := WSleeping, wk_lastSeenAt := we_now env 0\<rparr>) run
            in Inr (put_run run' f, run')))))"

definition worker_sleep ::
  "worker_limits \<Rightarrow> worker_env \<Rightarrow> string \<Rightarrow> string \<Rightarrow> store_disk \<Rightarrow> store_disk \<times> (worker_error + worker_run)" where
  "worker_sleep lim env runId workerId disk = store_commit lim env (sleep_read env runId workerId disk) disk"

definition finish_read ::
  "worker_env \<Rightarrow> string \<Rightarrow> string \<Rightarrow> string \<Rightarrow> bool \<Rightarrow> store_disk
    \<Rightarrow> worker_error + (store_file \<times> worker_run)" where
  "finish_read env runId workerId report failed disk =
     (let text = js_trim report
      in if text = [] \<or> length text > MAX_MESSAGE_CHARS then Inl BadMessage
         else store_read env (\<lambda>f n.
           bind_res (findRun (sf_runs f) runId) (\<lambda>run.
           bind_res (findWorker run workerId) (\<lambda>w.
             if isTerminal (wk_state w) then Inl WorkerDone
             else
               (let w' = w\<lparr>wk_state := (if failed then WFailed else WFinished),
                           wk_result := Some text, wk_lastSeenAt := we_now env 0\<rparr>;
                    f1 = (case wk_alias w' of
                       None \<Rightarrow> f
                     | Some alias \<Rightarrow> f\<lparr>sf_retired := sf_retired f @
                         [\<lparr>rt_alias = alias, rt_runId = runId, rt_workerId = workerId,
                           rt_retiredAt = wk_lastSeenAt w'\<rparr>]\<rparr>);
                    run1 = put_worker w' run;
                    run' = (if list_all (\<lambda>c. isTerminal (wk_state c)) (wr_workers run1)
                            then run1\<lparr>wr_parked := True\<rparr> else run1)
                in Inr (put_run run' f1, run'))))) disk)"

definition worker_finish ::
  "worker_limits \<Rightarrow> worker_env \<Rightarrow> string \<Rightarrow> string \<Rightarrow> string \<Rightarrow> bool \<Rightarrow> store_disk
    \<Rightarrow> store_disk \<times> (worker_error + worker_run)" where
  "worker_finish lim env runId workerId report failed disk =
     store_commit lim env (finish_read env runId workerId report failed disk) disk"

definition worker_isRetired :: "worker_env \<Rightarrow> string \<Rightarrow> store_disk \<Rightarrow> worker_error + bool" where
  "worker_isRetired env alias disk =
     bind_res (worker_load env disk) (\<lambda>(f, _). Inr (list_ex (\<lambda>e. rt_alias e = alias) (sf_retired f)))"

definition assertAliasLive :: "worker_env \<Rightarrow> string \<Rightarrow> store_disk \<Rightarrow> worker_error + unit" where
  "assertAliasLive env alias disk =
     bind_res (worker_isRetired env alias disk) (\<lambda>retired.
       if retired then Inl (WorkerRetired alias) else Inr ())"

definition freeSlots :: "worker_limits \<Rightarrow> worker_run \<Rightarrow> nat" where
  "freeSlots lim run = wm_maxWorkers lim - length (activeWorkers run)"

section \<open>What reading accepts\<close>

definition message_ok :: "agent_message \<Rightarrow> bool" where
  "message_ok m \<longleftrightarrow> am_id m \<noteq> [] \<and> am_text m \<noteq> [] \<and> length (am_text m) \<le> MAX_MESSAGE_CHARS"

definition worker_ok :: "worker \<Rightarrow> bool" where
  "worker_ok w \<longleftrightarrow> length (wk_inbox w) \<le> MAX_QUEUE \<and> list_all message_ok (wk_inbox w)"

definition store_ok :: "store_file \<Rightarrow> bool" where
  "store_ok f \<longleftrightarrow> list_all (\<lambda>r. list_all worker_ok (wr_workers r)) (sf_runs f)
     \<and> list_all (\<lambda>e. rt_alias e \<noteq> []) (sf_retired f)"

lemma last_n_subset: "set (last_n n xs) \<subseteq> set xs"
  by (simp add: last_n_def set_drop_subset)

lemma list_all_last_n: "list_all P xs \<Longrightarrow> list_all P (last_n n xs)"
  using last_n_subset [of n xs] by (auto simp: list_all_iff)

lemma validMessage_ok: "validMessage v = Some m \<Longrightarrow> message_ok m"
  by (auto simp: validMessage_def message_ok_def MAX_MESSAGE_CHARS_def is_JString_iff split: if_splits)

lemma legacy_inbox_ok: "list_all (\<lambda>t. t \<noteq> []) ts \<Longrightarrow> list_all message_ok (legacy_inbox env n ts)"
  by (induction ts arbitrary: n) (auto simp: message_ok_def MAX_MESSAGE_CHARS_def)

lemma legacy_notes_ok:
  "list_all (\<lambda>t. t \<noteq> []) (map jstring (filter (\<lambda>note. is_JString note \<and> note \<noteq> JString []) notes))"
  by (auto simp: list_all_iff is_JString_iff)

lemma map_filter_list_all: "(\<And>x y. f x = Some y \<Longrightarrow> P y) \<Longrightarrow> list_all P (List.map_filter f xs)"
  by (induction xs) (auto simp: List.map_filter_simps split: option.splits)

lemma validWorker_ok: "validWorker env n v = (Some w, n') \<Longrightarrow> worker_ok w"
  unfolding validWorker_def Let_def
  by (auto simp: worker_ok_def list_all_last_n map_filter_list_all validMessage_ok legacy_inbox_ok
      legacy_notes_ok split: if_splits option.splits)

lemma validWorkers_ok: "list_all worker_ok (fst (validWorkers env n vs))"
proof (induction vs arbitrary: n)
  case (Cons v vs)
  obtain w n1 where w: "validWorker env n v = (w, n1)" by fastforce
  obtain ws n2 where ws: "validWorkers env n1 vs = (ws, n2)" by fastforce
  from Cons.IH [of n1] w ws show ?case by (auto split: option.splits dest: validWorker_ok)
qed simp

lemma runsFromLegacy_ok: "list_all (\<lambda>r. list_all worker_ok (wr_workers r)) (fst (runsFromLegacy env n vs))"
proof (induction vs arbitrary: n)
  case (Cons v vs)
  show ?case
  proof (cases "\<not> is_object v \<or> \<not> is_JString (jget v ''runId'') \<or> \<not> is_JString (jget v ''primeAlias'')
      \<or> jlist (jget v ''workers'') = None")
    case True
    then show ?thesis using Cons.IH by (auto split: option.splits)
  next
    case False
    then obtain ws where ws: "jlist (jget v ''workers'') = Some ws" by auto
    obtain workers n1 where w: "validWorkers env n ws = (workers, n1)" by fastforce
    obtain runs n2 where r: "runsFromLegacy env n1 vs = (runs, n2)" by fastforce
    have "list_all worker_ok workers" using validWorkers_ok [of env n ws] w by simp
    moreover have "list_all (\<lambda>r. list_all worker_ok (wr_workers r)) runs" using Cons.IH [of n1] r by simp
    ultimately show ?thesis using False ws w r by simp
  qed
qed simp

lemma validRetired_ok: "validRetired env v = Some e \<Longrightarrow> rt_alias e \<noteq> []"
  by (auto simp: validRetired_def is_JString_iff split: if_splits)

lemma worker_load_ok:
  assumes "worker_load env d = Inr (f, n)"
  shows "store_ok f \<and> length (sf_retired f) \<le> MAX_RETIRED"
proof -
  have fst_ok: "list_all (\<lambda>r. list_all worker_ok (wr_workers r)) rs"
    if "runsFromLegacy env m vs = (rs, k)" for m vs rs k
    using runsFromLegacy_ok [of env m vs] that by simp
  from assms show ?thesis
    by (auto simp: worker_load_def store_ok_def fst_ok list_all_last_n map_filter_list_all validRetired_ok
        split: store_disk.splits option.splits prod.splits if_splits)
qed

section \<open>Writing and reading again\<close>

lemma validMessage_json: "message_ok m \<Longrightarrow> validMessage (message_json m) = Some m"
  by (cases m; cases "am_from m")
    (auto simp: validMessage_def message_json_def is_object_def message_ok_def jnullable_def split: option.splits)

lemma map_filter_validMessage:
  "list_all message_ok ms \<Longrightarrow> List.map_filter validMessage (map message_json ms) = ms"
  by (induction ms) (auto simp: List.map_filter_simps validMessage_json)

lemma string_or_null_json [simp]: "string_or_null (jnullable s) = s"
  by (cases s) (simp_all add: string_or_null_def jnullable_def)

lemma validWorker_json: "worker_ok w \<Longrightarrow> validWorker env n (worker_json w) = (Some w, n)"
  by (cases w; cases "wk_state w")
    (auto simp: validWorker_def worker_json_def is_object_def worker_ok_def Let_def string_or_def
      map_filter_validMessage)

lemma validWorkers_json: "list_all worker_ok ws \<Longrightarrow> validWorkers env n (map worker_json ws) = (ws, n)"
  by (induction ws) (auto simp: validWorker_json)

lemma runsFromLegacy_json:
  "list_all (\<lambda>r. list_all worker_ok (wr_workers r)) rs \<Longrightarrow> runsFromLegacy env n (map run_json rs) = (rs, n)"
proof (induction rs)
  case (Cons r rs)
  then have "validWorkers env n (map worker_json (wr_workers r)) = (wr_workers r, n)"
    by (simp add: validWorkers_json)
  with Cons show ?case by (cases r) (simp add: run_json_def is_object_def string_or_def)
qed simp

lemma validRetired_json: "rt_alias e \<noteq> [] \<Longrightarrow> validRetired env (retired_json e) = Some e"
  by (cases e) (simp add: validRetired_def retired_json_def is_object_def string_or_def)

lemma map_filter_validRetired:
  "List.map_filter (validRetired env) (map retired_json es) = filter (\<lambda>e. rt_alias e \<noteq> []) es"
proof (induction es)
  case (Cons e es)
  have "rt_alias e = [] \<Longrightarrow> validRetired env (retired_json e) = None"
    by (simp add: validRetired_def retired_json_def is_object_def)
  with Cons show ?case by (simp add: List.map_filter_simps validRetired_json)
qed (simp add: List.map_filter_simps)

text \<open>Only an empty alias in the list of the retired ones is lost.\<close>

lemma load_saved:
  assumes "list_all (\<lambda>r. list_all worker_ok (wr_workers r)) (sf_runs f)" "we_writes env'"
  shows "worker_load env (fst (worker_save lim env' f d))
    = Inr (\<lparr>sf_runs = sf_runs (bounded lim f),
            sf_retired = filter (\<lambda>e. rt_alias e \<noteq> []) (sf_retired (bounded lim f))\<rparr>, 0)"
proof -
  have "list_all (\<lambda>r. list_all worker_ok (wr_workers r)) (sf_runs (bounded lim f))"
    using assms(1) by (simp add: bounded_def list_all_last_n)
  moreover have "length (filter (\<lambda>e. rt_alias e \<noteq> []) (sf_retired (bounded lim f))) \<le> MAX_RETIRED"
    by (rule order_trans [OF length_filter_le]) (simp add: bounded_def)
  ultimately show ?thesis using assms(2)
    by (simp add: worker_save_def worker_load_def is_object_def runsFromLegacy_json map_filter_validRetired)
qed

text \<open>
  C32: Whatever is on disk, what the store reads is well formed (messages with an identifier and
  1 to 4000 characters, inboxes of at most 200, at most 200 retired aliases, none empty), and
  writing it back and reading it again gives the same store, only the number of runs is cut to
  the bound: reading normalises old formats once and for all.
\<close>

theorem worker_file_roundtrip:
  assumes "worker_load env d = Inr (f, n)" "we_writes env'"
  shows "store_ok f \<and> length (sf_retired f) \<le> MAX_RETIRED
    \<and> worker_load env'' (fst (worker_save lim env' f d))
        = Inr (f\<lparr>sf_runs := last_n (wm_maxParkedRuns lim + 8) (sf_runs f)\<rparr>, 0)"
proof -
  note ok = worker_load_ok [OF assms(1)]
  then have "filter (\<lambda>e. rt_alias e \<noteq> []) (sf_retired f) = sf_retired f"
    by (auto simp: store_ok_def list_all_iff filter_id_conv)
  with ok load_saved [OF _ assms(2), of f env'' lim d] show ?thesis
    by (cases f) (simp add: store_ok_def bounded_def)
qed

definition demo_wenv :: worker_env where
  "demo_wenv = \<lparr>we_uuid = (\<lambda>n. ''0123456789'' @ show_nat n), we_now = (\<lambda>n. ''now''), we_epoch = ''1970'',
     we_writes = True, we_before = ''Context: '', we_between = '' Task: ''\<rparr>"

definition demo_wlim :: worker_limits where
  "demo_wlim = \<lparr>wm_maxWorkers = 4, wm_maxParkedRuns = 4\<rparr>"

theorem worker_file_roundtrip_witness:
  "\<exists>f. worker_load demo_wenv (StoreJson (JArr [JNull, JObj [(''runId'', JString ''r''),
        (''primeAlias'', JString ''p''), (''workers'', JArr [JObj [(''id'', JString ''w''),
          (''task'', JString ''t''), (''notes'', JArr [JString ''hi'', JNum 1])]])]])) = Inr (f, 1)
    \<and> worker_load demo_wenv (fst (worker_save demo_wlim demo_wenv f NoStore))
      = Inr (f\<lparr>sf_runs := last_n 12 (sf_runs f)\<rparr>, 0)"
proof -
  let ?d = "StoreJson (JArr [JNull, JObj [(''runId'', JString ''r''),
        (''primeAlias'', JString ''p''), (''workers'', JArr [JObj [(''id'', JString ''w''),
          (''task'', JString ''t''), (''notes'', JArr [JString ''hi'', JNum 1])]])]])"
  obtain f where f: "worker_load demo_wenv ?d = Inr (f, 1)"
    by (simp add: worker_load_def is_object_def validWorker_def Let_def)
  with worker_file_roundtrip [OF f, of demo_wenv demo_wenv demo_wlim] show ?thesis
    by (auto simp: demo_wenv_def demo_wlim_def worker_save_def)
qed

section \<open>The operations on one worker\<close>

lemma store_commit_InrD:
  assumes "store_commit lim env r d = (d', Inr x)"
  shows "\<exists>f'. r = Inr (f', x) \<and> we_writes env \<and> d' = fst (worker_save lim env f' d)"
  using assms by (auto simp: store_commit_def worker_save_def split: sum.splits prod.splits if_splits)

lemma store_read_InrD:
  "store_read env body d = Inr (f', x) \<Longrightarrow> \<exists>f n. worker_load env d = Inr (f, n) \<and> body f n = Inr (f', x)"
  by (auto simp: store_read_def bind_res_Inr_iff)

lemma findRunD: "findRun rs i = Inr r \<Longrightarrow> r \<in> set rs \<and> wr_runId r = i"
  by (auto simp: findRun_def find_Some_iff split: option.splits)

lemma findWorkerD: "findWorker r i = Inr w \<Longrightarrow> w \<in> set (wr_workers r) \<and> wk_id w = i"
  by (auto simp: findWorker_def find_Some_iff split: option.splits)

lemma findWorker_put:
  "findWorker r i = Inr w \<Longrightarrow> wk_id w' = i \<Longrightarrow> findWorker (put_worker w' r) i = Inr w'"
  using find_upd_first [of "\<lambda>x. wk_id x = i" "wr_workers r" w "\<lambda>_. w'"]
  by (simp add: findWorker_def put_worker_def split: option.splits)

lemma put_worker_ok:
  "list_all worker_ok (wr_workers r) \<Longrightarrow> worker_ok w \<Longrightarrow> list_all worker_ok (wr_workers (put_worker w r))"
  by (auto simp: put_worker_def list_all_iff dest: set_upd_firstD)

lemma put_run_ok:
  "list_all (\<lambda>r. list_all worker_ok (wr_workers r)) (sf_runs f) \<Longrightarrow> list_all worker_ok (wr_workers r)
    \<Longrightarrow> list_all (\<lambda>r. list_all worker_ok (wr_workers r)) (sf_runs (put_run r f))"
  by (auto simp: put_run_def list_all_iff dest: set_upd_firstD)

lemma found_ok:
  assumes "store_ok f" "findRun (sf_runs f) i = Inr r" "findWorker r j = Inr w"
  shows "list_all worker_ok (wr_workers r)" "worker_ok w"
  using assms findRunD [OF assms(2)] findWorkerD [OF assms(3)]
  by (auto simp: store_ok_def list_all_iff)

definition unread :: "agent_message \<Rightarrow> bool" where
  "unread m \<longleftrightarrow> am_readAt m = None"

lemma make_room_spec:
  assumes "make_room inbox = Inr inbox'" "length inbox \<le> MAX_QUEUE"
  shows "length inbox' < MAX_QUEUE \<and> filter unread inbox' = filter unread inbox \<and> set inbox' \<subseteq> set inbox"
proof (cases "length inbox < MAX_QUEUE")
  case True
  with assms(1) show ?thesis by (simp add: make_room_def)
next
  case False
  with assms(1) obtain m where m: "find (\<lambda>m. am_readAt m \<noteq> None) inbox = Some m"
    and i: "inbox' = del_first (\<lambda>m. am_readAt m \<noteq> None) inbox"
    by (auto simp: make_room_def split: option.splits)
  from m have "\<exists>x \<in> set inbox. am_readAt x \<noteq> None" by (auto simp: find_Some_iff)
  then have "Suc (length inbox') = length inbox" unfolding i by (rule length_del_first)
  moreover have "filter unread inbox' = filter unread inbox"
    using filter_del_first [of "\<lambda>m. am_readAt m \<noteq> None" inbox] by (simp add: i unread_def [abs_def])
  moreover have "set inbox' \<subseteq> set inbox" unfolding i by (rule set_del_first_subset)
  ultimately show ?thesis using assms(2) by simp
qed

text \<open>What the reading half of \<open>message\<close> decides, on the file that it read.\<close>

lemma message_read_InrD:
  assumes "message_read env runId workerId message sender d = Inr (f', run')"
  shows "\<exists>f n run w w' m. worker_load env d = Inr (f, n) \<and> findRun (sf_runs f) runId = Inr run
    \<and> findWorker run workerId = Inr w \<and> \<not> isTerminal (wk_state w)
    \<and> findWorker run' workerId = Inr w' \<and> wk_state w' = WActive
    \<and> am_text m = js_trim message \<and> am_from m = sender \<and> unread m
    \<and> filter unread (wk_inbox w') = filter unread (wk_inbox w) @ [m]
    \<and> length (wk_inbox w') \<le> MAX_QUEUE
    \<and> f' = put_run run' f \<and> store_ok f' \<and> wr_runId run' = runId"
proof -
  have tx: "js_trim message \<noteq> []" "length (js_trim message) \<le> MAX_MESSAGE_CHARS"
    using assms by (auto simp: message_read_def Let_def split: if_splits)
  let ?m = "\<lambda>n. \<lparr>am_id = ''m-'' @ take 8 (we_uuid env n), am_from = sender, am_text = js_trim message,
     am_sentAt = we_now env 0, am_readAt = None\<rparr>"
  from assms tx obtain f n run w inbox where ld: "worker_load env d = Inr (f, n)"
    and run: "findRun (sf_runs f) runId = Inr run"
    and w: "findWorker run workerId = Inr w" and nt: "\<not> isTerminal (wk_state w)"
    and room: "make_room (wk_inbox w) = Inr inbox"
    and run': "run' = put_worker (w\<lparr>wk_inbox := inbox @ [?m n], wk_lastSeenAt := we_now env 1,
        wk_state := (if wk_state w = WSleeping then WActive else wk_state w)\<rparr>) run"
    and f': "f' = put_run run' f"
    unfolding message_read_def Let_def
    by (auto simp: bind_res_Inr_iff dest!: store_read_InrD split: if_splits)
  let ?w = "w\<lparr>wk_inbox := inbox @ [?m n], wk_lastSeenAt := we_now env 1,
        wk_state := (if wk_state w = WSleeping then WActive else wk_state w)\<rparr>"
  note ok = worker_load_ok [OF ld, THEN conjunct1]
  note fo = found_ok [OF ok run w]
  note r = make_room_spec [OF room fo(2) [unfolded worker_ok_def, THEN conjunct1]]
  have "message_ok (?m n)" using tx by (simp add: message_ok_def)
  with r fo(2) have "worker_ok ?w" by (auto simp: worker_ok_def list_all_iff)
  then have "list_all worker_ok (wr_workers run')" unfolding run' using fo(1) by (simp add: put_worker_ok)
  then have ok': "store_ok f'" unfolding f' using ok put_run_ok by (auto simp: store_ok_def put_run_def)
  have fw: "findWorker run' workerId = Inr ?w"
    unfolding run' by (rule findWorker_put [OF w]) (use findWorkerD [OF w] in simp)
  have act: "wk_state ?w = WActive" using nt by (cases "wk_state w") (simp_all add: isTerminal_def)
  have id': "wr_runId run' = runId" using findRunD [OF run] by (simp add: run' put_worker_def)
  show ?thesis
    by (rule exI [of _ f], rule exI [of _ n], rule exI [of _ run], rule exI [of _ w], rule exI [of _ ?w],
        rule exI [of _ "?m n"]) (use ld run w nt fw act r f' ok' id' in \<open>auto simp: unread_def\<close>)
qed

lemma find_put_run:
  "findRun (sf_runs f) i = Inr run \<Longrightarrow> wr_runId run' = i \<Longrightarrow> findRun (sf_runs (put_run run' f)) i = Inr run'"
  using find_upd_first [of "\<lambda>r. wr_runId r = i" "sf_runs f" run "\<lambda>_. run'"]
  by (simp add: findRun_def put_run_def split: option.splits)

lemma load_committed:
  assumes "store_commit lim env (Inr (f', x)) d1 = (d2, Inr y)" "store_ok f'"
  shows "worker_load env' d2 = Inr (bounded lim f', 0)"
proof -
  from store_commit_InrD [OF assms(1)] have "we_writes env" "d2 = fst (worker_save lim env f' d1)" by auto
  with load_saved [of f' env env' lim d1] assms(2) show ?thesis
    by (auto simp: bounded_def store_ok_def list_all_iff filter_id_conv dest: subsetD [OF last_n_subset])
qed

text \<open>
  C16: A message that is accepted is appended to what the call read, and displaces nothing unread
  there. The call reads the file from the disk \<open>d\<close> and later replaces the disk \<open>d1\<close>, which other
  calls may have written meanwhile. If it reports success then in the file it read the worker is
  not finished; in the answer the worker is active, its unread messages are those it had in the
  file read, in order, followed by the new one (the trimmed text), and its inbox stays within
  200; and whatever \<open>d1\<close> was, the next load reads exactly the file that was read with this
  change (up to the bound on the number of runs). When \<open>d1 = d\<close> nothing is lost; when another
  call wrote in between, its change is overwritten (\<open>overlapping_messages_lose_one\<close>).
\<close>

theorem worker_message_appends_to_read:
  assumes "message_read env runId workerId message sender d = r"
    "store_commit lim env r d1 = (d2, Inr run')"
  shows "\<exists>f n run w w' m. worker_load env d = Inr (f, n) \<and> findRun (sf_runs f) runId = Inr run
    \<and> findWorker run workerId = Inr w \<and> \<not> isTerminal (wk_state w)
    \<and> findWorker run' workerId = Inr w' \<and> wk_state w' = WActive
    \<and> am_text m = js_trim message \<and> am_from m = sender \<and> unread m
    \<and> filter unread (wk_inbox w') = filter unread (wk_inbox w) @ [m]
    \<and> length (wk_inbox w') \<le> MAX_QUEUE
    \<and> worker_load env' d2 = Inr (bounded lim (put_run run' f), 0)"
proof -
  from store_commit_InrD [OF assms(2)] obtain f' where r: "r = Inr (f', run')" by blast
  from message_read_InrD [OF assms(1) [unfolded r]]
  obtain f n run w w' m where X: "worker_load env d = Inr (f, n)" "findRun (sf_runs f) runId = Inr run"
    "findWorker run workerId = Inr w" "\<not> isTerminal (wk_state w)"
    "findWorker run' workerId = Inr w'" "wk_state w' = WActive"
    "am_text m = js_trim message" "am_from m = sender" "unread m"
    "filter unread (wk_inbox w') = filter unread (wk_inbox w) @ [m]"
    "length (wk_inbox w') \<le> MAX_QUEUE" "f' = put_run run' f" "store_ok f'"
    by (elim exE conjE) (rule that)
  note load_committed [OF assms(2) [unfolded r] X(13), of env', unfolded X(12)]
  with X(1-11) show ?thesis by blast
qed

definition demo_disk :: store_disk where
  "demo_disk = fst (worker_spawn demo_wlim demo_wenv '' p '' '''' [\<lparr>ws_task = ''t'', ws_label = None,
     ws_alias = Some ''a'', ws_worktreePath = None\<rparr>] NoStore)"

definition demo_workerId :: string where "demo_workerId = ''w-01234567''"

lemma demo_message:
  "\<exists>d' run'. worker_message demo_wlim demo_wenv ''01234567890'' demo_workerId '' hello '' FromPrime demo_disk
    = (d', Inr run')"
proof -
  have "case worker_message demo_wlim demo_wenv ''01234567890'' demo_workerId '' hello '' FromPrime demo_disk of
      (d', Inr run') \<Rightarrow> True | (d', Inl e) \<Rightarrow> False"
    by code_simp
  then show ?thesis by (auto split: prod.splits sum.splits)
qed

theorem worker_message_appends_to_read_witness:
  "case worker_message demo_wlim demo_wenv ''01234567890'' demo_workerId '' hello '' FromPrime demo_disk of
     (d', Inr run') \<Rightarrow> (\<exists>w'. findWorker run' demo_workerId = Inr w' \<and> wk_state w' = WActive
       \<and> (\<exists>m. am_text m = ''hello'' \<and> m \<in> set (wk_inbox w')))
   | (d', Inl e) \<Rightarrow> False"
proof -
  obtain d' run' where r: "worker_message demo_wlim demo_wenv ''01234567890'' demo_workerId '' hello '' FromPrime demo_disk
      = (d', Inr run')" using demo_message by blast
  have t: "js_trim '' hello '' = ''hello''" by code_simp
  from worker_message_appends_to_read [OF refl r [unfolded worker_message_def], of demo_wenv]
  obtain w w' :: worker and m :: agent_message where
    "findWorker run' demo_workerId = Inr w'" "wk_state w' = WActive" "am_text m = js_trim '' hello ''"
    "filter unread (wk_inbox w') = filter unread (wk_inbox w) @ [m]"
    by (elim exE conjE) (rule that)
  moreover from this(4) have "m \<in> set (wk_inbox w')" by (metis in_set_conv_decomp filter_is_subset subsetD)
  ultimately show ?thesis using r t by auto
qed

text \<open>
  Two accepted messages, one delivered. When two calls read the store before either of them
  has written it, both report success, and the disk afterwards is the one that the second call
  alone would have left: the first message is not in it. The worker's unread messages are those
  of before followed by the second message only.
\<close>

theorem overlapping_messages_lose_one:
  assumes reads: "message_read env1 runId workerId text1 sender1 d = r1"
      "message_read env2 runId workerId text2 sender2 d = r2"
    and writes: "store_commit lim env1 r1 d = (d1, Inr run1)" "store_commit lim env2 r2 d1 = (d2, Inr run2)"
    and ld: "worker_load env2 d = Inr (f, n)"
    and bound: "length (sf_runs f) \<le> wm_maxParkedRuns lim + 8"
  shows "worker_message lim env2 runId workerId text2 sender2 d = (d2, Inr run2)
    \<and> (\<exists>f2 run w w2 m2. worker_load env' d2 = Inr (f2, 0)
        \<and> findRun (sf_runs f) runId = Inr run \<and> findWorker run workerId = Inr w
        \<and> findRun (sf_runs f2) runId = Inr run2 \<and> findWorker run2 workerId = Inr w2
        \<and> am_text m2 = js_trim text2 \<and> am_from m2 = sender2
        \<and> filter unread (wk_inbox w2) = filter unread (wk_inbox w) @ [m2])"
proof -
  from store_commit_InrD [OF writes(2)] obtain g where r: "r2 = Inr (g, run2)" and wr: "we_writes env2"
    and d2: "d2 = fst (worker_save lim env2 g d1)" by blast
  from message_read_InrD [OF reads(2) [unfolded r]]
  obtain fa na run w w2 m2 where L: "worker_load env2 d = Inr (fa, na)" and Y: "findRun (sf_runs fa) runId = Inr run"
    "findWorker run workerId = Inr w" "findWorker run2 workerId = Inr w2"
    "am_text m2 = js_trim text2" "am_from m2 = sender2"
    "filter unread (wk_inbox w2) = filter unread (wk_inbox w) @ [m2]"
    "g = put_run run2 fa" "store_ok g" "wr_runId run2 = runId"
    by (elim exE conjE) (rule that)
  from L ld have "fa = f" by simp
  note X = Y [unfolded this]
  have "worker_message lim env2 runId workerId text2 sender2 d = (d2, Inr run2)"
    using wr d2 by (simp add: worker_message_def reads(2) r store_commit_def worker_save_def)
  moreover have "sf_runs (bounded lim g) = sf_runs g"
    using bound by (simp add: bounded_def X(7) put_run_def last_n_def)
  then have "findRun (sf_runs (bounded lim g)) runId = Inr run2"
    using find_put_run [OF X(1) X(9)] by (simp add: X(7))
  ultimately show ?thesis
    using X(1-6) load_committed [OF writes(2) [unfolded r] X(8), of env'] by blast
qed

theorem overlapping_messages_lose_one_witness:
  "\<exists>f1 f2 d1 d2 run1 run2 w2.
     message_read demo_wenv ''01234567890'' demo_workerId ''a'' FromPrime demo_disk = Inr (f1, run1)
     \<and> message_read demo_wenv ''01234567890'' demo_workerId ''b'' FromPrime demo_disk = Inr (f2, run2)
     \<and> store_commit demo_wlim demo_wenv (Inr (f1, run1)) demo_disk = (d1, Inr run1)
     \<and> store_commit demo_wlim demo_wenv (Inr (f2, run2)) d1 = (d2, Inr run2)
     \<and> findWorker run2 demo_workerId = Inr w2
     \<and> map am_text (filter unread (wk_inbox w2)) = [''b'']"
proof -
  let ?read = "\<lambda>t. message_read demo_wenv ''01234567890'' demo_workerId t FromPrime demo_disk"
  let ?load = "worker_load demo_wenv demo_disk"
  have c: "case ?read ''a'' of Inl e \<Rightarrow> False | Inr _ \<Rightarrow> True" "case ?read ''b'' of Inl e \<Rightarrow> False | Inr _ \<Rightarrow> True"
    by code_simp+
  have l: "case ?load of Inl e \<Rightarrow> False | Inr (f, n) \<Rightarrow> length (sf_runs f) \<le> 12
      \<and> (case findRun (sf_runs f) ''01234567890'' of Inl e \<Rightarrow> False | Inr run \<Rightarrow>
          (case findWorker run demo_workerId of Inl e \<Rightarrow> False | Inr w \<Rightarrow> wk_inbox w = []))"
    by code_simp
  from c obtain f1 run1 f2 run2 where r: "?read ''a'' = Inr (f1, run1)" "?read ''b'' = Inr (f2, run2)"
    by (auto split: sum.splits)
  from l obtain f n where ld: "?load = Inr (f, n)" by (auto split: sum.splits)
  with l have len: "length (sf_runs f) \<le> 12" by simp
  have w: "store_commit demo_wlim demo_wenv (Inr (g, run)) d = (fst (worker_save demo_wlim demo_wenv g d), Inr run)"
    for g run d by (simp add: store_commit_def worker_save_def demo_wenv_def)
  have t: "js_trim ''b'' = ''b''" by code_simp
  from overlapping_messages_lose_one [OF r w w ld, of demo_wenv] len
  obtain run w w2 m2 where "findRun (sf_runs f) ''01234567890'' = Inr run"
    "findWorker run demo_workerId = Inr w" "findWorker run2 demo_workerId = Inr w2" "am_text m2 = ''b''"
    "filter unread (wk_inbox w2) = filter unread (wk_inbox w) @ [m2]"
    by (auto simp: demo_wlim_def t)
  with l ld have z: "findWorker run2 demo_workerId = Inr w2" "map am_text (filter unread (wk_inbox w2)) = [''b'']"
    by simp_all
  show ?thesis by (intro exI conjI) (rule r(1), rule r(2), rule w, rule w, rule z(1), rule z(2))
qed

text \<open>
  Finishing a worker fences its alias off: every later write in its name is refused. The fence
  holds for the 200 most recently retired aliases and for no other: right after this call an
  alias is retired exactly when it is this one or among the last 199 before it.
\<close>

theorem finished_alias_fenced:
  assumes "worker_finish lim env runId workerId report failed d = (d', Inr run')"
    "worker_load env d = Inr (f, n)" "findRun (sf_runs f) runId = Inr run"
    "findWorker run workerId = Inr w" "wk_alias w = Some a" "a \<noteq> []"
  shows "assertAliasLive env' a d' = Inl (WorkerRetired a)
    \<and> worker_isRetired env' b d' = Inr (b = a \<or> b \<in> rt_alias ` set (last_n 199 (sf_retired f)))"
proof -
  let ?e = "\<lparr>rt_alias = a, rt_runId = runId, rt_workerId = workerId, rt_retiredAt = we_now env 0\<rparr>"
  let ?w = "w\<lparr>wk_state := (if failed then WFailed else WFinished),
     wk_result := Some (js_trim report), wk_lastSeenAt := we_now env 0\<rparr>"
  from assms obtain f' where wr: "we_writes env" and d': "d' = fst (worker_save lim env f' d)"
    and f': "f' = put_run run' (f\<lparr>sf_retired := sf_retired f @ [?e]\<rparr>)"
    and run': "wr_workers run' = wr_workers (put_worker ?w run)"
    unfolding worker_finish_def finish_read_def Let_def
    by (auto simp: bind_res_Inr_iff dest!: store_commit_InrD store_read_InrD split: if_splits)
  note ok = worker_load_ok [OF assms(2), THEN conjunct1]
  note fo = found_ok [OF ok assms(3,4)]
  have "worker_ok ?w" using fo(2) by (simp add: worker_ok_def)
  with fo(1) have "list_all worker_ok (wr_workers run')" unfolding run' by (rule put_worker_ok)
  with ok have "list_all (\<lambda>r. list_all worker_ok (wr_workers r)) (sf_runs f')"
    unfolding f' by (auto simp: store_ok_def intro: put_run_ok)
  note next_load = load_saved [OF this wr, of env' lim d, folded d']
  have ret: "sf_retired (bounded lim f') = last_n 199 (sf_retired f) @ [?e]"
    by (simp add: bounded_def f' put_run_def MAX_RETIRED_def last_n_def)
  have "\<forall>e \<in> set (last_n 199 (sf_retired f)). rt_alias e \<noteq> []"
    using ok last_n_subset [of 199 "sf_retired f"] by (auto simp: store_ok_def list_all_iff)
  with ret assms(6) have "filter (\<lambda>e. rt_alias e \<noteq> []) (sf_retired (bounded lim f'))
      = last_n 199 (sf_retired f) @ [?e]" by simp
  with next_load have "worker_isRetired env' b d' = Inr (b = a \<or> b \<in> rt_alias ` set (last_n 199 (sf_retired f)))"
    for b by (auto simp: worker_isRetired_def list_ex_iff)
  then show ?thesis by (simp add: assertAliasLive_def)
qed

theorem finished_alias_fenced_witness:
  "assertAliasLive demo_wenv ''a'' (fst (worker_finish demo_wlim demo_wenv ''01234567890'' demo_workerId
      ''done'' False demo_disk)) = Inl (WorkerRetired ''a'')"
proof -
  let ?r = "worker_finish demo_wlim demo_wenv ''01234567890'' demo_workerId ''done'' False demo_disk"
  have "case ?r of (d', Inr run') \<Rightarrow> True | (d', Inl e) \<Rightarrow> False" by code_simp
  then obtain d' run' where r: "?r = (d', Inr run')" by (auto split: prod.splits sum.splits)
  have c: "case worker_load demo_wenv demo_disk of Inl e \<Rightarrow> False | Inr x \<Rightarrow>
      (case findRun (sf_runs (fst x)) ''01234567890'' of Inl e \<Rightarrow> False | Inr run \<Rightarrow>
        (case findWorker run demo_workerId of Inl e \<Rightarrow> False | Inr w \<Rightarrow> wk_alias w = Some ''a''))"
    by code_simp
  obtain f n where l: "worker_load demo_wenv demo_disk = Inr (f, n)"
    using c by (cases "worker_load demo_wenv demo_disk") auto
  obtain run where run: "findRun (sf_runs f) ''01234567890'' = Inr run"
    using c l by (cases "findRun (sf_runs f) ''01234567890''") auto
  obtain w where "findWorker run demo_workerId = Inr w" "wk_alias w = Some ''a''"
    using c l run by (cases "findWorker run demo_workerId") auto
  from finished_alias_fenced [OF r l run this, of demo_wenv] r show ?thesis by simp
qed

text \<open>
  The number of runs is bounded by dropping the oldest, whatever its state: a run with active
  workers disappears when enough newer runs, parked or not, are in the file.
\<close>

lemma oldest_run_dropped:
  assumes "worker_spawn lim env p ctx specs d = (d', Inr run')" "worker_load env d = Inr (f, n)"
    "length (sf_runs f) = wm_maxParkedRuns lim + 8"
  shows "\<exists>f'. worker_load env' d' = Inr (f', 0) \<and> sf_runs f' = tl (sf_runs f) @ [run']"
proof -
  from assms(1,2) obtain workers where wr: "we_writes env"
    and d': "d' = fst (worker_save lim env (f\<lparr>sf_runs := sf_runs f @ [run']\<rparr>) d)"
    and ws: "spawn_workers env ctx (n + 1) specs [] = Inr workers" "wr_workers run' = workers"
    unfolding worker_spawn_def spawn_read_def Let_def
    by (auto simp: bind_res_Inr_iff dest!: store_commit_InrD store_read_InrD split: if_splits)
  have grow: "spawn_workers env ctx m sp ws0 = Inr ws1 \<Longrightarrow> list_all worker_ok ws0 \<Longrightarrow> list_all worker_ok ws1"
    for m sp ws0 ws1
    by (induction sp arbitrary: m ws0) (auto simp: Let_def worker_ok_def split: if_splits)
  have "list_all worker_ok (wr_workers run')" using grow [OF ws(1)] ws(2) by simp
  moreover note worker_load_ok [OF assms(2)]
  ultimately have "list_all (\<lambda>r. list_all worker_ok (wr_workers r))
      (sf_runs (f\<lparr>sf_runs := sf_runs f @ [run']\<rparr>))" by (simp add: store_ok_def)
  from load_saved [OF this wr, of env' lim d, folded d'] assms(3) show ?thesis
    by (cases "sf_runs f") (auto simp: bounded_def last_n_def)
qed

end
