(* ===== verification/Session_Events.thy ===== *)
theory Session_Events
  imports Path_Policy
begin

text \<open>
  \<open>src/src/continuity/session-event-store.ts\<close>, \<open>session-event-types.ts\<close> and the constraints of
  \<open>session-event-schema.ts\<close>: sessions of a project with their append-only event log, in SQLite.
  The two tables that are written are lists of rows; an insert or update checks the table's
  \<open>CHECK\<close> constraints, keys, references and triggers and otherwise fails. A transaction returns
  the new database or an error, and with an error nothing has changed. Identifiers and
  timestamps a call draws are its arguments. Strings hold one code unit per character.

  Shown: in every reachable database a session's row and its log agree; closing is decided by
  optimistic concurrency on the revision, and happens once; a client that follows the cursors
  reads every event once, whatever the page size.
\<close>

datatype session_error =
    SessInvalid
  | SessNotFound
  | SessAlreadyClosed
  | SessConflict
  | SessPolicy
  | SessLimit
  | SessConstraint
  | SessNotOpen

record session_row =
  sr_session_id :: string
  sr_project_id :: string
  sr_state :: string
  sr_revision :: int
  sr_next_seq :: int
  sr_active_binding_id :: "string option"
  sr_created_at :: string
  sr_updated_at :: string
  sr_closed_at :: "string option"

record event_row =
  ev_session_id :: string
  ev_seq :: int
  ev_kind :: string
  ev_actor :: string
  ev_correlation_id :: "string option"
  ev_metadata_json :: string
  ev_happened_at :: string

record session_db =
  sd_sessions :: "session_row list"
  sd_events :: "event_row list"
  sd_open :: bool

record session_view =
  sv_sessionId :: string
  sv_projectId :: string
  sv_active :: bool
  sv_revision :: int
  sv_nextSeq :: int
  sv_createdAt :: string
  sv_updatedAt :: string
  sv_closedAt :: "string option"

datatype event_kind = SessionStarted | SessionClosed

record session_event =
  se_sessionId :: string
  se_seq :: int
  se_kind :: event_kind
  se_happenedAt :: string

record event_page =
  ep_events :: "session_event list"
  ep_nextCursor :: int
  ep_hasMore :: bool

definition safe_int :: "int \<Rightarrow> bool" where
  "safe_int n \<longleftrightarrow> - (2 ^ 53 - 1) \<le> n \<and> n \<le> 2 ^ 53 - 1"

definition session_db_new :: session_db where
  "session_db_new = \<lparr>sd_sessions = [], sd_events = [], sd_open = True\<rparr>"

section \<open>Timestamps\<close>

text \<open>
  A string that \<open>new Date(s).toISOString()\<close> gives back: a valid instant of the years 0 to 9999 in
  the canonical form (other years, which have a sign and six digits, are left out).
\<close>

definition decimal :: "string \<Rightarrow> nat" where
  "decimal s = foldl (\<lambda>n c. 10 * n + (of_char c - 48)) 0 s"

definition days_of_month :: "nat \<Rightarrow> nat \<Rightarrow> nat" where
  "days_of_month y m =
     (if m = 2 then (if y mod 4 = 0 \<and> (y mod 100 \<noteq> 0 \<or> y mod 400 = 0) then 29 else 28)
      else if m \<in> {4, 6, 9, 11} then 30 else 31)"

definition iso_timestamp :: "string \<Rightarrow> bool" where
  "iso_timestamp s \<longleftrightarrow> length s = 24
     \<and> (\<forall>i \<in> set [0..<24].
          if i = 4 \<or> i = 7 then s ! i = CHR ''-''
          else if i = 10 then s ! i = CHR ''T''
          else if i = 13 \<or> i = 16 then s ! i = CHR '':''
          else if i = 19 then s ! i = CHR ''.''
          else if i = 23 then s ! i = CHR ''Z''
          else s ! i \<in> set ''0123456789'')
     \<and> (let y = decimal (take 4 s); m = decimal (take 2 (drop 5 s)); d = decimal (take 2 (drop 8 s))
        in 1 \<le> m \<and> m \<le> 12 \<and> 1 \<le> d \<and> d \<le> days_of_month y m)
     \<and> decimal (take 2 (drop 11 s)) \<le> 23 \<and> decimal (take 2 (drop 14 s)) \<le> 59
     \<and> decimal (take 2 (drop 17 s)) \<le> 59"

section \<open>The constraints of the schema\<close>

definition session_check :: "session_row \<Rightarrow> bool" where
  "session_check r \<longleftrightarrow> 1 \<le> length (sr_project_id r) \<and> length (sr_project_id r) \<le> 256
     \<and> (sr_state r = ''active'' \<or> sr_state r = ''closed'')
     \<and> 1 \<le> sr_revision r \<and> 1 \<le> sr_next_seq r \<and> sr_active_binding_id r = None
     \<and> (sr_state r = ''active'' \<and> sr_closed_at r = None \<or> sr_state r = ''closed'' \<and> sr_closed_at r \<noteq> None)"

definition insert_session :: "session_row \<Rightarrow> session_db \<Rightarrow> session_error + session_db" where
  "insert_session r db =
     (if \<not> session_check r then Inl SessConstraint
      else if sr_session_id r \<in> sr_session_id ` set (sd_sessions db) then Inl SessConstraint
      else Inr (db\<lparr>sd_sessions := sd_sessions db @ [r]\<rparr>))"

text \<open>
  \<open>UPDATE sessions SET ... WHERE p\<close>: every row that satisfies \<open>p\<close>, all or none; with the number of
  rows changed. (The trigger on \<open>project_id\<close> does not fire: no update of the program names that
  column.)
\<close>

definition update_sessions ::
  "(session_row \<Rightarrow> bool) \<Rightarrow> (session_row \<Rightarrow> session_row) \<Rightarrow> session_db
    \<Rightarrow> session_error + (session_db \<times> nat)" where
  "update_sessions p f db =
     (if list_ex (\<lambda>r. p r \<and> \<not> session_check (f r)) (sd_sessions db) then Inl SessConstraint
      else Inr (db\<lparr>sd_sessions := map (\<lambda>r. if p r then f r else r) (sd_sessions db)\<rparr>,
                length (filter p (sd_sessions db))))"

definition event_check :: "event_row \<Rightarrow> bool" where
  "event_check e \<longleftrightarrow> 1 \<le> ev_seq e \<and> (ev_kind e = ''session.started'' \<or> ev_kind e = ''session.closed'')
     \<and> ev_actor e = ''system'' \<and> ev_correlation_id e = None \<and> ev_metadata_json e = ''{}''"

definition events_of :: "string \<Rightarrow> session_db \<Rightarrow> event_row list" where
  "events_of i db = filter (\<lambda>e. ev_session_id e = i) (sd_events db)"

definition max_seq :: "string \<Rightarrow> session_db \<Rightarrow> int" where
  "max_seq i db = fold max (map ev_seq (events_of i db)) 0"

definition insert_event :: "event_row \<Rightarrow> session_db \<Rightarrow> session_error + session_db" where
  "insert_event e db =
     (if ev_seq e \<noteq> max_seq (ev_session_id e) db + 1 then Inl SessConstraint
      else if \<not> event_check e then Inl SessConstraint
      else if ev_session_id e \<notin> sr_session_id ` set (sd_sessions db) then Inl SessConstraint
      else Inr (db\<lparr>sd_events := sd_events db @ [e]\<rparr>))"

section \<open>Opening\<close>

datatype stat_info = StatMissing | StatFails | StatInfo bool bool nat

text \<open>
  \<open>privateParent\<close>: the walk from the directory to the root. \<open>StatInfo dir link mode\<close> is what \<open>lstat\<close>
  finds; \<open>shared\<close> is \<open>mode & 0o077\<close> not being zero. The result is the list of directories to make.
\<close>

definition shared :: "nat \<Rightarrow> bool" where
  "shared mode \<longleftrightarrow> mode mod 64 \<noteq> 0"

function private_walk ::
  "(abspath \<Rightarrow> stat_info) \<Rightarrow> abspath \<Rightarrow> abspath list \<Rightarrow> bool \<Rightarrow> session_error + abspath list" where
  "private_walk st candidate missing found =
     (let up = (\<lambda>missing found.
            if candidate = [] then (if found then Inr missing else Inl SessInvalid)
            else private_walk st (butlast candidate) missing found)
      in case st candidate of
           StatFails \<Rightarrow> Inl SessInvalid
         | StatMissing \<Rightarrow> up (candidate # missing) found
         | StatInfo dir link mode \<Rightarrow>
             if \<not> dir \<or> link then Inl SessInvalid
             else if shared mode then (if \<not> found then Inl SessInvalid else Inr missing)
             else up missing True)"
  by pat_completeness auto
termination by (relation "measure (\<lambda>(st, candidate, missing, found). length candidate)") auto

declare private_walk.simps [simp del]

definition privateParent ::
  "(abspath \<Rightarrow> stat_info) \<Rightarrow> (abspath \<Rightarrow> bool) \<Rightarrow> abspath \<Rightarrow> session_error + abspath list" where
  "privateParent st mkdir_private directory =
     bind_res (private_walk st directory [] False) (\<lambda>missing.
       if list_all mkdir_private missing then Inr missing else Inl SessInvalid)"

text \<open>What the constructor accepts as an existing database file: its kind, mode and size.\<close>

datatype prior_file = PriorMissing | PriorFails | Prior bool bool nat nat

definition prior_ok :: "prior_file \<Rightarrow> session_error + bool" where
  "prior_ok prior =
     (case prior of
        PriorFails \<Rightarrow> Inl SessInvalid
      | PriorMissing \<Rightarrow> Inr True
      | Prior file link mode bytes \<Rightarrow>
          if \<not> file \<or> link \<or> shared mode \<or> bytes = 0 then Inl SessInvalid else Inr False)"

section \<open>Operations\<close>

definition project_id_ok :: "string \<Rightarrow> session_error + string" where
  "project_id_ok value =
     (if js_trim value = [] \<or> CHR 0x00 \<in> set value \<or> js_byteLength value > 256
      then Inl SessPolicy else Inr value)"

definition session_view_of :: "session_row \<Rightarrow> session_error + session_view" where
  "session_view_of r =
     (if (sr_state r \<noteq> ''active'' \<and> sr_state r \<noteq> ''closed'')
         \<or> \<not> safe_int (sr_revision r) \<or> sr_revision r < 1
         \<or> \<not> safe_int (sr_next_seq r) \<or> sr_next_seq r < 2
         \<or> sr_active_binding_id r \<noteq> None
         \<or> (sr_state r = ''closed'') \<noteq> (sr_closed_at r \<noteq> None)
      then Inl SessInvalid
      else Inr \<lparr>sv_sessionId = sr_session_id r, sv_projectId = sr_project_id r,
        sv_active = (sr_state r = ''active''), sv_revision = sr_revision r, sv_nextSeq = sr_next_seq r,
        sv_createdAt = sr_created_at r, sv_updatedAt = sr_updated_at r, sv_closedAt = sr_closed_at r\<rparr>)"

definition select_session :: "string \<Rightarrow> string \<Rightarrow> session_db \<Rightarrow> session_row option" where
  "select_session i projectId db =
     find (\<lambda>r. sr_session_id r = i \<and> sr_project_id r = projectId) (sd_sessions db)"

definition getSession :: "string \<Rightarrow> string \<Rightarrow> session_db \<Rightarrow> session_error + session_view" where
  "getSession i verifiedProjectId db =
     bind_res (project_id_ok verifiedProjectId) (\<lambda>projectId.
       if \<not> sd_open db then Inl SessNotOpen
       else (case select_session i projectId db of
               None \<Rightarrow> Inl SessNotFound
             | Some row \<Rightarrow> session_view_of row))"

definition createSession ::
  "string \<Rightarrow> string \<Rightarrow> string \<Rightarrow> session_db \<Rightarrow> session_error + (session_db \<times> session_view)" where
  "createSession sessionId timestamp verifiedProjectId db =
     bind_res (project_id_ok verifiedProjectId) (\<lambda>projectId.
       if \<not> sd_open db then Inl SessNotOpen
       else
         bind_res (insert_session \<lparr>sr_session_id = sessionId, sr_project_id = projectId,
             sr_state = ''active'', sr_revision = 1, sr_next_seq = 1, sr_active_binding_id = None,
             sr_created_at = timestamp, sr_updated_at = timestamp, sr_closed_at = None\<rparr> db) (\<lambda>db1.
         bind_res (insert_event \<lparr>ev_session_id = sessionId, ev_seq = 1, ev_kind = ''session.started'',
             ev_actor = ''system'', ev_correlation_id = None, ev_metadata_json = ''{}'',
             ev_happened_at = timestamp\<rparr> db1) (\<lambda>db2.
         bind_res (update_sessions (\<lambda>r. sr_session_id r = sessionId) (\<lambda>r. r\<lparr>sr_next_seq := 2\<rparr>) db2)
           (\<lambda>(db3, _).
         bind_res (getSession sessionId projectId db3) (\<lambda>view. Inr (db3, view))))))"

definition closeSession ::
  "string \<Rightarrow> string \<Rightarrow> string \<Rightarrow> int \<Rightarrow> session_db \<Rightarrow> session_error + (session_db \<times> session_view)" where
  "closeSession timestamp sessionId verifiedProjectId expectedRevision db =
     bind_res (project_id_ok verifiedProjectId) (\<lambda>projectId.
       if \<not> safe_int expectedRevision \<or> expectedRevision < 1 then Inl SessPolicy
       else if \<not> sd_open db then Inl SessNotOpen
       else (case select_session sessionId projectId db of
           None \<Rightarrow> Inl SessNotFound
         | Some row \<Rightarrow>
             if sr_revision row \<noteq> expectedRevision then Inl SessConflict
             else if sr_state row \<noteq> ''active'' then Inl SessAlreadyClosed
             else
               bind_res (update_sessions
                   (\<lambda>r. sr_session_id r = sessionId \<and> sr_project_id r = projectId
                      \<and> sr_revision r = expectedRevision \<and> sr_state r = ''active'')
                   (\<lambda>r. r\<lparr>sr_state := ''closed'', sr_revision := sr_revision r + 1,
                      sr_next_seq := sr_next_seq r + 1, sr_updated_at := timestamp,
                      sr_closed_at := Some timestamp\<rparr>) db) (\<lambda>(db1, changes).
               if changes \<noteq> 1 then Inl SessConflict
               else bind_res (insert_event \<lparr>ev_session_id = sessionId, ev_seq = sr_next_seq row,
                   ev_kind = ''session.closed'', ev_actor = ''system'', ev_correlation_id = None,
                   ev_metadata_json = ''{}'', ev_happened_at = timestamp\<rparr> db1) (\<lambda>db2.
                 bind_res (getSession sessionId projectId db2) (\<lambda>view. Inr (db2, view))))))"

definition parseStoredSessionEvent :: "event_row \<Rightarrow> session_error + session_event" where
  "parseStoredSessionEvent row =
     (if \<not> uuid_v4 (ev_session_id row) \<or> \<not> safe_int (ev_seq row) \<or> ev_seq row < 1
         \<or> (ev_kind row \<noteq> ''session.started'' \<and> ev_kind row \<noteq> ''session.closed'')
         \<or> ev_actor row \<noteq> ''system'' \<or> ev_correlation_id row \<noteq> None \<or> ev_metadata_json row \<noteq> ''{}''
         \<or> \<not> iso_timestamp (ev_happened_at row)
      then Inl SessInvalid
      else Inr \<lparr>se_sessionId = ev_session_id row, se_seq = ev_seq row,
        se_kind = (if ev_kind row = ''session.started'' then SessionStarted else SessionClosed),
        se_happenedAt = ev_happened_at row\<rparr>)"

definition listEvents ::
  "string \<Rightarrow> string \<Rightarrow> int \<Rightarrow> int \<Rightarrow> session_db \<Rightarrow> session_error + event_page" where
  "listEvents sessionId verifiedProjectId afterSeq limit db =
     (if \<not> safe_int afterSeq \<or> afterSeq < 0 then Inl SessPolicy
      else if \<not> safe_int limit \<or> limit < 1 \<or> limit > 100 then Inl SessLimit
      else bind_res (getSession sessionId verifiedProjectId db) (\<lambda>_.
        let rows = take (nat (limit + 1))
              (sort_key ev_seq (filter (\<lambda>e. ev_seq e > afterSeq) (events_of sessionId db)))
        in bind_res (map_res parseStoredSessionEvent rows) (\<lambda>parsed.
             let events = take (nat limit) parsed
             in Inr \<lparr>ep_events = events,
                  ep_nextCursor = (if events = [] then afterSeq else se_seq (last events)),
                  ep_hasMore = (int (length parsed) > limit)\<rparr>)))"

definition session_store_close :: "session_db \<Rightarrow> session_db" where
  "session_store_close db = db\<lparr>sd_open := False\<rparr>"

text \<open>The calls, with what \<open>randomUUID\<close> and \<open>toISOString\<close> guarantee.\<close>

inductive session_step :: "session_db \<Rightarrow> session_db \<Rightarrow> bool" where
  ss_create: "uuid_v4 i \<Longrightarrow> iso_timestamp t \<Longrightarrow> createSession i t p db = Inr (db', v) \<Longrightarrow> session_step db db'"
| ss_close: "iso_timestamp t \<Longrightarrow> closeSession t i p n db = Inr (db', v) \<Longrightarrow> session_step db db'"
| ss_shut: "session_step db (session_store_close db)"

inductive session_reachable :: "session_db \<Rightarrow> bool" where
  sn_new: "session_reachable session_db_new"
| sn_step: "session_reachable db \<Longrightarrow> session_step db db' \<Longrightarrow> session_reachable db'"

section \<open>The log of a session\<close>

definition started_event :: "string \<Rightarrow> string \<Rightarrow> event_row" where
  "started_event i t = \<lparr>ev_session_id = i, ev_seq = 1, ev_kind = ''session.started'', ev_actor = ''system'',
     ev_correlation_id = None, ev_metadata_json = ''{}'', ev_happened_at = t\<rparr>"

definition closed_event :: "string \<Rightarrow> string \<Rightarrow> event_row" where
  "closed_event i t = \<lparr>ev_session_id = i, ev_seq = 2, ev_kind = ''session.closed'', ev_actor = ''system'',
     ev_correlation_id = None, ev_metadata_json = ''{}'', ev_happened_at = t\<rparr>"

definition row_ok :: "event_row list \<Rightarrow> session_row \<Rightarrow> bool" where
  "row_ok es r \<longleftrightarrow> uuid_v4 (sr_session_id r) \<and> sr_active_binding_id r = None
     \<and> (\<exists>t1 t2. iso_timestamp t1 \<and> iso_timestamp t2 \<and>
          (sr_state r = ''active'' \<and> sr_revision r = 1 \<and> sr_next_seq r = 2 \<and> sr_closed_at r = None
             \<and> filter (\<lambda>e. ev_session_id e = sr_session_id r) es = [started_event (sr_session_id r) t1]
           \<or> sr_state r = ''closed'' \<and> sr_revision r = 2 \<and> sr_next_seq r = 3 \<and> sr_closed_at r = Some t2
             \<and> filter (\<lambda>e. ev_session_id e = sr_session_id r) es
                 = [started_event (sr_session_id r) t1, closed_event (sr_session_id r) t2]))"

definition session_inv :: "session_db \<Rightarrow> bool" where
  "session_inv db \<longleftrightarrow> distinct (map sr_session_id (sd_sessions db))
     \<and> ev_session_id ` set (sd_events db) \<subseteq> sr_session_id ` set (sd_sessions db)
     \<and> (\<forall>r \<in> set (sd_sessions db). row_ok (sd_events db) r)"

lemma row_ok_other: "ev_session_id e \<noteq> sr_session_id r \<Longrightarrow> row_ok (es @ [e]) r = row_ok es r"
  by (simp add: row_ok_def)

lemma map_fresh_id:
  "i \<notin> sr_session_id ` set rs \<Longrightarrow> map (\<lambda>r. if sr_session_id r = i then f r else r) rs = rs"
  by (induction rs) auto

lemma createSession_elim:
  assumes "createSession i t p db = Inr (db', v)"
  shows "i \<notin> sr_session_id ` set (sd_sessions db) \<and> sd_open db
    \<and> db' = db\<lparr>sd_sessions := sd_sessions db @ [\<lparr>sr_session_id = i, sr_project_id = p,
             sr_state = ''active'', sr_revision = 1, sr_next_seq = 2, sr_active_binding_id = None,
             sr_created_at = t, sr_updated_at = t, sr_closed_at = None\<rparr>],
          sd_events := sd_events db @ [started_event i t]\<rparr>
    \<and> getSession i p db' = Inr v"
proof -
  have "i \<notin> sr_session_id ` set (sd_sessions db)"
    using assms by (auto simp: createSession_def bind_res_Inr_iff insert_session_def split: if_splits)
  with assms show ?thesis
    by (auto simp: createSession_def bind_res_Inr_iff insert_session_def insert_event_def
        update_sessions_def project_id_ok_def started_event_def map_fresh_id split: if_splits)
qed

lemma closeSession_elim:
  assumes "closeSession t i p n db = Inr (db', v)"
  shows "\<exists>row. select_session i p db = Some row \<and> sr_revision row = n \<and> sr_state row = ''active'' \<and> sd_open db
    \<and> db' = db\<lparr>sd_sessions := map (\<lambda>r. if sr_session_id r = i \<and> sr_project_id r = p
             \<and> sr_revision r = n \<and> sr_state r = ''active''
           then r\<lparr>sr_state := ''closed'', sr_revision := sr_revision r + 1, sr_next_seq := sr_next_seq r + 1,
                  sr_updated_at := t, sr_closed_at := Some t\<rparr> else r) (sd_sessions db),
          sd_events := sd_events db @ [(closed_event i t)\<lparr>ev_seq := sr_next_seq row\<rparr>]\<rparr>
    \<and> getSession i p db' = Inr v"
  using assms
  by (auto simp: closeSession_def bind_res_Inr_iff insert_event_def update_sessions_def project_id_ok_def
      closed_event_def split: if_splits option.splits)

lemma select_sessionD:
  "select_session i p db = Some r \<Longrightarrow> r \<in> set (sd_sessions db) \<and> sr_session_id r = i \<and> sr_project_id r = p"
  by (auto simp: select_session_def find_Some_iff)

lemma create_inv:
  assumes "session_inv db" "uuid_v4 i" "iso_timestamp t" "createSession i t p db = Inr (db', v)"
  shows "session_inv db'"
proof -
  note e = createSession_elim [OF assms(4)]
  have none: "filter (\<lambda>e. ev_session_id e = i) (sd_events db) = []"
    using assms(1) e by (auto simp: session_inv_def filter_empty_conv)
  have old: "row_ok (sd_events db @ [started_event i t]) r" if "r \<in> set (sd_sessions db)" for r
  proof -
    have "sr_session_id r \<noteq> i" using e that by auto
    then show ?thesis using assms(1) that
      by (subst row_ok_other) (auto simp: session_inv_def started_event_def)
  qed
  from e assms(1) old none assms(2,3) show ?thesis
    by (auto simp: session_inv_def row_ok_def [of _ "\<lparr>sr_session_id = i, sr_project_id = p,
             sr_state = ''active'', sr_revision = 1, sr_next_seq = 2, sr_active_binding_id = None,
             sr_created_at = t, sr_updated_at = t, sr_closed_at = None\<rparr>"] started_event_def)
qed

lemma close_inv:
  assumes "session_inv db" "iso_timestamp t" "closeSession t i p n db = Inr (db', v)"
  shows "session_inv db'"
proof -
  from closeSession_elim [OF assms(3)] obtain row where
    sel: "select_session i p db = Some row" and row: "sr_revision row = n" "sr_state row = ''active''"
    and db': "db' = db\<lparr>sd_sessions := map (\<lambda>r. if sr_session_id r = i \<and> sr_project_id r = p
             \<and> sr_revision r = n \<and> sr_state r = ''active''
           then r\<lparr>sr_state := ''closed'', sr_revision := sr_revision r + 1, sr_next_seq := sr_next_seq r + 1,
                  sr_updated_at := t, sr_closed_at := Some t\<rparr> else r) (sd_sessions db),
          sd_events := sd_events db @ [(closed_event i t)\<lparr>ev_seq := sr_next_seq row\<rparr>]\<rparr>"
    by blast
  note m = select_sessionD [OF sel]
  have ok: "row_ok (sd_events db) r" if "r \<in> set (sd_sessions db)" for r
    using assms(1) that by (auto simp: session_inv_def)
  have uniq: "r = row" if "r \<in> set (sd_sessions db)" "sr_session_id r = i" for r
    using assms(1) that m by (auto simp: session_inv_def distinct_map dest: inj_onD)
  have seq: "sr_next_seq row = 2" using ok [of row] m row by (auto simp: row_ok_def)
  then have ev: "(closed_event i t)\<lparr>ev_seq := sr_next_seq row\<rparr> = closed_event i t"
    by (simp add: closed_event_def)
  have new: "row_ok (sd_events db @ [closed_event i t])
      (row\<lparr>sr_state := ''closed'', sr_revision := sr_revision row + 1, sr_next_seq := sr_next_seq row + 1,
        sr_updated_at := t, sr_closed_at := Some t\<rparr>)"
    using ok [of row] m row assms(2) by (auto simp: row_ok_def closed_event_def)
  have "row_ok (sd_events db @ [closed_event i t]) r"
    if "r \<in> set (sd_sessions db)" "sr_session_id r \<noteq> i" for r
    using that ok by (subst row_ok_other) (auto simp: closed_event_def)
  with new uniq m row have rows: "\<forall>r \<in> set (sd_sessions db'). row_ok (sd_events db') r"
    unfolding db' ev by auto
  have ids: "map sr_session_id (sd_sessions db') = map sr_session_id (sd_sessions db)"
    unfolding db' by simp
  then have idset: "sr_session_id ` set (sd_sessions db') = sr_session_id ` set (sd_sessions db)"
    by (metis set_map)
  have es: "sd_events db' = sd_events db @ [closed_event i t]" unfolding db' ev by simp
  have "i \<in> sr_session_id ` set (sd_sessions db)" using m by auto
  then have "ev_session_id ` set (sd_events db') \<subseteq> sr_session_id ` set (sd_sessions db)"
    using assms(1) by (simp add: es session_inv_def closed_event_def)
  with ids idset rows assms(1) show ?thesis by (simp add: session_inv_def)
qed

lemma session_reachable_inv: "session_reachable db \<Longrightarrow> session_inv db"
proof (induction rule: session_reachable.induct)
  case sn_new
  then show ?case by (simp add: session_db_new_def session_inv_def)
next
  case (sn_step db db')
  from sn_step.hyps(2) show ?case
  proof cases
    case (ss_create i t p v)
    then show ?thesis using sn_step.IH by (blast intro: create_inv)
  next
    case (ss_close t i p n v)
    then show ?thesis using sn_step.IH by (blast intro: close_inv)
  next
    case ss_shut
    then show ?thesis using sn_step.IH by (simp add: session_store_close_def session_inv_def)
  qed
qed

lemma parse_started:
  "uuid_v4 i \<Longrightarrow> iso_timestamp t \<Longrightarrow> parseStoredSessionEvent (started_event i t)
    = Inr \<lparr>se_sessionId = i, se_seq = 1, se_kind = SessionStarted, se_happenedAt = t\<rparr>"
  by (simp add: parseStoredSessionEvent_def started_event_def safe_int_def)

lemma parse_closed:
  "uuid_v4 i \<Longrightarrow> iso_timestamp t \<Longrightarrow> parseStoredSessionEvent (closed_event i t)
    = Inr \<lparr>se_sessionId = i, se_seq = 2, se_kind = SessionClosed, se_happenedAt = t\<rparr>"
  by (simp add: parseStoredSessionEvent_def closed_event_def safe_int_def)

lemma getSessionD:
  assumes "getSession i p db = Inr v"
  shows "\<exists>r. select_session i p db = Some r \<and> session_view_of r = Inr v \<and> sd_open db"
  using assms
  by (auto simp: getSession_def bind_res_Inr_iff project_id_ok_def split: if_splits option.splits)

text \<open>
  C15: A session and its log never disagree: in every database that creating and closing sessions
  can produce, listing the events of a session that can be read gives, on one page, numbers
  1 to its revision without a gap, started first, closed second exactly when the session is
  closed and then at the time it records; its next sequence number is the one after the last.
\<close>

theorem session_log_agrees:
  assumes "session_reachable db" "getSession i p db = Inr v"
  shows "\<exists>page. listEvents i p 0 100 db = Inr page \<and> \<not> ep_hasMore page
    \<and> map se_seq (ep_events page) = [1..sv_revision v]
    \<and> map se_kind (ep_events page) = (if sv_active v then [SessionStarted] else [SessionStarted, SessionClosed])
    \<and> sv_closedAt v = (if sv_active v then None else Some (se_happenedAt (last (ep_events page))))
    \<and> ep_nextCursor page = sv_nextSeq v - 1"
proof -
  from getSessionD [OF assms(2)] obtain r where r: "select_session i p db = Some r" "session_view_of r = Inr v"
    by blast
  note m = select_sessionD [OF r(1)]
  from session_reachable_inv [OF assms(1)] m have ok: "row_ok (sd_events db) r" by (auto simp: session_inv_def)
  then have u: "uuid_v4 i" using m by (simp add: row_ok_def)
  from ok m obtain t1 t2 where t: "iso_timestamp t1" "iso_timestamp t2" and
    c: "sr_state r = ''active'' \<and> sr_revision r = 1 \<and> sr_next_seq r = 2 \<and> sr_closed_at r = None
             \<and> events_of i db = [started_event i t1]
           \<or> sr_state r = ''closed'' \<and> sr_revision r = 2 \<and> sr_next_seq r = 3 \<and> sr_closed_at r = Some t2
             \<and> events_of i db = [started_event i t1, closed_event i t2]"
    by (auto simp: row_ok_def events_of_def)
  have v: "sv_active v = (sr_state r = ''active'')" "sv_revision v = sr_revision r"
    "sv_nextSeq v = sr_next_seq r" "sv_closedAt v = sr_closed_at r"
    using r(2) by (auto simp: session_view_of_def split: if_splits)
  have seqs: "ev_seq (started_event i t1) = 1" "ev_seq (closed_event i t2) = 2"
    by (simp_all add: started_event_def closed_event_def)
  from c show ?thesis
    by (elim disjE) (simp_all add: listEvents_def assms(2) safe_int_def v seqs parse_started parse_closed u t
        upto_rec1)
qed

definition demo_uuid :: string where "demo_uuid = ''01234567-89ab-4cde-8f01-23456789abcd''"
definition demo_time :: string where "demo_time = ''2024-02-29T12:00:00.000Z''"

definition demo_session :: session_db where
  "demo_session = (case createSession demo_uuid demo_time ''p'' session_db_new of
     Inr (db, v) \<Rightarrow> db | Inl e \<Rightarrow> session_db_new)"

lemma demo_ok: "uuid_v4 demo_uuid" "iso_timestamp demo_time" by code_simp+

lemma demo_created: "\<exists>v. createSession demo_uuid demo_time ''p'' session_db_new = Inr (demo_session, v)"
proof -
  have "case createSession demo_uuid demo_time ''p'' session_db_new of Inr x \<Rightarrow> True | Inl e \<Rightarrow> False"
    by code_simp
  then show ?thesis by (auto simp: demo_session_def split: sum.splits)
qed

lemma demo_session_reachable: "session_reachable demo_session"
  using demo_created by (blast intro: sn_new sn_step ss_create demo_ok)

lemma demo_readable: "\<exists>v. getSession demo_uuid ''p'' demo_session = Inr v"
  using demo_created createSession_elim by blast

theorem session_log_agrees_witness:
  "\<exists>v page. getSession demo_uuid ''p'' demo_session = Inr v
    \<and> listEvents demo_uuid ''p'' 0 100 demo_session = Inr page \<and> map se_seq (ep_events page) = [1..sv_revision v]"
proof -
  obtain v where v: "getSession demo_uuid ''p'' demo_session = Inr v" using demo_readable by blast
  from session_log_agrees [OF demo_session_reachable v] obtain page where
    "listEvents demo_uuid ''p'' 0 100 demo_session = Inr page" "map se_seq (ep_events page) = [1..sv_revision v]"
    by (elim exE conjE)
  with v show ?thesis by (intro exI conjI)
qed

section \<open>Closing\<close>

lemma find_unique:
  assumes "r \<in> set rs" "P r" "\<And>x. x \<in> set rs \<Longrightarrow> P x \<Longrightarrow> x = r"
  shows "find P rs = Some r"
  using assms
proof (induction rs)
  case (Cons x xs)
  show ?case
  proof (cases "P x")
    case True
    then have "x = r" using Cons.prems(3) by simp
    with True show ?thesis by simp
  next
    case False
    with Cons.prems(1,2) have "r \<in> set xs" by auto
    then have "find P xs = Some r" by (rule Cons.IH [OF _ Cons.prems(2)]) (simp add: Cons.prems(3))
    with False show ?thesis by simp
  qed
qed simp

lemma find_map_eq: "(\<And>r. f r = r \<or> \<not> P r \<and> \<not> P (f r)) \<Longrightarrow> find P (map f rs) = find P rs"
  by (induction rs) (simp, metis find.simps(2) list.map(2))

text \<open>
  A session is closed once. When a close with revision \<open>n\<close> succeeds the session is at revision
  \<open>n + 1\<close> and not active; a second close that read the same revision loses with a conflict, one
  that has reread is told that the session is closed; and what other sessions show does not
  change.
\<close>

theorem session_closed_once:
  assumes "session_reachable db" "closeSession t i p n db = Inr (db', v)" "j \<noteq> i"
  shows "\<not> sv_active v \<and> sv_revision v = n + 1
    \<and> closeSession t' i p n db' = Inl SessConflict
    \<and> closeSession t' i p (n + 1) db' = Inl SessAlreadyClosed
    \<and> getSession j q db' = getSession j q db \<and> listEvents j q a l db' = listEvents j q a l db"
proof -
  from closeSession_elim [OF assms(2)] obtain row where
    sel: "select_session i p db = Some row" and row: "sr_revision row = n" "sr_state row = ''active''"
    and op: "sd_open db"
    and db': "db' = db\<lparr>sd_sessions := map (\<lambda>r. if sr_session_id r = i \<and> sr_project_id r = p
             \<and> sr_revision r = n \<and> sr_state r = ''active''
           then r\<lparr>sr_state := ''closed'', sr_revision := sr_revision r + 1, sr_next_seq := sr_next_seq r + 1,
                  sr_updated_at := t, sr_closed_at := Some t\<rparr> else r) (sd_sessions db),
          sd_events := sd_events db @ [(closed_event i t)\<lparr>ev_seq := sr_next_seq row\<rparr>]\<rparr>"
    and get: "getSession i p db' = Inr v"
    by blast
  let ?r = "row\<lparr>sr_state := ''closed'', sr_revision := sr_revision row + 1, sr_next_seq := sr_next_seq row + 1,
     sr_updated_at := t, sr_closed_at := Some t\<rparr>"
  note m = select_sessionD [OF sel]
  note inv = session_reachable_inv [OF assms(1)]
  from m inv have "row_ok (sd_events db) row" by (auto simp: session_inv_def)
  with row have n: "n = 1" by (auto simp: row_ok_def)
  have uniq: "x = row" if "x \<in> set (sd_sessions db)" "sr_session_id x = i" for x
    using inv that m by (auto simp: session_inv_def distinct_map dest: inj_onD)
  have sel': "select_session i p db' = Some ?r"
    unfolding select_session_def
  proof (rule find_unique)
    show "?r \<in> set (sd_sessions db')" using m row by (force simp: db')
  qed (use m row uniq in \<open>auto simp: db' split: if_splits\<close>)
  have pid: "project_id_ok p = Inr p"
    using get by (auto simp: getSession_def bind_res_Inr_iff project_id_ok_def split: if_splits)
  have v: "\<not> sv_active v \<and> sv_revision v = n + 1"
    using get sel' row by (auto simp: getSession_def pid session_view_of_def split: if_splits)
  have other: "select_session j x db' = select_session j x db" for x
    using assms(3) by (simp add: select_session_def db') (rule find_map_eq; simp)
  have opn: "sd_open db' = sd_open db" by (simp add: db')
  have g: "getSession j q db' = getSession j q db" by (simp only: getSession_def other opn)
  have "events_of j db' = events_of j db" using assms(3) by (simp add: events_of_def db' closed_event_def)
  with g have "listEvents j q a l db' = listEvents j q a l db" by (simp add: listEvents_def)
  with v g sel' row n op show ?thesis
    by (simp add: closeSession_def pid db' safe_int_def)
qed

theorem session_closed_once_witness:
  "case closeSession demo_time demo_uuid ''p'' 1 demo_session of Inl e \<Rightarrow> False
   | Inr (db', v) \<Rightarrow> sv_revision v = 2 \<and> closeSession demo_time demo_uuid ''p'' 1 db' = Inl SessConflict"
proof -
  have "case closeSession demo_time demo_uuid ''p'' 1 demo_session of Inr x \<Rightarrow> True | Inl e \<Rightarrow> False"
    by code_simp
  then obtain db' v where c: "closeSession demo_time demo_uuid ''p'' 1 demo_session = Inr (db', v)"
    by (auto split: sum.splits)
  have "''x'' \<noteq> demo_uuid" by code_simp
  from session_closed_once [OF demo_session_reachable c this] c show ?thesis by simp
qed

section \<open>Pages\<close>

text \<open>A client that asks for pages until there are no more, at most \<open>k\<close> of them.\<close>

fun follow_pages ::
  "nat \<Rightarrow> string \<Rightarrow> string \<Rightarrow> int \<Rightarrow> int \<Rightarrow> session_db \<Rightarrow> session_error + session_event list" where
  "follow_pages 0 i p after limit db = Inl SessLimit"
| "follow_pages (Suc k) i p after limit db =
     bind_res (listEvents i p after limit db) (\<lambda>page.
       if ep_hasMore page
       then bind_res (follow_pages k i p (ep_nextCursor page) limit db) (\<lambda>es. Inr (ep_events page @ es))
       else Inr (ep_events page))"

lemma map_res_take: "map_res f xs = Inr ys \<Longrightarrow> map_res f (take n xs) = Inr (take n ys)"
proof (induction xs arbitrary: ys n)
  case (Cons x xs)
  then show ?case by (cases n) (auto simp: bind_res_Inr_iff)
qed simp

lemma map_res_filter:
  assumes "map_res f xs = Inr ys" "\<And>x y. f x = Inr y \<Longrightarrow> Q y = P x"
  shows "map_res f (filter P xs) = Inr (filter Q ys)"
  using assms by (induction xs arbitrary: ys) (auto simp: bind_res_Inr_iff)

lemma parse_seq: "parseStoredSessionEvent r = Inr e \<Longrightarrow> se_seq e = ev_seq r \<and> safe_int (se_seq e) \<and> 1 \<le> se_seq e"
  by (auto simp: parseStoredSessionEvent_def split: if_splits)

lemma filter_after_nth:
  fixes f :: "'a \<Rightarrow> int"
  assumes "sorted_wrt (\<lambda>x y. f x < f y) xs" "k < length xs"
  shows "filter (\<lambda>x. f (xs ! k) < f x) xs = drop (Suc k) xs"
  using assms
proof (induction xs arbitrary: k)
  case (Cons x xs)
  show ?case
  proof (cases k)
    case 0
    with Cons.prems show ?thesis by (simp add: filter_id_conv)
  next
    case (Suc j)
    with Cons.prems have "f x < f (xs ! j)" by simp
    then have "\<not> f (xs ! j) < f x" by simp
    with Cons Suc show ?thesis by simp
  qed
qed simp

lemma page_list:
  assumes "getSession i p db = Inr v" "safe_int after" "0 \<le> after" "1 \<le> limit" "limit \<le> 100"
    "map_res parseStoredSessionEvent (sort_key ev_seq (events_of i db)) = Inr es"
  shows "listEvents i p after limit db = (let new = filter (\<lambda>e. after < se_seq e) es; shown = take (nat limit) new in
    Inr \<lparr>ep_events = shown, ep_nextCursor = (if shown = [] then after else se_seq (last shown)),
      ep_hasMore = (int (length new) > limit)\<rparr>)"
proof -
  let ?rows = "sort_key ev_seq (filter (\<lambda>e. ev_seq e > after) (events_of i db))"
  have "map_res parseStoredSessionEvent ?rows = Inr (filter (\<lambda>e. after < se_seq e) es)"
    using map_res_filter [OF assms(6), of "\<lambda>e. after < se_seq e" "\<lambda>e. after < ev_seq e"]
    by (simp add: filter_sort parse_seq)
  from map_res_take [OF this, of "nat (limit + 1)"] assms show ?thesis
    by (auto simp: listEvents_def safe_int_def Let_def min_def take_all_iff)
qed

text \<open>
  Reading a log page by page is complete: for any stored log whose rows are valid and have
  distinct numbers, any page size from 1 to 100 and any cursor, following the returned cursors
  ends and yields exactly the events after the cursor, each once and in order.
\<close>

theorem event_pages_complete:
  assumes "getSession i p db = Inr v" "safe_int after" "0 \<le> after" "1 \<le> limit" "limit \<le> 100"
    "map_res parseStoredSessionEvent (sort_key ev_seq (events_of i db)) = Inr es"
    "sorted_wrt (\<lambda>x y. se_seq x < se_seq y) es"
    "length (filter (\<lambda>e. after < se_seq e) es) < k"
  shows "follow_pages k i p after limit db = Inr (filter (\<lambda>e. after < se_seq e) es)"
  using assms(2,3,8)
proof (induction k arbitrary: after)
  case (Suc k)
  let ?new = "filter (\<lambda>e. after < se_seq e) es"
  let ?shown = "take (nat limit) ?new"
  note page = page_list [OF assms(1) Suc.prems(1,2) assms(4,5,6)]
  show ?case
  proof (cases "int (length ?new) > limit")
    case False
    with page show ?thesis by (simp add: Let_def)
  next
    case True
    let ?m = "nat limit - 1"
    from True assms(4) have m: "?m < length ?new" "?shown \<noteq> []" and l: "length ?shown = nat limit"
      by auto
    from m(2) have "last ?shown = ?shown ! (length ?shown - 1)" by (rule last_conv_nth)
    then have m3: "last ?shown = ?new ! ?m" unfolding l using assms(4) by simp
    let ?c = "se_seq (?new ! ?m)"
    have "?new ! ?m \<in> set es" using nth_mem [OF m(1)] by auto
    then obtain row where "parseStoredSessionEvent row = Inr (?new ! ?m)" using map_res_set [OF assms(6)] by blast
    then have c: "safe_int ?c" "0 \<le> ?c" using parse_seq by fastforce+
    have "after < ?c" using m(1) nth_mem by fastforce
    then have "filter (\<lambda>e. ?c < se_seq e) es = filter (\<lambda>e. ?c < se_seq e) ?new"
      by (auto intro: filter_cong)
    also have "\<dots> = drop (Suc ?m) ?new"
      by (rule filter_after_nth) (use assms(7) m(1) in \<open>auto intro: sorted_wrt_filter\<close>)
    finally have rest: "filter (\<lambda>e. ?c < se_seq e) es = drop (nat limit) ?new" using assms(4) by simp
    have "follow_pages k i p ?c limit db = Inr (drop (nat limit) ?new)"
      using Suc.IH [OF c] Suc.prems(3) True assms(4) rest by simp
    then show ?thesis using page True m m3 by (simp add: Let_def)
  qed
qed simp

theorem event_pages_complete_witness:
  "\<exists>es. follow_pages 2 demo_uuid ''p'' 0 1 demo_session = Inr es \<and> map se_seq es = [1]"
proof -
  have "case map_res parseStoredSessionEvent (sort_key ev_seq (events_of demo_uuid demo_session)) of
      Inl e \<Rightarrow> False | Inr es \<Rightarrow> map se_seq es = [1]" by code_simp
  then obtain es where es: "map_res parseStoredSessionEvent (sort_key ev_seq (events_of demo_uuid demo_session)) = Inr es"
    "map se_seq es = [1]" by (auto split: sum.splits)
  obtain v where v: "getSession demo_uuid ''p'' demo_session = Inr v" using demo_readable by blast
  from es(2) have one: "length es = 1" "filter (\<lambda>e. 0 < se_seq e) es = es"
    by (auto simp: map_eq_Cons_conv)
  then have "sorted_wrt (\<lambda>x y. se_seq x < se_seq y) es" by (cases es) auto
  from event_pages_complete [OF v _ _ _ _ es(1) this, of 0 1 2] one es show ?thesis
    by (simp add: safe_int_def)
qed

end
