(* ===== verification/Redaction.thy ===== *)
theory Redaction
  imports Prelude
begin

text \<open>
  \<open>src/src/project/task-state-service.ts\<close>, \<open>redacted\<close>, \<open>boundedText\<close>, \<open>boundedList\<close> and
  \<open>looksSecretPath\<close>: what keeps credentials out of the durable task state. A regular expression
  of the code is a function from the previous character and the rest of the text to the length of
  the part it keeps (the group \<open>$1\<close>) and of the whole match; \<open>replace_all\<close> is \<open>String.replace\<close> with the
  flag \<open>g\<close>. Every quantifier of the six expressions is greedy, and the only one that ever has to
  give characters back is one followed by a word boundary.
\<close>

section \<open>Replacing matches\<close>

type_synonym matcher = "char option \<Rightarrow> string \<Rightarrow> (nat \<times> nat) option"

fun replace_all :: "matcher \<Rightarrow> char option \<Rightarrow> string \<Rightarrow> string" where
  "replace_all m prev [] = []"
| "replace_all m prev (c # s) =
     (case m prev (c # s) of
        None \<Rightarrow> c # replace_all m (Some c) s
      | Some (kept, n) \<Rightarrow> take kept (c # s) @ ''[REDACTED]''
          @ replace_all m (Some ((c # s) ! (n - 1))) (drop (n - 1) s))"

definition word_char :: "char option \<Rightarrow> bool" where
  "word_char c = (case c of None \<Rightarrow> False | Some c \<Rightarrow>
     c \<in> set ''ABCDEFGHIJKLMNOPQRSTUVWXYZabcdefghijklmnopqrstuvwxyz0123456789_'')"

definition boundary :: "char option \<Rightarrow> string \<Rightarrow> bool" where
  "boundary prev s \<longleftrightarrow> word_char prev \<noteq> word_char (case s of [] \<Rightarrow> None | c # s \<Rightarrow> Some c)"

definition alnum :: "char \<Rightarrow> bool" where
  "alnum c \<longleftrightarrow> word_char (Some c) \<and> c \<noteq> CHR ''_''"

definition run :: "(char \<Rightarrow> bool) \<Rightarrow> string \<Rightarrow> nat" where
  "run cls s = length (takeWhile cls s)"

text \<open>\<open>cls{low,}\\b\<close>: the longest run that ends at a word boundary.\<close>

definition bounded_run :: "(char \<Rightarrow> bool) \<Rightarrow> nat \<Rightarrow> string \<Rightarrow> nat option" where
  "bounded_run cls low s = find (\<lambda>n. boundary (Some (s ! (n - 1))) (drop n s)) (rev [low..<Suc (run cls s)])"

text \<open>A literal under the flag \<open>i\<close>.\<close>

fun literal_i :: "string \<Rightarrow> string \<Rightarrow> bool" where
  "literal_i [] s = True"
| "literal_i (w # ws) [] = False"
| "literal_i (w # ws) (c # s) = (js_lower c = w \<and> literal_i ws s)"

fun literal :: "string \<Rightarrow> string \<Rightarrow> bool" where
  "literal [] s = True"
| "literal (w # ws) [] = False"
| "literal (w # ws) (c # s) = (c = w \<and> literal ws s)"

section \<open>The six expressions\<close>

definition bearer :: matcher where
  "bearer prev s =
     (if \<not> literal_i ''bearer'' s then None
      else let sp = run js_space (drop 6 s);
               n = run (\<lambda>c. alnum c \<or> c \<in> set ''._~+/-'') (drop (6 + sp) s)
           in if sp \<ge> 1 \<and> n \<ge> 6 then Some (6 + sp, 6 + sp + n) else None)"

definition secret_names :: "string list" where
  "secret_names = [''api_key'', ''api-key'', ''apikey'', ''access_token'', ''access-token'', ''accesstoken'',
     ''refresh_token'', ''refresh-token'', ''refreshtoken'', ''token'', ''password'', ''passwd'', ''secret'',
     ''authorization'', ''cookie'']"

definition assignment :: matcher where
  "assignment prev s =
     (case find (\<lambda>w. literal_i w s) secret_names of
        None \<Rightarrow> None
      | Some w \<Rightarrow>
          (let i = length w + run js_space (drop (length w) s)
           in if \<not> (literal '':'' (drop i s) \<or> literal ''='' (drop i s)) then None
              else let k = i + 1 + run js_space (drop (i + 1) s);
                       n = run (\<lambda>c. \<not> js_space c \<and> c \<notin> set '',;'') (drop k s)
                   in if n \<ge> 1 then Some (k, k + n) else None))"

definition openai_key :: matcher where
  "openai_key prev s =
     (if \<not> boundary prev s \<or> \<not> literal ''sk-'' s then None
      else map_option (\<lambda>n. (0, 3 + n)) (bounded_run (\<lambda>c. alnum c \<or> c \<in> set ''_-'') 12 (drop 3 s)))"

definition github_token :: matcher where
  "github_token prev s =
     (if \<not> boundary prev s \<or> \<not> list_ex (\<lambda>w. literal w s) [''ghp_'', ''gho_'', ''ghu_'', ''ghs_'', ''ghr_'']
      then None else map_option (\<lambda>n. (0, 4 + n)) (bounded_run alnum 12 (drop 4 s)))"

definition aws_key :: matcher where
  "aws_key prev s =
     (if boundary prev s \<and> literal ''AKIA'' s
         \<and> run (\<lambda>c. c \<in> set ''0123456789ABCDEFGHIJKLMNOPQRSTUVWXYZ'') (drop 4 s) \<ge> 16
         \<and> boundary (Some (s ! 19)) (drop 20 s)
      then Some (0, 20) else None)"

definition jwt :: matcher where
  "jwt prev s =
     (let cls = (\<lambda>c. alnum c \<or> c \<in> set ''_-'');
          a = 3 + run cls (drop 3 s);
          b = a + 1 + run cls (drop (a + 1) s)
      in if boundary prev s \<and> literal ''eyJ'' s \<and> a \<ge> 11 \<and> literal ''.'' (drop a s)
            \<and> b \<ge> a + 9 \<and> literal ''.'' (drop b s)
         then map_option (\<lambda>n. (0, b + 1 + n)) (bounded_run cls 8 (drop (b + 1) s)) else None)"

definition redacted :: "string \<Rightarrow> string" where
  "redacted value = foldl (\<lambda>s m. replace_all m None s) value
     [bearer, assignment, openai_key, github_token, aws_key, jwt]"

section \<open>Bounded text\<close>

datatype task_error =
    TaskPolicy | TaskLimit | TaskRecovery | TaskNotFound | TaskConflict | TaskAuthority | TaskSystem

definition boundedText :: "string \<Rightarrow> nat \<Rightarrow> task_error + string" where
  "boundedText value maxBytes =
     (if js_trim value = [] then Inl TaskPolicy
      else if CHR 0x00 \<in> set value then Inl TaskPolicy
      else if js_byteLength value > maxBytes then Inl TaskLimit
      else Inr (redacted value))"

definition boundedList :: "string list option \<Rightarrow> nat \<Rightarrow> nat \<Rightarrow> task_error + string list" where
  "boundedList values maxItems maxBytes =
     (let items = (case values of None \<Rightarrow> [] | Some vs \<Rightarrow> vs)
      in if length items > maxItems then Inl TaskLimit
         else map_res (\<lambda>item. boundedText item maxBytes) items)"

definition looksSecretPath :: "string \<Rightarrow> bool" where
  "looksSecretPath basename' =
     (let basename = map js_lower basename'
      in basename = ''.env'' \<or> literal ''.env.'' basename
         \<or> basename \<in> set [''.npmrc'', ''.pypirc'', ''credentials'', ''credentials.json'', ''secrets.json'',
              ''id_ed25519'', ''id_rsa'']
         \<or> list_ex (ends_with basename) [''.pem'', ''.key'', ''.p12'', ''.pfx''])"

lemma redaction_samples:
  "redacted ''Bearer  abc.de1, ok'' = ''Bearer  [REDACTED], ok''"
  "redacted ''API-Key = x1;y'' = ''API-Key = [REDACTED];y''"
  "redacted ''(sk-abcdefghijkl-)'' = ''([REDACTED]-)''"
  by code_simp+

section \<open>What redaction lets through\<close>

lemma replace_all_none:
  assumes "\<And>p c s. digit c \<Longrightarrow> m p (c # s) = None" "list_all digit s"
  shows "replace_all m p s = s"
  using assms(2) by (induction s arbitrary: p) (simp_all add: assms(1))

lemma digit_matches_none:
  assumes "digit c"
  shows "bearer p (c # s) = None" "assignment p (c # s) = None" "openai_key p (c # s) = None"
    "github_token p (c # s) = None" "aws_key p (c # s) = None" "jwt p (c # s) = None"
proof -
  have "int (of_char c) = of_char c" by (fact of_nat_of_char)
  with assms have "(of_char c :: int) \<le> 57" unfolding digit_def by linarith
  then have "js_lower c = c" by (simp add: js_lower_def Let_def)
  moreover have "c \<notin> set ''barptscegskAe''" using assms by (auto simp: digit_def)
  ultimately show "bearer p (c # s) = None" "assignment p (c # s) = None" "openai_key p (c # s) = None"
    "github_token p (c # s) = None" "aws_key p (c # s) = None" "jwt p (c # s) = None"
    by (simp_all add: bearer_def assignment_def secret_names_def openai_key_def github_token_def
      aws_key_def jwt_def Let_def)
qed

lemma redact_digits:
  assumes "list_all digit s" "m \<in> set [bearer, assignment, openai_key, github_token, aws_key, jwt]"
  shows "replace_all m p s = s"
  using assms(2) by (intro replace_all_none [OF _ assms(1)]) (auto simp: digit_matches_none)

lemma lower_header:
  "map js_lower ''Authorization: Basic[REDACTED]'' = ''authorization: basic[redacted]''"
  by code_simp

lemmas header_steps = lower_header [simplified] bearer_def assignment_def secret_names_def openai_key_def
  github_token_def aws_key_def jwt_def Let_def run_def js_space_def

lemma header_passes:
  assumes "list_all digit s"
  shows "replace_all bearer None (''Authorization: Basic '' @ s) = ''Authorization: Basic '' @ s"
    "replace_all assignment None (''Authorization: Basic '' @ s) = ''Authorization: [REDACTED] '' @ s"
    "replace_all openai_key None (''Authorization: [REDACTED] '' @ s) = ''Authorization: [REDACTED] '' @ s"
    "replace_all github_token None (''Authorization: [REDACTED] '' @ s) = ''Authorization: [REDACTED] '' @ s"
    "replace_all aws_key None (''Authorization: [REDACTED] '' @ s) = ''Authorization: [REDACTED] '' @ s"
    "replace_all jwt None (''Authorization: [REDACTED] '' @ s) = ''Authorization: [REDACTED] '' @ s"
  by (simp_all add: header_steps redact_digits [OF assms])

text \<open>
  C37: Redaction replaces one word after a secret's name, so the credential of an HTTP header with a
  scheme other than \<open>Bearer\<close> is stored in clear: of \<open>Authorization: Basic\<close> followed by any
  digits only the word \<open>Basic\<close> is replaced.
\<close>

theorem basic_credentials_survive:
  assumes "list_all digit credential" "js_byteLength (''Authorization: Basic '' @ credential) \<le> maxBytes"
  shows "boundedText (''Authorization: Basic '' @ credential) maxBytes
    = Inr (''Authorization: [REDACTED] '' @ credential)"
proof -
  have "CHR 0x00 \<notin> set credential" using assms(1) by (auto simp: list_all_iff digit_def)
  moreover have "js_trim (''Authorization: Basic '' @ credential) \<noteq> []"
    unfolding js_trim_Nil_iff by (simp add: js_space_def)
  ultimately show ?thesis
    using assms(2) by (simp add: boundedText_def redacted_def header_passes [OF assms(1), simplified])
qed

theorem basic_credentials_survive_witness:
  "boundedText ''Authorization: Basic 1234567890'' 4096 = Inr ''Authorization: [REDACTED] 1234567890''"
  using basic_credentials_survive [of "''1234567890''" 4096]
  by (simp add: digit_def js_byteLength_def)

end
