(* ===== verification/Repository_State.thy ===== *)
theory Repository_State
  imports Path_Policy Redaction
begin

text \<open>
  \<open>src/src/project/task-state-service.ts\<close>, \<open>runGit\<close>, \<open>hashUntrackedFile\<close>, \<open>normalizedPaths\<close> and
  \<open>observeRepositoryState\<close>: the observation of a repository to which the task state is bound. What
  the Git child prints and when it ends, the file system and SHA-256 are parameters; \<open>decode\<close> is
  the UTF-8 decoder of \<open>Buffer\<close>.
\<close>

section \<open>Running Git\<close>

datatype git_event = GitStdout "byte list" | GitStderr "byte list" | GitTimer

datatype git_end = GitSpawnFails | GitClose "int option"

record git_result =
  gr_exitCode :: int
  gr_stdout :: "byte list"
  gr_stderr :: "byte list"

record git_collect =
  gc_stdout :: "byte list"
  gc_stderr :: "byte list"
  gc_bytes :: nat
  gc_timedOut :: bool
  gc_tooLarge :: bool

definition MAX_GIT_OUTPUT_BYTES :: nat where "MAX_GIT_OUTPUT_BYTES = 32 * 1024 * 1024"
definition MAX_UNTRACKED_LIST_BYTES :: nat where "MAX_UNTRACKED_LIST_BYTES = 4 * 1024 * 1024"
definition MAX_UNTRACKED_BYTES :: nat where "MAX_UNTRACKED_BYTES = 32 * 1024 * 1024"

definition gitEnvironment :: "(string \<Rightarrow> string option) \<Rightarrow> (string \<times> string) list" where
  "gitEnvironment source =
     List.map_filter (\<lambda>k. map_option (Pair k) (source k))
       [''HOME'', ''USER'', ''LOGNAME'', ''PATH'', ''LANG'', ''LC_ALL'', ''TMPDIR'']
     @ [(''GIT_CONFIG_NOSYSTEM'', ''1''), (''GIT_TERMINAL_PROMPT'', ''0''), (''GIT_PAGER'', ''cat''),
        (''PAGER'', ''cat''), (''GIT_OPTIONAL_LOCKS'', ''0'')]"

definition git_arguments :: "string list \<Rightarrow> string list" where
  "git_arguments args =
     [''-c'', ''core.hooksPath=/dev/null'', ''-c'', ''core.fsmonitor=false'', ''-c'', ''diff.external='',
      ''-c'', ''interactive.diffFilter=''] @ args"

definition collect ::
  "nat \<Rightarrow> byte list \<Rightarrow> (git_collect \<Rightarrow> git_collect) \<Rightarrow> git_collect \<Rightarrow> git_collect" where
  "collect maxBytes chunk push s =
     (if gc_tooLarge s then s
      else let s1 = s\<lparr>gc_bytes := gc_bytes s + length chunk\<rparr>
           in if gc_bytes s1 > maxBytes then s1\<lparr>gc_tooLarge := True\<rparr> else push s1)"

fun git_event_step :: "nat \<Rightarrow> git_event \<Rightarrow> git_collect \<Rightarrow> git_collect" where
  "git_event_step maxBytes (GitStdout b) s = collect maxBytes b (\<lambda>s. s\<lparr>gc_stdout := gc_stdout s @ b\<rparr>) s"
| "git_event_step maxBytes (GitStderr b) s = collect maxBytes b (\<lambda>s. s\<lparr>gc_stderr := gc_stderr s @ b\<rparr>) s"
| "git_event_step maxBytes GitTimer s = s\<lparr>gc_timedOut := True\<rparr>"

definition git_settle :: "nat \<Rightarrow> git_event list \<times> git_end \<Rightarrow> task_error + git_result" where
  "git_settle maxBytes child =
     (let s = fold (git_event_step maxBytes) (fst child)
            \<lparr>gc_stdout = [], gc_stderr = [], gc_bytes = 0, gc_timedOut = False, gc_tooLarge = False\<rparr>
      in case snd child of
           GitSpawnFails \<Rightarrow> Inl TaskSystem
         | GitClose code \<Rightarrow>
             if gc_timedOut s then Inl TaskPolicy
             else if gc_tooLarge s then Inl TaskLimit
             else Inr \<lparr>gr_exitCode = (case code of None \<Rightarrow> 1 | Some c \<Rightarrow> c),
                       gr_stdout = gc_stdout s, gr_stderr = gc_stderr s\<rparr>)"

section \<open>The environment of an observation\<close>

text \<open>
  Opening a file with \<open>O_NOFOLLOW\<close>: a regular file with the size \<open>stat\<close> reports and the bytes read
  until the end, something that is not a regular file, a symbolic link with the result of
  \<open>readlink\<close>, nothing, or another error.
\<close>

datatype open_result =
    OpenFile nat "byte list"
  | OpenOther
  | OpenLoop "string option"
  | OpenMissing
  | OpenFails

record repo_env =
  re_lstat :: "abspath \<Rightarrow> lstat_result"
  re_real :: "abspath \<Rightarrow> abspath option"
  re_roots :: "abspath list"
  re_open :: "abspath \<Rightarrow> open_result"
  re_getenv :: "string \<Rightarrow> string option"
  re_git :: "abspath \<Rightarrow> string list \<Rightarrow> (string \<times> string) list \<Rightarrow> git_event list \<times> git_end"
  re_sha256 :: "byte list \<Rightarrow> string"
  re_decode :: "byte list \<Rightarrow> string"

record observation =
  ob_repositoryRoot :: abspath
  ob_projectFingerprint :: string
  ob_head :: string
  ob_workingTreeDigest :: string

definition runGit :: "repo_env \<Rightarrow> abspath \<Rightarrow> string list \<Rightarrow> nat \<Rightarrow> task_error + git_result" where
  "runGit env cwd args maxBytes =
     git_settle maxBytes (re_git env cwd (git_arguments args) (gitEnvironment (re_getenv env)))"

text \<open>The same test as in \<open>core/policy.ts\<close>, written a second time.\<close>

definition task_isInside :: "abspath \<Rightarrow> abspath \<Rightarrow> bool" where
  "task_isInside root candidate \<longleftrightarrow>
     (let relative = path_relative root candidate in relative = [] \<or> hd relative \<noteq> ''..'')"

definition resolve_policy :: "repo_env \<Rightarrow> string \<Rightarrow> task_error + abspath" where
  "resolve_policy env input =
     (case policy_resolve (re_lstat env) (re_real env) (re_roots env) input of
        Inl FsError \<Rightarrow> Inl TaskSystem
      | Inl e \<Rightarrow> Inl TaskPolicy
      | Inr p \<Rightarrow> Inr p)"

definition MAX_LIST_ITEMS :: nat where "MAX_LIST_ITEMS = 100"
definition MAX_TEXT_BYTES :: nat where "MAX_TEXT_BYTES = 8192"

definition normalized_path :: "abspath \<Rightarrow> string \<Rightarrow> task_error + string" where
  "normalized_path root value =
     (if js_trim value = [] \<or> CHR 0x00 \<in> set value \<or> js_byteLength value > MAX_TEXT_BYTES
      then Inl TaskPolicy
      else
        let candidate = path_resolve (if isAbsolute value then [] else root) value
        in if \<not> task_isInside root candidate \<or> candidate = root then Inl TaskPolicy
           else let relative = path_relative root candidate
                in Inr (if looksSecretPath (last relative) then ''[redacted-secret-path]''
                        else join_with ''/'' relative))"

definition normalizedPaths :: "abspath \<Rightarrow> string list option \<Rightarrow> task_error + string list" where
  "normalizedPaths root values =
     (let list = (case values of None \<Rightarrow> [] | Some vs \<Rightarrow> vs)
      in if length list > MAX_LIST_ITEMS then Inl TaskLimit
         else bind_res (map_res (normalized_path root) list) (\<lambda>result. Inr (js_set result)))"

section \<open>The digest of the working tree\<close>

text \<open>
  \<open>hashUntrackedFile\<close>: the bytes it feeds to the digest and the bytes of content it consumed.
\<close>

definition hashUntrackedFile :: "repo_env \<Rightarrow> abspath \<Rightarrow> string \<Rightarrow> nat \<Rightarrow> task_error + byte list \<times> nat" where
  "hashUntrackedFile env root relativePath remainingBudget =
     (let absolutePath = path_resolve root relativePath
      in if \<not> task_isInside root absolutePath \<or> absolutePath = root then Inr ([], 0)
         else
           let header = js_bytes ''path'' @ [0] @ js_bytes relativePath @ [0]
           in case re_open env absolutePath of
                OpenFile size' content \<Rightarrow>
                  if size' > remainingBudget \<or> length content > remainingBudget then Inl TaskLimit
                  else Inr (header @ content, length content)
              | OpenOther \<Rightarrow> Inr (header, 0)
              | OpenLoop (Some target) \<Rightarrow>
                  if js_byteLength target > remainingBudget then Inl TaskLimit
                  else Inr (header @ js_bytes ''symlink'' @ [0] @ js_bytes target, js_byteLength target)
              | OpenLoop None \<Rightarrow> Inl TaskSystem
              | OpenMissing \<Rightarrow> Inr (header, 0)
              | OpenFails \<Rightarrow> Inl TaskSystem)"

fun hash_untracked :: "repo_env \<Rightarrow> abspath \<Rightarrow> nat \<Rightarrow> string list \<Rightarrow> task_error + byte list" where
  "hash_untracked env root untrackedBytes [] = Inr []"
| "hash_untracked env root untrackedBytes (relativePath # rest) =
     (if untrackedBytes \<ge> MAX_UNTRACKED_BYTES then Inl TaskLimit
      else bind_res (hashUntrackedFile env root relativePath (MAX_UNTRACKED_BYTES - untrackedBytes))
        (\<lambda>(bytes, consumed).
           bind_res (hash_untracked env root (untrackedBytes + consumed) rest) (\<lambda>more.
             Inr (bytes @ [0] @ more))))"

definition valid_head :: "string \<Rightarrow> bool" where
  "valid_head s \<longleftrightarrow> 40 \<le> length s \<and> length s \<le> 64 \<and> list_all hex_digit s"

definition git_ok :: "repo_env \<Rightarrow> abspath \<Rightarrow> string list \<Rightarrow> nat \<Rightarrow> task_error + byte list" where
  "git_ok env cwd args maxBytes =
     bind_res (runGit env cwd args maxBytes) (\<lambda>r.
       if gr_exitCode r \<noteq> 0 then Inl TaskPolicy else Inr (gr_stdout r))"

definition observeRepositoryState :: "repo_env \<Rightarrow> string \<Rightarrow> task_error + observation" where
  "observeRepositoryState env cwdInput =
     bind_res (resolve_policy env cwdInput) (\<lambda>cwd.
     bind_res (git_ok env cwd [''rev-parse'', ''--show-toplevel''] 65536) (\<lambda>rootOut.
     let discoveredRoot = js_trim (re_decode env rootOut)
     in if discoveredRoot = [] then Inl TaskPolicy else
     bind_res (resolve_policy env discoveredRoot) (\<lambda>repositoryRoot.
     bind_res (git_ok env repositoryRoot [''rev-parse'', ''--git-common-dir''] 65536) (\<lambda>commonOut.
     let commonRaw = js_trim (re_decode env commonOut);
         commonPath = path_resolve (if isAbsolute commonRaw then [] else repositoryRoot) commonRaw
     in case re_real env commonPath of
       None \<Rightarrow> Inl TaskSystem
     | Some commonDirectory \<Rightarrow>
     bind_res (git_ok env repositoryRoot [''rev-parse'', ''HEAD''] 65536) (\<lambda>headOut.
     let head = js_trim (re_decode env headOut)
     in if \<not> valid_head head then Inl TaskRecovery else
     bind_res (git_ok env repositoryRoot
         [''diff'', ''--no-ext-diff'', ''--no-textconv'', ''--binary'', ''HEAD'', ''--''] MAX_GIT_OUTPUT_BYTES) (\<lambda>diffOut.
     bind_res (git_ok env repositoryRoot
         [''ls-files'', ''--others'', ''--exclude-standard'', ''-z''] MAX_UNTRACKED_LIST_BYTES) (\<lambda>untrackedOut.
     bind_res (hash_untracked env repositoryRoot 0
         (filter (\<lambda>s. s \<noteq> []) (split_char CHR 0x00 (re_decode env untrackedOut)))) (\<lambda>untrackedBytes.
     Inr \<lparr>ob_repositoryRoot = repositoryRoot,
       ob_projectFingerprint = re_sha256 env (js_bytes ''git-common-dir'' @ [0] @ js_bytes (path_string commonDirectory)
         @ [0] @ js_bytes ''repository-root'' @ [0] @ js_bytes (path_string repositoryRoot)),
       ob_head = head,
       ob_workingTreeDigest = re_sha256 env (js_bytes ''tracked-diff'' @ [0] @ diffOut
         @ [0] @ js_bytes ''untracked'' @ [0] @ untrackedBytes)\<rparr>))))))))"

section \<open>Bounds\<close>

lemma task_isInside_eq: "task_isInside = isInside"
  by (intro ext) (simp add: task_isInside_def isInside_def)

lemma git_output_bounded:
  "git_settle maxBytes child = Inr r \<Longrightarrow> length (gr_stdout r) + length (gr_stderr r) \<le> maxBytes"
proof -
  have step: "length (gc_stdout (git_event_step maxBytes e s)) + length (gc_stderr (git_event_step maxBytes e s))
      \<le> gc_bytes (git_event_step maxBytes e s)
    \<and> (gc_tooLarge (git_event_step maxBytes e s) \<or> gc_bytes (git_event_step maxBytes e s) \<le> maxBytes)"
    if "length (gc_stdout s) + length (gc_stderr s) \<le> gc_bytes s" "gc_tooLarge s \<or> gc_bytes s \<le> maxBytes" for e s
    using that by (cases e) (simp_all add: collect_def Let_def)
  have "length (gc_stdout (fold (git_event_step maxBytes) es s)) + length (gc_stderr (fold (git_event_step maxBytes) es s))
      \<le> gc_bytes (fold (git_event_step maxBytes) es s)
    \<and> (gc_tooLarge (fold (git_event_step maxBytes) es s) \<or> gc_bytes (fold (git_event_step maxBytes) es s) \<le> maxBytes)"
    if "length (gc_stdout s) + length (gc_stderr s) \<le> gc_bytes s" "gc_tooLarge s \<or> gc_bytes s \<le> maxBytes" for es s
    using that by (induction es arbitrary: s) (simp_all add: step)
  from this [of "\<lparr>gc_stdout = [], gc_stderr = [], gc_bytes = 0, gc_timedOut = False, gc_tooLarge = False\<rparr>" "fst child"]
  show "git_settle maxBytes child = Inr r \<Longrightarrow> length (gr_stdout r) + length (gr_stderr r) \<le> maxBytes"
    by (auto simp: git_settle_def Let_def split: git_end.splits if_splits)
qed

section \<open>What the digest does not see\<close>

lemma hash_untracked_link:
  assumes "re_open env p = OpenLoop (Some target)"
    "env' = env\<lparr>re_open := (re_open env)(p := OpenFile n (js_bytes ''symlink'' @ [0] @ js_bytes target))\<rparr>"
  shows "hash_untracked env' root u paths = Inr bytes \<Longrightarrow> v \<le> u \<Longrightarrow> hash_untracked env root v paths = Inr bytes"
proof (induction paths arbitrary: u v bytes)
  case (Cons q paths)
  from Cons.prems(1) obtain b k more where u: "u < MAX_UNTRACKED_BYTES"
    and hashed: "hashUntrackedFile env' root q (MAX_UNTRACKED_BYTES - u) = Inr (b, k)"
    and rest: "hash_untracked env' root (u + k) paths = Inr more" and bytes: "bytes = b @ [0] @ more"
    by (auto simp: bind_res_Inr_iff split: if_splits prod.splits)
  have "\<exists>j. hashUntrackedFile env root q (MAX_UNTRACKED_BYTES - v) = Inr (b, j) \<and> j \<le> k"
  proof (cases "path_resolve root q = p")
    case True
    with hashed assms Cons.prems(2) show ?thesis
      by (auto simp: hashUntrackedFile_def Let_def length_js_bytes split: if_splits)
  next
    case False
    with hashed assms(2) Cons.prems(2) show ?thesis
      by (auto simp: hashUntrackedFile_def Let_def split: if_splits open_result.splits option.splits)
  qed
  then obtain j where "hashUntrackedFile env root q (MAX_UNTRACKED_BYTES - v) = Inr (b, j)" "j \<le> k" by blast
  with Cons.IH [OF rest, of "v + j"] Cons.prems(2) u bytes show ?case by simp
qed simp

text \<open>
  C36: The digest of the working tree does not tell a symbolic link from a regular file whose content
  is the word \<open>symlink\<close>, a NUL byte and the link's target: when the repository could be observed
  with such a file, replacing it by the link gives the very same observation, so every freshness
  check passes.
\<close>

theorem digest_confuses_link_and_file:
  assumes "re_open env p = OpenLoop (Some target)"
    "observeRepositoryState (env\<lparr>re_open := (re_open env)(p := OpenFile n
        (js_bytes ''symlink'' @ [0] @ js_bytes target))\<rparr>) cwd = Inr obs"
  shows "observeRepositoryState env cwd = Inr obs"
proof -
  let ?env = "env\<lparr>re_open := (re_open env)(p := OpenFile n (js_bytes ''symlink'' @ [0] @ js_bytes target))\<rparr>"
  have same: "resolve_policy ?env = resolve_policy env" "git_ok ?env = git_ok env"
    "re_decode ?env = re_decode env" "re_real ?env = re_real env" "re_sha256 ?env = re_sha256 env"
    by (intro ext; simp add: resolve_policy_def git_ok_def runGit_def)+
  have untracked: "hash_untracked env root 0 paths = Inr bytes" if "hash_untracked ?env root 0 paths = Inr bytes"
    for root paths bytes
    by (rule hash_untracked_link [OF assms(1) refl that]) simp
  show ?thesis
    using assms(2) unfolding observeRepositoryState_def same Let_def
    by - (assumption | erule untracked | erule success_mono)+
qed

text \<open>A repository at \<open>/r\<close> with one untracked file.\<close>

definition demo_git :: "abspath \<Rightarrow> string list \<Rightarrow> (string \<times> string) list \<Rightarrow> git_event list \<times> git_end" where
  "demo_git cwd args vars =
     (let out = (\<lambda>s. ([GitStdout (js_bytes s)], GitClose (Some 0)));
          cmd = drop 8 args
      in if cmd = [''rev-parse'', ''--show-toplevel''] then out ''/r''
         else if cmd = [''rev-parse'', ''--git-common-dir''] then out ''.git''
         else if cmd = [''rev-parse'', ''HEAD''] then out (replicate 40 CHR ''a'')
         else if hd cmd = ''ls-files'' then out [CHR ''f'', CHR 0x00]
         else out [])"

definition demo_repo :: "(byte list \<Rightarrow> string) \<Rightarrow> open_result \<Rightarrow> repo_env" where
  "demo_repo sha file = \<lparr>re_lstat = (\<lambda>p. LExists), re_real = Some, re_roots = [[''r'']],
     re_open = (\<lambda>p. OpenMissing)([''r'', ''f''] := file), re_getenv = (\<lambda>v. None), re_git = demo_git,
     re_sha256 = sha, re_decode = map (\<lambda>b. char_of (unat b))\<rparr>"

lemma decode_char: "char_of (unat (of_char c :: byte)) = c"
proof -
  have "(of_char c :: byte) = of_nat (of_char c)" by (rule of_nat_of_char [symmetric])
  then have "unat (of_char c :: byte) = of_char c" by (simp add: unsigned_of_nat take_bit_eq_mod)
  then show ?thesis by simp
qed

lemma decode_js_bytes:
  "list_all (\<lambda>c. of_char c < (128 :: nat)) s \<Longrightarrow> map (\<lambda>b. char_of (unat b)) (js_bytes s) = s"
  by (induction s) (simp_all add: js_bytes_def decode_char)

lemma git_ok_out:
  "re_git env cwd (git_arguments args) (gitEnvironment (re_getenv env)) = ([GitStdout b], GitClose (Some 0))
    \<Longrightarrow> length b \<le> maxBytes \<Longrightarrow> git_ok env cwd args maxBytes = Inr b"
  by (simp add: git_ok_def runGit_def git_settle_def collect_def Let_def)

lemma demo_outputs:
  "git_ok (demo_repo sha f) cwd [''rev-parse'', ''--show-toplevel''] 65536 = Inr (js_bytes ''/r'')"
  "git_ok (demo_repo sha f) cwd [''rev-parse'', ''--git-common-dir''] 65536 = Inr (js_bytes ''.git'')"
  "git_ok (demo_repo sha f) cwd [''rev-parse'', ''HEAD''] 65536 = Inr (js_bytes (replicate 40 (CHR ''a'')))"
  "git_ok (demo_repo sha f) cwd [''diff'', ''--no-ext-diff'', ''--no-textconv'', ''--binary'', ''HEAD'', ''--'']
     MAX_GIT_OUTPUT_BYTES = Inr (js_bytes [])"
  "git_ok (demo_repo sha f) cwd [''ls-files'', ''--others'', ''--exclude-standard'', ''-z'']
     MAX_UNTRACKED_LIST_BYTES = Inr (js_bytes [CHR ''f'', CHR 0x00])"
  by (rule git_ok_out; simp add: demo_repo_def demo_git_def git_arguments_def Let_def js_bytes_def
      MAX_GIT_OUTPUT_BYTES_def MAX_UNTRACKED_LIST_BYTES_def)+

lemma demo_hash:
  "\<exists>b. hash_untracked (demo_repo sha (OpenFile 9 (js_bytes ''symlink'' @ [0] @ js_bytes ''t''))) [''r''] 0 [''f''] = Inr b"
proof -
  have "path_resolve [''r''] ''f'' = [''r'', ''f'']" "task_isInside [''r''] [''r'', ''f'']" by code_simp+
  then show ?thesis
    by (simp add: hashUntrackedFile_def demo_repo_def Let_def MAX_UNTRACKED_BYTES_def js_bytes_def)
qed

lemma demo_resolve: "resolve_policy (demo_repo sha f) ''.'' = Inr [''r'']"
  "resolve_policy (demo_repo sha f) ''/r'' = Inr [''r'']"
  by code_simp+

lemma demo_trim: "js_trim ''/r'' = ''/r''" "js_trim ''.git'' = ''.git''"
  "js_trim (replicate 40 (CHR ''a'')) = replicate 40 (CHR ''a'')"
  by code_simp+

lemma demo_observe:
  assumes "hash_untracked (demo_repo sha file) [''r''] 0 [''f''] = Inr b"
  shows "observeRepositoryState (demo_repo sha file) ''.'' = Inr \<lparr>ob_repositoryRoot = [''r''],
    ob_projectFingerprint = sha (js_bytes ''git-common-dir'' @ [0] @ js_bytes ''/r/.git'' @ [0]
      @ js_bytes ''repository-root'' @ [0] @ js_bytes ''/r''),
    ob_head = replicate 40 (CHR ''a''),
    ob_workingTreeDigest = sha (js_bytes ''tracked-diff'' @ [0] @ js_bytes [] @ [0] @ js_bytes ''untracked''
      @ [0] @ b)\<rparr>"
proof -
  have p: "path_resolve [''r''] ''.git'' = [''r'', ''.git'']" "path_string [''r'', ''.git''] = ''/r/.git''"
    "path_string [''r''] = ''/r''" "isAbsolute ''.git'' = False" by code_simp+
  have d: "re_sha256 (demo_repo sha file) = sha" "re_decode (demo_repo sha file) = map (\<lambda>b. char_of (unat b))" "re_real (demo_repo sha file) = Some"
    by (simp_all add: demo_repo_def)
  have s: "filter (\<lambda>s. s \<noteq> []) (split_char CHR 0x00 [CHR ''f'', CHR 0x00]) = [''f'']" by simp
  have h: "valid_head (replicate 40 (CHR ''a''))" by code_simp
  have t: "map (\<lambda>b. char_of (unat b)) (js_bytes ''/r'') = ''/r''"
    "map (\<lambda>b. char_of (unat b)) (js_bytes ''.git'') = ''.git''"
    "map (\<lambda>b. char_of (unat b)) (js_bytes (replicate 40 (CHR ''a''))) = replicate 40 (CHR ''a'')"
    "map (\<lambda>b. char_of (unat b)) (js_bytes [CHR ''f'', CHR 0x00]) = [CHR ''f'', CHR 0x00]"
    by (rule decode_js_bytes; simp add: list_all_iff)+
  show ?thesis
    unfolding observeRepositoryState_def demo_resolve bind_res_simps demo_outputs d t demo_trim s Let_def assms
    using h by (simp add: p)
qed

definition demo_sha :: "byte list \<Rightarrow> string" where "demo_sha = map (\<lambda>b. char_of (unat b))"

theorem digest_confuses_link_and_file_witness:
  "\<exists>obs. observeRepositoryState (demo_repo demo_sha (OpenLoop (Some ''t''))) ''.'' = Inr obs
    \<and> ob_repositoryRoot obs = [''r''] \<and> ob_head obs = replicate 40 (CHR ''a'')"
proof -
  let ?file = "OpenFile 9 (js_bytes ''symlink'' @ [0] @ js_bytes ''t'')"
  obtain b where h: "hash_untracked (demo_repo demo_sha ?file) [''r''] 0 [''f''] = Inr b" using demo_hash by blast
  from demo_observe [OF this] obtain obs where o: "observeRepositoryState (demo_repo demo_sha ?file) ''.'' = Inr obs"
    "ob_repositoryRoot obs = [''r'']" "ob_head obs = replicate 40 (CHR ''a'')" by simp
  have link: "re_open (demo_repo demo_sha (OpenLoop (Some ''t''))) [''r'', ''f''] = OpenLoop (Some ''t'')"
    by (simp add: demo_repo_def)
  have "(demo_repo demo_sha (OpenLoop (Some ''t'')))\<lparr>re_open :=
      (re_open (demo_repo demo_sha (OpenLoop (Some ''t''))))([''r'', ''f''] := ?file)\<rparr> = demo_repo demo_sha ?file"
    by (simp add: demo_repo_def)
  with o(1) have "observeRepositoryState ((demo_repo demo_sha (OpenLoop (Some ''t'')))\<lparr>re_open :=
      (re_open (demo_repo demo_sha (OpenLoop (Some ''t''))))([''r'', ''f''] := ?file)\<rparr>) ''.'' = Inr obs" by simp
  from digest_confuses_link_and_file [OF link this] o(2,3) show ?thesis by blast
qed

end
