(* ===== verification/Task_State.thy ===== *)
theory Task_State
  imports Repository_State
begin

text \<open>
  \<open>src/src/project/task-state-service.ts\<close> and \<open>task-state-types.ts\<close>: the durable state of a task, a
  JSON file per task below the directory of the project's fingerprint. An operation observes the
  repository, then loads, checks and rewrites the file under the file's path lock. So the body that
  runs under the lock is a definition of its own, over any observation: between the observation
  and the lock other operations can run. The random identifier, the clock, \<open>JSON.parse\<close> of foreign
  bytes and whether the disk's calls succeed are parameters; the audit record is not modelled.
\<close>

section \<open>Data\<close>

datatype task_status = TaskActive | TaskCompleted | TaskFailed

record checkpoint =
  cp_revision :: int
  cp_summary :: string
  cp_findings :: "string list"
  cp_decisions :: "string list"
  cp_inspectedFiles :: "string list"
  cp_modifiedFiles :: "string list"
  cp_nextStep :: "string option"
  cp_evidenceRefs :: "string list"
  cp_head :: string
  cp_workingTreeDigest :: string
  cp_createdAt :: string

record task_outcome =
  oc_status :: task_status
  oc_summary :: string
  oc_evidenceRefs :: "string list"
  oc_head :: string
  oc_workingTreeDigest :: string
  oc_createdAt :: string

text \<open>
  A stored record. Loading does not check the members \<open>nextStep\<close>, \<open>outcome\<close> and the elements of
  \<open>checkpoints\<close>, nor whether there are further members, so they stay JSON values.
\<close>

record stored_task =
  ts_taskId :: string
  ts_status :: task_status
  ts_revision :: int
  ts_goal :: string
  ts_repositoryRoot :: string
  ts_projectFingerprint :: string
  ts_baseHead :: string
  ts_currentHead :: string
  ts_workingTreeDigest :: string
  ts_nextStep :: jval
  ts_checkpoints :: "jval list"
  ts_outcome :: jval
  ts_createdAt :: string
  ts_updatedAt :: string
  ts_extra :: "(string \<times> jval) list"

record task_view =
  tv_record :: stored_task
  tv_checkpointCount :: nat
  tv_observedHead :: string
  tv_observedDigest :: string
  tv_fresh :: bool
  tv_headMatches :: bool
  tv_workingTreeMatches :: bool

record checkpoint_input =
  ci_summary :: string
  ci_findings :: "string list option"
  ci_decisions :: "string list option"
  ci_inspectedFiles :: "string list option"
  ci_modifiedFiles :: "string list option"
  ci_nextStep :: "string option"
  ci_evidenceRefs :: "string list option"

datatype task_file = TaskBytes nat "jval option" | TaskUnreadable

type_synonym task_disk = "abspath \<Rightarrow> task_file option"

record task_env =
  te_repo :: repo_env
  te_project :: bool
  te_uuid :: string
  te_now :: string
  te_mkdir :: bool
  te_write :: bool

definition MAX_STATE_BYTES :: nat where "MAX_STATE_BYTES = 1024 * 1024"
definition MAX_CHECKPOINTS :: nat where "MAX_CHECKPOINTS = 64"
definition MAX_SUMMARY_BYTES :: nat where "MAX_SUMMARY_BYTES = 4096"
definition MAX_ITEM_BYTES :: nat where "MAX_ITEM_BYTES = 2048"
definition MAX_EVIDENCE_BYTES :: nat where "MAX_EVIDENCE_BYTES = 512"

section \<open>JSON\<close>

definition status_name :: "task_status \<Rightarrow> string" where
  "status_name s = (case s of TaskActive \<Rightarrow> ''active'' | TaskCompleted \<Rightarrow> ''completed'' | TaskFailed \<Rightarrow> ''failed'')"

definition jstrings :: "string list \<Rightarrow> jval" where
  "jstrings ss = JArr (map JString ss)"

definition joptional :: "string option \<Rightarrow> jval" where
  "joptional s = (case s of None \<Rightarrow> JUndefined | Some s \<Rightarrow> JString s)"

definition checkpoint_json :: "checkpoint \<Rightarrow> jval" where
  "checkpoint_json c = jobject [(''revision'', JNum (cp_revision c)), (''summary'', JString (cp_summary c)),
     (''findings'', jstrings (cp_findings c)), (''decisions'', jstrings (cp_decisions c)),
     (''inspectedFiles'', jstrings (cp_inspectedFiles c)), (''modifiedFiles'', jstrings (cp_modifiedFiles c)),
     (''nextStep'', joptional (cp_nextStep c)), (''evidenceRefs'', jstrings (cp_evidenceRefs c)),
     (''head'', JString (cp_head c)), (''workingTreeDigest'', JString (cp_workingTreeDigest c)),
     (''createdAt'', JString (cp_createdAt c))]"

definition outcome_json :: "task_outcome \<Rightarrow> jval" where
  "outcome_json c = jobject [(''status'', JString (status_name (oc_status c))), (''summary'', JString (oc_summary c)),
     (''evidenceRefs'', jstrings (oc_evidenceRefs c)), (''head'', JString (oc_head c)),
     (''workingTreeDigest'', JString (oc_workingTreeDigest c)), (''createdAt'', JString (oc_createdAt c))]"

text \<open>The members of a stored record; a rewritten file may have them in another order.\<close>

definition task_keys :: "string list" where
  "task_keys = [''taskId'', ''status'', ''revision'', ''goal'', ''repositoryRoot'', ''projectFingerprint'', ''baseHead'',
     ''currentHead'', ''workingTreeDigest'', ''nextStep'', ''checkpoints'', ''createdAt'', ''updatedAt'', ''outcome'']"

definition task_json :: "stored_task \<Rightarrow> jval" where
  "task_json r = jobject ([(''taskId'', JString (ts_taskId r)), (''status'', JString (status_name (ts_status r))),
     (''revision'', JNum (ts_revision r)), (''goal'', JString (ts_goal r)),
     (''repositoryRoot'', JString (ts_repositoryRoot r)),
     (''projectFingerprint'', JString (ts_projectFingerprint r)), (''baseHead'', JString (ts_baseHead r)),
     (''currentHead'', JString (ts_currentHead r)), (''workingTreeDigest'', JString (ts_workingTreeDigest r)),
     (''nextStep'', ts_nextStep r), (''checkpoints'', JArr (ts_checkpoints r)),
     (''createdAt'', JString (ts_createdAt r)), (''updatedAt'', JString (ts_updatedAt r)),
     (''outcome'', ts_outcome r)] @ ts_extra r)"

definition hex_char :: "nat \<Rightarrow> char" where
  "hex_char n = ''0123456789abcdef'' ! n"

definition json_char :: "char \<Rightarrow> string" where
  "json_char c =
     (if c = CHR 0x22 then [CHR 0x5C, CHR 0x22] else if c = CHR 0x5C then [CHR 0x5C, CHR 0x5C]
      else if c = CHR 0x08 then [CHR 0x5C, CHR ''b''] else if c = CHR 0x0C then [CHR 0x5C, CHR ''f'']
      else if c = CHR 0x0A then [CHR 0x5C, CHR ''n''] else if c = CHR 0x0D then [CHR 0x5C, CHR ''r'']
      else if c = CHR 0x09 then [CHR 0x5C, CHR ''t'']
      else let n = of_char c in if n < 32 then CHR 0x5C # ''u00'' @ [hex_char (n div 16), hex_char (n mod 16)]
      else [c])"

definition json_string :: "string \<Rightarrow> string" where
  "json_string s = CHR 0x22 # concat (map json_char s) @ [CHR 0x22]"

definition json_int :: "int \<Rightarrow> string" where
  "json_int n = (if n < 0 then CHR ''-'' # show_nat (nat (- n)) else show_nat (nat n))"

definition json_block :: "nat \<Rightarrow> char \<Rightarrow> char \<Rightarrow> string list \<Rightarrow> string" where
  "json_block indent open' close' items =
     (if items = [] then [open', close']
      else open' # CHR 0x0A # join_with [CHR '','', CHR 0x0A] (map (\<lambda>i. replicate (indent + 2) CHR '' '' @ i) items)
        @ CHR 0x0A # replicate indent CHR '' '' @ [close'])"

text \<open>\<open>JSON.stringify(value, null, 2)\<close>.\<close>

fun json_pretty :: "nat \<Rightarrow> jval \<Rightarrow> string" where
  "json_pretty indent JUndefined = ''null''"
| "json_pretty indent JNull = ''null''"
| "json_pretty indent (JBool b) = (if b then ''true'' else ''false'')"
| "json_pretty indent (JNum n) = json_int n"
| "json_pretty indent (JString s) = json_string s"
| "json_pretty indent (JArr vs) = json_block indent CHR ''['' CHR '']'' (map (json_pretty (indent + 2)) vs)"
| "json_pretty indent (JObj fs) = json_block indent CHR 0x7B CHR 0x7D
     (map (\<lambda>f. json_string (fst f) @ '': '' @ json_pretty (indent + 2) (snd f)) (filter (\<lambda>f. snd f \<noteq> JUndefined) fs))"

definition serialized_size :: "jval \<Rightarrow> nat" where
  "serialized_size v = js_byteLength (json_pretty 0 v @ [CHR 0x0A])"

section \<open>Loading and storing\<close>

definition validStoredRecord :: "jval \<Rightarrow> string \<Rightarrow> string \<Rightarrow> bool" where
  "validStoredRecord v taskId fingerprint \<longleftrightarrow>
     jget v ''taskId'' = JString taskId
     \<and> jget v ''projectFingerprint'' = JString fingerprint
     \<and> jget v ''status'' \<in> set [JString ''active'', JString ''completed'', JString ''failed'']
     \<and> is_JNum (jget v ''revision'') \<and> jnum (jget v ''revision'') \<ge> 1
     \<and> is_JString (jget v ''goal'') \<and> is_JString (jget v ''repositoryRoot'') \<and> is_JString (jget v ''baseHead'')
     \<and> is_JString (jget v ''currentHead'') \<and> is_JString (jget v ''workingTreeDigest'')
     \<and> (case jget v ''checkpoints'' of JArr cs \<Rightarrow> length cs \<le> MAX_CHECKPOINTS | _ \<Rightarrow> False)
     \<and> is_JString (jget v ''createdAt'') \<and> is_JString (jget v ''updatedAt'')"

text \<open>The record behind a value that passed \<open>validStoredRecord\<close>.\<close>

definition task_of :: "jval \<Rightarrow> stored_task" where
  "task_of v = \<lparr>ts_taskId = jstring (jget v ''taskId''),
     ts_status = (if jget v ''status'' = JString ''active'' then TaskActive
       else if jget v ''status'' = JString ''completed'' then TaskCompleted else TaskFailed),
     ts_revision = jnum (jget v ''revision''), ts_goal = jstring (jget v ''goal''),
     ts_repositoryRoot = jstring (jget v ''repositoryRoot''),
     ts_projectFingerprint = jstring (jget v ''projectFingerprint''), ts_baseHead = jstring (jget v ''baseHead''),
     ts_currentHead = jstring (jget v ''currentHead''),
     ts_workingTreeDigest = jstring (jget v ''workingTreeDigest''), ts_nextStep = jget v ''nextStep'',
     ts_checkpoints = (case jget v ''checkpoints'' of JArr cs \<Rightarrow> cs | _ \<Rightarrow> []), ts_outcome = jget v ''outcome'',
     ts_createdAt = jstring (jget v ''createdAt''), ts_updatedAt = jstring (jget v ''updatedAt''),
     ts_extra = (case v of JObj fs \<Rightarrow> filter (\<lambda>f. fst f \<notin> set task_keys) fs | _ \<Rightarrow> [])\<rparr>"

definition tasksDirectory :: "abspath \<Rightarrow> string \<Rightarrow> abspath" where
  "tasksDirectory stateRoot fingerprint = stateRoot @ [''projects'', fingerprint, ''tasks'']"

definition task_path :: "abspath \<Rightarrow> string \<Rightarrow> string \<Rightarrow> abspath" where
  "task_path stateRoot fingerprint taskId = tasksDirectory stateRoot fingerprint @ [taskId @ ''.json'']"

definition recordPath :: "abspath \<Rightarrow> observation \<Rightarrow> string \<Rightarrow> task_error + abspath" where
  "recordPath stateRoot obs taskId =
     (if \<not> uuid_v4 taskId then Inl TaskPolicy
      else Inr (task_path stateRoot (ob_projectFingerprint obs) taskId))"

definition task_load :: "abspath \<Rightarrow> observation \<Rightarrow> string \<Rightarrow> task_disk \<Rightarrow> task_error + stored_task" where
  "task_load stateRoot obs taskId disk =
     bind_res (recordPath stateRoot obs taskId) (\<lambda>path.
       case disk path of
         None \<Rightarrow> Inl TaskNotFound
       | Some TaskUnreadable \<Rightarrow> Inl TaskSystem
       | Some (TaskBytes n content) \<Rightarrow>
           if n > MAX_STATE_BYTES then Inl TaskRecovery
           else (case content of
               None \<Rightarrow> Inl TaskRecovery
             | Some v \<Rightarrow> if validStoredRecord v taskId (ob_projectFingerprint obs) then Inr (task_of v)
                         else Inl TaskRecovery))"

definition task_persist ::
  "abspath \<Rightarrow> task_env \<Rightarrow> observation \<Rightarrow> stored_task \<Rightarrow> task_disk \<Rightarrow> task_error + task_disk" where
  "task_persist stateRoot env obs record disk =
     (if \<not> te_mkdir env then Inl TaskSystem
      else bind_res (recordPath stateRoot obs (ts_taskId record)) (\<lambda>destination.
        let v = task_json record
        in if serialized_size v > MAX_STATE_BYTES then Inl TaskLimit
           else if \<not> te_write env then Inl TaskSystem
           else Inr (disk(destination \<mapsto> TaskBytes (serialized_size v) (Some v)))))"

definition view_of :: "stored_task \<Rightarrow> observation \<Rightarrow> task_view" where
  "view_of record obs =
     (let headMatches = (ts_currentHead record = ob_head obs);
          workingTreeMatches = (ts_workingTreeDigest record = ob_workingTreeDigest obs)
      in \<lparr>tv_record = record, tv_checkpointCount = length (ts_checkpoints record),
          tv_observedHead = ob_head obs, tv_observedDigest = ob_workingTreeDigest obs,
          tv_fresh = (headMatches \<and> workingTreeMatches), tv_headMatches = headMatches,
          tv_workingTreeMatches = workingTreeMatches\<rparr>)"

section \<open>Operations\<close>

definition optional_text :: "string option \<Rightarrow> nat \<Rightarrow> task_error + string option" where
  "optional_text input maxBytes =
     (case input of None \<Rightarrow> Inr None | Some s \<Rightarrow> bind_res (boundedText s maxBytes) (\<lambda>t. Inr (Some t)))"

definition with_observation ::
  "task_env \<Rightarrow> string \<Rightarrow> task_disk \<Rightarrow> (observation \<Rightarrow> task_error + (task_disk \<times> task_view))
    \<Rightarrow> task_disk \<times> (task_error + task_view)" where
  "with_observation env cwdInput disk body =
     (case (if \<not> te_project env then Inl TaskAuthority
            else bind_res (observeRepositoryState (te_repo env) cwdInput) body) of
        Inl e \<Rightarrow> (disk, Inl e)
      | Inr (disk', view) \<Rightarrow> (disk', Inr view))"

definition start_body ::
  "abspath \<Rightarrow> task_env \<Rightarrow> observation \<Rightarrow> string \<Rightarrow> string option \<Rightarrow> task_disk
    \<Rightarrow> task_error + (task_disk \<times> task_view)" where
  "start_body stateRoot env obs goalInput nextStepInput disk =
     bind_res (boundedText goalInput MAX_TEXT_BYTES) (\<lambda>goal.
     bind_res (optional_text nextStepInput MAX_SUMMARY_BYTES) (\<lambda>nextStep.
     let record = \<lparr>ts_taskId = te_uuid env, ts_status = TaskActive, ts_revision = 1, ts_goal = goal,
           ts_repositoryRoot = path_string (ob_repositoryRoot obs),
           ts_projectFingerprint = ob_projectFingerprint obs, ts_baseHead = ob_head obs,
           ts_currentHead = ob_head obs, ts_workingTreeDigest = ob_workingTreeDigest obs,
           ts_nextStep = joptional nextStep, ts_checkpoints = [], ts_outcome = JUndefined,
           ts_createdAt = te_now env, ts_updatedAt = te_now env, ts_extra = []\<rparr>
     in bind_res (task_persist stateRoot env obs record disk) (\<lambda>disk'.
          Inr (disk', view_of record obs))))"

definition task_start ::
  "abspath \<Rightarrow> task_env \<Rightarrow> string \<Rightarrow> string \<Rightarrow> string option \<Rightarrow> task_disk
    \<Rightarrow> task_disk \<times> (task_error + task_view)" where
  "task_start stateRoot env goalInput cwdInput nextStepInput disk =
     with_observation env cwdInput disk (\<lambda>obs. start_body stateRoot env obs goalInput nextStepInput disk)"

definition new_checkpoint ::
  "task_env \<Rightarrow> observation \<Rightarrow> int \<Rightarrow> checkpoint_input \<Rightarrow> task_error + checkpoint" where
  "new_checkpoint env obs revision input =
     bind_res (boundedText (ci_summary input) MAX_SUMMARY_BYTES) (\<lambda>summary.
     bind_res (boundedList (ci_findings input) 20 MAX_ITEM_BYTES) (\<lambda>findings.
     bind_res (boundedList (ci_decisions input) 20 MAX_ITEM_BYTES) (\<lambda>decisions.
     bind_res (normalizedPaths (ob_repositoryRoot obs) (ci_inspectedFiles input)) (\<lambda>inspectedFiles.
     bind_res (normalizedPaths (ob_repositoryRoot obs) (ci_modifiedFiles input)) (\<lambda>modifiedFiles.
     bind_res (optional_text (ci_nextStep input) MAX_SUMMARY_BYTES) (\<lambda>nextStep.
     bind_res (boundedList (ci_evidenceRefs input) 50 MAX_EVIDENCE_BYTES) (\<lambda>evidenceRefs.
     Inr \<lparr>cp_revision = revision, cp_summary = summary, cp_findings = findings, cp_decisions = decisions,
       cp_inspectedFiles = inspectedFiles, cp_modifiedFiles = modifiedFiles, cp_nextStep = nextStep,
       cp_evidenceRefs = evidenceRefs, cp_head = ob_head obs,
       cp_workingTreeDigest = ob_workingTreeDigest obs, cp_createdAt = te_now env\<rparr>)))))))"

text \<open>The body of \<open>checkpoint\<close> under the lock of the record's path.\<close>

definition checkpoint_locked ::
  "abspath \<Rightarrow> task_env \<Rightarrow> observation \<Rightarrow> string \<Rightarrow> checkpoint_input \<Rightarrow> task_disk
    \<Rightarrow> task_error + (task_disk \<times> task_view)" where
  "checkpoint_locked stateRoot env obs taskId input disk =
     bind_res (task_load stateRoot obs taskId disk) (\<lambda>record.
       if ts_status record \<noteq> TaskActive then Inl TaskConflict
       else if length (ts_checkpoints record) \<ge> MAX_CHECKPOINTS then Inl TaskLimit
       else
         let revision = ts_revision record + 1
         in bind_res (new_checkpoint env obs revision input) (\<lambda>checkpoint.
              let updated = record\<lparr>ts_revision := revision, ts_currentHead := ob_head obs,
                    ts_workingTreeDigest := ob_workingTreeDigest obs,
                    ts_nextStep := (case cp_nextStep checkpoint of None \<Rightarrow> ts_nextStep record
                                    | Some n \<Rightarrow> JString n),
                    ts_checkpoints := ts_checkpoints record @ [checkpoint_json checkpoint],
                    ts_updatedAt := te_now env\<rparr>
              in bind_res (task_persist stateRoot env obs updated disk) (\<lambda>disk'.
                   Inr (disk', view_of updated obs))))"

definition task_checkpoint ::
  "abspath \<Rightarrow> task_env \<Rightarrow> string \<Rightarrow> checkpoint_input \<Rightarrow> string \<Rightarrow> task_disk
    \<Rightarrow> task_disk \<times> (task_error + task_view)" where
  "task_checkpoint stateRoot env taskId input cwdInput disk =
     with_observation env cwdInput disk (\<lambda>obs. checkpoint_locked stateRoot env obs taskId input disk)"

definition task_status_op ::
  "abspath \<Rightarrow> task_env \<Rightarrow> string \<Rightarrow> string \<Rightarrow> task_disk \<Rightarrow> task_disk \<times> (task_error + task_view)" where
  "task_status_op stateRoot env taskId cwdInput disk =
     with_observation env cwdInput disk (\<lambda>obs.
       bind_res (task_load stateRoot obs taskId disk) (\<lambda>record. Inr (disk, view_of record obs)))"

text \<open>The body of \<open>terminal\<close> under the lock.\<close>

definition terminal_locked ::
  "abspath \<Rightarrow> task_env \<Rightarrow> observation \<Rightarrow> task_status \<Rightarrow> string \<Rightarrow> string \<Rightarrow> string list option \<Rightarrow> task_disk
    \<Rightarrow> task_error + (task_disk \<times> task_view)" where
  "terminal_locked stateRoot env obs status taskId summaryInput evidenceRefsInput disk =
     bind_res (task_load stateRoot obs taskId disk) (\<lambda>record.
       if ts_status record \<noteq> TaskActive then Inl TaskConflict
       else
         bind_res (boundedText summaryInput MAX_SUMMARY_BYTES) (\<lambda>summary.
         bind_res (boundedList evidenceRefsInput 50 MAX_EVIDENCE_BYTES) (\<lambda>evidenceRefs.
         let updated = record\<lparr>ts_status := status, ts_revision := ts_revision record + 1,
               ts_currentHead := ob_head obs, ts_workingTreeDigest := ob_workingTreeDigest obs,
               ts_outcome := outcome_json \<lparr>oc_status = status, oc_summary = summary,
                 oc_evidenceRefs = evidenceRefs, oc_head = ob_head obs,
                 oc_workingTreeDigest = ob_workingTreeDigest obs, oc_createdAt = te_now env\<rparr>,
               ts_updatedAt := te_now env\<rparr>
         in bind_res (task_persist stateRoot env obs updated disk) (\<lambda>disk'.
              Inr (disk', view_of updated obs)))))"

definition task_terminal ::
  "abspath \<Rightarrow> task_env \<Rightarrow> task_status \<Rightarrow> string \<Rightarrow> string \<Rightarrow> string list option \<Rightarrow> string \<Rightarrow> (string \<times> string) option
    \<Rightarrow> task_disk \<Rightarrow> task_disk \<times> (task_error + task_view)" where
  "task_terminal stateRoot env status taskId summaryInput evidenceRefsInput cwdInput verified disk =
     with_observation env cwdInput disk (\<lambda>obs.
       if (case verified of None \<Rightarrow> False
           | Some (head, digest) \<Rightarrow> head \<noteq> ob_head obs \<or> digest \<noteq> ob_workingTreeDigest obs)
       then Inl TaskConflict
       else terminal_locked stateRoot env obs status taskId summaryInput evidenceRefsInput disk)"

definition task_complete where
  "task_complete stateRoot env taskId summaryInput evidenceRefsInput cwdInput verified disk =
     task_terminal stateRoot env TaskCompleted taskId summaryInput evidenceRefsInput cwdInput (Some verified) disk"

definition task_fail where
  "task_fail stateRoot env taskId summaryInput evidenceRefsInput cwdInput disk =
     task_terminal stateRoot env TaskFailed taskId summaryInput evidenceRefsInput cwdInput None disk"

section \<open>Reachable disks\<close>

text \<open>
  The operations that write, in any order, each with an observation of any repository at any earlier
  time. A new task has an identifier that no file of the project has.
\<close>

inductive task_step :: "abspath \<Rightarrow> task_disk \<Rightarrow> task_disk \<Rightarrow> bool" for root where
  task_started: "start_body root env obs goal nextStep disk = Inr (disk', v) \<Longrightarrow>
    disk (task_path root (ob_projectFingerprint obs) (te_uuid env)) = None \<Longrightarrow>
    task_step root disk disk'"
| task_checked: "checkpoint_locked root env obs i input disk = Inr (disk', v) \<Longrightarrow> task_step root disk disk'"
| task_ended: "terminal_locked root env obs status i summary refs disk = Inr (disk', v) \<Longrightarrow>
    status \<noteq> TaskActive \<Longrightarrow> task_step root disk disk'"

inductive task_steps :: "abspath \<Rightarrow> task_disk \<Rightarrow> task_disk \<Rightarrow> bool" for root where
  tss_refl: "task_steps root disk disk"
| tss_step: "task_steps root disk disk' \<Longrightarrow> task_step root disk' disk'' \<Longrightarrow> task_steps root disk disk''"

definition task_reachable :: "abspath \<Rightarrow> task_disk \<Rightarrow> bool" where
  "task_reachable root disk \<longleftrightarrow> task_steps root (\<lambda>p. None) disk"

definition history_ok :: "stored_task \<Rightarrow> checkpoint list \<Rightarrow> bool" where
  "history_ok r cps \<longleftrightarrow>
     ts_extra r = [] \<and> ts_checkpoints r = map checkpoint_json cps \<and> length cps \<le> MAX_CHECKPOINTS
     \<and> map cp_revision cps = [2..int (length cps) + 1]
     \<and> ts_revision r = 1 + int (length cps) + (if ts_status r = TaskActive then 0 else 1)
     \<and> (if ts_status r = TaskActive then ts_outcome r = JUndefined
          \<and> (if cps = [] then ts_currentHead r = ts_baseHead r
             else ts_currentHead r = cp_head (last cps) \<and> ts_workingTreeDigest r = cp_workingTreeDigest (last cps))
        else (\<exists>oc. ts_outcome r = outcome_json oc \<and> oc_status oc = ts_status r \<and> oc_head oc = ts_currentHead r
          \<and> oc_workingTreeDigest oc = ts_workingTreeDigest r))"

definition file_ok :: "abspath \<Rightarrow> abspath \<Rightarrow> task_file \<Rightarrow> bool" where
  "file_ok root p f \<longleftrightarrow> (\<exists>r cps. f = TaskBytes (serialized_size (task_json r)) (Some (task_json r))
     \<and> serialized_size (task_json r) \<le> MAX_STATE_BYTES \<and> history_ok r cps
     \<and> p = task_path root (ts_projectFingerprint r) (ts_taskId r))"

definition disk_ok :: "abspath \<Rightarrow> task_disk \<Rightarrow> bool" where
  "disk_ok root disk \<longleftrightarrow> (\<forall>p f. disk p = Some f \<longrightarrow> file_ok root p f)"

lemma task_json_get:
  assumes "ts_extra r = []"
  shows "jget (task_json r) ''taskId'' = JString (ts_taskId r)"
    "jget (task_json r) ''status'' = JString (status_name (ts_status r))"
    "jget (task_json r) ''revision'' = JNum (ts_revision r)" "jget (task_json r) ''goal'' = JString (ts_goal r)"
    "jget (task_json r) ''repositoryRoot'' = JString (ts_repositoryRoot r)"
    "jget (task_json r) ''projectFingerprint'' = JString (ts_projectFingerprint r)"
    "jget (task_json r) ''baseHead'' = JString (ts_baseHead r)"
    "jget (task_json r) ''currentHead'' = JString (ts_currentHead r)"
    "jget (task_json r) ''workingTreeDigest'' = JString (ts_workingTreeDigest r)"
    "jget (task_json r) ''nextStep'' = ts_nextStep r"
    "jget (task_json r) ''checkpoints'' = JArr (ts_checkpoints r)"
    "jget (task_json r) ''createdAt'' = JString (ts_createdAt r)"
    "jget (task_json r) ''updatedAt'' = JString (ts_updatedAt r)" "jget (task_json r) ''outcome'' = ts_outcome r"
  unfolding task_json_def assms by (subst jget_jobject; simp)+

lemma task_json_known:
  assumes "ts_extra r = []"
  shows "\<exists>fs. task_json r = JObj fs \<and> filter (\<lambda>f. fst f \<notin> set task_keys) fs = []"
proof -
  have filtered: "\<forall>f \<in> set fs. fst f \<in> set keys \<Longrightarrow> filter (\<lambda>f. fst f \<notin> set keys) (filter P fs) = []"
    for fs :: "(string \<times> jval) list" and keys P by (induction fs) auto
  show ?thesis
    unfolding task_json_def jobject_def assms append_Nil2
    by (rule exI, rule conjI, rule refl, rule filtered) (simp add: task_keys_def)
qed

lemma status_decoded:
  "(if JString (status_name s) = JString ''active'' then TaskActive
    else if JString (status_name s) = JString ''completed'' then TaskCompleted else TaskFailed) = s"
  "JString (status_name s) \<in> set [JString ''active'', JString ''completed'', JString ''failed'']"
  by (cases s; simp add: status_name_def)+

lemma task_json_roundtrip:
  assumes "ts_extra r = []" "1 \<le> ts_revision r" "length (ts_checkpoints r) \<le> MAX_CHECKPOINTS"
  shows "validStoredRecord (task_json r) (ts_taskId r) (ts_projectFingerprint r)" "task_of (task_json r) = r"
proof -
  show "validStoredRecord (task_json r) (ts_taskId r) (ts_projectFingerprint r)"
    unfolding validStoredRecord_def task_json_get [OF assms(1)]
    using assms(2,3) status_decoded(2) by simp
  obtain fs where fs: "task_json r = JObj fs" "filter (\<lambda>f. fst f \<notin> set task_keys) fs = []"
    using task_json_known [OF assms(1)] by blast
  then have "(case task_json r of JObj fs \<Rightarrow> filter (\<lambda>f. fst f \<notin> set task_keys) fs | _ \<Rightarrow> []) = ts_extra r"
    by (simp add: assms(1))
  then show "task_of (task_json r) = r"
    unfolding task_of_def task_json_get [OF assms(1)] status_decoded(1) by simp
qed

lemma history_roundtrip:
  "history_ok r cps \<Longrightarrow> validStoredRecord (task_json r) (ts_taskId r) (ts_projectFingerprint r)
    \<and> task_of (task_json r) = r"
  by (simp add: history_ok_def task_json_roundtrip)

lemma task_path_eq_iff [simp]: "task_path root f i = task_path root g j \<longleftrightarrow> f = g \<and> i = j"
  by (auto simp: task_path_def tasksDirectory_def)

lemma recordPath_Inr_iff:
  "recordPath root obs i = Inr p \<longleftrightarrow> uuid_v4 i \<and> p = task_path root (ob_projectFingerprint obs) i"
  by (auto simp: recordPath_def)

lemma task_load_cong:
  "disk' (task_path root (ob_projectFingerprint obs) i) = disk (task_path root (ob_projectFingerprint obs) i)
    \<Longrightarrow> task_load root obs i disk' = task_load root obs i disk"
  by (simp add: task_load_def recordPath_def)

lemma task_load_stored:
  assumes "disk_ok root disk" "task_load root obs i disk = Inr r"
  shows "uuid_v4 i" "ts_taskId r = i" "ts_projectFingerprint r = ob_projectFingerprint obs" "\<exists>cps. history_ok r cps"
proof -
  let ?p = "task_path root (ob_projectFingerprint obs) i"
  from assms(2) have "\<exists>f. disk ?p = Some f" and u: "uuid_v4 i"
    unfolding task_load_def bind_res_Inr_iff recordPath_Inr_iff by (cases "disk ?p"; auto)+
  then obtain f where f: "disk ?p = Some f" by blast
  with assms(1) have "file_ok root ?p f" by (simp add: disk_ok_def)
  then obtain s cps where s: "f = TaskBytes (serialized_size (task_json s)) (Some (task_json s))"
    "serialized_size (task_json s) \<le> MAX_STATE_BYTES"
    and h: "history_ok s cps" and p: "?p = task_path root (ts_projectFingerprint s) (ts_taskId s)"
    unfolding file_ok_def by (elim exE conjE) (rule that)
  have d: "ts_taskId s = i" "ts_projectFingerprint s = ob_projectFingerprint obs" using p by auto
  then have "task_load root obs i disk = Inr s"
    using f s u history_roundtrip [OF h] by (simp add: task_load_def recordPath_def)
  with assms(2) have "r = s" by simp
  with d h u show "uuid_v4 i" "ts_taskId r = i" "ts_projectFingerprint r = ob_projectFingerprint obs"
    "\<exists>cps. history_ok r cps" by blast+
qed

lemma task_persist_stored:
  assumes "disk_ok root disk" "task_persist root env obs r disk = Inr disk'" "history_ok r cps"
    "ts_projectFingerprint r = ob_projectFingerprint obs"
  shows "disk_ok root disk'" "task_load root obs (ts_taskId r) disk' = Inr r"
    "\<And>q. q \<noteq> task_path root (ob_projectFingerprint obs) (ts_taskId r) \<Longrightarrow> disk' q = disk q"
proof -
  from assms(2) have u: "uuid_v4 (ts_taskId r)" and n: "serialized_size (task_json r) \<le> MAX_STATE_BYTES"
    and d: "disk' = disk(task_path root (ob_projectFingerprint obs) (ts_taskId r)
      \<mapsto> TaskBytes (serialized_size (task_json r)) (Some (task_json r)))"
    by (auto simp: task_persist_def bind_res_Inr_iff recordPath_Inr_iff Let_def split: if_splits)
  have "file_ok root (task_path root (ob_projectFingerprint obs) (ts_taskId r))
      (TaskBytes (serialized_size (task_json r)) (Some (task_json r)))"
    unfolding file_ok_def using n assms(3,4) by (intro exI [of _ r] exI [of _ cps]) simp
  with assms(1) d show "disk_ok root disk'" by (auto simp: disk_ok_def)
  show "task_load root obs (ts_taskId r) disk' = Inr r"
    using history_roundtrip [OF assms(3)] assms(4) u n d
    by (simp add: task_load_def recordPath_def)
  show "disk' q = disk q" if "q \<noteq> task_path root (ob_projectFingerprint obs) (ts_taskId r)" for q
    using that d by simp
qed

text \<open>What the three writing bodies do to a disk that holds records of this service.\<close>

lemma start_body_stored:
  assumes "disk_ok root disk" "start_body root env obs goal nextStep disk = Inr (disk', v)"
  shows "disk_ok root disk' \<and> task_load root obs (te_uuid env) disk' = Inr (tv_record v)
    \<and> (\<forall>q. q \<noteq> task_path root (ob_projectFingerprint obs) (te_uuid env) \<longrightarrow> disk' q = disk q)"
proof -
  from assms(2) obtain r where p: "task_persist root env obs r disk = Inr disk'" and v: "v = view_of r obs"
    and r: "ts_taskId r = te_uuid env" "ts_projectFingerprint r = ob_projectFingerprint obs" "history_ok r []"
    by (auto simp: start_body_def bind_res_Inr_iff Let_def history_ok_def)
  from task_persist_stored [OF assms(1) p r(3,2)] r(1) v show ?thesis by (auto simp: view_of_def Let_def)
qed

lemma new_checkpoint_fields:
  "new_checkpoint env obs n input = Inr c \<Longrightarrow> cp_revision c = n \<and> cp_head c = ob_head obs
    \<and> cp_workingTreeDigest c = ob_workingTreeDigest obs"
  by (auto simp: new_checkpoint_def bind_res_Inr_iff)

lemma checkpoint_locked_stored:
  assumes "disk_ok root disk" "checkpoint_locked root env obs i input disk = Inr (disk', v)"
  shows "\<exists>r. task_load root obs i disk = Inr r \<and> ts_status r = TaskActive
    \<and> disk_ok root disk' \<and> task_load root obs i disk' = Inr (tv_record v)
    \<and> (\<forall>q. q \<noteq> task_path root (ob_projectFingerprint obs) i \<longrightarrow> disk' q = disk q)"
proof -
  from assms(2) obtain r c where l: "task_load root obs i disk = Inr r" and a: "ts_status r = TaskActive"
    and few: "length (ts_checkpoints r) < MAX_CHECKPOINTS"
    and c: "new_checkpoint env obs (ts_revision r + 1) input = Inr c"
    and p: "task_persist root env obs (tv_record v) disk = Inr disk'"
    and w: "tv_record v = r\<lparr>ts_revision := ts_revision r + 1, ts_currentHead := ob_head obs,
        ts_workingTreeDigest := ob_workingTreeDigest obs,
        ts_nextStep := (case cp_nextStep c of None \<Rightarrow> ts_nextStep r | Some n \<Rightarrow> JString n),
        ts_checkpoints := ts_checkpoints r @ [checkpoint_json c], ts_updatedAt := te_now env\<rparr>"
    by (auto simp: checkpoint_locked_def bind_res_Inr_iff Let_def view_of_def not_le split: if_splits)
  note s = task_load_stored [OF assms(1) l]
  from s(4) obtain cps where h: "history_ok r cps" by blast
  have "[2..int (length cps) + 2] = [2..int (length cps) + 1] @ [int (length cps) + 2]"
    using upto_rec2 [of 2 "int (length cps) + 2"] by (simp add: add.commute)
  with h a few new_checkpoint_fields [OF c] have "history_ok (tv_record v) (cps @ [c])"
    by (simp add: history_ok_def w add.commute)
  from task_persist_stored [OF assms(1) p this] s l a show ?thesis by (simp add: w)
qed

lemma terminal_locked_stored:
  assumes "disk_ok root disk" "terminal_locked root env obs status i summary refs disk = Inr (disk', v)"
    "status \<noteq> TaskActive"
  shows "\<exists>r. task_load root obs i disk = Inr r \<and> ts_status r = TaskActive
    \<and> ts_status (tv_record v) = status \<and> ts_checkpoints (tv_record v) = ts_checkpoints r
    \<and> v = view_of (tv_record v) obs \<and> tv_fresh v
    \<and> disk_ok root disk' \<and> task_load root obs i disk' = Inr (tv_record v)
    \<and> (\<forall>q. q \<noteq> task_path root (ob_projectFingerprint obs) i \<longrightarrow> disk' q = disk q)"
proof -
  from assms(2) obtain r oc where l: "task_load root obs i disk = Inr r" and a: "ts_status r = TaskActive"
    and p: "task_persist root env obs (tv_record v) disk = Inr disk'" and v: "v = view_of (tv_record v) obs"
    and w: "tv_record v = r\<lparr>ts_status := status, ts_revision := ts_revision r + 1, ts_currentHead := ob_head obs,
        ts_workingTreeDigest := ob_workingTreeDigest obs, ts_outcome := outcome_json oc, ts_updatedAt := te_now env\<rparr>"
    and oc: "oc_status oc = status" "oc_head oc = ob_head obs" "oc_workingTreeDigest oc = ob_workingTreeDigest obs"
    by (auto simp: terminal_locked_def bind_res_Inr_iff Let_def view_of_def split: if_splits)
  note s = task_load_stored [OF assms(1) l]
  from s(4) obtain cps where h: "history_ok r cps" by blast
  have "history_ok (tv_record v) cps" using h a assms(3) oc by (auto simp: history_ok_def w)
  note t = task_persist_stored [OF assms(1) p this]
  have "tv_fresh (view_of (tv_record v) obs)" by (simp add: view_of_def Let_def w)
  with v have "tv_fresh v" by simp
  moreover have "ts_taskId (tv_record v) = i" "ts_projectFingerprint (tv_record v) = ob_projectFingerprint obs"
    using s(2,3) by (simp_all add: w)
  moreover have "ts_status (tv_record v) = status" "ts_checkpoints (tv_record v) = ts_checkpoints r"
    by (simp_all add: w)
  ultimately show ?thesis using t l a v by metis
qed

section \<open>Steps\<close>

lemma task_step_stored:
  assumes "task_step root disk disk'" "disk_ok root disk"
  shows "disk_ok root disk' \<and> (\<forall>obs i r. task_load root obs i disk = Inr r \<longrightarrow> ts_status r \<noteq> TaskActive
    \<longrightarrow> task_load root obs i disk' = Inr r)"
proof -
  have kept: "task_load root obs i disk' = Inr r"
    if l: "task_load root obs i disk = Inr r" and ended: "ts_status r \<noteq> TaskActive"
      and only: "\<And>q. q \<noteq> task_path root (ob_projectFingerprint obs') j \<Longrightarrow> disk' q = disk q"
      and old: "(\<exists>r. task_load root obs' j disk = Inr r \<and> ts_status r = TaskActive)
        \<or> disk (task_path root (ob_projectFingerprint obs') j) = None" for obs obs' i j r
  proof -
    have "\<not> (ob_projectFingerprint obs' = ob_projectFingerprint obs \<and> j = i)"
    proof
      assume same: "ob_projectFingerprint obs' = ob_projectFingerprint obs \<and> j = i"
      then have "task_load root obs' j disk = task_load root obs i disk"
        by (elim conjE) (simp only: task_load_def recordPath_def)
      with l have "task_load root obs' j disk = Inr r" by simp
      with old ended have "disk (task_path root (ob_projectFingerprint obs) i) = None" using same by auto
      with l show False by (simp add: task_load_def bind_res_Inr_iff recordPath_Inr_iff)
    qed
    with only [of "task_path root (ob_projectFingerprint obs) i"] show ?thesis
      using l by (metis task_load_cong task_path_eq_iff)
  qed
  from assms show ?thesis
  proof (cases rule: task_step.cases)
    case task_started
    with start_body_stored [OF assms(2)] kept show ?thesis by blast
  next
    case task_checked
    with checkpoint_locked_stored [OF assms(2)] kept show ?thesis by blast
  next
    case task_ended
    with terminal_locked_stored [OF assms(2)] kept show ?thesis by blast
  qed
qed

lemma task_steps_stored:
  "task_steps root disk disk' \<Longrightarrow> disk_ok root disk \<Longrightarrow> disk_ok root disk'
    \<and> (task_load root obs i disk = Inr r \<longrightarrow> ts_status r \<noteq> TaskActive \<longrightarrow> task_load root obs i disk' = Inr r)"
  by (induction rule: task_steps.induct) (blast dest: task_step_stored)+

lemma task_reachable_ok: "task_reachable root disk \<Longrightarrow> disk_ok root disk"
  unfolding task_reachable_def by (drule task_steps_stored) (auto simp: disk_ok_def)

lemma ended_conflict:
  assumes "task_load root obs i disk = Inr r" "ts_status r \<noteq> TaskActive"
  shows "checkpoint_locked root env obs i input disk = Inl TaskConflict"
    "terminal_locked root env obs status i summary refs disk = Inl TaskConflict"
  using assms by (simp_all add: checkpoint_locked_def terminal_locked_def)

text \<open>
  C17: A stored task is a consistent history. Whatever operations ran, with whatever observations,
  every file of a task is readable, and the record in it has between 0 and 64 checkpoints with the
  revisions 2, 3, and so on; its revision counts the checkpoints and the end of the task; its
  current head and digest are those of the last entry of the history; and it has an outcome exactly
  when it is not active.
\<close>

theorem task_history_consistent:
  assumes "task_reachable root disk" "task_load root obs i disk \<noteq> Inl TaskNotFound" "uuid_v4 i"
  shows "\<exists>r cps. task_load root obs i disk = Inr r \<and> ts_taskId r = i \<and> history_ok r cps"
proof -
  note ok = task_reachable_ok [OF assms(1)]
  let ?p = "task_path root (ob_projectFingerprint obs) i"
  from assms(2,3) obtain f where f: "disk ?p = Some f"
    by (cases "disk ?p") (auto simp: task_load_def recordPath_def)
  with ok have "file_ok root ?p f" by (simp add: disk_ok_def)
  then obtain r cps where "f = TaskBytes (serialized_size (task_json r)) (Some (task_json r))"
    "serialized_size (task_json r) \<le> MAX_STATE_BYTES" "history_ok r cps"
    "?p = task_path root (ts_projectFingerprint r) (ts_taskId r)"
    unfolding file_ok_def by (elim exE conjE) (rule that)
  with f assms(3) history_roundtrip [of r cps] show ?thesis
    by (intro exI [of _ r] exI [of _ cps]) (simp add: task_load_def recordPath_def)
qed

text \<open>
  C18: Completing a task is bound to the verified state and final. When \<open>complete\<close> returns, the
  repository it observed has the head and the digest that were verified, the task was active, the
  view is fresh and shows the same checkpoints, and after any further operations the record is
  still the same and every checkpoint or second end of the task is a conflict.
\<close>

theorem task_completion_final:
  assumes "task_reachable root disk" "task_complete root env i summary refs cwd verified disk = (disk1, Inr v)"
    "task_steps root disk1 disk2"
  shows "\<exists>obs r. observeRepositoryState (te_repo env) cwd = Inr obs
    \<and> verified = (ob_head obs, ob_workingTreeDigest obs) \<and> tv_fresh v
    \<and> task_load root obs i disk = Inr r \<and> ts_status r = TaskActive
    \<and> ts_checkpoints (tv_record v) = ts_checkpoints r \<and> ts_status (tv_record v) = TaskCompleted
    \<and> task_load root obs i disk2 = Inr (tv_record v)
    \<and> checkpoint_locked root env' obs i input disk2 = Inl TaskConflict
    \<and> terminal_locked root env' obs status i summary' refs' disk2 = Inl TaskConflict"
proof -
  note ok = task_reachable_ok [OF assms(1)]
  from assms(2) obtain obs where o: "observeRepositoryState (te_repo env) cwd = Inr obs"
    and ver: "verified = (ob_head obs, ob_workingTreeDigest obs)"
    and t: "terminal_locked root env obs TaskCompleted i summary refs disk = Inr (disk1, v)"
    by (auto simp: task_complete_def task_terminal_def with_observation_def bind_res_Inr_iff
      split: sum.splits if_splits prod.splits)
  from terminal_locked_stored [OF ok t] obtain r where r: "task_load root obs i disk = Inr r"
    "ts_status r = TaskActive" "ts_status (tv_record v) = TaskCompleted"
    "ts_checkpoints (tv_record v) = ts_checkpoints r" "tv_fresh v" "disk_ok root disk1"
    "task_load root obs i disk1 = Inr (tv_record v)" by auto
  from task_steps_stored [OF assms(3) r(6)] r(3,7) have l: "task_load root obs i disk2 = Inr (tv_record v)" by auto
  from ended_conflict [OF l] r(3) o ver r l show ?thesis
    by (intro exI [of _ obs] exI [of _ r]) simp
qed

section \<open>A task on the sample repository\<close>

definition demo_task_env :: task_env where
  "demo_task_env = \<lparr>te_repo = demo_repo (\<lambda>b. show_nat (length b)) OpenMissing, te_project = True,
     te_uuid = ''01234567-89ab-4cde-8f01-23456789abcd'', te_now = ''2024-02-29T12:00:00.000Z'',
     te_mkdir = True, te_write = True\<rparr>"

definition demo_obs :: observation where
  "demo_obs = \<lparr>ob_repositoryRoot = [''r''], ob_projectFingerprint = ''41'',
     ob_head = replicate 40 (CHR ''a''), ob_workingTreeDigest = ''32''\<rparr>"

lemma demo_observation: "observeRepositoryState (te_repo demo_task_env) ''.'' = Inr demo_obs"
proof -
  have "path_resolve [''r''] ''f'' = [''r'', ''f'']" "task_isInside [''r''] [''r'', ''f'']" by code_simp+
  then have h: "hash_untracked (demo_repo (\<lambda>b. show_nat (length b)) OpenMissing) [''r''] 0 [''f'']
      = Inr (js_bytes ''path'' @ [0] @ js_bytes ''f'' @ [0] @ [0])"
    by (simp add: hashUntrackedFile_def demo_repo_def Let_def MAX_UNTRACKED_BYTES_def)
  have "show_nat 41 = ''41''" "show_nat 32 = ''32''" by code_simp+
  moreover have "length (js_bytes ''git-common-dir'' @ [0] @ js_bytes ''/r/.git'' @ [0]
      @ js_bytes ''repository-root'' @ [0] @ js_bytes ''/r'') = 41"
    "length (js_bytes ''tracked-diff'' @ [0] @ js_bytes [] @ [0] @ js_bytes ''untracked''
      @ [0] @ js_bytes ''path'' @ [0] @ js_bytes ''f'' @ [0] @ [0 :: byte]) = 32"
    by (simp_all add: length_js_bytes js_byteLength_def)
  ultimately show ?thesis
    unfolding demo_task_env_def demo_obs_def task_env.simps demo_observe [OF h] by simp
qed

lemma demo_redacted: "boundedText ''goal'' MAX_TEXT_BYTES = Inr ''goal''" "boundedText ''done'' MAX_SUMMARY_BYTES = Inr ''done''"
proof -
  have "redacted ''goal'' = ''goal''" "redacted ''done'' = ''done''" "js_trim ''goal'' \<noteq> []" "js_trim ''done'' \<noteq> []"
    by code_simp+
  then show "boundedText ''goal'' MAX_TEXT_BYTES = Inr ''goal''" "boundedText ''done'' MAX_SUMMARY_BYTES = Inr ''done''"
    by (simp_all add: boundedText_def js_byteLength_def MAX_TEXT_BYTES_def MAX_SUMMARY_BYTES_def)
qed

text \<open>The records of a task before and after its completion.\<close>

definition demo_task :: "task_status \<Rightarrow> stored_task" where
  "demo_task status = \<lparr>ts_taskId = te_uuid demo_task_env, ts_status = status,
     ts_revision = (if status = TaskActive then 1 else 2), ts_goal = ''goal'',
     ts_repositoryRoot = ''/r'', ts_projectFingerprint = ''41'', ts_baseHead = replicate 40 (CHR ''a''),
     ts_currentHead = replicate 40 (CHR ''a''), ts_workingTreeDigest = ''32'', ts_nextStep = JUndefined,
     ts_checkpoints = [],
     ts_outcome = (if status = TaskActive then JUndefined else outcome_json \<lparr>oc_status = status,
       oc_summary = ''done'', oc_evidenceRefs = [], oc_head = replicate 40 (CHR ''a''),
       oc_workingTreeDigest = ''32'', oc_createdAt = te_now demo_task_env\<rparr>),
     ts_createdAt = te_now demo_task_env, ts_updatedAt = te_now demo_task_env, ts_extra = []\<rparr>"

lemma demo_size: "serialized_size (task_json (demo_task TaskActive)) \<le> MAX_STATE_BYTES"
  "serialized_size (task_json (demo_task TaskCompleted)) \<le> MAX_STATE_BYTES"
proof -
  have "serialized_size (task_json (demo_task TaskActive)) \<le> 700"
    "serialized_size (task_json (demo_task TaskCompleted)) \<le> 1000" by code_simp+
  then show "serialized_size (task_json (demo_task TaskActive)) \<le> MAX_STATE_BYTES"
    "serialized_size (task_json (demo_task TaskCompleted)) \<le> MAX_STATE_BYTES"
    by (simp_all add: MAX_STATE_BYTES_def)
qed

lemma demo_uuid_ok: "uuid_v4 (te_uuid demo_task_env)" by code_simp

lemma demo_persist:
  assumes "status \<in> {TaskActive, TaskCompleted}"
  shows "\<exists>disk'. task_persist [] demo_task_env demo_obs (demo_task status) disk = Inr disk'"
  using assms demo_size demo_uuid_ok
  by (auto simp: task_persist_def recordPath_def demo_task_def demo_task_env_def Let_def)

lemma demo_start:
  "\<exists>disk'. start_body [] demo_task_env demo_obs ''goal'' None (\<lambda>p. None) = Inr (disk', view_of (demo_task TaskActive) demo_obs)"
proof -
  obtain disk' where p: "task_persist [] demo_task_env demo_obs (demo_task TaskActive) (\<lambda>p. None) = Inr disk'"
    using demo_persist [of TaskActive] by blast
  have "path_string [''r''] = ''/r''" by code_simp
  with p show ?thesis
    by (simp add: start_body_def demo_redacted optional_text_def Let_def demo_task_def demo_obs_def joptional_def)
qed

definition demo_disk where
  "demo_disk = (case start_body [] demo_task_env demo_obs ''goal'' None (\<lambda>p. None) of Inr (d, v) \<Rightarrow> d | Inl e \<Rightarrow> (\<lambda>p. None))"

lemma demo_disk:
  "task_reachable [] demo_disk" "task_load [] demo_obs (te_uuid demo_task_env) demo_disk = Inr (demo_task TaskActive)"
proof -
  obtain d where d: "start_body [] demo_task_env demo_obs ''goal'' None (\<lambda>p. None)
      = Inr (d, view_of (demo_task TaskActive) demo_obs)" using demo_start by blast
  then have eq: "demo_disk = d" by (simp add: demo_disk_def)
  show "task_reachable [] demo_disk"
    unfolding eq task_reachable_def by (rule tss_step [OF tss_refl task_started [OF d]]) simp
  have "disk_ok [] (\<lambda>p. None)" by (simp add: disk_ok_def)
  from start_body_stored [OF this d]
  show "task_load [] demo_obs (te_uuid demo_task_env) demo_disk = Inr (demo_task TaskActive)"
    by (simp add: eq view_of_def Let_def)
qed

theorem task_history_consistent_witness:
  "\<exists>r cps. task_load [] demo_obs (te_uuid demo_task_env) demo_disk = Inr r \<and> ts_goal r = ''goal'' \<and> history_ok r cps"
proof -
  have "task_load [] demo_obs (te_uuid demo_task_env) demo_disk \<noteq> Inl TaskNotFound" by (simp add: demo_disk(2))
  from task_history_consistent [OF demo_disk(1) this demo_uuid_ok] obtain r cps where
    "task_load [] demo_obs (te_uuid demo_task_env) demo_disk = Inr r" "history_ok r cps"
    by (elim exE conjE) (rule that)
  then show ?thesis by (intro exI [of _ r] exI [of _ cps]) (auto simp: demo_disk(2) demo_task_def)
qed

lemma demo_complete:
  "\<exists>d. task_complete [] demo_task_env (te_uuid demo_task_env) ''done'' None ''.''
     (replicate 40 (CHR ''a''), ''32'') demo_disk = (d, Inr (view_of (demo_task TaskCompleted) demo_obs))"
proof -
  obtain d where "task_persist [] demo_task_env demo_obs (demo_task TaskCompleted) demo_disk = Inr d"
    using demo_persist [of TaskCompleted] by blast
  then have "terminal_locked [] demo_task_env demo_obs TaskCompleted (te_uuid demo_task_env) ''done'' None demo_disk
      = Inr (d, view_of (demo_task TaskCompleted) demo_obs)"
    by (simp add: terminal_locked_def demo_disk(2) demo_redacted boundedList_def Let_def)
      (simp add: demo_task_def demo_obs_def)
  moreover have "te_project demo_task_env" by (simp add: demo_task_env_def)
  ultimately show ?thesis
    by (simp add: task_complete_def task_terminal_def with_observation_def demo_observation)
      (simp add: demo_obs_def)
qed

theorem task_completion_final_witness:
  "\<exists>d v. task_complete [] demo_task_env (te_uuid demo_task_env) ''done'' None ''.''
     (replicate 40 (CHR ''a''), ''32'') demo_disk = (d, Inr v)
   \<and> tv_fresh v \<and> terminal_locked [] demo_task_env demo_obs TaskFailed (te_uuid demo_task_env) ''again'' None d
       = Inl TaskConflict"
proof -
  obtain d v where c: "task_complete [] demo_task_env (te_uuid demo_task_env) ''done'' None ''.''
     (replicate 40 (CHR ''a''), ''32'') demo_disk = (d, Inr v)" using demo_complete by blast
  from task_completion_final [OF demo_disk(1) c tss_refl, of demo_task_env _ TaskFailed "''again''" None]
  show ?thesis using c demo_observation by (intro exI [of _ d] exI [of _ v]) auto
qed

end
