(* ===== verification/Continuity_Store.thy ===== *)
theory Continuity_Store
  imports Prelude "HOL-Library.List_Lexorder" "HOL-Library.Char_ord"
begin

text \<open>
  \<open>src/src/continuity/continuity-store.ts\<close> and \<open>continuity-types.ts\<close>: the registered projects, the
  worktree of each and the numbered records of each, as three SQL tables whose rows are lists here.
  The validation schemas are predicates on JSON values; a JSON column holds the value its text
  parses to, or nothing if the text is not JSON. An alias is a list of UTF-16 code units, because
  its key goes through the Unicode normal form NFKC, which is a parameter like \<open>toLowerCase\<close> on
  all of Unicode and the clock.
\<close>

section \<open>Schemas\<close>

type_synonym schema = "jval \<Rightarrow> bool"

definition zstring :: "nat \<Rightarrow> nat \<Rightarrow> schema" where
  "zstring low high v \<longleftrightarrow> (case v of JString s \<Rightarrow> low \<le> length s \<and> length s \<le> high | _ \<Rightarrow> False)"

definition zany_string :: schema where "zany_string = is_JString"

definition zbool :: schema where "zbool = is_JBool"

definition znullable :: "schema \<Rightarrow> schema" where "znullable s v \<longleftrightarrow> v = JNull \<or> s v"

definition zenum :: "string list \<Rightarrow> schema" where
  "zenum names v \<longleftrightarrow> (case v of JString s \<Rightarrow> s \<in> set names | _ \<Rightarrow> False)"

definition zhex :: "nat \<Rightarrow> nat \<Rightarrow> schema" where
  "zhex low high v \<longleftrightarrow> (case v of JString s \<Rightarrow> low \<le> length s \<and> length s \<le> high
     \<and> list_all (\<lambda>c. c \<in> set ''0123456789abcdef'') s | _ \<Rightarrow> False)"

definition zarray :: "nat \<Rightarrow> nat \<Rightarrow> schema \<Rightarrow> schema" where
  "zarray low high s v \<longleftrightarrow>
     (case v of JArr vs \<Rightarrow> low \<le> length vs \<and> length vs \<le> high \<and> list_all s vs | _ \<Rightarrow> False)"

text \<open>A strict object: every member is known, and only members marked optional may be absent.\<close>

definition zobject :: "(string \<times> bool \<times> schema) list \<Rightarrow> schema" where
  "zobject members v \<longleftrightarrow>
     (case v of JObj fs \<Rightarrow> distinct (map fst fs)
         \<and> list_all (\<lambda>f. fst f \<in> set (map fst members)) fs
         \<and> list_all (\<lambda>(k, optional, s). (optional \<and> jget v k = JUndefined) \<or> s (jget v k)) members
      | _ \<Rightarrow> False)"

definition pathSchema :: schema where "pathSchema = zstring 1 16384"
definition projectRootsSchema :: schema where "projectRootsSchema = zarray 1 16 pathSchema"
definition semanticLineSchema :: schema where "semanticLineSchema = zstring 1 2000"

definition planStepSchema :: schema where
  "planStepSchema = zobject [(''step'', False, zstring 1 2000), (''status'', False, zstring 1 64),
     (''details'', True, zstring 0 4000)]"

definition taskSchema :: schema where
  "taskSchema = zobject [(''goal'', False, zstring 1 8000), (''constraints'', False, zarray 0 32 semanticLineSchema),
     (''successCriteria'', False, zarray 0 32 semanticLineSchema),
     (''status'', False, zenum [''active'', ''blocked'', ''completed'']), (''nextStep'', False, zstring 1 4000),
     (''detail'', True, zstring 0 32000), (''brief'', True, zstring 0 8000),
     (''planSteps'', True, zarray 0 20 planStepSchema), (''activity'', True, zarray 0 50 (zstring 1 500))]"

definition decisionSchema :: schema where
  "decisionSchema = zobject [(''decision'', False, zstring 1 4000), (''rationale'', False, zstring 1 8000),
     (''alternatives'', False, zarray 0 12 semanticLineSchema),
     (''evidence'', False, zarray 0 20 semanticLineSchema), (''validWhile'', True, zstring 0 4000)]"

definition semanticInputSchema :: schema where
  "semanticInputSchema = zobject [(''task'', False, taskSchema), (''decisions'', False, zarray 0 20 decisionSchema),
     (''uncertainties'', False, zarray 0 20 semanticLineSchema),
     (''verificationSummary'', False, zarray 0 20 semanticLineSchema)]"

definition zpositive :: schema where "zpositive v \<longleftrightarrow> (case v of JNum n \<Rightarrow> n > 0 | _ \<Rightarrow> False)"

definition semanticRecordSchema :: schema where
  "semanticRecordSchema = zobject [(''task'', False, taskSchema), (''decisions'', False, zarray 0 20 decisionSchema),
     (''uncertainties'', False, zarray 0 20 semanticLineSchema),
     (''verificationSummary'', False, zarray 0 20 semanticLineSchema),
     (''recordVersion'', False, zpositive), (''createdAt'', False, zany_string)]"

definition worktreeIdentitySchema :: schema where
  "worktreeIdentitySchema = zobject [(''canonicalPath'', False, pathSchema), (''repositoryRoot'', False, pathSchema),
     (''commonGitDir'', False, pathSchema), (''gitDir'', False, pathSchema),
     (''repositoryIdentity'', False, zhex 64 64), (''worktreeIdentity'', False, zhex 64 64)]"

definition localStateSchema :: schema where
  "localStateSchema = zobject [(''checkedAt'', False, zany_string), (''branch'', False, znullable zany_string),
     (''headSha'', False, zhex 40 64), (''stagedPaths'', False, zarray 0 100 pathSchema),
     (''unstagedPaths'', False, zarray 0 100 pathSchema), (''untrackedPaths'', False, zarray 0 100 pathSchema),
     (''pathsTruncated'', False, zbool)]"

definition remoteRefStateSchema :: schema where
  "remoteRefStateSchema = zobject [(''status'', False, zenum [''verified'', ''not_found'', ''unverified'']),
     (''ref'', False, znullable zany_string), (''currentSha'', True, zhex 40 64), (''checkedAt'', False, zany_string),
     (''lastVerifiedSha'', True, zhex 40 64), (''lastVerifiedAt'', True, zany_string),
     (''reason'', True, zenum [''detached_head'', ''remote_missing'', ''remote_error'', ''not_checked''])]"

definition publishedStateSchema :: schema where
  "publishedStateSchema = zobject [(''remoteName'', False, znullable (zenum [''origin''])),
     (''branch'', False, remoteRefStateSchema), (''main'', False, remoteRefStateSchema)]"

section \<open>Tables\<close>

type_synonym json_text = "jval option"

text \<open>What is read back from \<open>JSON.stringify\<close>: members that are \<open>undefined\<close> are gone.\<close>

fun json_clean :: "jval \<Rightarrow> jval" where
  "json_clean (JArr vs) = JArr (map json_clean vs)"
| "json_clean (JObj fs) = JObj (map (\<lambda>f. (fst f, json_clean (snd f))) (filter (\<lambda>f. snd f \<noteq> JUndefined) fs))"
| "json_clean v = v"

definition stringify :: "jval \<Rightarrow> json_text" where "stringify v = Some (json_clean v)"

record project_row =
  pr_id :: string
  pr_alias :: ustring
  pr_alias_key :: ustring
  pr_roots_json :: json_text
  pr_current_record_version :: int
  pr_created_at :: string
  pr_updated_at :: string

record worktree_row =
  wt_project_id :: string
  wt_canonical_path :: string
  wt_repository_root :: string
  wt_common_git_dir :: string
  wt_git_dir :: string
  wt_repository_identity :: string
  wt_worktree_identity :: string
  wt_local_state_json :: json_text
  wt_published_state_json :: json_text
  wt_checked_at :: string

record record_row =
  rr_project_id :: string
  rr_version :: int
  rr_task_json :: json_text
  rr_decisions_json :: json_text
  rr_uncertainties_json :: json_text
  rr_verification_summary_json :: json_text
  rr_created_at :: string

record cont_db =
  cd_projects :: "project_row list"
  cd_worktrees :: "worktree_row list"
  cd_records :: "record_row list"
  cd_open :: bool

datatype cont_error =
    ContZod | ContNotFound | ContConflict | ContInvalid | ContClosed | ContUnique | ContForeignKey

record cont_env =
  ce_nfkc :: "ustring \<Rightarrow> ustring"
  ce_lower :: "ustring \<Rightarrow> ustring"
  ce_now :: string

record stored_project =
  sp_id :: string
  sp_alias :: ustring
  sp_aliasKey :: ustring
  sp_roots :: jval
  sp_worktree :: jval
  sp_localState :: jval
  sp_publishedState :: jval
  sp_currentRecord :: jval
  sp_createdAt :: string
  sp_updatedAt :: string

record register_input =
  ri_id :: string
  ri_alias :: ustring
  ri_roots :: jval
  ri_worktree :: jval
  ri_localState :: jval
  ri_publishedState :: jval
  ri_semantic :: jval

record checkpoint_record =
  cr_projectId :: string
  cr_expectedRecordVersion :: int
  cr_semantic :: jval
  cr_localState :: jval
  cr_publishedState :: jval

record rebind_record =
  rb_projectId :: string
  rb_expectedRecordVersion :: int
  rb_roots :: jval
  rb_worktree :: jval
  rb_localState :: jval
  rb_publishedState :: jval

record project_entry =
  le_alias :: ustring
  le_roots :: jval
  le_recordVersion :: int
  le_worktreePath :: string
  le_updatedAt :: string

section \<open>Opening\<close>

text \<open>
  The names of the tables of the file and the rows of \<open>continuity_meta\<close>; the result says whether the
  tables were created.
\<close>

definition initializeSchema :: "string list \<Rightarrow> int list \<Rightarrow> cont_error + bool" where
  "initializeSchema tables versions =
     (if tables = [] then Inr True
      else if list_ex (\<lambda>t. t \<notin> set tables) [''continuity_meta'', ''continuity_records'', ''projects'', ''worktrees'']
      then Inl ContInvalid
      else if length versions \<noteq> 1 \<or> hd versions \<noteq> 1 then Inl ContInvalid
      else Inr False)"

definition cont_db_new :: cont_db where
  "cont_db_new = \<lparr>cd_projects = [], cd_worktrees = [], cd_records = [], cd_open = True\<rparr>"

section \<open>Statements\<close>

definition insert_project :: "project_row \<Rightarrow> cont_db \<Rightarrow> cont_error + cont_db" where
  "insert_project row db =
     (if pr_id row \<in> pr_id ` set (cd_projects db) \<or> pr_alias_key row \<in> pr_alias_key ` set (cd_projects db)
      then Inl ContUnique else Inr (db\<lparr>cd_projects := cd_projects db @ [row]\<rparr>))"

definition insert_worktree :: "worktree_row \<Rightarrow> cont_db \<Rightarrow> cont_error + cont_db" where
  "insert_worktree row db =
     (if wt_project_id row \<in> wt_project_id ` set (cd_worktrees db)
         \<or> wt_canonical_path row \<in> wt_canonical_path ` set (cd_worktrees db) then Inl ContUnique
      else if wt_project_id row \<notin> pr_id ` set (cd_projects db) then Inl ContForeignKey
      else Inr (db\<lparr>cd_worktrees := cd_worktrees db @ [row]\<rparr>))"

definition insert_record :: "record_row \<Rightarrow> cont_db \<Rightarrow> cont_error + cont_db" where
  "insert_record row db =
     (if list_ex (\<lambda>r. rr_project_id r = rr_project_id row \<and> rr_version r = rr_version row) (cd_records db)
      then Inl ContUnique
      else if rr_project_id row \<notin> pr_id ` set (cd_projects db) then Inl ContForeignKey
      else Inr (db\<lparr>cd_records := cd_records db @ [row]\<rparr>))"

text \<open>An update of the row of one project; a canonical path that another row has is refused.\<close>

definition update_project :: "string \<Rightarrow> (project_row \<Rightarrow> project_row) \<Rightarrow> cont_db \<Rightarrow> cont_db" where
  "update_project i f db = db\<lparr>cd_projects := map (\<lambda>p. if pr_id p = i then f p else p) (cd_projects db)\<rparr>"

definition update_worktree ::
  "string \<Rightarrow> (worktree_row \<Rightarrow> worktree_row) \<Rightarrow> cont_db \<Rightarrow> cont_error + (cont_db \<times> nat)" where
  "update_worktree i f db =
     (let rows = map (\<lambda>w. if wt_project_id w = i then f w else w) (cd_worktrees db)
      in if \<not> distinct (map wt_canonical_path rows) then Inl ContUnique
         else Inr (db\<lparr>cd_worktrees := rows\<rparr>, length (filter (\<lambda>w. wt_project_id w = i) (cd_worktrees db))))"

section \<open>Reading\<close>

definition u_space :: "nat \<Rightarrow> bool" where
  "u_space c \<longleftrightarrow> c \<in> {9..13} \<or> c \<in> {32, 160, 0x1680, 0x2028, 0x2029, 0x202F, 0x205F, 0x3000, 0xFEFF}
     \<or> c \<in> {0x2000..0x200A}"

definition u_trim :: "ustring \<Rightarrow> ustring" where
  "u_trim s = rev (dropWhile u_space (rev (dropWhile u_space s)))"

definition aliasSchema :: "ustring \<Rightarrow> ustring option" where
  "aliasSchema s = (let t = u_trim s in if 1 \<le> length t \<and> length t \<le> 128 then Some t else None)"

definition continuityAliasKey :: "cont_env \<Rightarrow> ustring \<Rightarrow> ustring" where
  "continuityAliasKey env alias = ce_lower env (ce_nfkc env (u_trim alias))"

definition parse_json :: "schema \<Rightarrow> json_text \<Rightarrow> cont_error + jval" where
  "parse_json s text = (case text of Some v \<Rightarrow> if s v then Inr v else Inl ContInvalid | None \<Rightarrow> Inl ContInvalid)"

definition json_parse :: "json_text \<Rightarrow> cont_error + jval" where
  "json_parse text = (case text of Some v \<Rightarrow> Inr v | None \<Rightarrow> Inl ContInvalid)"

definition parseSemanticRecord :: "record_row \<Rightarrow> cont_error + jval" where
  "parseSemanticRecord row =
     bind_res (json_parse (rr_task_json row)) (\<lambda>task.
     bind_res (json_parse (rr_decisions_json row)) (\<lambda>decisions.
     bind_res (json_parse (rr_uncertainties_json row)) (\<lambda>uncertainties.
     bind_res (json_parse (rr_verification_summary_json row)) (\<lambda>verificationSummary.
     let v = JObj [(''recordVersion'', JNum (rr_version row)), (''task'', task), (''decisions'', decisions),
           (''uncertainties'', uncertainties), (''verificationSummary'', verificationSummary),
           (''createdAt'', JString (rr_created_at row))]
     in if semanticRecordSchema v then Inr v else Inl ContInvalid))))"

definition worktree_json :: "worktree_row \<Rightarrow> jval" where
  "worktree_json w = JObj [(''canonicalPath'', JString (wt_canonical_path w)),
     (''repositoryRoot'', JString (wt_repository_root w)), (''commonGitDir'', JString (wt_common_git_dir w)),
     (''gitDir'', JString (wt_git_dir w)), (''repositoryIdentity'', JString (wt_repository_identity w)),
     (''worktreeIdentity'', JString (wt_worktree_identity w))]"

definition select_record :: "string \<Rightarrow> int \<Rightarrow> cont_db \<Rightarrow> record_row option" where
  "select_record i version db = find (\<lambda>r. rr_project_id r = i \<and> rr_version r = version) (cd_records db)"

definition getByAlias :: "cont_env \<Rightarrow> ustring \<Rightarrow> cont_db \<Rightarrow> cont_error + stored_project" where
  "getByAlias env alias db =
     (if \<not> cd_open db then Inl ContClosed
      else case find_key pr_alias_key (continuityAliasKey env alias) (cd_projects db) of
        None \<Rightarrow> Inl ContNotFound
      | Some p \<Rightarrow>
          (case (find_key wt_project_id (pr_id p) (cd_worktrees db),
                 select_record (pr_id p) (pr_current_record_version p) db) of
             (Some w, Some r) \<Rightarrow>
               bind_res (parse_json projectRootsSchema (pr_roots_json p)) (\<lambda>roots.
               if \<not> worktreeIdentitySchema (worktree_json w) then Inl ContInvalid else
               bind_res (parse_json localStateSchema (wt_local_state_json w)) (\<lambda>localState.
               bind_res (parse_json publishedStateSchema (wt_published_state_json w)) (\<lambda>publishedState.
               bind_res (parseSemanticRecord r) (\<lambda>currentRecord.
               Inr \<lparr>sp_id = pr_id p, sp_alias = pr_alias p, sp_aliasKey = pr_alias_key p, sp_roots = roots,
                 sp_worktree = worktree_json w, sp_localState = localState, sp_publishedState = publishedState,
                 sp_currentRecord = currentRecord, sp_createdAt = pr_created_at p,
                 sp_updatedAt = pr_updated_at p\<rparr>))))
           | _ \<Rightarrow> Inl ContNotFound))"

definition getRecord :: "string \<Rightarrow> int \<Rightarrow> cont_db \<Rightarrow> cont_error + jval" where
  "getRecord projectId version db =
     (if \<not> cd_open db then Inl ContClosed
      else case select_record projectId version db of
        None \<Rightarrow> Inl ContNotFound
      | Some row \<Rightarrow> parseSemanticRecord row)"

section \<open>Writing\<close>

definition worktree_of :: "string \<Rightarrow> jval \<Rightarrow> jval \<Rightarrow> jval \<Rightarrow> worktree_row" where
  "worktree_of i worktree localState publishedState =
     \<lparr>wt_project_id = i, wt_canonical_path = jstring (jget worktree ''canonicalPath''),
      wt_repository_root = jstring (jget worktree ''repositoryRoot''),
      wt_common_git_dir = jstring (jget worktree ''commonGitDir''), wt_git_dir = jstring (jget worktree ''gitDir''),
      wt_repository_identity = jstring (jget worktree ''repositoryIdentity''),
      wt_worktree_identity = jstring (jget worktree ''worktreeIdentity''),
      wt_local_state_json = stringify localState, wt_published_state_json = stringify publishedState,
      wt_checked_at = jstring (jget localState ''checkedAt'')\<rparr>"

definition record_of :: "string \<Rightarrow> int \<Rightarrow> jval \<Rightarrow> string \<Rightarrow> record_row" where
  "record_of i version semantic timestamp =
     \<lparr>rr_project_id = i, rr_version = version, rr_task_json = stringify (jget semantic ''task''),
      rr_decisions_json = stringify (jget semantic ''decisions''),
      rr_uncertainties_json = stringify (jget semantic ''uncertainties''),
      rr_verification_summary_json = stringify (jget semantic ''verificationSummary''),
      rr_created_at = timestamp\<rparr>"

definition cont_register ::
  "cont_env \<Rightarrow> register_input \<Rightarrow> cont_db \<Rightarrow> cont_db \<times> (cont_error + stored_project)" where
  "cont_register env input db =
     (case aliasSchema (ri_alias input) of
        None \<Rightarrow> (db, Inl ContZod)
      | Some alias \<Rightarrow>
          if \<not> projectRootsSchema (ri_roots input) \<or> \<not> worktreeIdentitySchema (ri_worktree input)
             \<or> \<not> localStateSchema (ri_localState input) \<or> \<not> publishedStateSchema (ri_publishedState input)
             \<or> \<not> semanticInputSchema (ri_semantic input) then (db, Inl ContZod)
          else
            let aliasKey = continuityAliasKey env alias;
                transaction =
                  (if \<not> cd_open db then Inl ContClosed else
                   bind_res (insert_project \<lparr>pr_id = ri_id input, pr_alias = alias, pr_alias_key = aliasKey,
                     pr_roots_json = stringify (ri_roots input), pr_current_record_version = 1,
                     pr_created_at = ce_now env, pr_updated_at = ce_now env\<rparr> db) (\<lambda>db1.
                   bind_res (insert_worktree (worktree_of (ri_id input) (ri_worktree input) (ri_localState input)
                     (ri_publishedState input)) db1) (\<lambda>db2.
                   insert_record (record_of (ri_id input) 1 (ri_semantic input) (ce_now env)) db2)))
            in case transaction of
                 Inl ContUnique \<Rightarrow> (db, Inl ContConflict)
               | Inl e \<Rightarrow> (db, Inl e)
               | Inr db' \<Rightarrow> (db', getByAlias env aliasKey db'))"

text \<open>The check with which \<open>rebind\<close> and \<open>checkpoint\<close> begin.\<close>

definition expect_version :: "string \<Rightarrow> int \<Rightarrow> cont_db \<Rightarrow> cont_error + unit" where
  "expect_version projectId expected db =
     (if \<not> cd_open db then Inl ContClosed
      else case find_key pr_id projectId (cd_projects db) of
        None \<Rightarrow> Inl ContNotFound
      | Some p \<Rightarrow> if pr_current_record_version p \<noteq> expected then Inl ContConflict else Inr ())"

definition cont_rebind :: "cont_env \<Rightarrow> rebind_record \<Rightarrow> cont_db \<Rightarrow> cont_db \<times> (cont_error + unit)" where
  "cont_rebind env input db =
     (if \<not> projectRootsSchema (rb_roots input) \<or> \<not> worktreeIdentitySchema (rb_worktree input)
         \<or> \<not> localStateSchema (rb_localState input) \<or> \<not> publishedStateSchema (rb_publishedState input)
      then (db, Inl ContZod)
      else
        let i = rb_projectId input
        in case bind_res (expect_version i (rb_expectedRecordVersion input) db) (\<lambda>_.
                update_worktree i (\<lambda>_. worktree_of i (rb_worktree input) (rb_localState input)
                  (rb_publishedState input))
                  (update_project i (\<lambda>p. p\<lparr>pr_roots_json := stringify (rb_roots input),
                     pr_created_at := ce_now env, pr_updated_at := ce_now env\<rparr>) db)) of
             Inl ContUnique \<Rightarrow> (db, Inl ContConflict)
           | Inl e \<Rightarrow> (db, Inl e)
           | Inr (db', changes) \<Rightarrow> (db', Inr ()))"

definition set_states :: "jval \<Rightarrow> jval \<Rightarrow> worktree_row \<Rightarrow> worktree_row" where
  "set_states localState publishedState w =
     w\<lparr>wt_local_state_json := stringify localState, wt_published_state_json := stringify publishedState,
       wt_checked_at := jstring (jget localState ''checkedAt'')\<rparr>"

definition cont_checkpoint ::
  "cont_env \<Rightarrow> checkpoint_record \<Rightarrow> cont_db \<Rightarrow> cont_db \<times> (cont_error + jval)" where
  "cont_checkpoint env input db =
     (if \<not> semanticInputSchema (cr_semantic input) \<or> \<not> localStateSchema (cr_localState input)
         \<or> \<not> publishedStateSchema (cr_publishedState input) then (db, Inl ContZod)
      else
        let i = cr_projectId input; nextVersion = cr_expectedRecordVersion input + 1
        in case bind_res (expect_version i (cr_expectedRecordVersion input) db) (\<lambda>_.
                bind_res (insert_record (record_of i nextVersion (cr_semantic input) (ce_now env)) db) (\<lambda>db1.
                bind_res (update_worktree i (set_states (cr_localState input) (cr_publishedState input)) db1)
                  (\<lambda>(db2, changes).
                Inr (update_project i (\<lambda>p. p\<lparr>pr_current_record_version := nextVersion,
                  pr_updated_at := ce_now env\<rparr>) db2)))) of
             Inl e \<Rightarrow> (db, Inl e)
           | Inr db' \<Rightarrow> (db', getRecord i nextVersion db'))"

definition updateOperationalState ::
  "string \<Rightarrow> jval \<Rightarrow> jval \<Rightarrow> cont_db \<Rightarrow> cont_db \<times> (cont_error + unit)" where
  "updateOperationalState projectId localState publishedState db =
     (if \<not> localStateSchema localState \<or> \<not> publishedStateSchema publishedState then (db, Inl ContZod)
      else if \<not> cd_open db then (db, Inl ContClosed)
      else case update_worktree projectId (set_states localState publishedState) db of
             Inl e \<Rightarrow> (db, Inl e)
           | Inr (db', changes) \<Rightarrow> (db', if changes \<noteq> 1 then Inl ContNotFound else Inr ()))"

text \<open>Projects with the same time of the last update may come in any order; here it is the stored one.\<close>

definition listProjects :: "cont_db \<Rightarrow> cont_error + project_entry list" where
  "listProjects db =
     (if \<not> cd_open db then Inl ContClosed
      else map_res (\<lambda>(p, w).
          bind_res (parse_json projectRootsSchema (pr_roots_json p)) (\<lambda>roots.
            Inr \<lparr>le_alias = pr_alias p, le_roots = roots, le_recordVersion = pr_current_record_version p,
              le_worktreePath = wt_canonical_path w, le_updatedAt = pr_updated_at p\<rparr>))
        (take 100 (rev (sort_key (\<lambda>(p, w). pr_updated_at p)
          (rev (concat (map (\<lambda>p. map (Pair p) (filter (\<lambda>w. wt_project_id w = pr_id p) (cd_worktrees db)))
            (cd_projects db))))))))"

definition cont_close :: "cont_db \<Rightarrow> cont_db" where
  "cont_close db = db\<lparr>cd_open := False\<rparr>"

section \<open>Values that survive the round trip through text\<close>

definition stable :: "schema \<Rightarrow> bool" where
  "stable s \<longleftrightarrow> (\<forall>v. s v \<longrightarrow> s (json_clean v))"

named_theorems stable_intros \<open>schemas that hold of the cleaned value\<close>

lemma stable_atoms [stable_intros]:
  "stable (zstring low high)" "stable zany_string" "stable zbool" "stable (zenum names)" "stable (zhex low high)"
  "stable zpositive"
  by (auto simp: stable_def zstring_def zany_string_def zbool_def zenum_def zhex_def zpositive_def
      is_JString_iff is_JBool_iff split: jval.splits)

lemma stable_znullable [stable_intros]: "stable s \<Longrightarrow> stable (znullable s)"
  by (auto simp: stable_def znullable_def)

lemma stable_zarray [stable_intros]: "stable s \<Longrightarrow> stable (zarray low high s)"
  by (auto simp: stable_def zarray_def list_all_iff split: jval.splits)

lemma jget_clean: "distinct (map fst fs) \<Longrightarrow> jget (json_clean (JObj fs)) k = json_clean (jget (JObj fs) k)"
proof (induction fs)
  case (Cons f fs)
  show ?case
  proof (cases "snd f = JUndefined \<and> fst f = k")
    case True
    with Cons.prems have "map_of fs k = None" by (auto simp: map_of_eq_None_iff)
    with Cons True show ?thesis by simp
  qed (use Cons in \<open>cases f; auto\<close>)
qed simp

lemma stable_zobject [stable_intros]:
  assumes "list_all (\<lambda>(k, optional, s). stable s) members"
  shows "stable (zobject members)"
  unfolding stable_def
proof (intro allI impI)
  fix v assume v: "zobject members v"
  then obtain fs where fs: "v = JObj fs" by (cases v) (auto simp: zobject_def)
  with v have d: "distinct (map fst fs)" by (simp add: zobject_def)
  let ?g = "map (\<lambda>f. (fst f, json_clean (snd f))) (filter (\<lambda>f. snd f \<noteq> JUndefined) fs)"
  have keys: "map fst ?g = map fst (filter (\<lambda>f. snd f \<noteq> JUndefined) fs)" by simp
  have "distinct (map fst ?g)" unfolding keys using d by (rule distinct_map_filter)
  moreover have "list_all (\<lambda>f. fst f \<in> set (map fst members)) ?g"
    using v fs by (auto simp: zobject_def list_all_iff)
  moreover have "list_all (\<lambda>(k, optional, s). (optional \<and> jget (json_clean v) k = JUndefined)
      \<or> s (jget (json_clean v) k)) members"
    unfolding fs jget_clean [OF d] list_all_iff
  proof (clarify)
    fix k optional s
    assume m: "(k, optional, s) \<in> set members" and no: "\<not> s (json_clean (jget (JObj fs) k))"
    have "stable s" using m assms by (auto simp: list_all_iff)
    with no have "\<not> s (jget (JObj fs) k)" by (auto simp: stable_def)
    with v m have "optional \<and> jget (JObj fs) k = JUndefined" unfolding fs zobject_def by (auto simp: list_all_iff)
    then show "optional \<and> json_clean (jget (JObj fs) k) = JUndefined" by simp
  qed
  ultimately show "zobject members (json_clean v)" unfolding zobject_def by (simp add: fs)
qed

lemma stable_schemas [stable_intros]:
  "stable projectRootsSchema" "stable taskSchema" "stable decisionSchema" "stable localStateSchema"
  "stable publishedStateSchema" "stable semanticLineSchema"
  unfolding projectRootsSchema_def pathSchema_def taskSchema_def planStepSchema_def decisionSchema_def localStateSchema_def
    publishedStateSchema_def remoteRefStateSchema_def semanticLineSchema_def
  by (simp_all add: stable_intros)

lemma stringify_parse: "stable s \<Longrightarrow> s v \<Longrightarrow> parse_json s (stringify v) = Inr (json_clean v)"
  by (simp add: parse_json_def stringify_def stable_def)

lemma zstring_jstring: "zstring low high v \<Longrightarrow> JString (jstring v) = v" "zhex low high v \<Longrightarrow> JString (jstring v) = v"
  by (auto simp: zstring_def zhex_def split: jval.splits)

definition record_valid :: "record_row \<Rightarrow> bool" where
  "record_valid r \<longleftrightarrow> (\<exists>v. parseSemanticRecord r = Inr v)"

definition project_valid :: "project_row \<Rightarrow> bool" where
  "project_valid p \<longleftrightarrow> (\<exists>v. parse_json projectRootsSchema (pr_roots_json p) = Inr v)"

definition worktree_valid :: "worktree_row \<Rightarrow> bool" where
  "worktree_valid w \<longleftrightarrow> worktreeIdentitySchema (worktree_json w)
     \<and> (\<exists>v. parse_json localStateSchema (wt_local_state_json w) = Inr v)
     \<and> (\<exists>v. parse_json publishedStateSchema (wt_published_state_json w) = Inr v)"

lemma record_of_valid:
  assumes "semanticInputSchema semantic" "version > 0"
  shows "record_valid (record_of i version semantic timestamp)"
proof -
  let ?g = "\<lambda>k. json_clean (jget semantic k)"
  have parts: "taskSchema (jget semantic ''task'')" "zarray 0 20 decisionSchema (jget semantic ''decisions'')"
    "zarray 0 20 semanticLineSchema (jget semantic ''uncertainties'')"
    "zarray 0 20 semanticLineSchema (jget semantic ''verificationSummary'')"
    using assms(1) by (auto simp: semanticInputSchema_def zobject_def split: jval.splits)
  have "stable (zarray 0 20 decisionSchema)" "stable (zarray 0 20 semanticLineSchema)"
    by (simp_all add: stable_intros)
  with parts stable_schemas(2) have c: "taskSchema (?g ''task'')" "zarray 0 20 decisionSchema (?g ''decisions'')"
    "zarray 0 20 semanticLineSchema (?g ''uncertainties'')"
    "zarray 0 20 semanticLineSchema (?g ''verificationSummary'')" by (auto simp: stable_def)
  have "semanticRecordSchema (JObj [(''recordVersion'', JNum version), (''task'', ?g ''task''),
      (''decisions'', ?g ''decisions''), (''uncertainties'', ?g ''uncertainties''),
      (''verificationSummary'', ?g ''verificationSummary''), (''createdAt'', JString timestamp)])"
    using c assms(2) by (simp add: semanticRecordSchema_def zobject_def zpositive_def zany_string_def)
  then show ?thesis
    by (simp add: record_valid_def parseSemanticRecord_def record_of_def json_parse_def stringify_def Let_def)
qed

lemma worktree_of_valid:
  assumes "worktreeIdentitySchema worktree" "localStateSchema localState" "publishedStateSchema publishedState"
  shows "worktree_valid (worktree_of i worktree localState publishedState)"
proof -
  have parts: "zstring 1 16384 (jget worktree ''canonicalPath'')" "zstring 1 16384 (jget worktree ''repositoryRoot'')"
    "zstring 1 16384 (jget worktree ''commonGitDir'')" "zstring 1 16384 (jget worktree ''gitDir'')"
    "zhex 64 64 (jget worktree ''repositoryIdentity'')" "zhex 64 64 (jget worktree ''worktreeIdentity'')"
    using assms(1) by (auto simp: worktreeIdentitySchema_def pathSchema_def zobject_def split: jval.splits)
  then have "worktreeIdentitySchema (worktree_json (worktree_of i worktree localState publishedState))"
    by (simp add: worktreeIdentitySchema_def worktree_json_def worktree_of_def zobject_def pathSchema_def
        zstring_jstring(1) [OF parts(1)] zstring_jstring(1) [OF parts(2)] zstring_jstring(1) [OF parts(3)]
        zstring_jstring(1) [OF parts(4)] zstring_jstring(2) [OF parts(5)] zstring_jstring(2) [OF parts(6)])
  with stringify_parse [OF stable_schemas(4) assms(2)] stringify_parse [OF stable_schemas(5) assms(3)]
  show ?thesis by (simp add: worktree_valid_def worktree_of_def)
qed

lemma set_states_valid:
  "worktree_valid w \<Longrightarrow> localStateSchema localState \<Longrightarrow> publishedStateSchema publishedState
    \<Longrightarrow> worktree_valid (set_states localState publishedState w)"
  using stringify_parse [OF stable_schemas(4)] stringify_parse [OF stable_schemas(5)]
  by (simp add: worktree_valid_def set_states_def worktree_json_def)

section \<open>Reachable databases\<close>

inductive cont_step :: "cont_db \<Rightarrow> cont_db \<Rightarrow> bool" where
  cs_register: "cont_step db (fst (cont_register env input db))"
| cs_rebind: "cont_step db (fst (cont_rebind env rebinding db))"
| cs_checkpoint: "cont_step db (fst (cont_checkpoint env checkpoint db))"
| cs_update: "cont_step db (fst (updateOperationalState i localState publishedState db))"

inductive cont_steps :: "cont_db \<Rightarrow> cont_db \<Rightarrow> bool" where
  css_refl: "cont_steps db db"
| css_step: "cont_steps db db' \<Longrightarrow> cont_step db' db'' \<Longrightarrow> cont_steps db db''"

definition versions :: "string \<Rightarrow> cont_db \<Rightarrow> int list" where
  "versions i db = map rr_version (filter (\<lambda>r. rr_project_id r = i) (cd_records db))"

definition cont_ok :: "cont_db \<Rightarrow> bool" where
  "cont_ok db \<longleftrightarrow>
     distinct (map pr_id (cd_projects db)) \<and> distinct (map pr_alias_key (cd_projects db))
     \<and> map wt_project_id (cd_worktrees db) = map pr_id (cd_projects db)
     \<and> distinct (map wt_canonical_path (cd_worktrees db))
     \<and> (\<forall>p \<in> set (cd_projects db). project_valid p \<and> 1 \<le> pr_current_record_version p
          \<and> versions (pr_id p) db = [1..pr_current_record_version p])
     \<and> (\<forall>w \<in> set (cd_worktrees db). worktree_valid w)
     \<and> (\<forall>r \<in> set (cd_records db). record_valid r \<and> rr_project_id r \<in> pr_id ` set (cd_projects db))"

lemma insert_record_Inr:
  "insert_record row db = Inr db' \<Longrightarrow> rr_project_id row \<in> pr_id ` set (cd_projects db)
    \<and> db' = db\<lparr>cd_records := cd_records db @ [row]\<rparr>"
  by (auto simp: insert_record_def split: if_splits)

lemma update_worktree_Inr:
  "update_worktree i f db = Inr (db', n) \<Longrightarrow>
    db' = db\<lparr>cd_worktrees := map (\<lambda>w. if wt_project_id w = i then f w else w) (cd_worktrees db)\<rparr>
    \<and> distinct (map wt_canonical_path (cd_worktrees db'))"
  by (auto simp: update_worktree_def Let_def split: if_splits)

lemma map_if_keep: "(\<And>w. g (f w) = g w) \<Longrightarrow> map (\<lambda>w. g (if P w then f w else w)) ws = map g ws"
  by (induction ws) auto

lemma update_worktree_ok:
  assumes "cont_ok db" "update_worktree i f db = Inr (db', n)"
    "\<And>w. wt_project_id (f w) = i \<or> wt_project_id (f w) = wt_project_id w" "\<And>w. worktree_valid w \<Longrightarrow> worktree_valid (f w)"
  shows "cont_ok db'"
proof -
  from update_worktree_Inr [OF assms(2)]
  have d: "db' = db\<lparr>cd_worktrees := map (\<lambda>w. if wt_project_id w = i then f w else w) (cd_worktrees db)\<rparr>"
    and paths: "distinct (map wt_canonical_path (cd_worktrees db'))" by blast+
  have "map wt_project_id (cd_worktrees db') = map wt_project_id (cd_worktrees db)"
    unfolding d using assms(3) by (auto simp: comp_def)
  moreover have "\<forall>w \<in> set (cd_worktrees db'). worktree_valid w"
    using assms(1,4) by (auto simp: d cont_ok_def)
  moreover have "cd_projects db' = cd_projects db" "cd_records db' = cd_records db" by (simp_all add: d)
  ultimately show ?thesis using assms(1) paths unfolding cont_ok_def versions_def by simp
qed

lemma expect_version_Inr:
  assumes "expect_version i n db = Inr ()" "cont_ok db"
  shows "\<exists>p \<in> set (cd_projects db). pr_id p = i \<and> pr_current_record_version p = n \<and> versions i db = [1..n] \<and> 1 \<le> n"
  using assms by (auto simp: expect_version_def cont_ok_def dest!: find_key_SomeD split: if_splits option.splits)

lemma update_project_ok:
  assumes "cont_ok db" "\<And>p. pr_id (f p) = pr_id p \<and> pr_alias_key (f p) = pr_alias_key p"
    "\<And>p. p \<in> set (cd_projects db) \<Longrightarrow> pr_id p = i \<Longrightarrow> project_valid (f p)
      \<and> pr_current_record_version (f p) = pr_current_record_version p"
  shows "cont_ok (update_project i f db)"
proof -
  have "map pr_id (cd_projects (update_project i f db)) = map pr_id (cd_projects db)"
    "map pr_alias_key (cd_projects (update_project i f db)) = map pr_alias_key (cd_projects db)"
    using assms(2) by (auto simp: update_project_def)
  moreover have "pr_id ` set (cd_projects (update_project i f db)) = pr_id ` set (cd_projects db)"
    using calculation(1) by (metis list.set_map)
  moreover have "project_valid p \<and> 1 \<le> pr_current_record_version p
      \<and> versions (pr_id p) db = [1..pr_current_record_version p]"
    if "p \<in> set (cd_projects (update_project i f db))" for p
    using that assms by (auto simp: update_project_def cont_ok_def)
  ultimately show ?thesis
    using assms(1) by (simp add: cont_ok_def) (simp add: update_project_def versions_def)
qed

lemma cont_rebind_ok: "cont_ok db \<Longrightarrow> cont_ok (fst (cont_rebind env input db))"
proof (cases "cont_rebind env input db")
  case (Pair db' r)
  assume ok: "cont_ok db"
  let ?i = "rb_projectId input"
  let ?u = "update_project ?i (\<lambda>p. p\<lparr>pr_roots_json := stringify (rb_roots input),
     pr_created_at := ce_now env, pr_updated_at := ce_now env\<rparr>) db"
  let ?f = "\<lambda>w :: worktree_row. worktree_of ?i (rb_worktree input) (rb_localState input) (rb_publishedState input)"
  show ?thesis
  proof (cases "db' = db")
    case False
    with Pair obtain n where s: "projectRootsSchema (rb_roots input)" "worktreeIdentitySchema (rb_worktree input)"
      "localStateSchema (rb_localState input)" "publishedStateSchema (rb_publishedState input)"
      and u: "update_worktree ?i ?f ?u = Inr (db', n)"
      by (auto simp: cont_rebind_def Let_def bind_res_def split: if_splits sum.splits cont_error.splits prod.splits)
    have "cont_ok ?u"
      by (rule update_project_ok [OF ok]) (simp_all add: project_valid_def stringify_parse [OF stable_schemas(1) s(1)])
    from update_worktree_ok [OF this u] worktree_of_valid [OF s(2-4)] show ?thesis
      by (simp add: Pair worktree_of_def)
  qed (simp add: Pair ok)
qed

lemma cont_update_ok: "cont_ok db \<Longrightarrow> cont_ok (fst (updateOperationalState i localState publishedState db))"
  by (auto simp: updateOperationalState_def set_states_def set_states_valid [unfolded set_states_def]
      elim!: update_worktree_ok split: sum.splits)

lemma cont_register_elim:
  assumes "cont_register env input db = (db', r)" "db' \<noteq> db"
  shows "\<exists>alias p w rec. aliasSchema (ri_alias input) = Some alias
    \<and> projectRootsSchema (ri_roots input) \<and> worktreeIdentitySchema (ri_worktree input)
    \<and> localStateSchema (ri_localState input) \<and> publishedStateSchema (ri_publishedState input)
    \<and> semanticInputSchema (ri_semantic input) \<and> cd_open db
    \<and> p = \<lparr>pr_id = ri_id input, pr_alias = alias, pr_alias_key = continuityAliasKey env alias,
         pr_roots_json = stringify (ri_roots input), pr_current_record_version = 1,
         pr_created_at = ce_now env, pr_updated_at = ce_now env\<rparr>
    \<and> w = worktree_of (ri_id input) (ri_worktree input) (ri_localState input) (ri_publishedState input)
    \<and> rec = record_of (ri_id input) 1 (ri_semantic input) (ce_now env)
    \<and> pr_id p \<notin> pr_id ` set (cd_projects db) \<and> pr_alias_key p \<notin> pr_alias_key ` set (cd_projects db)
    \<and> wt_canonical_path w \<notin> wt_canonical_path ` set (cd_worktrees db)
    \<and> db' = db\<lparr>cd_projects := cd_projects db @ [p], cd_worktrees := cd_worktrees db @ [w],
        cd_records := cd_records db @ [rec]\<rparr>
    \<and> r = getByAlias env (continuityAliasKey env alias) db'"
proof -
  obtain nick where al: "aliasSchema (ri_alias input) = Some nick"
    using assms by (cases "aliasSchema (ri_alias input)") (auto simp: cont_register_def)
  have s: "projectRootsSchema (ri_roots input)" "worktreeIdentitySchema (ri_worktree input)"
    "localStateSchema (ri_localState input)" "publishedStateSchema (ri_publishedState input)"
    "semanticInputSchema (ri_semantic input)"
    using assms al by (auto simp: cont_register_def split: if_splits)
  let ?p = "\<lparr>pr_id = ri_id input, pr_alias = nick, pr_alias_key = continuityAliasKey env nick,
     pr_roots_json = stringify (ri_roots input), pr_current_record_version = 1,
     pr_created_at = ce_now env, pr_updated_at = ce_now env\<rparr>"
  let ?w = "worktree_of (ri_id input) (ri_worktree input) (ri_localState input) (ri_publishedState input)"
  let ?rec = "record_of (ri_id input) 1 (ri_semantic input) (ce_now env)"
  let ?t = "if \<not> cd_open db then Inl ContClosed else bind_res (insert_project ?p db) (\<lambda>db1.
     bind_res (insert_worktree ?w db1) (\<lambda>db2. insert_record ?rec db2))"
  have run: "cont_register env input db = (case ?t of Inl ContUnique \<Rightarrow> (db, Inl ContConflict) | Inl e \<Rightarrow> (db, Inl e)
      | Inr db' \<Rightarrow> (db', getByAlias env (continuityAliasKey env nick) db'))"
    using al s by (simp add: cont_register_def Let_def)
  have t: "?t = Inr db'" "r = getByAlias env (continuityAliasKey env nick) db'"
    using run assms by (cases ?t; auto split: cont_error.splits)+
  from t(1) have "cd_open db \<and> pr_id ?p \<notin> pr_id ` set (cd_projects db)
    \<and> pr_alias_key ?p \<notin> pr_alias_key ` set (cd_projects db)
    \<and> wt_canonical_path ?w \<notin> wt_canonical_path ` set (cd_worktrees db)
    \<and> db' = db\<lparr>cd_projects := cd_projects db @ [?p], cd_worktrees := cd_worktrees db @ [?w],
        cd_records := cd_records db @ [?rec]\<rparr>"
    by (auto simp: bind_res_Inr_iff insert_project_def insert_worktree_def insert_record_def split: if_splits)
  with al s t(2) show ?thesis by blast
qed

lemma cont_register_ok:
  assumes "cont_ok db"
  shows "cont_ok (fst (cont_register env input db))"
proof (cases "cont_register env input db")
  case (Pair db' res)
  show ?thesis
  proof (cases "db' = db")
    case False
    from cont_register_elim [OF Pair False] obtain nick p w rec where
      s: "projectRootsSchema (ri_roots input)" "worktreeIdentitySchema (ri_worktree input)"
        "localStateSchema (ri_localState input)" "publishedStateSchema (ri_publishedState input)"
        "semanticInputSchema (ri_semantic input)"
      and p: "p = \<lparr>pr_id = ri_id input, pr_alias = nick, pr_alias_key = continuityAliasKey env nick,
         pr_roots_json = stringify (ri_roots input), pr_current_record_version = 1,
         pr_created_at = ce_now env, pr_updated_at = ce_now env\<rparr>"
      and w: "w = worktree_of (ri_id input) (ri_worktree input) (ri_localState input) (ri_publishedState input)"
      and rec: "rec = record_of (ri_id input) 1 (ri_semantic input) (ce_now env)"
      and fresh: "pr_id p \<notin> pr_id ` set (cd_projects db)" "pr_alias_key p \<notin> pr_alias_key ` set (cd_projects db)"
        "wt_canonical_path w \<notin> wt_canonical_path ` set (cd_worktrees db)"
      and db': "db' = db\<lparr>cd_projects := cd_projects db @ [p], cd_worktrees := cd_worktrees db @ [w],
        cd_records := cd_records db @ [rec]\<rparr>"
      by (elim exE conjE) (rule that)
    have ids: "wt_project_id w = pr_id p" "rr_project_id rec = pr_id p" "rr_version rec = 1"
      "pr_current_record_version p = 1" by (simp_all add: p w rec worktree_of_def record_of_def)
    have "rr_project_id r \<noteq> pr_id p" if "r \<in> set (cd_records db)" for r
      using assms fresh(1) that unfolding cont_ok_def by metis
    then have "filter (\<lambda>r. rr_project_id r = pr_id p) (cd_records db) = []" by (simp add: filter_empty_conv)
    then have "versions (pr_id p) db' = [1..1]" by (simp add: versions_def db' ids)
    moreover have "versions (pr_id q) db' = versions (pr_id q) db" if "q \<in> set (cd_projects db)" for q
      using that fresh(1) by (auto simp: versions_def db' ids)
    moreover have "project_valid p" "worktree_valid w" "record_valid rec"
      using worktree_of_valid [OF s(2-4)] record_of_valid [OF s(5)] stringify_parse [OF stable_schemas(1) s(1)]
      by (simp_all add: p w rec project_valid_def)
    ultimately have "cont_ok db'"
      using assms fresh ids unfolding cont_ok_def db' by auto
    then show ?thesis by (simp add: Pair)
  qed (simp add: Pair assms)
qed

lemma cont_checkpoint_elim:
  assumes "cont_checkpoint env input db = (db', r)" "db' \<noteq> db \<or> (\<exists>v. r = Inr v)"
  shows "semanticInputSchema (cr_semantic input) \<and> localStateSchema (cr_localState input)
    \<and> publishedStateSchema (cr_publishedState input)
    \<and> expect_version (cr_projectId input) (cr_expectedRecordVersion input) db = Inr ()
    \<and> (\<exists>n. update_worktree (cr_projectId input) (set_states (cr_localState input) (cr_publishedState input)) db
        = Inr (db'\<lparr>cd_projects := cd_projects db, cd_records := cd_records db\<rparr>, n))
    \<and> cd_records db' = cd_records db @ [record_of (cr_projectId input) (cr_expectedRecordVersion input + 1)
        (cr_semantic input) (ce_now env)]
    \<and> cd_projects db' = map (\<lambda>p. if pr_id p = cr_projectId input then
        p\<lparr>pr_current_record_version := cr_expectedRecordVersion input + 1, pr_updated_at := ce_now env\<rparr> else p)
        (cd_projects db)
    \<and> cd_open db' = cd_open db
    \<and> r = getRecord (cr_projectId input) (cr_expectedRecordVersion input + 1) db'"
  using assms
  by (auto simp: cont_checkpoint_def Let_def bind_res_def update_project_def update_worktree_def
      dest!: insert_record_Inr split: if_splits sum.splits prod.splits)

lemma cont_checkpoint_ok:
  assumes "cont_ok db"
  shows "cont_ok (fst (cont_checkpoint env input db))"
proof (cases "cont_checkpoint env input db")
  case (Pair db' res)
  let ?i = "cr_projectId input" and ?n = "cr_expectedRecordVersion input"
  let ?f = "\<lambda>p. p\<lparr>pr_current_record_version := ?n + 1, pr_updated_at := ce_now env\<rparr>"
  let ?r = "record_of ?i (?n + 1) (cr_semantic input) (ce_now env)"
  show ?thesis
  proof (cases "db' = db")
    case False
    from cont_checkpoint_elim [OF Pair disjI1 [OF False]] obtain n where
      s: "semanticInputSchema (cr_semantic input)" "localStateSchema (cr_localState input)"
        "publishedStateSchema (cr_publishedState input)"
      and e: "expect_version ?i ?n db = Inr ()"
      and u: "update_worktree ?i (set_states (cr_localState input) (cr_publishedState input)) db
        = Inr (db'\<lparr>cd_projects := cd_projects db, cd_records := cd_records db\<rparr>, n)"
      and recs: "cd_records db' = cd_records db @ [?r]"
      and projs: "cd_projects db' = map (\<lambda>p. if pr_id p = ?i then ?f p else p) (cd_projects db)"
      by blast
    have mid: "cont_ok (db'\<lparr>cd_projects := cd_projects db, cd_records := cd_records db\<rparr>)"
      by (rule update_worktree_ok [OF assms u]) (simp_all add: set_states_valid [OF _ s(2,3)], simp add: set_states_def)
    from expect_version_Inr [OF e assms] have v: "versions ?i db = [1..?n]" "1 \<le> ?n"
      and known: "?i \<in> pr_id ` set (cd_projects db)" by (auto intro: rev_image_eqI)
    have ids: "map pr_id (cd_projects db') = map pr_id (cd_projects db)"
      "map pr_alias_key (cd_projects db') = map pr_alias_key (cd_projects db)" by (auto simp: projs)
    have set_ids: "pr_id ` set (cd_projects db') = pr_id ` set (cd_projects db)" by (metis ids(1) list.set_map)
    have "record_valid ?r" by (rule record_of_valid [OF s(1)]) (use v(2) in simp)
    moreover have "rr_project_id ?r = ?i" by (simp add: record_of_def)
    ultimately have "\<forall>r \<in> set (cd_records db'). record_valid r \<and> rr_project_id r \<in> pr_id ` set (cd_projects db')"
      using assms known unfolding set_ids recs cont_ok_def by auto
    moreover have vi: "versions ?i db' = [1..?n + 1]"
      using v upto_rec2 [of 1 "?n + 1"] by (simp add: versions_def recs record_of_def)
    have vj: "versions j db' = versions j db" if "j \<noteq> ?i" for j
      using that by (simp add: versions_def recs record_of_def)
    have "project_valid p \<and> 1 \<le> pr_current_record_version p
        \<and> versions (pr_id p) db' = [1..pr_current_record_version p]" if p: "p \<in> set (cd_projects db')" for p
    proof -
      from p obtain q where q: "q \<in> set (cd_projects db)" "p = (if pr_id q = ?i then ?f q else q)"
        unfolding projs by auto
      with assms have "project_valid q \<and> 1 \<le> pr_current_record_version q
        \<and> versions (pr_id q) db = [1..pr_current_record_version q]" by (simp add: cont_ok_def)
      with q(2) vi vj v(2) show ?thesis by (cases "pr_id q = ?i") (simp_all add: project_valid_def)
    qed
    with calculation assms mid ids show ?thesis unfolding cont_ok_def Pair fst_conv by simp
  qed (simp add: Pair assms)
qed

lemma versions_select:
  "k \<in> set (versions i db) \<longleftrightarrow> select_record i k db \<noteq> None"
  by (auto simp: versions_def select_record_def find_None_iff image_iff)

lemma find_append_None: "find P xs = None \<Longrightarrow> find P (xs @ ys) = find P ys"
  by (induction xs) (auto split: if_splits)

text \<open>A valid checkpoint on the current version of a project succeeds.\<close>

lemma cont_checkpoint_succeeds:
  assumes "cont_ok db" "expect_version (cr_projectId input) (cr_expectedRecordVersion input) db = Inr ()"
    "semanticInputSchema (cr_semantic input)" "localStateSchema (cr_localState input)"
    "publishedStateSchema (cr_publishedState input)"
  shows "\<exists>v. snd (cont_checkpoint env input db) = Inr v"
proof -
  let ?i = "cr_projectId input" and ?n = "cr_expectedRecordVersion input"
  let ?r = "record_of ?i (?n + 1) (cr_semantic input) (ce_now env)"
  from expect_version_Inr [OF assms(2,1)] have v: "versions ?i db = [1..?n]" "1 \<le> ?n"
    and known: "?i \<in> pr_id ` set (cd_projects db)" by (auto intro: rev_image_eqI)
  have "?n + 1 \<notin> set (versions ?i db)" using v by simp
  then have none: "select_record ?i (?n + 1) db = None" by (simp add: versions_select)
  then have ins: "insert_record ?r db = Inr (db\<lparr>cd_records := cd_records db @ [?r]\<rparr>)"
    using known by (simp add: insert_record_def record_of_def select_record_def find_None_iff list_ex_iff)
  have "map wt_canonical_path (map (\<lambda>w. if wt_project_id w = ?i
      then set_states (cr_localState input) (cr_publishedState input) w else w) (cd_worktrees db))
    = map wt_canonical_path (cd_worktrees db)" by (simp add: set_states_def)
  then have "distinct (map wt_canonical_path (map (\<lambda>w. if wt_project_id w = ?i
      then set_states (cr_localState input) (cr_publishedState input) w else w) (cd_worktrees db)))"
    using assms(1) by (simp only: cont_ok_def)
  moreover have "select_record ?i (?n + 1) (db\<lparr>cd_records := cd_records db @ [?r]\<rparr>) = Some ?r"
    using none by (simp add: select_record_def find_append_None record_of_def)
  moreover have "record_valid ?r" by (rule record_of_valid [OF assms(3)]) (use v(2) in simp)
  moreover have "cd_open db" using assms(2) by (simp add: expect_version_def split: if_splits)
  ultimately show ?thesis
    using assms(2-5) ins
    by (simp add: cont_checkpoint_def Let_def update_worktree_def update_project_def getRecord_def
        select_record_def record_valid_def)
qed

lemma cont_steps_trans: "cont_steps db1 db2 \<Longrightarrow> cont_steps db db1 \<Longrightarrow> cont_steps db db2"
  by (induction rule: cont_steps.induct) (auto intro: css_step)

lemma cont_step_ok: "cont_step db db' \<Longrightarrow> cont_ok db \<Longrightarrow> cont_ok db'"
  by (induction rule: cont_step.induct)
    (simp_all only: cont_register_ok cont_rebind_ok cont_checkpoint_ok cont_update_ok)

lemma cont_steps_ok: "cont_steps db db' \<Longrightarrow> cont_ok db \<Longrightarrow> cont_ok db'"
  by (induction rule: cont_steps.induct) (auto intro: cont_step_ok)

lemma cont_reachable_ok: "cont_steps cont_db_new db \<Longrightarrow> cont_ok db"
  by (drule cont_steps_ok) (auto simp: cont_ok_def cont_db_new_def)

section \<open>What a client can rely on\<close>

lemma record_number: "parseSemanticRecord r = Inr v \<Longrightarrow> jget v ''recordVersion'' = JNum (rr_version r)"
  by (auto simp: parseSemanticRecord_def bind_res_Inr_iff Let_def split: if_splits)

lemma getRecord_known:
  assumes "cont_ok db" "cd_open db"
  shows "if k \<in> set (versions i db) then \<exists>v. getRecord i k db = Inr v \<and> jget v ''recordVersion'' = JNum k
    else getRecord i k db = Inl ContNotFound"
proof (cases "select_record i k db")
  case (Some r)
  then have r: "r \<in> set (cd_records db)" "rr_version r = k" by (auto simp: select_record_def find_Some_iff)
  with assms(1) obtain v where v: "parseSemanticRecord r = Inr v" unfolding cont_ok_def record_valid_def by blast
  with record_number [OF v] r assms(2) Some show ?thesis by (simp add: getRecord_def versions_select)
qed (simp add: versions_select getRecord_def assms(2))

lemma project_found:
  assumes "cont_ok db" "cd_open db" "p \<in> set (cd_projects db)" "continuityAliasKey env name = pr_alias_key p"
  shows "\<exists>sp. getByAlias env name db = Inr sp \<and> sp_id sp = pr_id p
    \<and> getRecord (pr_id p) (pr_current_record_version p) db = Inr (sp_currentRecord sp)"
proof -
  have v: "versions (pr_id p) db = [1..pr_current_record_version p]" "1 \<le> pr_current_record_version p" "project_valid p"
    using assms(1,3) by (auto simp: cont_ok_def)
  have found: "find_key pr_alias_key (pr_alias_key p) (cd_projects db) = Some p"
    using assms(1,3) by (auto simp: cont_ok_def intro: find_key_distinct)
  have "pr_id p \<in> wt_project_id ` set (cd_worktrees db)"
    using assms(1,3) unfolding cont_ok_def by (metis image_eqI list.set_map)
  then obtain w where w: "find_key wt_project_id (pr_id p) (cd_worktrees db) = Some w"
    by (metis find_key_None_iff not_None_eq)
  with assms(1) have "worktree_valid w" by (auto simp: cont_ok_def dest: find_key_SomeD)
  moreover obtain r where r: "select_record (pr_id p) (pr_current_record_version p) db = Some r"
    using versions_select [of "pr_current_record_version p" "pr_id p" db] v by auto
  then have "r \<in> set (cd_records db)" by (auto simp: select_record_def find_Some_iff)
  with assms(1) have "record_valid r" by (simp add: cont_ok_def)
  ultimately show ?thesis
    using assms(2,4) v(3) found w r
    by (auto simp: getByAlias_def worktree_valid_def project_valid_def record_valid_def getRecord_def)
qed

text \<open>
  C20: In every reachable database each project is complete. It is found under its alias key, with a
  readable worktree and states and with the record of its current version as the current record; its
  records are numbered from 1 to the current version without a gap, every one of them can be read,
  and no other number can.
\<close>

theorem continuity_records_complete:
  assumes "cont_steps cont_db_new db" "cd_open db" "p \<in> set (cd_projects db)"
    "continuityAliasKey env name = pr_alias_key p"
  shows "\<exists>sp. getByAlias env name db = Inr sp \<and> sp_id sp = pr_id p
    \<and> getRecord (pr_id p) (pr_current_record_version p) db = Inr (sp_currentRecord sp)
    \<and> (if 1 \<le> k \<and> k \<le> pr_current_record_version p
       then \<exists>v. getRecord (pr_id p) k db = Inr v \<and> jget v ''recordVersion'' = JNum k
       else getRecord (pr_id p) k db = Inl ContNotFound)"
proof -
  note ok = cont_reachable_ok [OF assms(1)]
  have "versions (pr_id p) db = [1..pr_current_record_version p]" using ok assms(3) by (auto simp: cont_ok_def)
  with project_found [OF ok assms(2-4)] getRecord_known [OF ok assms(2), of k "pr_id p"]
  show ?thesis by auto
qed

text \<open>Records are never changed, and the current version of a project never goes back.\<close>

lemma cont_step_records:
  assumes "cont_step db db'" "cont_ok db"
  shows "(\<exists>more. cd_records db' = cd_records db @ more) \<and> cd_open db' = cd_open db"
  using assms
proof (cases rule: cont_step.cases)
  case (cs_register env input)
  show ?thesis
  proof (cases "cont_register env input db")
    case (Pair db1 r)
    then show ?thesis using cont_register_elim [OF Pair] cs_register by (cases "db1 = db") (simp, fastforce)
  qed
next
  case (cs_rebind env input)
  then show ?thesis
    by (auto simp: cont_rebind_def Let_def bind_res_def update_project_def dest!: update_worktree_Inr
        split: if_splits sum.splits cont_error.splits prod.splits)
next
  case (cs_checkpoint env input)
  show ?thesis
  proof (cases "cont_checkpoint env input db")
    case (Pair db1 r)
    then show ?thesis using cont_checkpoint_elim [OF Pair] cs_checkpoint by (cases "db1 = db") (simp, fastforce)
  qed
next
  case (cs_update i localState publishedState)
  then show ?thesis
    by (auto simp: updateOperationalState_def dest!: update_worktree_Inr split: sum.splits prod.splits)
qed

lemma cont_steps_records:
  "cont_steps db db' \<Longrightarrow> cont_ok db \<Longrightarrow> (\<exists>more. cd_records db' = cd_records db @ more) \<and> cd_open db' = cd_open db"
proof (induction rule: cont_steps.induct)
  case (css_step db db' db'')
  with cont_steps_ok [OF css_step.hyps(1)] have "cont_ok db'" by simp
  with cont_step_records [OF css_step.hyps(2)] css_step.IH css_step.prems show ?case by fastforce
qed simp

lemma find_append_Some: "find P xs = Some x \<Longrightarrow> find P (xs @ ys) = Some x"
  by (induction xs) auto

lemma getRecord_kept:
  "cont_steps db db' \<Longrightarrow> cont_ok db \<Longrightarrow> getRecord i k db = Inr v \<Longrightarrow> getRecord i k db' = Inr v"
  using cont_steps_records [of db db']
  by (auto simp: getRecord_def select_record_def find_append_Some split: if_splits option.splits)


section \<open>An alias whose key is not its own key\<close>

lemma u_trim_idem: "u_trim (u_trim s) = u_trim s"
proof -
  let ?t = "dropWhile u_space s"
  let ?r = "dropWhile u_space (rev ?t)"
  have "dropWhile u_space (rev ?r) = rev ?r"
  proof (cases "?r = []")
    case False
    then have t: "?t \<noteq> []" by (metis dropWhile.simps(1) rev.simps(1))
    have "rev ?t = takeWhile u_space (rev ?t) @ ?r" by (rule takeWhile_dropWhile_id [symmetric])
    with False have "last (rev ?t) = last ?r" by (metis last_appendR)
    with t have "hd (rev ?r) = hd ?t" by (simp add: last_rev hd_rev False)
    moreover have "\<not> u_space (hd ?t)" using t by (rule hd_dropWhile)
    ultimately show ?thesis using False by (cases "rev ?r") simp_all
  next
    case True
    show ?thesis unfolding True by simp
  qed
  moreover have "dropWhile u_space (dropWhile u_space xs) = dropWhile u_space xs" for xs by (induction xs) auto
  ultimately show ?thesis by (simp add: u_trim_def)
qed

lemma alias_key_trim: "continuityAliasKey env (u_trim s) = continuityAliasKey env s"
  by (simp add: continuityAliasKey_def u_trim_idem)

text \<open>
  Registering a project ends by looking it up under its alias key, whose key is computed once
  more. For an alias whose key is not its own key (the normal form NFKC of an acute accent is a space
  and a combining accent, and the space is trimmed the second time) the project is stored and can be
  found under its alias, but the call never returns it: it fails or returns another project.
\<close>

theorem register_reports_wrong_project:
  assumes "cont_steps cont_db_new db" "cont_register env input db = (db', r)" "db' \<noteq> db"
    "continuityAliasKey env (continuityAliasKey env (ri_alias input)) \<noteq> continuityAliasKey env (ri_alias input)"
  shows "(\<exists>sp. getByAlias env (ri_alias input) db' = Inr sp \<and> sp_id sp = ri_id input)
    \<and> (case r of Inl e \<Rightarrow> e = ContNotFound | Inr sp \<Rightarrow> sp_id sp \<noteq> ri_id input)"
proof -
  note ok = cont_reachable_ok [OF assms(1)]
  have "cont_step db db'" using cs_register [of db env input] assms(2) by simp
  note ok' = cont_step_ok [OF this ok]
  have "\<exists>nick p. aliasSchema (ri_alias input) = Some nick \<and> cd_open db \<and> pr_id p = ri_id input
    \<and> pr_alias_key p = continuityAliasKey env nick \<and> pr_id p \<notin> pr_id ` set (cd_projects db)
    \<and> cd_projects db' = cd_projects db @ [p] \<and> cd_open db' = cd_open db
    \<and> r = getByAlias env (continuityAliasKey env nick) db'"
    using cont_register_elim [OF assms(2,3)] by auto
  then obtain nick p where
    al: "aliasSchema (ri_alias input) = Some nick" and op: "cd_open db"
    and p: "pr_id p = ri_id input" "pr_alias_key p = continuityAliasKey env nick"
    and fresh: "pr_id p \<notin> pr_id ` set (cd_projects db)"
    and db': "cd_projects db' = cd_projects db @ [p]" "cd_open db' = cd_open db"
    and r: "r = getByAlias env (continuityAliasKey env nick) db'" by (elim exE conjE) (rule that)
  have nick: "continuityAliasKey env nick = continuityAliasKey env (ri_alias input)"
    using al alias_key_trim by (auto simp: aliasSchema_def Let_def split: if_splits)
  have "\<exists>sp. getByAlias env (ri_alias input) db' = Inr sp \<and> sp_id sp = ri_id input"
    using project_found [OF ok', of p env "ri_alias input"] p nick db' op by auto
  moreover have "case r of Inl e \<Rightarrow> e = ContNotFound | Inr sp \<Rightarrow> sp_id sp \<noteq> ri_id input"
  proof (cases "find_key pr_alias_key (continuityAliasKey env (continuityAliasKey env nick)) (cd_projects db')")
    case None
    then show ?thesis by (simp add: r getByAlias_def db'(2) op)
  next
    case (Some q)
    from find_key_SomeD [OF this] have q: "q \<in> set (cd_projects db')"
      "continuityAliasKey env (continuityAliasKey env nick) = pr_alias_key q" by simp_all
    with assms(4) p(2) nick have "q \<noteq> p" by auto
    with q(1) db'(1) have "q \<in> set (cd_projects db)" by simp
    then have "pr_id q \<in> pr_id ` set (cd_projects db)" by (rule imageI)
    with fresh p(1) have "pr_id q \<noteq> ri_id input" by auto
    with project_found [OF ok' _ q] db'(2) op show ?thesis by (auto simp: r)
  qed
  ultimately show ?thesis by blast
qed

section \<open>A sample database\<close>

definition demo_cenv :: cont_env where
  "demo_cenv = \<lparr>ce_nfkc = (\<lambda>s. concat (map (\<lambda>c. if c = 0xB4 then [0x20, 0x301] else [c]) s)), ce_lower = (\<lambda>s. s),
     ce_now = ''2024-02-29T12:00:00.000Z''\<rparr>"

definition demo_semantic :: jval where
  "demo_semantic = JObj [(''task'', JObj [(''goal'', JString ''g''), (''constraints'', JArr []),
     (''successCriteria'', JArr []), (''status'', JString ''active''), (''nextStep'', JString ''n''),
     (''detail'', JUndefined)]), (''decisions'', JArr []), (''uncertainties'', JArr [JString ''u'']),
     (''verificationSummary'', JArr [])]"

definition demo_local :: jval where
  "demo_local = JObj [(''checkedAt'', JString ''t''), (''branch'', JNull),
     (''headSha'', JString (replicate 40 (CHR ''a''))), (''stagedPaths'', JArr []), (''unstagedPaths'', JArr []),
     (''untrackedPaths'', JArr []), (''pathsTruncated'', JBool False)]"

definition demo_published :: jval where
  "demo_published = (let ref = JObj [(''status'', JString ''unverified''), (''ref'', JNull), (''checkedAt'', JString ''t'')]
     in JObj [(''remoteName'', JNull), (''branch'', ref), (''main'', ref)])"

definition demo_worktree :: jval where
  "demo_worktree = JObj [(''canonicalPath'', JString ''/r''), (''repositoryRoot'', JString ''/r''),
     (''commonGitDir'', JString ''/r/.git''), (''gitDir'', JString ''/r/.git''),
     (''repositoryIdentity'', JString (replicate 64 (CHR ''a''))),
     (''worktreeIdentity'', JString (replicate 64 (CHR ''b'')))]"

definition demo_register :: "ustring \<Rightarrow> register_input" where
  "demo_register name = \<lparr>ri_id = ''id'', ri_alias = name, ri_roots = JArr [JString ''/r''], ri_worktree = demo_worktree,
     ri_localState = demo_local, ri_publishedState = demo_published, ri_semantic = demo_semantic\<rparr>"

lemmas schema_defs = projectRootsSchema_def pathSchema_def taskSchema_def localStateSchema_def publishedStateSchema_def
  remoteRefStateSchema_def semanticLineSchema_def semanticInputSchema_def worktreeIdentitySchema_def
  zobject_def zstring_def zarray_def zhex_def zenum_def znullable_def zbool_def zany_string_def

lemma demo_schemas: "projectRootsSchema (JArr [JString ''/r''])" "worktreeIdentitySchema demo_worktree"
  "localStateSchema demo_local" "publishedStateSchema demo_published" "semanticInputSchema demo_semantic"
  by (simp_all add: schema_defs demo_worktree_def demo_local_def demo_published_def demo_semantic_def Let_def list_all_iff)

lemma demo_registered:
  assumes "aliasSchema name = Some nick"
  shows "\<exists>db. fst (cont_register demo_cenv (demo_register name) cont_db_new) = db \<and> db \<noteq> cont_db_new
    \<and> cd_open db \<and> (\<exists>p \<in> set (cd_projects db). pr_id p = ''id'' \<and> pr_current_record_version p = 1
        \<and> pr_alias_key p = continuityAliasKey demo_cenv nick)
    \<and> expect_version ''id'' 1 db = Inr ()"
  using assms demo_schemas
  by (simp add: cont_register_def demo_register_def Let_def insert_project_def insert_worktree_def insert_record_def
      cont_db_new_def worktree_of_def record_of_def expect_version_def find_key_def)

theorem register_reports_wrong_project_witness:
  "case cont_register demo_cenv (demo_register [0xB4, 0x61]) cont_db_new of
     (db', r) \<Rightarrow> \<exists>sp. getByAlias demo_cenv [0xB4, 0x61] db' = Inr sp \<and> sp_id sp = ''id''"
proof -
  obtain db' r where c: "cont_register demo_cenv (demo_register [0xB4, 0x61]) cont_db_new = (db', r)" by fastforce
  have a: "aliasSchema [0xB4, 0x61] = Some [0xB4, 0x61]"
    by (simp add: aliasSchema_def u_trim_def u_space_def)
  with demo_registered [OF a] c have d: "db' \<noteq> cont_db_new" by auto
  have "continuityAliasKey demo_cenv (continuityAliasKey demo_cenv (ri_alias (demo_register [0xB4, 0x61])))
      \<noteq> continuityAliasKey demo_cenv (ri_alias (demo_register [0xB4, 0x61]))"
    by (simp add: demo_register_def continuityAliasKey_def demo_cenv_def u_trim_def u_space_def)
  from register_reports_wrong_project [OF css_refl c d this] c show ?thesis by (simp add: demo_register_def)
qed

definition demo_cdb :: cont_db where
  "demo_cdb = fst (cont_register demo_cenv (demo_register [0x61]) cont_db_new)"

lemma demo_cdb:
  "cont_steps cont_db_new demo_cdb" "cd_open demo_cdb" "expect_version ''id'' 1 demo_cdb = Inr ()"
  "\<exists>p \<in> set (cd_projects demo_cdb). pr_id p = ''id'' \<and> pr_current_record_version p = 1
    \<and> pr_alias_key p = continuityAliasKey demo_cenv [0x61]"
proof -
  show "cont_steps cont_db_new demo_cdb" unfolding demo_cdb_def by (rule css_step [OF css_refl cs_register])
  have "aliasSchema [0x61] = Some [0x61]" by (simp add: aliasSchema_def u_trim_def u_space_def)
  from demo_registered [OF this] show "cd_open demo_cdb" "expect_version ''id'' 1 demo_cdb = Inr ()"
    "\<exists>p \<in> set (cd_projects demo_cdb). pr_id p = ''id'' \<and> pr_current_record_version p = 1
      \<and> pr_alias_key p = continuityAliasKey demo_cenv [0x61]" by (auto simp: demo_cdb_def)
qed

theorem continuity_records_complete_witness:
  "\<exists>sp. getByAlias demo_cenv [0x61] demo_cdb = Inr sp \<and> sp_id sp = ''id''
    \<and> getRecord ''id'' 1 demo_cdb = Inr (sp_currentRecord sp) \<and> getRecord ''id'' 2 demo_cdb = Inl ContNotFound"
proof -
  obtain p where p: "p \<in> set (cd_projects demo_cdb)" "pr_id p = ''id''" "pr_current_record_version p = 1"
    "continuityAliasKey demo_cenv [0x61] = pr_alias_key p" using demo_cdb(4) by fastforce
  from continuity_records_complete [OF demo_cdb(1,2) p(1,4), of 2] p(2,3) show ?thesis by simp
qed

definition demo_check :: checkpoint_record where
  "demo_check = \<lparr>cr_projectId = ''id'', cr_expectedRecordVersion = 1, cr_semantic = demo_semantic,
     cr_localState = demo_local, cr_publishedState = demo_published\<rparr>"


end
