(* ===== verification/Process_Policy.thy ===== *)
theory Process_Policy
  imports Path_Policy
begin

text \<open>
  \<open>src/src/process/process-policy.ts\<close> and \<open>src/src/core/executable-resolution.ts\<close>: which commands may
  run, with which environment, and where their executables are looked for. \<open>path.join\<close> is the one
  of Node on a POSIX system; \<open>access\<close> and \<open>stat\<close> are given by the record \<open>exec_fs\<close>.
\<close>

section \<open>Process policy\<close>

datatype policy_refusal = TerminalDisabled | NotAllowlisted | NulArgument

definition path_basename :: "string \<Rightarrow> string" where
  "path_basename s = rev (takeWhile (\<lambda>c. c \<noteq> CHR ''/'') (dropWhile (\<lambda>c. c = CHR ''/'') (rev s)))"

definition validateProcessInvocation ::
  "bool \<Rightarrow> string list \<Rightarrow> string \<Rightarrow> ustring list \<Rightarrow> policy_refusal + unit" where
  "validateProcessInvocation enabled commands command args =
     (if \<not> enabled then Inl TerminalDisabled
      else if command \<noteq> path_basename command \<or> command \<notin> set commands then Inl NotAllowlisted
      else if list_ex (\<lambda>arg. 0 \<in> set arg) args then Inl NulArgument
      else Inr ())"

definition SAFE_ENV_KEYS :: "string list" where
  "SAFE_ENV_KEYS = [''HOME'', ''USER'', ''LOGNAME'', ''PATH'', ''LANG'', ''LC_ALL'', ''TMPDIR'', ''SHELL'', ''TERM'',
     ''SSH_AUTH_SOCK'']"

definition sanitizedChildEnvironment :: "(string \<Rightarrow> string option) \<Rightarrow> (string \<times> string) list" where
  "sanitizedChildEnvironment source =
     List.map_filter (\<lambda>k. map_option (Pair k) (source k)) SAFE_ENV_KEYS @ [(''CI'', ''1''), (''NO_COLOR'', ''1'')]"

section \<open>Joining paths\<close>

definition norm_push :: "bool \<Rightarrow> string list \<Rightarrow> string \<Rightarrow> string list" where
  "norm_push absolute acc seg =
     (if seg = [] \<or> seg = ''.'' then acc
      else if seg = ''..''
           then (if acc \<noteq> [] \<and> last acc \<noteq> ''..'' then butlast acc else if absolute then acc else acc @ [seg])
      else acc @ [seg])"

definition path_normalize :: "string \<Rightarrow> string" where
  "path_normalize p =
     (let absolute = isAbsolute p;
          trailing = p \<noteq> [] \<and> last p = CHR ''/'';
          body = join_with ''/'' (foldl (norm_push absolute) [] (split_char CHR ''/'' p))
      in if body = [] then (if absolute then ''/'' else if trailing then ''./'' else ''.'')
         else (if absolute then ''/'' else []) @ body @ (if trailing then ''/'' else []))"

definition path_join :: "string list \<Rightarrow> string" where
  "path_join parts =
     (let joined = join_with ''/'' (filter (\<lambda>p. p \<noteq> []) parts)
      in if joined = [] then ''.'' else path_normalize joined)"

section \<open>Finding executables\<close>

record exec_fs =
  xf_access :: "path \<Rightarrow> bool"
  xf_isFile :: "path \<Rightarrow> bool option"

record executable_resolution =
  er_name :: string
  er_allowed :: bool
  er_available :: bool
  er_resolvedPath :: "path option"

definition userLocalBinDirs :: "path \<Rightarrow> path list" where
  "userLocalBinDirs homeDir = [path_join [homeDir, ''.local'', ''bin''], path_join [homeDir, ''bin'']]"

text \<open>\<open>seen\<close> holds exactly the members of \<open>directories\<close>.\<close>

definition add_directory :: "path list \<Rightarrow> path \<Rightarrow> path list" where
  "add_directory directories d = (if d \<in> set directories then directories else directories @ [d])"

definition add_entry :: "path list \<Rightarrow> string \<Rightarrow> path list" where
  "add_entry directories entry =
     (let trimmed = js_trim entry
      in if trimmed = [] \<or> \<not> isAbsolute trimmed then directories else add_directory directories trimmed)"

definition resolutionSearchDirs :: "string option \<Rightarrow> path \<Rightarrow> path list" where
  "resolutionSearchDirs pathValue homeDir =
     foldl add_directory
       (foldl add_entry [] (split_char CHR '':'' (case pathValue of None \<Rightarrow> [] | Some value \<Rightarrow> value)))
       (userLocalBinDirs homeDir)"

definition isExecutableFile :: "exec_fs \<Rightarrow> path \<Rightarrow> bool" where
  "isExecutableFile fs candidate \<longleftrightarrow> xf_access fs candidate \<and> xf_isFile fs candidate = Some True"

definition resolveExecutablePath :: "exec_fs \<Rightarrow> string \<Rightarrow> string option \<Rightarrow> path \<Rightarrow> path option" where
  "resolveExecutablePath fs name pathValue homeDir =
     (if name = [] \<or> name \<noteq> path_basename name then None
      else find (isExecutableFile fs)
        (map (\<lambda>directory. path_join [directory, name]) (resolutionSearchDirs pathValue homeDir)))"

definition resolveAllowedCommands ::
  "exec_fs \<Rightarrow> string list \<Rightarrow> string option \<Rightarrow> path \<Rightarrow> executable_resolution list" where
  "resolveAllowedCommands fs commands pathValue homeDir =
     map (\<lambda>name. let resolvedPath = resolveExecutablePath fs name pathValue homeDir
            in \<lparr>er_name = name, er_allowed = True, er_available = (resolvedPath \<noteq> None),
                er_resolvedPath = resolvedPath\<rparr>) (js_set commands)"

section \<open>Facts\<close>

lemma basename_no_slash: "name = path_basename name \<Longrightarrow> CHR ''/'' \<notin> set name"
  unfolding path_basename_def by (metis (lifting) set_rev set_takeWhileD)

lemma validate_InrD:
  assumes "validateProcessInvocation enabled commands command args = Inr u"
  shows "enabled" "command \<in> set commands" "CHR ''/'' \<notin> set command" "\<forall>a \<in> set args. 0 \<notin> set a"
  using assms basename_no_slash [of command]
  by (auto simp: validateProcessInvocation_def list_ex_iff split: if_splits)

lemma map_of_environment:
  "distinct ks \<Longrightarrow> map_of (List.map_filter (\<lambda>k. map_option (Pair k) (f k)) ks) k = (if k \<in> set ks then f k else None)"
  by (induction ks) (auto simp: map_filter_simps split: option.split)

lemma keys_of_environment:
  "distinct ks \<Longrightarrow> distinct (map fst (List.map_filter (\<lambda>k. map_option (Pair k) (f k)) ks))
    \<and> set (map fst (List.map_filter (\<lambda>k. map_option (Pair k) (f k)) ks)) \<subseteq> set ks"
  by (induction ks) (auto simp: map_filter_simps split: option.split)

text \<open>A child sees the ten variables of the list, as the daemon has them, and the two constants.\<close>

lemma child_environment:
  "map_of (sanitizedChildEnvironment source) k =
     (if k = ''CI'' \<or> k = ''NO_COLOR'' then Some ''1'' else if k \<in> set SAFE_ENV_KEYS then source k else None)"
  "distinct (map fst (sanitizedChildEnvironment source))"
proof -
  have d: "distinct SAFE_ENV_KEYS" "''CI'' \<notin> set SAFE_ENV_KEYS" "''NO_COLOR'' \<notin> set SAFE_ENV_KEYS"
    by (simp_all add: SAFE_ENV_KEYS_def)
  show "map_of (sanitizedChildEnvironment source) k =
     (if k = ''CI'' \<or> k = ''NO_COLOR'' then Some ''1'' else if k \<in> set SAFE_ENV_KEYS then source k else None)"
    using d by (auto simp: sanitizedChildEnvironment_def map_add_def map_of_environment split: option.split)
  show "distinct (map fst (sanitizedChildEnvironment source))"
    using keys_of_environment [OF d(1), of source] d(2,3) by (auto simp: sanitizedChildEnvironment_def)
qed

lemma foldl_add_directory:
  "distinct ds \<Longrightarrow> distinct (foldl add_directory ds xs) \<and> set (foldl add_directory ds xs) = set ds \<union> set xs"
  by (induction xs arbitrary: ds) (auto simp: add_directory_def)

lemma foldl_add_entry:
  "distinct ds \<Longrightarrow> distinct (foldl add_entry ds xs)
    \<and> set (foldl add_entry ds xs) = set ds \<union> {t \<in> js_trim ` set xs. isAbsolute t}"
  by (induction xs arbitrary: ds) (auto simp: add_entry_def add_directory_def Let_def isAbsolute_def)

lemma search_dirs:
  "distinct (resolutionSearchDirs pathValue homeDir)"
  "d \<in> set (resolutionSearchDirs pathValue homeDir) \<Longrightarrow> isAbsolute d \<or> d \<in> set (userLocalBinDirs homeDir)"
  using foldl_add_entry [of "[]"] foldl_add_directory unfolding resolutionSearchDirs_def by auto

lemma resolveExecutablePath_SomeD:
  assumes "resolveExecutablePath fs name pathValue homeDir = Some p"
  shows "CHR ''/'' \<notin> set name" "xf_access fs p" "xf_isFile fs p = Some True"
    "\<exists>d \<in> set (resolutionSearchDirs pathValue homeDir). p = path_join [d, name]"
  using assms basename_no_slash [of name]
  by (auto simp: resolveExecutablePath_def find_Some_iff isExecutableFile_def split: if_splits)

end
