(* ===== verification/Owner_Shell.thy ===== *)
theory Owner_Shell
  imports Tail_Buffers Registry Process_Policy
begin

text \<open>
  \<open>src/src/terminal/owner-shell-supervisor.ts\<close>: one-shot shell runs of the owner. A run has a child process, two bounded output tails, possibly a timeout and an
  abort signal; it settles once, by the child's end, by the child's \<open>error\<close> event or by a failed
  attempt to terminate it. Every callback of the child, of a timer or of the abort signal is a
  function on the run, lifted to the supervisor by \<open>on_run\<close>; \<open>shell_step\<close> is the relation of all of
  them in any order. A run is named by its index; \<open>this.active\<close> is the field \<open>ar_active\<close>. The signals
  sent are logged per run. When a run settles, its \<open>finally\<close> block clears the timer and the listener
  before any other event, so both are guarded by \<open>ar_result\<close>.
\<close>

section \<open>State\<close>

datatype cancel_reason = CancelAbort | CancelShutdown

datatype shell_error = ShellCancelled cancel_reason | ShellFailed

datatype kill_outcome = KillDelivered | KillNoProcess | KillRefused

text \<open>\<open>child.kill\<close> for a child without an identifier, else the process or its group.\<close>

datatype shell_target = ChildKill | ProcessTarget int

datatype term_phase = NoTermination | TermSent | KillSent

record shell_result =
  or_cwd :: path
  or_exitCode :: "int option"
  or_signal :: "string option"
  or_stdout :: ustring
  or_stderr :: ustring
  or_stdoutBytesSeen :: nat
  or_stderrBytesSeen :: nat
  or_stdoutTruncated :: bool
  or_stderrTruncated :: bool
  or_timedOut :: bool

record active_run =
  ar_cwd :: path
  ar_pid :: "int option"
  ar_active :: bool
  ar_closed :: bool
  ar_stdout :: shell_tail
  ar_stderr :: shell_tail
  ar_reason :: "cancel_reason option"
  ar_timedOut :: bool
  ar_phase :: term_phase
  ar_requested :: bool
  ar_reported :: bool
  ar_listens :: bool
  ar_timer :: bool
  ar_result :: "(shell_error + shell_result) option"

record shell_options =
  so_maxRetainedBytesPerStream :: nat
  so_win32 :: bool

record shell_input =
  si_shellPath :: path
  si_script :: string
  si_cwd :: path
  si_timeoutMs :: "int option"
  si_signal :: "bool option"

record spawn_request =
  sq_command :: path
  sq_args :: "string list"
  sq_cwd :: path
  sq_env :: "(string \<times> string) list"
  sq_detached :: bool

record shell_sup =
  ss_runs :: "active_run list"
  ss_closing :: bool
  ss_log :: "(nat \<times> shell_target \<times> os_signal) list"

definition shell_sup_new :: shell_sup where
  "shell_sup_new = \<lparr>ss_runs = [], ss_closing = False, ss_log = []\<rparr>"

section \<open>One run\<close>

type_synonym run_event = "active_run \<Rightarrow> active_run \<times> (shell_target \<times> os_signal) list"

definition settle :: "shell_error + shell_result \<Rightarrow> active_run \<Rightarrow> active_run" where
  "settle x r = (if ar_result r = None then r\<lparr>ar_result := Some x\<rparr> else r)"

definition signal_target :: "shell_options \<Rightarrow> active_run \<Rightarrow> shell_target" where
  "signal_target opts r =
     (case ar_pid r of None \<Rightarrow> ChildKill | Some pid \<Rightarrow> ProcessTarget (if so_win32 opts then pid else - pid))"

definition signal_fails :: "kill_outcome \<Rightarrow> active_run \<Rightarrow> bool" where
  "signal_fails out r \<longleftrightarrow> ar_pid r \<noteq> None \<and> out = KillRefused"

text \<open>
  \<open>terminate\<close> and \<open>terminateOnce\<close> up to its first \<open>await\<close>: an attempt that is under way or done is
  returned as it is; a new one sends \<open>SIGTERM\<close>, and if that fails the attempt is forgotten.
\<close>

definition terminate_run ::
  "shell_options \<Rightarrow> kill_outcome \<Rightarrow> active_run \<Rightarrow> (active_run \<times> (shell_target \<times> os_signal) list) \<times> bool" where
  "terminate_run opts out r =
     (if ar_phase r \<noteq> NoTermination then ((r, []), True)
      else if signal_fails out r then ((r, [(signal_target opts r, SIGTERM)]), False)
      else ((r\<lparr>ar_phase := TermSent\<rparr>, [(signal_target opts r, SIGTERM)]), True))"

definition report_failure :: "active_run \<Rightarrow> active_run" where
  "report_failure r = (if ar_reported r then r else settle (Inl ShellFailed) (r\<lparr>ar_reported := True\<rparr>))"

definition requestTermination :: "shell_options \<Rightarrow> kill_outcome \<Rightarrow> run_event" where
  "requestTermination opts out r =
     (case terminate_run opts out r of
        ((r1, sigs), True) \<Rightarrow> (r1\<lparr>ar_requested := True\<rparr>, sigs)
      | ((r1, sigs), False) \<Rightarrow> (report_failure r1, sigs))"

definition shell_grace_expired :: "shell_options \<Rightarrow> kill_outcome \<Rightarrow> run_event" where
  "shell_grace_expired opts out r =
     (if ar_phase r \<noteq> TermSent \<or> ar_closed r then (r, [])
      else
        let sigs = [(signal_target opts r, SIGKILL)]
        in if signal_fails out r
           then ((let r1 = r\<lparr>ar_phase := NoTermination, ar_requested := False\<rparr>
                  in if ar_requested r then report_failure r1 else r1), sigs)
           else (r\<lparr>ar_phase := KillSent\<rparr>, sigs))"

definition shell_stdout :: "shell_options \<Rightarrow> byte list \<Rightarrow> run_event" where
  "shell_stdout opts chunk r =
     (r\<lparr>ar_stdout := shell_tail_append (so_maxRetainedBytesPerStream opts) chunk (ar_stdout r)\<rparr>, [])"

definition shell_stderr :: "shell_options \<Rightarrow> byte list \<Rightarrow> run_event" where
  "shell_stderr opts chunk r =
     (r\<lparr>ar_stderr := shell_tail_append (so_maxRetainedBytesPerStream opts) chunk (ar_stderr r)\<rparr>, [])"

definition shell_abort :: "shell_options \<Rightarrow> kill_outcome \<Rightarrow> run_event" where
  "shell_abort opts out r =
     (if \<not> ar_listens r \<or> ar_result r \<noteq> None then (r, [])
      else requestTermination opts out
        (r\<lparr>ar_listens := False, ar_reason := (if ar_reason r = None then Some CancelAbort else ar_reason r)\<rparr>))"

definition shell_timeout :: "shell_options \<Rightarrow> kill_outcome \<Rightarrow> run_event" where
  "shell_timeout opts out r =
     (if \<not> ar_timer r \<or> ar_result r \<noteq> None then (r, [])
      else requestTermination opts out (r\<lparr>ar_timer := False, ar_timedOut := True\<rparr>))"

definition shell_child_error :: run_event where
  "shell_child_error r =
     (settle (Inl ShellFailed) (if ar_pid r = None then r\<lparr>ar_closed := True, ar_active := False\<rparr> else r), [])"

text \<open>What \<open>run\<close> returns when the child has ended.\<close>

definition run_outcome :: "int option \<Rightarrow> string option \<Rightarrow> active_run \<Rightarrow> shell_error + shell_result" where
  "run_outcome exitCode signal r =
     (case ar_reason r of
        Some reason \<Rightarrow> Inl (ShellCancelled reason)
      | None \<Rightarrow>
          (case (shell_tail_snapshot (ar_stdout r), shell_tail_snapshot (ar_stderr r)) of
             ((out, outSeen, outCut), (err, errSeen, errCut)) \<Rightarrow>
               Inr \<lparr>or_cwd = ar_cwd r, or_exitCode = exitCode, or_signal = signal, or_stdout = out, or_stderr = err,
                 or_stdoutBytesSeen = outSeen, or_stderrBytesSeen = errSeen, or_stdoutTruncated = outCut,
                 or_stderrTruncated = errCut, or_timedOut = ar_timedOut r\<rparr>))"

definition shell_child_close :: "int option \<Rightarrow> string option \<Rightarrow> run_event" where
  "shell_child_close exitCode signal r =
     (let r1 = r\<lparr>ar_closed := True, ar_active := False\<rparr>
      in (settle (run_outcome exitCode signal r1) r1, []))"

text \<open>What \<open>close\<close> does to a run that is active.\<close>

definition shutdown_run :: "shell_options \<Rightarrow> kill_outcome \<Rightarrow> run_event" where
  "shutdown_run opts out r =
     (if \<not> ar_active r then (r, [])
      else fst (terminate_run opts out
        (r\<lparr>ar_reason := (if ar_reason r = None then Some CancelShutdown else ar_reason r)\<rparr>)))"

section \<open>The supervisor\<close>

definition on_run :: "nat \<Rightarrow> run_event \<Rightarrow> shell_sup \<Rightarrow> shell_sup" where
  "on_run i f s =
     (if i < length (ss_runs s)
      then case f (ss_runs s ! i) of
             (r, sigs) \<Rightarrow> s\<lparr>ss_runs := (ss_runs s)[i := r], ss_log := ss_log s @ map (Pair i) sigs\<rparr>
      else s)"

definition spawn_of :: "shell_options \<Rightarrow> (string \<Rightarrow> string option) \<Rightarrow> shell_input \<Rightarrow> spawn_request" where
  "spawn_of opts source input =
     \<lparr>sq_command = si_shellPath input, sq_args = [''-lc'', si_script input], sq_cwd = si_cwd input,
      sq_env = sanitizedChildEnvironment source, sq_detached = (\<not> so_win32 opts)\<rparr>"

text \<open>
  \<open>run\<close> up to its \<open>await\<close>. \<open>spawned\<close> is the child: \<open>None\<close> if \<open>spawn\<close> throws, else its identifier. The
  signal of the input, if there is one, says whether it is aborted already.
\<close>

definition shell_run ::
  "shell_options \<Rightarrow> shell_input \<Rightarrow> int option option \<Rightarrow> shell_sup \<Rightarrow> shell_sup \<times> (shell_error + nat)" where
  "shell_run opts input spawned s =
     (if ss_closing s then (s, Inl (ShellCancelled CancelShutdown))
      else if si_signal input = Some True then (s, Inl (ShellCancelled CancelAbort))
      else case spawned of
        None \<Rightarrow> (s, Inl ShellFailed)
      | Some pid \<Rightarrow>
          (s\<lparr>ss_runs := ss_runs s @ [\<lparr>ar_cwd = si_cwd input, ar_pid = pid, ar_active = True, ar_closed = False,
             ar_stdout = shell_tail_new, ar_stderr = shell_tail_new, ar_reason = None, ar_timedOut = False,
             ar_phase = NoTermination, ar_requested = False, ar_reported = False,
             ar_listens = (si_signal input \<noteq> None), ar_timer = (si_timeoutMs input \<noteq> None),
             ar_result = None\<rparr>]\<rparr>, Inr (length (ss_runs s))))"

text \<open>\<open>close\<close>: the outcome of the signal is given per run.\<close>

definition shell_close :: "shell_options \<Rightarrow> (nat \<Rightarrow> kill_outcome) \<Rightarrow> shell_sup \<Rightarrow> shell_sup" where
  "shell_close opts out s =
     fold (\<lambda>i. on_run i (shutdown_run opts (out i))) [0..<length (ss_runs s)] (s\<lparr>ss_closing := True\<rparr>)"

inductive shell_event :: "shell_options \<Rightarrow> run_event \<Rightarrow> bool" for opts where
  se_stdout: "shell_event opts (shell_stdout opts chunk)"
| se_stderr: "shell_event opts (shell_stderr opts chunk)"
| se_abort: "shell_event opts (shell_abort opts out)"
| se_timeout: "shell_event opts (shell_timeout opts out)"
| se_grace: "shell_event opts (shell_grace_expired opts out)"
| se_error: "shell_event opts shell_child_error"
| se_close: "shell_event opts (shell_child_close code signal)"

inductive shell_step :: "shell_options \<Rightarrow> shell_sup \<Rightarrow> shell_sup \<Rightarrow> bool" for opts where
  ss_run: "shell_step opts s (fst (shell_run opts input spawned s))"
| ss_event: "shell_event opts f \<Longrightarrow> shell_step opts s (on_run i f s)"
| ss_close: "shell_step opts s (shell_close opts out s)"

inductive shell_steps :: "shell_options \<Rightarrow> shell_sup \<Rightarrow> shell_sup \<Rightarrow> bool" for opts where
  sss_refl: "shell_steps opts s s"
| sss_step: "shell_steps opts s t \<Longrightarrow> shell_step opts t u \<Longrightarrow> shell_steps opts s u"

section \<open>Invariant\<close>

definition sigs_of :: "nat \<Rightarrow> shell_sup \<Rightarrow> (shell_target \<times> os_signal) list" where
  "sigs_of i s = map snd (filter (\<lambda>e. fst e = i) (ss_log s))"

text \<open>The first signal is \<open>SIGTERM\<close>, and every \<open>SIGKILL\<close> comes right after a \<open>SIGTERM\<close>.\<close>

fun escalates_from :: "os_signal option \<Rightarrow> (shell_target \<times> os_signal) list \<Rightarrow> bool" where
  "escalates_from prev [] = True"
| "escalates_from prev (e # es) = ((snd e = SIGKILL \<longrightarrow> prev = Some SIGTERM) \<and> escalates_from (Some (snd e)) es)"

definition last_signal :: "(shell_target \<times> os_signal) list \<Rightarrow> os_signal option" where
  "last_signal es = (if es = [] then None else Some (snd (last es)))"

lemma escalates_append:
  "escalates_from p (es @ [e]) \<longleftrightarrow> escalates_from p es
    \<and> (snd e = SIGKILL \<longrightarrow> (if es = [] then p else last_signal es) = Some SIGTERM)"
  by (induction es arbitrary: p) (auto simp: last_signal_def)

definition run_ok :: "active_run \<Rightarrow> (shell_target \<times> os_signal) list \<Rightarrow> bool" where
  "run_ok r sigs \<longleftrightarrow>
     (ar_result r = None \<longrightarrow> ar_active r)
     \<and> (sigs \<noteq> [] \<longrightarrow> ar_timedOut r \<or> ar_reason r \<noteq> None)
     \<and> escalates_from None sigs
     \<and> (ar_phase r = TermSent \<longrightarrow> last_signal sigs = Some SIGTERM)
     \<and> (\<forall>x. ar_result r = Some (Inr x) \<longrightarrow>
            \<not> ar_active r \<and> ar_reason r = None \<and> or_timedOut x = ar_timedOut r)"

lemma terminate_ok:
  assumes "run_ok r sigs" "ar_timedOut r \<or> ar_reason r \<noteq> None"
  shows "run_ok (fst (fst (terminate_run opts out r))) (sigs @ snd (fst (terminate_run opts out r)))"
  using assms by (auto simp: terminate_run_def run_ok_def escalates_append last_signal_def)

lemma settle_failed_ok: "run_ok r sigs \<Longrightarrow> run_ok (settle (Inl ShellFailed) r) sigs"
  by (auto simp: settle_def run_ok_def)

lemma run_ok_flags [simp]:
  "run_ok (r\<lparr>ar_requested := b\<rparr>) sigs = run_ok r sigs" "run_ok (r\<lparr>ar_reported := b\<rparr>) sigs = run_ok r sigs"
  "run_ok (r\<lparr>ar_listens := b\<rparr>) sigs = run_ok r sigs" "run_ok (r\<lparr>ar_timer := b\<rparr>) sigs = run_ok r sigs"
  "run_ok (r\<lparr>ar_stdout := t\<rparr>) sigs = run_ok r sigs" "run_ok (r\<lparr>ar_stderr := t\<rparr>) sigs = run_ok r sigs"
  by (simp_all add: run_ok_def)

lemma report_failure_ok: "run_ok r sigs \<Longrightarrow> run_ok (report_failure r) sigs"
  by (simp add: report_failure_def settle_failed_ok)

lemma request_ok:
  assumes "run_ok r sigs" "ar_timedOut r \<or> ar_reason r \<noteq> None"
  shows "run_ok (fst (requestTermination opts out r)) (sigs @ snd (requestTermination opts out r))"
  using terminate_ok [OF assms, of opts out]
  by (auto simp: requestTermination_def report_failure_ok split: prod.splits bool.splits)

lemma run_ok_unsettled:
  "run_ok r sigs \<Longrightarrow> ar_result r = None \<Longrightarrow> run_ok (r\<lparr>ar_reason := Some x\<rparr>) sigs"
  "run_ok r sigs \<Longrightarrow> ar_result r = None \<Longrightarrow> run_ok (r\<lparr>ar_timedOut := True\<rparr>) sigs"
  by (simp_all add: run_ok_def)

lemma event_ok:
  assumes "shell_event opts f" "run_ok r sigs"
  shows "run_ok (fst (f r)) (sigs @ snd (f r))"
  using assms
proof (induction rule: shell_event.induct)
  case (se_abort out)
  let ?r = "r\<lparr>ar_listens := False, ar_reason := (if ar_reason r = None then Some CancelAbort else ar_reason r)\<rparr>"
  have "run_ok ?r sigs" if "ar_result r = None"
    using run_ok_unsettled(1) [of "r\<lparr>ar_listens := False\<rparr>" sigs] se_abort that by auto
  then show ?case
    using se_abort request_ok [of ?r sigs opts out] by (simp add: shell_abort_def)
next
  case (se_timeout out)
  let ?r = "r\<lparr>ar_timer := False, ar_timedOut := True\<rparr>"
  have "run_ok ?r sigs" if "ar_result r = None"
    using run_ok_unsettled(2) [of "r\<lparr>ar_timer := False\<rparr>" sigs] se_timeout that by auto
  then show ?case
    using se_timeout request_ok [of ?r sigs opts out] by (simp add: shell_timeout_def)
next
  case (se_grace out)
  let ?k = "(signal_target opts r, SIGKILL)"
  show ?case
  proof (cases "ar_phase r \<noteq> TermSent \<or> ar_closed r")
    case False
    then have "last_signal sigs = Some SIGTERM" using se_grace by (simp add: run_ok_def)
    then have "run_ok (r\<lparr>ar_phase := p\<rparr>) (sigs @ [?k])" if "p \<noteq> TermSent" for p
      using that se_grace by (auto simp: run_ok_def escalates_append last_signal_def split: if_splits)
    then show ?thesis
      using False by (simp add: shell_grace_expired_def Let_def report_failure_ok)
  qed (simp add: shell_grace_expired_def se_grace)
next
  case se_error
  have "run_ok (settle (Inl ShellFailed) (r\<lparr>ar_closed := True, ar_active := False\<rparr>)) sigs"
    using se_error by (auto simp: settle_def run_ok_def)
  then show ?case using se_error by (simp add: shell_child_error_def settle_failed_ok)
next
  case (se_close code signal)
  then show ?case
    by (auto simp: shell_child_close_def settle_def run_outcome_def run_ok_def Let_def split: option.splits prod.splits sum.splits)
qed (simp_all add: shell_stdout_def shell_stderr_def)

lemma shutdown_ok:
  assumes "run_ok r sigs"
  shows "run_ok (fst (shutdown_run opts out r)) (sigs @ snd (shutdown_run opts out r))"
    and "ar_active (fst (shutdown_run opts out r)) \<longrightarrow> ar_reason (fst (shutdown_run opts out r)) \<noteq> None"
proof -
  let ?r = "r\<lparr>ar_reason := (if ar_reason r = None then Some CancelShutdown else ar_reason r)\<rparr>"
  have ok: "run_ok ?r sigs" if "ar_active r"
    using assms that by (auto simp: run_ok_def)
  then show "run_ok (fst (shutdown_run opts out r)) (sigs @ snd (shutdown_run opts out r))"
    using terminate_ok [of ?r sigs opts out] assms by (simp add: shutdown_run_def)
  show "ar_active (fst (shutdown_run opts out r)) \<longrightarrow> ar_reason (fst (shutdown_run opts out r)) \<noteq> None"
    by (simp add: shutdown_run_def terminate_run_def)
qed

lemma event_frame:
  "shell_event opts f \<Longrightarrow> (ar_active (fst (f r)) \<longrightarrow> ar_active r) \<and> (ar_reason r \<noteq> None \<longrightarrow> ar_reason (fst (f r)) \<noteq> None)
    \<and> (ar_result r \<noteq> None \<longrightarrow> ar_result (fst (f r)) = ar_result r)
    \<and> (ar_result r = None \<longrightarrow> ar_reason r \<noteq> None \<longrightarrow> (\<forall>x. ar_result (fst (f r)) \<noteq> Some (Inr x)))"
  by (induction rule: shell_event.induct)
    (auto simp: shell_stdout_def shell_stderr_def shell_abort_def shell_timeout_def shell_grace_expired_def
      shell_child_error_def shell_child_close_def requestTermination_def terminate_run_def report_failure_def
      settle_def run_outcome_def Let_def split: if_splits)

lemma shutdown_frame: "ar_result (fst (shutdown_run opts out r)) = ar_result r"
  by (simp add: shutdown_run_def terminate_run_def)

lemma on_run_effect:
  "length (ss_runs (on_run i f s)) = length (ss_runs s)" "ss_closing (on_run i f s) = ss_closing s"
  "j < length (ss_runs s) \<Longrightarrow> ss_runs (on_run i f s) ! j = (if j = i then fst (f (ss_runs s ! i)) else ss_runs s ! j)"
  "sigs_of j (on_run i f s)
    = sigs_of j s @ (if j = i \<and> i < length (ss_runs s) then snd (f (ss_runs s ! i)) else [])"
proof -
  have pairs: "map snd (filter (\<lambda>e. fst e = j) (map (Pair i) es)) = (if j = i then es else [])"
    for es :: "(shell_target \<times> os_signal) list" by (induction es) auto
  show "sigs_of j (on_run i f s)
    = sigs_of j s @ (if j = i \<and> i < length (ss_runs s) then snd (f (ss_runs s ! i)) else [])"
    by (cases "f (ss_runs s ! i)") (simp add: on_run_def sigs_of_def pairs comp_def)
qed (auto simp: on_run_def split: prod.splits if_splits)

definition log_ok :: "shell_sup \<Rightarrow> bool" where
  "log_ok s \<longleftrightarrow> (\<forall>e \<in> set (ss_log s). fst e < length (ss_runs s))"

lemma on_run_log: "log_ok s \<Longrightarrow> log_ok (on_run i f s)"
  by (auto simp: log_ok_def on_run_def split: prod.splits)

lemma fold_on_run_log: "log_ok s \<Longrightarrow> log_ok (fold (\<lambda>i. on_run i (f i)) ks s)"
  by (induction ks arbitrary: s) (simp_all add: on_run_log)

lemma fold_on_run:
  "k \<le> length (ss_runs s) \<Longrightarrow>
    length (ss_runs (fold (\<lambda>i. on_run i (f i)) [0..<k] s)) = length (ss_runs s)
    \<and> ss_closing (fold (\<lambda>i. on_run i (f i)) [0..<k] s) = ss_closing s
    \<and> (\<forall>j < length (ss_runs s).
         ss_runs (fold (\<lambda>i. on_run i (f i)) [0..<k] s) ! j
           = (if j < k then fst (f j (ss_runs s ! j)) else ss_runs s ! j)
         \<and> sigs_of j (fold (\<lambda>i. on_run i (f i)) [0..<k] s)
           = sigs_of j s @ (if j < k then snd (f j (ss_runs s ! j)) else []))"
proof (induction k)
  case (Suc k)
  let ?t = "fold (\<lambda>i. on_run i (f i)) [0..<k] s"
  from Suc have ih: "length (ss_runs ?t) = length (ss_runs s)" "ss_closing ?t = ss_closing s"
    "\<And>j. j < length (ss_runs s) \<Longrightarrow> ss_runs ?t ! j = (if j < k then fst (f j (ss_runs s ! j)) else ss_runs s ! j)
      \<and> sigs_of j ?t = sigs_of j s @ (if j < k then snd (f j (ss_runs s ! j)) else [])" by auto
  have step: "fold (\<lambda>i. on_run i (f i)) [0..<Suc k] s = on_run k (f k) ?t" by simp
  show ?case
    unfolding step on_run_effect(1,2,4) ih(1,2)
    using ih(3) Suc.prems
    by (auto simp: on_run_effect(3) ih(1) less_Suc_eq)
qed auto

definition shell_inv :: "shell_sup \<Rightarrow> bool" where
  "shell_inv s \<longleftrightarrow>
     (\<forall>i < length (ss_runs s). run_ok (ss_runs s ! i) (sigs_of i s)
        \<and> (ss_closing s \<longrightarrow> ar_active (ss_runs s ! i) \<longrightarrow> ar_reason (ss_runs s ! i) \<noteq> None))
     \<and> log_ok s"

lemma shell_run_inv: "shell_inv s \<Longrightarrow> shell_inv (fst (shell_run opts input spawned s))"
proof -
  assume inv: "shell_inv s"
  then have "filter (\<lambda>e. fst e = length (ss_runs s)) (ss_log s) = []"
    by (auto simp: shell_inv_def log_ok_def filter_empty_conv)
  with inv show ?thesis
    by (auto simp: shell_run_def shell_inv_def log_ok_def sigs_of_def nth_append run_ok_def less_Suc_eq split: option.splits)
qed

lemma shell_close_inv: "shell_inv s \<Longrightarrow> shell_inv (shell_close opts out s)"
proof -
  assume inv: "shell_inv s"
  let ?s = "s\<lparr>ss_closing := True\<rparr>"
  have sigs: "sigs_of i ?s = sigs_of i s" for i by (simp add: sigs_of_def)
  note e = fold_on_run [of "length (ss_runs ?s)" ?s "\<lambda>i. shutdown_run opts (out i)", OF order_refl]
  show ?thesis
    using e inv shutdown_ok fold_on_run_log [of ?s "\<lambda>i. shutdown_run opts (out i)" "[0..<length (ss_runs s)]"]
    unfolding shell_close_def shell_inv_def by (auto simp: sigs log_ok_def)
qed

lemma shell_step_inv: "shell_step opts s t \<Longrightarrow> shell_inv s \<Longrightarrow> shell_inv t"
proof (induction rule: shell_step.induct)
  case (ss_event f s i)
  show ?case
    unfolding shell_inv_def on_run_effect(1,2,4)
    using ss_event.prems event_ok [OF ss_event.hyps] event_frame [OF ss_event.hyps] on_run_log [of s i f]
    by (auto simp: shell_inv_def on_run_effect(3))
qed (simp_all add: shell_run_inv shell_close_inv)

lemma shell_reachable_inv: "shell_steps opts s t \<Longrightarrow> shell_inv s \<Longrightarrow> shell_inv t"
  by (induction rule: shell_steps.induct) (auto intro: shell_step_inv)

lemma shell_inv_new: "shell_inv shell_sup_new"
  by (simp add: shell_inv_def log_ok_def shell_sup_new_def)

section \<open>What the owner can rely on\<close>

text \<open>
  A result is what it says. In every reachable state, a run that returned a result was not
  cancelled, and if the result does not report a timeout then no signal was ever sent to the run;
  and whatever happened, the first signal to a run is \<open>SIGTERM\<close> and every \<open>SIGKILL\<close> comes right after
  a \<open>SIGTERM\<close>.
\<close>

theorem shell_results_honest:
  assumes "shell_steps opts shell_sup_new s" "i < length (ss_runs s)"
  shows "escalates_from None (sigs_of i s)
    \<and> (case ar_result (ss_runs s ! i) of
         Some (Inr x) \<Rightarrow> ar_reason (ss_runs s ! i) = None \<and> (if or_timedOut x then True else sigs_of i s = [])
       | _ \<Rightarrow> True)"
proof -
  have "run_ok (ss_runs s ! i) (sigs_of i s)"
    using shell_reachable_inv [OF assms(1) shell_inv_new] assms(2) by (simp add: shell_inv_def)
  then show ?thesis by (auto simp: run_ok_def split: option.splits sum.splits)
qed

lemma shell_step_closing:
  assumes "shell_step opts s t" "shell_inv s" "ss_closing s"
  shows "ss_closing t \<and> length (ss_runs t) = length (ss_runs s)
    \<and> (\<forall>i < length (ss_runs s). (\<forall>x. ar_result (ss_runs s ! i) \<noteq> Some (Inr x))
         \<longrightarrow> (\<forall>x. ar_result (ss_runs t ! i) \<noteq> Some (Inr x)))"
  using assms
proof (cases rule: shell_step.cases)
  case (ss_event f i)
  have reason: "ar_reason (ss_runs s ! i) \<noteq> None" if "i < length (ss_runs s)" "ar_result (ss_runs s ! i) = None"
    using assms(2,3) that by (simp add: shell_inv_def run_ok_def)
  have "\<forall>x. ar_result (fst (f (ss_runs s ! i))) \<noteq> Some (Inr x)"
    if "i < length (ss_runs s)" "\<forall>x. ar_result (ss_runs s ! i) \<noteq> Some (Inr x)"
    using event_frame [OF ss_event(2), of "ss_runs s ! i"] reason that
    by (cases "ar_result (ss_runs s ! i)") auto
  then show ?thesis unfolding ss_event(1) using assms(3) by (simp add: on_run_effect)
next
  case (ss_close out)
  have "\<forall>i < length (ss_runs s). ar_result (ss_runs t ! i) = ar_result (ss_runs s ! i)"
    "ss_closing t" "length (ss_runs t) = length (ss_runs s)"
    using fold_on_run [of "length (ss_runs s)" "s\<lparr>ss_closing := True\<rparr>" "\<lambda>i. shutdown_run opts (out i)"]
    unfolding ss_close shell_close_def by (simp_all add: shutdown_frame)
  then show ?thesis by simp
qed (simp add: shell_run_def)

text \<open>
  Closing the supervisor ends every run. After \<open>close\<close> no run is ever started, whatever input is
  given; a run that had not settled never returns a normal result, it is cancelled or fails; and
  it does settle when its child has ended.
\<close>

theorem shell_shutdown_cancels:
  assumes "shell_steps opts shell_sup_new s" "ss_closing s" "shell_steps opts s t" "i < length (ss_runs s)"
    "ar_result (ss_runs s ! i) = None"
  shows "shell_run opts input spawned t = (t, Inl (ShellCancelled CancelShutdown))
    \<and> length (ss_runs t) = length (ss_runs s)
    \<and> (case ar_result (ss_runs t ! i) of Some (Inr x) \<Rightarrow> False | _ \<Rightarrow> True)
    \<and> (\<exists>e. ar_result (ss_runs (on_run i (shell_child_close code signal) t) ! i) = Some (Inl e))"
proof -
  have inv: "shell_inv s" by (rule shell_reachable_inv [OF assms(1) shell_inv_new])
  have "ss_closing t \<and> shell_inv t \<and> length (ss_runs t) = length (ss_runs s)
      \<and> (\<forall>x. ar_result (ss_runs t ! i) \<noteq> Some (Inr x))"
    using assms(3,2,4,5) inv
  proof (induction rule: shell_steps.induct)
    case (sss_step t u)
    then show ?case using shell_step_closing [OF sss_step.hyps(2)] shell_step_inv [OF sss_step.hyps(2)] by auto
  qed simp
  then have t: "ss_closing t" "shell_inv t" "length (ss_runs t) = length (ss_runs s)"
    "\<And>x. ar_result (ss_runs t ! i) \<noteq> Some (Inr x)" by auto
  let ?c = "on_run i (shell_child_close code signal) t"
  have "shell_event opts (shell_child_close code signal)" by (rule se_close)
  from shell_step_closing [OF shell_step.ss_event [OF this, of t i] t(2,1)] t(3,4) assms(4)
  have "\<forall>x. ar_result (ss_runs ?c ! i) \<noteq> Some (Inr x)" by auto
  moreover have "ar_result (ss_runs ?c ! i) \<noteq> None"
    using t(3) assms(4) by (simp add: on_run_effect shell_child_close_def settle_def Let_def)
  ultimately have "\<exists>e. ar_result (ss_runs ?c ! i) = Some (Inl e)"
    by (cases "ar_result (ss_runs ?c ! i)") (simp, metis old.sum.exhaust option.inject)
  moreover have "case ar_result (ss_runs t ! i) of Some (Inr x) \<Rightarrow> False | _ \<Rightarrow> True"
    using t(4) by (auto split: option.splits sum.splits)
  ultimately show ?thesis using t(1,3) by (simp add: shell_run_def)
qed

definition demo_shell :: shell_options where
  "demo_shell = \<lparr>so_maxRetainedBytesPerStream = 4, so_win32 = False\<rparr>"

definition demo_started :: shell_sup where
  "demo_started = fst (shell_run demo_shell \<lparr>si_shellPath = ''/bin/sh'', si_script = ''ls'', si_cwd = ''/r'',
     si_timeoutMs = None, si_signal = None\<rparr> (Some (Some 7)) shell_sup_new)"

lemma demo_started: "shell_steps demo_shell shell_sup_new demo_started"
  unfolding demo_started_def by (rule sss_step [OF sss_refl ss_run])

theorem shell_results_honest_witness:
  "\<exists>x. ar_result (ss_runs (on_run 0 (shell_child_close (Some 0) None) demo_started) ! 0) = Some (Inr x)
    \<and> or_exitCode x = Some 0 \<and> sigs_of 0 (on_run 0 (shell_child_close (Some 0) None) demo_started) = []"
proof -
  let ?s = "on_run 0 (shell_child_close (Some 0) None) demo_started"
  have r: "shell_steps demo_shell shell_sup_new ?s"
    by (rule sss_step [OF demo_started shell_step.ss_event [OF se_close]])
  have n: "0 < length (ss_runs ?s)" by (simp add: on_run_effect demo_started_def shell_run_def shell_sup_new_def)
  have "\<exists>x. ar_result (ss_runs ?s ! 0) = Some (Inr x) \<and> or_exitCode x = Some 0 \<and> \<not> or_timedOut x"
    by (simp add: on_run_def demo_started_def shell_run_def shell_sup_new_def shell_child_close_def settle_def
        run_outcome_def shell_tail_snapshot_def)
  with shell_results_honest [OF r n] show ?thesis by auto
qed

theorem shell_shutdown_cancels_witness:
  "\<exists>e. ar_result (ss_runs (on_run 0 (shell_child_close (Some 0) None)
     (shell_close demo_shell (\<lambda>i. KillDelivered) demo_started)) ! 0) = Some (Inl e)"
proof -
  let ?s = "shell_close demo_shell (\<lambda>i. KillDelivered) demo_started"
  have r: "shell_steps demo_shell shell_sup_new ?s" by (rule sss_step [OF demo_started ss_close])
  have s: "ss_closing ?s" "0 < length (ss_runs ?s)" "ar_result (ss_runs ?s ! 0) = None"
    by (simp_all add: shell_close_def on_run_def demo_started_def shell_run_def shell_sup_new_def shutdown_run_def
        terminate_run_def signal_fails_def)
  from shell_shutdown_cancels [OF r s(1) sss_refl s(2,3)] show ?thesis by blast
qed

end
