(* ===== verification/Managed_Processes.thy ===== *)
theory Managed_Processes
  imports Process_Supervisor Process_Policy "HOL-Library.Sorting_Algorithms"
begin

text \<open>
  \<open>src/src/process/managed-process-service.ts\<close>: the tools' access to the process supervisor. It starts
  only what the process policy and the path policy allow, shows and stops only processes the
  current policy covers, and waits for output or for the end of a process with a deadline.

  The world outside is the record \<open>managed_world\<close>. Its streams are indexed by the looks of one call:
  look 0 is the one of \<open>requireManageable\<close> (or of \<open>descriptors\<close>), look \<open>Suc k\<close> the \<open>k\<close>-th turn of the
  loop. \<open>mw_others k\<close> is what everything else does to the supervisor during the \<open>await\<close> after look
  \<open>k\<close>; \<open>mw_now 0\<close> is the clock when the deadline is set, \<open>mw_now (Suc k)\<close> when turn \<open>k\<close> compares it, and
  \<open>mw_later k\<close> when turn \<open>k\<close> computes its pause.
\<close>

section \<open>The service and its world\<close>

datatype managed_error =
    InvocationRefused policy_refusal
  | ExecutableNotFound string
  | CwdRefused policy_error
  | ProcessNotFound
  | SupervisorFailed proc_error

record managed_config =
  mc_roots :: "abspath list"
  mc_enabled :: bool
  mc_commands :: "string list"

record managed_world =
  mw_lstat :: "abspath \<Rightarrow> lstat_result"
  mw_real :: "abspath \<Rightarrow> abspath option"
  mw_exec :: exec_fs
  mw_PATH :: "string option"
  mw_home :: path
  mw_env :: "nat \<Rightarrow> proc_env"
  mw_content :: "nat \<Rightarrow> path \<Rightarrow> byte list option"
  mw_others :: "nat \<Rightarrow> proc_sup \<Rightarrow> proc_sup"
  mw_now :: "nat \<Rightarrow> int"
  mw_later :: "nat \<Rightarrow> int"
  mw_aborted :: "nat \<Rightarrow> bool"

definition managed_start ::
  "managed_config \<Rightarrow> managed_world \<Rightarrow> proc_options \<Rightarrow> string \<Rightarrow> ustring list \<Rightarrow> string \<Rightarrow> string option \<Rightarrow> proc_sup
   \<Rightarrow> proc_sup \<times> (managed_error + start_outcome)"
where
  "managed_start cfg w opts command args cwdInput idempotencyKey s =
     (case validateProcessInvocation (mc_enabled cfg) (mc_commands cfg) command args of
        Inl e \<Rightarrow> (s, Inl (InvocationRefused e))
      | Inr _ \<Rightarrow>
          let s1 = mw_others w 0 s
          in (case resolveExecutablePath (mw_exec w) command (mw_PATH w) (mw_home w) of
                None \<Rightarrow> (s1, Inl (ExecutableNotFound command))
              | Some resolved \<Rightarrow>
                  (case policy_resolve (mw_lstat w) (mw_real w) (mc_roots cfg) cwdInput of
                     Inl e \<Rightarrow> (s1, Inl (CwdRefused e))
                   | Inr cwd \<Rightarrow>
                       (case start_process opts (mw_env w 0)
                          \<lparr>si_command = command, si_args = args, si_cwd = path_string cwd,
                           si_key = idempotencyKey\<rparr> s1 of
                          (s2, StartFailed e) \<Rightarrow> (s2, Inl (SupervisorFailed e))
                        | (s2, out) \<Rightarrow> (s2, Inr out)))))"

definition isManageable :: "managed_config \<Rightarrow> managed_world \<Rightarrow> string \<times> string \<times> path \<Rightarrow> bool" where
  "isManageable cfg w descriptor \<longleftrightarrow>
     (case descriptor of (processId, command, cwd) \<Rightarrow>
        mc_enabled cfg \<and> command \<in> set (mc_commands cfg)
        \<and> (case policy_resolve (mw_lstat w) (mw_real w) (mc_roots cfg) cwd of Inl _ \<Rightarrow> False | Inr _ \<Rightarrow> True))"

definition requireManageable ::
  "managed_config \<Rightarrow> managed_world \<Rightarrow> proc_options \<Rightarrow> string \<Rightarrow> proc_sup \<Rightarrow> proc_sup \<times> (managed_error + unit)" where
  "requireManageable cfg w opts processId s =
     (case proc_descriptors opts (mw_env w 0) s of
        (s1, descriptors) \<Rightarrow>
          (case find (\<lambda>d. fst d = processId) descriptors of
             None \<Rightarrow> (s1, Inl ProcessNotFound)
           | Some descriptor \<Rightarrow>
               (mw_others w 0 s1, if isManageable cfg w descriptor then Inr () else Inl ProcessNotFound)))"

text \<open>The loop of \<open>list\<close>; every turn awaits \<open>isManageable\<close>.\<close>

fun list_each ::
  "managed_config \<Rightarrow> managed_world \<Rightarrow> proc_options \<Rightarrow> nat \<Rightarrow> (string \<times> string \<times> path) list \<Rightarrow> proc_sup
   \<Rightarrow> proc_sup \<times> proc_summary list"
where
  "list_each cfg w opts k [] s = (s, [])"
| "list_each cfg w opts k (descriptor # ds) s =
     (if \<not> isManageable cfg w descriptor then list_each cfg w opts (Suc k) ds (mw_others w k s)
      else case proc_status opts (mw_env w (Suc k)) (fst descriptor) (mw_others w k s) of
        (s1, status) \<Rightarrow>
          (case list_each cfg w opts (Suc k) ds s1 of
             (s2, processes) \<Rightarrow>
               (s2, (case status of None \<Rightarrow> processes | Some value \<Rightarrow> value # processes))))"

definition managed_list ::
  "managed_config \<Rightarrow> managed_world \<Rightarrow> proc_options \<Rightarrow> string comparator \<Rightarrow> proc_sup \<Rightarrow> proc_sup \<times> proc_summary list" where
  "managed_list cfg w opts localeCompare s =
     (case proc_descriptors opts (mw_env w 0) s of
        (s1, descriptors) \<Rightarrow>
          (case list_each cfg w opts 0 descriptors s1 of
             (s2, processes) \<Rightarrow> (s2, sort (key su_startedAt (reversed localeCompare)) processes)))"

text \<open>\<open>stop\<close>, up to the \<open>await\<close> inside \<open>terminate\<close> when there is one.\<close>

definition managed_stop ::
  "managed_config \<Rightarrow> managed_world \<Rightarrow> proc_options \<Rightarrow> (int \<Rightarrow> sig_outcome) \<Rightarrow> string \<Rightarrow> proc_sup
   \<Rightarrow> proc_sup \<times> (managed_error + proc_summary)"
where
  "managed_stop cfg w opts answer processId s =
     (case requireManageable cfg w opts processId s of
        (s1, Inl e) \<Rightarrow> (s1, Inl e)
      | (s1, Inr _) \<Rightarrow>
          (case proc_stop opts (mw_env w 1) answer processId s1 of
             (s2, Inl e) \<Rightarrow> (s2, Inl (SupervisorFailed e))
           | (s2, Inr None) \<Rightarrow> (s2, Inl ProcessNotFound)
           | (s2, Inr (Some value)) \<Rightarrow> (s2, Inr value)))"

section \<open>Waiting\<close>

definition MAX_PROCESS_WAIT_MS :: int where "MAX_PROCESS_WAIT_MS = 30000"

definition WAIT_POLL_INTERVAL_MS :: int where "WAIT_POLL_INTERVAL_MS = 150"

definition waitDeadline :: "int \<Rightarrow> int option \<Rightarrow> int" where
  "waitDeadline now waitMs =
     now + min (max (case waitMs of None \<Rightarrow> 0 | Some ms \<Rightarrow> ms) 0) MAX_PROCESS_WAIT_MS"

text \<open>The argument of \<open>pause\<close> and what \<open>pause\<close> makes of it.\<close>

definition pause_ms :: "int \<Rightarrow> int \<Rightarrow> int" where
  "pause_ms deadline now = max 0 (min WAIT_POLL_INTERVAL_MS (deadline - now))"

text \<open>
  The shape of both loops: look, give up on a missing process, stop if what was seen is enough, else
  pause and look again. \<open>None\<close> means that the fuel is used up.
\<close>

fun poll_loop ::
  "nat \<Rightarrow> (nat \<Rightarrow> 's \<Rightarrow> 's \<times> 'v option) \<Rightarrow> (nat \<Rightarrow> 'v \<Rightarrow> bool) \<Rightarrow> (nat \<Rightarrow> 's \<Rightarrow> 's) \<Rightarrow> nat \<Rightarrow> 's
   \<Rightarrow> ('s \<times> 'v option) option"
where
  "poll_loop 0 look enough others k s = None"
| "poll_loop (Suc fuel) look enough others k s =
     (case look k s of
        (s1, None) \<Rightarrow> Some (s1, None)
      | (s1, Some v) \<Rightarrow>
          if enough k v then Some (s1, Some v) else poll_loop fuel look enough others (Suc k) (others k s1))"

definition wait_fuel :: nat where "wait_fuel = 201"

definition deadline_of :: "managed_world \<Rightarrow> int option \<Rightarrow> int" where
  "deadline_of w waitMs = waitDeadline (mw_now w 0) waitMs"

definition wait_over :: "managed_world \<Rightarrow> int option \<Rightarrow> nat \<Rightarrow> bool" where
  "wait_over w waitMs k \<longleftrightarrow> deadline_of w waitMs \<le> mw_now w (Suc k) \<or> mw_aborted w k"

definition status_look ::
  "managed_world \<Rightarrow> proc_options \<Rightarrow> string \<Rightarrow> nat \<Rightarrow> proc_sup \<Rightarrow> proc_sup \<times> proc_summary option" where
  "status_look w opts processId k s = proc_status opts (mw_env w (Suc k)) processId s"

definition status_enough :: "managed_world \<Rightarrow> int option \<Rightarrow> nat \<Rightarrow> proc_summary \<Rightarrow> bool" where
  "status_enough w waitMs k value \<longleftrightarrow> su_state value \<noteq> Running \<or> wait_over w waitMs k"

definition managed_status ::
  "managed_config \<Rightarrow> managed_world \<Rightarrow> proc_options \<Rightarrow> string \<Rightarrow> int option \<Rightarrow> proc_sup
   \<Rightarrow> (proc_sup \<times> (managed_error + proc_summary)) option"
where
  "managed_status cfg w opts processId waitMs s =
     (case requireManageable cfg w opts processId s of
        (s1, Inl e) \<Rightarrow> Some (s1, Inl e)
      | (s1, Inr _) \<Rightarrow>
          map_option (map_prod id (\<lambda>v. case v of None \<Rightarrow> Inl ProcessNotFound | Some value \<Rightarrow> Inr value))
            (poll_loop wait_fuel (status_look w opts processId) (status_enough w waitMs)
               (\<lambda>k. mw_others w (Suc k)) 0 s1))"

definition logs_look ::
  "managed_world \<Rightarrow> proc_options \<Rightarrow> string \<Rightarrow> nat option \<Rightarrow> nat \<Rightarrow> proc_sup
   \<Rightarrow> proc_sup \<times> (proc_logs \<times> proc_summary) option"
where
  "logs_look w opts processId cursor k s =
     (case proc_logs opts (mw_env w (Suc k)) (mw_content w k) processId cursor s of
        (s1, value) \<Rightarrow>
          (case proc_status opts (mw_env w (Suc k)) processId s1 of
             (s2, status) \<Rightarrow>
               (s2, case (value, status) of (Some v, Some u) \<Rightarrow> Some (v, u) | _ \<Rightarrow> None)))"

definition logs_enough :: "managed_world \<Rightarrow> int option \<Rightarrow> nat \<Rightarrow> proc_logs \<times> proc_summary \<Rightarrow> bool" where
  "logs_enough w waitMs k = (\<lambda>(value, status).
     0 < sl_bytes (lg_stdout value) \<or> 0 < sl_bytes (lg_stderr value)
     \<or> su_state status \<noteq> Running \<or> wait_over w waitMs k)"

record managed_logs =
  ml_logs :: proc_logs
  ml_state :: proc_state
  ml_exitCode :: jval

definition managed_logs_of :: "proc_logs \<times> proc_summary \<Rightarrow> managed_logs" where
  "managed_logs_of = (\<lambda>(value, status).
     \<lparr>ml_logs = value, ml_state = su_state status, ml_exitCode = su_exitCode status\<rparr>)"

definition managed_logs_call ::
  "managed_config \<Rightarrow> managed_world \<Rightarrow> proc_options \<Rightarrow> string \<Rightarrow> nat option \<Rightarrow> int option \<Rightarrow> proc_sup
   \<Rightarrow> (proc_sup \<times> (managed_error + managed_logs)) option"
where
  "managed_logs_call cfg w opts processId cursor waitMs s =
     (case requireManageable cfg w opts processId s of
        (s1, Inl e) \<Rightarrow> Some (s1, Inl e)
      | (s1, Inr _) \<Rightarrow>
          map_option
            (map_prod id (\<lambda>v. case v of None \<Rightarrow> Inl ProcessNotFound | Some value \<Rightarrow> Inr (managed_logs_of value)))
            (poll_loop wait_fuel (logs_look w opts processId cursor) (logs_enough w waitMs)
               (\<lambda>k. mw_others w (Suc k)) 0 s1))"

section \<open>The loops end\<close>

text \<open>
  The interface of the two loops: a look at the \<open>k\<close>-th turn, and a test that is true of every value
  once the clock has reached the deadline.
\<close>

primrec poll_state :: "(nat \<Rightarrow> 's \<Rightarrow> 's \<times> 'v option) \<Rightarrow> (nat \<Rightarrow> 's \<Rightarrow> 's) \<Rightarrow> 's \<Rightarrow> nat \<Rightarrow> 's" where
  "poll_state look others s 0 = s"
| "poll_state look others s (Suc k) = others k (fst (look k (poll_state look others s k)))"

definition poll_ends ::
  "(nat \<Rightarrow> 's \<Rightarrow> 's \<times> 'v option) \<Rightarrow> (nat \<Rightarrow> 'v \<Rightarrow> bool) \<Rightarrow> (nat \<Rightarrow> 's \<Rightarrow> 's) \<Rightarrow> 's \<Rightarrow> nat \<Rightarrow> bool" where
  "poll_ends look enough others s k \<longleftrightarrow>
     (case snd (look k (poll_state look others s k)) of None \<Rightarrow> True | Some v \<Rightarrow> enough k v)"

text \<open>\<open>r\<close> is what the first turn that ends the loop sees, one of the first \<open>n + 1\<close>.\<close>

definition first_answer ::
  "nat \<Rightarrow> (nat \<Rightarrow> 's \<Rightarrow> 's \<times> 'v option) \<Rightarrow> (nat \<Rightarrow> 'v \<Rightarrow> bool) \<Rightarrow> (nat \<Rightarrow> 's \<Rightarrow> 's) \<Rightarrow> 's \<Rightarrow> 's \<times> 'v option \<Rightarrow> bool"
where
  "first_answer n look enough others s r \<longleftrightarrow>
     (\<exists>k \<le> n. poll_ends look enough others s k \<and> (\<forall>j < k. \<not> poll_ends look enough others s j)
        \<and> r = look k (poll_state look others s k))"

lemma poll_loop_first:
  assumes "poll_ends look enough others s (k + d)" "\<forall>j < d. \<not> poll_ends look enough others s (k + j)" "d < fuel"
  shows "poll_loop fuel look enough others k (poll_state look others s k)
    = Some (look (k + d) (poll_state look others s (k + d)))"
  using assms
proof (induction fuel arbitrary: k d)
  case (Suc fuel)
  show ?case
  proof (cases d)
    case 0
    with Suc.prems(1) show ?thesis
      by (auto simp: poll_ends_def split: prod.splits option.splits)
  next
    case (Suc d')
    have "\<not> poll_ends look enough others s k" using Suc.prems(2) Suc by auto
    then obtain s1 v where v: "look k (poll_state look others s k) = (s1, Some v)" "\<not> enough k v"
      by (cases "look k (poll_state look others s k)") (auto simp: poll_ends_def split: option.splits)
    have "\<forall>j < d'. \<not> poll_ends look enough others s (Suc k + j)"
      using Suc.prems(2) Suc by (metis Suc_mono add_Suc_shift)
    with Suc.IH [of "Suc k" d'] Suc.prems(1,3) Suc v show ?thesis by simp
  qed
qed simp

text \<open>
  What a clock and \<open>setTimeout\<close> guarantee: the clock never goes back, and a pause takes at least the
  time asked for.
\<close>

definition timers_fire :: "managed_world \<Rightarrow> int \<Rightarrow> bool" where
  "timers_fire w deadline \<longleftrightarrow>
     mw_now w 0 \<le> mw_now w 1
     \<and> (\<forall>k. mw_now w (Suc k) \<le> mw_later w k
          \<and> mw_later w k + pause_ms deadline (mw_later w k) \<le> mw_now w (Suc (Suc k)))"

lemma clock_after:
  assumes "timers_fire w deadline"
  shows "min (mw_now w 0 + WAIT_POLL_INTERVAL_MS * int k) deadline \<le> mw_now w (Suc k)"
proof (induction k)
  case 0
  have "mw_now w 0 \<le> mw_now w 1" using assms by (simp add: timers_fire_def)
  then show ?case by (simp add: min_def)
next
  case (Suc k)
  have "mw_now w (Suc k) \<le> mw_later w k"
    "mw_later w k + pause_ms deadline (mw_later w k) \<le> mw_now w (Suc (Suc k))"
    using assms by (simp_all add: timers_fire_def)
  with Suc show ?case by (simp add: pause_ms_def WAIT_POLL_INTERVAL_MS_def min_def max_def split: if_splits)
qed

text \<open>The number of pauses until the deadline, rounded up: at most 200.\<close>

definition wait_turns :: "int option \<Rightarrow> nat" where
  "wait_turns waitMs =
     nat ((min (max (case waitMs of None \<Rightarrow> 0 | Some ms \<Rightarrow> ms) 0) MAX_PROCESS_WAIT_MS + 149) div WAIT_POLL_INTERVAL_MS)"

lemma wait_turns_le: "wait_turns waitMs \<le> 200"
proof -
  let ?b = "min (max (case waitMs of None \<Rightarrow> 0 | Some ms \<Rightarrow> ms) 0) 30000"
  have "(?b + 149) div 150 \<le> (30000 + 149) div (150 :: int)" by (intro zdiv_mono1) simp_all
  then show ?thesis by (simp add: wait_turns_def WAIT_POLL_INTERVAL_MS_def MAX_PROCESS_WAIT_MS_def)
qed

lemma deadline_reached:
  assumes "timers_fire w (deadline_of w waitMs)"
  shows "deadline_of w waitMs \<le> mw_now w (Suc (wait_turns waitMs))"
proof -
  let ?b = "min (max (case waitMs of None \<Rightarrow> 0 | Some ms \<Rightarrow> ms) 0) 30000"
  have "?b \<le> 150 * ((?b + 149) div 150)" "0 \<le> (?b + 149) div 150" by linarith+
  then have "deadline_of w waitMs \<le> mw_now w 0 + WAIT_POLL_INTERVAL_MS * int (wait_turns waitMs)"
    by (simp add: deadline_of_def waitDeadline_def wait_turns_def WAIT_POLL_INTERVAL_MS_def MAX_PROCESS_WAIT_MS_def)
  with clock_after [OF assms, of "wait_turns waitMs"] show ?thesis by simp
qed

locale deadline_poll =
  fixes look :: "nat \<Rightarrow> 's \<Rightarrow> 's \<times> 'v option" and enough :: "nat \<Rightarrow> 'v \<Rightarrow> bool"
    and w :: managed_world and waitMs :: "int option"
  assumes over_enough: "wait_over w waitMs k \<Longrightarrow> enough k v"
begin

lemma ends_in_time:
  assumes "timers_fire w (deadline_of w waitMs)"
  obtains t v where "first_answer (wait_turns waitMs) look enough others s (t, v)"
    "poll_loop wait_fuel look enough others 0 s = Some (t, v)"
proof -
  let ?E = "poll_ends look enough others s"
  have "?E (wait_turns waitMs)" using deadline_reached [OF assms] over_enough [of "wait_turns waitMs"]
    by (simp add: poll_ends_def wait_over_def split: option.split)
  then obtain k where k: "k \<le> wait_turns waitMs" "\<forall>j < k. \<not> ?E j" "?E k"
    using ex_least_nat_le [of ?E "wait_turns waitMs"] by blast
  then have "k < wait_fuel" using wait_turns_le [of waitMs] by (simp add: wait_fuel_def)
  with k have "poll_loop wait_fuel look enough others 0 (poll_state look others s 0)
      = Some (look (0 + k) (poll_state look others s (0 + k)))"
    by (intro poll_loop_first) simp_all
  then have "poll_loop wait_fuel look enough others 0 s = Some (look k (poll_state look others s k))"
    by (simp only: poll_state.simps add_0)
  with k show thesis using that unfolding first_answer_def by (metis surj_pair)
qed

end

interpretation status_poll: deadline_poll "status_look w opts i" "status_enough w waitMs" w waitMs
  for w opts i waitMs
  by unfold_locales (simp add: status_enough_def)

interpretation logs_poll: deadline_poll "logs_look w opts i cursor" "logs_enough w waitMs" w waitMs
  for w opts i cursor waitMs
  by unfold_locales (simp add: logs_enough_def case_prod_unfold)

section \<open>What the tools can rely on\<close>

text \<open>
  C34: Waiting always ends, and with the right answer. If the clock does not go back and a pause takes
  the time asked for, then \<open>status\<close> and \<open>logs\<close> return after at most one turn per 150 milliseconds of
  the bounded waiting time, so at once without \<open>waitMs\<close> and after at most 201 turns in any case; the
  answer is what the first turn saw at which the process was gone, not running, had output, the
  time was over or the caller had given up.
\<close>

theorem managed_wait_ends:
  assumes "timers_fire w (deadline_of w waitMs)" "requireManageable cfg w opts i s = (s1, Inr ())"
  shows "wait_turns waitMs \<le> 200 \<and> wait_turns None = 0
    \<and> (\<exists>t v. first_answer (wait_turns waitMs) (status_look w opts i) (status_enough w waitMs)
             (\<lambda>k. mw_others w (Suc k)) s1 (t, v)
         \<and> managed_status cfg w opts i waitMs s
           = Some (t, case v of None \<Rightarrow> Inl ProcessNotFound | Some value \<Rightarrow> Inr value))
    \<and> (\<exists>t v. first_answer (wait_turns waitMs) (logs_look w opts i cursor) (logs_enough w waitMs)
             (\<lambda>k. mw_others w (Suc k)) s1 (t, v)
         \<and> managed_logs_call cfg w opts i cursor waitMs s
           = Some (t, case v of None \<Rightarrow> Inl ProcessNotFound | Some value \<Rightarrow> Inr (managed_logs_of value)))"
proof (intro conjI)
  show "wait_turns waitMs \<le> 200" by (rule wait_turns_le)
  show "wait_turns None = 0" by (simp add: wait_turns_def WAIT_POLL_INTERVAL_MS_def MAX_PROCESS_WAIT_MS_def)
  let ?others = "\<lambda>k. mw_others w (Suc k)"
  show "\<exists>t v. first_answer (wait_turns waitMs) (status_look w opts i) (status_enough w waitMs) ?others s1 (t, v)
    \<and> managed_status cfg w opts i waitMs s
      = Some (t, case v of None \<Rightarrow> Inl ProcessNotFound | Some value \<Rightarrow> Inr value)"
    by (rule status_poll.ends_in_time [OF assms(1), where s = s1 and others = ?others])
      (auto simp: managed_status_def assms(2))
  show "\<exists>t v. first_answer (wait_turns waitMs) (logs_look w opts i cursor) (logs_enough w waitMs) ?others s1 (t, v)
    \<and> managed_logs_call cfg w opts i cursor waitMs s
      = Some (t, case v of None \<Rightarrow> Inl ProcessNotFound | Some value \<Rightarrow> Inr (managed_logs_of value))"
    by (rule logs_poll.ends_in_time [OF assms(1), where s = s1 and others = ?others])
      (auto simp: managed_logs_call_def assms(2))
qed

lemma refreshRecovered_log [simp]: "ps_log (refreshRecovered opts env i s) = ps_log s"
  by (simp add: refreshRecovered_def persistRecord_def put_proc_def Let_def split: option.split prod.split)

lemma descriptors_log: "ps_log (fst (proc_descriptors opts env s)) = ps_log s"
proof -
  have "ps_log (fold (refreshRecovered opts env) is s) = ps_log s" for "is"
    by (induction "is" arbitrary: s) simp_all
  then show ?thesis by (simp add: proc_descriptors_def Let_def)
qed

lemma status_id: "proc_status opts env i s = (t, Some v) \<Longrightarrow> su_processId v = i"
  by (auto simp: proc_status_def Let_def summary_def dest: find_key_SomeD)

text \<open>The identifiers of the processes the current policy covers.\<close>

definition covered_ids :: "managed_config \<Rightarrow> managed_world \<Rightarrow> (string \<times> string \<times> path) list \<Rightarrow> string list" where
  "covered_ids cfg w ds = map fst (filter (isManageable cfg w) ds)"

lemma covered_ids_simps [simp]:
  "covered_ids cfg w [] = []"
  "covered_ids cfg w (d # ds) = (if isManageable cfg w d then [fst d] else []) @ covered_ids cfg w ds"
  by (simp_all add: covered_ids_def)

lemma list_each_ids:
  "list_each cfg w opts k ds s = (t, vs) \<Longrightarrow> su_processId ` set vs \<subseteq> set (covered_ids cfg w ds)"
proof (induction ds arbitrary: k s t vs)
  case (Cons d ds)
  show ?case
  proof (cases "isManageable cfg w d")
    case True
    obtain s1 status where st: "proc_status opts (mw_env w (Suc k)) (fst d) (mw_others w k s) = (s1, status)"
      by fastforce
    obtain s2 us where us: "list_each cfg w opts (Suc k) ds s1 = (s2, us)" by fastforce
    have "vs = (case status of None \<Rightarrow> us | Some value \<Rightarrow> value # us)"
      using Cons.prems True st us by (simp split: option.splits)
    with Cons.IH [OF us] status_id [of opts _ "fst d" _ s1] st True show ?thesis
      by (cases status) auto
  next
    case False
    with Cons.prems Cons.IH show ?thesis by simp
  qed
qed simp

lemma requireManageable_refuses:
  assumes "proc_descriptors opts (mw_env w 0) s = (s1, ds)" "i \<notin> set (covered_ids cfg w ds)"
  obtains t where "t = s1 \<or> t = mw_others w 0 s1" "requireManageable cfg w opts i s = (t, Inl ProcessNotFound)"
proof (cases "find (\<lambda>d. fst d = i) ds")
  case None
  with that [of s1] assms(1) show thesis by (simp add: requireManageable_def)
next
  case (Some d)
  then have "d \<in> set ds" "fst d = i" by (auto simp: find_Some_iff)
  with assms(2) have "\<not> isManageable cfg w d" by (auto simp: covered_ids_def)
  with Some that [of "mw_others w 0 s1"] assms(1) show thesis by (simp add: requireManageable_def)
qed

text \<open>What \<open>start\<close> has checked when it calls the supervisor.\<close>

definition start_allowed ::
  "managed_config \<Rightarrow> managed_world \<Rightarrow> string \<Rightarrow> ustring list \<Rightarrow> string \<Rightarrow> abspath \<Rightarrow> bool" where
  "start_allowed cfg w command args cwdInput cwd \<longleftrightarrow>
     mc_enabled cfg \<and> command \<in> set (mc_commands cfg) \<and> CHR ''/'' \<notin> set command
     \<and> list_all (\<lambda>a. 0 \<notin> set a) args
     \<and> list_ex (\<lambda>d. isExecutableFile (mw_exec w) (path_join [d, command]))
         (resolutionSearchDirs (mw_PATH w) (mw_home w))
     \<and> policy_resolve (mw_lstat w) (mw_real w) (mc_roots cfg) cwdInput = Inr cwd"

lemma managed_start_checked:
  obtains "fst (managed_start cfg w opts command args cwdInput idemKey s) = s"
  | "fst (managed_start cfg w opts command args cwdInput idemKey s) = mw_others w 0 s"
  | cwd where "start_allowed cfg w command args cwdInput cwd"
      "fst (managed_start cfg w opts command args cwdInput idemKey s)
       = fst (start_process opts (mw_env w 0) \<lparr>si_command = command, si_args = args,
           si_cwd = path_string cwd, si_key = idemKey\<rparr> (mw_others w 0 s))"
proof (cases "validateProcessInvocation (mc_enabled cfg) (mc_commands cfg) command args")
  case (Inl e)
  with that(1) show thesis by (simp add: managed_start_def)
next
  case valid: (Inr u)
  show thesis
  proof (cases "resolveExecutablePath (mw_exec w) command (mw_PATH w) (mw_home w)")
    case None
    with valid that(2) show thesis by (simp add: managed_start_def Let_def)
  next
    case found: (Some p)
    show thesis
    proof (cases "policy_resolve (mw_lstat w) (mw_real w) (mc_roots cfg) cwdInput")
      case (Inl e)
      with valid found that(2) show thesis by (simp add: managed_start_def Let_def)
    next
      case (Inr cwd)
      have "start_allowed cfg w command args cwdInput cwd"
        unfolding start_allowed_def list_ex_iff list_all_iff isExecutableFile_def
        using validate_InrD [OF valid] resolveExecutablePath_SomeD [OF found] Inr by auto
      with that(3) [of cwd] valid found Inr show thesis
        by (simp add: managed_start_def Let_def split: prod.split start_outcome.split)
    qed
  qed
qed

text \<open>
  C33: The tools reach only processes the current policy covers. For any other identifier \<open>status\<close>,
  \<open>logs\<close> and \<open>stop\<close> answer that there is no such process, having signalled and audited nothing; \<open>list\<close>
  shows only covered ones; and a call of \<open>start\<close> either leaves the supervisor alone or hands it
  a command of the allowlist that is a plain file name, has an executable file in one of the
  search directories, arguments without NUL, and a directory that the path policy let through.
\<close>

theorem managed_processes_confined:
  assumes "proc_descriptors opts (mw_env w 0) s = (s1, ds)" "i \<notin> set (covered_ids cfg w ds)"
  shows "ps_log s1 = ps_log s
    \<and> (\<exists>t. (t = s1 \<or> t = mw_others w 0 s1)
         \<and> managed_status cfg w opts i waitMs s = Some (t, Inl ProcessNotFound)
         \<and> managed_logs_call cfg w opts i cursor waitMs s = Some (t, Inl ProcessNotFound)
         \<and> managed_stop cfg w opts answer i s = (t, Inl ProcessNotFound))
    \<and> su_processId ` set (snd (managed_list cfg w opts localeCompare s)) \<subseteq> set (covered_ids cfg w ds)
    \<and> fst (managed_start cfg w opts command args cwdInput idemKey s)
      \<in> {s, mw_others w 0 s}
        \<union> {fst (start_process opts (mw_env w 0) \<lparr>si_command = command, si_args = args,
             si_cwd = path_string cwd, si_key = idemKey\<rparr> (mw_others w 0 s)) |cwd.
           start_allowed cfg w command args cwdInput cwd}"
proof (intro conjI)
  show "ps_log s1 = ps_log s" using descriptors_log [of opts "mw_env w 0" s] assms(1) by simp
  obtain t where "t = s1 \<or> t = mw_others w 0 s1" "requireManageable cfg w opts i s = (t, Inl ProcessNotFound)"
    by (rule requireManageable_refuses [OF assms])
  then show "\<exists>t. (t = s1 \<or> t = mw_others w 0 s1)
      \<and> managed_status cfg w opts i waitMs s = Some (t, Inl ProcessNotFound)
      \<and> managed_logs_call cfg w opts i cursor waitMs s = Some (t, Inl ProcessNotFound)
      \<and> managed_stop cfg w opts answer i s = (t, Inl ProcessNotFound)"
    by (intro exI [of _ t]) (simp add: managed_status_def managed_logs_call_def managed_stop_def)
  obtain s2 vs where vs: "list_each cfg w opts 0 ds s1 = (s2, vs)" by fastforce
  then have "snd (managed_list cfg w opts localeCompare s) = sort (key su_startedAt (reversed localeCompare)) vs"
    by (simp add: managed_list_def assms(1))
  with list_each_ids [OF vs]
  show "su_processId ` set (snd (managed_list cfg w opts localeCompare s)) \<subseteq> set (covered_ids cfg w ds)"
    by (simp only: set_sort)
qed (rule managed_start_checked [of cfg w opts command args cwdInput idemKey s]; blast)

section \<open>Witnesses\<close>

definition demo_world :: managed_world where
  "demo_world = \<lparr>mw_lstat = demo_lst, mw_real = demo_real,
     mw_exec = \<lparr>xf_access = (\<lambda>p. True), xf_isFile = (\<lambda>p. Some True)\<rparr>, mw_PATH = Some ''/bin'', mw_home = ''/h'',
     mw_env = (\<lambda>k. demo_env), mw_content = (\<lambda>k p. None), mw_others = (\<lambda>k s. s),
     mw_now = (\<lambda>k. 150 * int k), mw_later = (\<lambda>k. 150 * (int k + 1)), mw_aborted = (\<lambda>k. False)\<rparr>"

definition demo_cfg :: managed_config where
  "demo_cfg = \<lparr>mc_roots = [[''w'']], mc_enabled = True, mc_commands = [''npm'']\<rparr>"

lemma demo_descriptors: "proc_descriptors demo_popts demo_env demo_p2 = (demo_p2, [(''a'', ''npm'', ''w'')])"
proof -
  have r: "m_processId demo_record = ''a''" "m_command demo_record = ''npm''" "m_cwd demo_record = ''w''"
    by (simp_all add: created_record_def demo_input_def)
  have "refreshed demo_env demo_record = (demo_record, False)"
    by (simp add: refreshed_def Let_def created_record_def demo_env_def applyIndependentResult_def files_of_def
        demo_popts_def processFingerprint_def sameProcessFingerprint_def)
  then have "refreshRecovered demo_popts demo_env ''a'' demo_p2 = demo_p2"
    by (cases demo_p2) (use demo_p2_records r in \<open>simp add: refreshRecovered_def find_key_def put_proc_def upd_key_def\<close>)
  then show ?thesis by (simp add: proc_descriptors_def Let_def demo_p2_records r)
qed

lemma demo_manageable: "isManageable demo_cfg demo_world (''a'', ''npm'', ''w'')"
proof -
  have "policy_resolve demo_lst demo_real [[''w'']] ''w'' = Inr [''w'', ''w'']" by code_simp
  then show ?thesis by (simp add: isManageable_def demo_cfg_def demo_world_def)
qed

theorem managed_wait_ends_witness:
  "\<exists>t v. managed_status demo_cfg demo_world demo_popts ''a'' (Some 400) demo_p2 = Some (t, v)"
proof -
  have "timers_fire demo_world (deadline_of demo_world (Some 400))"
    by (simp add: timers_fire_def demo_world_def pause_ms_def WAIT_POLL_INTERVAL_MS_def)
  moreover have "requireManageable demo_cfg demo_world demo_popts ''a'' demo_p2 = (demo_p2, Inr ())"
    using demo_descriptors demo_manageable by (simp add: requireManageable_def demo_world_def)
  ultimately show ?thesis using managed_wait_ends by blast
qed

theorem managed_processes_confined_witness:
  "\<exists>t. managed_status demo_cfg demo_world demo_popts ''b'' None demo_p2 = Some (t, Inl ProcessNotFound)"
proof -
  have d: "proc_descriptors demo_popts (mw_env demo_world 0) demo_p2 = (demo_p2, [(''a'', ''npm'', ''w'')])"
    using demo_descriptors by (simp add: demo_world_def)
  have "''b'' \<notin> set (covered_ids demo_cfg demo_world [(''a'', ''npm'', ''w'')])" by (simp add: covered_ids_def)
  from managed_processes_confined [OF d this] show ?thesis by blast
qed

end
