(* ===== verification/File_Tree.thy ===== *)
theory File_Tree
  imports Path_Policy
begin

text \<open>
  A POSIX file system, as far as the file service depends on it: a tree of directories, regular
  files, symbolic links and other nodes, path resolution with links, and the calls \<open>lstat\<close> and
  \<open>realpath\<close> that the path policy makes, here computed from the tree. A tree lists its entries by
  their physical path; the root directory is always there.
\<close>

section \<open>Trees\<close>

datatype inode = FileNode "byte list" nat | DirNode | LinkNode string | OtherNode

type_synonym tree = "(abspath \<times> inode) list"

definition node_at :: "tree \<Rightarrow> abspath \<Rightarrow> inode option" where
  "node_at t p = (if p = [] then Some DirNode else map_option snd (find_key fst p t))"

definition set_node :: "abspath \<Rightarrow> inode \<Rightarrow> tree \<Rightarrow> tree" where
  "set_node p n t = put_key fst (p, n) t"

definition del_node :: "abspath \<Rightarrow> tree \<Rightarrow> tree" where
  "del_node p t = del_key fst p t"

text \<open>What is at or below \<open>a\<close> goes away, or moves to \<open>b\<close>, replacing what is there.\<close>

definition del_below :: "abspath \<Rightarrow> tree \<Rightarrow> tree" where
  "del_below a t = filter (\<lambda>e. \<not> prefix a (fst e)) t"

definition move_below :: "abspath \<Rightarrow> abspath \<Rightarrow> tree \<Rightarrow> tree" where
  "move_below a b t =
     map (\<lambda>e. if prefix a (fst e) then (b @ drop (length a) (fst e), snd e) else e)
       (filter (\<lambda>e. prefix a (fst e) \<or> \<not> prefix b (fst e)) t)"

definition names_in :: "abspath \<Rightarrow> tree \<Rightarrow> string list" where
  "names_in d t = map (last \<circ> fst) (filter (\<lambda>e. fst e \<noteq> [] \<and> butlast (fst e) = d) t)"

text \<open>Distinct entries, every one with a plain name in a directory.\<close>

definition wf_tree :: "tree \<Rightarrow> bool" where
  "wf_tree t \<longleftrightarrow> distinct (map fst t)
     \<and> list_all (\<lambda>e. fst e \<noteq> [] \<and> norm_path (fst e) \<and> node_at t (butlast (fst e)) = Some DirNode) t"

section \<open>Path resolution\<close>

datatype errno = ENOENT | ENOTDIR | ELOOP | EEXIST | EISDIR | EINVAL | ENOTEMPTY | EIO

text \<open>
  \<open>walk n t cur cs follow\<close> resolves the components \<open>cs\<close> from the directory \<open>cur\<close> through at most \<open>n\<close>
  links, the last component included if \<open>follow\<close>, and returns the physical path of the entry; the
  entry itself may be missing, its directory exists.
\<close>

function walk :: "nat \<Rightarrow> tree \<Rightarrow> abspath \<Rightarrow> string list \<Rightarrow> bool \<Rightarrow> errno + abspath" where
  "walk n t cur [] follow = Inr cur"
| "walk n t cur (c # cs) follow =
     (if c = [] \<or> c = ''.'' then walk n t cur cs follow
      else if c = ''..'' then walk n t (butlast cur) cs follow
      else case node_at t (cur @ [c]) of
        None \<Rightarrow> if cs = [] then Inr (cur @ [c]) else Inl ENOENT
      | Some DirNode \<Rightarrow> walk n t (cur @ [c]) cs follow
      | Some (LinkNode target) \<Rightarrow>
          if cs = [] \<and> \<not> follow then Inr (cur @ [c])
          else if n = 0 then Inl ELOOP
          else walk (n - 1) t (if isAbsolute target then [] else cur) (split_char CHR ''/'' target @ cs) follow
      | Some _ \<Rightarrow> if cs = [] then Inr (cur @ [c]) else Inl ENOTDIR)"
  by pat_completeness auto
termination
  by (relation "measures [\<lambda>(n, t, cur, cs, follow). n, \<lambda>(n, t, cur, cs, follow). length cs]") auto

declare walk.simps [simp del]

lemmas walk_simps [simp] = walk.simps(1)

definition MAX_LINKS :: nat where "MAX_LINKS = 40"

definition entry_of :: "tree \<Rightarrow> abspath \<Rightarrow> errno + abspath" where
  "entry_of t p = walk MAX_LINKS t [] p False"

definition target_of :: "tree \<Rightarrow> abspath \<Rightarrow> errno + abspath" where
  "target_of t p = walk MAX_LINKS t [] p True"

definition tree_lstat :: "tree \<Rightarrow> abspath \<Rightarrow> lstat_result" where
  "tree_lstat t p =
     (case entry_of t p of
        Inl e \<Rightarrow> if e = ENOENT \<or> e = ENOTDIR then LMissing else LFails
      | Inr q \<Rightarrow> if node_at t q = None then LMissing else LExists)"

definition tree_real :: "tree \<Rightarrow> abspath \<Rightarrow> abspath option" where
  "tree_real t p =
     (case target_of t p of
        Inl _ \<Rightarrow> None
      | Inr q \<Rightarrow> if node_at t q = None then None else Some q)"

definition canonical :: "tree \<Rightarrow> abspath \<Rightarrow> policy_error + abspath" where
  "canonical t = canonicalizePath (tree_lstat t) (tree_real t)"

section \<open>Facts\<close>

lemma node_at_set [simp]:
  "node_at (set_node p n t) q = (if q = p \<and> p \<noteq> [] then Some n else node_at t q)"
  by (auto simp: node_at_def set_node_def find_key_put)

lemma node_at_del [simp]: "node_at (del_node p t) q = (if q = p \<and> p \<noteq> [] then None else node_at t q)"
  by (auto simp: node_at_def del_node_def find_key_del)

lemma node_at_below [simp]:
  "node_at (del_below a t) q = (if prefix a q \<and> q \<noteq> [] then None else node_at t q)"
proof -
  have "find (\<lambda>e. fst e = q) (filter (\<lambda>e. \<not> prefix a (fst e)) t)
      = (if prefix a q then None else find (\<lambda>e. fst e = q) t)"
    by (induction t) auto
  then show ?thesis by (simp add: node_at_def del_below_def find_key_def)
qed

lemma node_at_Nil [simp]: "node_at t [] = Some DirNode"
  by (simp add: node_at_def)

lemma wf_treeD:
  assumes "wf_tree t" "node_at t p = Some n" "p \<noteq> []"
  shows "norm_path p" "node_at t (butlast p) = Some DirNode"
proof -
  obtain e where "find_key fst p t = Some e" using assms(2,3) by (auto simp: node_at_def)
  then have "e \<in> set t" "fst e = p" by (auto dest: find_key_SomeD)
  with assms(1) show "norm_path p" "node_at t (butlast p) = Some DirNode"
    by (auto simp: wf_tree_def list_all_iff)
qed

text \<open>A path whose proper prefixes are directories; in a tree every entry has one.\<close>

definition physical :: "tree \<Rightarrow> abspath \<Rightarrow> bool" where
  "physical t p \<longleftrightarrow> norm_path p \<and> (\<forall>q. strict_prefix q p \<longrightarrow> node_at t q = Some DirNode)"

lemma physical_prefix: "physical t p \<Longrightarrow> prefix q p \<Longrightarrow> physical t q"
  unfolding physical_def using norm_path_sub by (metis prefix_order.less_le_trans set_mono_prefix)

lemma physical_snoc:
  "physical t p \<Longrightarrow> node_at t p = Some DirNode \<Longrightarrow> norm_path [c] \<Longrightarrow> physical t (p @ [c])"
  unfolding physical_def by (auto simp: strict_prefix_def norm_path_def)

lemma existing_physical:
  assumes "wf_tree t" "node_at t p \<noteq> None"
  shows "physical t p"
  using assms(2)
proof (induction p rule: rev_induct)
  case Nil
  show ?case by (simp add: physical_def norm_path_def)
next
  case (snoc c p)
  then obtain n where n: "node_at t (p @ [c]) = Some n" by auto
  from wf_treeD [OF assms(1) n] have "norm_path (p @ [c])" "node_at t p = Some DirNode" by simp_all
  with snoc.IH show ?case by (auto intro!: physical_snoc simp: norm_path_def)
qed

lemma physical_Dir:
  assumes "wf_tree t" "node_at t p = Some DirNode"
  shows "physical t p"
  by (rule existing_physical) (use assms in simp_all)

lemma butlast_Dir:
  assumes "wf_tree t" "node_at t p = Some DirNode"
  shows "node_at t (butlast p) = Some DirNode"
  using wf_treeD(2) [OF assms] by (cases "p = []") simp_all

section \<open>Facts on resolution\<close>

lemma walk_skip [simp]: "c = [] \<or> c = ''.'' \<Longrightarrow> walk n t cur (c # cs) follow = walk n t cur cs follow"
  by (auto simp: walk.simps(2))

lemma walk_up [simp]: "walk n t cur (''..'' # cs) follow = walk n t (butlast cur) cs follow"
  by (simp add: walk.simps(2))

lemma walk_plain:
  assumes "norm_path [c]"
  shows "walk n t cur (c # cs) follow =
    (case node_at t (cur @ [c]) of
       None \<Rightarrow> if cs = [] then Inr (cur @ [c]) else Inl ENOENT
     | Some DirNode \<Rightarrow> walk n t (cur @ [c]) cs follow
     | Some (LinkNode target) \<Rightarrow>
         if cs = [] \<and> \<not> follow then Inr (cur @ [c])
         else if n = 0 then Inl ELOOP
         else walk (n - 1) t (if isAbsolute target then [] else cur) (split_char CHR ''/'' target @ cs) follow
     | Some _ \<Rightarrow> if cs = [] then Inr (cur @ [c]) else Inl ENOTDIR)"
  using assms by (auto simp: walk.simps(2) norm_path_def)

text \<open>Induction along a resolution from a directory, one case per kind of component.\<close>

lemma walk_induct [consumes 2, case_names Nil skip up missing leaf dir link]:
  fixes n :: nat
  assumes "wf_tree t" "node_at t cur = Some DirNode"
  assumes "\<And>n cur. node_at t cur = Some DirNode \<Longrightarrow> P n cur []"
    and "\<And>n cur c cs. c = [] \<or> c = ''.'' \<Longrightarrow> P n cur cs \<Longrightarrow> P n cur (c # cs)"
    and "\<And>n cur cs. P n (butlast cur) cs \<Longrightarrow> P n cur (''..'' # cs)"
    and "\<And>n cur c cs. norm_path [c] \<Longrightarrow> node_at t cur = Some DirNode \<Longrightarrow> node_at t (cur @ [c]) = None
      \<Longrightarrow> P n cur (c # cs)"
    and "\<And>n cur c cs node. norm_path [c] \<Longrightarrow> node_at t cur = Some DirNode \<Longrightarrow> node_at t (cur @ [c]) = Some node
      \<Longrightarrow> node = OtherNode \<or> (\<exists>b m. node = FileNode b m) \<Longrightarrow> P n cur (c # cs)"
    and "\<And>n cur c cs. norm_path [c] \<Longrightarrow> node_at t (cur @ [c]) = Some DirNode \<Longrightarrow> P n (cur @ [c]) cs
      \<Longrightarrow> P n cur (c # cs)"
    and "\<And>n cur c cs target. norm_path [c] \<Longrightarrow> node_at t cur = Some DirNode
      \<Longrightarrow> node_at t (cur @ [c]) = Some (LinkNode target)
      \<Longrightarrow> (n \<noteq> 0 \<Longrightarrow> P (n - 1) (if isAbsolute target then [] else cur) (split_char CHR ''/'' target @ cs))
      \<Longrightarrow> P n cur (c # cs)"
  shows "P n cur cs"
  using assms(2)
proof (induction n arbitrary: cur cs rule: less_induct)
  case (less n cur cs)
  show ?case using less.prems
  proof (induction cs arbitrary: cur)
    case Nil
    then show ?case by (rule assms(3))
  next
    case (Cons c cs)
    note cur = Cons.prems
    consider "c = [] \<or> c = ''.''" | "c = ''..''" | "norm_path [c]" by (auto simp: norm_path_def)
    then show ?case
    proof cases
      case 1
      then show ?thesis using Cons.IH [OF cur] by (rule assms(4))
    next
      case 2
      show ?thesis unfolding 2 by (rule assms(5)) (rule Cons.IH [OF butlast_Dir [OF assms(1) cur]])
    next
      case 3
      show ?thesis
      proof (cases "node_at t (cur @ [c])")
        case None
        with 3 cur show ?thesis by (intro assms(6))
      next
        case (Some node)
        show ?thesis
        proof (cases node)
          case DirNode
          with Some have "node_at t (cur @ [c]) = Some DirNode" by simp
          with 3 Cons.IH [OF this] show ?thesis by (intro assms(8))
        next
          case (LinkNode target)
          have "P (n - 1) (if isAbsolute target then [] else cur) (split_char CHR ''/'' target @ cs)" if "n \<noteq> 0"
            by (rule less.IH) (use that cur in auto)
          with 3 cur Some LinkNode show ?thesis by (intro assms(9)) simp_all
        qed (use 3 cur Some in \<open>auto intro: assms(7)\<close>)
      qed
    qed
  qed
qed

text \<open>What resolution returns: a physical path, of a link only if links are not followed.\<close>

lemma walk_result:
  assumes "wf_tree t" "node_at t cur = Some DirNode" "walk n t cur cs follow = Inr q"
  shows "physical t q \<and> (follow \<longrightarrow> (\<forall>target. node_at t q \<noteq> Some (LinkNode target)))"
  using assms
proof (induction n cur cs rule: walk_induct)
  case (Nil n cur)
  then show ?case using physical_Dir assms(1) by auto
qed (auto simp: walk_plain assms(1) physical_snoc physical_Dir split: if_splits)

text \<open>A prefix that resolves to a directory can be resolved first.\<close>

lemma walk_append:
  assumes "wf_tree t" "node_at t cur = Some DirNode" "walk n t cur xs True = Inr d" "node_at t d = Some DirNode"
    "ys \<noteq> []"
  shows "\<exists>m. walk n t cur (xs @ ys) follow = walk m t d ys follow"
  using assms(1-3)
proof (induction n cur xs rule: walk_induct)
  case (link n cur c cs target)
  then show ?case using assms(5) by (auto simp: walk_plain split: if_splits)
qed (use assms(4,5) in \<open>auto simp: walk_plain split: if_splits\<close>)

text \<open>The last component is resolved in the directory of the rest.\<close>

lemma walk_last:
  assumes "wf_tree t" "node_at t cur = Some DirNode" "walk n t cur (xs @ [c]) False = Inr e" "norm_path [c]"
  shows "\<exists>d. walk n t cur xs True = Inr d \<and> node_at t d = Some DirNode \<and> e = d @ [c]"
  using assms(1-3)
proof (induction n cur xs rule: walk_induct)
  case (Nil n cur)
  then show ?case by (auto simp: walk_plain [OF assms(4)] split: option.splits inode.splits if_splits)
qed (auto simp: walk_plain split: if_splits)

text \<open>Not following the last link finds an entry wherever following it does.\<close>

lemma walk_nofollow:
  assumes "wf_tree t" "node_at t cur = Some DirNode" "walk n t cur xs True = Inr d" "node_at t d \<noteq> None"
  shows "\<exists>e. walk n t cur xs False = Inr e \<and> node_at t e \<noteq> None"
  using assms
proof (induction n cur xs rule: walk_induct)
  case (link n cur c cs target)
  then show ?case by (cases "cs = []") (auto simp: walk_plain split: if_splits)
qed (auto simp: walk_plain split: if_splits)

text \<open>An entry that is no link is where following leads.\<close>

lemma walk_no_link:
  assumes "wf_tree t" "node_at t cur = Some DirNode" "walk n t cur xs False = Inr e"
    "\<forall>target. node_at t e \<noteq> Some (LinkNode target)"
  shows "walk n t cur xs True = Inr e"
  using assms
proof (induction n cur xs rule: walk_induct)
  case (link n cur c cs target)
  then show ?case by (cases "cs = []") (auto simp: walk_plain split: if_splits)
qed (auto simp: walk_plain split: if_splits)

text \<open>What a path to a directory resolves to depends on the directories and links only.\<close>

definition extends :: "tree \<Rightarrow> tree \<Rightarrow> bool" where
  "extends t t' \<longleftrightarrow> (\<forall>p. (node_at t p = Some DirNode \<longrightarrow> node_at t' p = Some DirNode)
     \<and> (\<forall>target. node_at t p = Some (LinkNode target) \<longrightarrow> node_at t' p = Some (LinkNode target)))"

lemma extendsD:
  assumes "extends t t'"
  shows "node_at t p = Some DirNode \<Longrightarrow> node_at t' p = Some DirNode"
    "node_at t p = Some (LinkNode target) \<Longrightarrow> node_at t' p = Some (LinkNode target)"
  using assms by (simp_all add: extends_def)

lemma extends_trans: "extends t t' \<Longrightarrow> extends t' t'' \<Longrightarrow> extends t t''"
  by (simp add: extends_def)

lemma walk_extends:
  assumes "wf_tree t" "node_at t cur = Some DirNode" "walk n t cur xs follow = Inr d"
    "node_at t d = Some DirNode" "extends t t'"
  shows "walk n t' cur xs follow = Inr d"
  using assms(1-4)
proof (induction n cur xs rule: walk_induct)
  case (link n cur c cs target)
  then show ?case using extendsD [OF assms(5)] by (auto simp: walk_plain split: if_splits)
qed (use extendsD [OF assms(5)] in \<open>auto simp: walk_plain split: if_splits\<close>)

section \<open>Canonical paths in a tree\<close>

lemma target_result:
  assumes "wf_tree t" "target_of t p = Inr q"
  shows "physical t q" "node_at t q \<noteq> Some (LinkNode target)"
  using walk_result [OF assms(1) node_at_Nil assms(2) [unfolded target_of_def]] by auto

lemma entry_last:
  assumes "wf_tree t" "norm_path [c]" "entry_of t (q @ [c]) = Inr e"
  obtains d where "target_of t q = Inr d" "node_at t d = Some DirNode" "e = d @ [c]"
  using walk_last [OF assms(1) node_at_Nil assms(3) [unfolded entry_of_def] assms(2)] that
  by (auto simp: target_of_def)

lemma entry_in_dir:
  assumes "wf_tree t" "norm_path [c]" "target_of t q = Inr d" "node_at t d = Some DirNode"
  shows "entry_of t (q @ [c]) = Inr (d @ [c])"
proof -
  obtain m where "entry_of t (q @ [c]) = walk m t d [c] False"
    using walk_append [OF assms(1) node_at_Nil assms(3) [unfolded target_of_def] assms(4)]
    by (auto simp: entry_of_def)
  then show ?thesis using assms(2) by (auto simp: walk_plain split: option.split inode.split)
qed

lemma entry_no_link:
  assumes "wf_tree t" "entry_of t p = Inr e" "\<forall>target. node_at t e \<noteq> Some (LinkNode target)"
  shows "target_of t p = Inr e"
  using walk_no_link [OF assms(1) node_at_Nil assms(2) [unfolded entry_of_def] assms(3)]
  by (simp add: target_of_def)

lemma lstat_of_target:
  assumes "wf_tree t" "target_of t p = Inr q" "node_at t q \<noteq> None"
  shows "tree_lstat t p = LExists" "tree_real t p = Some q"
proof -
  obtain e where "entry_of t p = Inr e" "node_at t e \<noteq> None"
    using walk_nofollow [OF assms(1) node_at_Nil assms(2) [unfolded target_of_def] assms(3)]
    by (auto simp: entry_of_def)
  then show "tree_lstat t p = LExists" by (simp add: tree_lstat_def)
  show "tree_real t p = Some q" using assms(2,3) by (simp add: tree_real_def)
qed

lemma lstat_beyond:
  assumes "wf_tree t" "target_of t q = Inr d" "node_at t d = Some DirNode" "node_at t (d @ [c]) = None"
    "norm_path [c]"
  shows "tree_lstat t (q @ c # ys) = LMissing"
proof -
  obtain m where "entry_of t (q @ c # ys) = walk m t d (c # ys) False"
    using walk_append [OF assms(1) node_at_Nil assms(2) [unfolded target_of_def] assms(3), of "c # ys" False]
    by (auto simp: entry_of_def)
  then show ?thesis using assms(4,5) by (auto simp: tree_lstat_def walk_plain)
qed

lemma nearest_append:
  assumes "lst q = LExists" "\<And>s'. s' \<noteq> [] \<Longrightarrow> prefix s' s \<Longrightarrow> lst (q @ s') = LMissing"
  shows "nearestExistingAncestor lst (q @ s) = Inr q"
  using assms(2)
proof (induction s rule: rev_induct)
  case Nil
  then show ?case using assms(1) by (simp add: nearestExistingAncestor.simps)
next
  case (snoc x xs)
  have "lst (q @ xs @ [x]) = LMissing" by (rule snoc.prems) simp_all
  moreover have "nearestExistingAncestor lst (q @ xs) = Inr q"
    by (rule snoc.IH) (use snoc.prems in \<open>auto simp: prefix_def\<close>)
  ultimately show ?case
    by (subst nearestExistingAncestor.simps) (simp flip: append_assoc)
qed

lemma canonical_missing:
  assumes "wf_tree t" "norm_path (q @ c # ys)" "target_of t q = Inr d" "node_at t d = Some DirNode"
    "node_at t (d @ [c]) = None"
  shows "canonical t (q @ c # ys) = Inr (d @ c # ys)"
proof -
  have c: "norm_path [c]" using assms(2) by (auto simp: norm_path_def)
  have "nearestExistingAncestor (tree_lstat t) (q @ c # ys) = Inr q"
  proof (rule nearest_append)
    show "tree_lstat t q = LExists" by (rule lstat_of_target(1) [OF assms(1,3)]) (simp add: assms(4))
    show "tree_lstat t (q @ s') = LMissing" if "s' \<noteq> []" "prefix s' (c # ys)" for s'
      using that lstat_beyond [OF assms(1,3-5) c] by (cases s') auto
  qed
  moreover have "tree_real t q = Some d" by (rule lstat_of_target(2) [OF assms(1,3)]) (simp add: assms(4))
  moreover have "norm_path (c # ys)" using assms(2) by (simp add: norm_path_def)
  ultimately show ?thesis
    by (simp add: canonical_def canonicalizePath_def path_relative_below Let_def foldl_push_plain
        del: foldl.simps)
qed

lemma canonical_existing:
  assumes "wf_tree t" "target_of t p = Inr q" "node_at t q \<noteq> None"
  shows "canonical t p = Inr q"
proof -
  have "path_relative p p = []" using path_relative_below [of p "[]"] by simp
  then show ?thesis using lstat_of_target [OF assms]
    by (simp add: canonical_def canonicalizePath_def nearestExistingAncestor.simps)
qed

text \<open>A canonical path names the entry itself when that is no link.\<close>

lemma canonical_entry:
  assumes "wf_tree t" "norm_path (q @ [c])" "target_of t q = Inr d" "node_at t d = Some DirNode"
    "\<forall>target. node_at t (d @ [c]) \<noteq> Some (LinkNode target)"
  shows "canonical t (q @ [c]) = Inr (d @ [c])"
proof (cases "node_at t (d @ [c])")
  case None
  with canonical_missing [OF assms(1) _ assms(3,4), of c "[]"] assms(2) show ?thesis by simp
next
  case (Some n)
  have "norm_path [c]" using assms(2) by simp
  from entry_no_link [OF assms(1) entry_in_dir [OF assms(1) this assms(3,4)] assms(5)] Some
  show ?thesis by (intro canonical_existing [OF assms(1)]) simp_all
qed

section \<open>Changing a tree\<close>

lemma wf_set_node:
  assumes "wf_tree t" "p \<noteq> []" "norm_path p" "node_at t (butlast p) = Some DirNode"
    "node_at t p \<noteq> Some DirNode \<or> n = DirNode"
  shows "wf_tree (set_node p n t)"
proof -
  have d: "distinct (map fst t)" using assms(1) by (simp add: wf_tree_def)
  have "norm_path (fst e) \<and> fst e \<noteq> [] \<and> node_at (set_node p n t) (butlast (fst e)) = Some DirNode"
    if "e \<in> set (set_node p n t)" for e
  proof -
    have "e = (p, n) \<or> e \<in> set t" using that set_put_key_sub [of fst "(p, n)" t] by (auto simp: set_node_def)
    then show ?thesis
    proof
      assume "e = (p, n)"
      with assms(2-4) show ?thesis by (cases p rule: rev_cases) auto
    next
      assume "e \<in> set t"
      then have "norm_path (fst e)" "fst e \<noteq> []" "node_at t (butlast (fst e)) = Some DirNode"
        using assms(1) by (auto simp: wf_tree_def list_all_iff)
      with assms(5) show ?thesis by auto
    qed
  qed
  then show ?thesis using distinct_put_key [OF d, of "(p, n)"]
    by (auto simp: wf_tree_def list_all_iff set_node_def)
qed

lemma extends_set_node:
  "node_at t p \<noteq> Some DirNode \<Longrightarrow> (\<forall>target. node_at t p \<noteq> Some (LinkNode target)) \<Longrightarrow> extends t (set_node p n t)"
  by (auto simp: extends_def)

text \<open>
  Making a missing directory on the way to \<open>p\<close>: it lies on the canonical path of \<open>p\<close>, which stays
  the same.
\<close>

lemma create_step:
  assumes "wf_tree t" "norm_path p" "canonical t p = Inr cp" "prefix q p" "entry_of t q = Inr e"
    "node_at t e = None"
  shows "cp = e @ drop (length q) p" "physical t e" "wf_tree (set_node e DirNode t)"
    "canonical (set_node e DirNode t) p = Inr cp"
    "entry_of (set_node e DirNode t) p = Inr e' \<Longrightarrow>
      node_at (set_node e DirNode t) e' = (if q = p then Some DirNode else None)"
proof -
  let ?t = "set_node e DirNode t"
  obtain q' c where q: "q = q' @ [c]"
    using assms(5,6) by (cases q rule: rev_cases) (auto simp: entry_of_def)
  obtain ys where p: "p = q' @ c # ys" using assms(4) q by (auto simp: prefix_def)
  have norm: "norm_path (q' @ c # ys)" "norm_path [c]" using assms(2) p by (auto simp: norm_path_def)
  obtain d where d: "target_of t q' = Inr d" "node_at t d = Some DirNode" "e = d @ [c]"
    using entry_last [OF assms(1) norm(2)] assms(5) q by blast
  have cp: "cp = e @ ys"
    using canonical_missing [OF assms(1) norm(1) d(1,2)] assms(3,6) d(3) p by simp
  then show "cp = e @ drop (length q) p" using p q by simp
  show ph: "physical t e" unfolding d(3) by (rule physical_snoc [OF target_result(1) [OF assms(1) d(1)] d(2) norm(2)])
  show wf: "wf_tree ?t"
    by (rule wf_set_node) (use assms(1) d ph in \<open>auto simp: physical_def\<close>)
  have ext: "extends t ?t" by (rule extends_set_node) (simp_all add: assms(6))
  have "target_of ?t q' = Inr d"
    using walk_extends [OF assms(1) node_at_Nil d(1) [unfolded target_of_def] _ ext] d(2)
    by (simp add: target_of_def)
  moreover have "node_at ?t d = Some DirNode" by (rule extendsD(1) [OF ext d(2)])
  ultimately have "entry_of ?t q = Inr e" using entry_in_dir [OF wf norm(2)] q d(3) by simp
  then have te: "target_of ?t q = Inr e" by (rule entry_no_link [OF wf]) (simp add: d(3))
  have new: "node_at ?t (e @ [y]) = None" for y
    using wf_treeD(2) [OF assms(1), of "e @ [y]"] assms(6) by (cases "node_at t (e @ [y])") auto
  have e: "node_at ?t e = Some DirNode" by (simp add: d(3))
  show "canonical ?t p = Inr cp"
  proof (cases ys)
    case Nil
    have "canonical ?t q = Inr e" by (rule canonical_existing [OF wf te]) (simp add: d(3))
    with Nil p q cp show ?thesis by simp
  next
    case (Cons y ys')
    have "canonical ?t (q @ y # ys') = Inr (e @ y # ys')"
      using norm(1) q Cons by (intro canonical_missing [OF wf _ te e new]) simp
    then show ?thesis using p q Cons cp by simp
  qed
  show "node_at ?t e' = (if q = p then Some DirNode else None)" if e': "entry_of ?t p = Inr e'"
  proof (cases ys)
    case Nil
    with p q e' \<open>entry_of ?t q = Inr e\<close> e show ?thesis by simp
  next
    case (Cons y ys')
    have y: "norm_path [y]" using norm(1) Cons by (auto simp: norm_path_def)
    obtain m where "entry_of ?t (q @ y # ys') = walk m ?t e (y # ys') False"
      using walk_append [OF wf node_at_Nil te [unfolded target_of_def] e, of "y # ys'" False]
      by (auto simp: entry_of_def)
    moreover have "p = q @ y # ys'" using p q Cons by simp
    ultimately have "e' = e @ [y]" using e' new [of y] walk_plain [OF y] by (auto split: if_splits)
    with new [of y] Cons p q show ?thesis by simp
  qed
qed

text \<open>Moving changes nothing but what is below the two entries.\<close>

lemma node_at_move_other:
  assumes "\<not> prefix a q" "\<not> prefix b q"
  shows "node_at (move_below a b t) q = node_at t q"
proof -
  let ?f = "\<lambda>e. if prefix a (fst e) then (b @ drop (length a) (fst e), snd e) else e"
  have "find (\<lambda>e. fst e = q) (map ?f (filter (\<lambda>e. prefix a (fst e) \<or> \<not> prefix b (fst e)) t))
      = find (\<lambda>e. fst e = q) t"
    using assms by (induction t) auto
  then show ?thesis by (simp add: node_at_def move_below_def find_key_def)
qed

lemma node_at_move:
  assumes "a \<noteq> []" "b \<noteq> []" "\<not> prefix a b"
  shows "node_at (move_below a b t) (b @ q) = node_at t (a @ q)"
proof -
  let ?f = "\<lambda>e. if prefix a (fst e) then (b @ drop (length a) (fst e), snd e) else e"
  have "map_option snd (find (\<lambda>e. fst e = b @ q)
        (map ?f (filter (\<lambda>e. prefix a (fst e) \<or> \<not> prefix b (fst e)) t)))
      = map_option snd (find (\<lambda>e. fst e = a @ q) t)"
  proof (induction t)
    case (Cons e t)
    have "b @ drop (length a) (fst e) = b @ q \<longleftrightarrow> fst e = a @ q" if "prefix a (fst e)"
      using that by (auto simp: prefix_def)
    moreover have "fst e \<noteq> b @ q" if "\<not> prefix b (fst e)" using that by auto
    moreover have "fst e \<noteq> a @ q" if "\<not> prefix a (fst e)" using that by auto
    ultimately show ?case using Cons by auto
  qed simp
  then show ?thesis using assms(1,2) by (simp add: node_at_def move_below_def find_key_def)
qed

lemma node_at_move_source:
  assumes "prefix a q" "\<not> prefix b q" "q \<noteq> []"
  shows "node_at (move_below a b t) q = None"
proof -
  let ?f = "\<lambda>e. if prefix a (fst e) then (b @ drop (length a) (fst e), snd e) else e"
  have "find (\<lambda>e. fst e = q) (map ?f (filter (\<lambda>e. prefix a (fst e) \<or> \<not> prefix b (fst e)) t)) = None"
    using assms(1,2) by (induction t) auto
  then show ?thesis using assms(3) by (simp add: node_at_def move_below_def find_key_def)
qed

text \<open>Renaming an entry to another one in which nothing is left keeps a tree.\<close>

lemma wf_move_below:
  assumes wf: "wf_tree t" and a: "a \<noteq> []" and b: "b \<noteq> []" "norm_path b" "node_at t (butlast b) = Some DirNode"
    and ab: "\<not> prefix a b" and ba: "\<not> prefix b a"
  shows "wf_tree (move_below a b t)"
proof -
  let ?f = "\<lambda>e. if prefix a (fst e) then (b @ drop (length a) (fst e), snd e) else e"
  let ?F = "filter (\<lambda>e. prefix a (fst e) \<or> \<not> prefix b (fst e)) t"
  have d: "distinct (map fst t)" using wf by (simp add: wf_tree_def)
  have mem: "fst e \<noteq> []" "norm_path (fst e)" "node_at t (butlast (fst e)) = Some DirNode" if "e \<in> set t" for e
    using that wf by (auto simp: wf_tree_def list_all_iff)
  have inj: "inj_on (fst \<circ> ?f) (set ?F)"
  proof (rule inj_onI)
    fix x y assume "x \<in> set ?F" "y \<in> set ?F" and eq: "(fst \<circ> ?f) x = (fst \<circ> ?f) y"
    then have "fst x = fst y" by (auto elim!: prefixE split: if_splits) (metis prefixI)
    with d \<open>x \<in> set ?F\<close> \<open>y \<in> set ?F\<close> show "x = y"
      by (cases x; cases y) (auto dest: eq_key_imp_eq_value)
  qed
  have "distinct ?F" using d by (simp add: distinct_filter distinct_map)
  with inj have dist: "distinct (map fst (move_below a b t))"
    by (simp add: move_below_def distinct_map)
  have each: "fst (?f e) \<noteq> [] \<and> norm_path (fst (?f e))
      \<and> node_at (move_below a b t) (butlast (fst (?f e))) = Some DirNode"
    if e: "e \<in> set ?F" for e
  proof (cases "prefix a (fst e)")
    case True
    then obtain s where s: "fst e = a @ s" by (auto simp: prefix_def)
    have n: "norm_path (a @ s)" "node_at t (butlast (a @ s)) = Some DirNode" using mem [of e] e s by auto
    have "node_at (move_below a b t) (butlast (b @ s)) = Some DirNode"
    proof (cases s rule: rev_cases)
      case Nil
      have "\<not> prefix b (butlast b)" using b(1) prefix_length_le [of b "butlast b"] by (cases b) auto
      moreover have "\<not> prefix a (butlast b)" using ab by (meson prefix_order.trans prefixeq_butlast)
      ultimately show ?thesis using b(3) Nil by (simp add: node_at_move_other)
    next
      case (snoc s' x)
      with n(2) show ?thesis by (simp add: butlast_append node_at_move [OF a b(1) ab])
    qed
    then show ?thesis using True s n(1) b(1,2) by simp
  next
    case False
    have "\<not> prefix b (fst e)" using e False by auto
    then have nb: "\<not> prefix b (butlast (fst e))" "\<not> prefix a (butlast (fst e))"
      using False by (meson prefix_order.trans prefixeq_butlast)+
    with False mem [of e] e show ?thesis by (simp add: node_at_move_other)
  qed
  have "list_all (\<lambda>e. fst e \<noteq> [] \<and> norm_path (fst e) \<and> node_at (move_below a b t) (butlast (fst e)) = Some DirNode)
      (move_below a b t)"
    using each unfolding list_all_iff move_below_def [of a b t] by (simp only: set_map ball_simps(9)) blast
  with dist show ?thesis by (simp add: wf_tree_def)
qed

lemma wf_del_node:
  assumes wf: "wf_tree t" and p: "\<And>c. node_at t (p @ [c]) = None"
  shows "wf_tree (del_node p t)"
proof -
  have "fst e \<noteq> [] \<and> norm_path (fst e) \<and> node_at (del_node p t) (butlast (fst e)) = Some DirNode"
    if e: "e \<in> set t" "fst e \<noteq> p" for e
  proof -
    have n: "fst e \<noteq> []" "norm_path (fst e)" "node_at t (butlast (fst e)) = Some DirNode"
      using e wf by (auto simp: wf_tree_def list_all_iff)
    moreover have "node_at t (fst e) \<noteq> None"
      using e(1) n(1) by (auto simp: node_at_def find_key_None_iff)
    ultimately show ?thesis using p [of "last (fst e)"] by (cases "butlast (fst e) = p") auto
  qed
  then show ?thesis using wf
    by (auto simp: wf_tree_def list_all_iff del_node_def distinct_del_key)
qed

end
