(* ===== verification/File_Calls.thy ===== *)
theory File_Calls
  imports File_Tree Crash_Triples Unified_Patch Utf8_Boundary
begin

text \<open>
  The calls of the operating system that \<open>src/src/fs/fs-service.ts\<close> makes, over the file system of
  \<open>File_Tree\<close>. Every call first consults \<open>fc_fails\<close>, which says for the n-th call whether it fails
  with an input/output error; every change of the tree is added to \<open>fw_history\<close>, so the history
  lists all trees a crash can leave behind.
\<close>

section \<open>State\<close>

datatype fs_error =
    FsPath policy_error
  | FsPolicy
  | FsLimit
  | FsConflict
  | FsNotFound
  | FsPatch patch_reason
  | FsSys errno

datatype text_encoding = EncUtf8 | EncBase64

datatype file_type = TypeDirectory | TypeFile | TypeSymlink | TypeOther

record fs_config =
  fc_roots :: "abspath list"
  fc_maxReadBytes :: nat
  fc_maxWriteBytes :: nat
  fc_maxDirectoryEntries :: nat
  fc_sha :: "byte list \<Rightarrow> string"
  fc_parse :: "string \<Rightarrow> string + parsed_hunk list list"
  fc_applyPatch :: "ustring \<Rightarrow> string \<Rightarrow> apply_result"
  fc_base64 :: "byte list \<Rightarrow> ustring"
  fc_unbase64 :: "ustring \<Rightarrow> byte list"
  fc_umask :: "nat \<Rightarrow> nat"
  fc_unique :: string
  fc_attributes :: "abspath \<Rightarrow> nat \<times> nat \<times> string"
  fc_fails :: "nat \<Rightarrow> bool"

record fworld =
  fw_tree :: tree
  fw_history :: "tree list"
  fw_ops :: nat

type_synonym 'a fs_m = "(fworld, fs_error, 'a) prog"

section \<open>Calls of the operating system\<close>

definition fio :: "fs_config \<Rightarrow> 'a fs_m \<Rightarrow> 'a fs_m" where
  "fio c m = (\<lambda>w. let w1 = w\<lparr>fw_ops := fw_ops w + 1\<rparr>
     in if fc_fails c (fw_ops w) then (Inl (FsSys EIO), w1) else m w1)"

definition set_tree :: "tree \<Rightarrow> unit fs_m" where
  "set_tree t = (\<lambda>w. (Inr (), w\<lparr>fw_tree := t, fw_history := fw_history w @ [t]\<rparr>))"

text \<open>A call that only reads: an error number or a value, computed from the tree.\<close>

definition reading :: "fs_config \<Rightarrow> (tree \<Rightarrow> errno + 'a) \<Rightarrow> 'a fs_m" where
  "reading c f = fio c (\<lambda>w. (case f (fw_tree w) of Inl e \<Rightarrow> Inl (FsSys e) | Inr x \<Rightarrow> Inr x, w))"

text \<open>
  A call that may change the tree: refused with an error number, or a value with the new tree, if
  there is one.
\<close>

definition changing :: "fs_config \<Rightarrow> (tree \<Rightarrow> errno + 'a \<times> tree option) \<Rightarrow> 'a fs_m" where
  "changing c f = fio c (\<lambda>w.
     (case f (fw_tree w) of
        Inl e \<Rightarrow> (Inl (FsSys e), w)
      | Inr (x, None) \<Rightarrow> (Inr x, w)
      | Inr (x, Some t) \<Rightarrow> and_then (set_tree t) (\<lambda>_. ret x) w))"

definition node_of :: "tree \<Rightarrow> errno + abspath \<Rightarrow> errno + inode" where
  "node_of t r = bind_res r (\<lambda>q. case node_at t q of None \<Rightarrow> Inl ENOENT | Some n \<Rightarrow> Inr n)"

definition sys_lstat :: "fs_config \<Rightarrow> abspath \<Rightarrow> inode fs_m" where
  "sys_lstat c p = reading c (\<lambda>t. node_of t (entry_of t p))"

definition sys_stat :: "fs_config \<Rightarrow> abspath \<Rightarrow> inode fs_m" where
  "sys_stat c p = reading c (\<lambda>t. node_of t (target_of t p))"

definition sys_readFile :: "fs_config \<Rightarrow> abspath \<Rightarrow> byte list fs_m" where
  "sys_readFile c p = reading c (\<lambda>t. bind_res (node_of t (target_of t p)) (\<lambda>n.
     case n of FileNode b m \<Rightarrow> Inr b | DirNode \<Rightarrow> Inl EISDIR | _ \<Rightarrow> Inl EINVAL))"

definition sys_readdir :: "fs_config \<Rightarrow> abspath \<Rightarrow> (string \<times> inode) list fs_m" where
  "sys_readdir c p = reading c (\<lambda>t. bind_res (target_of t p) (\<lambda>d.
     case node_at t d of
       None \<Rightarrow> Inl ENOENT
     | Some DirNode \<Rightarrow> Inr (map (\<lambda>name. (name, the (node_at t (d @ [name])))) (names_in d t))
     | Some _ \<Rightarrow> Inl ENOTDIR))"

text \<open>\<open>mkdir\<close> with \<open>recursive\<close>: every directory on the way, an existing one (or a link to one) is kept.\<close>

definition mkdir_at :: "abspath \<Rightarrow> tree \<Rightarrow> errno + unit \<times> tree option" where
  "mkdir_at q t = bind_res (entry_of t q) (\<lambda>e.
     if node_at t e = None then Inr ((), Some (set_node e DirNode t))
     else if node_of t (target_of t q) = Inr DirNode then Inr ((), None)
     else Inl EEXIST)"

definition sys_mkdir_p :: "fs_config \<Rightarrow> abspath \<Rightarrow> unit fs_m" where
  "sys_mkdir_p c p = each (\<lambda>q. changing c (mkdir_at q)) (map (\<lambda>k. take k p) [0..<Suc (length p)])"

text \<open>\<open>open\<close> with the flags \<open>wx\<close> returns the entry; then writing through the handle.\<close>

definition create_at :: "abspath \<Rightarrow> nat \<Rightarrow> tree \<Rightarrow> errno + abspath \<times> tree option" where
  "create_at p mode t = bind_res (entry_of t p) (\<lambda>e.
     if node_at t e = None then Inr (e, Some (set_node e (FileNode [] mode) t)) else Inl EEXIST)"

definition sys_create :: "fs_config \<Rightarrow> abspath \<Rightarrow> nat \<Rightarrow> abspath fs_m" where
  "sys_create c p mode = changing c (create_at p (fc_umask c mode))"

definition write_at :: "abspath \<Rightarrow> byte list \<Rightarrow> tree \<Rightarrow> errno + unit \<times> tree option" where
  "write_at e content t =
     (case node_at t e of
        Some (FileNode b m) \<Rightarrow> Inr ((), Some (set_node e (FileNode content m) t))
      | _ \<Rightarrow> Inr ((), None))"

definition sys_write :: "fs_config \<Rightarrow> abspath \<Rightarrow> byte list \<Rightarrow> unit fs_m" where
  "sys_write c e content = changing c (write_at e content)"

text \<open>\<open>fsync\<close> and \<open>close\<close>.\<close>

definition sys_sync :: "fs_config \<Rightarrow> unit fs_m" where
  "sys_sync c = fio c (ret ())"

text \<open>\<open>rename\<close>, and when the kernel refuses to rename the entry \<open>a\<close> to the entry \<open>b\<close>.\<close>

definition rename_refused :: "tree \<Rightarrow> abspath \<Rightarrow> abspath \<Rightarrow> errno option" where
  "rename_refused t a b =
     (case node_at t a of
        None \<Rightarrow> Some ENOENT
      | Some DirNode \<Rightarrow>
          if strict_prefix a b then Some EINVAL
          else if node_at t b = None then None
          else if node_at t b \<noteq> Some DirNode then Some ENOTDIR
          else if names_in b t \<noteq> [] then Some ENOTEMPTY else None
      | Some _ \<Rightarrow> if node_at t b = Some DirNode then Some EISDIR else None)"

definition rename_at :: "abspath \<Rightarrow> abspath \<Rightarrow> tree \<Rightarrow> errno + unit \<times> tree option" where
  "rename_at p q t =
     bind_res (entry_of t p) (\<lambda>a. bind_res (entry_of t q) (\<lambda>b.
       case rename_refused t a b of
         Some e \<Rightarrow> Inl e
       | None \<Rightarrow> Inr ((), if a = b then None else Some (move_below a b t))))"

definition sys_rename :: "fs_config \<Rightarrow> abspath \<Rightarrow> abspath \<Rightarrow> unit fs_m" where
  "sys_rename c p q = changing c (rename_at p q)"

definition unlink_at :: "abspath \<Rightarrow> tree \<Rightarrow> errno + unit \<times> tree option" where
  "unlink_at p t = bind_res (entry_of t p) (\<lambda>e.
     case node_at t e of
       None \<Rightarrow> Inl ENOENT
     | Some DirNode \<Rightarrow> Inl EISDIR
     | Some _ \<Rightarrow> Inr ((), Some (del_node e t)))"

definition sys_unlink :: "fs_config \<Rightarrow> abspath \<Rightarrow> unit fs_m" where
  "sys_unlink c p = changing c (unlink_at p)"

text \<open>\<open>rm\<close> with \<open>recursive\<close>: the entries below, the deepest first, then the entry itself.\<close>

definition rm_list :: "abspath \<Rightarrow> tree \<Rightarrow> errno + abspath list" where
  "rm_list p t = bind_res (entry_of t p) (\<lambda>e.
     if node_at t e = None then Inl ENOENT
     else Inr (rev (sort_key length (filter (prefix e) (map fst t)))))"

definition sys_rm_recursive :: "fs_config \<Rightarrow> abspath \<Rightarrow> unit fs_m" where
  "sys_rm_recursive c p = and_then (reading c (rm_list p))
     (each (\<lambda>e. changing c (\<lambda>t. Inr ((), Some (del_node e t)))))"

section \<open>Rules for the calls\<close>

abbreviation ftriple ::
  "(tree \<Rightarrow> bool) \<Rightarrow> (tree \<Rightarrow> bool) \<Rightarrow> 'a fs_m \<Rightarrow> ('a \<Rightarrow> tree \<Rightarrow> bool) \<Rightarrow> (tree \<Rightarrow> bool) \<Rightarrow> bool"
where
  "ftriple \<equiv> crash_triple fw_tree fw_history"

lemma triple_fio:
  assumes "ftriple R P m Q E" "\<And>t. P t \<Longrightarrow> E t"
  shows "ftriple R P (fio c m) Q E"
proof (rule tripleI)
  fix w res w' assume w: "P (fw_tree w)" "crash_hist fw_history R w" and e: "fio c m w = (res, w')"
  let ?w = "w\<lparr>fw_ops := fw_ops w + 1\<rparr>"
  have w1: "P (fw_tree ?w)" "crash_hist fw_history R ?w" using w by (simp_all add: crash_hist_def)
  show "crash_hist fw_history R w' \<and> (\<forall>e. res = Inl e \<longrightarrow> E (fw_tree w')) \<and> (\<forall>x. res = Inr x \<longrightarrow> Q x (fw_tree w'))"
  proof (cases "fc_fails c (fw_ops w)")
    case True
    with e w1 assms(2) [OF w(1)] show ?thesis by (auto simp: fio_def Let_def)
  next
    case False
    with e have "m ?w = (res, w')" by (simp add: fio_def Let_def)
    from tripleD [OF assms(1) w1 this] show ?thesis by blast
  qed
qed

lemma triple_reading:
  assumes "\<And>t. P t \<Longrightarrow> E t" "\<And>t x. P t \<Longrightarrow> f t = Inr x \<Longrightarrow> Q x t"
  shows "ftriple R P (reading c f) Q E"
  unfolding reading_def
  by (rule triple_fio [OF triple_read]) (use assms in \<open>auto split: sum.splits\<close>)

lemma triple_changing:
  assumes "\<And>t. P t \<Longrightarrow> E t" "\<And>t x. P t \<Longrightarrow> f t = Inr (x, None) \<Longrightarrow> Q x t"
    "\<And>t x t'. P t \<Longrightarrow> f t = Inr (x, Some t') \<Longrightarrow> R t' \<and> Q x t'"
  shows "ftriple R P (changing c f) Q E"
  unfolding changing_def
proof (rule triple_fio [OF tripleI])
  fix w res w' assume w: "P (fw_tree w)" "crash_hist fw_history R w"
    and e: "(case f (fw_tree w) of Inl e \<Rightarrow> (Inl (FsSys e), w) | Inr (x, None) \<Rightarrow> (Inr x, w)
      | Inr (x, Some t) \<Rightarrow> and_then (set_tree t) (\<lambda>_. ret x) w) = (res, w')"
  show "crash_hist fw_history R w' \<and> (\<forall>e. res = Inl e \<longrightarrow> E (fw_tree w')) \<and> (\<forall>x. res = Inr x \<longrightarrow> Q x (fw_tree w'))"
  proof (cases "f (fw_tree w)")
    case (Inl e')
    with e w assms(1) [OF w(1)] show ?thesis by auto
  next
    case (Inr a)
    obtain x m where a: "a = (x, m)" by fastforce
    show ?thesis
    proof (cases m)
      case None
      with a Inr e w assms(2) [OF w(1)] show ?thesis by auto
    next
      case (Some t)
      with a Inr have "R t \<and> Q x t" using assms(3) [OF w(1)] by simp
      with a Inr Some e w(2) show ?thesis by (auto simp: set_tree_def and_then_def ret_def crash_hist_def)
    qed
  qed
qed (rule assms(1))

end
