(* ===== verification/File_Service.thy ===== *)
theory File_Service
  imports File_Calls
begin

text \<open>
  \<open>src/src/fs/fs-service.ts\<close>: reading, writing, editing, patching, moving and removing files below the
  allowed roots. One operation runs at a time: two that could meet hold the locks of \<open>Path_Lock\<close>,
  and other programs are not modelled. The audit record of an operation is left out.

  Parameters (fields of \<open>fs_config\<close>): SHA-256, \<open>parsePatch\<close> and \<open>applyPatch\<close> of the \<open>diff\<close> package,
  base 64, the umask, the unique part of temporary names, and the attributes of nodes that the
  tree does not hold.
\<close>

section \<open>Texts\<close>

text \<open>\<open>indexOf\<close>, \<open>split\<close> and the first replacement of a text; searching for the empty text is refused before.\<close>

fun index_of :: "'a list \<Rightarrow> 'a list \<Rightarrow> nat option" where
  "index_of search [] = (if search = [] then Some 0 else None)"
| "index_of search (x # xs) =
     (if take (length search) (x # xs) = search then Some 0 else map_option Suc (index_of search xs))"

lemma index_of_bound: "index_of search xs = Some i \<Longrightarrow> i + length search \<le> length xs"
proof (induction xs arbitrary: i)
  case (Cons x xs)
  have "length search \<le> length (x # xs)" if "take (length search) (x # xs) = search"
    using arg_cong [OF that, of length] by simp
  with Cons show ?case by (fastforce split: if_splits)
qed (auto split: if_splits)

lemma index_of_shorter:
  "search \<noteq> [] \<Longrightarrow> index_of search xs = Some i \<Longrightarrow> length xs - (i + length search) < length xs"
  by (drule index_of_bound) (cases search; cases xs; simp)

function countOccurrences :: "'a list \<Rightarrow> 'a list \<Rightarrow> nat" where
  "countOccurrences source search =
     (if search = [] then 0
      else case index_of search source of
        None \<Rightarrow> 0
      | Some i \<Rightarrow> Suc (countOccurrences (drop (i + length search) source) search))"
  by pat_completeness auto
termination
  by (relation "measure (\<lambda>(source, search). length source)") (auto intro: index_of_shorter)

function split_text :: "'a list \<Rightarrow> 'a list \<Rightarrow> 'a list list" where
  "split_text source search =
     (if search = [] then [source]
      else case index_of search source of
        None \<Rightarrow> [source]
      | Some i \<Rightarrow> take i source # split_text (drop (i + length search) source) search)"
  by pat_completeness auto
termination
  by (relation "measure (\<lambda>(source, search). length source)") (auto intro: index_of_shorter)

declare countOccurrences.simps [simp del] split_text.simps [simp del]

definition replace_first :: "'a list \<Rightarrow> 'a list \<Rightarrow> 'a list \<Rightarrow> 'a list" where
  "replace_first source search replacement =
     (case index_of search source of
        None \<Rightarrow> source
      | Some i \<Rightarrow> take i source @ replacement @ drop (i + length search) source)"

text \<open>\<open>replace(/\\n/g, "\\r\\n")\<close> and \<open>replace(/\\r?\\n/g, "\\r\\n")\<close>.\<close>

definition lf_to_crlf :: "ustring \<Rightarrow> ustring" where
  "lf_to_crlf s = concat (map (\<lambda>x. if x = 10 then [13, 10] else [x]) s)"

fun normalize_crlf :: "ustring \<Rightarrow> ustring" where
  "normalize_crlf [] = []"
| "normalize_crlf (x # xs) =
     (if x = 13 \<and> xs \<noteq> [] \<and> hd xs = 10 then 13 # 10 # normalize_crlf (tl xs)
      else if x = 10 then 13 # 10 # normalize_crlf xs else x # normalize_crlf xs)"

text \<open>\<open>slice\<close>: a negative index counts from the end.\<close>

definition slice_index :: "nat \<Rightarrow> int \<Rightarrow> nat" where
  "slice_index n i = (if i < 0 then nat (max 0 (int n + i)) else min n (nat i))"

definition js_slice :: "int \<Rightarrow> int option \<Rightarrow> 'a list \<Rightarrow> 'a list" where
  "js_slice from' to' xs =
     (let i = slice_index (length xs) from';
          j = (case to' of None \<Rightarrow> length xs | Some k \<Rightarrow> slice_index (length xs) k)
      in take (j - i) (drop i xs))"

section \<open>The service\<close>

definition MAX_BATCH_READ_FILES :: nat where "MAX_BATCH_READ_FILES = 20"

definition resolve_input :: "fs_config \<Rightarrow> string \<Rightarrow> abspath fs_m" where
  "resolve_input c input = (\<lambda>w.
     (case policy_resolve (tree_lstat (fw_tree w)) (tree_real (fw_tree w)) (fc_roots c) input of
        Inl e \<Rightarrow> (Inl (FsPath e), w)
      | Inr p \<Rightarrow> (Inr p, w)))"

abbreviation display :: "fs_config \<Rightarrow> abspath \<Rightarrow> abspath + string list" where
  "display c p \<equiv> policy_display (fc_roots c) p"

fun type_of_node :: "inode \<Rightarrow> file_type" where
  "type_of_node DirNode = TypeDirectory"
| "type_of_node (FileNode b m) = TypeFile"
| "type_of_node (LinkNode target) = TypeSymlink"
| "type_of_node OtherNode = TypeOther"

fun is_file :: "inode \<Rightarrow> bool" where
  "is_file (FileNode b m) = True"
| "is_file _ = False"

fun node_size :: "inode \<Rightarrow> nat \<Rightarrow> nat" where
  "node_size (FileNode b m) other = length b"
| "node_size _ other = other"

fun node_mode :: "inode \<Rightarrow> nat \<Rightarrow> nat" where
  "node_mode (FileNode b m) other = m"
| "node_mode _ other = other"

text \<open>\<open>exists\<close>: only \<open>ENOENT\<close> means that there is nothing.\<close>

definition file_exists :: "fs_config \<Rightarrow> abspath \<Rightarrow> bool fs_m" where
  "file_exists c p = catching (and_then (sys_lstat c p) (\<lambda>_. ret True))
     (\<lambda>e. if e = FsSys ENOENT then ret False else raise e)"

record list_result =
  ls_path :: "abspath + string list"
  ls_entries :: "(string \<times> file_type) list"

definition fs_list :: "fs_config \<Rightarrow> string \<Rightarrow> list_result fs_m" where
  "fs_list c input =
     and_then (resolve_input c input) (\<lambda>resolved.
     and_then (sys_readdir c resolved) (\<lambda>entries.
       if length entries > fc_maxDirectoryEntries c then raise FsLimit
       else ret \<lparr>ls_path = display c resolved, ls_entries = map (map_prod id type_of_node) entries\<rparr>))"

record stat_result =
  st_path :: "abspath + string list"
  st_type :: file_type
  st_size :: nat
  st_mode :: nat
  st_modifiedAt :: string
  st_sha256 :: "string option"

definition fs_stat :: "fs_config \<Rightarrow> string \<Rightarrow> stat_result fs_m" where
  "fs_stat c input =
     and_then (resolve_input c input) (\<lambda>resolved.
     and_then (catching (sys_lstat c resolved) (\<lambda>e. raise (if e = FsSys ENOENT then FsNotFound else e))) (\<lambda>info.
       case fc_attributes c resolved of (sz, mode, mtime) \<Rightarrow>
         (let result = \<lparr>st_path = display c resolved, st_type = type_of_node info, st_size = node_size info sz,
                st_mode = node_mode info mode mod 512, st_modifiedAt = mtime, st_sha256 = None\<rparr>
          in if is_file info \<and> node_size info sz \<le> fc_maxReadBytes c
             then and_then (sys_readFile c resolved) (\<lambda>b. ret (result\<lparr>st_sha256 := Some (fc_sha c b)\<rparr>))
             else ret result)))"

record read_result =
  rr_path :: "abspath + string list"
  rr_encoding :: text_encoding
  rr_bytes :: nat
  rr_sha256 :: string
  rr_content :: ustring
  rr_range :: "(int \<times> int \<times> nat) option"

definition file_lines :: "ustring \<Rightarrow> ustring list" where
  "file_lines s =
     (let allLines = split_char 10 s in if s \<noteq> [] \<and> last s = 10 then butlast allLines else allLines)"

definition fs_read :: "fs_config \<Rightarrow> string \<Rightarrow> text_encoding \<Rightarrow> int option \<Rightarrow> int option \<Rightarrow> read_result fs_m" where
  "fs_read c input encoding offset limit =
     (let ranged = offset \<noteq> None \<or> limit \<noteq> None
      in if ranged \<and> encoding \<noteq> EncUtf8 then raise FsPolicy
         else
           and_then (resolve_input c input) (\<lambda>resolved.
           and_then (sys_stat c resolved) (\<lambda>info.
             if \<not> is_file info then raise FsPolicy
             else if node_size info 0 > fc_maxReadBytes c then raise FsLimit
             else and_then (sys_readFile c resolved) (\<lambda>buffer.
               (let text' = utf8_decode buffer;
                    base = \<lparr>rr_path = display c resolved, rr_encoding = encoding, rr_bytes = length buffer,
                      rr_sha256 = fc_sha c buffer,
                      rr_content = (case encoding of EncUtf8 \<Rightarrow> text' | EncBase64 \<Rightarrow> fc_base64 c buffer),
                      rr_range = None\<rparr>
                in if \<not> ranged then ret base
                   else
                     (let allLines = file_lines text';
                          startLine = (case offset of None \<Rightarrow> 1 | Some k \<Rightarrow> k);
                          selected = js_slice (startLine - 1)
                            (case limit of None \<Rightarrow> None | Some k \<Rightarrow> Some (startLine - 1 + k)) allLines
                      in ret (base\<lparr>rr_content := join_with [10] selected,
                           rr_range := Some (startLine, startLine + int (length selected) - 1, length allLines)\<rparr>)))))))"

text \<open>
  \<open>readMany\<close>: the error of one file does not fail the call, and what does not fit the remaining
  budget is replaced by an error.
\<close>

datatype batch_entry =
    BatchRead read_result
  | BatchExhausted "abspath + string list"
  | BatchError string fs_error

fun read_each ::
  "fs_config \<Rightarrow> (string \<times> int option \<times> int option) list \<Rightarrow> nat \<Rightarrow> batch_entry list fs_m" where
  "read_each c [] budget = ret []"
| "read_each c ((path, offset, limit) # entries) budget = (\<lambda>w.
     (case fs_read c path EncUtf8 offset limit w of
        (Inl e, w1) \<Rightarrow> and_then (read_each c entries budget) (\<lambda>files. ret (BatchError path e # files)) w1
      | (Inr r, w1) \<Rightarrow>
          (let contentBytes = byteLength (rr_content r)
           in if contentBytes > budget
              then and_then (read_each c entries budget) (\<lambda>files. ret (BatchExhausted (rr_path r) # files)) w1
              else and_then (read_each c entries (budget - contentBytes)) (\<lambda>files. ret (BatchRead r # files)) w1)))"

definition fs_readMany :: "fs_config \<Rightarrow> (string \<times> int option \<times> int option) list \<Rightarrow> batch_entry list fs_m" where
  "fs_readMany c entries =
     (if entries = [] \<or> length entries > MAX_BATCH_READ_FILES then raise FsPolicy
      else read_each c entries (fc_maxReadBytes c))"

definition temp_path :: "fs_config \<Rightarrow> abspath \<Rightarrow> abspath" where
  "temp_path c resolved = butlast resolved @ [''.'' @ last resolved @ ''.'' @ fc_unique c @ ''.tmp'']"

text \<open>The handle is closed in any case; the temporary file is only removed if the renaming fails.\<close>

definition atomicWrite :: "fs_config \<Rightarrow> abspath \<Rightarrow> byte list \<Rightarrow> nat option \<Rightarrow> unit fs_m" where
  "atomicWrite c resolved buffer mode =
     and_then (sys_mkdir_p c (butlast resolved)) (\<lambda>_.
     (let temp = temp_path c resolved
      in and_then (sys_create c temp (case mode of None \<Rightarrow> 384 | Some m \<Rightarrow> m)) (\<lambda>handle.
         and_then (catching (and_then (sys_write c handle buffer) (\<lambda>_. sys_sync c))
                     (\<lambda>e. and_then (sys_sync c) (\<lambda>_. raise e))) (\<lambda>_.
         and_then (sys_sync c) (\<lambda>_.
         catching (sys_rename c temp resolved)
           (\<lambda>e. and_then (catching (sys_unlink c temp) (\<lambda>_. ret ())) (\<lambda>_. raise e)))))))"

definition verifyExpectedHash :: "fs_config \<Rightarrow> abspath \<Rightarrow> string option \<Rightarrow> (bool \<times> nat option) fs_m" where
  "verifyExpectedHash c resolved expectedSha256 =
     (let expected = (case expectedSha256 of None \<Rightarrow> [] | Some h \<Rightarrow> h)
      in and_then (file_exists c resolved) (\<lambda>present.
         if \<not> present then (if expected \<noteq> [] then raise FsConflict else ret (False, None))
         else and_then (sys_lstat c resolved) (\<lambda>info.
           if \<not> is_file info then raise FsPolicy
           else and_then (sys_readFile c resolved) (\<lambda>current.
             if expected = [] then raise FsConflict
             else if fc_sha c current \<noteq> expected then raise FsConflict
             else ret (True, Some (node_mode info 0 mod 512))))))"

record write_result =
  wr_path :: "abspath + string list"
  wr_bytes :: nat
  wr_sha256 :: string
  wr_created :: bool

definition fs_write :: "fs_config \<Rightarrow> string \<Rightarrow> ustring \<Rightarrow> text_encoding \<Rightarrow> string option \<Rightarrow> write_result fs_m" where
  "fs_write c input content encoding expectedSha256 =
     and_then (resolve_input c input) (\<lambda>resolved.
     (let buffer = (case encoding of EncUtf8 \<Rightarrow> utf8_encode content | EncBase64 \<Rightarrow> fc_unbase64 c content)
      in if length buffer > fc_maxWriteBytes c then raise FsLimit
         else
           and_then (verifyExpectedHash c resolved expectedSha256) (\<lambda>(present, mode).
           and_then (atomicWrite c resolved buffer mode) (\<lambda>_.
             ret \<lparr>wr_path = display c resolved, wr_bytes = length buffer, wr_sha256 = fc_sha c buffer,
               wr_created = (\<not> present)\<rparr>))))"

record edit_result =
  er_path :: "abspath + string list"
  er_bytes :: nat
  er_sha256 :: string
  er_previousSha256 :: string
  er_replacements :: nat

text \<open>
  The text to search, its replacement and the number of matches: in a file with \<open>CRLF\<close> line ends a
  text written with \<open>LF\<close> is accepted, and the new text gets the line ends of the file.
\<close>

definition edit_match :: "ustring \<Rightarrow> ustring \<Rightarrow> ustring \<Rightarrow> ustring \<times> ustring \<times> nat" where
  "edit_match source oldString newString =
     (let matches = countOccurrences source oldString
      in if matches = 0 \<and> index_of [13, 10] source \<noteq> None \<and> index_of [13, 10] oldString = None
           \<and> index_of [10] oldString \<noteq> None
         then (lf_to_crlf oldString, normalize_crlf newString, countOccurrences source (lf_to_crlf oldString))
         else (oldString, newString, matches))"

definition edit_text :: "ustring \<Rightarrow> ustring \<Rightarrow> ustring \<Rightarrow> bool \<Rightarrow> ustring" where
  "edit_text source search replacement replaceAll =
     (if replaceAll then join_with replacement (split_text source search)
      else replace_first source search replacement)"

definition fs_edit ::
  "fs_config \<Rightarrow> string \<Rightarrow> ustring \<Rightarrow> ustring \<Rightarrow> bool \<Rightarrow> string option \<Rightarrow> edit_result fs_m" where
  "fs_edit c input oldString newString replaceAll expectedSha256 =
     (if oldString = [] then raise FsPolicy
      else if oldString = newString then raise FsPolicy
      else
        and_then (resolve_input c input) (\<lambda>resolved.
        and_then (file_exists c resolved) (\<lambda>present.
          if \<not> present then raise FsNotFound
          else and_then (sys_lstat c resolved) (\<lambda>info.
            if \<not> is_file info then raise FsPolicy
            else if node_size info 0 > fc_maxReadBytes c then raise FsLimit
            else and_then (sys_readFile c resolved) (\<lambda>current.
              if (case expectedSha256 of None \<Rightarrow> False | Some h \<Rightarrow> h \<noteq> fc_sha c current) then raise FsConflict
              else
                (case edit_match (utf8_decode current) oldString newString of
                   (search, replacement, matches) \<Rightarrow>
                     if matches = 0 then raise FsConflict
                     else if matches > 1 \<and> \<not> replaceAll then raise FsConflict
                     else
                       (let buffer = utf8_encode (edit_text (utf8_decode current) search replacement replaceAll)
                        in if length buffer > fc_maxWriteBytes c then raise FsLimit
                           else and_then (atomicWrite c resolved buffer (Some (node_mode info 0 mod 512))) (\<lambda>_.
                             ret \<lparr>er_path = display c resolved, er_bytes = length buffer,
                               er_sha256 = fc_sha c buffer, er_previousSha256 = fc_sha c current,
                               er_replacements = (if replaceAll then matches else 1)\<rparr>))))))))"

record patch_result =
  pa_path :: "abspath + string list"
  pa_bytes :: nat
  pa_sha256 :: string
  pa_normalized :: bool

definition fs_patch :: "fs_config \<Rightarrow> string \<Rightarrow> string \<Rightarrow> string \<Rightarrow> patch_result fs_m" where
  "fs_patch c input patchText expectedSha256 =
     and_then (resolve_input c input) (\<lambda>resolved.
     (case normalizeUnifiedPatchHunkHeaders patchText of
        (patch, normalized) \<Rightarrow>
          (case validateUnifiedPatch (fc_parse c) patch of
             Inl reason \<Rightarrow> raise (FsPatch reason)
           | Inr _ \<Rightarrow>
               and_then (verifyExpectedHash c resolved (Some expectedSha256)) (\<lambda>_.
               and_then (sys_readFile c resolved) (\<lambda>source.
                 (case fc_applyPatch c (utf8_decode source) patch of
                    ApplyThrows message \<Rightarrow> raise (FsPatch (patchInvalidError message))
                  | ApplyRejects \<Rightarrow> raise FsConflict
                  | Applied result \<Rightarrow>
                      (let buffer = utf8_encode result
                       in if length buffer > fc_maxWriteBytes c then raise FsLimit
                          else and_then (sys_lstat c resolved) (\<lambda>info.
                            and_then (atomicWrite c resolved buffer (Some (node_mode info 0 mod 512))) (\<lambda>_.
                              ret \<lparr>pa_path = display c resolved, pa_bytes = length buffer,
                                pa_sha256 = fc_sha c buffer, pa_normalized = normalized\<rparr>)))))))))"

definition fs_move ::
  "fs_config \<Rightarrow> string \<Rightarrow> string \<Rightarrow> string option \<Rightarrow> ((abspath + string list) \<times> (abspath + string list)) fs_m" where
  "fs_move c sourceInput destinationInput expectedSha256 =
     and_then (resolve_input c sourceInput) (\<lambda>source.
     and_then (resolve_input c destinationInput) (\<lambda>destination.
     and_then (sys_lstat c source) (\<lambda>info.
     and_then (if is_file info then and_then (verifyExpectedHash c source expectedSha256) (\<lambda>_. ret ())
               else ret ()) (\<lambda>_.
     and_then (file_exists c destination) (\<lambda>present.
       if present then raise FsConflict
       else
         and_then (sys_mkdir_p c (butlast destination)) (\<lambda>_.
         and_then (sys_rename c source destination) (\<lambda>_.
           ret (display c source, display c destination))))))))"

definition fs_remove :: "fs_config \<Rightarrow> string \<Rightarrow> string option \<Rightarrow> bool \<Rightarrow> (abspath + string list) fs_m" where
  "fs_remove c input expectedSha256 recursive =
     and_then (resolve_input c input) (\<lambda>resolved.
       if resolved \<in> set (fc_roots c) then raise FsPolicy
       else and_then (sys_lstat c resolved) (\<lambda>info.
         and_then
           (case info of
              FileNode b m \<Rightarrow>
                and_then (verifyExpectedHash c resolved expectedSha256) (\<lambda>_. sys_unlink c resolved)
            | DirNode \<Rightarrow> if \<not> recursive then raise FsPolicy else sys_rm_recursive c resolved
            | _ \<Rightarrow> raise FsPolicy)
           (\<lambda>_. ret (display c resolved))))"

definition fs_makeDirectory :: "fs_config \<Rightarrow> string \<Rightarrow> (abspath + string list) fs_m" where
  "fs_makeDirectory c input =
     and_then (resolve_input c input) (\<lambda>resolved.
     and_then (sys_mkdir_p c resolved) (\<lambda>_. ret (display c resolved)))"

end
