(* ===== verification/File_Updates.thy ===== *)
theory File_Updates
  imports File_Service
begin

text \<open>
  What the operations of \<open>File_Service\<close> do to the tree: where they change it, and in which order. The
  lemmas are triples of \<open>Crash_Triples\<close>, so they speak of every tree a crash can leave behind, under
  every pattern of failing calls.
\<close>

section \<open>Where the tree may change\<close>

text \<open>The roots are directories, and an entry is allowed if it is at or below one of them.\<close>

definition roots_ready :: "fs_config \<Rightarrow> tree \<Rightarrow> bool" where
  "roots_ready c t \<longleftrightarrow> wf_tree t
     \<and> list_all (\<lambda>root. norm_path root \<and> node_of t (target_of t root) = Inr DirNode) (fc_roots c)"

definition allowed_at :: "fs_config \<Rightarrow> tree \<Rightarrow> abspath \<Rightarrow> bool" where
  "allowed_at c t q \<longleftrightarrow>
     list_ex (\<lambda>root. case canonical t root of Inl _ \<Rightarrow> False | Inr cr \<Rightarrow> prefix cr q) (fc_roots c)"

definition confined :: "fs_config \<Rightarrow> tree \<Rightarrow> tree \<Rightarrow> bool" where
  "confined c t0 t \<longleftrightarrow> (\<forall>q. node_at t q \<noteq> node_at t0 q \<longrightarrow> allowed_at c t0 q)"

lemma node_of_Inr: "node_of t r = Inr n \<longleftrightarrow> (\<exists>q. r = Inr q \<and> node_at t q = Some n)"
  by (cases r) (auto simp: node_of_def split: option.splits)

lemma allowed_at_iff:
  "allowed_at c t q \<longleftrightarrow> (\<exists>root \<in> set (fc_roots c). \<exists>cr. canonical t root = Inr cr \<and> prefix cr q)"
  unfolding allowed_at_def list_ex_iff by (rule bex_cong [OF refl]) (simp split: sum.split)

lemma allowed_atD:
  assumes "roots_ready c t" "allowed_at c t q"
  obtains cr where "prefix cr q" "node_at t cr = Some DirNode" "\<And>q'. prefix cr q' \<Longrightarrow> allowed_at c t q'"
proof -
  obtain root cr where root: "root \<in> set (fc_roots c)" "canonical t root = Inr cr" "prefix cr q"
    using assms(2) by (auto simp: allowed_at_iff)
  obtain r where r: "target_of t root = Inr r" "node_at t r = Some DirNode"
    using assms(1) root(1) by (auto simp: roots_ready_def list_all_iff node_of_Inr)
  have "canonical t root = Inr r"
    using assms(1) r by (intro canonical_existing) (simp_all add: roots_ready_def)
  with root r that [of r] show thesis by (auto simp: allowed_at_iff)
qed

lemma allowed_below: "allowed_at c t q \<Longrightarrow> prefix q q' \<Longrightarrow> allowed_at c t q'"
  unfolding allowed_at_iff by (meson prefix_order.trans)

text \<open>An entry on the way to an allowed one that does not exist, or is no directory, is allowed.\<close>

lemma allowed_on_the_way:
  assumes "roots_ready c t0" "allowed_at c t0 cp" "prefix e cp" "wf_tree t" "extends t0 t"
    "node_at t e \<noteq> Some DirNode"
  shows "allowed_at c t0 e" "e \<noteq> [] \<Longrightarrow> allowed_at c t0 (butlast e @ [x])"
proof -
  obtain cr where cr: "prefix cr cp" "node_at t0 cr = Some DirNode" "\<And>q'. prefix cr q' \<Longrightarrow> allowed_at c t0 q'"
    by (rule allowed_atD [OF assms(1,2)]) blast
  have d: "node_at t cr = Some DirNode" by (rule extendsD(1) [OF assms(5) cr(2)])
  have "physical t cr" by (rule physical_Dir [OF assms(4) d])
  then have "\<not> prefix e cr" using d assms(6) by (auto simp: physical_def strict_prefix_def)
  with cr(1) assms(3) have s: "strict_prefix cr e"
    by (metis prefix_same_cases prefix_order.dual_order.strict_iff_order)
  then show "allowed_at c t0 e" using cr(3) by (simp add: strict_prefix_def)
  show "allowed_at c t0 (butlast e @ [x])" if "e \<noteq> []"
    using s that by (intro cr(3)) (metis append_butlast_last_id prefix_snoc strict_prefix_def prefix_prefix)
qed

text \<open>What \<open>resolve\<close> established of a path.\<close>

definition cleared :: "fs_config \<Rightarrow> tree \<Rightarrow> abspath \<Rightarrow> abspath \<Rightarrow> bool" where
  "cleared c t p cp \<longleftrightarrow> norm_path p \<and> canonical t p = Inr cp \<and> allowed_at c t cp"

lemma resolve_cleared:
  assumes "roots_ready c t" "policy_resolve (tree_lstat t) (tree_real t) (fc_roots c) input = Inr p"
  shows "\<exists>cp. cleared c t p cp"
proof -
  have wf: "wf_tree t" "\<forall>root \<in> set (fc_roots c). norm_path root"
    using assms(1) by (simp_all add: roots_ready_def list_all_iff)
  from policy_resolve_InrD [OF assms(2) wf(2)]
  obtain root cr cp where p: "norm_path p" "root \<in> set (fc_roots c)" "canonical t root = Inr cr"
    "canonical t p = Inr cp" "isInside cr cp" by (auto simp: canonical_def)
  have "\<forall>a b. tree_real t a = Some b \<longrightarrow> norm_path b"
    using target_result(1) [OF wf(1)] by (auto simp: tree_real_def physical_def split: sum.splits if_splits)
  then have "norm_path cp" using p(4) canonicalize_norm unfolding canonical_def by blast
  then have "prefix cr cp" using p(5) by (simp add: isInside_iff)
  with p show ?thesis unfolding cleared_def allowed_at_iff by blast
qed

section \<open>Making the directories on the way\<close>

text \<open>
  The tree \<open>t\<close> while the directories down to \<open>q0\<close> are made, started in \<open>t0\<close>: only missing entries
  on the canonical path of \<open>p\<close> have become directories. \<open>K\<close> is what is known of the entry of \<open>p\<close>.
\<close>

definition on_the_way ::
  "fs_config \<Rightarrow> tree \<Rightarrow> abspath \<Rightarrow> abspath \<Rightarrow> abspath \<Rightarrow> (inode option \<Rightarrow> bool) \<Rightarrow> tree \<Rightarrow> bool" where
  "on_the_way c t0 p cp q0 K t \<longleftrightarrow> wf_tree t \<and> extends t0 t \<and> canonical t p = Inr cp
     \<and> (\<forall>e. entry_of t p = Inr e \<longrightarrow> K (node_at t e))
     \<and> (\<forall>q. node_at t q \<noteq> node_at t0 q \<longrightarrow>
          allowed_at c t0 q \<and> prefix q cp \<and> (q0 = p \<or> strict_prefix q cp) \<and> node_at t q = Some DirNode
          \<and> node_at t0 q = None)"

lemma mkdir_p_triple:
  assumes ready: "roots_ready c t0" and p: "norm_path p" "allowed_at c t0 cp" "prefix q0 p"
    and K: "K None" "q0 = p \<longrightarrow> K (Some DirNode)"
    and R: "\<And>t. on_the_way c t0 p cp q0 K t \<Longrightarrow> R t"
  shows "ftriple R (on_the_way c t0 p cp q0 K) (sys_mkdir_p c q0) (\<lambda>_. on_the_way c t0 p cp q0 K)
    (on_the_way c t0 p cp q0 K)"
  unfolding sys_mkdir_p_def
proof (rule triple_each_inv)
  fix q assume "q \<in> set (map (\<lambda>k. take k q0) [0..<Suc (length q0)])"
  then have q: "prefix q q0" by (auto intro: take_is_prefix)
  then have qp: "prefix q p" using p(3) by (rule prefix_order.trans)
  let ?M = "on_the_way c t0 p cp q0 K"
  show "ftriple R ?M (changing c (mkdir_at q)) (\<lambda>_. ?M) ?M"
  proof (rule triple_changing)
    fix t x t' assume M: "?M t" and f: "mkdir_at q t = Inr (x, Some t')"
    obtain e where e: "entry_of t q = Inr e" "node_at t e = None" "t' = set_node e DirNode t"
      using f by (auto simp: mkdir_at_def bind_res_Inr_iff split: if_splits)
    have t: "wf_tree t" "extends t0 t" "canonical t p = Inr cp" using M by (simp_all add: on_the_way_def)
    note step = create_step [OF t(1) p(1) t(3) qp e(1,2), folded e(3)]
    have pe: "prefix e cp" "q0 = p \<or> strict_prefix e cp"
    proof -
      show "prefix e cp" using step(1) by (metis prefixI)
      have "drop (length q) p \<noteq> []" if "q0 \<noteq> p"
      proof -
        have "strict_prefix q0 p" using p(3) that by (simp add: strict_prefix_def)
        from prefix_length_less [OF this] prefix_length_le [OF q] show ?thesis by simp
      qed
      then show "q0 = p \<or> strict_prefix e cp" using step(1) by (metis append_self_conv prefixI strict_prefix_def)
    qed
    have "allowed_at c t0 e"
      by (rule allowed_on_the_way(1) [OF ready p(2) pe(1) t(1,2)]) (simp add: e(2))
    moreover have "extends t0 t'"
      unfolding e(3) by (rule extends_trans [OF t(2) extends_set_node]) (simp_all add: e(2))
    moreover have "K (node_at t' e')" if "entry_of t' p = Inr e'" for e'
    proof -
      have "q = p \<longrightarrow> q0 = p" using q p(3) by (auto intro: prefix_order.antisym)
      with step(5) [OF that] K show ?thesis by (simp split: if_splits)
    qed
    moreover have "e \<noteq> []" using e(2) by auto
    moreover have "node_at t0 e = None" using M e(2) unfolding on_the_way_def by (metis option.distinct(1))
    ultimately have "?M t'" using M step(3,4) pe e(3) unfolding on_the_way_def by auto
    with R show "R t' \<and> ?M t'" by blast
  qed auto
qed

section \<open>Replacing a file\<close>

definition temp_entry :: "fs_config \<Rightarrow> abspath \<Rightarrow> abspath \<Rightarrow> abspath" where
  "temp_entry c p cp = butlast cp @ [last (temp_path c p)]"

text \<open>A missing entry or a regular file.\<close>

definition file_or_none :: "inode option \<Rightarrow> bool" where
  "file_or_none n \<longleftrightarrow> n = None \<or> (\<exists>b m. n = Some (FileNode b m))"

text \<open>
  Every tree while \<open>p\<close> is replaced by a file with the content \<open>buffer\<close>: the entry \<open>cp\<close> is as before or
  complete, and all that is new beside it are directories on its path and the temporary file.
\<close>

definition update_ok ::
  "fs_config \<Rightarrow> tree \<Rightarrow> abspath \<Rightarrow> abspath \<Rightarrow> inode \<Rightarrow> tree \<Rightarrow> bool" where
  "update_ok c t0 p cp new t \<longleftrightarrow> wf_tree t
     \<and> (node_at t cp = node_at t0 cp \<or> node_at t cp = Some new)
     \<and> (\<forall>q. node_at t q \<noteq> node_at t0 q \<longrightarrow> allowed_at c t0 q
          \<and> (q = cp \<or> q = temp_entry c p cp \<or> strict_prefix q cp \<and> node_at t q = Some DirNode))"

text \<open>The temporary file is there, with the content \<open>b\<close>, and the target is as before.\<close>

definition temp_there ::
  "fs_config \<Rightarrow> tree \<Rightarrow> abspath \<Rightarrow> abspath \<Rightarrow> inode \<Rightarrow> inode \<Rightarrow> tree \<Rightarrow> bool" where
  "temp_there c t0 p cp new old t \<longleftrightarrow> update_ok c t0 p cp new t \<and> node_at t cp = node_at t0 cp
     \<and> file_or_none (node_at t0 cp) \<and> cp \<noteq> [] \<and> norm_path cp \<and> temp_entry c p cp \<noteq> cp
     \<and> node_at t (butlast cp) = Some DirNode \<and> allowed_at c t0 (temp_entry c p cp) \<and> allowed_at c t0 cp
     \<and> node_at t (temp_entry c p cp) = Some old
     \<and> p \<noteq> [] \<and> norm_path p \<and> cp = butlast cp @ [last p] \<and> target_of t (butlast p) = Inr (butlast cp)"

lemma temp_name:
  assumes "p \<noteq> []"
  shows "norm_path [last (temp_path c p)]" "last (temp_path c p) \<noteq> last p"
proof -
  have n: "last (temp_path c p) = ''.'' @ last p @ ''.'' @ fc_unique c @ ''.tmp''" by (simp add: temp_path_def)
  then have "length (last (temp_path c p)) > length (last p) + 5" by simp
  then show "last (temp_path c p) \<noteq> last p" by auto
  show "norm_path [last (temp_path c p)]" by (simp add: n norm_path_def)
qed

lemma not_on_the_way:
  assumes "on_the_way c t0 p cp (butlast p) K t" "p \<noteq> []"
  shows "node_at t cp = node_at t0 cp"
proof (rule ccontr)
  assume "node_at t cp \<noteq> node_at t0 cp"
  with assms(1) have "butlast p = p" by (auto simp: on_the_way_def strict_prefix_def)
  with assms(2) show False by (metis append_butlast_last_id append_self_conv not_Cons_self2)
qed

lemma on_the_way_update:
  assumes "on_the_way c t0 p cp (butlast p) K t" "p \<noteq> []"
  shows "update_ok c t0 p cp new t"
proof -
  have "butlast p \<noteq> p" using assms(2) by (metis append_butlast_last_id append_self_conv not_Cons_self2)
  with assms not_on_the_way [OF assms] show ?thesis unfolding on_the_way_def update_ok_def by blast
qed

text \<open>Creating the temporary file.\<close>

lemma create_temp:
  assumes ready: "roots_ready c t0" and p: "p \<noteq> []" "norm_path p" "allowed_at c t0 cp"
    and M: "on_the_way c t0 p cp (butlast p) file_or_none t"
    and f: "create_at (temp_path c p) m t = Inr (e, Some t')"
  shows "temp_there c t0 p cp new (FileNode [] m) t' \<and> e = temp_entry c p cp"
proof -
  let ?n = "last (temp_path c p)"
  have t: "wf_tree t" "extends t0 t" "canonical t p = Inr cp" using M by (simp_all add: on_the_way_def)
  have e: "entry_of t (butlast p @ [?n]) = Inr e" "node_at t e = None" "t' = set_node e (FileNode [] m) t"
    using f by (auto simp: create_at_def bind_res_Inr_iff temp_path_def split: if_splits)
  note n = temp_name [OF p(1), of c]
  obtain d where d: "target_of t (butlast p) = Inr d" "node_at t d = Some DirNode" "e = d @ [?n]"
    by (rule entry_last [OF t(1) n(1) e(1)])
  have pl: "p = butlast p @ [last p]" "norm_path [last p]"
    using p(1,2) by (simp_all add: norm_path_def) (metis last_in_set)
  have ep: "entry_of t p = Inr (d @ [last p])" using entry_in_dir [OF t(1) pl(2) d(1,2)] pl(1) by simp
  then have K: "file_or_none (node_at t (d @ [last p]))" using M by (simp add: on_the_way_def)
  have cp: "cp = d @ [last p]"
  proof -
    have "canonical t (butlast p @ [last p]) = Inr (d @ [last p])"
      by (rule canonical_entry [OF t(1) _ d(1,2)]) (use p(2) pl(1) K in \<open>auto simp: file_or_none_def\<close>)
    with t(3) pl(1) show ?thesis by simp
  qed
  have tp: "temp_entry c p cp = e" by (simp add: temp_entry_def cp d(3))
  have ne: "e \<noteq> cp" using n(2) by (simp add: cp d(3))
  have "norm_path d" using target_result(1) [OF t(1) d(1)] by (simp add: physical_def)
  then have norm: "norm_path e" "norm_path cp" using n(1) pl(2) by (simp_all add: d(3) cp)
  have "node_at t cp \<noteq> Some DirNode" using K by (auto simp: file_or_none_def cp)
  then have al: "allowed_at c t0 e"
    using allowed_on_the_way(2) [OF ready p(3) _ t(1,2), of cp ?n] by (simp add: cp d(3))
  have wf: "wf_tree t'" unfolding e(3)
    by (rule wf_set_node) (use t(1) norm d e(2) in auto)
  have ext: "extends t t'" unfolding e(3) by (rule extends_set_node) (simp_all add: e(2))
  have td: "target_of t' (butlast p) = Inr d"
    using walk_extends [OF t(1) node_at_Nil d(1) [unfolded target_of_def] _ ext] d(2) by (simp add: target_of_def)
  have dd: "node_at t' d = Some DirNode" by (rule extendsD(1) [OF ext d(2)])
  have "update_ok c t0 p cp new t'"
    using on_the_way_update [OF M p(1), of new] wf al ne tp unfolding update_ok_def e(3) by auto
  moreover have "e \<noteq> []" "cp \<noteq> []" by (simp_all add: d(3) cp)
  ultimately show ?thesis
    using not_on_the_way [OF M p(1)] K norm al ne tp dd
    by (simp add: temp_there_def e(3) cp p(1,2) td [unfolded e(3)] p(3) [unfolded cp])
qed

lemma prefix_same_length: "prefix xs ys \<Longrightarrow> length xs = length ys \<Longrightarrow> xs = ys"
  by (auto elim!: prefixE)

lemma temp_entries:
  assumes "temp_there c t0 p cp new old t"
  shows "entry_of t (temp_path c p) = Inr (temp_entry c p cp)" "entry_of t p = Inr cp"
    "temp_entry c p cp \<noteq> []" "butlast (temp_entry c p cp) = butlast cp"
    "\<not> prefix (temp_entry c p cp) cp" "\<not> prefix cp (temp_entry c p cp)"
proof -
  note W = assms [unfolded temp_there_def update_ok_def]
  have wf: "wf_tree t" and p: "p \<noteq> []" "norm_path p" and cp: "cp = butlast cp @ [last p]"
    and d: "target_of t (butlast p) = Inr (butlast cp)" "node_at t (butlast cp) = Some DirNode"
    using W by simp_all
  have l: "p = butlast p @ [last p]" "norm_path [last p]"
    using p by (simp_all add: norm_path_def) (metis last_in_set)
  show "entry_of t (temp_path c p) = Inr (temp_entry c p cp)"
    using entry_in_dir [OF wf temp_name(1) [OF p(1)] d, of c] by (simp add: temp_path_def temp_entry_def)
  show "entry_of t p = Inr cp" using entry_in_dir [OF wf l(2) d] l(1) cp by simp
  show "temp_entry c p cp \<noteq> []" "butlast (temp_entry c p cp) = butlast cp" by (simp_all add: temp_entry_def)
  have n: "last (temp_path c p) \<noteq> last p" by (rule temp_name(2) [OF p(1)])
  have "length (temp_entry c p cp) = length cp" by (subst cp) (simp add: temp_entry_def)
  moreover have "temp_entry c p cp \<noteq> cp" using W by simp
  ultimately show "\<not> prefix (temp_entry c p cp) cp" "\<not> prefix cp (temp_entry c p cp)"
    by (metis prefix_same_length)+
qed

text \<open>Writing and removing the temporary file, and renaming it to the target.\<close>

lemma write_temp:
  assumes W: "temp_there c t0 p cp new (FileNode b m) t"
    and f: "write_at (temp_entry c p cp) content t = Inr (x, r)"
  shows "\<exists>t'. r = Some t' \<and> temp_there c t0 p cp new (FileNode content m) t'"
proof -
  let ?tp = "temp_entry c p cp"
  let ?t = "set_node ?tp (FileNode content m) t"
  note W' = W [unfolded temp_there_def update_ok_def] and ent = temp_entries [OF W]
  have r: "r = Some ?t" using f W' by (simp add: write_at_def)
  have d: "wf_tree t" "node_at t ?tp = Some (FileNode b m)" "node_at t (butlast cp) = Some DirNode"
    "target_of t (butlast p) = Inr (butlast cp)" using W' by simp_all
  have wf: "wf_tree ?t"
    by (rule wf_set_node) (use d ent wf_treeD(1) [OF d(1,2)] in auto)
  have ext: "extends t ?t" by (rule extends_set_node) (simp_all add: d(2))
  have "target_of ?t (butlast p) = Inr (butlast cp)"
    using walk_extends [OF d(1) node_at_Nil d(4) [unfolded target_of_def] d(3) ext] by (simp add: target_of_def)
  moreover have "node_at ?t (butlast cp) = Some DirNode" by (rule extendsD(1) [OF ext d(3)])
  ultimately have "temp_there c t0 p cp new (FileNode content m) ?t"
    using W' wf ent(3) unfolding temp_there_def update_ok_def by auto
  with r show ?thesis by blast
qed

lemma unlink_temp:
  assumes W: "temp_there c t0 p cp new (FileNode b m) t" and f: "unlink_at (temp_path c p) t = Inr (x, Some t')"
  shows "update_ok c t0 p cp new t' \<and> node_at t' cp = node_at t0 cp"
proof -
  let ?tp = "temp_entry c p cp"
  note W' = W [unfolded temp_there_def update_ok_def] and ent = temp_entries [OF W]
  have t': "t' = del_node ?tp t" using f W' ent(1) by (simp add: unlink_at_def)
  have leaf: "node_at t (?tp @ [y]) = None" for y
    using wf_treeD(2) [of t "?tp @ [y]"] W' by (cases "node_at t (?tp @ [y])") auto
  have "wf_tree t'" unfolding t' by (rule wf_del_node) (use W' leaf in simp_all)
  then show ?thesis using W' unfolding update_ok_def t' by auto
qed

lemma rename_temp:
  assumes W: "temp_there c t0 p cp (FileNode b m) (FileNode b m) t"
    and f: "rename_at (temp_path c p) p t = Inr (x, r)"
  shows "\<exists>t'. r = Some t' \<and> update_ok c t0 p cp (FileNode b m) t' \<and> node_at t' cp = Some (FileNode b m)
    \<and> node_at t' (temp_entry c p cp) = None"
proof -
  let ?tp = "temp_entry c p cp"
  let ?t = "move_below ?tp cp t"
  note W' = W [unfolded temp_there_def update_ok_def] and ent = temp_entries [OF W]
  have wf: "wf_tree t" and tp: "node_at t ?tp = Some (FileNode b m)" and cp: "file_or_none (node_at t cp)" "cp \<noteq> []"
    using W' by auto
  have r: "r = Some ?t"
    using f W' ent cp tp by (auto simp: rename_at_def rename_refused_def file_or_none_def split: if_splits)
  have leaf: "node_at t (?tp @ s) = None" "node_at t (cp @ s) = None" if "s \<noteq> []" for s
  proof -
    have "node_at t (u @ s) = None" if "node_at t u \<noteq> Some DirNode" for u
    proof (rule ccontr)
      assume "node_at t (u @ s) \<noteq> None"
      then have "physical t (u @ s)" by (rule existing_physical [OF wf])
      with \<open>s \<noteq> []\<close> that show False by (simp add: physical_def strict_prefix_def)
    qed
    moreover have "node_at t ?tp \<noteq> Some DirNode" "node_at t cp \<noteq> Some DirNode"
      using tp cp by (auto simp: file_or_none_def)
    ultimately show "node_at t (?tp @ s) = None" "node_at t (cp @ s) = None" by blast+
  qed
  have new: "node_at ?t (cp @ s) = node_at t (?tp @ s)" for s by (rule node_at_move [OF ent(3) cp(2) ent(5)])
  have wf': "wf_tree ?t" by (rule wf_move_below [OF wf ent(3) cp(2)]) (use W' ent in simp_all)
  have gone: "node_at ?t ?tp = None"
    by (rule node_at_move_source) (use ent in simp_all)
  have at: "node_at ?t cp = Some (FileNode b m)" using new [of "[]"] tp by simp
  have other: "node_at ?t q = node_at t q" if "q \<noteq> cp" "q \<noteq> ?tp" for q
  proof (cases "prefix cp q \<or> prefix ?tp q")
    case True
    then obtain s where q: "q = cp @ s \<or> q = ?tp @ s" by (elim disjE prefixE) blast+
    with that have s: "s \<noteq> []" by (cases s) simp_all
    have "node_at ?t (?tp @ s) = None"
    proof (rule node_at_move_source)
      show "\<not> prefix cp (?tp @ s)"
        using ent(5,6) by (metis prefix_prefix prefix_same_cases prefixI)
    qed (use s in simp_all)
    with q new [of s] leaf [OF s] show ?thesis by auto
  qed (simp add: node_at_move_other)
  have "update_ok c t0 p cp (FileNode b m) ?t" unfolding update_ok_def
  proof (intro conjI allI impI)
    fix q assume q: "node_at ?t q \<noteq> node_at t0 q"
    show "allowed_at c t0 q" using q W' other [of q] by (cases "q = cp \<or> q = ?tp") auto
    show "q = cp \<or> q = ?tp \<or> strict_prefix q cp \<and> node_at ?t q = Some DirNode"
      using q W' other [of q] by auto
  qed (use wf' at in simp_all)
  with r at gone show ?thesis by blast
qed


text \<open>
  The whole of \<open>atomicWrite\<close>: under every pattern of failing calls, the target is as before until it
  is complete; if the call fails it is as before, if it succeeds the temporary file is gone.
\<close>

lemma atomicWrite_triple:
  assumes ready: "roots_ready c t0" and p: "cleared c t0 p cp" "p \<noteq> []"
    and target: "\<forall>e. entry_of t0 p = Inr e \<longrightarrow> file_or_none (node_at t0 e)"
    and m: "m = fc_umask c (case mode of None \<Rightarrow> 384 | Some m \<Rightarrow> m)"
  shows "ftriple (update_ok c t0 p cp (FileNode buffer m)) (\<lambda>t. t = t0) (atomicWrite c p buffer mode)
    (\<lambda>_ t. update_ok c t0 p cp (FileNode buffer m) t \<and> node_at t cp = Some (FileNode buffer m)
       \<and> node_at t (temp_entry c p cp) = None)
    (\<lambda>t. update_ok c t0 p cp (FileNode buffer m) t \<and> node_at t cp = node_at t0 cp)"
proof -
  let ?R = "update_ok c t0 p cp (FileNode buffer m)"
  let ?M = "on_the_way c t0 p cp (butlast p) file_or_none"
  let ?W = "\<lambda>b. temp_there c t0 p cp (FileNode buffer m) (FileNode b m)"
  let ?E = "\<lambda>t. ?R t \<and> node_at t cp = node_at t0 cp"
  have p': "norm_path p" "allowed_at c t0 cp" "canonical t0 p = Inr cp" using p(1) by (simp_all add: cleared_def)
  have start: "?M t0" using ready p' target by (simp add: on_the_way_def roots_ready_def extends_def)
  have MR: "?R t \<and> ?E t" if "?M t" for t
    using on_the_way_update [OF that p(2)] not_on_the_way [OF that p(2)] by simp
  have WE: "?R t \<and> ?E t" if "?W b t" for b t using that by (simp add: temp_there_def)
  have mk: "ftriple ?R (\<lambda>t. t = t0) (sys_mkdir_p c (butlast p)) (\<lambda>_. ?M) ?E"
  proof (rule triple_conseq)
    have "butlast p \<noteq> p" using p(2) by (metis append_butlast_last_id append_self_conv not_Cons_self2)
    then show "ftriple ?R ?M (sys_mkdir_p c (butlast p)) (\<lambda>_. ?M) ?M"
      by (intro mkdir_p_triple [OF ready p'(1,2)]) (simp_all add: prefixeq_butlast file_or_none_def MR [THEN conjunct1])
    show "?M t" if "t = t0" for t using start that by simp
    show "?E t" if "?M t" for t using MR [OF that] by blast
  qed
  have cr: "ftriple ?R ?M (sys_create c (temp_path c p) (case mode of None \<Rightarrow> 384 | Some m \<Rightarrow> m))
      (\<lambda>h t. h = temp_entry c p cp \<and> ?W [] t) ?E"
    unfolding sys_create_def
  proof (rule triple_changing)
    fix t x t' assume "?M t" "create_at (temp_path c p) (fc_umask c (case mode of None \<Rightarrow> 384 | Some m \<Rightarrow> m)) t
      = Inr (x, Some t')"
    from create_temp [OF ready p(2) p'(1,2) this, of "FileNode buffer m", folded m] WE
    show "?R t' \<and> x = temp_entry c p cp \<and> ?W [] t'" by blast
  next
    show "x = temp_entry c p cp \<and> ?W [] t"
      if "create_at (temp_path c p) (fc_umask c (case mode of None \<Rightarrow> 384 | Some m \<Rightarrow> m)) t = Inr (x, None)" for t x
      using that by (auto simp: create_at_def bind_res_Inr_iff split: if_splits)
  qed (use MR in blast)
  have sync: "ftriple ?R P (sys_sync c) (\<lambda>_. P) P" for P
    unfolding sys_sync_def by (rule triple_fio [OF triple_ret])
  have wr: "ftriple ?R (?W []) (sys_write c (temp_entry c p cp) buffer) (\<lambda>_. ?W buffer) (\<lambda>t. \<exists>b. ?W b t)"
    unfolding sys_write_def by (rule triple_changing) (use write_temp WE in blast)+
  have body: "ftriple ?R (?W []) (and_then (sys_write c (temp_entry c p cp) buffer) (\<lambda>_. sys_sync c))
      (\<lambda>_. ?W buffer) (\<lambda>t. \<exists>b. ?W b t)"
    by (rule triple_and_then [OF wr], rule triple_conseq [OF sync [of "?W buffer"]]) auto
  have sync': "ftriple ?R P (sys_sync c) (\<lambda>_. P) ?E" if "\<And>t. P t \<Longrightarrow> ?E t" for P
    by (rule triple_conseq [OF sync]) (use that in blast)+
  have guarded: "ftriple ?R (?W []) (catching (and_then (sys_write c (temp_entry c p cp) buffer) (\<lambda>_. sys_sync c))
      (\<lambda>e. and_then (sys_sync c) (\<lambda>_. raise e))) (\<lambda>_. ?W buffer) ?E"
  proof (rule triple_catching [OF body])
    have E: "?E t" if "\<exists>b. ?W b t" for t using WE that by blast
    show "ftriple ?R (\<lambda>t. \<exists>b. ?W b t) (and_then (sys_sync c) (\<lambda>_. raise e)) (\<lambda>_. ?W buffer) ?E" for e
      by (rule triple_and_then [OF sync' triple_raise]) (fact E)+
  qed
  have un: "ftriple ?R (?W buffer) (and_then (catching (sys_unlink c (temp_path c p)) (\<lambda>_. ret ())) (\<lambda>_. raise e)) Q ?E"
    for e Q
  proof (rule triple_and_then [OF triple_catching triple_raise])
    show "ftriple ?R (?W buffer) (sys_unlink c (temp_path c p)) (\<lambda>_. ?E) ?E"
      unfolding sys_unlink_def by (rule triple_changing) (use unlink_temp WE in blast)+
  qed (rule triple_ret)
  have rn: "ftriple ?R (?W buffer) (sys_rename c (temp_path c p) p)
      (\<lambda>_ t. ?R t \<and> node_at t cp = Some (FileNode buffer m) \<and> node_at t (temp_entry c p cp) = None) (?W buffer)"
    unfolding sys_rename_def by (rule triple_changing) (auto dest: rename_temp)
  have last: "ftriple ?R (?W buffer) (and_then (sys_sync c) (\<lambda>_. catching (sys_rename c (temp_path c p) p)
      (\<lambda>e. and_then (catching (sys_unlink c (temp_path c p)) (\<lambda>_. ret ())) (\<lambda>_. raise e))))
      (\<lambda>_ t. ?R t \<and> node_at t cp = Some (FileNode buffer m) \<and> node_at t (temp_entry c p cp) = None) ?E"
    by (rule triple_and_then [OF sync' triple_catching [OF rn un]]) (use WE in blast)
  show ?thesis
    unfolding atomicWrite_def Let_def
  proof (rule triple_and_then [OF mk], rule triple_and_then [OF cr], rule triple_pure, goal_cases)
    case (1 _ h)
    then show ?case using triple_and_then [OF guarded last] by simp
  qed
qed

end
