(* ===== verification/File_Guarantees.thy ===== *)
theory File_Guarantees
  imports File_Updates
begin

text \<open>
  What the operations of the file service promise: an update of a file is atomic and not lost, and no
  operation changes the tree outside the allowed roots. The operations run on a tree \<open>t0\<close> up to their
  first change, so the first lemmas are about calls on that one tree.
\<close>

section \<open>Calls before the first change\<close>

lemma reading_here:
  assumes "E t0" "\<And>x. f t0 = Inr x \<Longrightarrow> ftriple R (\<lambda>t. t = t0) (k x) Q E"
  shows "ftriple R (\<lambda>t. t = t0) (and_then (reading c f) k) Q E"
proof (rule triple_and_then)
  show "ftriple R (\<lambda>t. t = t0) (reading c f) (\<lambda>x t. f t0 = Inr x \<and> t = t0) E"
    by (rule triple_reading) (use assms(1) in auto)
qed (rule triple_pure [OF assms(2)])

lemma resolve_here:
  assumes "E t0" "\<And>p. policy_resolve (tree_lstat t0) (tree_real t0) (fc_roots c) input = Inr p \<Longrightarrow>
    ftriple R (\<lambda>t. t = t0) (k p) Q E"
  shows "ftriple R (\<lambda>t. t = t0) (and_then (resolve_input c input) k) Q E"
proof (rule triple_and_then)
  show "ftriple R (\<lambda>t. t = t0) (resolve_input c input)
      (\<lambda>p t. policy_resolve (tree_lstat t0) (tree_real t0) (fc_roots c) input = Inr p \<and> t = t0) E"
    by (rule triple_read) (use assms(1) in \<open>auto simp: resolve_input_def split: sum.splits\<close>)
qed (rule triple_pure [OF assms(2)])

lemma raise_here: "E t0 \<Longrightarrow> ftriple R (\<lambda>t. t = t0) (raise e) Q E"
  by (rule triple_raise) simp

text \<open>What \<open>lstat\<close> finds at a path: nothing, or the entry.\<close>

definition found :: "tree \<Rightarrow> abspath \<Rightarrow> errno + inode" where
  "found t p = node_of t (entry_of t p)"

lemma lstat_here:
  assumes "E t0" "\<And>n. found t0 p = Inr n \<Longrightarrow> ftriple R (\<lambda>t. t = t0) (k n) Q E"
  shows "ftriple R (\<lambda>t. t = t0) (and_then (sys_lstat c p) k) Q E"
  unfolding sys_lstat_def using assms by (intro reading_here) (simp_all add: found_def)

lemma exists_here:
  assumes "E t0" "\<And>n. found t0 p = Inr n \<Longrightarrow> ftriple R (\<lambda>t. t = t0) (k True) Q E"
    "found t0 p = Inl ENOENT \<Longrightarrow> ftriple R (\<lambda>t. t = t0) (k False) Q E"
  shows "ftriple R (\<lambda>t. t = t0) (and_then (file_exists c p) k) Q E"
proof (rule triple_and_then)
  show "ftriple R (\<lambda>t. t = t0) (file_exists c p)
      (\<lambda>b t. (if b then \<exists>n. found t0 p = Inr n else found t0 p = Inl ENOENT) \<and> t = t0) E"
    by (rule tripleI)
      (use assms(1) in \<open>auto simp: file_exists_def sys_lstat_def reading_def fio_def Let_def and_then_def
        crash_hist_def catching_def ret_def raise_def found_def split: if_splits sum.splits prod.splits\<close>)
qed (rule triple_pure, use assms(2,3) in \<open>auto split: if_splits\<close>)


text \<open>An entry that is no link is the canonical path.\<close>

lemma found_entry:
  assumes "wf_tree t" "found t p = Inr n" "\<forall>target. n \<noteq> LinkNode target"
  obtains e where "entry_of t p = Inr e" "target_of t p = Inr e" "canonical t p = Inr e" "node_at t e = Some n"
proof -
  obtain e where e: "entry_of t p = Inr e" "node_at t e = Some n"
    using assms(2) by (auto simp: found_def node_of_Inr)
  then have "target_of t p = Inr e" using assms(1,3) by (intro entry_no_link) simp_all
  with e canonical_existing [OF assms(1) this] that show thesis by simp
qed

lemma found_missing: "found t p = Inl ENOENT \<Longrightarrow> entry_of t p = Inr e \<Longrightarrow> node_at t e = None"
  by (auto simp: found_def node_of_def split: option.splits)

lemma found_Nil: "found t [] = Inr DirNode"
  by (simp add: found_def entry_of_def node_of_def)

lemma readFile_here:
  assumes "wf_tree t0" "found t0 p = Inr (FileNode b m)" "E t0" "ftriple R (\<lambda>t. t = t0) (k b) Q E"
  shows "ftriple R (\<lambda>t. t = t0) (and_then (sys_readFile c p) k) Q E"
  unfolding sys_readFile_def
proof (rule reading_here)
  show "E t0" by (rule assms(3))
next
  fix x assume x: "bind_res (node_of t0 (target_of t0 p)) (\<lambda>n. case n of FileNode b m \<Rightarrow> Inr b | DirNode \<Rightarrow> Inl EISDIR
    | _ \<Rightarrow> Inl EINVAL) = Inr x"
  obtain e where "target_of t0 p = Inr e" "node_at t0 e = Some (FileNode b m)"
    by (rule found_entry [OF assms(1,2)]) simp_all
  with x have "x = b" by (simp add: node_of_def)
  with assms(4) show "ftriple R (\<lambda>t. t = t0) (k x) Q E" by simp
qed

lemma readFile_missing:
  assumes "wf_tree t0" "found t0 p = Inl ENOENT" "E t0"
  shows "ftriple R (\<lambda>t. t = t0) (and_then (sys_readFile c p) k) Q E"
  unfolding sys_readFile_def
proof (rule reading_here)
  fix x assume x: "bind_res (node_of t0 (target_of t0 p)) (\<lambda>n. case n of FileNode b m \<Rightarrow> Inr b | DirNode \<Rightarrow> Inl EISDIR
    | _ \<Rightarrow> Inl EINVAL) = Inr x"
  then obtain q where "target_of t0 p = Inr q" "node_at t0 q \<noteq> None"
    by (auto simp: bind_res_Inr_iff node_of_Inr)
  then obtain e where "entry_of t0 p = Inr e" "node_at t0 e \<noteq> None"
    using walk_nofollow [OF assms(1) node_at_Nil, of _ _ q] unfolding target_of_def entry_of_def by blast
  with found_missing [OF assms(2)] show "ftriple R (\<lambda>t. t = t0) (k x) Q E" by simp
qed (rule assms(3))

lemma verify_here:
  assumes "wf_tree t0" "E t0"
    "found t0 p = Inl ENOENT \<Longrightarrow> expected = None \<or> expected = Some [] \<Longrightarrow>
      ftriple R (\<lambda>t. t = t0) (k (False, None)) Q E"
    "\<And>b m. found t0 p = Inr (FileNode b m) \<Longrightarrow> expected = Some (fc_sha c b) \<Longrightarrow>
      ftriple R (\<lambda>t. t = t0) (k (True, Some (m mod 512))) Q E"
  shows "ftriple R (\<lambda>t. t = t0) (and_then (verifyExpectedHash c p expected) k) Q E"
proof -
  let ?K = "\<lambda>x t. (case x of (False, mode) \<Rightarrow> mode = None \<and> found t0 p = Inl ENOENT \<and> (expected = None \<or> expected = Some [])
    | (True, mode) \<Rightarrow> \<exists>b m. mode = Some (m mod 512) \<and> found t0 p = Inr (FileNode b m) \<and> expected = Some (fc_sha c b)) \<and> t = t0"
  have "ftriple R (\<lambda>t. t = t0) (verifyExpectedHash c p expected) ?K E"
    unfolding verifyExpectedHash_def Let_def
  proof (rule exists_here, goal_cases)
    case (2 n)
    show ?case unfolding if_not_P [OF not_not [THEN iffD2, OF TrueI]]
    proof (rule lstat_here)
      show "E t0" by (rule assms(2))
    next
      fix n assume n: "found t0 p = Inr n"
      show "ftriple R (\<lambda>t. t = t0) (if \<not> is_file n then raise FsPolicy
        else and_then (sys_readFile c p) (\<lambda>current.
          if (case expected of None \<Rightarrow> [] | Some h \<Rightarrow> h) = [] then raise FsConflict
          else if fc_sha c current \<noteq> (case expected of None \<Rightarrow> [] | Some h \<Rightarrow> h) then raise FsConflict
          else ret (True, Some (node_mode n 0 mod 512)))) ?K E"
      proof (cases n)
        case (FileNode b m)
        with n have f: "found t0 p = Inr (FileNode b m)" by simp
        show ?thesis unfolding FileNode is_file.simps if_not_P [OF not_not [THEN iffD2, OF TrueI]]
          by (rule readFile_here [OF assms(1) f])
            (use assms(2) f in \<open>auto intro!: triple_if triple_raise triple_ret split: option.splits\<close>)
      qed (use assms(2) in \<open>auto intro: triple_raise\<close>)
    qed
  qed (use assms(2) in \<open>auto intro!: triple_raise triple_ret split: option.splits\<close>)
  then show ?thesis
  proof (rule triple_and_then)
    fix x :: "bool \<times> nat option"
    obtain present mode where x: "x = (present, mode)" by fastforce
    show "ftriple R (?K x) (k x) Q E"
      unfolding x by (rule triple_pure) (use assms(3,4) in \<open>auto split: bool.splits\<close>)
  qed
qed

text \<open>A path without an entry has no canonical entry either.\<close>

lemma nearest_missing:
  "nearestExistingAncestor lst p = Inr a \<Longrightarrow> strict_prefix a q \<Longrightarrow> prefix q p \<Longrightarrow> lst q = LMissing"
proof (induction lst p rule: nearestExistingAncestor.induct)
  case (1 lst current)
  note near = "1.prems"(1) [unfolded nearestExistingAncestor.simps [of lst current]]
  show ?case
  proof (cases "lst current")
    case LExists
    with near "1.prems"(2,3) show ?thesis by (auto dest: prefix_order.less_le_trans)
  next
    case LMissing
    with near have c: "current \<noteq> []" "nearestExistingAncestor lst (butlast current) = Inr a"
      by (auto split: if_splits)
    show ?thesis
    proof (cases "q = current")
      case False
      with "1.prems"(3) c(1) have "prefix q (butlast current)"
        by (cases current rule: rev_cases) (auto simp: prefix_snoc)
      with "1.IH" [OF LMissing c(1,2)] "1.prems"(2) show ?thesis by blast
    qed (simp add: LMissing)
  qed (use near in simp)
qed

lemma missing_canonical:
  assumes "wf_tree t" "norm_path p" "canonical t p = Inr cp" "found t p = Inl ENOENT"
  shows "node_at t cp = None"
proof (rule ccontr)
  assume cp: "node_at t cp \<noteq> None"
  have lst: "tree_lstat t p = LMissing"
    using assms(4) by (auto simp: found_def tree_lstat_def node_of_def split: sum.splits option.splits)
  obtain a d where a: "nearestExistingAncestor (tree_lstat t) p = Inr a" "tree_real t a = Some d"
    "cp = (if path_relative a p = [] then d else foldl push_segment d (path_relative a p))"
    using assms(3) by (auto simp: canonical_def canonicalizePath_def bind_res_Inr_iff Let_def split: option.splits)
  from nearest_prefix [OF a(1)] lst obtain x ys where p: "p = a @ x # ys"
    by (auto simp: prefix_def) (metis append.right_neutral list.exhaust lstat_result.distinct(1))
  have d: "target_of t a = Inr d" using a(2) by (auto simp: tree_real_def split: sum.splits if_splits)
  have n: "norm_path [x]" "norm_path (x # ys)" using assms(2) p by (auto simp: norm_path_def)
  have cp': "cp = d @ x # ys"
    using a(3) n(2) by (simp add: p path_relative_below foldl_push_plain del: foldl.simps)
  have ph: "physical t cp" by (rule existing_physical [OF assms(1) cp])
  then have dir: "node_at t d = Some DirNode" by (auto simp: physical_def cp' strict_prefix_def)
  have "node_at t (d @ [x]) \<noteq> None"
  proof (cases "ys = []")
    case False
    then have "strict_prefix (d @ [x]) cp" by (simp add: cp' strict_prefix_def)
    with ph show ?thesis by (simp add: physical_def)
  qed (use cp cp' in simp)
  then have "tree_lstat t (a @ [x]) = LExists"
    using entry_in_dir [OF assms(1) n(1) d dir] by (simp add: tree_lstat_def)
  moreover have "tree_lstat t (a @ [x]) = LMissing"
    by (rule nearest_missing [OF a(1)]) (simp_all add: p strict_prefix_def)
  ultimately show False by simp
qed

section \<open>Updates of a file\<close>

text \<open>
  The abstract specification: one file, or none, which an update replaces by a new file, or refuses to.
  \<open>write\<close> and \<open>patch\<close> demand the hash of what they replace, \<open>edit\<close> checks it if it is given.
\<close>

datatype file_update =
    UWrite ustring text_encoding "string option"
  | UEdit ustring ustring bool "string option"
  | UPatch string string

definition replacing_file :: "fs_config \<Rightarrow> byte list \<Rightarrow> nat \<Rightarrow> inode option" where
  "replacing_file c buffer mode =
     (if length buffer \<le> fc_maxWriteBytes c then Some (FileNode buffer (fc_umask c mode)) else None)"

fun spec_update :: "fs_config \<Rightarrow> file_update \<Rightarrow> inode option \<Rightarrow> inode option" where
  "spec_update c (UWrite content encoding expected) old =
     (let buffer = (case encoding of EncUtf8 \<Rightarrow> utf8_encode content | EncBase64 \<Rightarrow> fc_unbase64 c content)
      in case old of
           None \<Rightarrow> if expected = None \<or> expected = Some [] then replacing_file c buffer 384 else None
         | Some (FileNode b m) \<Rightarrow>
             if expected = Some (fc_sha c b) then replacing_file c buffer (m mod 512) else None
         | Some _ \<Rightarrow> None)"
| "spec_update c (UEdit oldString newString replaceAll expected) old =
     (case old of
        Some (FileNode b m) \<Rightarrow>
          (case edit_match (utf8_decode b) oldString newString of
             (search, new, matches) \<Rightarrow>
               if (expected = None \<or> expected = Some (fc_sha c b)) \<and> oldString \<noteq> [] \<and> oldString \<noteq> newString
                 \<and> (matches = 1 \<or> matches > 1 \<and> replaceAll)
               then replacing_file c (utf8_encode (edit_text (utf8_decode b) search new replaceAll)) (m mod 512)
               else None)
      | _ \<Rightarrow> None)"
| "spec_update c (UPatch patchText expected) old =
     (case old of
        Some (FileNode b m) \<Rightarrow>
          if expected = fc_sha c b
          then (case fc_applyPatch c (utf8_decode b) (fst (normalizeUnifiedPatchHunkHeaders patchText)) of
                  Applied result \<Rightarrow> replacing_file c (utf8_encode result) (m mod 512)
                | _ \<Rightarrow> None)
          else None
      | _ \<Rightarrow> None)"

text \<open>The operation of the service, with the size and the hash that it returns.\<close>

fun run_update :: "fs_config \<Rightarrow> string \<Rightarrow> file_update \<Rightarrow> (nat \<times> string) fs_m" where
  "run_update c input (UWrite content encoding expected) =
     and_then (fs_write c input content encoding expected) (\<lambda>r. ret (wr_bytes r, wr_sha256 r))"
| "run_update c input (UEdit oldString newString replaceAll expected) =
     and_then (fs_edit c input oldString newString replaceAll expected) (\<lambda>r. ret (er_bytes r, er_sha256 r))"
| "run_update c input (UPatch patchText expected) =
     and_then (fs_patch c input patchText expected) (\<lambda>r. ret (pa_bytes r, pa_sha256 r))"

text \<open>Every tree on the way, the tree of a refused or failed update, and the tree of a completed one.\<close>

definition updating :: "fs_config \<Rightarrow> tree \<Rightarrow> abspath \<Rightarrow> abspath \<Rightarrow> file_update \<Rightarrow> tree \<Rightarrow> bool" where
  "updating c t0 p cp u t \<longleftrightarrow> (case spec_update c u (node_at t0 cp) of
     None \<Rightarrow> False
   | Some new \<Rightarrow> update_ok c t0 p cp new t)"

definition not_updated :: "fs_config \<Rightarrow> tree \<Rightarrow> abspath \<Rightarrow> abspath \<Rightarrow> file_update \<Rightarrow> tree \<Rightarrow> bool" where
  "not_updated c t0 p cp u t \<longleftrightarrow> t = t0 \<or> updating c t0 p cp u t \<and> node_at t cp = node_at t0 cp"

definition updated ::
  "fs_config \<Rightarrow> tree \<Rightarrow> abspath \<Rightarrow> abspath \<Rightarrow> file_update \<Rightarrow> nat \<Rightarrow> string \<Rightarrow> tree \<Rightarrow> bool" where
  "updated c t0 p cp u n h t \<longleftrightarrow> updating c t0 p cp u t \<and> node_at t (temp_entry c p cp) = None
     \<and> (\<exists>b m. spec_update c u (node_at t0 cp) = Some (FileNode b m) \<and> node_at t cp = Some (FileNode b m)
          \<and> n = length b \<and> h = fc_sha c b)"

lemma commit_triple:
  assumes ready: "roots_ready c t0" and p: "cleared c t0 p cp"
    and target: "found t0 p = Inl ENOENT \<or> (\<exists>b m. found t0 p = Inr (FileNode b m))"
    and new: "spec_update c u (node_at t0 cp) = Some (FileNode buffer m)"
      "m = fc_umask c (case mode of None \<Rightarrow> 384 | Some m \<Rightarrow> m)"
  shows "ftriple (updating c t0 p cp u) (\<lambda>t. t = t0) (atomicWrite c p buffer mode)
    (\<lambda>_. updated c t0 p cp u (length buffer) (fc_sha c buffer)) (not_updated c t0 p cp u)"
proof -
  have R: "updating c t0 p cp u = update_ok c t0 p cp (FileNode buffer m)"
    by (simp add: updating_def new(1) fun_eq_iff)
  have wf: "wf_tree t0" using ready by (simp add: roots_ready_def)
  have "p \<noteq> []" using target found_Nil by auto
  moreover have "\<forall>e. entry_of t0 p = Inr e \<longrightarrow> file_or_none (node_at t0 e)"
  proof (intro allI impI)
    fix e assume e: "entry_of t0 p = Inr e"
    show "file_or_none (node_at t0 e)" using target
    proof
      assume "found t0 p = Inl ENOENT"
      from found_missing [OF this e] show ?thesis by (simp add: file_or_none_def)
    qed (auto simp: found_def e node_of_Inr file_or_none_def)
  qed
  ultimately show ?thesis unfolding R
    by (rule triple_conseq [OF atomicWrite_triple [OF ready p _ _ new(2)]])
      (auto simp: updated_def not_updated_def R new(1))
qed

text \<open>What is found at a cleared path is at its canonical path, links apart.\<close>

lemma found_canonical:
  assumes "wf_tree t" "cleared c t p cp"
  shows "found t p = Inl ENOENT \<Longrightarrow> node_at t cp = None"
    "found t p = Inr (FileNode b m) \<Longrightarrow> node_at t cp = Some (FileNode b m)"
  using missing_canonical [OF assms(1)] found_entry [OF assms(1), of p "FileNode b m"] assms(2)
  by (auto simp: cleared_def)

lemma write_triple:
  assumes ready: "roots_ready c t0" and p: "cleared c t0 p cp"
    and input: "policy_resolve (tree_lstat t0) (tree_real t0) (fc_roots c) input = Inr p"
    and u: "u = UWrite content encoding expected"
  shows "ftriple (updating c t0 p cp u) (\<lambda>t. t = t0) (fs_write c input content encoding expected)
    (\<lambda>r. updated c t0 p cp u (wr_bytes r) (wr_sha256 r)) (not_updated c t0 p cp u)"
  unfolding fs_write_def Let_def
proof (rule resolve_here, goal_cases)
  case (2 p')
  then have p': "p' = p" using input by simp
  let ?b = "case encoding of EncUtf8 \<Rightarrow> utf8_encode content | EncBase64 \<Rightarrow> fc_unbase64 c content"
  have wf: "wf_tree t0" using ready by (simp add: roots_ready_def)
  have at: "found t0 p = Inl ENOENT \<Longrightarrow> node_at t0 cp = None"
    "found t0 p = Inr (FileNode b m) \<Longrightarrow> node_at t0 cp = Some (FileNode b m)" for b m
    by (rule found_canonical [OF wf p], assumption)+
  note ret = triple_and_then [OF _ triple_ret]
  show ?case unfolding p'
  proof (rule triple_if)
    assume long: "\<not> length ?b > fc_maxWriteBytes c"
    show "ftriple (updating c t0 p cp u) (\<lambda>t. t = t0) (and_then (verifyExpectedHash c p expected) (\<lambda>(present, mode).
        and_then (atomicWrite c p ?b mode) (\<lambda>_. ret \<lparr>wr_path = display c p, wr_bytes = length ?b,
          wr_sha256 = fc_sha c ?b, wr_created = (\<not> present)\<rparr>)))
      (\<lambda>r. updated c t0 p cp u (wr_bytes r) (wr_sha256 r)) (not_updated c t0 p cp u)"
    proof (rule verify_here [OF wf], goal_cases)
      case 2
      show ?case unfolding prod.case
        by (rule ret [OF commit_triple [OF ready p]])
          (use 2 long at in \<open>simp_all add: u replacing_file_def\<close>)
    next
      case (3 b m)
      show ?case unfolding prod.case
        by (rule ret [OF commit_triple [OF ready p]])
          (use 3 long at in \<open>simp_all add: u replacing_file_def\<close>)
    qed (simp add: not_updated_def)
  qed (rule triple_raise, simp add: not_updated_def)
qed (simp add: not_updated_def)

lemma edit_triple:
  assumes ready: "roots_ready c t0" and p: "cleared c t0 p cp"
    and input: "policy_resolve (tree_lstat t0) (tree_real t0) (fc_roots c) input = Inr p"
    and u: "u = UEdit oldString newString replaceAll expected"
  shows "ftriple (updating c t0 p cp u) (\<lambda>t. t = t0) (fs_edit c input oldString newString replaceAll expected)
    (\<lambda>r. updated c t0 p cp u (er_bytes r) (er_sha256 r)) (not_updated c t0 p cp u)"
proof -
  have wf: "wf_tree t0" using ready by (simp add: roots_ready_def)
  have E: "not_updated c t0 p cp u t0" by (simp add: not_updated_def)
  note raise = raise_here [where E = "not_updated c t0 p cp u", OF E]
  note ret = triple_and_then [OF _ triple_ret]
  have content: "ftriple (updating c t0 p cp u) (\<lambda>t. t = t0)
      (if (case expected of None \<Rightarrow> False | Some h \<Rightarrow> h \<noteq> fc_sha c b) then raise FsConflict
       else case edit_match (utf8_decode b) oldString newString of
         (search, new, matches) \<Rightarrow>
           if matches = 0 then raise FsConflict
           else if matches > 1 \<and> \<not> replaceAll then raise FsConflict
           else let buffer = utf8_encode (edit_text (utf8_decode b) search new replaceAll)
             in if length buffer > fc_maxWriteBytes c then raise FsLimit
                else and_then (atomicWrite c p buffer (Some (node_mode (FileNode b m) 0 mod 512))) (\<lambda>_.
                  ret \<lparr>er_path = display c p, er_bytes = length buffer, er_sha256 = fc_sha c buffer,
                    er_previousSha256 = fc_sha c b, er_replacements = (if replaceAll then matches else 1)\<rparr>))
      (\<lambda>r. updated c t0 p cp u (er_bytes r) (er_sha256 r)) (not_updated c t0 p cp u)"
    if f: "found t0 p = Inr (FileNode b m)" and old: "oldString \<noteq> []" "oldString \<noteq> newString" for b m
  proof -
    obtain search new matches where match: "edit_match (utf8_decode b) oldString newString = (search, new, matches)"
      by (metis prod_cases3)
    have at: "node_at t0 cp = Some (FileNode b m)" by (rule found_canonical(2) [OF wf p f])
    show ?thesis unfolding match prod.case Let_def
    proof (intro triple_if)
      assume k: "\<not> (case expected of None \<Rightarrow> False | Some h \<Rightarrow> h \<noteq> fc_sha c b)" "matches \<noteq> 0"
        "\<not> (matches > 1 \<and> \<not> replaceAll)"
        "\<not> length (utf8_encode (edit_text (utf8_decode b) search new replaceAll)) > fc_maxWriteBytes c"
      then have e: "expected = None \<or> expected = Some (fc_sha c b)" "matches = 1 \<or> matches > 1 \<and> replaceAll"
        by (auto split: option.splits)
      show "ftriple (updating c t0 p cp u) (\<lambda>t. t = t0)
        (and_then (atomicWrite c p (utf8_encode (edit_text (utf8_decode b) search new replaceAll))
            (Some (node_mode (FileNode b m) 0 mod 512))) (\<lambda>_. ret
          \<lparr>er_path = display c p, er_bytes = length (utf8_encode (edit_text (utf8_decode b) search new replaceAll)),
            er_sha256 = fc_sha c (utf8_encode (edit_text (utf8_decode b) search new replaceAll)),
            er_previousSha256 = fc_sha c b, er_replacements = (if replaceAll then matches else 1)\<rparr>))
        (\<lambda>r. updated c t0 p cp u (er_bytes r) (er_sha256 r)) (not_updated c t0 p cp u)"
        by (rule ret [OF commit_triple [OF ready p]])
          (use f e old k(4) in \<open>simp_all add: u at match replacing_file_def\<close>)
    qed (rule raise)+
  qed
  show ?thesis unfolding fs_edit_def
  proof (intro triple_if raise, rule resolve_here [where E = "not_updated c t0 p cp u", OF E], goal_cases)
    case (1 p')
    then have p': "p' = p" using input by simp
    show ?case unfolding p'
    proof (rule exists_here, goal_cases)
      case (2 n)
      show ?case unfolding if_not_P [OF not_not [THEN iffD2, OF TrueI]]
      proof (rule lstat_here, goal_cases)
        case (2 n)
        show ?case
        proof (cases "is_file n")
          case True
          then obtain b m where n: "n = FileNode b m" by (cases n) auto
          with 2 have f: "found t0 p = Inr (FileNode b m)" by simp
          show ?thesis unfolding n
            by (intro triple_if raise readFile_here [OF wf f] E content [OF f] \<open>oldString \<noteq> []\<close> \<open>oldString \<noteq> newString\<close>)
        qed (simp add: raise)
      qed (rule E)
    qed (simp_all add: E raise)
  qed
qed

lemma patch_triple:
  assumes ready: "roots_ready c t0" and p: "cleared c t0 p cp"
    and input: "policy_resolve (tree_lstat t0) (tree_real t0) (fc_roots c) input = Inr p"
    and u: "u = UPatch patchText expected"
  shows "ftriple (updating c t0 p cp u) (\<lambda>t. t = t0) (fs_patch c input patchText expected)
    (\<lambda>r. updated c t0 p cp u (pa_bytes r) (pa_sha256 r)) (not_updated c t0 p cp u)"
proof -
  let ?F = "ftriple (updating c t0 p cp u) (\<lambda>t. t = t0)"
  let ?Q = "\<lambda>r. updated c t0 p cp u (pa_bytes r) (pa_sha256 r)" and ?E = "not_updated c t0 p cp u"
  have wf: "wf_tree t0" using ready by (simp add: roots_ready_def)
  have E: "?E t0" by (simp add: not_updated_def)
  note raise = raise_here [where E = "not_updated c t0 p cp u", OF E]
  note ret = triple_and_then [OF _ triple_ret]
  obtain patch normalized where norm: "normalizeUnifiedPatchHunkHeaders patchText = (patch, normalized)" by fastforce
  define k where "k result = (let buffer = utf8_encode result
    in if length buffer > fc_maxWriteBytes c then raise FsLimit
       else and_then (sys_lstat c p) (\<lambda>info.
         and_then (atomicWrite c p buffer (Some (node_mode info 0 mod 512))) (\<lambda>_.
           ret \<lparr>pa_path = display c p, pa_bytes = length buffer,
             pa_sha256 = fc_sha c buffer, pa_normalized = normalized\<rparr>)))" for result
  have k: "?F (k result) ?Q ?E" if f: "found t0 p = Inr (FileNode b m)" and e: "expected = fc_sha c b"
    and r: "fc_applyPatch c (utf8_decode b) patch = Applied result" for b m result
    unfolding k_def Let_def
  proof (intro triple_if raise, rule lstat_here [where E = "not_updated c t0 p cp u", OF E])
    fix n assume long: "\<not> length (utf8_encode result) > fc_maxWriteBytes c" and n: "found t0 p = Inr n"
    show "?F (and_then (atomicWrite c p (utf8_encode result) (Some (node_mode n 0 mod 512))) (\<lambda>_.
        ret \<lparr>pa_path = display c p, pa_bytes = length (utf8_encode result),
          pa_sha256 = fc_sha c (utf8_encode result), pa_normalized = normalized\<rparr>)) ?Q ?E"
      by (rule ret [OF commit_triple [OF ready p]])
        (use f n long r e norm found_canonical(2) [OF wf p f] in \<open>simp_all add: u replacing_file_def\<close>)
  qed
  have applied: "?F (case fc_applyPatch c (utf8_decode b) patch of
      ApplyThrows message \<Rightarrow> raise (FsPatch (patchInvalidError message))
    | ApplyRejects \<Rightarrow> raise FsConflict | Applied result \<Rightarrow> k result) ?Q ?E"
    if "found t0 p = Inr (FileNode b m)" "expected = fc_sha c b" for b m
    using k [OF that] raise by (cases "fc_applyPatch c (utf8_decode b) patch") simp_all
  show ?thesis unfolding fs_patch_def norm prod.case
  proof (rule resolve_here [where E = "not_updated c t0 p cp u", OF E], goal_cases)
    case (1 p')
    then have p': "p' = p" using input by simp
    show ?case unfolding p' k_def [symmetric]
    proof (cases "validateUnifiedPatch (fc_parse c) patch", goal_cases)
      case (2 y)
      show ?case unfolding 2 sum.case
      proof (rule verify_here [OF wf])
        fix b m assume f: "found t0 p = Inr (FileNode b m)" and "Some expected = Some (fc_sha c b)"
        then have "expected = fc_sha c b" by simp
        note a = applied [OF f this]
        show "?F (and_then (sys_readFile c p) (\<lambda>source. case fc_applyPatch c (utf8_decode source) patch of
            ApplyThrows message \<Rightarrow> raise (FsPatch (patchInvalidError message))
          | ApplyRejects \<Rightarrow> raise FsConflict | Applied result \<Rightarrow> k result)) ?Q ?E"
          by (rule readFile_here [OF wf f]) (rule E, rule a)
      qed (rule E, rule readFile_missing [OF wf], simp_all add: E)
    qed (simp add: raise)
  qed
qed

lemma update_triple:
  assumes ready: "roots_ready c t0" and p: "cleared c t0 p cp"
    and input: "policy_resolve (tree_lstat t0) (tree_real t0) (fc_roots c) input = Inr p"
  shows "ftriple (updating c t0 p cp u) (\<lambda>t. t = t0) (run_update c input u)
    (\<lambda>(n, h). updated c t0 p cp u n h) (not_updated c t0 p cp u)"
  using write_triple [OF assms] edit_triple [OF assms] patch_triple [OF assms]
  by (cases u) (auto intro!: triple_and_then triple_ret)

lemma resolved_canonical:
  assumes "roots_ready c t0" "policy_resolve (tree_lstat t0) (tree_real t0) (fc_roots c) input = Inr p"
    "canonical t0 p = Inr cp"
  shows "cleared c t0 p cp"
  using resolve_cleared [OF assms(1,2)] assms(3) by (auto simp: cleared_def)

definition start_fs :: "tree \<Rightarrow> fworld" where
  "start_fs t = \<lparr>fw_tree = t, fw_history = [], fw_ops = 0\<rparr>"

lemma start_fs_simps [simp]: "fw_tree (start_fs t) = t" "fw_history (start_fs t) = []"
  by (simp_all add: start_fs_def)

lemma run_tripleD:
  assumes "ftriple R (\<lambda>t. t = t0) m Q E" "m (start_fs t0) = (res, w')"
  shows "\<forall>t \<in> set (fw_history w'). R t" "res = Inl e \<Longrightarrow> E (fw_tree w')" "res = Inr x \<Longrightarrow> Q x (fw_tree w')"
  using tripleD [OF assms(1) _ _ assms(2)] by (auto simp: crash_hist_def)

text \<open>
  C3: An update of a file is atomic and not lost. \<open>fs_write\<close>, \<open>fs_edit\<close> and \<open>fs_patch\<close> implement the
  abstract update of one file: whichever calls fail and wherever a crash happens, every tree there
  was holds the old or the complete new file, with nothing else changed but new directories on its
  path and the temporary file beside it; a call that fails leaves the file as it was; a call
  that succeeds has replaced exactly the version whose hash was given, returned the size and the
  hash of the new content, and left no temporary file.
\<close>

theorem file_update_atomic:
  assumes "roots_ready c t0" "policy_resolve (tree_lstat t0) (tree_real t0) (fc_roots c) input = Inr p"
    "canonical t0 p = Inr cp" "run_update c input u (start_fs t0) = (res, w')"
  shows "(\<forall>t \<in> set (fw_history w'). \<exists>new. spec_update c u (node_at t0 cp) = Some new \<and> update_ok c t0 p cp new t)
    \<and> (case res of
         Inl e \<Rightarrow> node_at (fw_tree w') cp = node_at t0 cp
       | Inr (n, h) \<Rightarrow> \<exists>b m. spec_update c u (node_at t0 cp) = Some (FileNode b m)
           \<and> node_at (fw_tree w') cp = Some (FileNode b m) \<and> n = length b \<and> h = fc_sha c b
           \<and> node_at (fw_tree w') (temp_entry c p cp) = None)"
proof -
  note D = run_tripleD [OF update_triple [OF assms(1) resolved_canonical [OF assms(1-3)] assms(2)] assms(4)]
  show ?thesis using D
    by (cases res) (auto simp: updating_def updated_def not_updated_def split: option.splits)
qed

definition demo_fs :: fs_config where
  "demo_fs = \<lparr>fc_roots = [[''w'']], fc_maxReadBytes = 100, fc_maxWriteBytes = 100, fc_maxDirectoryEntries = 10,
     fc_sha = (\<lambda>b. if b = [120] then ''x'' else ''y''), fc_parse = (\<lambda>_. Inr []),
     fc_applyPatch = (\<lambda>_ _. ApplyRejects), fc_base64 = (\<lambda>_. []), fc_unbase64 = (\<lambda>_. []), fc_umask = (\<lambda>m. m),
     fc_unique = ''1'', fc_attributes = (\<lambda>_. (0, 0, [])), fc_fails = (\<lambda>_. False)\<rparr>"

definition demo_tree :: tree where
  "demo_tree = [([''w''], DirNode), ([''w'', ''a''], FileNode [120] 420), ([''s''], LinkNode ''/w'')]"

lemma demo_ready: "roots_ready demo_fs demo_tree"
  by code_simp

theorem file_update_atomic_witness:
  "node_at (fw_tree (snd (run_update demo_fs ''a'' (UEdit [120] [121] False (Some ''x'')) (start_fs demo_tree)))) [''w'', ''a'']
     = Some (FileNode [121] 420)"
proof -
  let ?u = "UEdit [120] [121] False (Some ''x'')"
  have "policy_resolve (tree_lstat demo_tree) (tree_real demo_tree) (fc_roots demo_fs) ''a'' = Inr [''w'', ''a'']"
    "canonical demo_tree [''w'', ''a''] = Inr [''w'', ''a'']" by code_simp+
  note D = file_update_atomic [OF demo_ready this, of ?u]
  have r: "fst (run_update demo_fs ''a'' ?u (start_fs demo_tree)) = Inr (1, ''y'')" by code_simp
  have s: "spec_update demo_fs ?u (node_at demo_tree [''w'', ''a'']) = Some (FileNode [121] 420)" by code_simp
  obtain res w' where e: "run_update demo_fs ''a'' ?u (start_fs demo_tree) = (res, w')" by fastforce
  from D [OF e] r s show ?thesis by (simp add: e del: run_update.simps spec_update.simps)
qed

section \<open>Texts of an edit\<close>

lemma index_of_split:
  "index_of search xs = Some i \<Longrightarrow> xs = take i xs @ search @ drop (i + length search) xs"
proof (induction xs arbitrary: i)
  case (Cons x xs)
  show ?case
  proof (cases "take (length search) (x # xs) = search")
    case True
    with Cons.prems have "i = 0" by simp
    with True show ?thesis by (metis add_0 append_Nil append_take_drop_id take_0)
  next
    case False
    with Cons show ?thesis by (auto split: if_splits)
  qed
qed (auto split: if_splits)

lemma index_of_first: "index_of search xs = Some i \<Longrightarrow> search \<noteq> [] \<Longrightarrow> index_of search (take i xs) = None"
proof (induction xs arbitrary: i)
  case (Cons x xs)
  show ?case
  proof (cases "take (length search) (x # xs) = search")
    case False
    with Cons.prems obtain j where j: "i = Suc j" "index_of search xs = Some j" by (auto split: if_splits)
    have "take (length search) (x # take j xs) \<noteq> search"
    proof
      assume a: "take (length search) (x # take j xs) = search"
      then have "length search \<le> length (x # take j xs)"
        by (metis length_take min.cobounded1 min.commute)
      then have "take (length search) (x # take j xs) = take (length search) (take (Suc j) (x # xs))"
        "length search \<le> Suc j" by simp_all
      with a False show False by (simp only: take_take min_absorb1)
    qed
    with Cons.IH [OF j(2) Cons.prems(2)] j(1) show ?thesis by simp
  qed (use Cons.prems in auto)
qed simp

lemma split_text_hd: "index_of search source = Some i \<Longrightarrow> search \<noteq> [] \<Longrightarrow>
    split_text source search = take i source # split_text (drop (i + length search) source) search"
  by (simp add: split_text.simps [of source])

lemma split_text_not_Nil [simp]: "split_text source search \<noteq> []"
  by (simp add: split_text.simps [of source] split: option.split)

lemma join_with_Cons: "ps \<noteq> [] \<Longrightarrow> join_with sep (p # ps) = p @ sep @ join_with sep ps"
  by (cases ps) simp_all

text \<open>
  An edit replaces the occurrences of the text that it counted, and nothing else. The source is
  a sequence of parts without the text, joined by it, one more than the occurrences counted; with
  \<open>replaceAll\<close> the result is the parts joined by the new text, otherwise only the first occurrence is
  replaced.
\<close>

theorem edit_replaces_occurrences:
  assumes "search \<noteq> []"
  shows "join_with search (split_text source search) = source
    \<and> length (split_text source search) = Suc (countOccurrences source search)
    \<and> list_all (\<lambda>part. index_of search part = None) (split_text source search)
    \<and> edit_text source search new True = join_with new (split_text source search)
    \<and> (countOccurrences source search > 0 \<longrightarrow> edit_text source search new False
        = hd (split_text source search) @ new @ join_with search (tl (split_text source search)))"
  using assms
proof (induction source search rule: split_text.induct)
  case (1 source search)
  show ?case
  proof (cases "index_of search source")
    case None
    then show ?thesis using "1.prems"
      by (simp add: split_text.simps [of source] countOccurrences.simps [of source] edit_text_def)
  next
    case (Some i)
    note IH = "1.IH" [OF "1.prems" Some "1.prems"] and s = split_text_hd [OF Some "1.prems"]
    have c: "countOccurrences source search = Suc (countOccurrences (drop (i + length search) source) search)"
      using Some "1.prems" by (simp add: countOccurrences.simps [of source])
    show ?thesis
      using IH index_of_split [OF Some] index_of_first [OF Some "1.prems"] Some
      by (simp add: s c join_with_Cons edit_text_def replace_first_def)
  qed
qed

theorem edit_replaces_occurrences_witness:
  "edit_text [1::nat, 2, 1, 3] [1] [7, 7] True = join_with [7, 7] (split_text [1, 2, 1, 3] [1])"
  using edit_replaces_occurrences [of "[1]" "[1::nat, 2, 1, 3]" "[7, 7]"] by simp

section \<open>Reading several files\<close>

fun batch_bytes :: "batch_entry list \<Rightarrow> nat" where
  "batch_bytes [] = 0"
| "batch_bytes (BatchRead r # files) = byteLength (rr_content r) + batch_bytes files"
| "batch_bytes (_ # files) = batch_bytes files"

lemma read_each_bounds:
  "read_each c entries budget w = (res, w') \<Longrightarrow>
     (\<exists>files. res = Inr files \<and> length files = length entries \<and> batch_bytes files \<le> budget)"
proof (induction entries arbitrary: budget w res w')
  case (Cons e entries)
  obtain path offset limit where e: "e = (path, offset, limit)" by (metis prod_cases3)
  obtain r w1 where r: "fs_read c path EncUtf8 offset limit w = (r, w1)" by fastforce
  have "\<exists>files w2. read_each c entries b w1 = (Inr files, w2) \<and> length files = length entries \<and> batch_bytes files \<le> b" for b
    using Cons.IH [of b w1] by (metis surj_pair)
  note next' = this
  show ?case
  proof (cases r)
    case (Inl x)
    with Cons.prems r e next' [of budget] show ?thesis by (auto simp: and_then_def ret_def)
  next
    case (Inr x)
    with Cons.prems r e next' [of budget] next' [of "budget - byteLength (rr_content x)"]
    show ?thesis by (auto simp: and_then_def ret_def Let_def split: if_splits)
  qed
qed (simp add: ret_def)

text \<open>
  Reading several files never fails because of one of them, and is bounded: the call answers for
  every file asked for, at most 20, and all the contents together fit the read limit of one file.
\<close>

theorem readMany_bounded:
  assumes "entries \<noteq> []" "length entries \<le> 20" "fs_readMany c entries w = (res, w')"
  shows "\<exists>files. res = Inr files \<and> length files = length entries \<and> batch_bytes files \<le> fc_maxReadBytes c"
  using assms read_each_bounds [of c entries "fc_maxReadBytes c" w]
  by (simp add: fs_readMany_def MAX_BATCH_READ_FILES_def)

theorem readMany_bounded_witness:
  "\<exists>files. fst (fs_readMany demo_fs [(''a'', None, None), (''b'', None, None)] (start_fs demo_tree)) = Inr files
     \<and> length files = 2 \<and> batch_bytes files \<le> fc_maxReadBytes demo_fs"
  using readMany_bounded [of "[(''a'', None, None), (''b'', None, None)]" demo_fs "start_fs demo_tree"
      "fst (fs_readMany demo_fs [(''a'', None, None), (''b'', None, None)] (start_fs demo_tree))"]
  by (simp add: prod_eq_iff numeral_2_eq_2)

end
