(* ===== verification/File_Confinement.thy ===== *)
theory File_Confinement
  imports File_Guarantees
begin

text \<open>
  All operations of the file service that change the tree: under every pattern of failing calls the
  tree stays a tree, nothing outside the allowed roots changes, and no entry goes away but the one that a
  checked move or removal names. The two ways around the roots
  that the service leaves open, moving a symbolic link and removing a root through an alias, are
  theorems of their own.
\<close>

datatype fs_change =
    Update string file_update
  | Move string string "string option"
  | Remove string "string option" bool
  | MakeDirectory string

fun run_change :: "fs_config \<Rightarrow> fs_change \<Rightarrow> unit fs_m" where
  "run_change c (Update input u) = and_then (run_update c input u) (\<lambda>_. ret ())"
| "run_change c (Move source destination expected) =
     and_then (fs_move c source destination expected) (\<lambda>_. ret ())"
| "run_change c (Remove input expected recursive) = and_then (fs_remove c input expected recursive) (\<lambda>_. ret ())"
| "run_change c (MakeDirectory input) = and_then (fs_makeDirectory c input) (\<lambda>_. ret ())"

text \<open>The change does not move a symbolic link.\<close>

fun moves_no_link :: "fs_config \<Rightarrow> tree \<Rightarrow> fs_change \<Rightarrow> bool" where
  "moves_no_link c t (Move source destination expected) \<longleftrightarrow>
     (case policy_resolve (tree_lstat t) (tree_real t) (fc_roots c) source of
        Inl _ \<Rightarrow> True
      | Inr p \<Rightarrow> (case found t p of Inr (LinkNode target) \<Rightarrow> False | _ \<Rightarrow> True))"
| "moves_no_link c t _ \<longleftrightarrow> True"

text \<open>A tree on the way: well-formed, and changed inside the roots only if \<open>b\<close>.\<close>

definition kept :: "fs_config \<Rightarrow> tree \<Rightarrow> bool \<Rightarrow> tree \<Rightarrow> bool" where
  "kept c t0 b t \<longleftrightarrow> wf_tree t \<and> (b \<longrightarrow> confined c t0 t)"

abbreviation kept_triple :: "fs_config \<Rightarrow> tree \<Rightarrow> bool \<Rightarrow> 'a fs_m \<Rightarrow> bool" where
  "kept_triple c t0 b m \<equiv> ftriple (kept c t0 b) (\<lambda>t. t = t0) m (\<lambda>_. kept c t0 b) (kept c t0 b)"

lemma kept_start: "roots_ready c t0 \<Longrightarrow> kept c t0 b t0"
  by (simp add: kept_def roots_ready_def confined_def)

lemma kept_discard: "kept_triple c t0 b m \<Longrightarrow> kept_triple c t0 b (and_then m (\<lambda>x. ret (f x)))"
  by (rule triple_and_then [OF _ triple_ret])

lemma on_the_way_kept: "on_the_way c t0 p cp q0 K t \<Longrightarrow> kept c t0 b t"
  by (auto simp: on_the_way_def kept_def confined_def)

lemma on_the_way_start:
  assumes "roots_ready c t0" "cleared c t0 p cp" "\<And>e. entry_of t0 p = Inr e \<Longrightarrow> K (node_at t0 e)"
  shows "on_the_way c t0 p cp q0 K t0"
  using assms by (auto simp: on_the_way_def roots_ready_def cleared_def extends_def)

lemma kept_resolve:
  assumes "roots_ready c t0" "\<And>p cp. cleared c t0 p cp \<Longrightarrow>
    policy_resolve (tree_lstat t0) (tree_real t0) (fc_roots c) input = Inr p \<Longrightarrow> kept_triple c t0 b (k p)"
  shows "kept_triple c t0 b (and_then (resolve_input c input) k)"
  by (rule resolve_here) (use assms(2) kept_start [OF assms(1)] resolve_cleared [OF assms(1)] in blast)+

section \<open>Updates and new directories\<close>

definition kept_run :: "fs_config \<Rightarrow> tree \<Rightarrow> bool \<Rightarrow> 'a fs_m \<Rightarrow> bool" where
  "kept_run c t0 b m \<longleftrightarrow> (\<forall>res w'. m (start_fs t0) = (res, w') \<longrightarrow>
     (\<forall>t \<in> set (fw_history w'). kept c t0 b t) \<and> kept c t0 b (fw_tree w'))"

lemma kept_runI:
  assumes "kept_triple c t0 b m"
  shows "kept_run c t0 b m"
  unfolding kept_run_def
proof (intro allI impI)
  fix res w' assume "m (start_fs t0) = (res, w')"
  from run_tripleD [OF assms this]
  show "(\<forall>t \<in> set (fw_history w'). kept c t0 b t) \<and> kept c t0 b (fw_tree w')" by (cases res) auto
qed

lemma kept_raise: "roots_ready c t0 \<Longrightarrow> kept_triple c t0 b (raise e)"
  by (rule raise_here) (rule kept_start)

lemma kept_unresolved:
  assumes "roots_ready c t0" "policy_resolve (tree_lstat t0) (tree_real t0) (fc_roots c) input = Inl e"
  shows "kept_triple c t0 b (and_then (resolve_input c input) k)"
  by (rule kept_resolve [OF assms(1)]) (simp add: assms(2))

lemma update_unresolved:
  assumes "roots_ready c t0" "policy_resolve (tree_lstat t0) (tree_real t0) (fc_roots c) input = Inl e"
  shows "kept_triple c t0 b (run_update c input u)"
proof (cases u)
  case (UWrite content encoding expected)
  show ?thesis unfolding UWrite run_update.simps
    by (rule kept_discard) (unfold fs_write_def, rule kept_unresolved [OF assms])
next
  case (UEdit oldString newString replaceAll expected)
  show ?thesis unfolding UEdit run_update.simps
    by (rule kept_discard) (unfold fs_edit_def, intro triple_if kept_raise [OF assms(1)] kept_unresolved [OF assms])
next
  case (UPatch patchText expected)
  show ?thesis unfolding UPatch run_update.simps
    by (rule kept_discard) (unfold fs_patch_def, rule kept_unresolved [OF assms])
qed

lemma update_kept:
  assumes ready: "roots_ready c t0"
  shows "kept_run c t0 b (run_update c input u)"
proof (cases "policy_resolve (tree_lstat t0) (tree_real t0) (fc_roots c) input")
  case (Inr p)
  from resolve_cleared [OF ready this] obtain cp where p: "cleared c t0 p cp" by blast
  have R: "kept c t0 b t" if "updating c t0 p cp u t" for t
    using that by (auto simp: updating_def update_ok_def kept_def confined_def split: option.splits)
  have N: "kept c t0 b t" if "not_updated c t0 p cp u t" for t
    using that R kept_start [OF ready] by (auto simp: not_updated_def)
  show ?thesis unfolding kept_run_def
  proof (intro allI impI)
    fix res w' assume "run_update c input u (start_fs t0) = (res, w')"
    from run_tripleD [OF update_triple [OF ready p Inr] this] R N
    show "(\<forall>t \<in> set (fw_history w'). kept c t0 b t) \<and> kept c t0 b (fw_tree w')"
      by (cases res) (auto simp: updated_def)
  qed
qed (rule kept_runI [OF update_unresolved [OF ready]])

lemma makeDirectory_kept:
  assumes ready: "roots_ready c t0"
  shows "kept_triple c t0 b (fs_makeDirectory c input)"
  unfolding fs_makeDirectory_def
proof (rule kept_resolve [OF ready], rule kept_discard)
  fix p cp assume p: "cleared c t0 p cp"
  have "ftriple (kept c t0 b) (on_the_way c t0 p cp p (\<lambda>_. True)) (sys_mkdir_p c p)
      (\<lambda>_. on_the_way c t0 p cp p (\<lambda>_. True)) (on_the_way c t0 p cp p (\<lambda>_. True))"
    by (rule mkdir_p_triple [OF ready]) (use p in \<open>auto simp: cleared_def intro: on_the_way_kept\<close>)
  then show "kept_triple c t0 b (sys_mkdir_p c p)"
    by (rule triple_conseq) (use p in \<open>auto intro: on_the_way_start [OF ready] on_the_way_kept\<close>)
qed

section \<open>Removing\<close>

lemma cleared_entry:
  assumes "roots_ready c t0" "cleared c t0 p cp" "found t0 p = Inr n" "\<forall>target. n \<noteq> LinkNode target"
  shows "entry_of t0 p = Inr cp" "node_at t0 cp = Some n"
proof -
  have "wf_tree t0" using assms(1) by (simp add: roots_ready_def)
  then obtain e where "entry_of t0 p = Inr e" "canonical t0 p = Inr e" "node_at t0 e = Some n"
    using assms(3,4) by (rule found_entry)
  with assms(2) show "entry_of t0 p = Inr cp" "node_at t0 cp = Some n" by (auto simp: cleared_def)
qed

lemma del_kept:
  assumes "kept c t0 b t" "allowed_at c t0 e" "\<And>x. node_at t (e @ [x]) = None"
  shows "kept c t0 b (del_node e t)"
  using assms wf_del_node [of t e] by (auto simp: kept_def confined_def)

lemma unlink_kept:
  assumes ready: "roots_ready c t0" and p: "cleared c t0 p cp" and f: "found t0 p = Inr (FileNode content m)"
  shows "kept_triple c t0 b (sys_unlink c p)"
  unfolding sys_unlink_def
proof (rule triple_changing)
  note e = cleared_entry [OF ready p f, simplified]
  fix t x t' assume "t = t0" "unlink_at p t = Inr (x, Some t')"
  then have t': "t' = del_node cp t0" by (simp add: unlink_at_def e)
  have "node_at t0 (cp @ [y]) = None" for y
    using wf_treeD(2) [of t0 "cp @ [y]"] ready e by (cases "node_at t0 (cp @ [y])") (auto simp: roots_ready_def)
  then show "kept c t0 b t' \<and> kept c t0 b t'"
    unfolding t' using del_kept [OF kept_start [OF ready]] p by (simp add: cleared_def)
qed (use kept_start [OF ready] in simp_all)

lemma rm_kept:
  assumes ready: "roots_ready c t0" and p: "cleared c t0 p cp" and f: "found t0 p = Inr DirNode"
  shows "kept_triple c t0 b (sys_rm_recursive c p)"
  unfolding sys_rm_recursive_def
proof (rule reading_here)
  note e = cleared_entry [OF ready p f, simplified]
  fix xs assume "rm_list p t0 = Inr xs"
  then have xs: "xs = rev (sort_key length (filter (prefix cp) (map fst t0)))"
    by (simp add: rm_list_def e)
  have wf: "wf_tree t0" using ready by (simp add: roots_ready_def)
  have mem: "x \<in> set xs \<longleftrightarrow> prefix cp x \<and> x \<in> fst ` set t0" for x by (auto simp: xs)
  let ?I = "\<lambda>rest t. kept c t0 b t \<and> (\<forall>q. prefix cp q \<and> q \<noteq> [] \<and> node_at t q \<noteq> None \<longrightarrow> q \<in> set rest)"
  have "ftriple (kept c t0 b) (?I xs) (each (\<lambda>e. changing c (\<lambda>t. Inr ((), Some (del_node e t)))) xs)
      (\<lambda>_. ?I []) (kept c t0 b)"
  proof (rule triple_each)
    fix x finished rest assume split: "xs = finished @ x # rest"
    have "sorted_wrt (\<lambda>y z. length z \<le> length y) xs"
      using sorted_sort_key [of length "filter (prefix cp) (map fst t0)"]
      by (simp add: xs sorted_wrt_rev sorted_map)
    then have le: "length y \<le> length x" if "y \<in> set rest" for y using that split by (simp add: sorted_wrt_append)
    have x: "prefix cp x" "x \<noteq> []"
      using mem [of x] split wf by (auto simp: wf_tree_def list_all_iff)
    then have al: "allowed_at c t0 x" using allowed_below p by (auto simp: cleared_def)
    show "ftriple (kept c t0 b) (?I (x # rest)) (changing c (\<lambda>t. Inr ((), Some (del_node x t)))) (\<lambda>_. ?I rest) (kept c t0 b)"
    proof (rule triple_changing)
      fix t u t' assume I: "?I (x # rest) t" and "Inr ((), Some (del_node x t)) = (Inr (u, Some t') :: errno + unit \<times> tree option)"
      then have t': "t' = del_node x t" by simp
      have "node_at t (x @ [y]) = None" for y
      proof (rule ccontr)
        assume "node_at t (x @ [y]) \<noteq> None"
        moreover have "prefix cp (x @ [y])" using x(1) by (rule prefix_prefix)
        ultimately have "x @ [y] \<in> set (x # rest)" using I by blast
        with le [of "x @ [y]"] show False by simp
      qed
      then have "kept c t0 b t'" unfolding t' using I al by (intro del_kept) simp_all
      then show "kept c t0 b t' \<and> ?I rest t'" using I x by (auto simp: t')
    qed auto
  qed
  then show "kept_triple c t0 b (each (\<lambda>e. changing c (\<lambda>t. Inr ((), Some (del_node e t)))) xs)"
  proof (rule triple_conseq)
    have "q \<in> set xs" if "prefix cp q" "q \<noteq> []" "node_at t0 q \<noteq> None" for q
      using that by (auto simp: mem node_at_def dest: find_key_SomeD)
    then show "?I xs t" if "t = t0" for t using that kept_start [OF ready] by simp
  qed auto
qed (rule kept_start [OF ready])

lemma remove_kept:
  assumes ready: "roots_ready c t0"
  shows "kept_triple c t0 b (fs_remove c input expected recursive)"
  unfolding fs_remove_def
proof (rule kept_resolve [OF ready])
  fix p cp assume p: "cleared c t0 p cp"
  have wf: "wf_tree t0" using ready by (simp add: roots_ready_def)
  note raise = kept_raise [OF ready]
  show "kept_triple c t0 b (if p \<in> set (fc_roots c) then raise FsPolicy
    else and_then (sys_lstat c p) (\<lambda>info. and_then
      (case info of
         FileNode b m \<Rightarrow> and_then (verifyExpectedHash c p expected) (\<lambda>_. sys_unlink c p)
       | DirNode \<Rightarrow> if \<not> recursive then raise FsPolicy else sys_rm_recursive c p
       | _ \<Rightarrow> raise FsPolicy) (\<lambda>_. ret (display c p))))"
  proof (intro triple_if raise, rule lstat_here)
    fix n assume n: "found t0 p = Inr n"
    show "kept_triple c t0 b (and_then
      (case n of
         FileNode b m \<Rightarrow> and_then (verifyExpectedHash c p expected) (\<lambda>_. sys_unlink c p)
       | DirNode \<Rightarrow> if \<not> recursive then raise FsPolicy else sys_rm_recursive c p
       | _ \<Rightarrow> raise FsPolicy) (\<lambda>_. ret (display c p)))"
    proof (rule kept_discard, cases n)
      case (FileNode content m)
      with n have f: "found t0 p = Inr (FileNode content m)" by simp
      show "kept_triple c t0 b (case n of
         FileNode b m \<Rightarrow> and_then (verifyExpectedHash c p expected) (\<lambda>_. sys_unlink c p)
       | DirNode \<Rightarrow> if \<not> recursive then raise FsPolicy else sys_rm_recursive c p
       | _ \<Rightarrow> raise FsPolicy)"
        unfolding FileNode inode.case
        by (rule verify_here [OF wf]) (simp_all add: kept_start [OF ready] unlink_kept [OF ready p f] f)
    qed (use n in \<open>simp_all add: raise rm_kept [OF ready p]\<close>)
  qed (rule kept_start [OF ready])
qed

section \<open>Moving\<close>

text \<open>New directories do not change where an existing entry is.\<close>

lemma entry_extends:
  assumes "wf_tree t" "wf_tree t'" "extends t t'" "norm_path p" "entry_of t p = Inr e"
  shows "entry_of t' p = Inr e"
proof (cases p rule: rev_cases)
  case Nil
  then show ?thesis using assms(5) by (simp add: entry_of_def)
next
  case (snoc q x)
  have x: "norm_path [x]" using assms(4) snoc by simp
  obtain d where d: "target_of t q = Inr d" "node_at t d = Some DirNode" "e = d @ [x]"
    by (rule entry_last [OF assms(1) x assms(5) [unfolded snoc]])
  have "target_of t' q = Inr d"
    using walk_extends [OF assms(1) node_at_Nil d(1) [unfolded target_of_def] d(2) assms(3)] by (simp add: target_of_def)
  from entry_in_dir [OF assms(2) x this extendsD(1) [OF assms(3) d(2)]] show ?thesis by (simp add: snoc d(3))
qed

lemma rename_kept:
  assumes ready: "roots_ready c t0" and p: "cleared c t0 p cp" and d: "cleared c t0 d cd"
    and M: "on_the_way c t0 d cd (butlast d) (\<lambda>n. n = None) t"
    and source: "b \<longrightarrow> entry_of t0 p = Inr cp" and f: "rename_at p d t = Inr (x, Some t')"
  shows "kept c t0 b t'"
proof -
  have t: "wf_tree t" "extends t0 t" "canonical t d = Inr cd" "wf_tree t0"
    using M ready by (simp_all add: on_the_way_def roots_ready_def)
  obtain a e where e: "entry_of t p = Inr a" "entry_of t d = Inr e" "rename_refused t a e = None" "a \<noteq> e"
    "t' = move_below a e t"
    using f by (auto simp: rename_at_def bind_res_Inr_iff split: option.splits if_splits)
  have none: "node_at t e = None" using M e(2) by (simp add: on_the_way_def)
  have d': "norm_path d" using d by (simp add: cleared_def)
  have cd: "cd = e" and ph: "physical t e"
    using create_step(1,2) [OF t(1) d' t(3) _ e(2) none] by simp_all
  have a: "node_at t a \<noteq> None" "node_at t a = Some DirNode \<Longrightarrow> \<not> strict_prefix a e"
    using e(3) by (auto simp: rename_refused_def split: option.splits)
  have ae: "\<not> prefix a e"
    using a(2) e(4) ph by (auto simp: physical_def strict_prefix_def)
  have ea: "\<not> prefix e a"
    using existing_physical [OF t(1) a(1)] none e(4) by (auto simp: physical_def strict_prefix_def)
  have "e \<noteq> []" using none by auto
  moreover have "butlast e \<noteq> e" using \<open>e \<noteq> []\<close> by (metis append_butlast_last_id append_self_conv not_Cons_self2)
  then have "norm_path e" "node_at t (butlast e) = Some DirNode"
    using ph by (simp_all add: physical_def strict_prefix_def prefixeq_butlast)
  ultimately have wf: "wf_tree t'" unfolding e(5) using ae ea by (intro wf_move_below t(1)) auto
  have "confined c t0 t'" if b
  proof -
    have "entry_of t p = Inr cp"
      using entry_extends [OF t(4,1,2)] source that p by (simp add: cleared_def)
    then have "a = cp" using e(1) by simp
    then have al: "allowed_at c t0 q" if "prefix a q \<or> prefix e q" for q
      using that p d cd allowed_below by (auto simp: cleared_def)
    have "allowed_at c t0 q" if "node_at t' q \<noteq> node_at t0 q" for q
    proof (cases "prefix a q \<or> prefix e q")
      case False
      then have "node_at t' q = node_at t q" by (simp add: e(5) node_at_move_other)
      with that M show ?thesis by (auto simp: on_the_way_def)
    qed (rule al)
    then show ?thesis by (simp add: confined_def)
  qed
  with wf show ?thesis by (simp add: kept_def)
qed

lemma move_kept:
  assumes ready: "roots_ready c t0"
    and b: "b \<longrightarrow> moves_no_link c t0 (Move source destination expected)"
  shows "kept_triple c t0 b (fs_move c source destination expected)"
  unfolding fs_move_def
proof (rule kept_resolve [OF ready], rule kept_resolve [OF ready], rule lstat_here)
  fix p cp d cd n
  assume p: "cleared c t0 p cp" "policy_resolve (tree_lstat t0) (tree_real t0) (fc_roots c) source = Inr p"
    and d: "cleared c t0 d cd" and n: "found t0 p = Inr n"
  have wf: "wf_tree t0" using ready by (simp add: roots_ready_def)
  have src: "b \<longrightarrow> entry_of t0 p = Inr cp"
  proof
    assume b
    with b p(2) n have "\<forall>target. n \<noteq> LinkNode target" by auto
    from cleared_entry(1) [OF ready p(1) n this] show "entry_of t0 p = Inr cp" .
  qed
  let ?M = "on_the_way c t0 d cd (butlast d) (\<lambda>n. n = None)"
  have go: "kept_triple c t0 b (and_then (sys_mkdir_p c (butlast d)) (\<lambda>_. and_then (sys_rename c p d) (\<lambda>_.
      ret (display c p, display c d))))" if none: "found t0 d = Inl ENOENT"
  proof (rule triple_and_then)
    have "d \<noteq> []" using none found_Nil by auto
    then have "butlast d \<noteq> d" by (metis append_butlast_last_id append_self_conv not_Cons_self2)
    then have mk: "ftriple (kept c t0 b) ?M (sys_mkdir_p c (butlast d)) (\<lambda>_. ?M) ?M"
      using d by (intro mkdir_p_triple [OF ready]) (auto simp: cleared_def prefixeq_butlast intro: on_the_way_kept)
    have M0: "?M t0" by (rule on_the_way_start [OF ready d]) (rule found_missing [OF none])
    show "ftriple (kept c t0 b) (\<lambda>t. t = t0) (sys_mkdir_p c (butlast d)) (\<lambda>_. ?M) (kept c t0 b)"
      by (rule triple_conseq [OF mk]) (simp_all add: M0 on_the_way_kept)
    show "ftriple (kept c t0 b) ?M (and_then (sys_rename c p d) (\<lambda>_. ret (display c p, display c d)))
        (\<lambda>_. kept c t0 b) (kept c t0 b)" for x :: unit
      unfolding sys_rename_def
      by (rule triple_and_then [OF triple_changing [where Q = "\<lambda>_. kept c t0 b"] triple_ret])
        (use rename_kept [OF ready p(1) d _ src] on_the_way_kept in blast)+
  qed
  show "kept_triple c t0 b (and_then
      (if is_file n then and_then (verifyExpectedHash c p expected) (\<lambda>_. ret ()) else ret ()) (\<lambda>_.
    and_then (file_exists c d) (\<lambda>present.
      if present then raise FsConflict
      else and_then (sys_mkdir_p c (butlast d)) (\<lambda>_. and_then (sys_rename c p d) (\<lambda>_.
        ret (display c p, display c d))))))"
  proof (rule triple_and_then)
    show "ftriple (kept c t0 b) (\<lambda>t. t = t0)
        (if is_file n then and_then (verifyExpectedHash c p expected) (\<lambda>_. ret ()) else ret ())
        (\<lambda>_ t. t = t0) (kept c t0 b)"
      by (intro triple_if verify_here [OF wf] triple_ret kept_start [OF ready])
    show "kept_triple c t0 b (and_then (file_exists c d) (\<lambda>present.
      if present then raise FsConflict
      else and_then (sys_mkdir_p c (butlast d)) (\<lambda>_. and_then (sys_rename c p d) (\<lambda>_.
        ret (display c p, display c d)))))" for x :: unit
      by (rule exists_here) (simp_all add: kept_start [OF ready] kept_raise [OF ready] go)
  qed
qed (rule kept_start [OF ready])

section \<open>What every operation keeps\<close>

lemma kept_run_discard:
  assumes "kept_run c t0 b m"
  shows "kept_run c t0 b (and_then m (\<lambda>_. ret x))"
  unfolding kept_run_def
proof (intro allI impI)
  fix res w' assume e: "and_then m (\<lambda>_. ret x) (start_fs t0) = (res, w')"
  obtain r w1 where m: "m (start_fs t0) = (r, w1)" by fastforce
  with e have "w' = w1" by (cases r) (simp_all add: and_then_def ret_def)
  with assms m show "(\<forall>t \<in> set (fw_history w'). kept c t0 b t) \<and> kept c t0 b (fw_tree w')"
    by (simp add: kept_run_def)
qed

lemma change_kept:
  assumes ready: "roots_ready c t0" and b: "b \<longrightarrow> moves_no_link c t0 u"
  shows "kept_run c t0 b (run_change c u)"
  using b kept_runI [OF kept_discard [OF move_kept [OF ready]]] kept_runI [OF kept_discard [OF remove_kept [OF ready]]]
    kept_runI [OF kept_discard [OF makeDirectory_kept [OF ready]]] kept_run_discard [OF update_kept [OF ready]]
  by (cases u) simp_all

text \<open>
  C4: No operation of the file service changes anything outside the allowed roots. Whichever calls
  fail and wherever a crash happens, an entry that differs from the tree at the start lies at or
  below the canonical path of a root, whatever symbolic links the tree has and whatever the input
  is. The one exception, moving a symbolic link, is excluded by the hypothesis.
\<close>

theorem changes_confined:
  assumes "roots_ready c t0" "moves_no_link c t0 u" "run_change c u (start_fs t0) = (res, w')"
  shows "\<forall>t \<in> set (fw_tree w' # fw_history w'). \<forall>q. node_at t q \<noteq> node_at t0 q \<longrightarrow>
    list_ex (\<lambda>root. case canonical t0 root of Inl _ \<Rightarrow> False | Inr cr \<Rightarrow> prefix cr q) (fc_roots c)"
proof -
  have "kept_run c t0 True (run_change c u)" using assms(2) by (intro change_kept [OF assms(1)]) simp
  then have "\<forall>t \<in> set (fw_tree w' # fw_history w'). kept c t0 True t"
    using assms(3) by (auto simp: kept_run_def)
  then show ?thesis by (simp add: kept_def confined_def allowed_at_def)
qed

section \<open>What moving and removing take away\<close>

abbreviation resolves :: "fs_config \<Rightarrow> tree \<Rightarrow> string \<Rightarrow> abspath \<Rightarrow> bool" where
  "resolves c t input p \<equiv> policy_resolve (tree_lstat t) (tree_real t) (fc_roots c) input = Inr p"

text \<open>
  The specification: the entry that a change may take away with what is below it, and what has to
  hold for that. A move needs a destination where nothing is, a removal a path that is not one of the
  roots as configured and, for a directory, \<open>recursive\<close>; a file must have the expected hash.
\<close>

fun may_take :: "fs_config \<Rightarrow> tree \<Rightarrow> fs_change \<Rightarrow> abspath \<Rightarrow> bool" where
  "may_take c t (Move source destination expected) a \<longleftrightarrow>
     (\<exists>p d. resolves c t source p \<and> resolves c t destination d \<and> entry_of t p = Inr a
        \<and> found t d = Inl ENOENT \<and> (\<forall>b m. node_at t a = Some (FileNode b m) \<longrightarrow> expected = Some (fc_sha c b)))"
| "may_take c t (Remove input expected recursive) a \<longleftrightarrow>
     (\<exists>p. resolves c t input p \<and> p \<notin> set (fc_roots c) \<and> entry_of t p = Inr a
        \<and> (case node_at t a of
             Some (FileNode b m) \<Rightarrow> expected = Some (fc_sha c b)
           | Some DirNode \<Rightarrow> recursive
           | _ \<Rightarrow> False))"
| "may_take c t _ a \<longleftrightarrow> False"

text \<open>The entry \<open>a\<close> of \<open>t0\<close> is now, with all that is below it, at a place where nothing was.\<close>

definition moved_whole :: "tree \<Rightarrow> abspath \<Rightarrow> tree \<Rightarrow> bool" where
  "moved_whole t0 a t \<longleftrightarrow>
     (\<exists>e. node_at t0 e = None \<and> (\<forall>x. node_at t (e @ x) = node_at t0 (a @ x)) \<and> (\<forall>x. node_at t (a @ x) = None))"

definition spared :: "fs_config \<Rightarrow> tree \<Rightarrow> fs_change \<Rightarrow> tree \<Rightarrow> bool" where
  "spared c t0 u t \<longleftrightarrow> (\<forall>q n. node_at t0 q = Some n \<longrightarrow> node_at t q = Some n)
     \<or> (\<exists>a. may_take c t0 u a \<and> (\<forall>q n. node_at t0 q = Some n \<and> \<not> prefix a q \<longrightarrow> node_at t q = Some n)
          \<and> (\<forall>s d e. u = Move s d e \<longrightarrow> moved_whole t0 a t))"

definition carried_out :: "fs_config \<Rightarrow> tree \<Rightarrow> fs_change \<Rightarrow> tree \<Rightarrow> bool" where
  "carried_out c t0 u t \<longleftrightarrow> (case u of
     Move s d e \<Rightarrow> \<exists>a. may_take c t0 u a \<and> moved_whole t0 a t
   | Remove i e r \<Rightarrow> \<exists>a. may_take c t0 u a \<and> (\<forall>q. prefix a q \<and> q \<noteq> [] \<longrightarrow> node_at t q = None)
   | _ \<Rightarrow> True)"

abbreviation spared_triple :: "fs_config \<Rightarrow> tree \<Rightarrow> fs_change \<Rightarrow> 'a fs_m \<Rightarrow> bool" where
  "spared_triple c t0 u m \<equiv>
     ftriple (spared c t0 u) (\<lambda>t. t = t0) m (\<lambda>_ t. spared c t0 u t \<and> carried_out c t0 u t) (spared c t0 u)"

lemma spared_start [simp]: "spared c t0 u t0"
  by (simp add: spared_def)

lemma spared_discard: "spared_triple c t0 u m \<Longrightarrow> spared_triple c t0 u (and_then m (\<lambda>x. ret (f x)))"
  by (rule triple_and_then [OF _ triple_ret])

lemma on_the_way_spared: "on_the_way c t0 p cp q0 K t \<Longrightarrow> spared c t0 u t"
  unfolding on_the_way_def spared_def by (metis option.distinct(1))

lemma makeDirectory_spared:
  assumes ready: "roots_ready c t0"
  shows "spared_triple c t0 (MakeDirectory input) (fs_makeDirectory c input)"
  unfolding fs_makeDirectory_def
proof (rule resolve_here, simp, rule spared_discard)
  fix p assume "resolves c t0 input p"
  from resolve_cleared [OF ready this] obtain cp where p: "cleared c t0 p cp" by blast
  have "ftriple (spared c t0 (MakeDirectory input)) (on_the_way c t0 p cp p (\<lambda>_. True)) (sys_mkdir_p c p)
      (\<lambda>_. on_the_way c t0 p cp p (\<lambda>_. True)) (on_the_way c t0 p cp p (\<lambda>_. True))"
    by (rule mkdir_p_triple [OF ready]) (use p in \<open>auto simp: cleared_def intro: on_the_way_spared\<close>)
  then show "spared_triple c t0 (MakeDirectory input) (sys_mkdir_p c p)"
    by (rule triple_conseq)
      (use p in \<open>auto simp: carried_out_def intro: on_the_way_start [OF ready] on_the_way_spared\<close>)
qed

text \<open>A removal of the entry \<open>a\<close>.\<close>

lemma spared_remove:
  assumes "may_take c t0 (Remove input expected recursive) a" "\<And>q. \<not> prefix a q \<Longrightarrow> node_at t q = node_at t0 q"
  shows "spared c t0 (Remove input expected recursive) t"
  using assms unfolding spared_def by fastforce

lemma unlink_spared:
  assumes wf: "wf_tree t0" and m: "may_take c t0 (Remove input expected recursive) e" "entry_of t0 p = Inr e"
    and f: "node_at t0 e = Some (FileNode b m)"
  shows "spared_triple c t0 (Remove input expected recursive) (sys_unlink c p)"
  unfolding sys_unlink_def
proof (rule triple_changing)
  fix t x t' assume "t = t0" "unlink_at p t = Inr (x, Some t')"
  then have t': "t' = del_node e t0" using m(2) f by (simp add: unlink_at_def)
  have e: "e \<noteq> []" using f by auto
  have below: "node_at t0 (e @ x) = None" if "x \<noteq> []" for x
  proof (rule ccontr)
    assume "node_at t0 (e @ x) \<noteq> None"
    from existing_physical [OF wf this] have "node_at t0 e = Some DirNode"
      using that by (auto simp: physical_def strict_prefix_def)
    with f show False by simp
  qed
  then have "node_at t' q = None" if q: "prefix e q" for q
  proof -
    from q obtain x where "q = e @ x" by (auto simp: prefix_def)
    with below [of x] e show ?thesis by (cases "x = []") (simp_all add: t')
  qed
  moreover have "node_at t' q = node_at t0 q" if "\<not> prefix e q" for q using that by (auto simp: t')
  ultimately show "spared c t0 (Remove input expected recursive) t'
      \<and> spared c t0 (Remove input expected recursive) t' \<and> carried_out c t0 (Remove input expected recursive) t'"
    using m(1) spared_remove [OF m(1)] by (auto simp: carried_out_def)
qed (use m(2) f in \<open>auto simp: unlink_at_def\<close>)

lemma rm_spared:
  assumes wf: "wf_tree t0" and m: "may_take c t0 (Remove input expected recursive) e" "entry_of t0 p = Inr e"
  shows "spared_triple c t0 (Remove input expected recursive) (sys_rm_recursive c p)"
  unfolding sys_rm_recursive_def
proof (rule reading_here, simp)
  fix xs assume "rm_list p t0 = Inr xs"
  then have xs: "set xs = {x \<in> fst ` set t0. prefix e x}"
    by (force simp: rm_list_def m(2) split: if_splits)
  let ?u = "Remove input expected recursive"
  let ?I = "\<lambda>rest t. (\<forall>q. \<not> prefix e q \<longrightarrow> node_at t q = node_at t0 q)
    \<and> (\<forall>q. prefix e q \<and> q \<noteq> [] \<and> node_at t q \<noteq> None \<longrightarrow> q \<in> set rest)"
  have "ftriple (spared c t0 ?u) (?I xs) (each (\<lambda>e. changing c (\<lambda>t. Inr ((), Some (del_node e t)))) xs)
      (\<lambda>_. ?I []) (spared c t0 ?u)"
  proof (rule triple_each)
    fix x finished rest assume split: "xs = finished @ x # rest"
    then have mem: "x \<in> fst ` set t0" "prefix e x" using xs by auto
    moreover have "x \<noteq> []" using mem(1) wf by (auto simp: wf_tree_def list_all_iff)
    ultimately have x: "prefix e x" "x \<noteq> []" by simp_all
    show "ftriple (spared c t0 ?u) (?I (x # rest)) (changing c (\<lambda>t. Inr ((), Some (del_node x t)))) (\<lambda>_. ?I rest)
        (spared c t0 ?u)"
    proof (rule triple_changing)
      fix t u t' assume I: "?I (x # rest) t" and "Inr ((), Some (del_node x t)) = (Inr (u, Some t') :: errno + unit \<times> tree option)"
      then have "?I rest t'" using x by (auto split: if_splits)
      then show "spared c t0 ?u t' \<and> ?I rest t'" using spared_remove [OF m(1)] by blast
    qed (use spared_remove [OF m(1)] in auto)
  qed
  then show "spared_triple c t0 ?u (each (\<lambda>e. changing c (\<lambda>t. Inr ((), Some (del_node e t)))) xs)"
  proof (rule triple_conseq)
    have "q \<in> set xs" if "prefix e q" "q \<noteq> []" "node_at t0 q \<noteq> None" for q
      using that unfolding xs by (auto simp: node_at_def dest: find_key_SomeD split: if_splits)
    then show "?I xs t" if "t = t0" for t using that by simp
    show "spared c t0 ?u t \<and> carried_out c t0 ?u t" if "?I [] t" for t
      using that spared_remove [OF m(1)] m(1) by (auto simp: carried_out_def)
  qed auto
qed

lemma remove_spared:
  assumes ready: "roots_ready c t0"
  shows "spared_triple c t0 (Remove input expected recursive) (fs_remove c input expected recursive)"
  unfolding fs_remove_def
proof (rule resolve_here, simp)
  fix p assume p: "resolves c t0 input p"
  let ?u = "Remove input expected recursive"
  have wf: "wf_tree t0" using ready by (simp add: roots_ready_def)
  have raise: "spared_triple c t0 ?u (raise e)" for e by (rule raise_here) simp
  show "spared_triple c t0 ?u (if p \<in> set (fc_roots c) then raise FsPolicy
    else and_then (sys_lstat c p) (\<lambda>info. and_then
      (case info of
         FileNode b m \<Rightarrow> and_then (verifyExpectedHash c p expected) (\<lambda>_. sys_unlink c p)
       | DirNode \<Rightarrow> if \<not> recursive then raise FsPolicy else sys_rm_recursive c p
       | _ \<Rightarrow> raise FsPolicy) (\<lambda>_. ret (display c p))))"
  proof (cases "p \<in> set (fc_roots c)")
    case False
    show ?thesis unfolding if_not_P [OF False]
    proof (rule lstat_here, simp, rule spared_discard)
      fix n assume "found t0 p = Inr n"
      then obtain e where e: "entry_of t0 p = Inr e" "node_at t0 e = Some n" by (auto simp: found_def node_of_Inr)
      show "spared_triple c t0 ?u (case n of
         FileNode b m \<Rightarrow> and_then (verifyExpectedHash c p expected) (\<lambda>_. sys_unlink c p)
       | DirNode \<Rightarrow> if \<not> recursive then raise FsPolicy else sys_rm_recursive c p
       | _ \<Rightarrow> raise FsPolicy)"
      proof (cases n)
        case (FileNode content mode)
        have f: "found t0 p = Inr (FileNode content mode)" using e FileNode by (simp add: found_def node_of_def)
        show ?thesis unfolding FileNode inode.case
        proof (rule verify_here [OF wf], simp)
          fix b m assume "found t0 p = Inr (FileNode b m)" "expected = Some (fc_sha c b)"
          with f have "expected = Some (fc_sha c content)" by simp
          with p False e FileNode have "may_take c t0 ?u e" by auto
          from unlink_spared [OF wf this e(1)] e(2) FileNode show "spared_triple c t0 ?u (sys_unlink c p)" by blast
        qed (simp add: f)
      next
        case DirNode
        show ?thesis
        proof (cases recursive)
          case True
          from p False e DirNode True have "may_take c t0 ?u e" by auto
          from rm_spared [OF wf this e(1)] DirNode True show ?thesis by simp
        next
          case False
          show ?thesis unfolding DirNode inode.case if_P [OF False] by (rule raise)
        qed
      qed (simp_all add: raise)
    qed
  qed (simp add: raise)
qed

lemma rename_spared:
  assumes ready: "roots_ready c t0" and p: "cleared c t0 p cp" and d: "cleared c t0 d cd"
    and take: "may_take c t0 (Move source destination expected) a" "entry_of t0 p = Inr a"
    and M: "on_the_way c t0 d cd (butlast d) (\<lambda>n. n = None) t" and f: "rename_at p d t = Inr (x, Some t')"
  shows "spared c t0 (Move source destination expected) t' \<and> carried_out c t0 (Move source destination expected) t'"
proof -
  have t: "wf_tree t" "extends t0 t" "canonical t d = Inr cd" "wf_tree t0"
    using M ready by (simp_all add: on_the_way_def roots_ready_def)
  have "entry_of t p = Inr a"
    using entry_extends [OF t(4,1,2) _ take(2)] p by (simp add: cleared_def)
  then obtain e where e: "entry_of t d = Inr e" "rename_refused t a e = None" "a \<noteq> e" "t' = move_below a e t"
    using f by (auto simp: rename_at_def bind_res_Inr_iff split: option.splits if_splits)
  have none: "node_at t e = None" using M e(1) by (simp add: on_the_way_def)
  have old: "node_at t q = Some n" if "node_at t0 q = Some n" for q n
    using that M unfolding on_the_way_def by (metis option.distinct(1))
  have none0: "node_at t0 e = None" using none old [of e] by (cases "node_at t0 e") auto
  have d': "norm_path d" using d by (simp add: cleared_def)
  have cd: "cd = e" and ph: "physical t e"
    using create_step(1,2) [OF t(1) d' t(3) _ e(1) none] by simp_all
  have at: "node_at t a \<noteq> None" "node_at t a = Some DirNode \<Longrightarrow> \<not> strict_prefix a e"
    using e(2) by (auto simp: rename_refused_def split: option.splits)
  have ae: "\<not> prefix a e" using at(2) e(3) ph by (auto simp: physical_def strict_prefix_def)
  have below: "node_at t q = None" if "prefix e q" for q
  proof (rule ccontr)
    assume "node_at t q \<noteq> None"
    with none that have "e \<noteq> q" by auto
    with existing_physical [OF t(1) \<open>node_at t q \<noteq> None\<close>] that have "node_at t e = Some DirNode"
      by (auto simp: physical_def strict_prefix_def)
    with none show False by simp
  qed
  have "e \<noteq> []" using none by auto
  have "a \<noteq> []" using ae by auto
  have "node_at t (a @ y) = node_at t0 (a @ y)" for y
  proof (rule ccontr)
    assume "node_at t (a @ y) \<noteq> node_at t0 (a @ y)"
    then have "prefix (a @ y) e" using M unfolding on_the_way_def cd by blast
    with ae show False by (auto dest: append_prefixD)
  qed
  then have "node_at t' (e @ y) = node_at t0 (a @ y)" for y
    unfolding e(4) by (simp add: node_at_move [OF \<open>a \<noteq> []\<close> \<open>e \<noteq> []\<close> ae])
  moreover have "node_at t' (a @ y) = None" for y
  proof -
    have "\<not> prefix e (a @ y)"
    proof
      assume "prefix e (a @ y)"
      then have "prefix e a \<or> prefix a e" by (auto simp: prefix_append dest: prefix_same_cases)
      with ae below [of a] at(1) show False by blast
    qed
    then show ?thesis unfolding e(4) using \<open>a \<noteq> []\<close> by (intro node_at_move_source) simp_all
  qed
  ultimately have whole: "moved_whole t0 a t'" using none0 unfolding moved_whole_def by blast
  have "node_at t' q = Some n" if "node_at t0 q = Some n" "\<not> prefix a q" for q n
    using that old below [of q] unfolding e(4) by (cases "prefix e q") (auto simp: node_at_move_other)
  with whole take(1) show ?thesis unfolding spared_def carried_out_def by auto
qed

lemma move_spared:
  assumes ready: "roots_ready c t0"
  shows "spared_triple c t0 (Move source destination expected) (fs_move c source destination expected)"
  unfolding fs_move_def
proof (rule resolve_here, simp, rule resolve_here, simp, rule lstat_here, simp)
  fix p d n assume p: "resolves c t0 source p" and d: "resolves c t0 destination d" and n: "found t0 p = Inr n"
  let ?u = "Move source destination expected"
  obtain cp cd where c: "cleared c t0 p cp" "cleared c t0 d cd" using resolve_cleared [OF ready] p d by metis
  have wf: "wf_tree t0" using ready by (simp add: roots_ready_def)
  obtain a where a: "entry_of t0 p = Inr a" "node_at t0 a = Some n" using n by (auto simp: found_def node_of_Inr)
  let ?H = "\<forall>b m. n = FileNode b m \<longrightarrow> expected = Some (fc_sha c b)"
  let ?M = "on_the_way c t0 d cd (butlast d) (\<lambda>n. n = None)"
  have go: "spared_triple c t0 ?u (and_then (sys_mkdir_p c (butlast d)) (\<lambda>_. and_then (sys_rename c p d) (\<lambda>_.
      ret (display c p, display c d))))" if none: "found t0 d = Inl ENOENT" and H: ?H
  proof (rule triple_and_then)
    have take: "may_take c t0 ?u a" using p d a none H by auto
    have "d \<noteq> []" using none found_Nil by auto
    then have "butlast d \<noteq> d" by (metis append_butlast_last_id append_self_conv not_Cons_self2)
    then have mk: "ftriple (spared c t0 ?u) ?M (sys_mkdir_p c (butlast d)) (\<lambda>_. ?M) ?M"
      using c(2) by (intro mkdir_p_triple [OF ready]) (auto simp: cleared_def prefixeq_butlast intro: on_the_way_spared)
    have M0: "?M t0" by (rule on_the_way_start [OF ready c(2)]) (rule found_missing [OF none])
    show "ftriple (spared c t0 ?u) (\<lambda>t. t = t0) (sys_mkdir_p c (butlast d)) (\<lambda>_. ?M) (spared c t0 ?u)"
      by (rule triple_conseq [OF mk]) (simp_all add: M0 on_the_way_spared)
    show "ftriple (spared c t0 ?u) ?M (and_then (sys_rename c p d) (\<lambda>_. ret (display c p, display c d)))
        (\<lambda>_ t. spared c t0 ?u t \<and> carried_out c t0 ?u t) (spared c t0 ?u)" for x :: unit
    proof (rule triple_and_then [OF _ triple_ret])
      show "ftriple (spared c t0 ?u) ?M (sys_rename c p d)
          (\<lambda>_ t. spared c t0 ?u t \<and> carried_out c t0 ?u t) (spared c t0 ?u)"
        unfolding sys_rename_def
      proof (rule triple_changing)
        fix t x assume M: "?M t" and "rename_at p d t = Inr (x, None)"
        then obtain e where "entry_of t p = Inr e" "entry_of t d = Inr e" "node_at t e \<noteq> None"
          by (auto simp: rename_at_def rename_refused_def bind_res_Inr_iff split: option.splits if_splits)
        with M show "spared c t0 ?u t \<and> carried_out c t0 ?u t" by (auto simp: on_the_way_def)
      qed (use on_the_way_spared rename_spared [OF ready c(1) c(2) take a(1)] in blast)+
    qed
  qed
  show "spared_triple c t0 ?u (and_then
      (if is_file n then and_then (verifyExpectedHash c p expected) (\<lambda>_. ret ()) else ret ()) (\<lambda>_.
    and_then (file_exists c d) (\<lambda>present.
      if present then raise FsConflict
      else and_then (sys_mkdir_p c (butlast d)) (\<lambda>_. and_then (sys_rename c p d) (\<lambda>_.
        ret (display c p, display c d))))))"
  proof (rule triple_and_then)
    show "ftriple (spared c t0 ?u) (\<lambda>t. t = t0)
        (if is_file n then and_then (verifyExpectedHash c p expected) (\<lambda>_. ret ()) else ret ())
        (\<lambda>_ t. ?H \<and> t = t0) (spared c t0 ?u)"
    proof (cases "is_file n")
      case True
      show ?thesis unfolding if_P [OF True]
        by (rule verify_here [OF wf]) (use n True in \<open>auto intro!: triple_ret\<close>)
    next
      case False
      then have ?H by auto
      then show ?thesis unfolding if_not_P [OF False] by (intro triple_ret) simp
    qed
    show "ftriple (spared c t0 ?u) (\<lambda>t. ?H \<and> t = t0) (and_then (file_exists c d) (\<lambda>present.
      if present then raise FsConflict
      else and_then (sys_mkdir_p c (butlast d)) (\<lambda>_. and_then (sys_rename c p d) (\<lambda>_.
        ret (display c p, display c d)))))
      (\<lambda>_ t. spared c t0 ?u t \<and> carried_out c t0 ?u t) (spared c t0 ?u)" for x :: unit
    proof (rule triple_pure)
      assume H: ?H
      show "spared_triple c t0 ?u (and_then (file_exists c d) (\<lambda>present.
        if present then raise FsConflict
        else and_then (sys_mkdir_p c (butlast d)) (\<lambda>_. and_then (sys_rename c p d) (\<lambda>_.
          ret (display c p, display c d)))))"
        by (rule exists_here) (use go [OF _ H] in \<open>simp_all add: raise_here\<close>)
    qed
  qed
qed

lemma change_spared:
  assumes "roots_ready c t0" "\<forall>input f. u \<noteq> Update input f"
  shows "spared_triple c t0 u (run_change c u)"
  using assms(2) spared_discard [OF move_spared [OF assms(1)]] spared_discard [OF remove_spared [OF assms(1)]]
    spared_discard [OF makeDirectory_spared [OF assms(1)]]
  by (cases u) simp_all


text \<open>Three trees of the witnesses: a nested directory, a link into a root, an alias of a root.\<close>

definition nested_tree :: tree where
  "nested_tree = [([''w''], DirNode), ([''w'', ''d''], DirNode), ([''w'', ''d'', ''e''], DirNode),
     ([''w'', ''d'', ''e'', ''f''], FileNode [] 420), ([''s''], LinkNode ''/w'')]"

definition link_tree :: tree where
  "link_tree = [([''w''], DirNode), ([''w'', ''a''], FileNode [120] 420), ([''x''], DirNode),
     ([''x'', ''l''], LinkNode ''/w/a'')]"

definition alias_tree :: tree where
  "alias_tree = [([''v''], DirNode), ([''v'', ''w''], DirNode), ([''v'', ''w'', ''a''], FileNode [120] 420),
     ([''s''], LinkNode ''/v'')]"

theorem changes_confined_witness:
  "node_at (fw_tree (snd (run_change demo_fs (Move ''a'' ''d/b'' (Some ''x'')) (start_fs demo_tree)))) [''s'']
     = Some (LinkNode ''/w'')"
proof (rule ccontr)
  let ?r = "run_change demo_fs (Move ''a'' ''d/b'' (Some ''x'')) (start_fs demo_tree)"
  assume "\<not> node_at (fw_tree (snd ?r)) [''s''] = Some (LinkNode ''/w'')"
  moreover have "node_at demo_tree [''s''] = Some (LinkNode ''/w'')" by code_simp
  moreover have "moves_no_link demo_fs demo_tree (Move ''a'' ''d/b'' (Some ''x''))" by code_simp
  ultimately have "list_ex (\<lambda>root. case canonical demo_tree root of Inl _ \<Rightarrow> False | Inr cr \<Rightarrow> prefix cr [''s''])
      (fc_roots demo_fs)"
    using changes_confined [OF demo_ready, of "Move ''a'' ''d/b'' (Some ''x'')" "fst ?r" "snd ?r"] by simp
  then show False by code_simp
qed


section \<open>Two ways around the roots\<close>

text \<open>
  \<open>fs_move\<close> checks where a symbolic link leads but renames the link itself: every successful move
  whose source resolves to a link outside the roots takes that link from its place, so something
  outside the roots has changed.
\<close>

theorem link_move_leaves_roots:
  assumes "roots_ready c t0" "run_change c (Move source destination expected) (start_fs t0) = (Inr (), w')"
    and link: "resolves c t0 source p" "entry_of t0 p = Inr a" "node_at t0 a = Some (LinkNode target)"
      "\<not> allowed_at c t0 a"
  shows "node_at (fw_tree w') a = None \<and> \<not> confined c t0 (fw_tree w')"
proof -
  have "\<forall>input f. Move source destination expected \<noteq> Update input f" by simp
  from run_tripleD(3) [OF change_spared [OF assms(1) this] assms(2)]
  obtain b where "may_take c t0 (Move source destination expected) b" "moved_whole t0 b (fw_tree w')"
    by (auto simp: carried_out_def)
  moreover from this(1) link(1,2) have "b = a" by auto
  ultimately have "node_at (fw_tree w') (a @ []) = None" unfolding moved_whole_def by blast
  with link(3,4) show ?thesis unfolding confined_def by (intro conjI notI) (simp, metis append_Nil2 option.distinct(1))
qed

theorem link_move_leaves_roots_witness:
  "\<exists>w'. run_change demo_fs (Move ''/x/l'' ''b'' None) (start_fs link_tree) = (Inr (), w')
     \<and> \<not> confined demo_fs link_tree (fw_tree w')"
proof -
  let ?r = "run_change demo_fs (Move ''/x/l'' ''b'' None) (start_fs link_tree)"
  have "fst ?r = Inr ()" by code_simp
  then obtain w' where r: "?r = (Inr (), w')" by (metis prod.collapse)
  have "roots_ready demo_fs link_tree" "resolves demo_fs link_tree ''/x/l'' [''x'', ''l'']"
    "entry_of link_tree [''x'', ''l''] = Inr [''x'', ''l'']"
    "node_at link_tree [''x'', ''l''] = Some (LinkNode ''/w/a'')" "\<not> allowed_at demo_fs link_tree [''x'', ''l'']"
    by code_simp+
  from link_move_leaves_roots [OF this(1) r this(2-5)] r show ?thesis by blast
qed

text \<open>
  \<open>fs_remove\<close> protects a root by comparing paths as they are written: every successful removal whose
  path leads, through a link, to the entry of a root removes that root.
\<close>

theorem alias_removes_root:
  assumes "roots_ready c t0" "run_change c (Remove input expected recursive) (start_fs t0) = (Inr (), w')"
    and other: "resolves c t0 input p" "entry_of t0 p = Inr a" "root \<in> set (fc_roots c)" "canonical t0 root = Inr a" "a \<noteq> []"
  shows "p \<notin> set (fc_roots c) \<and> node_at (fw_tree w') a = None"
proof -
  have "\<forall>i f. Remove input expected recursive \<noteq> Update i f" by simp
  from run_tripleD(3) [OF change_spared [OF assms(1) this] assms(2)]
  obtain b where b: "may_take c t0 (Remove input expected recursive) b"
    "\<forall>q. prefix b q \<and> q \<noteq> [] \<longrightarrow> node_at (fw_tree w') q = None"
    by (auto simp: carried_out_def)
  moreover from b(1) other(1,2) have "b = a" "p \<notin> set (fc_roots c)" by auto
  ultimately show ?thesis using other(5) by simp
qed

theorem alias_removes_root_witness:
  "fst (run_change (demo_fs\<lparr>fc_roots := [[''v'', ''w'']]\<rparr>) (Remove ''/v/w'' None True) (start_fs alias_tree)) = Inl FsPolicy
   \<and> (\<exists>w'. run_change (demo_fs\<lparr>fc_roots := [[''v'', ''w'']]\<rparr>) (Remove ''/s/w'' None True) (start_fs alias_tree) = (Inr (), w')
     \<and> node_at (fw_tree w') [''v'', ''w''] = None)"
proof
  let ?c = "demo_fs\<lparr>fc_roots := [[''v'', ''w'']]\<rparr>"
  show "fst (run_change ?c (Remove ''/v/w'' None True) (start_fs alias_tree)) = Inl FsPolicy" by code_simp
  let ?r = "run_change ?c (Remove ''/s/w'' None True) (start_fs alias_tree)"
  have "fst ?r = Inr ()" by code_simp
  then obtain w' where r: "?r = (Inr (), w')" by (metis prod.collapse)
  have "roots_ready ?c alias_tree" "resolves ?c alias_tree ''/s/w'' [''s'', ''w'']"
    "entry_of alias_tree [''s'', ''w''] = Inr [''v'', ''w'']" "[''v'', ''w''] \<in> set (fc_roots ?c)"
    "canonical alias_tree [''v'', ''w''] = Inr [''v'', ''w'']" "[''v'', ''w''] \<noteq> []"
    by code_simp+
  from alias_removes_root [OF this(1) r this(2-6)] r
  show "\<exists>w'. ?r = (Inr (), w') \<and> node_at (fw_tree w') [''v'', ''w''] = None" by blast
qed

text \<open>
  If the content cannot be written, or not be synced, the update fails and leaves the temporary
  file beside the target: only a failing rename removes it.
\<close>

theorem failed_write_leaves_temporary:
  "case run_update (demo_fs\<lparr>fc_fails := (\<lambda>n. n = 7)\<rparr>) ''a'' (UEdit [120] [121] False None) (start_fs demo_tree) of
     (res, w') \<Rightarrow> res = Inl (FsSys EIO) \<and> node_at (fw_tree w') [''w'', ''a''] = node_at demo_tree [''w'', ''a'']
       \<and> node_at (fw_tree w') [''w'', ''.a.1.tmp''] = Some (FileNode [121] 420)"
  by code_simp

end
