(* ===== verification/Git_Calls.thy ===== *)
theory Git_Calls
  imports Repository_State Process_Policy Crash_Triples "HOL-Library.Sorting_Algorithms"
begin

text \<open>
  \<open>src/src/git/git-service.ts\<close>, first part: the names and settings it checks, and how it runs Git. The
  environment answers every question anew: what the path policy and the file system say, and what a
  Git child prints, may depend on the number of calls made so far, so other programs can change the
  repository between any two calls. All resolved paths and all children are recorded in a log.
\<close>

section \<open>Names and settings\<close>

datatype git_error =
    GitPath policy_error
  | GitPolicy
  | GitConflict
  | GitStale
  | GitSystem

definition branch_char :: "char \<Rightarrow> bool" where
  "branch_char c \<longleftrightarrow> alnum c \<or> c \<in> set ''._-''"

definition contains :: "string \<Rightarrow> string \<Rightarrow> bool" where
  "contains part s \<longleftrightarrow> list_ex (\<lambda>i. take (length part) (drop i s) = part) [0..<Suc (length s)]"

definition branch_component :: "string \<Rightarrow> bool" where
  "branch_component s \<longleftrightarrow> s \<noteq> [] \<and> alnum (hd s) \<and> list_all branch_char (tl s)
     \<and> \<not> contains ''..'' s \<and> \<not> ends_with s ''.'' \<and> \<not> ends_with s ''.lock''"

definition validateBranchName :: "string \<Rightarrow> git_error + string" where
  "validateBranchName branch =
     (if length branch < 1 \<or> length branch > 200 \<or> branch \<noteq> js_trim branch \<or> branch = ''HEAD'' then Inl GitPolicy
      else if \<not> list_all branch_component (split_char CHR ''/'' branch) then Inl GitPolicy
      else Inr branch)"

definition validateCommitMessage :: "string \<Rightarrow> git_error + string" where
  "validateCommitMessage message =
     (if js_trim message = [] \<or> length message > 500 \<or> CHR 0x00 \<in> set message then Inl GitPolicy else Inr message)"

text \<open>An owner and a repository after one of three prefixes, without white space.\<close>

definition remote_path :: "string \<Rightarrow> bool" where
  "remote_path s \<longleftrightarrow> (case split_char CHR ''/'' s of
     [owner, name] \<Rightarrow> owner \<noteq> [] \<and> name \<noteq> [] \<and> \<not> list_ex js_space (owner @ name)
   | _ \<Rightarrow> False)"

definition isAllowedGitHubOrigin :: "string \<Rightarrow> bool" where
  "isAllowedGitHubOrigin url \<longleftrightarrow>
     list_ex (\<lambda>p. take (length p) url = p \<and> remote_path (drop (length p) url))
       [''https://github.com/'', ''git@github.com:'', ''ssh://git@github.com/'']"

definition git_object_id :: "string \<Rightarrow> bool" where
  "git_object_id s \<longleftrightarrow> 40 \<le> length s \<and> length s \<le> 64 \<and> list_all hex_digit s"

definition COMMAND_CAPABLE_CONFIG_SECTIONS :: "string list" where
  "COMMAND_CAPABLE_CONFIG_SECTIONS = [''alias'', ''pager'']"

definition COMMAND_CAPABLE_CONFIG_VARIABLES :: "(string \<times> string list) list" where
  "COMMAND_CAPABLE_CONFIG_VARIABLES =
     [(''browser'', [''cmd'', ''path'']),
      (''core'', [''alternaterefscommand'', ''askpass'', ''editor'', ''fsmonitor'', ''gitproxy'', ''hookspath'', ''pager'',
        ''sshcommand'']),
      (''credential'', [''helper'']),
      (''diff'', [''command'', ''external'', ''textconv'']),
      (''filter'', [''clean'', ''process'', ''smudge'']),
      (''gpg'', [''program'']),
      (''init'', [''templatedir'']),
      (''interactive'', [''difffilter'']),
      (''merge'', [''driver'']),
      (''protocol'', [''command'']),
      (''remote'', [''receivepack'', ''uploadpack'']),
      (''sequence'', [''editor'']),
      (''trailer'', [''command'']),
      (''uploadpack'', [''packobjectshook'']),
      (''web'', [''browser''])]"

definition isCommandCapableConfigKey :: "string \<Rightarrow> bool" where
  "isCommandCapableConfigKey setting \<longleftrightarrow>
     (let segments = split_char CHR ''.'' setting; section = map js_lower (hd segments);
          variable = map js_lower (last segments)
      in length segments \<ge> 2
         \<and> (section \<in> set COMMAND_CAPABLE_CONFIG_SECTIONS
            \<or> (case map_of COMMAND_CAPABLE_CONFIG_VARIABLES section of
                 None \<Rightarrow> False | Some variables \<Rightarrow> variable \<in> set variables)))"

text \<open>The listing is a sequence of scopes and settings; a setting is its key, a line end and the value.
  The code also sorts the keys it found, for the message.\<close>

fun offending_keys :: "string list \<Rightarrow> string list" where
  "offending_keys (scope # setting # records) =
     (let k = hd (split_char (CHR 0x0A) setting)
      in (if scope \<in> {''local'', ''worktree''} \<and> isCommandCapableConfigKey k then [k] else [])
         @ offending_keys records)"
| "offending_keys _ = []"

definition commandCapableConfigKeys :: "string \<Rightarrow> string list" where
  "commandCapableConfigKeys listing = js_set (offending_keys (split_char (CHR 0x00) listing))"

section \<open>The environment\<close>

datatype file_kind = KindFile | KindDirectory | KindOther

record file_info =
  fi_kind :: file_kind
  fi_size :: nat
  fi_mode :: nat

datatype 'a answer = Absent | Broken | Present 'a

record git_env =
  ge_lstat :: "nat \<Rightarrow> abspath \<Rightarrow> lstat_result"
  ge_real :: "nat \<Rightarrow> abspath \<Rightarrow> abspath option"
  ge_info :: "nat \<Rightarrow> abspath \<Rightarrow> file_info answer"
  ge_read :: "nat \<Rightarrow> abspath \<Rightarrow> byte list answer"
  ge_child :: "nat \<Rightarrow> git_event list \<times> git_end"
  ge_decode :: "byte list \<Rightarrow> string"
  ge_sha256 :: "byte list \<Rightarrow> string"
  ge_base64 :: "byte list \<Rightarrow> string"
  ge_compare :: "string comparator"

record git_config =
  gs_env :: git_env
  gs_roots :: "abspath list"
  gs_maxReadBytes :: nat
  gs_maxCommandOutputBytes :: nat
  gs_remoteWriteEnabled :: bool
  gs_remoteUrlPolicy :: "string \<Rightarrow> bool"

record git_out =
  go_cwd :: "abspath + string list"
  go_exitCode :: int
  go_stdout :: string
  go_stderr :: string

text \<open>An entry: a path that the policy let through, or a child with its arguments and its result.\<close>

datatype git_entry =
    Resolved string abspath
  | Spawned abspath "string list" bool "byte list option" "git_error + git_out"

record git_world =
  gw_time :: nat
  gw_log :: "git_entry list"

type_synonym 'a git_m = "(git_world, git_error, 'a) prog"

text \<open>One question to the environment, answered at its time.\<close>

definition ask :: "(nat \<Rightarrow> git_error + 'a) \<Rightarrow> 'a git_m" where
  "ask f = (\<lambda>w. (f (gw_time w), w\<lparr>gw_time := gw_time w + 1\<rparr>))"

definition note_entry :: "git_entry \<Rightarrow> unit git_m" where
  "note_entry e = (\<lambda>w. (Inr (), w\<lparr>gw_log := gw_log w @ [e]\<rparr>))"

definition lift_res :: "git_error + 'a \<Rightarrow> 'a git_m" where
  "lift_res r = (\<lambda>w. (r, w))"

definition git_resolve :: "git_config \<Rightarrow> string \<Rightarrow> abspath git_m" where
  "git_resolve c input =
     and_then (ask (\<lambda>t. case policy_resolve (ge_lstat (gs_env c) t) (ge_real (gs_env c) t) (gs_roots c) input of
         Inl e \<Rightarrow> Inl (GitPath e) | Inr p \<Rightarrow> Inr p)) (\<lambda>p.
     and_then (note_entry (Resolved input p)) (\<lambda>_. ret p))"

definition git_info :: "git_config \<Rightarrow> abspath \<Rightarrow> file_info option git_m" where
  "git_info c p = ask (\<lambda>t. case ge_info (gs_env c) t p of
     Absent \<Rightarrow> Inr None | Broken \<Rightarrow> Inl GitSystem | Present i \<Rightarrow> Inr (Some i))"

definition git_readFile :: "git_config \<Rightarrow> abspath \<Rightarrow> byte list option git_m" where
  "git_readFile c p = ask (\<lambda>t. case ge_read (gs_env c) t p of
     Absent \<Rightarrow> Inr None | Broken \<Rightarrow> Inl GitSystem | Present b \<Rightarrow> Inr (Some b))"

section \<open>Running Git\<close>

definition git_command :: "string list \<Rightarrow> string list" where
  "git_command args =
     [''-c'', ''core.hooksPath=/dev/null'', ''-c'', ''core.fsmonitor=false'', ''-c'', ''diff.external='',
      ''-c'', ''interactive.diffFilter='', ''-c'', ''commit.gpgSign=false''] @ args"

definition git_child_overrides :: "bool \<Rightarrow> (string \<times> string) list" where
  "git_child_overrides write =
     [(''GIT_OPTIONAL_LOCKS'', if write then ''1'' else ''0''), (''GIT_LITERAL_PATHSPECS'', ''1''), (''GIT_PAGER'', ''cat''),
      (''PAGER'', ''cat''), (''GIT_TERMINAL_PROMPT'', ''0'')]"

text \<open>
  \<open>spawnGit\<close> and \<open>spawnGitWithInput\<close>: the latter does not bound the output. A child that cannot be
  started and one that fails the limits reject.
\<close>

definition git_child ::
  "git_config \<Rightarrow> abspath \<Rightarrow> bool \<Rightarrow> git_event list \<times> git_end \<Rightarrow> git_error + git_out" where
  "git_child c cwd bound child =
     (let maxBytes = (if bound then gs_maxCommandOutputBytes c
            else sum_list (map (\<lambda>e. case e of GitStdout b \<Rightarrow> length b | GitStderr b \<Rightarrow> length b | GitTimer \<Rightarrow> 0) (fst child)));
          s = fold (git_event_step maxBytes) (fst child)
            \<lparr>gc_stdout = [], gc_stderr = [], gc_bytes = 0, gc_timedOut = False, gc_tooLarge = False\<rparr>
      in case snd child of
           GitSpawnFails \<Rightarrow> Inl GitSystem
         | GitClose code \<Rightarrow>
             if gc_timedOut s then Inl GitPolicy
             else if gc_tooLarge s then Inl GitPolicy
             else Inr \<lparr>go_cwd = policy_display (gs_roots c) cwd,
                       go_exitCode = (case code of None \<Rightarrow> 1 | Some n \<Rightarrow> n),
                       go_stdout = ge_decode (gs_env c) (gc_stdout s),
                       go_stderr = ge_decode (gs_env c) (gc_stderr s)\<rparr>)"

definition spawnGit :: "git_config \<Rightarrow> abspath \<Rightarrow> string list \<Rightarrow> byte list option \<Rightarrow> bool \<Rightarrow> git_out git_m" where
  "spawnGit c cwd args input write =
     and_then (ask (\<lambda>t. Inr (git_child c cwd (input = None) (ge_child (gs_env c) t)))) (\<lambda>r.
     and_then (note_entry (Spawned cwd (git_command args) write input r)) (\<lambda>_. lift_res r))"

definition assertRepositoryAuthority :: "git_config \<Rightarrow> abspath \<Rightarrow> unit git_m" where
  "assertRepositoryAuthority c cwd =
     and_then (spawnGit c cwd [''rev-parse'', ''--show-toplevel''] None False) (\<lambda>toplevel.
       (let repositoryRoot = js_trim (go_stdout toplevel)
        in if go_exitCode toplevel \<noteq> 0 \<or> repositoryRoot = [] then raise GitPolicy
           else
             and_then (git_resolve c repositoryRoot) (\<lambda>_.
             and_then (spawnGit c cwd [''config'', ''--list'', ''--show-scope'', ''--null''] None False) (\<lambda>listed.
               if go_exitCode listed \<noteq> 0 then raise GitPolicy
               else if commandCapableConfigKeys (go_stdout listed) \<noteq> [] then raise GitPolicy
               else ret ()))))"

definition git_run_input ::
  "git_config \<Rightarrow> string \<Rightarrow> string list \<Rightarrow> byte list option \<Rightarrow> bool \<Rightarrow> git_out git_m" where
  "git_run_input c cwdInput args input write =
     and_then (git_resolve c cwdInput) (\<lambda>cwd.
     and_then (assertRepositoryAuthority c cwd) (\<lambda>_. spawnGit c cwd args input write))"

definition git_run :: "git_config \<Rightarrow> string \<Rightarrow> string list \<Rightarrow> bool \<Rightarrow> git_out git_m" where
  "git_run c cwdInput args write = git_run_input c cwdInput args None write"

end
