(* ===== verification/Git_Service.thy ===== *)
theory Git_Service
  imports Git_Calls
begin

text \<open>
  \<open>src/src/git/git-service.ts\<close>, second part: the operations of \<open>GitService\<close>, and
  \<open>git-diff-command.ts\<close>. The audit records and the two hooks for tests are left out.
\<close>

section \<open>Kinds of files\<close>

datatype risk_class = RiskNone | RiskSecret | RiskBinary | RiskArtifact

datatype inventory_category = CatModified | CatUntracked | CatDeleted | CatIgnored

definition secret_basename :: "string \<Rightarrow> bool" where
  "secret_basename name \<longleftrightarrow>
     (let n = map js_lower name; plain = \<not> list_ex (\<lambda>c. c = CHR 0x0A \<or> c = CHR 0x0D) name
      in n \<in> {''.env'', ''secret'', ''secrets'', ''credential'', ''credentials'', ''id_rsa'', ''id_ed25519''}
         \<or> plain \<and> (take 5 n = ''.env.'' \<or> ends_with n ''.pem'' \<or> ends_with n ''.key''))"

definition artifact_path :: "string \<Rightarrow> bool" where
  "artifact_path relative \<longleftrightarrow>
     (let n = map js_lower relative
      in list_ex (\<lambda>segment. segment \<in> {''node_modules'', ''dist'', ''build'', ''coverage'', ''.next'', ''target''})
           (split_char CHR ''/'' n)
         \<or> list_ex (\<lambda>extension. ends_with n (CHR ''.'' # extension))
             [''o'', ''a'', ''so'', ''dylib'', ''dll'', ''exe'', ''bin'', ''zip'', ''tar'', ''gz'', ''tgz'', ''wasm'', ''pyc''])"

definition binary_name :: "string \<Rightarrow> bool" where
  "binary_name relative \<longleftrightarrow>
     list_ex (\<lambda>extension. ends_with (map js_lower relative) (CHR ''.'' # extension))
       [''png'', ''jpg'', ''jpeg'', ''gif'', ''pdf'', ''woff'', ''woff2'', ''ttf'', ''mp3'', ''mp4'', ''mov'']"

definition riskForPath :: "string \<Rightarrow> risk_class" where
  "riskForPath relative =
     (if secret_basename (path_basename relative) then RiskSecret
      else if artifact_path relative then RiskArtifact
      else if binary_name relative then RiskBinary
      else RiskNone)"

section \<open>Simple operations\<close>

definition git_status :: "git_config \<Rightarrow> string \<Rightarrow> git_out git_m" where
  "git_status c cwd = git_run c cwd [''status'', ''--porcelain=v1'', ''--branch'', ''--untracked-files=all''] False"

definition buildGitDiffArgs :: "bool \<Rightarrow> bool \<Rightarrow> string list" where
  "buildGitDiffArgs staged check =
     [''diff'', ''--no-ext-diff'', ''--no-textconv''] @ (if staged then [''--cached''] else [])
     @ (if check then [''--check''] else [])"

definition git_diff :: "git_config \<Rightarrow> string \<Rightarrow> bool \<Rightarrow> bool \<Rightarrow> git_out git_m" where
  "git_diff c cwd staged check = git_run c cwd (buildGitDiffArgs staged check) False"

definition git_log :: "git_config \<Rightarrow> string \<Rightarrow> int \<Rightarrow> git_out git_m" where
  "git_log c cwd limit =
     (if limit < 1 \<or> limit > 100 then raise GitPolicy
      else git_run c cwd [''log'', CHR ''-'' # show_nat (nat limit), ''--date=iso-strict'',
             ''--pretty=format:%H%x09%ad%x09%an%x09%s''] False)"

definition git_createBranch :: "git_config \<Rightarrow> string \<Rightarrow> string \<Rightarrow> git_out git_m" where
  "git_createBranch c cwd branch =
     and_then (lift_res (validateBranchName branch)) (\<lambda>safeBranch. git_run c cwd [''switch'', ''-c'', safeBranch] True)"

definition git_switchBranch :: "git_config \<Rightarrow> string \<Rightarrow> string \<Rightarrow> git_out git_m" where
  "git_switchBranch c cwd branch =
     and_then (lift_res (validateBranchName branch)) (\<lambda>safeBranch. git_run c cwd [''switch'', safeBranch] True)"

definition git_commit :: "git_config \<Rightarrow> string \<Rightarrow> string \<Rightarrow> git_out git_m" where
  "git_commit c cwd message =
     and_then (lift_res (validateCommitMessage message)) (\<lambda>safeMessage.
       git_run c cwd [''commit'', ''-m'', safeMessage] True)"

definition git_mergeBranch :: "git_config \<Rightarrow> string \<Rightarrow> string \<Rightarrow> git_out git_m" where
  "git_mergeBranch c cwd branch =
     and_then (lift_res (validateBranchName branch)) (\<lambda>safeBranch.
       git_run c cwd [''merge'', ''--no-ff'', ''--no-edit'', ''--'', safeBranch] True)"

section \<open>Inventory\<close>

record inventory_entry =
  gi_path :: string
  gi_category :: inventory_category
  gi_risk :: risk_class
  gi_status :: "(char \<times> char) option"

record inventory_page =
  ip_cwd :: "abspath + string list"
  ip_entries :: "inventory_entry list"
  ip_cursor :: int
  ip_snapshot :: string
  ip_nextCursor :: "int option"
  ip_complete :: bool

function status_entries :: "string list \<Rightarrow> inventory_entry list \<Rightarrow> git_error + inventory_entry list" where
  "status_entries [] entries = Inr entries"
| "status_entries (rec # records) entries =
     (if rec = [] then status_entries records entries
      else if length rec < 4 \<or> rec ! 2 \<noteq> CHR '' '' then Inl GitPolicy
      else
        (let x = rec ! 0; y = rec ! 1; pathname = drop 3 rec;
             category = (if x = CHR ''?'' \<and> y = CHR ''?'' then CatUntracked
               else if x = CHR ''D'' \<or> y = CHR ''D'' then CatDeleted else CatModified);
             entries' = put_key gi_path \<lparr>gi_path = pathname, gi_category = category, gi_risk = riskForPath pathname,
               gi_status = Some (x, y)\<rparr> entries
         in status_entries (if x \<in> set ''RC'' \<or> y \<in> set ''RC'' then tl records else records) entries'))"
  by pat_completeness auto
termination
  by (relation "measure (\<lambda>(records, entries). length records)") auto

fun ignored_entries :: "string list \<Rightarrow> inventory_entry list \<Rightarrow> inventory_entry list" where
  "ignored_entries [] entries = entries"
| "ignored_entries (pathname # records) entries =
     ignored_entries records
       (if pathname = [] \<or> find_key gi_path pathname entries \<noteq> None then entries
        else put_key gi_path \<lparr>gi_path = pathname, gi_category = CatIgnored, gi_risk = riskForPath pathname,
               gi_status = None\<rparr> entries)"

fun category_name :: "inventory_category \<Rightarrow> string" where
  "category_name CatModified = ''modified''"
| "category_name CatUntracked = ''untracked''"
| "category_name CatDeleted = ''deleted''"
| "category_name CatIgnored = ''ignored''"

text \<open>Sorting by the path, equal paths by the category: a stable sort after the other.\<close>

definition inventory_order :: "string comparator \<Rightarrow> inventory_entry list \<Rightarrow> inventory_entry list" where
  "inventory_order cmp entries =
     sort (key gi_path cmp) (sort (key (\<lambda>e. category_name (gi_category e)) cmp) entries)"

definition sha256_text :: "string \<Rightarrow> bool" where
  "sha256_text s \<longleftrightarrow> length s = 64 \<and> list_all (\<lambda>c. c \<in> set ''0123456789abcdef'') s"

definition git_inventory :: "git_config \<Rightarrow> string \<Rightarrow> int \<Rightarrow> int \<Rightarrow> string option \<Rightarrow> inventory_page git_m" where
  "git_inventory c cwdInput cursor pageSize snapshot =
     (if cursor < 0 then raise GitPolicy
      else if pageSize < 1 \<or> pageSize > 200 then raise GitPolicy
      else
        and_then (git_run c cwdInput [''status'', ''--porcelain=v1'', ''-z'', ''--untracked-files=all''] False) (\<lambda>status.
        and_then (git_run c cwdInput [''ls-files'', ''--others'', ''--ignored'', ''--exclude-standard'', ''-z''] False)
          (\<lambda>ignored.
          if go_exitCode status \<noteq> 0 \<or> go_exitCode ignored \<noteq> 0 then raise GitPolicy
          else if cursor > 0 \<and> (case snapshot of None \<Rightarrow> True | Some s \<Rightarrow> \<not> sha256_text s) then raise GitConflict
          else
            (let snapshotDigest = ge_sha256 (gs_env c) (js_bytes (go_stdout status @ [CHR 0x00] @ go_stdout ignored))
             in if snapshot \<noteq> None \<and> snapshot \<noteq> Some snapshotDigest then raise GitConflict
                else
                  and_then (lift_res (status_entries (split_char (CHR 0x00) (go_stdout status)) [])) (\<lambda>entries.
                    (let ordered = inventory_order (ge_compare (gs_env c))
                           (ignored_entries (split_char (CHR 0x00) (go_stdout ignored)) entries);
                         page = take (nat pageSize) (drop (nat cursor) ordered);
                         nextCursor = (if nat cursor + length page < length ordered
                           then Some (cursor + int (length page)) else None)
                     in ret \<lparr>ip_cwd = go_cwd status, ip_entries = page, ip_cursor = cursor,
                          ip_snapshot = snapshotDigest, ip_nextCursor = nextCursor,
                          ip_complete = (nextCursor = None)\<rparr>))))))"

section \<open>Reviewing a file\<close>

record file_review =
  fr_cwd :: "abspath + string list"
  fr_path :: "string list"
  fr_diff :: string
  fr_diffBytes :: nat
  fr_diffSha256 :: string
  fr_contentSha256 :: "string option"
  fr_deletion :: bool
  fr_risk :: risk_class
  fr_base64 :: bool

text \<open>The path of the review, relative to the directory; on the way out the separator is \<open>/\<close>.\<close>

definition relative_string :: "string list \<Rightarrow> string" where
  "relative_string p = join_with ''/'' p"

definition git_fileReview :: "git_config \<Rightarrow> string \<Rightarrow> string \<Rightarrow> file_review git_m" where
  "git_fileReview c cwdInput inputPath =
     (if inputPath = [] \<or> CHR 0x00 \<in> set inputPath \<or> isAbsolute inputPath then raise GitPolicy
      else
        and_then (git_resolve c cwdInput) (\<lambda>cwd.
          (let candidate = path_resolve cwd inputPath; relative = path_relative cwd candidate
           in if \<not> isInside cwd candidate \<or> candidate = cwd then raise GitPolicy
              else
                and_then (git_run c (path_string cwd) [''diff'', ''--no-ext-diff'', ''--no-textconv'', ''--binary'', ''HEAD'',
                    ''--'', relative_string relative] False) (\<lambda>result.
                and_then (git_info c candidate) (\<lambda>info.
                and_then
                  (case info of
                     None \<Rightarrow> ret (go_stdout result, None, True, False)
                   | Some i \<Rightarrow>
                       if fi_kind i \<noteq> KindFile then raise GitPolicy
                       else if fi_size i > gs_maxReadBytes c then raise GitPolicy
                       else and_then (git_readFile c candidate) (\<lambda>content.
                         case content of
                           None \<Rightarrow> ret (go_stdout result, None, True, False)
                         | Some b \<Rightarrow>
                             (let binary = 0 \<in> set b;
                                  shown = (if go_stdout result \<noteq> [] then go_stdout result
                                    else if binary then ge_base64 (gs_env c) b else ge_decode (gs_env c) b)
                              in ret (shown, Some (ge_sha256 (gs_env c) b), False, binary))))
                  (\<lambda>(diff, contentSha256, deletion, binary).
                    (let risk = riskForPath (relative_string relative);
                         shown = (if risk = RiskSecret
                           then ''[REDACTED: secret-risk path; content hash retained]'' else diff)
                     in ret \<lparr>fr_cwd = go_cwd result, fr_path = relative, fr_diff = shown,
                          fr_diffBytes = js_byteLength shown, fr_diffSha256 = ge_sha256 (gs_env c) (js_bytes shown), fr_contentSha256 = contentSha256,
                          fr_deletion = deletion, fr_risk = (if binary then RiskBinary else risk),
                          fr_base64 = binary\<rparr>)))))))"

section \<open>Staging\<close>

fun stage_paths_each :: "git_config \<Rightarrow> abspath \<Rightarrow> string list \<Rightarrow> string list git_m" where
  "stage_paths_each c cwd [] = ret []"
| "stage_paths_each c cwd (input # inputs) =
     (if input = [] \<or> CHR 0x00 \<in> set input then raise GitPolicy
      else
        and_then (git_resolve c (path_string (if isAbsolute input then path_resolve [] input else path_resolve cwd input)))
          (\<lambda>resolved.
          if \<not> isInside cwd resolved \<or> resolved = cwd then raise GitPolicy
          else
            and_then (git_info c resolved) (\<lambda>info.
              if (case info of None \<Rightarrow> False | Some i \<Rightarrow> fi_kind i = KindDirectory) then raise GitPolicy
              else
                and_then (stage_paths_each c cwd inputs) (\<lambda>rest.
                  ret (relative_string (path_relative cwd resolved) # rest)))))"

definition resolveStagePaths :: "git_config \<Rightarrow> string \<Rightarrow> string list \<Rightarrow> (abspath \<times> string list) git_m" where
  "resolveStagePaths c cwdInput inputs =
     (if length inputs < 1 \<or> length inputs > 100 then raise GitPolicy
      else
        and_then (git_resolve c cwdInput) (\<lambda>cwd.
        and_then (stage_paths_each c cwd inputs) (\<lambda>paths. ret (cwd, js_set paths))))"

text \<open>The given hashes, all of paths to stage, fit the files as they are.\<close>

fun check_expected :: "git_config \<Rightarrow> abspath \<Rightarrow> string list \<Rightarrow> (string \<times> string) list \<Rightarrow> unit git_m" where
  "check_expected c cwd paths [] = ret ()"
| "check_expected c cwd paths ((input, expected) # rest) =
     (if input \<notin> set paths then raise GitPolicy
      else if \<not> sha256_text expected \<and> expected \<noteq> ''deleted'' then raise GitPolicy
      else
        and_then (git_readFile c (path_resolve cwd input)) (\<lambda>content.
          case content of
            None \<Rightarrow> if expected = ''deleted'' then check_expected c cwd paths rest else raise GitSystem
          | Some b \<Rightarrow>
              if ge_sha256 (gs_env c) b \<noteq> expected then raise GitConflict else check_expected c cwd paths rest))"

text \<open>Read once more: the contents that will be staged.\<close>

fun approve_each ::
  "git_config \<Rightarrow> abspath \<Rightarrow> (string \<Rightarrow> string) \<Rightarrow> string list \<Rightarrow> (string \<times> byte list) list git_m" where
  "approve_each c cwd expected [] = ret []"
| "approve_each c cwd expected (input # inputs) =
     and_then (git_readFile c (path_resolve cwd input)) (\<lambda>content.
       case content of
         None \<Rightarrow> if expected input = ''deleted'' then approve_each c cwd expected inputs else raise GitSystem
       | Some b \<Rightarrow>
           if expected input \<noteq> ge_sha256 (gs_env c) b then raise GitConflict
           else and_then (approve_each c cwd expected inputs) (\<lambda>approved. ret ((input, b) # approved)))"

definition blob_id :: "string \<Rightarrow> bool" where
  "blob_id s \<longleftrightarrow> 40 \<le> length s \<and> length s \<le> 64 \<and> list_all (\<lambda>c. c \<in> set ''0123456789abcdef'') s"

unbundle bit_operations_syntax

definition file_mode :: "file_info \<Rightarrow> string" where
  "file_mode i = (if fi_mode i AND 73 \<noteq> 0 then ''100755'' else ''100644'')"

fun stage_each ::
  "git_config \<Rightarrow> string \<Rightarrow> abspath \<Rightarrow> (string \<Rightarrow> string) \<Rightarrow> (string \<times> byte list) list \<Rightarrow> string list \<Rightarrow> git_out list git_m"
where
  "stage_each c dir cwd expected approved [] = ret []"
| "stage_each c dir cwd expected approved (input # inputs) =
     and_then
       (if expected input = ''deleted'' then git_run c dir [''update-index'', ''--remove'', ''--'', input] True
        else
          (case map_of approved input of
             None \<Rightarrow> raise GitConflict
           | Some content \<Rightarrow>
               and_then (git_info c (path_resolve cwd input)) (\<lambda>info.
                 case info of
                   None \<Rightarrow> raise GitSystem
                 | Some i \<Rightarrow>
                     if fi_kind i \<noteq> KindFile then raise GitConflict
                     else
                       and_then (git_run_input c dir [''hash-object'', ''-w'', ''--stdin''] (Some content) True) (\<lambda>blob.
                         if go_exitCode blob \<noteq> 0 \<or> \<not> blob_id (js_trim (go_stdout blob)) then raise GitConflict
                         else git_run c dir [''update-index'', ''--add'', ''--cacheinfo'',
                                file_mode i @ '','' @ js_trim (go_stdout blob) @ '','' @ input] True))))
       (\<lambda>result. and_then (stage_each c dir cwd expected approved inputs) (\<lambda>results. ret (result # results)))"

text \<open>The object that the index lists: the second word of the first record, up to a tab.\<close>

definition index_blob :: "string \<Rightarrow> string option" where
  "index_blob listing =
     (case split_char CHR '' '' (hd (split_char (CHR 0x00) listing)) of
        _ # second # _ \<Rightarrow> Some (hd (split_char (CHR 0x09) second))
      | _ \<Rightarrow> None)"

fun verify_each ::
  "git_config \<Rightarrow> string \<Rightarrow> (string \<Rightarrow> string) \<Rightarrow> (string \<times> byte list) list \<Rightarrow> string list \<Rightarrow> unit git_m"
where
  "verify_each c dir expected approved [] = ret ()"
| "verify_each c dir expected approved (input # inputs) =
     and_then (git_run c dir [''ls-files'', ''--stage'', ''-z'', ''--'', input] False) (\<lambda>index.
       if expected input = ''deleted''
       then (if go_stdout index \<noteq> [] then raise GitConflict else verify_each c dir expected approved inputs)
       else
         and_then (git_run_input c dir [''hash-object'', ''--stdin'']
             (Some (case map_of approved input of None \<Rightarrow> [] | Some b \<Rightarrow> b)) False) (\<lambda>blob.
           if go_exitCode index \<noteq> 0 \<or> index_blob (go_stdout index) \<noteq> Some (js_trim (go_stdout blob))
           then raise GitConflict else verify_each c dir expected approved inputs))"

definition git_stagePaths ::
  "git_config \<Rightarrow> string \<Rightarrow> string list \<Rightarrow> (string \<times> string) list option \<Rightarrow> git_out git_m" where
  "git_stagePaths c cwdInput paths expectedSha256 =
     and_then (resolveStagePaths c cwdInput paths) (\<lambda>(cwd, resolved).
       (case expectedSha256 of
          None \<Rightarrow> raise GitConflict
        | Some hashes \<Rightarrow>
            if length hashes \<noteq> length resolved \<or> list_ex (\<lambda>p. map_of hashes p = None) resolved then raise GitConflict
            else
              (let expected = (\<lambda>p. the (map_of hashes p)); dir = path_string cwd
               in and_then (check_expected c cwd resolved hashes) (\<lambda>_.
                  and_then (approve_each c cwd expected resolved) (\<lambda>approved.
                  and_then (stage_each c dir cwd expected approved resolved) (\<lambda>results.
                    (case find (\<lambda>r. go_exitCode r \<noteq> 0) results of
                       Some failed \<Rightarrow> ret failed
                     | None \<Rightarrow>
                         and_then (verify_each c dir expected approved resolved) (\<lambda>_. ret (last results)))))))))"

section \<open>Pushing\<close>

record verified_push =
  vp_branch :: string
  vp_head :: string

definition push_source :: "git_config \<Rightarrow> string \<Rightarrow> verified_push option \<Rightarrow> string \<Rightarrow> string git_m" where
  "push_source c cwd expected branch =
     (case expected of
        None \<Rightarrow> ret branch
      | Some e \<Rightarrow>
          and_then (lift_res (validateBranchName (vp_branch e))) (\<lambda>expectedBranch.
            if \<not> git_object_id (vp_head e) \<or> branch \<noteq> expectedBranch then raise GitStale
            else
              and_then (git_run c cwd [''rev-parse'', ''HEAD''] False) (\<lambda>headResult.
                if go_exitCode headResult \<noteq> 0 \<or> js_trim (go_stdout headResult) \<noteq> vp_head e then raise GitStale
                else ret (vp_head e))))"

definition git_push :: "git_config \<Rightarrow> string \<Rightarrow> verified_push option \<Rightarrow> git_out git_m" where
  "git_push c cwd expected =
     (if \<not> gs_remoteWriteEnabled c then raise GitPolicy
      else
        and_then (git_run c cwd [''branch'', ''--show-current''] False) (\<lambda>branchResult.
          if go_exitCode branchResult \<noteq> 0 \<or> js_trim (go_stdout branchResult) = [] then raise GitPolicy
          else
            and_then (lift_res (validateBranchName (js_trim (go_stdout branchResult)))) (\<lambda>branch.
            and_then (push_source c cwd expected branch) (\<lambda>source.
            and_then (git_run c cwd [''remote'', ''get-url'', ''--push'', ''origin''] False) (\<lambda>remoteResult.
              if go_exitCode remoteResult \<noteq> 0 \<or> \<not> gs_remoteUrlPolicy c (js_trim (go_stdout remoteResult))
              then raise GitPolicy
              else git_run c cwd [''push'', ''--porcelain'', ''origin'', source @ '':refs/heads/'' @ branch] True)))))"

end
