(* ===== verification/Git_Guarantees.thy ===== *)
theory Git_Guarantees
  imports Git_Service File_Tree
begin

text \<open>
  What \<open>GitService\<close> promises, whatever Git answers and whatever other programs do to the repository
  between the calls. The statements are about the log of resolved paths and children, with the
  triples of \<open>Crash_Triples\<close> on it.
\<close>

section \<open>Triples on the log\<close>

abbreviation gtriple ::
  "(git_entry list \<Rightarrow> bool) \<Rightarrow> 'a git_m \<Rightarrow> ('a \<Rightarrow> git_entry list \<Rightarrow> bool) \<Rightarrow> (git_entry list \<Rightarrow> bool) \<Rightarrow> bool"
where
  "gtriple \<equiv> crash_triple gw_log (\<lambda>_. []) (\<lambda>_. True)"

lemma gtripleI:
  assumes "\<And>w res w'. P (gw_log w) \<Longrightarrow> m w = (res, w') \<Longrightarrow>
    (\<forall>e. res = Inl e \<longrightarrow> E (gw_log w')) \<and> (\<forall>x. res = Inr x \<longrightarrow> Q x (gw_log w'))"
  shows "gtriple P m Q E"
  using assms by (intro tripleI) (auto simp: crash_hist_def)

lemma gtripleD:
  assumes "gtriple P m Q E" "P (gw_log w)" "m w = (res, w')"
  shows "res = Inl e \<Longrightarrow> E (gw_log w')" "res = Inr x \<Longrightarrow> Q x (gw_log w')"
  using tripleD [OF assms(1,2) _ assms(3)] by (auto simp: crash_hist_def)

lemma gtriple_ask:
  assumes "\<And>l. P l \<Longrightarrow> E l" "\<And>t x l. P l \<Longrightarrow> f t = Inr x \<Longrightarrow> Q x l"
  shows "gtriple P (ask f) Q E"
  using assms by (intro gtripleI) (auto simp: ask_def)

lemma gtriple_note: "(\<And>l. P l \<Longrightarrow> Q () (l @ [e])) \<Longrightarrow> gtriple P (note_entry e) Q E"
  by (intro gtripleI) (auto simp: note_entry_def)

lemma gtriple_lift:
  "(\<And>l. P l \<Longrightarrow> E l) \<Longrightarrow> (\<And>l x. P l \<Longrightarrow> r = Inr x \<Longrightarrow> Q x l) \<Longrightarrow> gtriple P (lift_res r) Q E"
  by (intro gtripleI) (auto simp: lift_res_def)

lemma gtriple_resolve:
  assumes "\<And>l. P l \<Longrightarrow> E l" "\<And>l p. P l \<Longrightarrow> Q p (l @ [Resolved input p])"
  shows "gtriple P (git_resolve c input) Q E"
  unfolding git_resolve_def
  by (rule triple_and_then [OF gtriple_ask [where Q = "\<lambda>_. P"] triple_and_then [OF gtriple_note triple_ret]])
    (use assms in auto)

lemma gtriple_info: "(\<And>l. P l \<Longrightarrow> E l) \<Longrightarrow> (\<And>l x. P l \<Longrightarrow> Q x l) \<Longrightarrow> gtriple P (git_info c p) Q E"
  unfolding git_info_def by (rule gtriple_ask) blast+

lemma gtriple_read: "(\<And>l. P l \<Longrightarrow> E l) \<Longrightarrow> (\<And>l x. P l \<Longrightarrow> Q x l) \<Longrightarrow> gtriple P (git_readFile c p) Q E"
  unfolding git_readFile_def by (rule gtriple_ask) blast+

lemma gtriple_spawn:
  assumes "\<And>l e. P l \<Longrightarrow> E (l @ [Spawned cwd (git_command args) write input (Inl e)])"
    "\<And>l x. P l \<Longrightarrow> Q x (l @ [Spawned cwd (git_command args) write input (Inr x)])"
  shows "gtriple P (spawnGit c cwd args input write) Q E"
proof (rule gtripleI)
  fix w res w' assume P: "P (gw_log w)" and e: "spawnGit c cwd args input write w = (res, w')"
  then have "gw_log w' = gw_log w @ [Spawned cwd (git_command args) write input res]"
    by (auto simp: spawnGit_def and_then_def ask_def note_entry_def lift_res_def split: if_splits)
  with assms [OF P] show "(\<forall>e. res = Inl e \<longrightarrow> E (gw_log w')) \<and> (\<forall>x. res = Inr x \<longrightarrow> Q x (gw_log w'))" by auto
qed

section \<open>Every command is inspected first\<close>

definition toplevel_command :: "string list" where
  "toplevel_command = git_command [''rev-parse'', ''--show-toplevel'']"

definition settings_command :: "string list" where
  "settings_command = git_command [''config'', ''--list'', ''--show-scope'', ''--null'']"

text \<open>A directory let through, the top level of its repository let through, and its settings in order.\<close>

definition inspection :: "git_entry list \<Rightarrow> abspath \<Rightarrow> bool" where
  "inspection es cwd \<longleftrightarrow> (\<exists>input found p listed.
     es = [Resolved input cwd, Spawned cwd toplevel_command False None (Inr found),
           Resolved (js_trim (go_stdout found)) p, Spawned cwd settings_command False None (Inr listed)]
     \<and> go_exitCode found = 0 \<and> go_exitCode listed = 0 \<and> commandCapableConfigKeys (go_stdout listed) = [])"

text \<open>Every child of a log in reverse is an inspection, or follows a successful one in its directory.\<close>

fun guarded_rev :: "git_entry list \<Rightarrow> bool" where
  "guarded_rev [] \<longleftrightarrow> True"
| "guarded_rev (Resolved input p # es) \<longleftrightarrow> guarded_rev es"
| "guarded_rev (Spawned cwd args write input r # es) \<longleftrightarrow> guarded_rev es
     \<and> (args \<in> {toplevel_command, settings_command} \<or> inspection (rev (take 4 es)) cwd)"

definition guarded :: "git_entry list \<Rightarrow> bool" where
  "guarded log \<longleftrightarrow> guarded_rev (rev log)"

lemma guarded_snoc [simp]:
  "guarded []"
  "guarded (l @ [Resolved input p]) \<longleftrightarrow> guarded l"
  "guarded (l @ [Spawned cwd args write inp r]) \<longleftrightarrow> guarded l
     \<and> (args \<in> {toplevel_command, settings_command} \<or> inspection (last_n 4 l) cwd)"
  by (simp_all add: guarded_def last_n_def take_rev)


abbreviation gkeeps :: "'a git_m \<Rightarrow> bool" where
  "gkeeps m \<equiv> gtriple guarded m (\<lambda>_. guarded) guarded"

lemma last_n_4 [simp]: "length es = 4 \<Longrightarrow> last_n 4 (l @ es) = es"
  by (simp add: last_n_def)

text \<open>What one call of \<open>run\<close> adds to the log: an inspection and the command, or only inspecting entries.\<close>

fun harmless :: "git_entry \<Rightarrow> bool" where
  "harmless (Resolved input p) \<longleftrightarrow> True"
| "harmless (Spawned cwd args write input r) \<longleftrightarrow> args \<in> {toplevel_command, settings_command}"

lemma guarded_harmless: "guarded l \<Longrightarrow> list_all harmless es \<Longrightarrow> guarded (l @ es)"
proof (induction es rule: rev_induct)
  case (snoc e es)
  then show ?case by (cases e) (simp_all flip: append_assoc)
qed simp

lemma authority_run:
  assumes "assertRepositoryAuthority c cwd w = (res, w')"
  shows "\<exists>es. gw_log w' = gw_log w @ es \<and> list_all harmless es
    \<and> (\<forall>x. res = Inr x \<longrightarrow> inspection (Resolved input cwd # es) cwd \<and> length es = 3)"
  using assms
  by (auto simp: assertRepositoryAuthority_def and_then_def spawnGit_def git_resolve_def ask_def note_entry_def
      lift_res_def ret_def raise_def Let_def inspection_def toplevel_command_def settings_command_def
      split: prod.splits sum.splits if_splits)

definition called :: "bool \<Rightarrow> string list \<Rightarrow> byte list option \<Rightarrow> git_error + git_out \<Rightarrow> git_entry list \<Rightarrow> bool" where
  "called write args input res es \<longleftrightarrow> list_all harmless es \<and> (\<exists>e. res = Inl e)
     \<or> (\<exists>cwd pre. es = pre @ [Spawned cwd (git_command args) write input res] \<and> length pre = 4
          \<and> inspection pre cwd \<and> list_all harmless pre)"

lemma run_input_run:
  assumes "git_run_input c cwdInput args input write w = (res, w')"
  shows "\<exists>es. gw_log w' = gw_log w @ es \<and> called write args input res es"
proof (cases "git_resolve c cwdInput w")
  case (Pair r w1)
  show ?thesis
  proof (cases r)
    case (Inl e)
    with Pair assms show ?thesis
      by (auto simp: git_run_input_def and_then_def git_resolve_def ask_def note_entry_def ret_def called_def
          split: sum.splits if_splits)
  next
    case (Inr cwd)
    with Pair have w1: "gw_log w1 = gw_log w @ [Resolved cwdInput cwd]"
      by (auto simp: git_resolve_def and_then_def ask_def note_entry_def ret_def split: sum.splits if_splits)
    obtain r2 w2 where a: "assertRepositoryAuthority c cwd w1 = (r2, w2)" by fastforce
    from authority_run [OF a] obtain es where es: "gw_log w2 = gw_log w1 @ es" "list_all harmless es"
      "\<forall>x. r2 = Inr x \<longrightarrow> inspection (Resolved cwdInput cwd # es) cwd \<and> length es = 3" by blast
    show ?thesis
    proof (cases r2)
      case (Inl e)
      with Pair Inr a assms es(1,2) w1 show ?thesis
        by (intro exI [of _ "Resolved cwdInput cwd # es"]) (auto simp: git_run_input_def and_then_def called_def)
    next
      case (Inr x)
      with Pair \<open>r = Inr cwd\<close> a assms have "spawnGit c cwd args input write w2 = (res, w')"
        by (simp add: git_run_input_def and_then_def)
      then have "gw_log w' = gw_log w2 @ [Spawned cwd (git_command args) write input res]"
        by (auto simp: spawnGit_def and_then_def ask_def note_entry_def lift_res_def split: if_splits)
      with es Inr w1 show ?thesis
        by (intro exI [of _ "(Resolved cwdInput cwd # es) @ [Spawned cwd (git_command args) write input res]"])
          (auto simp: called_def)
    qed
  qed
qed

lemma called_guarded:
  assumes "guarded l" "called write args input res es"
  shows "guarded (l @ es)"
proof -
  have "guarded (l @ pre @ [Spawned cwd (git_command args) write input res])"
    if "length pre = 4" "inspection pre cwd" "list_all harmless pre" for cwd pre
    using guarded_harmless [OF assms(1) that(3)] that by (simp flip: append_assoc)
  then show ?thesis using assms guarded_harmless by (auto simp: called_def)
qed

lemma run_input_keeps: "gkeeps (git_run_input c cwdInput args input write)"
proof (rule gtripleI)
  fix w res w' assume "guarded (gw_log w)" "git_run_input c cwdInput args input write w = (res, w')"
  then have "guarded (gw_log w')" using run_input_run called_guarded by metis
  then show "(\<forall>e. res = Inl e \<longrightarrow> guarded (gw_log w')) \<and> (\<forall>x. res = Inr x \<longrightarrow> guarded (gw_log w'))" by simp
qed

lemma run_keeps: "gkeeps (git_run c cwdInput args write)"
  by (simp add: git_run_def run_input_keeps)

lemma keeps_simple:
  "gkeeps (ret x)" "gkeeps (raise e)" "gkeeps (lift_res r)" "gkeeps (git_resolve c s)" "gkeeps (git_info c p)"
  "gkeeps (git_readFile c p)"
  by (simp_all add: triple_ret triple_raise gtriple_lift gtriple_resolve gtriple_info gtriple_read)

lemma keeps_bind: "gkeeps m \<Longrightarrow> (\<And>x. gkeeps (f x)) \<Longrightarrow> gkeeps (and_then m f)"
  by (rule triple_and_then)

lemma keeps_option: "(opt = None \<Longrightarrow> gkeeps m) \<Longrightarrow> (\<And>x. opt = Some x \<Longrightarrow> gkeeps (f x))
    \<Longrightarrow> gkeeps (case opt of None \<Rightarrow> m | Some x \<Rightarrow> f x)"
  by (cases opt) simp_all

lemma keeps_prod: "(\<And>x y. gkeeps (f x y)) \<Longrightarrow> gkeeps (case p of (x, y) \<Rightarrow> f x y)"
  by (cases p) simp

lemmas gkeeps = keeps_simple run_keeps run_input_keeps keeps_bind triple_if keeps_option keeps_prod

lemma stage_paths_keeps: "gkeeps (stage_paths_each c cwd inputs)"
  by (induction inputs) (auto intro!: gkeeps)

lemma check_expected_keeps: "gkeeps (check_expected c cwd paths hashes)"
  by (induction c cwd paths hashes rule: check_expected.induct) (auto intro!: gkeeps)

lemma approve_keeps: "gkeeps (approve_each c cwd expected inputs)"
  by (induction inputs) (auto intro!: gkeeps)

lemma stage_each_keeps: "gkeeps (stage_each c dir cwd expected approved inputs)"
  by (induction inputs) (auto intro!: gkeeps)

lemma verify_each_keeps: "gkeeps (verify_each c dir expected approved inputs)"
  by (induction inputs) (auto intro!: gkeeps)

section \<open>All operations\<close>

datatype git_operation =
    OpStatus string
  | OpInventory string int int "string option"
  | OpFileReview string string
  | OpDiff string bool bool
  | OpLog string int
  | OpCreateBranch string string
  | OpSwitchBranch string string
  | OpStagePaths string "string list" "(string \<times> string) list option"
  | OpCommit string string
  | OpMergeBranch string string
  | OpPush string "verified_push option"

fun git_operate :: "git_config \<Rightarrow> git_operation \<Rightarrow> unit git_m" where
  "git_operate c (OpStatus cwd) = and_then (git_status c cwd) (\<lambda>_. ret ())"
| "git_operate c (OpInventory cwd cursor pageSize snapshot) =
     and_then (git_inventory c cwd cursor pageSize snapshot) (\<lambda>_. ret ())"
| "git_operate c (OpFileReview cwd path) = and_then (git_fileReview c cwd path) (\<lambda>_. ret ())"
| "git_operate c (OpDiff cwd staged check) = and_then (git_diff c cwd staged check) (\<lambda>_. ret ())"
| "git_operate c (OpLog cwd limit) = and_then (git_log c cwd limit) (\<lambda>_. ret ())"
| "git_operate c (OpCreateBranch cwd branch) = and_then (git_createBranch c cwd branch) (\<lambda>_. ret ())"
| "git_operate c (OpSwitchBranch cwd branch) = and_then (git_switchBranch c cwd branch) (\<lambda>_. ret ())"
| "git_operate c (OpStagePaths cwd paths expected) = and_then (git_stagePaths c cwd paths expected) (\<lambda>_. ret ())"
| "git_operate c (OpCommit cwd message) = and_then (git_commit c cwd message) (\<lambda>_. ret ())"
| "git_operate c (OpMergeBranch cwd branch) = and_then (git_mergeBranch c cwd branch) (\<lambda>_. ret ())"
| "git_operate c (OpPush cwd expected) = and_then (git_push c cwd expected) (\<lambda>_. ret ())"

lemma stagePaths_keeps: "gkeeps (git_stagePaths c cwd paths expected)"
  unfolding git_stagePaths_def resolveStagePaths_def Let_def
  by (intro gkeeps stage_paths_keeps check_expected_keeps approve_keeps stage_each_keeps verify_each_keeps)

lemma push_keeps: "gkeeps (git_push c cwd expected)"
  unfolding git_push_def push_source_def by (intro gkeeps)

lemma fileReview_keeps: "gkeeps (git_fileReview c cwd input)"
  unfolding git_fileReview_def Let_def by (intro gkeeps)

lemma inventory_keeps: "gkeeps (git_inventory c cwd cursor pageSize snapshot)"
  unfolding git_inventory_def Let_def by (intro gkeeps)

lemma operate_keeps: "gkeeps (git_operate c op)"
  by (cases op) (auto simp: git_status_def git_diff_def git_log_def git_createBranch_def git_switchBranch_def
      git_commit_def git_mergeBranch_def intro!: gkeeps stagePaths_keeps push_keeps fileReview_keeps inventory_keeps)

lemma guarded_split:
  "guarded (xs @ Spawned cwd args write input r # ys) \<Longrightarrow> args \<notin> {toplevel_command, settings_command}
    \<Longrightarrow> inspection (last_n 4 xs) cwd"
proof (induction ys rule: rev_induct)
  case Nil
  then show ?case by simp
next
  case (snoc y ys)
  have "guarded (xs @ Spawned cwd args write input r # ys)"
    using snoc.prems(1) guarded_snoc(2,3) [of "xs @ Spawned cwd args write input r # ys"]
    by (cases y) (simp_all flip: append_assoc append_Cons)
  then show ?case by (rule snoc.IH) (rule snoc.prems)
qed

definition start_git :: "git_world" where
  "start_git = \<lparr>gw_time = 0, gw_log = []\<rparr>"

text \<open>
  C5: Every Git command of the service is guarded. Whatever Git answers and whoever changes the
  repository in between, each child that is not itself one of the two inspecting commands runs in a
  directory that the path policy let through, right after the top level of its repository was let
  through too and the listed settings of the repository held no key that can run a command.
\<close>

theorem git_commands_guarded:
  assumes "git_operate c op start_git = (res, w')" "gw_log w' = xs @ Spawned cwd args write input r # ys"
    "args \<noteq> git_command [''rev-parse'', ''--show-toplevel'']"
    "args \<noteq> git_command [''config'', ''--list'', ''--show-scope'', ''--null'']"
  shows "\<exists>before cwdInput found p listed. xs = before @ [Resolved cwdInput cwd,
      Spawned cwd (git_command [''rev-parse'', ''--show-toplevel'']) False None (Inr found),
      Resolved (js_trim (go_stdout found)) p,
      Spawned cwd (git_command [''config'', ''--list'', ''--show-scope'', ''--null'']) False None (Inr listed)]
    \<and> go_exitCode found = 0 \<and> go_exitCode listed = 0 \<and> commandCapableConfigKeys (go_stdout listed) = []"
proof -
  have "guarded (gw_log w')"
    using gtripleD [OF operate_keeps _ assms(1)] by (cases res) (auto simp: start_git_def)
  then have "inspection (last_n 4 xs) cwd"
    unfolding assms(2) by (rule guarded_split) (use assms(3,4) in \<open>simp add: toplevel_command_def settings_command_def\<close>)
  moreover have "xs = take (length xs - 4) xs @ last_n 4 xs" by (simp add: last_n_def)
  ultimately show ?thesis unfolding inspection_def toplevel_command_def settings_command_def by metis
qed

section \<open>Pushing\<close>

text \<open>Git answered a reading command, and has not been told to push.\<close>

definition said :: "string list \<Rightarrow> git_out \<Rightarrow> git_entry list \<Rightarrow> bool" where
  "said args out l \<longleftrightarrow> (\<exists>dir. Spawned dir (git_command args) False None (Inr out) \<in> set l)"

definition no_push :: "git_entry list \<Rightarrow> bool" where
  "no_push l \<longleftrightarrow> (\<forall>dir rest write input r. Spawned dir (git_command (''push'' # rest)) write input r \<notin> set l)"

lemma git_command_inject [simp]: "git_command a = git_command b \<longleftrightarrow> a = b"
  by (simp add: git_command_def)

lemma harmless_no_push: "list_all harmless es \<Longrightarrow> Spawned dir (git_command (''push'' # rest)) write input r \<notin> set es"
  by (auto simp: list_all_iff toplevel_command_def settings_command_def)

lemma run_reads:
  assumes "hd args \<noteq> ''push''" "\<And>l es. P l \<Longrightarrow> P (l @ es)"
  shows "gtriple (\<lambda>l. no_push l \<and> P l) (git_run c cwd args wr)
    (\<lambda>out l. no_push l \<and> P l \<and> (\<not> wr \<longrightarrow> said args out l)) no_push"
proof (rule gtripleI)
  fix w res w' assume P: "no_push (gw_log w) \<and> P (gw_log w)" and r: "git_run c cwd args wr w = (res, w')"
  from run_input_run [OF r [unfolded git_run_def]]
  obtain es where es: "gw_log w' = gw_log w @ es" "called wr args None res es" by blast
  have "no_push (gw_log w')"
    using P es assms(1) harmless_no_push by (fastforce simp: no_push_def called_def)
  moreover have "\<forall>out. res = Inr out \<longrightarrow> \<not> wr \<longrightarrow> said args out (gw_log w')"
    using es by (auto simp: said_def called_def)
  ultimately show "(\<forall>e. res = Inl e \<longrightarrow> no_push (gw_log w'))
      \<and> (\<forall>x. res = Inr x \<longrightarrow> no_push (gw_log w') \<and> P (gw_log w') \<and> (\<not> wr \<longrightarrow> said args x (gw_log w')))"
    using P es(1) assms(2) by simp
qed

lemma said_append: "said args out l \<Longrightarrow> said args out (l @ es)"
  by (auto simp: said_def)

text \<open>What Git had said, and the service checked, before the log tells it to push.\<close>

definition source_checked :: "verified_push option \<Rightarrow> string \<Rightarrow> string \<Rightarrow> git_entry list \<Rightarrow> bool" where
  "source_checked expected source branch l \<longleftrightarrow> (case expected of
     None \<Rightarrow> source = branch
   | Some e \<Rightarrow> source = vp_head e \<and> vp_branch e = branch \<and> git_object_id (vp_head e)
       \<and> (\<exists>out. said [''rev-parse'', ''HEAD''] out l \<and> go_exitCode out = 0 \<and> js_trim (go_stdout out) = vp_head e))"

definition branch_checked :: "git_config \<Rightarrow> string \<Rightarrow> git_entry list \<Rightarrow> bool" where
  "branch_checked c branch l \<longleftrightarrow> gs_remoteWriteEnabled c \<and> validateBranchName branch = Inr branch
     \<and> (\<exists>out. said [''branch'', ''--show-current''] out l \<and> go_exitCode out = 0 \<and> js_trim (go_stdout out) = branch)"

definition push_allowed :: "git_config \<Rightarrow> verified_push option \<Rightarrow> string \<Rightarrow> string \<Rightarrow> git_entry list \<Rightarrow> bool" where
  "push_allowed c expected source branch l \<longleftrightarrow> branch_checked c branch l \<and> source_checked expected source branch l
     \<and> (\<exists>out. said [''remote'', ''get-url'', ''--push'', ''origin''] out l \<and> go_exitCode out = 0
          \<and> gs_remoteUrlPolicy c (js_trim (go_stdout out)))"

lemma checked_append:
  "source_checked expected source branch l \<Longrightarrow> source_checked expected source branch (l @ es)"
  "branch_checked c branch l \<Longrightarrow> branch_checked c branch (l @ es)"
  "push_allowed c expected source branch l \<Longrightarrow> push_allowed c expected source branch (l @ es)"
  using said_append [of _ _ l es]
  by (auto simp: source_checked_def branch_checked_def push_allowed_def split: option.splits)

definition pushes_allowed :: "git_config \<Rightarrow> verified_push option \<Rightarrow> git_entry list \<Rightarrow> bool" where
  "pushes_allowed c expected l \<longleftrightarrow> (\<forall>dir rest write input r.
     Spawned dir (git_command (''push'' # rest)) write input r \<in> set l \<longrightarrow>
       (\<exists>source branch. rest = [''--porcelain'', ''origin'', source @ '':refs/heads/'' @ branch]
          \<and> push_allowed c expected source branch l))"

lemma validateBranchName_InrD: "validateBranchName b = Inr b' \<Longrightarrow> b' = b"
  by (auto simp: validateBranchName_def split: if_splits)

lemma run_pushes:
  "gtriple (\<lambda>l. no_push l \<and> push_allowed c expected source branch l)
     (git_run c cwd [''push'', ''--porcelain'', ''origin'', source @ '':refs/heads/'' @ branch] True)
     (\<lambda>_. pushes_allowed c expected) (pushes_allowed c expected)"
proof (rule gtripleI)
  let ?args = "[''push'', ''--porcelain'', ''origin'', source @ '':refs/heads/'' @ branch]"
  fix w res w' assume P: "no_push (gw_log w) \<and> push_allowed c expected source branch (gw_log w)"
    and r: "git_run c cwd ?args True w = (res, w')"
  from run_input_run [OF r [unfolded git_run_def]]
  obtain es where es: "gw_log w' = gw_log w @ es" "called True ?args None res es" by blast
  have "rest = tl ?args" if "Spawned dir (git_command (''push'' # rest)) wr inp x \<in> set (gw_log w')"
    for dir rest wr inp x
    using that P es harmless_no_push by (fastforce simp: no_push_def called_def)
  then have "pushes_allowed c expected (gw_log w')"
    using checked_append(3) P unfolding pushes_allowed_def es(1) by fastforce
  then show "(\<forall>e. res = Inl e \<longrightarrow> pushes_allowed c expected (gw_log w'))
      \<and> (\<forall>x. res = Inr x \<longrightarrow> pushes_allowed c expected (gw_log w'))" by simp
qed

lemma no_push_allowed: "no_push l \<Longrightarrow> pushes_allowed c expected l"
  by (simp add: no_push_def pushes_allowed_def)

lemma no_push_error: "no_push l \<and> P l \<Longrightarrow> no_push l"
  by simp

lemma source_triple:
  "gtriple (\<lambda>l. no_push l \<and> branch_checked c branch l) (push_source c cwd expected branch)
     (\<lambda>source l. no_push l \<and> branch_checked c branch l \<and> source_checked expected source branch l) no_push"
proof (cases expected)
  case None
  then show ?thesis by (auto simp: push_source_def source_checked_def intro: triple_ret)
next
  case (Some e)
  have head: "gtriple (\<lambda>l. no_push l \<and> branch_checked c branch l)
      (and_then (git_run c cwd [''rev-parse'', ''HEAD''] False) (\<lambda>headResult.
        if go_exitCode headResult \<noteq> 0 \<or> js_trim (go_stdout headResult) \<noteq> vp_head e then raise GitStale
        else ret (vp_head e)))
      (\<lambda>source l. no_push l \<and> branch_checked c branch l \<and> source_checked expected source branch l) no_push"
    if "git_object_id (vp_head e)" "branch = vp_branch e"
  proof (rule triple_and_then [OF run_reads [where P = "branch_checked c branch"]])
    fix out
    show "gtriple (\<lambda>l. no_push l \<and> branch_checked c branch l \<and> (\<not> False \<longrightarrow> said [''rev-parse'', ''HEAD''] out l))
        (if go_exitCode out \<noteq> 0 \<or> js_trim (go_stdout out) \<noteq> vp_head e then raise GitStale else ret (vp_head e))
        (\<lambda>source l. no_push l \<and> branch_checked c branch l \<and> source_checked expected source branch l) no_push"
      by (intro triple_if triple_raise triple_ret) (use that Some in \<open>auto simp: source_checked_def\<close>)
  qed (simp_all add: checked_append)
  show ?thesis unfolding push_source_def Some option.case
  proof (rule triple_and_then [OF gtriple_lift [where
        Q = "\<lambda>b l. b = vp_branch e \<and> no_push l \<and> branch_checked c branch l"]], goal_cases)
    case (3 b)
    show ?case by (rule triple_pure, intro triple_if triple_raise head [unfolded Some]) auto
  qed (auto dest: validateBranchName_InrD)
qed

lemma push_triple: "gtriple no_push (git_push c cwd expected) (\<lambda>_. pushes_allowed c expected) (pushes_allowed c expected)"
  unfolding git_push_def
proof (intro triple_if triple_raise no_push_allowed, assumption, goal_cases)
  case 1
  let ?B = "\<lambda>out l. no_push l \<and> True \<and> (\<not> False \<longrightarrow> said [''branch'', ''--show-current''] out l)"
  show ?case
  proof (rule triple_and_then [OF triple_conseq [OF run_reads [where P = "\<lambda>_. True" and wr = False], where Q' = ?B]], goal_cases)
    case (6 out)
    let ?S = "\<lambda>branch l. no_push l \<and> branch_checked c branch l"
    show ?case
    proof (intro triple_if triple_raise, simp add: no_push_allowed,
        rule triple_and_then [OF gtriple_lift [where Q = ?S]], goal_cases)
      case (2 l branch)
      with 1 6 show ?case by (auto simp: branch_checked_def dest: validateBranchName_InrD)
    next
      case (3 branch)
      show ?case
      proof (rule triple_and_then [OF triple_conseq [OF source_triple, where
            Q' = "\<lambda>source l. no_push l \<and> branch_checked c branch l \<and> source_checked expected source branch l"]], goal_cases)
        case (4 source)
        let ?C = "\<lambda>l. branch_checked c branch l \<and> source_checked expected source branch l"
        show ?case
        proof (rule triple_and_then [OF triple_conseq [OF run_reads [where P = ?C and wr = False], where
              Q' = "\<lambda>out l. no_push l \<and> ?C l \<and> said [''remote'', ''get-url'', ''--push'', ''origin''] out l"]], goal_cases)
          case (6 out)
          show ?case
            by (intro triple_if triple_raise triple_conseq [OF run_pushes])
              (auto simp: no_push_allowed push_allowed_def)
        qed (auto simp: checked_append no_push_allowed)
      qed (auto simp: no_push_allowed)
    qed (simp add: no_push_allowed)
  qed (auto simp: no_push_allowed)
qed

text \<open>
  C6: Only a checked head is pushed. If the log of a push holds the command to push, then writing to the remote
  was enabled, the command names exactly one refspec, its target is the branch Git had reported and
  that passed the branch rules, the push address of \<open>origin\<close> that Git had reported passed the address rule, and
  when a verified head was given, the source is this head, its branch is the current one, and Git had
  reported it as \<open>HEAD\<close>.
\<close>

theorem push_only_checked:
  assumes "git_push c cwd expected start_git = (res, w')"
    "Spawned dir (git_command (''push'' # rest)) wr inp r \<in> set (gw_log w')"
  shows "\<exists>source branch. rest = [''--porcelain'', ''origin'', source @ '':refs/heads/'' @ branch]
    \<and> gs_remoteWriteEnabled c \<and> validateBranchName branch = Inr branch
    \<and> (\<exists>out. said [''branch'', ''--show-current''] out (gw_log w') \<and> go_exitCode out = 0
         \<and> js_trim (go_stdout out) = branch)
    \<and> (\<exists>out. said [''remote'', ''get-url'', ''--push'', ''origin''] out (gw_log w') \<and> go_exitCode out = 0
         \<and> gs_remoteUrlPolicy c (js_trim (go_stdout out)))
    \<and> (case expected of
         None \<Rightarrow> source = branch
       | Some e \<Rightarrow> source = vp_head e \<and> vp_branch e = branch \<and> git_object_id (vp_head e)
           \<and> (\<exists>out. said [''rev-parse'', ''HEAD''] out (gw_log w') \<and> go_exitCode out = 0
                \<and> js_trim (go_stdout out) = vp_head e))"
proof -
  have "pushes_allowed c expected (gw_log w')"
    using gtripleD [OF push_triple _ assms(1)] by (cases res) (auto simp: start_git_def no_push_def)
  with assms(2) show ?thesis
    unfolding pushes_allowed_def push_allowed_def branch_checked_def source_checked_def by blast
qed

section \<open>Staging\<close>

text \<open>A statement about a log that stays true when the log grows, and a child that answered.\<close>

definition lasting :: "(git_entry list \<Rightarrow> bool) \<Rightarrow> bool" where
  "lasting P \<longleftrightarrow> (\<forall>l es. P l \<longrightarrow> P (l @ es))"

definition spawned :: "string list \<Rightarrow> bool \<Rightarrow> byte list option \<Rightarrow> git_out \<Rightarrow> git_entry list \<Rightarrow> bool" where
  "spawned args wr inp out l \<longleftrightarrow> (\<exists>dir. Spawned dir (git_command args) wr inp (Inr out) \<in> set l)"

lemma lasting_intros [intro]:
  "lasting (\<lambda>l. True)"
  "lasting (spawned args wr inp out)"
  "lasting P \<Longrightarrow> lasting Q \<Longrightarrow> lasting (\<lambda>l. P l \<and> Q l)"
  "(\<And>x. x \<in> A \<Longrightarrow> lasting (R x)) \<Longrightarrow> lasting (\<lambda>l. \<forall>x \<in> A. R x l)"
  "(b \<Longrightarrow> lasting P) \<Longrightarrow> lasting (\<lambda>l. b \<longrightarrow> P l)"
  by (auto simp: lasting_def spawned_def)

lemma run_spawned:
  assumes "lasting P"
  shows "gtriple P (git_run_input c cwd args inp wr) (\<lambda>out l. P l \<and> spawned args wr inp out l) (\<lambda>_. True)"
proof (rule gtripleI)
  fix w res w' assume P: "P (gw_log w)" and r: "git_run_input c cwd args inp wr w = (res, w')"
  from run_input_run [OF r]
  obtain es where "gw_log w' = gw_log w @ es" "called wr args inp res es" by blast
  with P assms show "(\<forall>e. res = Inl e \<longrightarrow> True) \<and> (\<forall>x. res = Inr x \<longrightarrow> P (gw_log w') \<and> spawned args wr inp x (gw_log w'))"
    by (auto simp: lasting_def called_def spawned_def)
qed

lemmas run_spawned' = run_spawned [where inp = None, folded git_run_def]

text \<open>The approved contents have the given hashes.\<close>

definition approved_ok ::
  "git_config \<Rightarrow> (string \<Rightarrow> string) \<Rightarrow> string list \<Rightarrow> (string \<times> byte list) list \<Rightarrow> bool" where
  "approved_ok c expected inputs approved \<longleftrightarrow>
     (\<forall>p \<in> set inputs. expected p \<noteq> ''deleted'' \<longrightarrow> map_of approved p \<noteq> None)
     \<and> (\<forall>(p, b) \<in> set approved. ge_sha256 (gs_env c) b = expected p)"

lemma approve_triple:
  "gtriple P (approve_each c cwd expected inputs) (\<lambda>approved l. approved_ok c expected inputs approved \<and> P l) (\<lambda>_. True)"
proof (induction inputs)
  case Nil
  show ?case by (auto simp: approved_ok_def intro: triple_ret)
next
  case (Cons p inputs)
  show ?case unfolding approve_each.simps
  proof (rule triple_and_then [OF gtriple_read [where Q = "\<lambda>_. P"]], simp, assumption)
    fix content
    show "gtriple P (case content of
        None \<Rightarrow> if expected p = ''deleted'' then approve_each c cwd expected inputs else raise GitSystem
      | Some b \<Rightarrow> if expected p \<noteq> ge_sha256 (gs_env c) b then raise GitConflict
          else and_then (approve_each c cwd expected inputs) (\<lambda>approved. ret ((p, b) # approved)))
      (\<lambda>approved l. approved_ok c expected (p # inputs) approved \<and> P l) (\<lambda>_. True)"
    proof (cases content)
      case None
      have "gtriple P (approve_each c cwd expected inputs)
          (\<lambda>approved l. approved_ok c expected (p # inputs) approved \<and> P l) (\<lambda>_. True)" if "expected p = ''deleted''"
        by (rule triple_conseq [OF Cons.IH]) (use that in \<open>auto simp: approved_ok_def\<close>)
      with None show ?thesis by (auto intro!: triple_raise)
    next
      case (Some b)
      have "gtriple P (and_then (approve_each c cwd expected inputs) (\<lambda>approved. ret ((p, b) # approved)))
          (\<lambda>approved l. approved_ok c expected (p # inputs) approved \<and> P l) (\<lambda>_. True)"
        if "expected p = ge_sha256 (gs_env c) b"
        by (rule triple_and_then [OF Cons.IH triple_ret]) (use that in \<open>auto simp: approved_ok_def\<close>)
      with Some show ?thesis by (auto intro!: triple_raise)
    qed
  qed
qed

text \<open>What the log holds for a staged path, and for a verified one.\<close>

definition staged :: "(string \<Rightarrow> string) \<Rightarrow> (string \<times> byte list) list \<Rightarrow> string \<Rightarrow> git_entry list \<Rightarrow> bool" where
  "staged expected approved p l \<longleftrightarrow>
     (if expected p = ''deleted''
      then (\<exists>out. spawned [''update-index'', ''--remove'', ''--'', p] True None out l \<and> go_exitCode out = 0)
      else (\<exists>b mode blob out. map_of approved p = Some b
        \<and> spawned [''hash-object'', ''-w'', ''--stdin''] True (Some b) blob l \<and> go_exitCode blob = 0
        \<and> spawned [''update-index'', ''--add'', ''--cacheinfo'', mode @ '','' @ js_trim (go_stdout blob) @ '','' @ p]
            True None out l \<and> go_exitCode out = 0))"

definition verified :: "(string \<Rightarrow> string) \<Rightarrow> (string \<times> byte list) list \<Rightarrow> string \<Rightarrow> git_entry list \<Rightarrow> bool" where
  "verified expected approved p l \<longleftrightarrow>
     (\<exists>index. spawned [''ls-files'', ''--stage'', ''-z'', ''--'', p] False None index l
        \<and> (if expected p = ''deleted'' then go_stdout index = []
           else go_exitCode index = 0 \<and> (\<exists>b blob. map_of approved p = Some b
             \<and> spawned [''hash-object'', ''--stdin''] False (Some b) blob l
             \<and> index_blob (go_stdout index) = Some (js_trim (go_stdout blob)))))"

lemma spawned_append: "spawned args wr inp out l \<Longrightarrow> spawned args wr inp out (l @ es)"
  by (auto simp: spawned_def)

lemma lasting_staged [intro]: "lasting (staged expected approved p)" "lasting (verified expected approved p)"
  using spawned_append unfolding lasting_def staged_def verified_def by (metis (lifting))+

lemma stage_one:
  assumes "lasting P"
  shows "gtriple P
    (if expected p = ''deleted'' then git_run c dir [''update-index'', ''--remove'', ''--'', p] True
     else
       (case map_of approved p of
          None \<Rightarrow> raise GitConflict
        | Some content \<Rightarrow>
            and_then (git_info c (path_resolve cwd p)) (\<lambda>info.
              case info of
                None \<Rightarrow> raise GitSystem
              | Some i \<Rightarrow>
                  if fi_kind i \<noteq> KindFile then raise GitConflict
                  else
                    and_then (git_run_input c dir [''hash-object'', ''-w'', ''--stdin''] (Some content) True) (\<lambda>blob.
                      if go_exitCode blob \<noteq> 0 \<or> \<not> blob_id (js_trim (go_stdout blob)) then raise GitConflict
                      else git_run c dir [''update-index'', ''--add'', ''--cacheinfo'',
                             file_mode i @ '','' @ js_trim (go_stdout blob) @ '','' @ p] True))))
    (\<lambda>r l. P l \<and> (go_exitCode r = 0 \<longrightarrow> staged expected approved p l)) (\<lambda>_. True)"
proof (rule triple_if)
  assume "expected p = ''deleted''"
  then show "gtriple P (git_run c dir [''update-index'', ''--remove'', ''--'', p] True)
      (\<lambda>r l. P l \<and> (go_exitCode r = 0 \<longrightarrow> staged expected approved p l)) (\<lambda>_. True)"
    by (intro triple_conseq [OF run_spawned' [OF assms]]) (auto simp: staged_def)
next
  assume d: "expected p \<noteq> ''deleted''"
  have add: "gtriple P (and_then (git_run_input c dir [''hash-object'', ''-w'', ''--stdin''] (Some b) True) (\<lambda>blob.
      if go_exitCode blob \<noteq> 0 \<or> \<not> blob_id (js_trim (go_stdout blob)) then raise GitConflict
      else git_run c dir [''update-index'', ''--add'', ''--cacheinfo'',
             file_mode i @ '','' @ js_trim (go_stdout blob) @ '','' @ p] True))
      (\<lambda>r l. P l \<and> (go_exitCode r = 0 \<longrightarrow> staged expected approved p l)) (\<lambda>_. True)"
    if "map_of approved p = Some b" for b i
  proof (rule triple_and_then [OF run_spawned [OF assms]], intro triple_if triple_raise TrueI)
    fix blob :: git_out assume ok: "\<not> (go_exitCode blob \<noteq> 0 \<or> \<not> blob_id (js_trim (go_stdout blob)))"
    let ?P = "\<lambda>l. P l \<and> spawned [''hash-object'', ''-w'', ''--stdin''] True (Some b) blob l"
    have L: "lasting ?P" using assms by blast
    show "gtriple ?P
        (git_run c dir [''update-index'', ''--add'', ''--cacheinfo'',
          file_mode i @ '','' @ js_trim (go_stdout blob) @ '','' @ p] True)
        (\<lambda>r l. P l \<and> (go_exitCode r = 0 \<longrightarrow> staged expected approved p l)) (\<lambda>_. True)"
      by (rule triple_conseq [OF run_spawned' [OF L]]) (use that d ok in \<open>auto simp: staged_def\<close>)
  qed
  show "gtriple P (case map_of approved p of
      None \<Rightarrow> raise GitConflict
    | Some content \<Rightarrow>
        and_then (git_info c (path_resolve cwd p)) (\<lambda>info.
          case info of
            None \<Rightarrow> raise GitSystem
          | Some i \<Rightarrow>
              if fi_kind i \<noteq> KindFile then raise GitConflict
              else
                and_then (git_run_input c dir [''hash-object'', ''-w'', ''--stdin''] (Some content) True) (\<lambda>blob.
                  if go_exitCode blob \<noteq> 0 \<or> \<not> blob_id (js_trim (go_stdout blob)) then raise GitConflict
                  else git_run c dir [''update-index'', ''--add'', ''--cacheinfo'',
                         file_mode i @ '','' @ js_trim (go_stdout blob) @ '','' @ p] True)))
    (\<lambda>r l. P l \<and> (go_exitCode r = 0 \<longrightarrow> staged expected approved p l)) (\<lambda>_. True)"
    using add
    by (auto split: option.split intro!: triple_raise triple_if triple_and_then [OF gtriple_info [where Q = "\<lambda>_. P"]])
qed

lemma stage_triple:
  assumes "lasting P"
  shows "gtriple P (stage_each c dir cwd expected approved inputs)
    (\<lambda>results l. P l \<and> length results = length inputs
       \<and> ((\<forall>r \<in> set results. go_exitCode r = 0) \<longrightarrow> (\<forall>p \<in> set inputs. staged expected approved p l))) (\<lambda>_. True)"
  using assms
proof (induction inputs arbitrary: P)
  case Nil
  then show ?case by (auto intro: triple_ret)
next
  case (Cons p inputs)
  show ?case unfolding stage_each.simps
  proof (rule triple_and_then [OF stage_one [OF Cons.prems]])
    fix r :: git_out
    let ?P = "\<lambda>l. P l \<and> (go_exitCode r = 0 \<longrightarrow> staged expected approved p l)"
    have L: "lasting ?P" using Cons.prems by (intro lasting_intros(3,5) lasting_staged)
    show "gtriple ?P (and_then (stage_each c dir cwd expected approved inputs) (\<lambda>results. ret (r # results)))
        (\<lambda>results l. P l \<and> length results = length (p # inputs)
          \<and> ((\<forall>r \<in> set results. go_exitCode r = 0) \<longrightarrow> (\<forall>p \<in> set (p # inputs). staged expected approved p l))) (\<lambda>_. True)"
      by (rule triple_and_then [OF Cons.IH [OF L] triple_ret]) auto
  qed
qed

lemma verify_triple:
  assumes "lasting P" "approved_ok c expected inputs approved"
  shows "gtriple P (verify_each c dir expected approved inputs)
    (\<lambda>_ l. P l \<and> (\<forall>p \<in> set inputs. verified expected approved p l)) (\<lambda>_. True)"
  using assms
proof (induction inputs arbitrary: P)
  case Nil
  then show ?case by (auto intro: triple_ret)
next
  case (Cons p inputs)
  have rest: "gtriple (\<lambda>l. P l \<and> verified expected approved p l) (verify_each c dir expected approved inputs)
      (\<lambda>_ l. P l \<and> (\<forall>p \<in> set (p # inputs). verified expected approved p l)) (\<lambda>_. True)"
    by (rule triple_conseq [OF Cons.IH [where P = "\<lambda>l. P l \<and> verified expected approved p l"]])
      (use Cons.prems in \<open>auto simp: approved_ok_def intro: lasting_intros(3)\<close>)
  show ?case unfolding verify_each.simps
  proof (rule triple_and_then [OF run_spawned' [OF Cons.prems(1)]])
    fix index :: git_out
    let ?I = "spawned [''ls-files'', ''--stage'', ''-z'', ''--'', p] False None index"
    let ?P = "\<lambda>l. P l \<and> ?I l"
    have L: "lasting ?P" using Cons.prems(1) by blast
    show "gtriple ?P
      (if expected p = ''deleted''
       then if go_stdout index \<noteq> [] then raise GitConflict else verify_each c dir expected approved inputs
       else and_then (git_run_input c dir [''hash-object'', ''--stdin'']
              (Some (case map_of approved p of None \<Rightarrow> [] | Some b \<Rightarrow> b)) False) (\<lambda>blob.
            if go_exitCode index \<noteq> 0 \<or> index_blob (go_stdout index) \<noteq> Some (js_trim (go_stdout blob))
            then raise GitConflict else verify_each c dir expected approved inputs))
      (\<lambda>_ l. P l \<and> (\<forall>p \<in> set (p # inputs). verified expected approved p l)) (\<lambda>_. True)"
    proof (intro triple_if triple_raise TrueI triple_conseq [OF rest])
      show "P l \<and> verified expected approved p l"
        if "expected p = ''deleted''" "\<not> go_stdout index \<noteq> []" "?P l" for l
        using that by (auto simp: verified_def)
    next
      assume d: "expected p \<noteq> ''deleted''"
      then obtain b where b: "map_of approved p = Some b" using Cons.prems(2) by (auto simp: approved_ok_def)
      show "gtriple ?P (and_then (git_run_input c dir [''hash-object'', ''--stdin'']
              (Some (case map_of approved p of None \<Rightarrow> [] | Some b \<Rightarrow> b)) False) (\<lambda>blob.
            if go_exitCode index \<noteq> 0 \<or> index_blob (go_stdout index) \<noteq> Some (js_trim (go_stdout blob))
            then raise GitConflict else verify_each c dir expected approved inputs))
        (\<lambda>_ l. P l \<and> (\<forall>p \<in> set (p # inputs). verified expected approved p l)) (\<lambda>_. True)"
        by (rule triple_and_then [OF run_spawned [OF L]], intro triple_if triple_raise TrueI triple_conseq [OF rest])
          (use b d in \<open>auto simp: verified_def\<close>)
    qed auto
  qed
qed

lemma check_expected_triple:
  "gtriple P (check_expected c cwd paths hashes) (\<lambda>_ l. fst ` set hashes \<subseteq> set paths \<and> P l) (\<lambda>_. True)"
proof (induction hashes)
  case Nil
  then show ?case by (auto intro: triple_ret)
next
  case (Cons h hashes)
  obtain input expected where h: "h = (input, expected)" by fastforce
  show ?case unfolding h check_expected.simps
  proof (intro triple_if triple_raise TrueI, rule triple_and_then [OF gtriple_read [where Q = "\<lambda>_. P"]], simp, assumption)
    fix content assume "\<not> input \<notin> set paths"
    then have "gtriple P (check_expected c cwd paths hashes)
        (\<lambda>_ l. fst ` set ((input, expected) # hashes) \<subseteq> set paths \<and> P l) (\<lambda>_. True)"
      by (intro triple_conseq [OF Cons.IH]) auto
    then show "gtriple P (case content of
        None \<Rightarrow> if expected = ''deleted'' then check_expected c cwd paths hashes else raise GitSystem
      | Some b \<Rightarrow> if ge_sha256 (gs_env c) b \<noteq> expected then raise GitConflict else check_expected c cwd paths hashes)
      (\<lambda>_ l. fst ` set ((input, expected) # hashes) \<subseteq> set paths \<and> P l) (\<lambda>_. True)"
      by (cases content) (auto intro: triple_raise)
  qed
qed

text \<open>Every path with a hash is staged and verified, with the approved contents.\<close>

definition all_staged :: "git_config \<Rightarrow> (string \<times> string) list \<Rightarrow> git_entry list \<Rightarrow> bool" where
  "all_staged c hashes l \<longleftrightarrow> (\<exists>resolved approved. fst ` set hashes = set resolved
     \<and> approved_ok c (\<lambda>p. the (map_of hashes p)) resolved approved
     \<and> (\<forall>p \<in> set resolved. staged (\<lambda>p. the (map_of hashes p)) approved p l
          \<and> verified (\<lambda>p. the (map_of hashes p)) approved p l))"

lemma finish_triple:
  assumes ok: "approved_ok c (\<lambda>p. the (map_of hashes p)) resolved approved" and hs: "fst ` set hashes = set resolved"
  shows "gtriple (\<lambda>l. length results = length resolved \<and> ((\<forall>r \<in> set results. go_exitCode r = 0) \<longrightarrow>
        (\<forall>p \<in> set resolved. staged (\<lambda>p. the (map_of hashes p)) approved p l)))
      (case find (\<lambda>r. go_exitCode r \<noteq> 0) results of
         Some failed \<Rightarrow> ret failed
       | None \<Rightarrow> and_then (verify_each c dir (\<lambda>p. the (map_of hashes p)) approved resolved) (\<lambda>_. ret (last results)))
      (\<lambda>out l. go_exitCode out = 0 \<longrightarrow> all_staged c hashes l) (\<lambda>_. True)"
proof (cases "find (\<lambda>r. go_exitCode r \<noteq> 0) results")
  case (Some failed)
  then have "go_exitCode failed \<noteq> 0" by (auto simp: find_Some_iff)
  with Some show ?thesis by (auto intro: triple_ret)
next
  case None
  let ?e = "\<lambda>p. the (map_of hashes p)"
  let ?P = "\<lambda>l. \<forall>p \<in> set resolved. staged ?e approved p l"
  have L: "lasting ?P" by blast
  have v: "gtriple ?P (and_then (verify_each c dir ?e approved resolved) (\<lambda>_. ret (last results)))
      (\<lambda>out l. go_exitCode out = 0 \<longrightarrow> all_staged c hashes l) (\<lambda>_. True)"
    by (rule triple_and_then [OF verify_triple [OF L ok] triple_ret]) (use hs ok in \<open>unfold all_staged_def, blast\<close>)
  have z: "\<forall>r \<in> set results. go_exitCode r = 0" using None by (auto simp: find_None_iff)
  show ?thesis unfolding None option.case by (rule triple_conseq [OF v]) (simp_all add: z)
qed

lemma stagePaths_triple:
  "gtriple (\<lambda>_. True) (git_stagePaths c cwdInput paths (Some hashes))
     (\<lambda>out l. go_exitCode out = 0 \<longrightarrow> all_staged c hashes l) (\<lambda>_. True)"
  unfolding git_stagePaths_def option.case Let_def
proof (rule triple_and_then [where Q' = "\<lambda>_ _. True"], rule gtripleI, simp)
  fix x :: "abspath \<times> string list"
  obtain cwd resolved where x: "x = (cwd, resolved)" by fastforce
  let ?e = "\<lambda>p. the (map_of hashes p)" and ?Q = "\<lambda>out l. go_exitCode out = 0 \<longrightarrow> all_staged c hashes l"
  let ?finish = "\<lambda>approved results. case find (\<lambda>r. go_exitCode r \<noteq> 0) results of
        Some failed \<Rightarrow> ret failed
      | None \<Rightarrow> and_then (verify_each c (path_string cwd) ?e approved resolved) (\<lambda>_. ret (last results))"
  show "gtriple (\<lambda>_. True) (case x of (cwd, resolved) \<Rightarrow>
      if length hashes \<noteq> length resolved \<or> list_ex (\<lambda>p. map_of hashes p = None) resolved then raise GitConflict
      else and_then (check_expected c cwd resolved hashes) (\<lambda>_.
        and_then (approve_each c cwd ?e resolved) (\<lambda>approved.
          and_then (stage_each c (path_string cwd) cwd ?e approved resolved) (\<lambda>results.
            case find (\<lambda>r. go_exitCode r \<noteq> 0) results of
              Some failed \<Rightarrow> ret failed
            | None \<Rightarrow> and_then (verify_each c (path_string cwd) ?e approved resolved) (\<lambda>_. ret (last results))))))
    ?Q (\<lambda>_. True)"
    unfolding x prod.case
  proof (intro triple_if triple_raise TrueI, rule triple_and_then [OF check_expected_triple], rule triple_pure)
    assume k: "\<not> (length hashes \<noteq> length resolved \<or> list_ex (\<lambda>p. map_of hashes p = None) resolved)"
      and sub: "fst ` set hashes \<subseteq> set resolved"
    have "set resolved \<subseteq> fst ` set hashes" using k by (auto simp: list_ex_iff map_of_eq_None_iff)
    with sub have hs: "fst ` set hashes = set resolved" by blast
    have "gtriple (\<lambda>_. True) (and_then (stage_each c (path_string cwd) cwd ?e approved resolved) (?finish approved))
        ?Q (\<lambda>_. True)" if "approved_ok c ?e resolved approved" for approved
      by (rule triple_and_then [OF stage_triple [OF lasting_intros(1)]], simp only: simp_thms, rule finish_triple [OF that hs])
    then show "gtriple (\<lambda>_. True) (and_then (approve_each c cwd ?e resolved) (\<lambda>approved.
        and_then (stage_each c (path_string cwd) cwd ?e approved resolved) (?finish approved))) ?Q (\<lambda>_. True)"
      by (intro triple_and_then [OF approve_triple] triple_pure)
  qed
qed


section \<open>Examples\<close>

definition demo_hash :: string where
  "demo_hash = replicate 64 CHR ''0''"

definition demo_gitenv :: "(nat \<times> string) list \<Rightarrow> git_config" where
  "demo_gitenv script = \<lparr>gs_env = \<lparr>ge_lstat = (\<lambda>_. demo_lst), ge_real = (\<lambda>_. demo_real),
       ge_info = (\<lambda>_ _. Present \<lparr>fi_kind = KindFile, fi_size = 1, fi_mode = 420\<rparr>), ge_read = (\<lambda>_ _. Present [120]),
       ge_child = (\<lambda>t. ([GitStdout (map of_char (case map_of script t of None \<Rightarrow> [] | Some out \<Rightarrow> out))], GitClose (Some 0))),
       ge_decode = map (\<lambda>b. char_of (unat b)), ge_sha256 = (\<lambda>_. demo_hash), ge_base64 = (\<lambda>_. []),
       ge_compare = flat\<rparr>,
     gs_roots = [[''w'']], gs_maxReadBytes = 100, gs_maxCommandOutputBytes = 60, gs_remoteWriteEnabled = True,
     gs_remoteUrlPolicy = isAllowedGitHubOrigin\<rparr>"

definition demo_guard_config :: git_config where
  "demo_guard_config = demo_gitenv [(1, ''/w'')]"

definition demo_head :: string where
  "demo_head = replicate 40 CHR ''a''"

definition demo_push_config :: git_config where
  "demo_push_config = demo_gitenv [(1, ''/w''), (4, ''topic''), (6, ''/w''), (9, demo_head), (11, ''/w''),
     (14, ''https://github.com/o/r''), (16, ''/w'')]"

definition demo_stage_config :: git_config where
  "demo_stage_config = demo_gitenv [(7, ''/w''), (10, demo_head), (12, ''/w''), (17, ''/w''),
     (20, ''100644 '' @ demo_head @ '' 0''), (22, ''/w''), (25, demo_head)]"

theorem git_commands_guarded_witness:
  "\<exists>before cwdInput found p listed. take 4 (gw_log (snd (git_operate demo_guard_config (OpStatus ''.'') start_git)))
     = before @ [Resolved cwdInput [''w''],
         Spawned [''w''] (git_command [''rev-parse'', ''--show-toplevel'']) False None (Inr found),
         Resolved (js_trim (go_stdout found)) p,
         Spawned [''w''] (git_command [''config'', ''--list'', ''--show-scope'', ''--null'']) False None (Inr listed)]
     \<and> go_exitCode found = 0 \<and> go_exitCode listed = 0 \<and> commandCapableConfigKeys (go_stdout listed) = []"
proof (rule git_commands_guarded)
  let ?r = "git_operate demo_guard_config (OpStatus ''.'') start_git"
  show "?r = (fst ?r, snd ?r)" by simp
  show "gw_log (snd ?r) = take 4 (gw_log (snd ?r)) @ Spawned [''w'']
      (git_command [''status'', ''--porcelain=v1'', ''--branch'', ''--untracked-files=all'']) False None
      (Inr \<lparr>go_cwd = Inr [''.''], go_exitCode = 0, go_stdout = [], go_stderr = []\<rparr>) # []" by code_simp
qed (simp_all add: git_command_def)

text \<open>One call of \<open>run\<close> in the example takes five questions.\<close>

definition demo_out :: "string \<Rightarrow> git_out" where
  "demo_out out = \<lparr>go_cwd = Inr [''.''], go_exitCode = 0, go_stdout = out, go_stderr = []\<rparr>"

definition demo_call :: "string \<Rightarrow> string list \<Rightarrow> bool \<Rightarrow> byte list option \<Rightarrow> string \<Rightarrow> git_entry list" where
  "demo_call cwdInput args wr inp out = [Resolved cwdInput [''w''],
     Spawned [''w''] (git_command [''rev-parse'', ''--show-toplevel'']) False None (Inr (demo_out ''/w'')),
     Resolved ''/w'' [''w''],
     Spawned [''w''] (git_command [''config'', ''--list'', ''--show-scope'', ''--null'']) False None (Inr (demo_out [])),
     Spawned [''w''] (git_command args) wr inp (Inr (demo_out out))]"

lemma demo_decode: "map (\<lambda>b. char_of (unat b)) (map of_char s :: byte list) = s"
  by (simp add: comp_def decode_char)

lemma demo_child:
  assumes "length out \<le> 60"
  shows "git_child (demo_gitenv script) [''w''] bound ([GitStdout (map of_char out)], GitClose (Some 0)) = Inr (demo_out out)"
proof -
  have "policy_display [[''w'']] [''w''] = Inr [''.'']" by code_simp
  then show ?thesis using assms demo_decode [of out]
    by (simp add: git_child_def demo_gitenv_def collect_def Let_def demo_out_def comp_def)
qed

lemma demo_git_resolve:
  "git_resolve (demo_gitenv script) ''.'' w = (Inr [''w''],
     w\<lparr>gw_time := Suc (gw_time w), gw_log := gw_log w @ [Resolved ''.'' [''w'']]\<rparr>)"
  "git_resolve (demo_gitenv script) ''/w'' w = (Inr [''w''],
     w\<lparr>gw_time := Suc (gw_time w), gw_log := gw_log w @ [Resolved ''/w'' [''w'']]\<rparr>)"
proof -
  have "policy_resolve demo_lst demo_real [[''w'']] ''.'' = Inr [''w'']"
    "policy_resolve demo_lst demo_real [[''w'']] ''/w'' = Inr [''w'']" by code_simp+
  then show "git_resolve (demo_gitenv script) ''.'' w = (Inr [''w''],
     w\<lparr>gw_time := Suc (gw_time w), gw_log := gw_log w @ [Resolved ''.'' [''w'']]\<rparr>)"
    "git_resolve (demo_gitenv script) ''/w'' w = (Inr [''w''],
     w\<lparr>gw_time := Suc (gw_time w), gw_log := gw_log w @ [Resolved ''/w'' [''w'']]\<rparr>)"
    by (simp_all add: git_resolve_def and_then_def ask_def note_entry_def ret_def demo_gitenv_def)
qed

lemma demo_spawn:
  assumes "out = (case map_of script (gw_time w) of None \<Rightarrow> [] | Some s \<Rightarrow> s)" "length out \<le> 60"
  shows "spawnGit (demo_gitenv script) [''w''] args inp wr w = (Inr (demo_out out),
    w\<lparr>gw_time := Suc (gw_time w), gw_log := gw_log w @ [Spawned [''w''] (git_command args) wr inp (Inr (demo_out out))]\<rparr>)"
proof -
  have "ge_child (gs_env (demo_gitenv script)) (gw_time w) = ([GitStdout (map of_char out)], GitClose (Some 0))"
    using assms(1) by (simp add: demo_gitenv_def)
  with demo_child [OF assms(2)] show ?thesis
    by (simp add: spawnGit_def and_then_def ask_def note_entry_def lift_res_def)
qed

lemma demo_run:
  assumes "cwdInput = ''.'' \<or> cwdInput = ''/w''"
    "map_of script (Suc (gw_time w)) = Some ''/w''" "map_of script (Suc (Suc (Suc (gw_time w)))) = None"
    "out = (case map_of script (Suc (Suc (Suc (Suc (gw_time w))))) of None \<Rightarrow> [] | Some s \<Rightarrow> s)" "length out \<le> 60"
  shows "git_run_input (demo_gitenv script) cwdInput args inp wr w = (Inr (demo_out out),
    w\<lparr>gw_time := Suc (Suc (Suc (Suc (Suc (gw_time w))))), gw_log := gw_log w @ demo_call cwdInput args wr inp out\<rparr>)"
proof -
  have t: "js_trim ''/w'' = ''/w''" "commandCapableConfigKeys [] = []" by code_simp+
  have d: "go_exitCode (demo_out s) = 0" "go_stdout (demo_out s) = s" for s by (simp_all add: demo_out_def)
  note spawn = demo_spawn [of "''/w''"] demo_spawn [of "[]"] demo_spawn [of out]
  show ?thesis
    using assms by (auto simp: git_run_input_def assertRepositoryAuthority_def and_then_def demo_git_resolve spawn t d Let_def
        ret_def demo_call_def)
qed

text \<open>The example of a push: four calls.\<close>

lemma demo_push:
  "git_push demo_push_config ''.'' (Some \<lparr>vp_branch = ''topic'', vp_head = demo_head\<rparr>) start_git = (Inr (demo_out []),
     \<lparr>gw_time = 20, gw_log = demo_call ''.'' [''branch'', ''--show-current''] False None ''topic''
        @ demo_call ''.'' [''rev-parse'', ''HEAD''] False None demo_head
        @ demo_call ''.'' [''remote'', ''get-url'', ''--push'', ''origin''] False None ''https://github.com/o/r''
        @ demo_call ''.'' [''push'', ''--porcelain'', ''origin'', demo_head @ '':refs/heads/topic''] True None []\<rparr>)"
proof -
  have t: "js_trim ''topic'' = ''topic''" "validateBranchName ''topic'' = Inr ''topic''" "git_object_id demo_head"
    "js_trim demo_head = demo_head" "js_trim ''https://github.com/o/r'' = ''https://github.com/o/r''"
    "isAllowedGitHubOrigin ''https://github.com/o/r''" "length demo_head = 40" by code_simp+
  have d: "go_exitCode (demo_out s) = 0" "go_stdout (demo_out s) = s" for s by (simp_all add: demo_out_def)
  have c: "gs_remoteWriteEnabled (demo_gitenv script)" "gs_remoteUrlPolicy (demo_gitenv script) = isAllowedGitHubOrigin" for script
    by (simp_all add: demo_gitenv_def)
  show ?thesis
    by (simp add: git_push_def push_source_def demo_push_config_def git_run_def c and_then_def demo_run start_git_def t d
        lift_res_def ret_def)
qed

theorem push_only_checked_witness:
  "\<exists>source branch. [''--porcelain'', ''origin'', demo_head @ '':refs/heads/topic'']
      = [''--porcelain'', ''origin'', source @ '':refs/heads/'' @ branch] \<and> gs_remoteWriteEnabled demo_push_config"
proof -
  have "Spawned [''w''] (git_command [''push'', ''--porcelain'', ''origin'', demo_head @ '':refs/heads/topic'']) True None
      (Inr (demo_out [])) \<in> set (demo_call ''.'' [''push'', ''--porcelain'', ''origin'', demo_head @ '':refs/heads/topic'']
        True None [])" by (simp add: demo_call_def)
  then have "Spawned [''w''] (git_command [''push'', ''--porcelain'', ''origin'', demo_head @ '':refs/heads/topic'']) True None
      (Inr (demo_out [])) \<in> set (gw_log (snd (git_push demo_push_config ''.''
        (Some \<lparr>vp_branch = ''topic'', vp_head = demo_head\<rparr>) start_git)))" by (simp add: demo_push)
  from push_only_checked [OF surjective_pairing this] show ?thesis by metis
qed

text \<open>The example of staging: a look at the path, then four calls.\<close>

lemma demo_look:
  "git_resolve (demo_gitenv script) ''/w/a'' w = (Inr [''w'', ''a''],
     w\<lparr>gw_time := Suc (gw_time w), gw_log := gw_log w @ [Resolved ''/w/a'' [''w'', ''a'']]\<rparr>)"
  "git_info (demo_gitenv script) p w = (Inr (Some \<lparr>fi_kind = KindFile, fi_size = 1, fi_mode = 420\<rparr>),
     w\<lparr>gw_time := Suc (gw_time w)\<rparr>)"
  "git_readFile (demo_gitenv script) p w = (Inr (Some [120]), w\<lparr>gw_time := Suc (gw_time w)\<rparr>)"
proof -
  have "policy_resolve demo_lst demo_real [[''w'']] ''/w/a'' = Inr [''w'', ''a'']" by code_simp
  then show "git_resolve (demo_gitenv script) ''/w/a'' w = (Inr [''w'', ''a''],
     w\<lparr>gw_time := Suc (gw_time w), gw_log := gw_log w @ [Resolved ''/w/a'' [''w'', ''a'']]\<rparr>)"
    by (simp add: git_resolve_def and_then_def ask_def note_entry_def ret_def demo_gitenv_def)
qed (simp_all add: git_info_def git_readFile_def ask_def demo_gitenv_def)

lemma demo_index: "index_blob (''100644 '' @ demo_head @ '' 0'') = Some demo_head"
proof -
  have "CHR 0x00 \<notin> set (''100644 '' @ demo_head @ '' 0'')" "CHR '' '' \<notin> set demo_head" "CHR 0x09 \<notin> set demo_head"
    by code_simp+
  then show ?thesis
    by (simp add: index_blob_def split_char_none split_char_append [of _ demo_head, simplified])
qed

lemma demo_stage:
  "fst (git_stagePaths demo_stage_config ''.'' [''a''] (Some [(''a'', demo_hash)]) start_git) = Inr (demo_out [])"
proof -
  let ?i = "''100644 '' @ demo_head @ '' 0''" and ?e = "\<lambda>p. the (if p = ''a'' then Some demo_hash else None)"
  define script :: "(nat \<times> string) list" where
    "script = [(7, ''/w''), (10, demo_head), (12, ''/w''), (17, ''/w''), (20, ?i), (22, ''/w''), (25, demo_head)]"
  have c: "demo_stage_config = demo_gitenv script" by (simp add: demo_stage_config_def script_def)
  have t: "sha256_text demo_hash" "demo_hash \<noteq> ''deleted''" "js_set [''a''] = [''a'']" "\<not> isAbsolute ''a''"
    "path_string (path_resolve [''w''] ''a'') = ''/w/a''" "isInside [''w''] [''w'', ''a'']"
    "relative_string (path_relative [''w''] [''w'', ''a'']) = ''a''" "path_string [''w''] = ''/w''"
    "blob_id demo_head" "js_trim demo_head = demo_head" "length demo_head = 40"
    "file_mode \<lparr>fi_kind = KindFile, fi_size = 1, fi_mode = 420\<rparr> = ''100644''" by code_simp+
  note t = t demo_index [simplified]
  have d: "go_exitCode (demo_out s) = 0" "go_stdout (demo_out s) = s" for s by (simp_all add: demo_out_def)
  have h: "ge_sha256 (gs_env (demo_gitenv script)) b = demo_hash" for b by (simp add: demo_gitenv_def)
  have p: "resolveStagePaths (demo_gitenv script) ''.'' [''a''] start_git
      = (Inr ([''w''], [''a'']), \<lparr>gw_time = 3, gw_log = [Resolved ''.'' [''w''], Resolved ''/w/a'' [''w'', ''a'']]\<rparr>)"
    by (simp add: resolveStagePaths_def and_then_def demo_git_resolve demo_look start_git_def t ret_def)
  have s: "\<exists>w'. gw_time w' = 16 \<and> stage_each (demo_gitenv script) ''/w'' [''w''] ?e [(''a'', [120])] [''a''] w = (Inr [demo_out []], w')"
    if "gw_time w = 5" for w
    using that by (simp add: git_run_def and_then_def demo_run demo_look t d ret_def script_def)
  have v: "\<exists>w'. verify_each (demo_gitenv script) ''/w'' ?e [(''a'', [120])] [''a''] w = (Inr (), w')"
    if "gw_time w = 16" for w
    using that by (simp add: git_run_def and_then_def demo_run t d ret_def script_def)
  obtain w1 where w1: "gw_time w1 = 16" "stage_each (demo_gitenv script) ''/w'' [''w''] ?e [(''a'', [120])] [''a'']
      \<lparr>gw_time = 5, gw_log = [Resolved ''.'' [''w''], Resolved ''/w/a'' [''w'', ''a'']]\<rparr> = (Inr [demo_out []], w1)"
    using s by force
  obtain w2 where w2: "verify_each (demo_gitenv script) ''/w'' ?e [(''a'', [120])] [''a''] w1 = (Inr (), w2)"
    using v [OF w1(1)] by blast
  show ?thesis
    by (simp add: git_stagePaths_def c and_then_def demo_look p w1(2) w2 t d h ret_def Let_def
        del: stage_each.simps verify_each.simps)
qed


section \<open>A way around the roots\<close>

text \<open>All answers about files come from one tree, which holds a link out of the allowed root.\<close>

definition tree_gitenv :: "tree \<Rightarrow> (nat \<times> string) list \<Rightarrow> git_config" where
  "tree_gitenv t script = (let c = demo_gitenv script in c\<lparr>gs_env := (gs_env c)\<lparr>
     ge_lstat := (\<lambda>_. tree_lstat t), ge_real := (\<lambda>_. tree_real t),
     ge_info := (\<lambda>_ p. case entry_of t p of
         Inl e \<Rightarrow> if e = ENOENT then Absent else Broken
       | Inr q \<Rightarrow> (case node_at t q of
           None \<Rightarrow> Absent
         | Some (FileNode b m) \<Rightarrow> Present \<lparr>fi_kind = KindFile, fi_size = length b, fi_mode = m\<rparr>
         | Some DirNode \<Rightarrow> Present \<lparr>fi_kind = KindDirectory, fi_size = 0, fi_mode = 493\<rparr>
         | Some _ \<Rightarrow> Present \<lparr>fi_kind = KindOther, fi_size = 0, fi_mode = 511\<rparr>)),
     ge_read := (\<lambda>_ p. case target_of t p of
         Inl e \<Rightarrow> if e = ENOENT then Absent else Broken
       | Inr q \<Rightarrow> (case node_at t q of
           None \<Rightarrow> Absent | Some (FileNode b m) \<Rightarrow> Present b | Some _ \<Rightarrow> Broken))\<rparr>\<rparr>)"

definition escape_tree :: tree where
  "escape_tree = [([''w''], DirNode), ([''w'', ''l''], LinkNode ''/x''), ([''x''], DirNode),
     ([''x'', ''s''], FileNode [104, 105] 384)]"

definition escape_config :: git_config where
  "escape_config = tree_gitenv escape_tree [(2, ''/w'')]"

text \<open>
  A review reads outside the roots. \<open>fileReview\<close> compares the path with its directory only as text: in a
  tree where \<open>/w\<close> is the only root and \<open>/w/l\<close> a link to \<open>/x\<close>, the path policy refuses \<open>l/s\<close>, yet
  the review of \<open>l/s\<close> succeeds and returns the content of \<open>/x/s\<close> with its hash.
\<close>

theorem review_escapes_roots:
  "policy_resolve (tree_lstat escape_tree) (tree_real escape_tree) [[''w'']] ''l/s'' = Inl SymlinkEscape
   \<and> gs_roots escape_config = [[''w'']] \<and> node_at escape_tree [''x'', ''s''] = Some (FileNode (map of_char ''hi'') 384)
   \<and> (case git_fileReview escape_config ''.'' ''l/s'' start_git of
        (Inl _, _) \<Rightarrow> False
      | (Inr review, _) \<Rightarrow> fr_diff review = ''hi'' \<and> \<not> fr_deletion review
          \<and> fr_contentSha256 review = Some (ge_sha256 (gs_env escape_config) (map of_char ''hi'')))"
  by (intro conjI; code_simp)

end
