(* ===== verification/Project_Detection.thy ===== *)
theory Project_Detection
  imports Task_State Git_Calls
begin

text \<open>
  Which checks a project has: \<open>project-native-checks.ts\<close>, \<open>project-xcode-checks.ts\<close> and the detection
  in \<open>project-check-service.ts\<close>, all under \<open>src/src/project/\<close>. As for the Git service, the environment answers
  every question anew: files can change between any two calls. \<open>JSON.parse\<close>, the text decoder and SHA-256
  are parameters.
\<close>

section \<open>Data\<close>

datatype check_status = CheckPass | CheckFail | CheckNotRun | CheckStale | CheckUnavailable

datatype check_kind = KindCheck | KindTypecheck | KindLint | KindTest | KindBuild

datatype check_lane = ProjectSandbox | AdminHost

record detected_check =
  dc_checkId :: string
  dc_kind :: check_kind
  dc_command :: string
  dc_args :: "string list"
  dc_cwd :: string
  dc_source :: string
  dc_execution :: check_lane

record command_result =
  cr_exitCode :: "int option"
  cr_stdout :: string
  cr_stderr :: string

text \<open>Why an executor threw: the codes that \<open>run\<close> tells apart.\<close>

datatype exec_failure = ExecUnavailable | ExecTimeout | ExecOther task_error

section \<open>The environment\<close>

record check_env =
  pe_repo :: "nat \<Rightarrow> repo_env"
  pe_open :: "nat \<Rightarrow> abspath \<Rightarrow> open_result"
  pe_lstat :: "nat \<Rightarrow> abspath \<Rightarrow> file_kind answer"
  pe_readdir :: "nat \<Rightarrow> abspath \<Rightarrow> string list option"
  pe_exec :: "nat \<Rightarrow> check_lane \<Rightarrow> string \<Rightarrow> string list \<Rightarrow> abspath \<Rightarrow> int \<Rightarrow> exec_failure + command_result"
  pe_mkdir :: "nat \<Rightarrow> bool"
  pe_write :: "nat \<Rightarrow> bool"
  pe_iso :: "nat \<Rightarrow> string"
  pe_ms :: "nat \<Rightarrow> int"
  pe_parse :: "string \<Rightarrow> jval option"
  pe_decode :: "byte list \<Rightarrow> string"
  pe_sha256 :: "byte list \<Rightarrow> string"

record check_config =
  pc_env :: check_env
  pc_stateRoot :: abspath
  pc_project :: bool
  pc_commandTimeoutMs :: int

datatype check_event =
    CheckObserved observation
  | CheckExecuted detected_check abspath "exec_failure + command_result"
  | CheckPersisted abspath jval

record check_world =
  cw_time :: nat
  cw_log :: "check_event list"
  cw_disk :: task_disk

type_synonym 'a check_m = "(check_world, task_error, 'a) prog"

definition inquire :: "(nat \<Rightarrow> task_error + 'a) \<Rightarrow> 'a check_m" where
  "inquire f = (\<lambda>w. (f (cw_time w), w\<lparr>cw_time := cw_time w + 1\<rparr>))"

section \<open>Files\<close>

text \<open>\<open>readRegularText\<close>: the size is what \<open>stat\<close> reports, the bytes are what is read afterwards.\<close>

definition readRegularText :: "check_config \<Rightarrow> abspath \<Rightarrow> nat \<Rightarrow> string option check_m" where
  "readRegularText c candidate maxBytes = inquire (\<lambda>t.
     case pe_open (pc_env c) t candidate of
       OpenFile size' content \<Rightarrow>
         if size' > maxBytes then Inl TaskLimit else Inr (Some (pe_decode (pc_env c) content))
     | OpenOther \<Rightarrow> Inl TaskPolicy
     | OpenLoop _ \<Rightarrow> Inl TaskPolicy
     | OpenMissing \<Rightarrow> Inr None
     | OpenFails \<Rightarrow> Inl TaskSystem)"

text \<open>\<open>lstat\<close> says that a path has a given kind; the same helper for files and for directories.\<close>

definition has_kind :: "check_config \<Rightarrow> file_kind \<Rightarrow> abspath \<Rightarrow> bool check_m" where
  "has_kind c kind candidate = inquire (\<lambda>t.
     case pe_lstat (pc_env c) t candidate of
       Absent \<Rightarrow> Inr False | Broken \<Rightarrow> Inl TaskSystem | Present k \<Rightarrow> Inr (k = kind))"

definition regularFileExists :: "check_config \<Rightarrow> abspath \<Rightarrow> bool check_m" where
  "regularFileExists c candidate = has_kind c KindFile candidate"

definition isRegularFile :: "check_config \<Rightarrow> abspath \<Rightarrow> bool check_m" where
  "isRegularFile c candidate = has_kind c KindFile candidate"

definition isRealDirectory :: "check_config \<Rightarrow> abspath \<Rightarrow> bool check_m" where
  "isRealDirectory c candidate = has_kind c KindDirectory candidate"

definition list_directory :: "check_config \<Rightarrow> abspath \<Rightarrow> string list check_m" where
  "list_directory c d = inquire (\<lambda>t. case pe_readdir (pc_env c) t d of None \<Rightarrow> Inl TaskSystem | Some ns \<Rightarrow> Inr ns)"

section \<open>Native tests\<close>

definition lower_alnum :: "char \<Rightarrow> bool" where
  "lower_alnum ch \<longleftrightarrow> ch \<in> set ''abcdefghijklmnopqrstuvwxyz0123456789''"

definition lower_alpha :: "char \<Rightarrow> bool" where
  "lower_alpha ch \<longleftrightarrow> ch \<in> set ''abcdefghijklmnopqrstuvwxyz''"

definition native_script_name :: "string \<Rightarrow> bool" where
  "native_script_name s \<longleftrightarrow> length s \<le> 100 \<and> s \<noteq> [] \<and> lower_alpha (hd s) \<and> ends_with s '':macos''
     \<and> list_all (\<lambda>ch. lower_alnum ch \<or> ch \<in> set '':_-'') s"

definition isNativeMacosScriptInvocation :: "string \<Rightarrow> string list \<Rightarrow> bool" where
  "isNativeMacosScriptInvocation command args \<longleftrightarrow>
     command \<in> set [''npm'', ''pnpm'', ''yarn'', ''bun'']
     \<and> (let name = (case args of
              first # rest \<Rightarrow>
                if first = ''run'' \<or> first = ''run-script'' then (case rest of second # _ \<Rightarrow> Some second | [] \<Rightarrow> None)
                else if command = ''yarn'' \<or> command = ''bun'' then Some first else None
            | [] \<Rightarrow> None)
        in case name of None \<Rightarrow> False | Some s \<Rightarrow> native_script_name s)"

definition macos_test_script :: "string \<Rightarrow> bool" where
  "macos_test_script s \<longleftrightarrow>
     (let segments = split_char CHR '':'' s
      in length segments \<ge> 2 \<and> hd segments = ''test'' \<and> last segments = ''macos''
         \<and> list_all (\<lambda>g. g \<noteq> [] \<and> lower_alnum (hd g) \<and> list_all (\<lambda>ch. lower_alnum ch \<or> ch = CHR ''-'') (tl g))
             (butlast (tl segments)))"

definition package_component :: "string \<Rightarrow> bool" where
  "package_component s \<longleftrightarrow> s \<noteq> [] \<and> list_all (\<lambda>ch. alnum ch \<or> ch \<in> set ''_-'') s"

text \<open>The package path of a script that is exactly a Swift test, \<open>.\<close> when it names none.\<close>

definition swift_test :: "string \<Rightarrow> string option" where
  "swift_test s =
     (let p = ''swift test --package-path '' in
      if s = ''swift test'' then Some ''.''
      else if take (length p) s = p
        \<and> length (split_char CHR ''/'' (drop (length p) s)) \<le> 8
        \<and> list_all package_component (split_char CHR ''/'' (drop (length p) s))
      then Some (drop (length p) s)
      else None)"

fun real_directories :: "check_config \<Rightarrow> abspath \<Rightarrow> string list \<Rightarrow> abspath option check_m" where
  "real_directories c current [] = ret (Some current)"
| "real_directories c current (component # rest) =
     and_then (isRealDirectory c (current @ [component])) (\<lambda>ok.
       if ok then real_directories c (current @ [component]) rest else ret None)"

definition safePackageManifest :: "check_config \<Rightarrow> abspath \<Rightarrow> string \<Rightarrow> bool check_m" where
  "safePackageManifest c root relativePackage =
     and_then (real_directories c root (if relativePackage = ''.'' then [] else split_char CHR ''/'' relativePackage)) (\<lambda>d.
       case d of None \<Rightarrow> ret False | Some current \<Rightarrow> isRegularFile c (current @ [''Package.swift'']))"

definition native_check :: "string \<Rightarrow> string \<Rightarrow> detected_check" where
  "native_check name packagePath = \<lparr>dc_checkId = ''package-script:'' @ name, dc_kind = KindTest, dc_command = ''swift'',
     dc_args = (if packagePath = ''.'' then [''test''] else [''test'', ''--package-path'', packagePath]), dc_cwd = ''.'',
     dc_source = ''package.json#scripts.'' @ name, dc_execution = AdminHost\<rparr>"

text \<open>\<open>discoverNativeSwiftTestChecks\<close>, with the number of checks that may still be added.\<close>

fun native_checks :: "check_config \<Rightarrow> abspath \<Rightarrow> nat \<Rightarrow> (string \<times> jval) list \<Rightarrow> detected_check list check_m" where
  "native_checks c root n [] = ret []"
| "native_checks c root n ((name, value) # rest) =
     (if n = 0 then ret []
      else if length name > 100 \<or> \<not> macos_test_script name \<or> \<not> is_JString value \<or> length (jstring value) > 512
      then native_checks c root n rest
      else
        (case swift_test (js_trim (jstring value)) of
           None \<Rightarrow> native_checks c root n rest
         | Some packagePath \<Rightarrow>
             and_then (safePackageManifest c root packagePath) (\<lambda>safe.
               if \<not> safe then native_checks c root n rest
               else
                 and_then (native_checks c root (n - 1) rest) (\<lambda>more. ret (native_check name packagePath # more)))))"

definition discoverNativeSwiftTestChecks ::
  "check_config \<Rightarrow> abspath \<Rightarrow> (string \<times> jval) list \<Rightarrow> detected_check list check_m" where
  "discoverNativeSwiftTestChecks c root scripts = native_checks c root 32 scripts"

section \<open>Xcode projects\<close>

definition SAFE_NAME :: "string \<Rightarrow> bool" where
  "SAFE_NAME s \<longleftrightarrow> s \<noteq> [] \<and> length s \<le> 100 \<and> alnum (hd s) \<and> list_all (\<lambda>ch. alnum ch \<or> ch \<in> set ''._-'') (tl s)"

definition MAX_SCHEME_BYTES :: nat where "MAX_SCHEME_BYTES = 1024 * 1024"

text \<open>An opening tag with this name: a space, a slash or the end of the tag follows.\<close>

definition has_tag :: "string \<Rightarrow> string \<Rightarrow> bool" where
  "has_tag name s \<longleftrightarrow>
     (let p = CHR ''<'' # name
      in list_ex (\<lambda>i. take (length p) (drop i s) = p
           \<and> (case drop (i + length p) s of ch # _ \<Rightarrow> js_space ch \<or> ch \<in> set ''/>'' | [] \<Rightarrow> False)) [0..<length s])"

definition containsBuildAndTestActions :: "check_config \<Rightarrow> abspath \<Rightarrow> bool check_m" where
  "containsBuildAndTestActions c candidate = inquire (\<lambda>t.
     case pe_open (pc_env c) t candidate of
       OpenFile size' content \<Rightarrow>
         if size' > MAX_SCHEME_BYTES then Inr False
         else (let scheme = pe_decode (pc_env c) content
               in Inr (has_tag ''BuildAction'' scheme \<and> has_tag ''TestAction'' scheme))
     | OpenOther \<Rightarrow> Inr False
     | OpenLoop _ \<Rightarrow> Inr False
     | OpenMissing \<Rightarrow> Inr False
     | OpenFails \<Rightarrow> Inl TaskSystem)"

text \<open>Go on only if a test holds.\<close>

definition unless_no :: "bool check_m \<Rightarrow> 'a list check_m \<Rightarrow> 'a list check_m" where
  "unless_no test m = and_then test (\<lambda>ok. if ok then m else ret [])"

definition xcode_check :: "string \<Rightarrow> string \<Rightarrow> string \<Rightarrow> bool \<Rightarrow> detected_check" where
  "xcode_check projectName schemeName source build =
     (let common = [''-project'', projectName, ''-scheme'', schemeName]
      in if \<not> build
         then \<lparr>dc_checkId = ''xcode:test'', dc_kind = KindTest, dc_command = ''xcodebuild'',
           dc_args = [''-quiet''] @ common @ [''-configuration'', ''Debug'', ''-destination'', ''platform=macOS'',
             ''-parallel-testing-enabled'', ''NO'', ''-jobs'', ''2'',
             ''CODE_SIGNING_ALLOWED=NO'', ''SWIFT_TREAT_WARNINGS_AS_ERRORS=YES'', ''test''],
           dc_cwd = ''.'', dc_source = source, dc_execution = AdminHost\<rparr>
         else \<lparr>dc_checkId = ''xcode:release-build'', dc_kind = KindBuild, dc_command = ''xcodebuild'',
           dc_args = [''-quiet''] @ common @ [''-configuration'', ''Release'', ''-destination'', ''platform=macOS'',
             ''-jobs'', ''2'', ''CODE_SIGNING_ALLOWED=NO'', ''SWIFT_TREAT_WARNINGS_AS_ERRORS=YES'', ''build''],
           dc_cwd = ''.'', dc_source = source, dc_execution = AdminHost\<rparr>)"

definition without_suffix :: "string \<Rightarrow> string \<Rightarrow> string" where
  "without_suffix suf s = take (length s - length suf) s"

definition discoverXcodeProjectChecks :: "check_config \<Rightarrow> abspath \<Rightarrow> detected_check list check_m" where
  "discoverXcodeProjectChecks c root =
     and_then (list_directory c root) (\<lambda>names.
       (case filter (\<lambda>s. ends_with s ''.xcodeproj'') names of
          [projectName] \<Rightarrow>
            (let project = root @ [projectName]; shared = project @ [''xcshareddata''];
                 schemeDirectory = shared @ [''xcschemes'']
             in if \<not> SAFE_NAME (without_suffix ''.xcodeproj'' projectName) then ret []
                else
                  unless_no (isRealDirectory c project) (
                  unless_no (isRegularFile c (project @ [''project.pbxproj''])) (
                  unless_no (isRealDirectory c shared) (
                  unless_no (isRealDirectory c schemeDirectory) (
                  and_then (list_directory c schemeDirectory) (\<lambda>schemeNames.
                    (case filter (\<lambda>s. ends_with s ''.xcscheme'') schemeNames of
                       [schemeFile] \<Rightarrow>
                         (let schemeName = without_suffix ''.xcscheme'' schemeFile; scheme = schemeDirectory @ [schemeFile];
                              source = projectName @ ''/xcshareddata/xcschemes/'' @ schemeFile
                          in if \<not> SAFE_NAME schemeName then ret []
                             else
                               unless_no (isRegularFile c scheme) (
                               unless_no (containsBuildAndTestActions c scheme) (
                               ret [xcode_check projectName schemeName source False,
                                    xcode_check projectName schemeName source True])))
                     | _ \<Rightarrow> ret [])))))))
        | _ \<Rightarrow> ret []))"

section \<open>Detection\<close>

definition MAX_STORE_BYTES :: nat where "MAX_STORE_BYTES = 1024 * 1024"
definition MAX_PACKAGE_BYTES :: nat where "MAX_PACKAGE_BYTES = 1024 * 1024"
definition MAX_CHECKS :: nat where "MAX_CHECKS = 32"

definition members :: "jval \<Rightarrow> (string \<times> jval) list" where
  "members v = (case v of JObj fs \<Rightarrow> fs | _ \<Rightarrow> [])"

definition is_JObj :: "jval \<Rightarrow> bool" where
  "is_JObj v = (case v of JObj _ \<Rightarrow> True | _ \<Rightarrow> False)"

definition scriptValue :: "jval \<Rightarrow> string \<Rightarrow> bool" where
  "scriptValue scripts name \<longleftrightarrow> is_JString (jget scripts name) \<and> js_trim (jstring (jget scripts name)) \<noteq> []"

text \<open>The package manager that the member \<open>packageManager\<close> names, before an \<open>@\<close>.\<close>

definition named_manager :: "jval \<Rightarrow> string option" where
  "named_manager packageManager =
     (if is_JString packageManager
      then find (\<lambda>m. map js_lower (take (length m + 1) (js_trim (jstring packageManager))) = m @ ''@'')
             [''npm'', ''pnpm'', ''yarn'', ''bun'']
      else None)"

definition detectPackageManager :: "check_config \<Rightarrow> abspath \<Rightarrow> jval \<Rightarrow> string check_m" where
  "detectPackageManager c root packageJson =
     (case named_manager (jget packageJson ''packageManager'') of
        Some manager \<Rightarrow> ret manager
      | None \<Rightarrow>
          and_then (regularFileExists c (root @ [''pnpm-lock.yaml''])) (\<lambda>pnpm.
            if pnpm then ret ''pnpm''
            else and_then (regularFileExists c (root @ [''yarn.lock''])) (\<lambda>yarn.
              if yarn then ret ''yarn''
              else and_then (regularFileExists c (root @ [''bun.lockb''])) (\<lambda>bun.
                if bun then ret ''bun''
                else and_then (regularFileExists c (root @ [''bun.lock''])) (\<lambda>bun.
                  if bun then ret ''bun'' else ret ''npm'')))))"

definition script_check :: "check_kind \<Rightarrow> string \<Rightarrow> string \<Rightarrow> detected_check" where
  "script_check kind manager script = \<lparr>dc_checkId = ''package-script:'' @ script, dc_kind = kind, dc_command = manager,
     dc_args = [''run'', script], dc_cwd = ''.'', dc_source = ''package.json#scripts.'' @ script,
     dc_execution = ProjectSandbox\<rparr>"

definition script_checks :: "jval \<Rightarrow> string \<Rightarrow> detected_check list" where
  "script_checks scripts manager =
     (if scriptValue scripts ''check'' then [script_check KindCheck manager ''check'']
      else
        (if scriptValue scripts ''typecheck'' then [script_check KindTypecheck manager ''typecheck'']
         else if scriptValue scripts ''type-check'' then [script_check KindTypecheck manager ''type-check''] else [])
        @ (if scriptValue scripts ''lint'' then [script_check KindLint manager ''lint''] else [])
        @ (if scriptValue scripts ''test'' then [script_check KindTest manager ''test''] else [])
        @ (if scriptValue scripts ''build'' then [script_check KindBuild manager ''build''] else []))"

definition detectNodeChecks :: "check_config \<Rightarrow> abspath \<Rightarrow> detected_check list check_m" where
  "detectNodeChecks c root =
     and_then (readRegularText c (root @ [''package.json'']) MAX_PACKAGE_BYTES) (\<lambda>packageText.
       case packageText of
         None \<Rightarrow> ret []
       | Some s \<Rightarrow>
           (case pe_parse (pc_env c) s of
              Some (JObj fs) \<Rightarrow>
                (let packageJson = JObj fs; scripts = jget packageJson ''scripts''
                 in if \<not> is_JObj scripts then ret []
                    else
                      and_then (detectPackageManager c root packageJson) (\<lambda>manager.
                      and_then (discoverNativeSwiftTestChecks c root (members scripts)) (\<lambda>nativeChecks.
                        ret (take MAX_CHECKS (script_checks scripts manager @ nativeChecks)))))
            | _ \<Rightarrow> raise TaskPolicy))"

definition swift_check :: "string \<Rightarrow> check_kind \<Rightarrow> string list \<Rightarrow> detected_check" where
  "swift_check checkId kind args = \<lparr>dc_checkId = checkId, dc_kind = kind, dc_command = ''swift'', dc_args = args,
     dc_cwd = ''.'', dc_source = ''Package.swift'', dc_execution = AdminHost\<rparr>"

definition detectSwiftPMChecks :: "check_config \<Rightarrow> abspath \<Rightarrow> detected_check list check_m" where
  "detectSwiftPMChecks c root =
     and_then (regularFileExists c (root @ [''Package.swift''])) (\<lambda>found.
       ret (if found then [swift_check ''swiftpm:test'' KindTest [''test'', ''--quiet''],
                           swift_check ''swiftpm:build'' KindBuild [''build'']] else []))"

definition detectChecks :: "check_config \<Rightarrow> observation \<Rightarrow> detected_check list check_m" where
  "detectChecks c obs =
     (let root = ob_repositoryRoot obs
      in and_then (detectNodeChecks c root) (\<lambda>nodeChecks.
         if nodeChecks \<noteq> [] then ret (take MAX_CHECKS nodeChecks)
         else and_then (detectSwiftPMChecks c root) (\<lambda>swiftChecks.
           if swiftChecks \<noteq> [] then ret (take MAX_CHECKS swiftChecks)
           else and_then (discoverXcodeProjectChecks c root) (\<lambda>xcodeChecks. ret (take MAX_CHECKS xcodeChecks)))))"

end
