(* ===== verification/Project_Checks.thy ===== *)
theory Project_Checks
  imports Project_Detection
begin

text \<open>
  \<open>src/src/project/project-check-service.ts\<close>: the checks of a project are run, and the evidence is kept in
  one JSON file per repository below the directory of its fingerprint. Executors and the clock are
  answered by the environment; the log holds the observations, the executions and the stores written.
  The audit records are left out. Of the result of a command the model has the members that are used.
\<close>

section \<open>Stored evidence\<close>

definition sha256_hex :: "string \<Rightarrow> bool" where
  "sha256_hex s \<longleftrightarrow> length s = 64 \<and> list_all (\<lambda>ch. ch \<in> set ''0123456789abcdef'') s"

fun kind_name :: "check_kind \<Rightarrow> string" where
  "kind_name KindCheck = ''check''"
| "kind_name KindTypecheck = ''typecheck''"
| "kind_name KindLint = ''lint''"
| "kind_name KindTest = ''test''"
| "kind_name KindBuild = ''build''"

fun lane_name :: "check_lane \<Rightarrow> string" where
  "lane_name ProjectSandbox = ''project-sandbox''"
| "lane_name AdminHost = ''admin-host''"

fun base_name :: "check_status \<Rightarrow> string" where
  "base_name CheckPass = ''PASS''"
| "base_name CheckFail = ''FAIL''"
| "base_name CheckUnavailable = ''UNAVAILABLE''"
| "base_name CheckNotRun = ''NOT_RUN''"
| "base_name CheckStale = ''STALE''"

definition is_text :: "jval \<Rightarrow> (string \<Rightarrow> bool) \<Rightarrow> bool" where
  "is_text v ok \<longleftrightarrow> is_JString v \<and> ok (jstring v)"

definition is_count :: "jval \<Rightarrow> bool" where
  "is_count v \<longleftrightarrow> is_JNum v \<and> jnum v \<ge> 0"

definition validEvidence :: "jval \<Rightarrow> bool" where
  "validEvidence v \<longleftrightarrow>
     is_JString (jget v ''checkId'') \<and> is_JString (jget v ''kind'') \<and> is_JString (jget v ''command'')
     \<and> (case jget v ''args'' of JArr items \<Rightarrow> list_all is_JString items | _ \<Rightarrow> False)
     \<and> is_JString (jget v ''cwd'') \<and> is_JString (jget v ''source'')
     \<and> jget v ''execution'' \<in> set [JUndefined, JString ''project-sandbox'', JString ''admin-host'']
     \<and> jget v ''baseStatus'' \<in> set [JString ''PASS'', JString ''FAIL'', JString ''UNAVAILABLE'']
     \<and> is_JString (jget v ''startedAt'') \<and> is_JString (jget v ''finishedAt'')
     \<and> is_count (jget v ''durationMs'')
     \<and> (jget v ''exitCode'' = JNull \<or> is_JNum (jget v ''exitCode''))
     \<and> is_text (jget v ''head'') valid_head \<and> is_text (jget v ''workingTreeDigest'') sha256_hex
     \<and> is_text (jget v ''stdoutSha256'') sha256_hex \<and> is_text (jget v ''stderrSha256'') sha256_hex
     \<and> is_count (jget v ''stdoutBytes'') \<and> is_count (jget v ''stderrBytes'')
     \<and> is_JBool (jget v ''stateChangedDuringRun'')"

definition validStore :: "jval \<Rightarrow> observation \<Rightarrow> bool" where
  "validStore v obs \<longleftrightarrow>
     jget v ''version'' = JNum 1
     \<and> jget v ''projectFingerprint'' = JString (ob_projectFingerprint obs)
     \<and> jget v ''repositoryRoot'' = JString (path_string (ob_repositoryRoot obs))
     \<and> is_JString (jget v ''updatedAt'')
     \<and> is_JObj (jget v ''evidence'')
     \<and> length (members (jget v ''evidence'')) \<le> MAX_CHECKS
     \<and> list_all (\<lambda>(id, evidence). jget evidence ''checkId'' = JString id \<and> validEvidence evidence)
         (members (jget v ''evidence''))"

definition verificationDirectory :: "check_config \<Rightarrow> observation \<Rightarrow> abspath" where
  "verificationDirectory c obs = pc_stateRoot c @ [''projects'', ob_projectFingerprint obs, ''verification'']"

definition storePath :: "check_config \<Rightarrow> observation \<Rightarrow> abspath" where
  "storePath c obs = verificationDirectory c obs @ [''latest.json'']"

definition empty_store :: "observation \<Rightarrow> jval" where
  "empty_store obs = JObj [(''version'', JNum 1), (''projectFingerprint'', JString (ob_projectFingerprint obs)),
     (''repositoryRoot'', JString (path_string (ob_repositoryRoot obs))),
     (''updatedAt'', JString ''1970-01-01T00:00:00.000Z''), (''evidence'', JObj [])]"

definition loadStore :: "check_config \<Rightarrow> observation \<Rightarrow> jval check_m" where
  "loadStore c obs = (\<lambda>w.
     (case cw_disk w (storePath c obs) of
        None \<Rightarrow> Inr (empty_store obs)
      | Some TaskUnreadable \<Rightarrow> Inl TaskSystem
      | Some (TaskBytes n content) \<Rightarrow>
          if n > MAX_STORE_BYTES then Inl TaskRecovery
          else (case content of
              None \<Rightarrow> Inl TaskRecovery
            | Some v \<Rightarrow> if validStore v obs then Inr v else Inl TaskRecovery), w))"

definition write_store :: "abspath \<Rightarrow> jval \<Rightarrow> unit check_m" where
  "write_store destination store = (\<lambda>w. (Inr (), w\<lparr>
     cw_disk := (cw_disk w)(destination \<mapsto> TaskBytes (serialized_size store) (Some store)),
     cw_log := cw_log w @ [CheckPersisted destination store]\<rparr>))"

definition persistStore :: "check_config \<Rightarrow> observation \<Rightarrow> jval \<Rightarrow> unit check_m" where
  "persistStore c obs store =
     and_then (inquire (\<lambda>t. if pe_mkdir (pc_env c) t then Inr () else Inl TaskSystem)) (\<lambda>_.
       if serialized_size store > MAX_STORE_BYTES then raise TaskLimit
       else and_then (inquire (\<lambda>t. if pe_write (pc_env c) t then Inr () else Inl TaskSystem)) (\<lambda>_.
         write_store (storePath c obs) store))"

section \<open>Views\<close>

record check_item =
  vi_check :: detected_check
  vi_status :: check_status
  vi_evidence :: "jval option"
  vi_freshness :: "(bool \<times> bool) option"

datatype check_operation = CheckDetect | CheckRun | CheckReport

record check_view =
  pv_operation :: check_operation
  pv_repositoryRoot :: abspath
  pv_required :: bool
  pv_overallStatus :: check_status
  pv_head :: string
  pv_workingTreeDigest :: string
  pv_checks :: "check_item list"

definition overallStatus :: "check_item list \<Rightarrow> check_status" where
  "overallStatus checks =
     (let statuses = map vi_status checks
      in if checks = [] then CheckUnavailable
         else if CheckStale \<in> set statuses then CheckStale
         else if CheckFail \<in> set statuses then CheckFail
         else if CheckUnavailable \<in> set statuses then CheckUnavailable
         else if CheckNotRun \<in> set statuses then CheckNotRun
         else CheckPass)"

definition base_of :: "jval \<Rightarrow> check_status" where
  "base_of v = (if v = JString ''PASS'' then CheckPass else if v = JString ''FAIL'' then CheckFail else CheckUnavailable)"

definition evidence_for :: "jval option \<Rightarrow> string \<Rightarrow> jval option" where
  "evidence_for store checkId =
     (case store of
        None \<Rightarrow> None
      | Some s \<Rightarrow> (case jget (jget s ''evidence'') checkId of JUndefined \<Rightarrow> None | v \<Rightarrow> Some v))"

definition render_item :: "observation \<Rightarrow> jval option \<Rightarrow> detected_check \<Rightarrow> check_item" where
  "render_item obs store d =
     (case evidence_for store (dc_checkId d) of
        None \<Rightarrow> \<lparr>vi_check = d, vi_status = CheckNotRun, vi_evidence = None, vi_freshness = None\<rparr>
      | Some evidence \<Rightarrow>
          (let headMatches = (jget evidence ''head'' = JString (ob_head obs));
               workingTreeMatches = (jget evidence ''workingTreeDigest'' = JString (ob_workingTreeDigest obs))
           in \<lparr>vi_check = d,
               vi_status = (if jget evidence ''stateChangedDuringRun'' = JBool True \<or> \<not> headMatches \<or> \<not> workingTreeMatches
                 then CheckStale else base_of (jget evidence ''baseStatus'')),
               vi_evidence = Some evidence, vi_freshness = Some (headMatches, workingTreeMatches)\<rparr>))"

definition render_checks ::
  "check_operation \<Rightarrow> observation \<Rightarrow> detected_check list \<Rightarrow> jval option \<Rightarrow> check_view" where
  "render_checks operation obs detected store =
     (let checks = map (render_item obs store) detected
      in \<lparr>pv_operation = operation, pv_repositoryRoot = ob_repositoryRoot obs, pv_required = (checks \<noteq> []),
          pv_overallStatus = overallStatus checks, pv_head = ob_head obs,
          pv_workingTreeDigest = ob_workingTreeDigest obs, pv_checks = checks\<rparr>)"

section \<open>Operations\<close>

definition log_check :: "check_event \<Rightarrow> unit check_m" where
  "log_check e = (\<lambda>w. (Inr (), w\<lparr>cw_log := cw_log w @ [e]\<rparr>))"

definition observe :: "check_config \<Rightarrow> string \<Rightarrow> observation check_m" where
  "observe c cwdInput =
     and_then (inquire (\<lambda>t. observeRepositoryState (pe_repo (pc_env c) t) cwdInput)) (\<lambda>obs.
     and_then (log_check (CheckObserved obs)) (\<lambda>_. ret obs))"

definition assertProject :: "check_config \<Rightarrow> unit check_m" where
  "assertProject c = (if pc_project c then ret () else raise TaskAuthority)"

definition check_detect :: "check_config \<Rightarrow> string \<Rightarrow> check_view check_m" where
  "check_detect c cwdInput =
     and_then (assertProject c) (\<lambda>_.
     and_then (observe c cwdInput) (\<lambda>obs.
     and_then (detectChecks c obs) (\<lambda>detected. ret (render_checks CheckDetect obs detected None))))"

definition check_report :: "check_config \<Rightarrow> string \<Rightarrow> check_view check_m" where
  "check_report c cwdInput =
     and_then (assertProject c) (\<lambda>_.
     and_then (observe c cwdInput) (\<lambda>obs.
     and_then (detectChecks c obs) (\<lambda>detected.
     and_then (loadStore c obs) (\<lambda>store. ret (render_checks CheckReport obs detected (Some store))))))"

definition clock_iso :: "check_config \<Rightarrow> string check_m" where
  "clock_iso c = inquire (\<lambda>t. Inr (pe_iso (pc_env c) t))"

definition clock_ms :: "check_config \<Rightarrow> int check_m" where
  "clock_ms c = inquire (\<lambda>t. Inr (pe_ms (pc_env c) t))"

definition evidence_json ::
  "check_config \<Rightarrow> detected_check \<Rightarrow> observation \<Rightarrow> observation \<Rightarrow> string \<Rightarrow> int \<Rightarrow> command_result option
    \<Rightarrow> check_status \<Rightarrow> jval check_m" where
  "evidence_json c d before after startedAt startedMs result baseStatus =
     (let out = (case result of None \<Rightarrow> [] | Some r \<Rightarrow> cr_stdout r);
          err = (case result of None \<Rightarrow> [] | Some r \<Rightarrow> cr_stderr r)
      in and_then (clock_iso c) (\<lambda>finishedAt.
         and_then (clock_ms c) (\<lambda>finishedMs.
         ret (JObj [(''checkId'', JString (dc_checkId d)), (''kind'', JString (kind_name (dc_kind d))),
           (''command'', JString (dc_command d)), (''args'', jstrings (dc_args d)), (''cwd'', JString (dc_cwd d)),
           (''source'', JString (dc_source d)), (''execution'', JString (lane_name (dc_execution d))),
           (''baseStatus'', JString (base_name baseStatus)), (''startedAt'', JString startedAt),
           (''finishedAt'', JString finishedAt), (''durationMs'', JNum (max 0 (finishedMs - startedMs))),
           (''exitCode'', (case Option.bind result cr_exitCode of None \<Rightarrow> JNull | Some n \<Rightarrow> JNum n)),
           (''head'', JString (ob_head before)), (''workingTreeDigest'', JString (ob_workingTreeDigest before)),
           (''stdoutSha256'', JString (pe_sha256 (pc_env c) (js_bytes out))),
           (''stderrSha256'', JString (pe_sha256 (pc_env c) (js_bytes err))),
           (''stdoutBytes'', JNum (int (js_byteLength out))), (''stderrBytes'', JNum (int (js_byteLength err))),
           (''stateChangedDuringRun'', JBool (ob_head before \<noteq> ob_head after
              \<or> ob_workingTreeDigest before \<noteq> ob_workingTreeDigest after))]))))"

definition base_status_of :: "exec_failure + command_result \<Rightarrow> task_error + check_status" where
  "base_status_of r =
     (case r of
        Inr result \<Rightarrow> Inr (if cr_exitCode result = Some 0 then CheckPass
          else if cr_exitCode result = Some 126 \<or> cr_exitCode result = Some 127 then CheckUnavailable else CheckFail)
      | Inl ExecUnavailable \<Rightarrow> Inr CheckUnavailable
      | Inl ExecTimeout \<Rightarrow> Inr CheckFail
      | Inl (ExecOther e) \<Rightarrow> Inl e)"

definition execute :: "check_config \<Rightarrow> detected_check \<Rightarrow> abspath \<Rightarrow> int option \<Rightarrow> (exec_failure + command_result) check_m" where
  "execute c d root timeoutMs =
     (let limit = (case timeoutMs of Some ms \<Rightarrow> ms
            | None \<Rightarrow> if dc_command d = ''xcodebuild'' then 600000 else pc_commandTimeoutMs c)
      in and_then (inquire (\<lambda>t. Inr (pe_exec (pc_env c) t (dc_execution d) (dc_command d) (dc_args d) root limit))) (\<lambda>r.
         and_then (log_check (CheckExecuted d root r)) (\<lambda>_. ret r)))"

text \<open>Setting a member of an object: in place, or at the end.\<close>

definition jput :: "string \<Rightarrow> jval \<Rightarrow> jval \<Rightarrow> jval" where
  "jput k v obj = JObj (put_key fst (k, v) (members obj))"

definition store_with :: "jval \<Rightarrow> string \<Rightarrow> string \<Rightarrow> jval \<Rightarrow> jval" where
  "store_with store updatedAt checkId evidence =
     jput ''evidence'' (jput checkId evidence (jget store ''evidence'')) (jput ''updatedAt'' (JString updatedAt) store)"

definition lift_task :: "task_error + 'a \<Rightarrow> 'a check_m" where
  "lift_task r = (\<lambda>w. (r, w))"

definition run_check ::
  "check_config \<Rightarrow> string \<Rightarrow> int option \<Rightarrow> observation \<Rightarrow> jval \<Rightarrow> detected_check \<Rightarrow> jval check_m" where
  "run_check c cwdInput timeoutMs initial store d =
     and_then (observe c cwdInput) (\<lambda>before.
     and_then (clock_iso c) (\<lambda>startedAt.
     and_then (clock_ms c) (\<lambda>startedMs.
     and_then (execute c d (ob_repositoryRoot before) timeoutMs) (\<lambda>r.
     and_then (lift_task (base_status_of r)) (\<lambda>baseStatus.
     and_then (observe c cwdInput) (\<lambda>after.
     and_then (evidence_json c d before after startedAt startedMs (case r of Inl _ \<Rightarrow> None | Inr x \<Rightarrow> Some x) baseStatus)
       (\<lambda>evidence.
     and_then (clock_iso c) (\<lambda>updatedAt.
       (let store' = store_with store updatedAt (dc_checkId d) evidence
        in and_then (persistStore c initial store') (\<lambda>_. ret store'))))))))))"

fun run_checks ::
  "check_config \<Rightarrow> string \<Rightarrow> int option \<Rightarrow> observation \<Rightarrow> jval \<Rightarrow> detected_check list \<Rightarrow> jval check_m" where
  "run_checks c cwdInput timeoutMs initial store [] = ret store"
| "run_checks c cwdInput timeoutMs initial store (d # ds) =
     and_then (run_check c cwdInput timeoutMs initial store d) (\<lambda>store'.
       run_checks c cwdInput timeoutMs initial store' ds)"

text \<open>The checks to run: the given ones in their order, or all of the sandbox if there is one.\<close>

definition requested_checks :: "detected_check list \<Rightarrow> string list option \<Rightarrow> task_error + detected_check list" where
  "requested_checks detected checkIds =
     (case checkIds of
        None \<Rightarrow> Inr (if list_ex (\<lambda>d. dc_execution d = ProjectSandbox) detected
          then filter (\<lambda>d. dc_execution d = ProjectSandbox) detected else detected)
      | Some ids \<Rightarrow> map_res (\<lambda>id. case find (\<lambda>d. dc_checkId d = id) detected of
          None \<Rightarrow> Inl TaskPolicy | Some d \<Rightarrow> Inr d) ids)"

definition check_run ::
  "check_config \<Rightarrow> string \<Rightarrow> string list option \<Rightarrow> int option \<Rightarrow> bool \<Rightarrow> check_view check_m" where
  "check_run c cwdInput checkIds timeoutMs hostAvailable =
     and_then (assertProject c) (\<lambda>_.
     and_then (observe c cwdInput) (\<lambda>initial.
     and_then (detectChecks c initial) (\<lambda>detected.
       if detected = [] then ret (render_checks CheckRun initial detected None)
       else if (case checkIds of None \<Rightarrow> False | Some ids \<Rightarrow> length ids < 1 \<or> length ids > MAX_CHECKS)
       then raise TaskPolicy
       else
         and_then (lift_task (requested_checks detected checkIds)) (\<lambda>requested.
           if \<not> distinct (map dc_checkId requested) then raise TaskPolicy
           else if list_ex (\<lambda>d. dc_execution d = AdminHost) requested \<and> \<not> hostAvailable then raise TaskAuthority
           else
             and_then (loadStore c initial) (\<lambda>store.
             and_then (run_checks c cwdInput timeoutMs initial store requested) (\<lambda>store'.
             and_then (observe c cwdInput) (\<lambda>current.
             and_then (detectChecks c current) (\<lambda>currentDetected.
               ret (render_checks CheckRun current currentDetected (Some store'))))))))))"

end
