(* ===== verification/Publish_Gate.thy ===== *)
theory Publish_Gate
  imports Project_Checks Git_Guarantees
begin

text \<open>
  \<open>src/src/project/project-publish-gate.ts\<close>: a branch is pushed only after its checks have passed. The gate works
  with the Git service of the project, the one of the administrator and the checks, which share the
  repository: the state has the log of all Git children and the state of the checks.
\<close>

section \<open>The gate\<close>

datatype publish_error =
    PublishGit git_error
  | PublishCheck task_error
  | PublishResumeRequired
  | PublishMainDenied
  | PublishStale
  | PublishRequired check_status
  | PublishNotClean
  | PublishPolicy

record publish_config =
  pg_projectGit :: git_config
  pg_adminGit :: git_config
  pg_check :: check_config
  pg_processCwd :: abspath

record publish_world =
  pw_git :: git_world
  pw_check :: check_world

type_synonym 'a publish_m = "(publish_world, publish_error, 'a) prog"

definition in_git :: "'a git_m \<Rightarrow> 'a publish_m" where
  "in_git m = (\<lambda>w. case m (pw_git w) of (r, g) \<Rightarrow>
     ((case r of Inl e \<Rightarrow> Inl (PublishGit e) | Inr x \<Rightarrow> Inr x), w\<lparr>pw_git := g\<rparr>))"

definition in_check :: "'a check_m \<Rightarrow> 'a publish_m" where
  "in_check m = (\<lambda>w. case m (pw_check w) of (r, g) \<Rightarrow>
     ((case r of Inl e \<Rightarrow> Inl (PublishCheck e) | Inr x \<Rightarrow> Inr x), w\<lparr>pw_check := g\<rparr>))"

definition lift_publish :: "publish_error + 'a \<Rightarrow> 'a publish_m" where
  "lift_publish r = (\<lambda>w. (r, w))"

text \<open>Splitting at line ends, which may be a carriage return and a line feed.\<close>

definition drop_cr :: "string \<Rightarrow> string" where
  "drop_cr l = (if l \<noteq> [] \<and> last l = CHR 0x0D then butlast l else l)"

definition status_lines :: "string \<Rightarrow> string list" where
  "status_lines s = (let parts = split_char (CHR 0x0A) s in map drop_cr (butlast parts) @ [last parts])"

fun before_dots :: "string \<Rightarrow> string" where
  "before_dots [] = []"
| "before_dots (ch # s) = (if take 3 (ch # s) = ''...'' then [] else ch # before_dots s)"

definition begins_with :: "string \<Rightarrow> string \<Rightarrow> bool" where
  "begins_with s p \<longleftrightarrow> take (length p) s = p"

definition branch_of_summary :: "string \<Rightarrow> string" where
  "branch_of_summary s =
     (if begins_with s ''No commits yet on '' then drop (length ''No commits yet on '') s
      else if begins_with s ''Initial commit on '' then drop (length ''Initial commit on '') s
      else before_dots s)"

definition cleanBranch :: "git_out \<Rightarrow> publish_error + string" where
  "cleanBranch result =
     (if go_exitCode result \<noteq> 0 then Inl PublishPolicy
      else
        (let lines = filter (\<lambda>l. l \<noteq> []) (status_lines (go_stdout result));
             changes = filter (\<lambda>l. l \<noteq> ''?? .freebuff/project-id'') (drop 1 lines)
         in case lines of
              [] \<Rightarrow> Inl PublishPolicy
            | header # _ \<Rightarrow>
                if \<not> begins_with header ''## '' then Inl PublishPolicy
                else if changes \<noteq> [] then Inl PublishNotClean
                else
                  (let branch = branch_of_summary (drop 3 header)
                   in if branch = [] \<or> begins_with branch ''HEAD '' \<or> branch = ''HEAD'' then Inl PublishPolicy
                      else (case validateBranchName (js_trim branch) of
                          Inl e \<Rightarrow> Inl (PublishGit e) | Inr b \<Rightarrow> Inr b))))"

text \<open>The resumed project is given by the path of its worktree, if there is one.\<close>

definition publish_push :: "publish_config \<Rightarrow> string \<Rightarrow> string option \<Rightarrow> git_out publish_m" where
  "publish_push c cwd resumeContext =
     (case resumeContext of
        None \<Rightarrow> raise PublishResumeRequired
      | Some canonicalWorktree \<Rightarrow>
          and_then (in_git (git_status (pg_projectGit c) cwd)) (\<lambda>status.
          and_then (lift_publish (cleanBranch status)) (\<lambda>branch.
            if branch = ''main'' then raise PublishMainDenied
            else
              and_then (in_check (check_report (pg_check c) cwd)) (\<lambda>verification.
                if pv_repositoryRoot verification \<noteq> path_resolve (pg_processCwd c) canonicalWorktree
                then raise PublishResumeRequired
                else if pv_overallStatus verification = CheckStale then raise PublishStale
                else if pv_overallStatus verification \<noteq> CheckPass
                then raise (PublishRequired (pv_overallStatus verification))
                else
                  and_then (in_git (git_status (pg_projectGit c) cwd)) (\<lambda>status.
                  and_then (lift_publish (cleanBranch status)) (\<lambda>currentBranch.
                    if currentBranch \<noteq> branch then raise PublishStale
                    else in_git (git_push (pg_adminGit c) cwd
                      (Some \<lparr>vp_branch = branch, vp_head = pv_head verification\<rparr>))))))))"

section \<open>Sequences of operations\<close>

datatype check_request =
    RequestDetect string
  | RequestReport string
  | RequestRun string "string list option" "int option" bool

fun check_operate :: "check_config \<Rightarrow> check_request \<Rightarrow> check_view check_m" where
  "check_operate c (RequestDetect cwd) = check_detect c cwd"
| "check_operate c (RequestReport cwd) = check_report c cwd"
| "check_operate c (RequestRun cwd ids timeoutMs host) = check_run c cwd ids timeoutMs host"

text \<open>Requests of services with any configuration, one after the other, on one disk.\<close>

fun check_perform :: "(check_config \<times> check_request) list \<Rightarrow> check_world \<Rightarrow> check_world" where
  "check_perform [] w = w"
| "check_perform ((c, r) # rest) w = check_perform rest (snd (check_operate c r w))"

definition start_checks :: check_world where
  "start_checks = \<lparr>cw_time = 0, cw_log = [], cw_disk = Map.empty\<rparr>"

end
