(* ===== verification/Publish_Guarantees.thy ===== *)
theory Publish_Guarantees
  imports Publish_Gate
begin

text \<open>
  What the checks and the gate promise together. Stored evidence is earned: the log shows the observation,
  the execution and the second observation it stands for. So a head that the gate pushes has passed
  every detected check.
\<close>

section \<open>Triples on the log and the disk\<close>

definition cw_state :: "check_world \<Rightarrow> check_event list \<times> task_disk" where
  "cw_state w = (cw_log w, cw_disk w)"

abbreviation ctriple where
  "ctriple \<equiv> crash_triple cw_state (\<lambda>_. []) (\<lambda>_. True)"

lemma ctripleI:
  assumes "\<And>w res w'. P (cw_state w) \<Longrightarrow> m w = (res, w') \<Longrightarrow>
    (\<forall>e. res = Inl e \<longrightarrow> E (cw_state w')) \<and> (\<forall>x. res = Inr x \<longrightarrow> Q x (cw_state w'))"
  shows "ctriple P m Q E"
  using assms by (intro tripleI) (auto simp: crash_hist_def)

lemma ctripleD:
  assumes "ctriple P m Q E" "P (cw_state w)" "m w = (res, w')"
  shows "res = Inl e \<Longrightarrow> E (cw_state w')" "res = Inr x \<Longrightarrow> Q x (cw_state w')"
  using tripleD [OF assms(1,2) _ assms(3)] by (auto simp: crash_hist_def)

lemma ctriple_inquire:
  assumes "\<And>s. P s \<Longrightarrow> E s" "\<And>t x s. P s \<Longrightarrow> f t = Inr x \<Longrightarrow> Q x s"
  shows "ctriple P (inquire f) Q E"
  using assms by (intro ctripleI) (auto simp: inquire_def cw_state_def)

lemma ctriple_log: "(\<And>l d. P (l, d) \<Longrightarrow> Q () (l @ [e], d)) \<Longrightarrow> ctriple P (log_check e) Q E"
  by (intro ctripleI) (auto simp: log_check_def cw_state_def)

lemma ctriple_lift:
  "(\<And>s. P s \<Longrightarrow> E s) \<Longrightarrow> (\<And>s x. P s \<Longrightarrow> r = Inr x \<Longrightarrow> Q x s) \<Longrightarrow> ctriple P (lift_task r) Q E"
  by (intro ctripleI) (auto simp: lift_task_def)

lemma ctriple_observe:
  assumes "\<And>s. P s \<Longrightarrow> E s" "\<And>l d obs. P (l, d) \<Longrightarrow> Q obs (l @ [CheckObserved obs], d)"
  shows "ctriple P (observe c cwdInput) Q E"
  unfolding observe_def
  by (rule triple_and_then [OF ctriple_inquire [where Q = "\<lambda>_. P"] triple_and_then [OF ctriple_log triple_ret]])
    (use assms in auto)

lemma ctriple_execute:
  assumes "\<And>s. P s \<Longrightarrow> E s" "\<And>l d r. P (l, d) \<Longrightarrow> Q r (l @ [CheckExecuted dc root r], d)"
  shows "ctriple P (execute c dc root timeoutMs) Q E"
  unfolding execute_def Let_def
  by (rule triple_and_then [OF ctriple_inquire [where Q = "\<lambda>_. P"] triple_and_then [OF ctriple_log triple_ret]])
    (use assms in auto)

lemma ctriple_clock:
  assumes "\<And>s. P s \<Longrightarrow> E s" "\<And>s x. P s \<Longrightarrow> Q x s"
  shows "ctriple P (clock_iso c) Q E"
  unfolding clock_iso_def by (rule ctriple_inquire) (use assms in auto)

lemma ctriple_clock_ms:
  assumes "\<And>s. P s \<Longrightarrow> E s" "\<And>s x. P s \<Longrightarrow> Q x s"
  shows "ctriple P (clock_ms c) Q E"
  unfolding clock_ms_def by (rule ctriple_inquire) (use assms in auto)

section \<open>Detection changes nothing\<close>

abbreviation ckeeps where
  "ckeeps P m \<equiv> ctriple P m (\<lambda>_. P) P"

lemma ckeeps_simple:
  "ckeeps P (ret x)" "ckeeps P (raise e)" "ckeeps P (inquire f)" "ckeeps P (lift_task r)"
  "ckeeps P (clock_iso c)" "ckeeps P (clock_ms c)"
  by (simp_all add: triple_ret triple_raise ctriple_inquire ctriple_lift ctriple_clock ctriple_clock_ms)

lemma ckeeps_bind: "ckeeps P m \<Longrightarrow> (\<And>x. ckeeps P (f x)) \<Longrightarrow> ckeeps P (and_then m f)"
  by (rule triple_and_then)

lemma ckeeps_option: "ckeeps P m \<Longrightarrow> (\<And>x. ckeeps P (f x)) \<Longrightarrow> ckeeps P (case opt of None \<Rightarrow> m | Some x \<Rightarrow> f x)"
  by (cases opt) simp_all

lemma ckeeps_single: "ckeeps P m \<Longrightarrow> (\<And>x. ckeeps P (f x)) \<Longrightarrow> ckeeps P (case xs of [x] \<Rightarrow> f x | _ \<Rightarrow> m)"
  by (auto split: list.splits)

lemmas ckeeps = ckeeps_simple ckeeps_bind ckeeps_option ckeeps_single triple_if

lemma kinds_keep: "ckeeps P (has_kind c kind p)"
  unfolding has_kind_def by (rule ckeeps)

lemmas kind_defs = regularFileExists_def isRegularFile_def isRealDirectory_def

lemma real_directories_keep: "ckeeps P (real_directories c current cs)"
  by (induction cs arbitrary: current) (auto simp: kind_defs intro!: ckeeps kinds_keep)

lemma native_checks_keep: "ckeeps P (native_checks c root n scripts)"
  by (induction scripts arbitrary: n)
    (auto simp: safePackageManifest_def kind_defs intro!: ckeeps kinds_keep real_directories_keep)

lemma unless_no_keeps: "ckeeps P test \<Longrightarrow> ckeeps P m \<Longrightarrow> ckeeps P (unless_no test m)"
  unfolding unless_no_def by (intro ckeeps)

lemma xcode_keeps: "ckeeps P (discoverXcodeProjectChecks c root)"
  unfolding discoverXcodeProjectChecks_def Let_def kind_defs list_directory_def containsBuildAndTestActions_def
  by (intro ckeeps unless_no_keeps kinds_keep)

lemma node_keeps: "ckeeps P (detectNodeChecks c root)"
proof -
  have "ckeeps P (detectPackageManager c root v)" for v
    unfolding detectPackageManager_def kind_defs by (intro ckeeps kinds_keep)
  then show ?thesis
    unfolding detectNodeChecks_def readRegularText_def discoverNativeSwiftTestChecks_def Let_def
    by (intro ckeeps) (auto split: jval.splits intro!: ckeeps native_checks_keep)
qed

lemma detectChecks_keeps: "ckeeps P (detectChecks c obs)"
  unfolding detectChecks_def Let_def detectSwiftPMChecks_def kind_defs
  by (intro ckeeps node_keeps xcode_keeps kinds_keep)

section \<open>Evidence is earned\<close>

text \<open>The log has an execution between two observations.\<close>

definition checked_run ::
  "detected_check \<Rightarrow> observation \<Rightarrow> exec_failure + command_result \<Rightarrow> observation \<Rightarrow> check_event list \<Rightarrow> bool" where
  "checked_run d before r after l \<longleftrightarrow> (\<exists>xs ys. l = xs @ [CheckObserved before, CheckExecuted d (ob_repositoryRoot before) r,
     CheckObserved after] @ ys)"

definition earned :: "string \<Rightarrow> jval \<Rightarrow> check_event list \<Rightarrow> bool" where
  "earned checkId evidence l \<longleftrightarrow> (\<exists>d before r after base. checked_run d before r after l \<and> dc_checkId d = checkId
     \<and> base_status_of r = Inr base \<and> jget evidence ''baseStatus'' = JString (base_name base)
     \<and> jget evidence ''head'' = JString (ob_head before)
     \<and> jget evidence ''workingTreeDigest'' = JString (ob_workingTreeDigest before)
     \<and> jget evidence ''stateChangedDuringRun'' = JBool (ob_head before \<noteq> ob_head after
          \<or> ob_workingTreeDigest before \<noteq> ob_workingTreeDigest after))"

definition earned_store :: "jval \<Rightarrow> check_event list \<Rightarrow> bool" where
  "earned_store store l \<longleftrightarrow> (\<forall>(checkId, evidence) \<in> set (members (jget store ''evidence'')). earned checkId evidence l)"

definition honest :: "check_event list \<times> task_disk \<Rightarrow> bool" where
  "honest s \<longleftrightarrow> (\<forall>path n store. snd s path = Some (TaskBytes n (Some store)) \<longrightarrow> earned_store store (fst s))"

lemma checked_run_append: "checked_run d before r after l \<Longrightarrow> checked_run d before r after (l @ es)"
  unfolding checked_run_def by (elim exE, rule exI, rule exI [of _ "ys @ es" for ys]) simp

lemma earned_append: "earned checkId evidence l \<Longrightarrow> earned checkId evidence (l @ es)"
  unfolding earned_def using checked_run_append by blast

lemma earnedI:
  assumes "checked_run d before r after l" "base_status_of r = Inr base"
    "jget evidence ''baseStatus'' = JString (base_name base)" "jget evidence ''head'' = JString (ob_head before)"
    "jget evidence ''workingTreeDigest'' = JString (ob_workingTreeDigest before)"
    "jget evidence ''stateChangedDuringRun'' = JBool (ob_head before \<noteq> ob_head after
       \<or> ob_workingTreeDigest before \<noteq> ob_workingTreeDigest after)"
  shows "earned (dc_checkId d) evidence l"
  using assms unfolding earned_def by blast

lemma earned_store_append: "earned_store store l \<Longrightarrow> earned_store store (l @ es)"
  unfolding earned_store_def using earned_append by fastforce

lemma honest_append: "honest (l, d) \<Longrightarrow> honest (l @ es, d)"
  using earned_store_append by (fastforce simp: honest_def)

lemma earned_empty: "earned_store (empty_store obs) l"
  by (simp add: earned_store_def empty_store_def members_def jget_def)

lemma jget_jput: "jget (jput k v obj) k' = (if k' = k then v else jget obj k')"
proof -
  have "map_of (put_key fst (k, v) fs) = (map_of fs)(k \<mapsto> v)" for fs :: "(string \<times> jval) list"
    by (induction fs) (auto simp: fun_eq_iff)
  then show ?thesis by (cases obj) (auto simp: jput_def members_def jget_def)
qed

lemma earned_store_with:
  assumes "earned_store store l" "earned checkId evidence l"
  shows "earned_store (store_with store updatedAt checkId evidence) l"
proof -
  have "members (jget (store_with store updatedAt checkId evidence) ''evidence'')
      = put_key fst (checkId, evidence) (members (jget store ''evidence''))"
    by (simp add: store_with_def jget_jput) (simp add: jput_def members_def)
  then show ?thesis using assms set_put_key_sub [of fst "(checkId, evidence)" "members (jget store ''evidence'')"]
    by (auto simp: earned_store_def)
qed

lemma observe_keeps:
  assumes "\<And>l d e. P (l, d) \<Longrightarrow> P (l @ [e], d)"
  shows "ckeeps P (observe c cwdInput)"
  by (rule ctriple_observe) (use assms in auto)

lemma load_triple: "ctriple honest (loadStore c obs) (\<lambda>store s. honest s \<and> earned_store store (fst s)) honest"
  by (rule ctripleI)
    (auto simp: loadStore_def honest_def cw_state_def earned_empty split: option.splits task_file.splits if_splits)

lemma persist_triple:
  "ctriple (\<lambda>s. honest s \<and> earned_store store (fst s)) (persistStore c obs store)
     (\<lambda>_ s. honest s \<and> earned_store store (fst s)) honest"
proof -
  have w: "ctriple (\<lambda>s. honest s \<and> earned_store store (fst s)) (write_store p store)
      (\<lambda>_ s. honest s \<and> earned_store store (fst s)) honest" for p
    using earned_store_append by (intro ctripleI) (auto simp: write_store_def honest_def cw_state_def)
  show ?thesis unfolding persistStore_def
    by (rule triple_and_then [OF ctriple_inquire [where Q = "\<lambda>_ s. honest s \<and> earned_store store (fst s)"]], simp, simp,
        intro triple_if triple_raise, simp,
        rule triple_and_then [OF ctriple_inquire [where Q = "\<lambda>_ s. honest s \<and> earned_store store (fst s)"] w])
      simp_all
qed

lemma checked_run_snoc:
  "\<exists>xs. l = xs @ [CheckObserved before, CheckExecuted d (ob_repositoryRoot before) r] \<Longrightarrow>
    checked_run d before r after (l @ [CheckObserved after])"
  unfolding checked_run_def by (elim exE, rule exI, rule exI [of _ "[]"]) simp

lemma evidence_triple:
  assumes "\<And>s. P s \<Longrightarrow> checked_run d before r after (fst s)" "base_status_of r = Inr base"
  shows "ctriple P (evidence_json c d before after startedAt startedMs x base)
     (\<lambda>evidence s. P s \<and> earned (dc_checkId d) evidence (fst s)) P"
  unfolding evidence_json_def Let_def
proof (rule triple_and_then [OF ctriple_clock [where Q = "\<lambda>_. P"]
      triple_and_then [OF ctriple_clock_ms [where Q = "\<lambda>_. P"] triple_ret]], simp, simp, simp, simp, goal_cases)
  case (1 finishedAt finishedMs s)
  with assms(1) have "checked_run d before r after (fst s)" by blast
  with 1 assms(2) show ?case by (simp, intro earnedI [of d before r after _ base]) (simp_all add: jget_def)
qed

text \<open>What holds of the log after the first observation and the execution.\<close>

definition running :: "detected_check \<Rightarrow> observation \<Rightarrow> (exec_failure + command_result) option \<Rightarrow> check_event list \<Rightarrow> bool" where
  "running d before r l \<longleftrightarrow> (\<exists>xs. l = xs @ CheckObserved before #
     (case r of None \<Rightarrow> [] | Some x \<Rightarrow> [CheckExecuted d (ob_repositoryRoot before) x]))"

lemma running_step:
  "running d before None (l @ [CheckObserved before])"
  "running d before None l \<Longrightarrow> running d before (Some r) (l @ [CheckExecuted d (ob_repositoryRoot before) r])"
  "running d before (Some r) l \<Longrightarrow> checked_run d before r after (l @ [CheckObserved after])"
  by (auto simp: running_def intro!: checked_run_snoc)

abbreviation sound_with :: "jval \<Rightarrow> check_event list \<times> task_disk \<Rightarrow> bool" where
  "sound_with store \<equiv> \<lambda>s. honest s \<and> earned_store store (fst s)"

lemma sound_grows: "sound_with store (l, d) \<Longrightarrow> sound_with store (l @ [e], d)"
  using honest_append earned_store_append by fastforce

lemma persist_evidence:
  "ctriple (\<lambda>s. sound_with store s \<and> earned (dc_checkId d) evidence (fst s))
     (and_then (clock_iso c) (\<lambda>updatedAt.
        (let store' = store_with store updatedAt (dc_checkId d) evidence
         in and_then (persistStore c initial store') (\<lambda>_. ret store'))))
     sound_with honest"
  unfolding Let_def
  by (rule triple_and_then [OF ctriple_clock [where Q = "\<lambda>_ s. sound_with store s \<and> earned (dc_checkId d) evidence (fst s)"]
        triple_and_then [OF triple_conseq [OF persist_triple] triple_ret]])
    (auto intro: earned_store_with)

lemma run_check_triple:
  "ctriple (sound_with store) (run_check c cwdInput timeoutMs initial store d) sound_with honest"
  unfolding run_check_def
proof (rule triple_and_then [OF ctriple_observe [where Q = "\<lambda>before s. sound_with store s \<and> running d before None (fst s)"]],
    goal_cases)
  case (3 before)
  let ?B = "\<lambda>s. sound_with store s \<and> running d before None (fst s)"
  show ?case
  proof (rule triple_and_then [OF ctriple_clock [where Q = "\<lambda>_. ?B"]], simp, simp,
      rule triple_and_then [OF ctriple_clock_ms [where Q = "\<lambda>_. ?B"]], simp, simp,
      rule triple_and_then [OF ctriple_execute [where
          Q = "\<lambda>r s. sound_with store s \<and> running d before (Some r) (fst s)"]], goal_cases)
    case (3 startedAt startedMs r)
    let ?X = "\<lambda>s. sound_with store s \<and> running d before (Some r) (fst s)"
    show ?case
    proof (rule triple_and_then [OF ctriple_lift [where Q = "\<lambda>base s. base_status_of r = Inr base \<and> ?X s"]],
        simp, simp, rule triple_pure)
      fix base assume b: "base_status_of r = Inr base"
      show "ctriple ?X (and_then (observe c cwdInput) (\<lambda>after.
          and_then (evidence_json c d before after startedAt startedMs
              (case r of Inl _ \<Rightarrow> None | Inr x \<Rightarrow> Some x) base) (\<lambda>evidence.
          and_then (clock_iso c) (\<lambda>updatedAt.
            let store' = store_with store updatedAt (dc_checkId d) evidence
            in and_then (persistStore c initial store') (\<lambda>_. ret store'))))) sound_with honest"
      proof (rule triple_and_then [OF ctriple_observe [where
              Q = "\<lambda>after s. sound_with store s \<and> checked_run d before r after (fst s)"]], goal_cases)
        case (2 l dk after)
        then show ?case using sound_grows running_step(3) by (metis fst_conv)
      next
        case (3 after)
        show ?case
          by (rule triple_and_then [OF triple_conseq [OF evidence_triple [where r = r and
                  P = "\<lambda>s. sound_with store s \<and> checked_run d before r after (fst s)"]] persist_evidence])
            (simp_all add: b)
      qed simp
    qed
  qed (simp, use sound_grows running_step(2) in \<open>metis fst_conv\<close>)
qed (simp, use sound_grows running_step(1) in \<open>metis fst_conv\<close>)

lemma run_checks_triple:
  "ctriple (sound_with store) (run_checks c cwdInput timeoutMs initial store ds) sound_with honest"
proof (induction ds arbitrary: store)
  case (Cons d ds)
  then show ?case by (auto intro: triple_and_then [OF run_check_triple])
qed (auto intro: triple_ret)

lemma honest_observe: "ckeeps honest (observe c cwdInput)"
  by (rule observe_keeps) (rule honest_append)

lemma honest_assert: "ckeeps P (assertProject c)"
  unfolding assertProject_def by (intro ckeeps)

lemma load_honest: "ckeeps honest (loadStore c obs)"
  by (rule triple_conseq [OF load_triple]) simp_all

lemma check_run_honest: "ckeeps honest (check_run c cwdInput checkIds timeoutMs host)"
proof -
  have r: "ctriple (sound_with store) (and_then (run_checks c cwdInput timeoutMs initial store requested) f) (\<lambda>_. honest) honest"
    if "\<And>x. ckeeps honest (f x)" for store initial requested and f :: "jval \<Rightarrow> check_view check_m"
    by (rule triple_and_then [OF run_checks_triple triple_conseq [OF that]]) simp_all
  show ?thesis unfolding check_run_def
    by (intro ckeeps honest_assert honest_observe detectChecks_keeps triple_and_then [OF load_triple] r)
qed

lemma check_operate_honest: "ckeeps honest (check_operate c q)"
  by (cases q) (auto simp: check_detect_def check_report_def
      intro!: ckeeps honest_assert honest_observe detectChecks_keeps load_honest check_run_honest)

lemma check_perform_honest: "honest (cw_state w) \<Longrightarrow> honest (cw_state (check_perform requests w))"
proof (induction requests w rule: check_perform.induct)
  case (2 c q rest w)
  have "honest (cw_state (snd (check_operate c q w)))"
    using ctripleD [OF check_operate_honest 2(2) surjective_pairing] by (cases "fst (check_operate c q w)") auto
  with 2(1) show ?case by simp
qed simp

lemma start_honest: "honest (cw_state start_checks)"
  by (simp add: start_checks_def cw_state_def honest_def)

section \<open>Reports\<close>

text \<open>Every check of a view passed, at the observed head and working tree.\<close>

definition passed_at :: "string \<Rightarrow> string \<Rightarrow> detected_check \<Rightarrow> check_event list \<Rightarrow> bool" where
  "passed_at head digest d l \<longleftrightarrow> (\<exists>d' before result after. dc_checkId d' = dc_checkId d
     \<and> checked_run d' before (Inr result) after l \<and> cr_exitCode result = Some 0
     \<and> ob_head before = head \<and> ob_head after = head
     \<and> ob_workingTreeDigest before = digest \<and> ob_workingTreeDigest after = digest)"

lemma overall_pass: "overallStatus checks = CheckPass \<Longrightarrow>
    checks \<noteq> [] \<and> (\<forall>i \<in> set checks. vi_status i = CheckPass)"
proof (intro conjI ballI)
  fix i assume o: "overallStatus checks = CheckPass" and "i \<in> set checks"
  then have "vi_status i \<in> set (map vi_status checks)" by simp
  with o show "vi_status i = CheckPass"
    by (cases "vi_status i") (auto simp: overallStatus_def Let_def split: if_splits)
qed (auto simp: overallStatus_def)

lemma base_status_pass: "base_status_of r = Inr base \<Longrightarrow> base_of (JString (base_name base)) = CheckPass
    \<Longrightarrow> \<exists>result. r = Inr result \<and> cr_exitCode result = Some 0"
  by (auto simp: base_status_of_def base_of_def split: sum.splits exec_failure.splits if_splits)

lemma render_pass:
  assumes "earned_store store l" "vi_status (render_item obs (Some store) d) = CheckPass"
  shows "passed_at (ob_head obs) (ob_workingTreeDigest obs) d l"
proof -
  obtain evidence where ev: "evidence_for (Some store) (dc_checkId d) = Some evidence"
    using assms(2) by (cases "evidence_for (Some store) (dc_checkId d)") (simp_all add: render_item_def)
  then have "(dc_checkId d, evidence) \<in> set (members (jget store ''evidence''))"
    by (auto simp: evidence_for_def jget_def members_def split: jval.splits option.splits dest!: map_of_SomeD)
  with assms(1) have "earned (dc_checkId d) evidence l" by (auto simp: earned_store_def)
  then obtain d' before r after base where e: "checked_run d' before r after l" "dc_checkId d' = dc_checkId d"
    "base_status_of r = Inr base" "jget evidence ''baseStatus'' = JString (base_name base)"
    "jget evidence ''head'' = JString (ob_head before)"
    "jget evidence ''workingTreeDigest'' = JString (ob_workingTreeDigest before)"
    "jget evidence ''stateChangedDuringRun'' = JBool (ob_head before \<noteq> ob_head after
       \<or> ob_workingTreeDigest before \<noteq> ob_workingTreeDigest after)" by (auto simp: earned_def)
  have "base_of (JString (base_name base)) = CheckPass \<and> ob_head before = ob_head obs \<and> ob_head after = ob_head obs
      \<and> ob_workingTreeDigest before = ob_workingTreeDigest obs \<and> ob_workingTreeDigest after = ob_workingTreeDigest obs"
    using assms(2) e(4-7) by (auto simp: render_item_def ev Let_def split: if_splits)
  with e(1,2) base_status_pass [OF e(3)] show ?thesis unfolding passed_at_def by blast
qed

text \<open>What a report says that passes: a head and a working tree that were observed, with every check passed there.\<close>

definition verified_view :: "check_view \<Rightarrow> check_event list \<Rightarrow> bool" where
  "verified_view v l \<longleftrightarrow> (\<exists>obs. CheckObserved obs \<in> set l \<and> pv_repositoryRoot v = ob_repositoryRoot obs
     \<and> pv_head v = ob_head obs \<and> pv_workingTreeDigest v = ob_workingTreeDigest obs)
   \<and> pv_checks v \<noteq> [] \<and> (\<forall>i \<in> set (pv_checks v). passed_at (pv_head v) (pv_workingTreeDigest v) (vi_check i) l)"

lemma render_verified:
  assumes "earned_store store l" "CheckObserved obs \<in> set l"
    "pv_overallStatus (render_checks op obs detected (Some store)) = CheckPass"
  shows "verified_view (render_checks op obs detected (Some store)) l"
proof -
  have o: "overallStatus (map (render_item obs (Some store)) detected) = CheckPass"
    using assms(3) by (simp add: render_checks_def Let_def)
  have "vi_check (render_item obs (Some store) d) = d" for d
    by (auto simp: render_item_def Let_def split: option.splits)
  with overall_pass [OF o] render_pass [OF assms(1)] assms(2) show ?thesis
    by (auto simp: verified_view_def render_checks_def Let_def)
qed

lemma report_triple:
  "ctriple honest (check_report c cwdInput)
     (\<lambda>v s. honest s \<and> (pv_overallStatus v = CheckPass \<longrightarrow> verified_view v (fst s))) honest"
  unfolding check_report_def
proof (rule triple_and_then [OF honest_assert], rule triple_and_then [OF ctriple_observe [where
        Q = "\<lambda>obs s. honest s \<and> CheckObserved obs \<in> set (fst s)"]], simp, simp add: honest_append, goal_cases)
  case (1 _ obs)
  let ?O = "\<lambda>s. honest s \<and> CheckObserved obs \<in> set (fst s)"
  have d: "ctriple ?O (detectChecks c obs) (\<lambda>_. ?O) honest"
    by (rule triple_conseq [OF detectChecks_keeps [where P = ?O]]) simp_all
  have l: "ctriple ?O (loadStore c obs) (\<lambda>store s. ?O s \<and> earned_store store (fst s)) honest"
    by (rule ctripleI)
      (auto simp: loadStore_def honest_def cw_state_def earned_empty split: option.splits task_file.splits if_splits)
  show ?case by (rule triple_and_then [OF d triple_and_then [OF l triple_ret]]) (auto intro: render_verified)
qed

section \<open>The gate\<close>

lemma in_git_eq: "in_git m w = (Inr x, w') \<longleftrightarrow> (\<exists>g. m (pw_git w) = (Inr x, g) \<and> w' = w\<lparr>pw_git := g\<rparr>)"
  by (auto simp: in_git_def split: prod.splits sum.splits)

lemma in_check_eq: "in_check m w = (Inr x, w') \<longleftrightarrow> (\<exists>s. m (pw_check w) = (Inr x, s) \<and> w' = w\<lparr>pw_check := s\<rparr>)"
  by (auto simp: in_check_def split: prod.splits sum.splits)

lemma status_no_push:
  assumes "no_push (gw_log g)" "git_status c cwd g = (r, g')"
  shows "no_push (gw_log g')"
proof -
  have "gtriple (\<lambda>l. no_push l \<and> True) (git_status c cwd) (\<lambda>_. no_push) no_push"
    unfolding git_status_def by (rule triple_conseq [OF run_reads [where P = "\<lambda>_. True"]]) auto
  from gtripleD [OF this _ assms(2)] assms(1) show ?thesis by (cases r) auto
qed

text \<open>The one way to the push: a clean branch, a report that passes, and the same branch again.\<close>

definition gate_open ::
  "publish_config \<Rightarrow> string \<Rightarrow> string \<Rightarrow> publish_world \<Rightarrow> string \<Rightarrow> check_view \<Rightarrow> git_world \<Rightarrow> check_world \<Rightarrow> bool" where
  "gate_open c cwd worktree w branch v g s \<longleftrightarrow> (\<exists>out g1 out'. git_status (pg_projectGit c) cwd (pw_git w) = (Inr out, g1)
     \<and> cleanBranch out = Inr branch \<and> branch \<noteq> ''main'' \<and> check_report (pg_check c) cwd (pw_check w) = (Inr v, s)
     \<and> pv_repositoryRoot v = path_resolve (pg_processCwd c) worktree
     \<and> pv_overallStatus v = CheckPass \<and> git_status (pg_projectGit c) cwd g1 = (Inr out', g) \<and> cleanBranch out' = Inr branch)"

lemma lift_publish_eq [simp]: "lift_publish r w = (r, w)"
  by (simp add: lift_publish_def)

lemma publish_cases:
  assumes p: "publish_push c cwd (Some worktree) w = (res, w')" and n: "no_push (gw_log (pw_git w))"
  shows "no_push (gw_log (pw_git w')) \<or> (\<exists>branch v g s. gate_open c cwd worktree w branch v g s \<and> no_push (gw_log g)
    \<and> in_git (git_push (pg_adminGit c) cwd (Some \<lparr>vp_branch = branch, vp_head = pv_head v\<rparr>))
        (w\<lparr>pw_git := g, pw_check := s\<rparr>) = (res, w'))"
proof -
  obtain r1 g1 where s1: "git_status (pg_projectGit c) cwd (pw_git w) = (r1, g1)" by fastforce
  obtain r2 s where s2: "check_report (pg_check c) cwd (pw_check w) = (r2, s)" by fastforce
  obtain r3 g2 where s3: "git_status (pg_projectGit c) cwd g1 = (r3, g2)" by fastforce
  have g: "no_push (gw_log g1)" "no_push (gw_log g2)" using status_no_push n s1 s3 by blast+
  have f: "in_git (git_status (pg_projectGit c) cwd) w = (case r1 of Inl e \<Rightarrow> Inl (PublishGit e) | Inr x \<Rightarrow> Inr x, w\<lparr>pw_git := g1\<rparr>)"
    "in_check (check_report (pg_check c) cwd) (w\<lparr>pw_git := g1\<rparr>)
      = (case r2 of Inl e \<Rightarrow> Inl (PublishCheck e) | Inr x \<Rightarrow> Inr x, w\<lparr>pw_git := g1, pw_check := s\<rparr>)"
    "in_git (git_status (pg_projectGit c) cwd) (w\<lparr>pw_git := g1, pw_check := s\<rparr>)
      = (case r3 of Inl e \<Rightarrow> Inl (PublishGit e) | Inr x \<Rightarrow> Inr x, w\<lparr>pw_git := g2, pw_check := s\<rparr>)"
    by (simp_all add: in_git_def in_check_def s1 s2 s3)
  show ?thesis
  proof (rule disjCI)
    assume "\<not> (\<exists>branch v g s. gate_open c cwd worktree w branch v g s \<and> no_push (gw_log g)
      \<and> in_git (git_push (pg_adminGit c) cwd (Some \<lparr>vp_branch = branch, vp_head = pv_head v\<rparr>))
          (w\<lparr>pw_git := g, pw_check := s\<rparr>) = (res, w'))"
    then have "\<not> (gate_open c cwd worktree w branch v g2 s
      \<and> in_git (git_push (pg_adminGit c) cwd (Some \<lparr>vp_branch = branch, vp_head = pv_head v\<rparr>))
          (w\<lparr>pw_git := g2, pw_check := s\<rparr>) = (res, w'))" for branch v using g(2) by blast
    with p g s1 s2 s3 show "no_push (gw_log (pw_git w'))"
      by (auto simp: publish_push_def and_then_def raise_def gate_open_def f split: sum.splits if_splits)
  qed
qed

text \<open>
  C2: Only a verified head is published. Take any requests to the checks, of services with any settings, starting
  without evidence, and then a push through the gate, while files, executors and Git answer as they
  like. If a child that pushes was started, then the gate's report passed for the resumed worktree; the pushed
  source is the head of this report; the report lists at least one check, and for each the log
  shows that it was executed with exit code zero, right between two observations of exactly this head and working tree;
  the branch is not \<open>main\<close>, and the worktree was clean on it before and after the report.
\<close>

theorem published_only_verified:
  assumes "publish_push c cwd (Some worktree)
      \<lparr>pw_git = start_git, pw_check = check_perform requests start_checks\<rparr> = (res, w')"
    "Spawned dir (git_command (''push'' # rest)) wr inp r \<in> set (gw_log (pw_git w'))"
  shows "\<exists>branch v out1 g1 out2 g2. rest = [''--porcelain'', ''origin'', pv_head v @ '':refs/heads/'' @ branch]
    \<and> check_report (pg_check c) cwd (check_perform requests start_checks) = (Inr v, pw_check w')
    \<and> pv_overallStatus v = CheckPass \<and> pv_repositoryRoot v = path_resolve (pg_processCwd c) worktree
    \<and> pv_checks v \<noteq> []
    \<and> (\<forall>i \<in> set (pv_checks v). \<exists>d before result after xs ys. dc_checkId d = dc_checkId (vi_check i)
        \<and> cw_log (pw_check w') = xs @ [CheckObserved before, CheckExecuted d (ob_repositoryRoot before) (Inr result),
            CheckObserved after] @ ys
        \<and> cr_exitCode result = Some 0 \<and> ob_head before = pv_head v \<and> ob_head after = pv_head v
        \<and> ob_workingTreeDigest before = pv_workingTreeDigest v \<and> ob_workingTreeDigest after = pv_workingTreeDigest v)
    \<and> branch \<noteq> ''main'' \<and> git_status (pg_projectGit c) cwd start_git = (Inr out1, g1) \<and> cleanBranch out1 = Inr branch
    \<and> git_status (pg_projectGit c) cwd g1 = (Inr out2, g2) \<and> cleanBranch out2 = Inr branch"
proof -
  let ?s = "check_perform requests start_checks" and ?w = "\<lparr>pw_git = start_git, pw_check = check_perform requests start_checks\<rparr>"
  have "no_push (gw_log (pw_git ?w))" by (simp add: start_git_def no_push_def)
  with publish_cases [OF assms(1)] assms(2) obtain branch v g s where
    o: "gate_open c cwd worktree ?w branch v g s" and n: "no_push (gw_log g)"
    and p: "in_git (git_push (pg_adminGit c) cwd (Some \<lparr>vp_branch = branch, vp_head = pv_head v\<rparr>))
        (?w\<lparr>pw_git := g, pw_check := s\<rparr>) = (res, w')"
    by (auto simp: no_push_def)
  from p obtain r' where gp: "git_push (pg_adminGit c) cwd (Some \<lparr>vp_branch = branch, vp_head = pv_head v\<rparr>) g = (r', pw_git w')"
    and s: "pw_check w' = s" by (auto simp: in_git_def split: prod.splits)
  have "pushes_allowed (pg_adminGit c) (Some \<lparr>vp_branch = branch, vp_head = pv_head v\<rparr>) (gw_log (pw_git w'))"
    using gtripleD [OF push_triple _ gp] n by (cases r') auto
  with assms(2) have r: "rest = [''--porcelain'', ''origin'', pv_head v @ '':refs/heads/'' @ branch]"
    by (fastforce simp: pushes_allowed_def push_allowed_def source_checked_def)
  from o have v: "check_report (pg_check c) cwd ?s = (Inr v, s)" "pv_overallStatus v = CheckPass"
    by (auto simp: gate_open_def)
  have "honest (cw_state ?s)" by (rule check_perform_honest) (rule start_honest)
  from ctripleD(2) [OF report_triple this v(1)] v(2) have "verified_view v (cw_log s)" by (simp add: cw_state_def)
  then have c: "pv_checks v \<noteq> []"
    "\<forall>i \<in> set (pv_checks v). passed_at (pv_head v) (pv_workingTreeDigest v) (vi_check i) (cw_log s)"
    by (auto simp: verified_view_def)
  from o obtain out1 g1 out2 where g: "pv_repositoryRoot v = path_resolve (pg_processCwd c) worktree" "branch \<noteq> ''main''"
    "git_status (pg_projectGit c) cwd start_git = (Inr out1, g1)" "cleanBranch out1 = Inr branch"
    "git_status (pg_projectGit c) cwd g1 = (Inr out2, g)" "cleanBranch out2 = Inr branch" by (auto simp: gate_open_def)
  from c(2) have e: "\<forall>i \<in> set (pv_checks v). \<exists>d before result after xs ys. dc_checkId d = dc_checkId (vi_check i)
        \<and> cw_log s = xs @ [CheckObserved before, CheckExecuted d (ob_repositoryRoot before) (Inr result),
            CheckObserved after] @ ys
        \<and> cr_exitCode result = Some 0 \<and> ob_head before = pv_head v \<and> ob_head after = pv_head v
        \<and> ob_workingTreeDigest before = pv_workingTreeDigest v \<and> ob_workingTreeDigest after = pv_workingTreeDigest v"
    unfolding passed_at_def checked_run_def by blast
  show ?thesis unfolding s by (intro exI conjI) (rule r v c e g)+
qed

section \<open>Example\<close>

definition demo_observation :: observation where
  "demo_observation = \<lparr>ob_repositoryRoot = [''r''], ob_projectFingerprint = demo_hash, ob_head = demo_head,
     ob_workingTreeDigest = demo_hash\<rparr>"

definition demo_checks :: check_config where
  "demo_checks = \<lparr>pc_env = \<lparr>pe_repo = (\<lambda>_. demo_repo (\<lambda>_. demo_hash) (OpenFile 9 (js_bytes ''symlink'' @ [0] @ js_bytes ''t''))),
       pe_open = (\<lambda>_ _. OpenFile 2 []), pe_lstat = (\<lambda>_ _. Absent), pe_readdir = (\<lambda>_ _. Some []),
       pe_exec = (\<lambda>_ _ _ _ _ _. Inr \<lparr>cr_exitCode = Some 0, cr_stdout = [], cr_stderr = []\<rparr>),
       pe_mkdir = (\<lambda>_. True), pe_write = (\<lambda>_. True), pe_iso = (\<lambda>_. ''t''), pe_ms = (\<lambda>_. 0),
       pe_parse = (\<lambda>_. Some (JObj [(''packageManager'', JString ''npm@1''), (''scripts'', JObj [(''check'', JString ''x'')])])),
       pe_decode = (\<lambda>_. []), pe_sha256 = (\<lambda>_. demo_hash)\<rparr>,
     pc_stateRoot = [''s''], pc_project = True, pc_commandTimeoutMs = 1000\<rparr>"

definition demo_check :: detected_check where
  "demo_check = script_check KindCheck ''npm'' ''check''"

definition demo_evidence :: jval where
  "demo_evidence = JObj [(''checkId'', JString (dc_checkId demo_check)), (''kind'', JString (kind_name (dc_kind demo_check))),
     (''command'', JString (dc_command demo_check)), (''args'', jstrings (dc_args demo_check)),
     (''cwd'', JString (dc_cwd demo_check)), (''source'', JString (dc_source demo_check)),
     (''execution'', JString (lane_name (dc_execution demo_check))), (''baseStatus'', JString (base_name CheckPass)),
     (''startedAt'', JString ''t''), (''finishedAt'', JString ''t''), (''durationMs'', JNum 0), (''exitCode'', JNum 0),
     (''head'', JString demo_head), (''workingTreeDigest'', JString demo_hash),
     (''stdoutSha256'', JString demo_hash), (''stderrSha256'', JString demo_hash),
     (''stdoutBytes'', JNum 0), (''stderrBytes'', JNum 0), (''stateChangedDuringRun'', JBool False)]"

definition demo_store :: jval where
  "demo_store = store_with (empty_store demo_observation) ''t'' (dc_checkId demo_check) demo_evidence"

lemma demo_observe_step:
  "observe demo_checks ''.'' w = (Inr demo_observation,
     w\<lparr>cw_time := cw_time w + 1, cw_log := cw_log w @ [CheckObserved demo_observation]\<rparr>)"
proof -
  have "replicate 40 CHR ''a'' = demo_head" by (simp only: demo_head_def)
  moreover obtain b where "hash_untracked (demo_repo (\<lambda>_. demo_hash)
      (OpenFile 9 (js_bytes ''symlink'' @ [0] @ js_bytes ''t''))) [''r''] 0 [''f''] = Inr b"
    using Repository_State.demo_hash by blast
  ultimately have "observeRepositoryState (pe_repo (pc_env demo_checks) (cw_time w)) ''.'' = Inr demo_observation"
    using demo_observe by (simp add: demo_checks_def demo_observation_def)
  then show ?thesis by (simp add: observe_def and_then_def inquire_def log_check_def ret_def)
qed

lemma demo_detect_step:
  "detectChecks demo_checks demo_observation w = (Inr [demo_check], w\<lparr>cw_time := cw_time w + 1\<rparr>)"
proof -
  have "named_manager (JString ''npm@1'') = Some ''npm''" "js_trim ''x'' = ''x''" "macos_test_script ''check'' = False"
    by code_simp+
  then show ?thesis
    by (simp add: detectChecks_def detectNodeChecks_def readRegularText_def and_then_def inquire_def ret_def Let_def
        demo_checks_def jget_def is_JObj_def detectPackageManager_def discoverNativeSwiftTestChecks_def members_def
        script_checks_def scriptValue_def demo_check_def MAX_PACKAGE_BYTES_def MAX_CHECKS_def)
qed

lemma demo_sizes: "serialized_size demo_store \<le> 2000" "validStore demo_store demo_observation"
  "pv_overallStatus (render_checks CheckReport demo_observation [demo_check] (Some demo_store)) = CheckPass"
  by code_simp+

lemma demo_evidence_step:
  "evidence_json demo_checks demo_check demo_observation demo_observation ''t'' 0
      (Some \<lparr>cr_exitCode = Some 0, cr_stdout = [], cr_stderr = []\<rparr>) CheckPass w
    = (Inr demo_evidence, w\<lparr>cw_time := cw_time w + 2\<rparr>)"
  by (simp add: evidence_json_def and_then_def clock_iso_def clock_ms_def inquire_def ret_def demo_checks_def
      demo_evidence_def demo_observation_def Let_def js_bytes_def js_byteLength_def)

lemma demo_persist_step:
  "persistStore demo_checks demo_observation demo_store w = (Inr (), w\<lparr>cw_time := cw_time w + 2,
     cw_disk := (cw_disk w)(storePath demo_checks demo_observation \<mapsto> TaskBytes (serialized_size demo_store) (Some demo_store)),
     cw_log := cw_log w @ [CheckPersisted (storePath demo_checks demo_observation) demo_store]\<rparr>)"
  using demo_sizes(1)
  by (simp add: persistStore_def and_then_def inquire_def write_store_def demo_checks_def MAX_STORE_BYTES_def)

lemma demo_run_check:
  "\<exists>w'. run_check demo_checks ''.'' None demo_observation (empty_store demo_observation) demo_check w = (Inr demo_store, w')
     \<and> cw_disk w' (storePath demo_checks demo_observation) = Some (TaskBytes (serialized_size demo_store) (Some demo_store))"
proof -
  have e: "execute demo_checks demo_check [''r''] None w = (Inr (Inr \<lparr>cr_exitCode = Some 0, cr_stdout = [], cr_stderr = []\<rparr>),
      w\<lparr>cw_time := cw_time w + 1, cw_log := cw_log w @ [CheckExecuted demo_check [''r'']
        (Inr \<lparr>cr_exitCode = Some 0, cr_stdout = [], cr_stderr = []\<rparr>)]\<rparr>)" for w
    by (simp add: execute_def and_then_def inquire_def log_check_def ret_def demo_checks_def Let_def)
  have c: "clock_iso demo_checks w = (Inr ''t'', w\<lparr>cw_time := cw_time w + 1\<rparr>)"
    "clock_ms demo_checks w = (Inr 0, w\<lparr>cw_time := cw_time w + 1\<rparr>)" for w
    by (simp_all add: clock_iso_def clock_ms_def inquire_def demo_checks_def)
  have r: "ob_repositoryRoot demo_observation = [''r'']" by (simp add: demo_observation_def)
  show ?thesis
    by (simp add: run_check_def and_then_def demo_observe_step c r e lift_task_def base_status_of_def demo_evidence_step
        demo_store_def [symmetric] demo_persist_step ret_def Let_def)
qed

lemma demo_checked:
  "cw_disk (check_perform [(demo_checks, RequestRun ''.'' None None False)] start_checks) (storePath demo_checks demo_observation)
     = Some (TaskBytes (serialized_size demo_store) (Some demo_store))"
proof -
  let ?w = "\<lparr>cw_time = Suc (Suc 0), cw_log = [CheckObserved demo_observation], cw_disk = Map.empty\<rparr>"
  obtain w' where w': "run_check demo_checks ''.'' None demo_observation (empty_store demo_observation) demo_check ?w
      = (Inr demo_store, w')"
    "cw_disk w' (storePath demo_checks demo_observation) = Some (TaskBytes (serialized_size demo_store) (Some demo_store))"
    using demo_run_check by blast
  have "requested_checks [demo_check] None = Inr [demo_check]" "dc_execution demo_check \<noteq> AdminHost"
    by (simp_all add: requested_checks_def demo_check_def script_check_def)
  moreover have "pc_project demo_checks" by (simp add: demo_checks_def)
  ultimately show ?thesis
    using w' by (simp add: check_run_def and_then_def assertProject_def ret_def demo_observe_step demo_detect_step
        lift_task_def loadStore_def start_checks_def)
qed

lemma demo_report:
  assumes "cw_disk w (storePath demo_checks demo_observation) = Some (TaskBytes (serialized_size demo_store) (Some demo_store))"
  shows "\<exists>w'. check_report demo_checks ''.'' w
    = (Inr (render_checks CheckReport demo_observation [demo_check] (Some demo_store)), w')"
proof -
  have "pc_project demo_checks" by (simp add: demo_checks_def)
  moreover have "\<not> serialized_size demo_store > MAX_STORE_BYTES" using demo_sizes(1) by (simp add: MAX_STORE_BYTES_def)
  ultimately show ?thesis
    using assms demo_sizes(2) by (simp add: check_report_def and_then_def assertProject_def ret_def demo_observe_step
        demo_detect_step loadStore_def)
qed

definition demo_publish :: publish_config where
  "demo_publish = (let g = demo_gitenv [(1, ''/w''), (4, ''## topic''), (6, ''/w''), (9, ''## topic''), (11, ''/w''),
       (14, ''topic''), (16, ''/w''), (19, demo_head), (21, ''/w''), (24, ''https://github.com/o/r''), (26, ''/w'')]
     in \<lparr>pg_projectGit = g, pg_adminGit = g, pg_check = demo_checks, pg_processCwd = []\<rparr>)"

theorem published_only_verified_witness:
  "\<exists>(v :: check_view) out1 g1. pv_overallStatus v = CheckPass \<and> pv_head v = demo_head \<and> pv_checks v \<noteq> []
     \<and> git_status (pg_projectGit demo_publish) ''.'' start_git = (Inr out1, g1) \<and> cleanBranch out1 = Inr ''topic''"
proof -
  let ?s = "check_perform [(demo_checks, RequestRun ''.'' None None False)] start_checks"
  let ?r = "publish_push demo_publish ''.'' (Some ''/r'') \<lparr>pw_git = start_git, pw_check = ?s\<rparr>"
  let ?v = "render_checks CheckReport demo_observation [demo_check] (Some demo_store)"
  let ?rest = "[''--porcelain'', ''origin'', demo_head @ '':refs/heads/topic'']"
  obtain w' where rep: "check_report demo_checks ''.'' ?s = (Inr ?v, w')" using demo_report [OF demo_checked] by blast
  have v: "pv_overallStatus ?v = CheckPass" "pv_repositoryRoot ?v = [''r'']" "pv_head ?v = demo_head"
    by (rule demo_sizes, simp_all add: render_checks_def demo_observation_def Let_def)
  have t: "js_trim ''topic'' = ''topic''" "validateBranchName ''topic'' = Inr ''topic''" "git_object_id demo_head"
    "js_trim demo_head = demo_head" "js_trim ''https://github.com/o/r'' = ''https://github.com/o/r''"
    "isAllowedGitHubOrigin ''https://github.com/o/r''" "length demo_head = 40" "path_resolve [] ''/r'' = [''r'']"
    "cleanBranch (demo_out ''## topic'') = Inr ''topic''" by code_simp+
  have d: "go_exitCode (demo_out s) = 0" "go_stdout (demo_out s) = s" for s by (simp_all add: demo_out_def)
  have c: "gs_remoteWriteEnabled (demo_gitenv script)" "gs_remoteUrlPolicy (demo_gitenv script) = isAllowedGitHubOrigin" for script
    by (simp_all add: demo_gitenv_def)
  have "Spawned [''w''] (git_command (''push'' # ?rest)) True None (Inr (demo_out [])) \<in> set (gw_log (pw_git (snd ?r)))"
    by (simp add: publish_push_def and_then_def in_git_def in_check_def git_status_def git_push_def push_source_def
        demo_publish_def git_run_def demo_run start_git_def c d t v rep lift_res_def ret_def Let_def demo_call_def
        del: check_perform.simps check_operate.simps)
  from published_only_verified [OF surjective_pairing this] obtain branch v out1 g1 where
    w: "?rest = [''--porcelain'', ''origin'', pv_head v @ '':refs/heads/'' @ branch]"
    "check_report (pg_check demo_publish) ''.'' ?s = (Inr v, pw_check (snd ?r))" "pv_overallStatus v = CheckPass"
    "pv_checks v \<noteq> []" "git_status (pg_projectGit demo_publish) ''.'' start_git = (Inr out1, g1)"
    "cleanBranch out1 = Inr branch" by metis
  have "v = ?v" using w(2) rep by (simp add: demo_publish_def Let_def)
  with w(1) v(3) have "branch = ''topic''" "pv_head v = demo_head" by simp_all
  with w(3-6) show ?thesis by (intro exI [of _ v] exI [of _ out1] exI [of _ g1]) simp
qed

section \<open>A store that outgrows its own limit\<close>

text \<open>
  The store of evidence can lock itself out. Writing has no limit on the number of entries, loading
  accepts at most 32: when a valid full store gets evidence of one more check, then writing it
  succeeds (within the byte limit, when the disk takes it), and from then on, as long as the file
  stays as written, every load fails with a recovery error.
\<close>

theorem verification_store_outgrows:
  assumes "validStore store obs" "length (members (jget store ''evidence'')) = MAX_CHECKS"
    "checkId \<notin> fst ` set (members (jget store ''evidence''))"
    "serialized_size (store_with store updatedAt checkId evidence) \<le> MAX_STORE_BYTES"
    "pe_mkdir (pc_env c) (cw_time w)" "pe_write (pc_env c) (cw_time w + 1)"
  shows "\<exists>w'. persistStore c obs (store_with store updatedAt checkId evidence) w = (Inr (), w')
    \<and> (\<forall>later. cw_disk later (storePath c obs) = cw_disk w' (storePath c obs)
        \<longrightarrow> loadStore c obs later = (Inl TaskRecovery, later))"
proof -
  let ?s = "store_with store updatedAt checkId evidence"
  have "members (jget ?s ''evidence'') = members (jget store ''evidence'') @ [(checkId, evidence)]"
    using put_key_fresh [of fst "(checkId, evidence)"] assms(3)
    by (simp add: store_with_def jget_jput) (simp add: jput_def members_def)
  then have bad: "\<not> validStore ?s obs" using assms(2) by (simp add: validStore_def)
  obtain w' where w': "persistStore c obs ?s w = (Inr (), w')"
    "cw_disk w' (storePath c obs) = Some (TaskBytes (serialized_size ?s) (Some ?s))"
    using assms(4-6) by (simp add: persistStore_def and_then_def inquire_def write_store_def)
  moreover have "loadStore c obs later = (Inl TaskRecovery, later)"
    if "cw_disk later (storePath c obs) = cw_disk w' (storePath c obs)" for later
    using bad by (simp add: loadStore_def that w'(2))
  ultimately show ?thesis by blast
qed

end
