(* ===== verification/Managed_Worktrees.thy ===== *)
theory Managed_Worktrees
  imports Git_Service Task_State
begin

text \<open>
  \<open>src/src/git/managed-worktree-service.ts\<close>: worktrees that the service creates, inspects and removes, with
  one JSON record each. As for the Git service, Git, the path checks and the disk's calls are answered
  anew at every call, and a log holds the children. The audit records are left out.
\<close>

section \<open>Data\<close>

datatype worktree_error =
    WtPath policy_error
  | WtPolicy
  | WtConflict
  | WtRecovery
  | WtNotFound
  | WtDirty
  | WtSystem

record managed_record =
  mr_worktreeId :: string
  mr_repositoryRoot :: string
  mr_commonDir :: string
  mr_repositoryFingerprint :: string
  mr_path :: string
  mr_branch :: string
  mr_createdAt :: string

datatype worktree_operation = WtCreate | WtStatus | WtRemove

record worktree_view =
  wv_operation :: worktree_operation
  wv_worktreeId :: string
  wv_path :: string
  wv_repositoryRoot :: string
  wv_branch :: string
  wv_head :: string
  wv_dirty :: bool
  wv_removed :: bool

record worktree_out =
  wo_exitCode :: int
  wo_stdout :: string

record worktree_env =
  we_lstat :: "nat \<Rightarrow> abspath \<Rightarrow> lstat_result"
  we_real :: "nat \<Rightarrow> abspath \<Rightarrow> abspath option"
  we_exists :: "nat \<Rightarrow> string \<Rightarrow> unit answer"
  we_child :: "nat \<Rightarrow> git_event list \<times> git_end"
  we_mkdir :: "nat \<Rightarrow> bool"
  we_open :: "nat \<Rightarrow> bool"
  we_write :: "nat \<Rightarrow> bool"
  we_rename :: "nat \<Rightarrow> bool"
  we_unlink :: "nat \<Rightarrow> bool"
  we_uuid :: "nat \<Rightarrow> string"
  we_iso :: "nat \<Rightarrow> string"
  we_getenv :: "string \<Rightarrow> string option"
  we_decode :: "byte list \<Rightarrow> string"
  we_sha256 :: "byte list \<Rightarrow> string"

record worktree_config =
  wc_env :: worktree_env
  wc_roots :: "abspath list"
  wc_maxCommandOutputBytes :: nat
  wc_registryDirectory :: abspath
  wc_managedRoot :: abspath
  wc_processCwd :: abspath

text \<open>A child: its directory, its arguments, whether it may write, and the result.\<close>

datatype worktree_entry = WtSpawned string "string list" bool "worktree_error + worktree_out"

record worktree_world =
  ww_time :: nat
  ww_log :: "worktree_entry list"
  ww_disk :: task_disk

type_synonym 'a worktree_m = "(worktree_world, worktree_error, 'a) prog"

definition wt_ask :: "(nat \<Rightarrow> worktree_error + 'a) \<Rightarrow> 'a worktree_m" where
  "wt_ask f = (\<lambda>w. (f (ww_time w), w\<lparr>ww_time := ww_time w + 1\<rparr>))"

definition wt_lift :: "worktree_error + 'a \<Rightarrow> 'a worktree_m" where
  "wt_lift r = (\<lambda>w. (r, w))"

section \<open>Git\<close>

definition fingerprint :: "worktree_config \<Rightarrow> string \<Rightarrow> string" where
  "fingerprint c commonDir = we_sha256 (wc_env c) (js_bytes ''git-common-dir'' @ [0] @ js_bytes commonDir)"

definition worktree_environment :: "(string \<Rightarrow> string option) \<Rightarrow> bool \<Rightarrow> (string \<times> string) list" where
  "worktree_environment source write =
     List.map_filter (\<lambda>k. map_option (\<lambda>v. (k, v)) (source k))
       [''HOME'', ''USER'', ''LOGNAME'', ''PATH'', ''LANG'', ''LC_ALL'', ''TMPDIR'']
     @ [(''GIT_CONFIG_NOSYSTEM'', ''1''), (''GIT_TERMINAL_PROMPT'', ''0''), (''GIT_PAGER'', ''cat''), (''PAGER'', ''cat''),
        (''GIT_OPTIONAL_LOCKS'', if write then ''1'' else ''0'')]"

definition worktree_child :: "worktree_config \<Rightarrow> git_event list \<times> git_end \<Rightarrow> worktree_error + worktree_out" where
  "worktree_child c child =
     (let s = fold (git_event_step (wc_maxCommandOutputBytes c)) (fst child)
            \<lparr>gc_stdout = [], gc_stderr = [], gc_bytes = 0, gc_timedOut = False, gc_tooLarge = False\<rparr>
      in case snd child of
           GitSpawnFails \<Rightarrow> Inl WtSystem
         | GitClose code \<Rightarrow>
             if gc_timedOut s then Inl WtPolicy
             else if gc_tooLarge s then Inl WtPolicy
             else Inr \<lparr>wo_exitCode = (case code of None \<Rightarrow> 1 | Some n \<Rightarrow> n),
                       wo_stdout = we_decode (wc_env c) (gc_stdout s)\<rparr>)"

definition wt_git :: "worktree_config \<Rightarrow> string \<Rightarrow> string list \<Rightarrow> bool \<Rightarrow> worktree_out worktree_m" where
  "wt_git c cwd args write =
     and_then (wt_ask (\<lambda>t. Inr (worktree_child c (we_child (wc_env c) t)))) (\<lambda>r.
     and_then (\<lambda>w. (Inr (), w\<lparr>ww_log := ww_log w @ [WtSpawned cwd (git_command args) write r]\<rparr>)) (\<lambda>_. wt_lift r))"

section \<open>Records\<close>

definition recordShape :: "jval \<Rightarrow> bool" where
  "recordShape v \<longleftrightarrow> jget v ''version'' = JNum 1
     \<and> is_JString (jget v ''worktreeId'') \<and> uuid_v4 (jstring (jget v ''worktreeId''))
     \<and> is_JString (jget v ''repositoryRoot'') \<and> is_JString (jget v ''commonDir'')
     \<and> is_JString (jget v ''repositoryFingerprint'') \<and> sha256_text (jstring (jget v ''repositoryFingerprint''))
     \<and> is_JString (jget v ''path'') \<and> is_JString (jget v ''branch'') \<and> is_JString (jget v ''createdAt'')"

definition record_of_json :: "jval \<Rightarrow> managed_record" where
  "record_of_json v = \<lparr>mr_worktreeId = jstring (jget v ''worktreeId''), mr_repositoryRoot = jstring (jget v ''repositoryRoot''),
     mr_commonDir = jstring (jget v ''commonDir''), mr_repositoryFingerprint = jstring (jget v ''repositoryFingerprint''),
     mr_path = jstring (jget v ''path''), mr_branch = jstring (jget v ''branch''),
     mr_createdAt = jstring (jget v ''createdAt'')\<rparr>"

definition record_json :: "managed_record \<Rightarrow> jval" where
  "record_json r = JObj [(''version'', JNum 1), (''worktreeId'', JString (mr_worktreeId r)),
     (''repositoryRoot'', JString (mr_repositoryRoot r)), (''commonDir'', JString (mr_commonDir r)),
     (''repositoryFingerprint'', JString (mr_repositoryFingerprint r)), (''path'', JString (mr_path r)),
     (''branch'', JString (mr_branch r)), (''createdAt'', JString (mr_createdAt r))]"

definition registryPath :: "worktree_config \<Rightarrow> string \<Rightarrow> worktree_error + abspath" where
  "registryPath c worktreeId =
     (if \<not> uuid_v4 worktreeId then Inl WtNotFound else Inr (wc_registryDirectory c @ [worktreeId @ ''.json'']))"

definition wt_exists :: "worktree_config \<Rightarrow> string \<Rightarrow> bool worktree_m" where
  "wt_exists c candidate = wt_ask (\<lambda>t. case we_exists (wc_env c) t candidate of
     Absent \<Rightarrow> Inr False | Broken \<Rightarrow> Inl WtSystem | Present _ \<Rightarrow> Inr True)"

text \<open>Removing a file that may be missing; a failing call leaves it.\<close>

definition wt_unlink :: "worktree_config \<Rightarrow> abspath \<Rightarrow> unit worktree_m" where
  "wt_unlink c p =
     and_then (wt_ask (\<lambda>t. if we_unlink (wc_env c) t then Inr () else Inl WtSystem)) (\<lambda>_ w.
       (Inr (), w\<lparr>ww_disk := (ww_disk w)(p := None)\<rparr>))"

text \<open>A record is written to a new file, which is then renamed. If writing fails the new file stays.\<close>

definition temp_record :: "worktree_config \<Rightarrow> string \<Rightarrow> string \<Rightarrow> abspath" where
  "temp_record c worktreeId tempId = wc_registryDirectory c @ [''.'' @ worktreeId @ ''.'' @ tempId @ ''.tmp'']"

definition open_temp :: "worktree_config \<Rightarrow> abspath \<Rightarrow> unit worktree_m" where
  "open_temp c temp =
     and_then (wt_ask (\<lambda>t. if we_open (wc_env c) t then Inr () else Inl WtSystem)) (\<lambda>_ w.
       if ww_disk w temp \<noteq> None then (Inl WtSystem, w)
       else (Inr (), w\<lparr>ww_disk := (ww_disk w)(temp \<mapsto> TaskBytes 0 None)\<rparr>))"

definition fill_temp :: "worktree_config \<Rightarrow> abspath \<Rightarrow> managed_record \<Rightarrow> unit worktree_m" where
  "fill_temp c temp r =
     and_then (wt_ask (\<lambda>t. if we_write (wc_env c) t then Inr () else Inl WtSystem)) (\<lambda>_ w.
       (Inr (), w\<lparr>ww_disk := (ww_disk w)(temp \<mapsto> TaskBytes (serialized_size (record_json r)) (Some (record_json r)))\<rparr>))"

definition rename_record :: "worktree_config \<Rightarrow> abspath \<Rightarrow> abspath \<Rightarrow> unit worktree_m" where
  "rename_record c temp destination =
     and_then (wt_ask (\<lambda>t. if we_rename (wc_env c) t then Inr () else Inl WtSystem)) (\<lambda>_ w.
       (Inr (), w\<lparr>ww_disk := (ww_disk w)(destination := ww_disk w temp, temp := None)\<rparr>))"

definition writeRecord :: "worktree_config \<Rightarrow> managed_record \<Rightarrow> unit worktree_m" where
  "writeRecord c r =
     and_then (wt_ask (\<lambda>t. if we_mkdir (wc_env c) t then Inr () else Inl WtSystem)) (\<lambda>_.
     and_then (wt_lift (registryPath c (mr_worktreeId r))) (\<lambda>destination.
     and_then (wt_ask (\<lambda>t. Inr (we_uuid (wc_env c) t))) (\<lambda>tempId.
       (let temp = temp_record c (mr_worktreeId r) tempId
        in and_then (open_temp c temp) (\<lambda>_.
           and_then (fill_temp c temp r) (\<lambda>_.
             catching (rename_record c temp destination) (\<lambda>e. and_then (wt_unlink c temp) (\<lambda>_. raise e))))))))"

definition loadRecord :: "worktree_config \<Rightarrow> string \<Rightarrow> managed_record worktree_m" where
  "loadRecord c worktreeId = (\<lambda>w.
     (bind_res (registryPath c worktreeId) (\<lambda>path.
        case ww_disk w path of
          None \<Rightarrow> Inl WtNotFound
        | Some TaskUnreadable \<Rightarrow> Inl WtRecovery
        | Some (TaskBytes n content) \<Rightarrow>
            if n > 64 * 1024 then Inl WtRecovery
            else (case content of
                None \<Rightarrow> Inl WtRecovery
              | Some v \<Rightarrow> if recordShape v \<and> jget v ''worktreeId'' = JString worktreeId then Inr (record_of_json v)
                          else Inl WtRecovery)), w))"

section \<open>Inspecting\<close>

record repository_info =
  ri_repositoryRoot :: abspath
  ri_commonDir :: abspath
  ri_fingerprint :: string

definition wt_resolve :: "worktree_config \<Rightarrow> string \<Rightarrow> abspath worktree_m" where
  "wt_resolve c input = wt_ask (\<lambda>t.
     case policy_resolve (we_lstat (wc_env c) t) (we_real (wc_env c) t) (wc_roots c) input of
       Inl e \<Rightarrow> Inl (WtPath e) | Inr p \<Rightarrow> Inr p)"

definition wt_realpath :: "worktree_config \<Rightarrow> abspath \<Rightarrow> abspath worktree_m" where
  "wt_realpath c p = wt_ask (\<lambda>t. case we_real (wc_env c) t p of None \<Rightarrow> Inl WtSystem | Some q \<Rightarrow> Inr q)"

definition common_candidate :: "abspath \<Rightarrow> string \<Rightarrow> abspath" where
  "common_candidate base out = path_resolve (if isAbsolute (js_trim out) then [] else base) (js_trim out)"

definition wt_repository :: "worktree_config \<Rightarrow> string \<Rightarrow> repository_info worktree_m" where
  "wt_repository c cwdInput =
     and_then (wt_resolve c cwdInput) (\<lambda>cwd.
     and_then (wt_git c (path_string cwd) [''rev-parse'', ''--show-toplevel''] False) (\<lambda>rootResult.
       if wo_exitCode rootResult \<noteq> 0 \<or> js_trim (wo_stdout rootResult) = [] then raise WtPolicy
       else
         and_then (wt_resolve c (js_trim (wo_stdout rootResult))) (\<lambda>repositoryRoot.
         and_then (wt_realpath c repositoryRoot) (\<lambda>canonicalRoot.
         and_then (wt_git c (path_string repositoryRoot) [''rev-parse'', ''--git-common-dir''] False) (\<lambda>commonResult.
           if wo_exitCode commonResult \<noteq> 0 \<or> js_trim (wo_stdout commonResult) = [] then raise WtPolicy
           else
             and_then (wt_realpath c (common_candidate repositoryRoot (wo_stdout commonResult))) (\<lambda>commonDir.
               ret \<lparr>ri_repositoryRoot = canonicalRoot, ri_commonDir = commonDir,
                    ri_fingerprint = fingerprint c (path_string commonDir)\<rparr>))))))"

definition wt_dirty :: "worktree_config \<Rightarrow> string \<Rightarrow> string \<Rightarrow> bool worktree_m" where
  "wt_dirty c worktreePath untracked =
     and_then (wt_git c worktreePath [''status'', ''--porcelain=v1'', ''--untracked-files='' @ untracked] False) (\<lambda>status.
       if wo_exitCode status \<noteq> 0 then raise WtRecovery else ret (wo_stdout status \<noteq> []))"

definition isDirty :: "worktree_config \<Rightarrow> string \<Rightarrow> bool worktree_m" where
  "isDirty c worktreePath = wt_dirty c worktreePath ''normal''"

definition isDirtyTrackedOnly :: "worktree_config \<Rightarrow> string \<Rightarrow> bool worktree_m" where
  "isDirtyTrackedOnly c worktreePath = wt_dirty c worktreePath ''no''"

definition wt_head :: "worktree_config \<Rightarrow> string \<Rightarrow> string worktree_m" where
  "wt_head c worktreePath =
     and_then (wt_git c worktreePath [''rev-parse'', ''HEAD''] False) (\<lambda>result.
       if wo_exitCode result \<noteq> 0 \<or> \<not> git_object_id (js_trim (wo_stdout result)) then raise WtRecovery
       else ret (js_trim (wo_stdout result)))"

definition wt_branch :: "string \<Rightarrow> worktree_error + string" where
  "wt_branch s = (case validateBranchName s of Inl _ \<Rightarrow> Inl WtPolicy | Inr b \<Rightarrow> Inr b)"

definition currentBranch :: "worktree_config \<Rightarrow> string \<Rightarrow> string worktree_m" where
  "currentBranch c worktreePath =
     and_then (wt_git c worktreePath [''branch'', ''--show-current''] False) (\<lambda>result.
       if wo_exitCode result \<noteq> 0 \<or> js_trim (wo_stdout result) = [] then raise WtRecovery
       else wt_lift (wt_branch (js_trim (wo_stdout result))))"

definition ownedPath :: "worktree_config \<Rightarrow> managed_record \<Rightarrow> abspath" where
  "ownedPath c r = path_resolve (path_resolve (wc_managedRoot c) (mr_repositoryFingerprint r)) (mr_worktreeId r)"

definition validateOwnedPath :: "worktree_config \<Rightarrow> managed_record \<Rightarrow> worktree_error + unit" where
  "validateOwnedPath c r =
     (if path_resolve (wc_processCwd c) (mr_path r) \<noteq> ownedPath c r \<or> \<not> isInside (wc_managedRoot c) (ownedPath c r)
      then Inl WtRecovery else Inr ())"

definition verifyRecord :: "worktree_config \<Rightarrow> managed_record \<Rightarrow> (string \<times> bool) worktree_m" where
  "verifyRecord c r =
     and_then (wt_lift (validateOwnedPath c r)) (\<lambda>_.
     and_then (wt_resolve c (mr_repositoryRoot r)) (\<lambda>_.
     and_then (wt_exists c (mr_path r)) (\<lambda>found.
       if \<not> found then raise WtRecovery
       else
         and_then (wt_git c (mr_path r) [''rev-parse'', ''--git-common-dir''] False) (\<lambda>commonResult.
           if wo_exitCode commonResult \<noteq> 0 \<or> js_trim (wo_stdout commonResult) = [] then raise WtRecovery
           else
             and_then (wt_realpath c (common_candidate (path_resolve (wc_processCwd c) (mr_path r)) (wo_stdout commonResult)))
               (\<lambda>commonDir.
               if path_string commonDir \<noteq> mr_commonDir r
                 \<or> fingerprint c (path_string commonDir) \<noteq> mr_repositoryFingerprint r then raise WtRecovery
               else
                 and_then (currentBranch c (mr_path r)) (\<lambda>branch.
                   if branch \<noteq> mr_branch r then raise WtRecovery
                   else
                     and_then (wt_head c (mr_path r)) (\<lambda>head.
                     and_then (isDirty c (mr_path r)) (\<lambda>dirty. ret (head, dirty)))))))))"

section \<open>Operations\<close>

definition new_record :: "worktree_config \<Rightarrow> repository_info \<Rightarrow> string \<Rightarrow> string \<Rightarrow> string \<Rightarrow> managed_record" where
  "new_record c repo worktreeId branch createdAt =
     \<lparr>mr_worktreeId = worktreeId, mr_repositoryRoot = path_string (ri_repositoryRoot repo),
      mr_commonDir = path_string (ri_commonDir repo), mr_repositoryFingerprint = ri_fingerprint repo,
      mr_path = path_string (wc_managedRoot c @ [ri_fingerprint repo, worktreeId]), mr_branch = branch,
      mr_createdAt = createdAt\<rparr>"

text \<open>Writing the record of a new worktree; if that fails the worktree and its branch are removed again.\<close>

definition write_or_undo :: "worktree_config \<Rightarrow> managed_record \<Rightarrow> unit worktree_m" where
  "write_or_undo c r =
     catching (writeRecord c r) (\<lambda>e.
       and_then (wt_git c (mr_repositoryRoot r) [''worktree'', ''remove'', mr_path r] True) (\<lambda>rollback.
         if wo_exitCode rollback \<noteq> 0 then raise WtRecovery
         else
           and_then (wt_git c (mr_repositoryRoot r) [''branch'', ''-D'', mr_branch r] True) (\<lambda>_. raise e)))"

definition wt_create :: "worktree_config \<Rightarrow> string \<Rightarrow> string \<Rightarrow> worktree_view worktree_m" where
  "wt_create c cwdInput branchInput =
     and_then (wt_lift (wt_branch branchInput)) (\<lambda>branch.
     and_then (wt_repository c cwdInput) (\<lambda>repo.
       (let root = path_string (ri_repositoryRoot repo)
        in and_then (isDirtyTrackedOnly c root) (\<lambda>dirty.
           if dirty then raise WtDirty
           else
             and_then (wt_git c root [''show-ref'', ''--verify'', ''--quiet'', ''refs/heads/'' @ branch] False) (\<lambda>branchExists.
               if wo_exitCode branchExists = 0 then raise WtConflict
               else if wo_exitCode branchExists \<noteq> 1 then raise WtPolicy
               else
                 and_then (wt_ask (\<lambda>t. Inr (we_uuid (wc_env c) t))) (\<lambda>worktreeId.
                 and_then (wt_ask (\<lambda>t. if we_mkdir (wc_env c) t then Inr () else Inl WtSystem)) (\<lambda>_.
                 and_then (wt_git c root [''worktree'', ''add'', ''-b'', branch,
                     path_string (wc_managedRoot c @ [ri_fingerprint repo, worktreeId]), ''HEAD''] True) (\<lambda>added.
                   if wo_exitCode added \<noteq> 0 then raise WtConflict
                   else
                     and_then (wt_ask (\<lambda>t. Inr (we_iso (wc_env c) t))) (\<lambda>createdAt.
                       (let r = new_record c repo worktreeId branch createdAt
                        in and_then (write_or_undo c r) (\<lambda>_.
                           and_then (wt_head c (mr_path r)) (\<lambda>head.
                             ret \<lparr>wv_operation = WtCreate, wv_worktreeId = worktreeId, wv_path = mr_path r,
                               wv_repositoryRoot = root, wv_branch = branch, wv_head = head, wv_dirty = False,
                               wv_removed = False\<rparr>))))))))))))"

definition view_of_record :: "worktree_operation \<Rightarrow> managed_record \<Rightarrow> string \<Rightarrow> bool \<Rightarrow> bool \<Rightarrow> worktree_view" where
  "view_of_record op r head dirty removed = \<lparr>wv_operation = op, wv_worktreeId = mr_worktreeId r, wv_path = mr_path r,
     wv_repositoryRoot = mr_repositoryRoot r, wv_branch = mr_branch r, wv_head = head, wv_dirty = dirty,
     wv_removed = removed\<rparr>"

definition wt_status :: "worktree_config \<Rightarrow> string \<Rightarrow> worktree_view worktree_m" where
  "wt_status c worktreeId =
     and_then (loadRecord c worktreeId) (\<lambda>r.
     and_then (verifyRecord c r) (\<lambda>(head, dirty). ret (view_of_record WtStatus r head dirty False)))"

definition wt_remove :: "worktree_config \<Rightarrow> string \<Rightarrow> worktree_view worktree_m" where
  "wt_remove c worktreeId =
     and_then (loadRecord c worktreeId) (\<lambda>r.
     and_then (verifyRecord c r) (\<lambda>(head, dirty).
       if dirty then raise WtDirty
       else
         and_then (wt_git c (mr_repositoryRoot r) [''worktree'', ''remove'', mr_path r] True) (\<lambda>removed.
           if wo_exitCode removed \<noteq> 0 then raise WtRecovery
           else
             and_then (wt_lift (registryPath c (mr_worktreeId r))) (\<lambda>path.
             and_then (wt_unlink c path) (\<lambda>_. ret (view_of_record WtRemove r head False True))))))"

end
