(* ===== verification/Worktree_Guarantees.thy ===== *)
theory Worktree_Guarantees
  imports Managed_Worktrees
begin

text \<open>
  What \<open>ManagedWorktreeService\<close> promises: no worktree it added is forgotten, and it removes only what it
  owns and what is clean. The triples are on the time, the log of children and the registry.
\<close>

section \<open>Triples\<close>

definition ww_state :: "worktree_world \<Rightarrow> nat \<times> worktree_entry list \<times> task_disk" where
  "ww_state w = (ww_time w, ww_log w, ww_disk w)"

abbreviation wtriple where
  "wtriple \<equiv> crash_triple ww_state (\<lambda>_. []) (\<lambda>_. True)"

lemma wtripleI:
  assumes "\<And>w res w'. P (ww_state w) \<Longrightarrow> m w = (res, w') \<Longrightarrow>
    (\<forall>e. res = Inl e \<longrightarrow> E (ww_state w')) \<and> (\<forall>x. res = Inr x \<longrightarrow> Q x (ww_state w'))"
  shows "wtriple P m Q E"
  using assms by (intro tripleI) (auto simp: crash_hist_def)

lemma wtripleD:
  assumes "wtriple P m Q E" "P (ww_state w)" "m w = (res, w')"
  shows "res = Inl e \<Longrightarrow> E (ww_state w')" "res = Inr x \<Longrightarrow> Q x (ww_state w')"
  using tripleD [OF assms(1,2) _ assms(3)] by (auto simp: crash_hist_def)

lemma wtriple_ask:
  assumes "\<And>n l d. P (n, l, d) \<Longrightarrow> E (Suc n, l, d)" "\<And>n l d x. P (n, l, d) \<Longrightarrow> f n = Inr x \<Longrightarrow> Q x (Suc n, l, d)"
  shows "wtriple P (wt_ask f) Q E"
  using assms by (intro wtripleI) (auto simp: wt_ask_def ww_state_def)

lemma wtriple_lift:
  "(\<And>s. P s \<Longrightarrow> E s) \<Longrightarrow> (\<And>s x. P s \<Longrightarrow> r = Inr x \<Longrightarrow> Q x s) \<Longrightarrow> wtriple P (wt_lift r) Q E"
  by (intro wtripleI) (auto simp: wt_lift_def)

lemma wtriple_git:
  assumes "\<And>n l d e. P (n, l, d) \<Longrightarrow> E (Suc n, l @ [WtSpawned cwd (git_command args) wr (Inl e)], d)"
    "\<And>n l d x. P (n, l, d) \<Longrightarrow> Q x (Suc n, l @ [WtSpawned cwd (git_command args) wr (Inr x)], d)"
  shows "wtriple P (wt_git c cwd args wr) Q E"
proof (rule wtripleI)
  fix w res w' assume P: "P (ww_state w)" and e: "wt_git c cwd args wr w = (res, w')"
  then have "ww_state w' = (Suc (ww_time w), ww_log w @ [WtSpawned cwd (git_command args) wr res], ww_disk w)"
    by (auto simp: wt_git_def and_then_def wt_ask_def wt_lift_def ww_state_def split: if_splits)
  with assms [of "ww_time w" "ww_log w" "ww_disk w"] P
  show "(\<forall>e. res = Inl e \<longrightarrow> E (ww_state w')) \<and> (\<forall>x. res = Inr x \<longrightarrow> Q x (ww_state w'))" by (auto simp: ww_state_def)
qed

section \<open>Predicates that asking and reading keep\<close>

text \<open>A predicate that survives a question, and a child that does not add a worktree.\<close>

definition steady :: "(nat \<times> worktree_entry list \<times> task_disk \<Rightarrow> bool) \<Rightarrow> bool" where
  "steady P \<longleftrightarrow> (\<forall>n l d. P (n, l, d) \<longrightarrow> P (Suc n, l, d))
     \<and> (\<forall>n l d cwd args wr r. P (n, l, d) \<longrightarrow> take 2 args \<noteq> [''worktree'', ''add'']
          \<longrightarrow> P (Suc n, l @ [WtSpawned cwd (git_command args) wr r], d))"

lemma steadyD:
  assumes "steady P" "P (n, l, d)"
  shows "P (Suc n, l, d)"
    "take 2 args \<noteq> [''worktree'', ''add''] \<Longrightarrow> P (Suc n, l @ [WtSpawned cwd (git_command args) wr r], d)"
  using assms unfolding steady_def by blast+

abbreviation wkeeps where
  "wkeeps P m \<equiv> wtriple P m (\<lambda>_. P) P"

lemma wkeeps_ask: "steady P \<Longrightarrow> wkeeps P (wt_ask f)"
  by (rule wtriple_ask) (auto dest: steadyD)

lemma wkeeps_git: "steady P \<Longrightarrow> take 2 args \<noteq> [''worktree'', ''add''] \<Longrightarrow> wkeeps P (wt_git c cwd args wr)"
  by (rule wtriple_git) (auto intro: steadyD(2))

lemma wkeeps_simple: "wkeeps P (ret x)" "wkeeps P (raise e)" "wkeeps P (wt_lift r)"
  by (simp_all add: triple_ret triple_raise wtriple_lift)

lemma wkeeps_bind: "wkeeps P m \<Longrightarrow> (\<And>x. wkeeps P (f x)) \<Longrightarrow> wkeeps P (and_then m f)"
  by (rule triple_and_then)

lemmas wkeeps = wkeeps_simple wkeeps_bind triple_if wkeeps_ask wkeeps_git

lemma inspecting_keeps:
  assumes "steady P"
  shows "wkeeps P (wt_resolve c s)" "wkeeps P (wt_realpath c p)" "wkeeps P (wt_exists c s)" "wkeeps P (wt_dirty c s u)"
    "wkeeps P (wt_head c s)" "wkeeps P (currentBranch c s)"
  using assms unfolding wt_resolve_def wt_realpath_def wt_exists_def wt_dirty_def wt_head_def currentBranch_def
  by (intro wkeeps; simp)+

lemma load_keeps: "wkeeps P (loadRecord c worktreeId)"
  by (rule wtripleI) (auto simp: loadRecord_def)

lemma repository_keeps: "steady P \<Longrightarrow> wkeeps P (wt_repository c cwdInput)"
  unfolding wt_repository_def by (intro wkeeps inspecting_keeps) simp_all

lemma verify_keeps: "steady P \<Longrightarrow> wkeeps P (verifyRecord c r)"
  unfolding verifyRecord_def isDirty_def by (intro wkeeps inspecting_keeps) simp_all

section \<open>No worktree is forgotten\<close>

definition record_file :: "managed_record \<Rightarrow> task_file" where
  "record_file r = TaskBytes (serialized_size (record_json r)) (Some (record_json r))"

definition record_key :: "worktree_config \<Rightarrow> string \<Rightarrow> abspath" where
  "record_key c worktreeId = wc_registryDirectory c @ [worktreeId @ ''.json'']"

lemma record_of_json_of [simp]: "record_of_json (record_json r) = r"
  by (simp add: record_of_json_def record_json_def jget_def)

lemma record_file_inject [simp]: "record_file r = record_file r' \<longleftrightarrow> r = r'"
  unfolding record_file_def by (metis option.inject record_of_json_of task_file.inject(1))

text \<open>Temporary files end in another suffix than records.\<close>

definition temp_key :: "worktree_config \<Rightarrow> abspath \<Rightarrow> bool" where
  "temp_key c p \<longleftrightarrow> (\<exists>name. p = wc_registryDirectory c @ [name @ ''.tmp''])"

lemma temp_key_record [simp]: "temp_key c (temp_record c worktreeId tempId)"
  unfolding temp_key_def temp_record_def by (intro exI [of _ "''.'' @ worktreeId @ ''.'' @ tempId"]) simp

lemma record_no_temp: "\<not> temp_key c (record_key c worktreeId)"
proof -
  have "worktreeId @ ''.json'' \<noteq> name @ ''.tmp''" for name
    using arg_cong [of "worktreeId @ ''.json''" "name @ ''.tmp''" last] by auto
  then show ?thesis by (simp add: temp_key_def record_key_def)
qed

lemma record_key_temp: "temp_key c p \<Longrightarrow> record_key c worktreeId \<noteq> p"
  using record_no_temp by metis

text \<open>
  The registry holds temporary files and records under their own names, with identifiers made before \<open>n\<close>.
\<close>

definition registry_ok :: "worktree_config \<Rightarrow> nat \<Rightarrow> task_disk \<Rightarrow> bool" where
  "registry_ok c n d \<longleftrightarrow> (\<forall>p f. d p = Some f \<longrightarrow> temp_key c p \<or> (\<exists>r t. f = record_file r \<and> p = record_key c (mr_worktreeId r)
     \<and> t < n \<and> mr_worktreeId r = we_uuid (wc_env c) t))"

definition added :: "string \<Rightarrow> string \<Rightarrow> worktree_entry list \<Rightarrow> bool" where
  "added branch path l \<longleftrightarrow> (\<exists>dir wr out. WtSpawned dir (git_command [''worktree'', ''add'', ''-b'', branch, path, ''HEAD'']) wr (Inr out)
     \<in> set l \<and> wo_exitCode out = 0)"

definition removal_tried :: "string \<Rightarrow> worktree_entry list \<Rightarrow> bool" where
  "removal_tried path l \<longleftrightarrow> (\<exists>dir wr r. WtSpawned dir (git_command [''worktree'', ''remove'', path]) wr r \<in> set l)"

definition registered :: "worktree_config \<Rightarrow> string \<Rightarrow> string \<Rightarrow> task_disk \<Rightarrow> bool" where
  "registered c branch path d \<longleftrightarrow> (\<exists>r. d (record_key c (mr_worktreeId r)) = Some (record_file r)
     \<and> mr_path r = path \<and> mr_branch r = branch)"

text \<open>Every added worktree is registered or its removal was tried; up to one that is being created.\<close>

definition tracked :: "worktree_config \<Rightarrow> (string \<times> string) option \<Rightarrow> nat \<times> worktree_entry list \<times> task_disk \<Rightarrow> bool" where
  "tracked c open' s \<longleftrightarrow> (case s of (n, l, d) \<Rightarrow> registry_ok c n d
     \<and> (\<forall>branch path. added branch path l \<longrightarrow> Some (branch, path) \<noteq> open' \<longrightarrow>
          removal_tried path l \<or> registered c branch path d))"

lemma registry_later: "registry_ok c n d \<Longrightarrow> registry_ok c (Suc n) d"
  unfolding registry_ok_def by (meson less_SucI)

lemma removal_tried_append: "removal_tried path l \<Longrightarrow> removal_tried path (l @ es)"
  by (auto simp: removal_tried_def)

lemma git_command_eq [simp]: "git_command a = git_command b \<longleftrightarrow> a = b"
  by (simp add: git_command_def)

lemma added_snoc: "added branch path (l @ [WtSpawned cwd (git_command args) wr r]) \<longleftrightarrow> added branch path l
    \<or> args = [''worktree'', ''add'', ''-b'', branch, path, ''HEAD''] \<and> (\<exists>out. r = Inr out \<and> wo_exitCode out = 0)"
  by (auto simp: added_def)

lemma tracked_steady: "steady (tracked c open')"
  unfolding steady_def
proof (intro conjI allI impI)
  fix n l d assume "tracked c open' (n, l, d)"
  then show "tracked c open' (Suc n, l, d)" using registry_later by (simp add: tracked_def)
next
  fix n l d cwd args wr r
  assume t: "tracked c open' (n, l, d)" and a: "take 2 args \<noteq> [''worktree'', ''add'']"
  from a have "added branch path (l @ [WtSpawned cwd (git_command args) wr r]) \<longleftrightarrow> added branch path l" for branch path
    by (auto simp: added_snoc)
  with t show "tracked c open' (Suc n, l @ [WtSpawned cwd (git_command args) wr r], d)"
    using registry_later removal_tried_append by (simp add: tracked_def) blast
qed

text \<open>Trying to remove closes a creation, and so does a record in the registry.\<close>

lemma removal_closes:
  assumes "tracked c (Some (branch, path)) (n, l, d)"
  shows "tracked c None (Suc n, l @ [WtSpawned cwd (git_command [''worktree'', ''remove'', path]) wr r], d)"
proof -
  have "tracked c (Some (branch, path)) (Suc n, l @ [WtSpawned cwd (git_command [''worktree'', ''remove'', path]) wr r], d)"
    by (rule steadyD(2) [OF tracked_steady assms]) simp
  moreover have "removal_tried path (l @ [WtSpawned cwd (git_command [''worktree'', ''remove'', path]) wr r])"
    by (auto simp: removal_tried_def)
  ultimately show ?thesis by (auto simp: tracked_def)
qed

lemma record_closes:
  assumes "tracked c (Some (mr_branch r, mr_path r)) (n, l, d)" "d (record_key c (mr_worktreeId r)) = None"
    "mr_worktreeId r = we_uuid (wc_env c) t" "t < n"
  shows "tracked c None (n, l, d(record_key c (mr_worktreeId r) \<mapsto> record_file r))"
proof -
  let ?d = "d(record_key c (mr_worktreeId r) \<mapsto> record_file r)"
  have "registry_ok c n ?d" using assms by (auto simp: tracked_def registry_ok_def)
  moreover have "registered c branch path ?d" if "registered c branch path d" for branch path
  proof -
    from that obtain r' where r': "d (record_key c (mr_worktreeId r')) = Some (record_file r')" "mr_path r' = path"
      "mr_branch r' = branch" by (auto simp: registered_def)
    with assms(2) have "record_key c (mr_worktreeId r') \<noteq> record_key c (mr_worktreeId r)" by auto
    with r' show ?thesis unfolding registered_def by (intro exI [of _ r']) simp
  qed
  moreover have "registered c (mr_branch r) (mr_path r) ?d" by (auto simp: registered_def)
  ultimately show ?thesis using assms(1) by (auto simp: tracked_def)
qed

lemma unlink_tracked:
  assumes "tracked c None (n, l, d)" "d (record_key c (mr_worktreeId r)) = Some (record_file r)" "removal_tried (mr_path r) l"
  shows "tracked c None (n, l, d(record_key c (mr_worktreeId r) := None))"
proof -
  let ?d = "d(record_key c (mr_worktreeId r) := None)"
  have "registry_ok c n ?d" using assms(1) by (auto simp: tracked_def registry_ok_def)
  moreover have "removal_tried path l \<or> registered c branch path ?d" if "registered c branch path d" for branch path
  proof -
    from that obtain r' where r': "d (record_key c (mr_worktreeId r')) = Some (record_file r')" "mr_path r' = path" "mr_branch r' = branch"
      by (auto simp: registered_def)
    show ?thesis
    proof (cases "record_key c (mr_worktreeId r') = record_key c (mr_worktreeId r)")
      case True
      then have "r' = r" using r'(1) assms(2) by (metis option.inject record_file_inject)
      then have "mr_path r = path" using r'(2) by blast
      then show ?thesis using assms(3) by blast
    next
      case False
      with r' show ?thesis unfolding registered_def by (intro disjI2 exI [of _ r']) simp
    qed
  qed
  moreover have "removal_tried path l \<or> registered c branch path d" if "added branch path l" for branch path
    using assms(1) that by (simp add: tracked_def)
  ultimately show ?thesis unfolding tracked_def prod.case by blast
qed

section \<open>Every operation keeps track\<close>

text \<open>Two equal identifiers, which random identifiers do not make; apart from that everything is tracked.\<close>

definition collided :: "worktree_config \<Rightarrow> nat \<Rightarrow> bool" where
  "collided c n \<longleftrightarrow> (\<exists>t t'. t < t' \<and> t' < n \<and> we_uuid (wc_env c) t = we_uuid (wc_env c) t')"

definition wt_kept :: "worktree_config \<Rightarrow> (string \<times> string) option \<Rightarrow> nat \<times> worktree_entry list \<times> task_disk \<Rightarrow> bool" where
  "wt_kept c open' s \<longleftrightarrow> collided c (fst s) \<or> tracked c open' s"

definition fresh :: "worktree_config \<Rightarrow> string \<Rightarrow> nat \<times> worktree_entry list \<times> task_disk \<Rightarrow> bool" where
  "fresh c worktreeId s \<longleftrightarrow> (case s of (n, l, d) \<Rightarrow> (\<exists>t < n. worktreeId = we_uuid (wc_env c) t)
     \<and> (collided c n \<or> d (record_key c worktreeId) = None))"

lemma collided_later: "collided c n \<Longrightarrow> collided c (Suc n)"
  unfolding collided_def by (meson less_SucI)

lemma kept_steady: "steady (wt_kept c open')"
  using tracked_steady [of c open'] collided_later [of c] by (auto simp: steady_def wt_kept_def)

lemma fresh_steady: "steady (fresh c worktreeId)"
proof -
  have f: "fresh c worktreeId (Suc n, l', d)" if "fresh c worktreeId (n, l, d)" for n l l' d
    using that collided_later [of c n] by (auto simp: fresh_def intro: less_SucI)
  show ?thesis unfolding steady_def by (intro conjI allI impI; rule f)
qed

lemma steady_conj: "steady P \<Longrightarrow> steady Q \<Longrightarrow> steady (\<lambda>s. P s \<and> Q s)"
  unfolding steady_def by blast

lemma fresh_uuid:
  assumes "wt_kept c None (n, l, d)"
  shows "fresh c (we_uuid (wc_env c) n) (Suc n, l, d)"
proof (cases "collided c (Suc n)")
  case False
  have "d (record_key c (we_uuid (wc_env c) n)) = None"
  proof (rule ccontr)
    assume "d (record_key c (we_uuid (wc_env c) n)) \<noteq> None"
    then obtain f where f: "d (record_key c (we_uuid (wc_env c) n)) = Some f" by blast
    moreover have "registry_ok c n d" using assms False collided_later by (auto simp: wt_kept_def tracked_def)
    then have "\<exists>r t. f = record_file r \<and> record_key c (we_uuid (wc_env c) n) = record_key c (mr_worktreeId r)
        \<and> t < n \<and> mr_worktreeId r = we_uuid (wc_env c) t" using f unfolding registry_ok_def using record_no_temp by metis
    then obtain r :: managed_record and t where "record_key c (we_uuid (wc_env c) n) = record_key c (mr_worktreeId r)" "t < n"
      "mr_worktreeId r = we_uuid (wc_env c) t" by blast
    then have "we_uuid (wc_env c) t = we_uuid (wc_env c) n" by (simp add: record_key_def)
    with \<open>t < n\<close> False show False unfolding collided_def by blast
  qed
  then show ?thesis by (auto simp: fresh_def)
qed (auto simp: fresh_def)

text \<open>What happens to temporary files concerns nobody.\<close>

definition temp_free :: "worktree_config \<Rightarrow> (nat \<times> worktree_entry list \<times> task_disk \<Rightarrow> bool) \<Rightarrow> bool" where
  "temp_free c P \<longleftrightarrow> (\<forall>n l d p f. P (n, l, d) \<longrightarrow> temp_key c p \<longrightarrow> P (n, l, d(p := f)))"

lemma tracked_temp: "temp_free c (tracked c open')"
  unfolding temp_free_def
proof (intro allI impI)
  fix n l d p f assume t: "tracked c open' (n, l, d)" and p: "temp_key c p"
  have "registry_ok c n (d(p := f))" using t p by (auto simp: tracked_def registry_ok_def)
  moreover have "registered c branch path (d(p := f))" if "registered c branch path d" for branch path
    using that record_key_temp [OF p] by (auto simp: registered_def)
  ultimately show "tracked c open' (n, l, d(p := f))" using t by (auto simp: tracked_def)
qed

lemma creation_temp: "temp_free c (\<lambda>s. wt_kept c open' s \<and> fresh c worktreeId s)"
  using tracked_temp [of c open'] record_key_temp [of c] by (auto simp: temp_free_def wt_kept_def fresh_def)

lemma kept_temp: "temp_free c (wt_kept c open')"
  using tracked_temp [of c open'] by (auto simp: temp_free_def wt_kept_def)

lemma put_temp: "temp_free c P \<Longrightarrow> temp_key c temp \<Longrightarrow> (\<And>s. P s \<Longrightarrow> E s)
    \<Longrightarrow> wtriple P (\<lambda>w. (Inr (), w\<lparr>ww_disk := (ww_disk w)(temp := f w)\<rparr>)) (\<lambda>_ s. P s) E"
  by (intro wtripleI) (auto simp: ww_state_def temp_free_def)

lemma unlink_temp_record:
  assumes "steady P" "temp_free c P" "temp_key c temp"
  shows "wkeeps P (wt_unlink c temp)"
  unfolding wt_unlink_def by (rule triple_and_then [OF wkeeps_ask [OF assms(1)] put_temp [OF assms(2,3)]])

lemma open_temp_triple:
  assumes "steady P" "temp_free c P" "temp_key c temp"
  shows "wkeeps P (open_temp c temp)"
  unfolding open_temp_def
proof (rule triple_and_then [OF wkeeps_ask [OF assms(1)]])
  show "wkeeps P (\<lambda>w. if ww_disk w temp \<noteq> None then (Inl WtSystem, w)
       else (Inr (), w\<lparr>ww_disk := (ww_disk w)(temp \<mapsto> TaskBytes 0 None)\<rparr>))"
    using assms(2,3) by (intro wtripleI) (auto simp: ww_state_def temp_free_def split: if_splits)
qed

abbreviation creating :: "worktree_config \<Rightarrow> managed_record \<Rightarrow> nat \<times> worktree_entry list \<times> task_disk \<Rightarrow> bool" where
  "creating c r s \<equiv> wt_kept c (Some (mr_branch r, mr_path r)) s \<and> fresh c (mr_worktreeId r) s"

lemma creating_steady: "steady (creating c r)"
  by (rule steady_conj [OF kept_steady fresh_steady])

lemma creating_weaken:
  "wkeeps (creating c r) m \<Longrightarrow> wtriple (creating c r) m (\<lambda>_. creating c r) (wt_kept c (Some (mr_branch r, mr_path r)))"
  by (erule triple_conseq) simp_all

lemma fill_temp_triple:
  assumes "temp_key c temp"
  shows "wtriple (creating c r) (fill_temp c temp r) (\<lambda>_ s. creating c r s \<and> snd (snd s) temp = Some (record_file r))
    (wt_kept c (Some (mr_branch r, mr_path r)))"
  unfolding fill_temp_def
  using creation_temp [of c "Some (mr_branch r, mr_path r)" "mr_worktreeId r"] assms
  by (intro triple_and_then [OF creating_weaken [OF wkeeps_ask [OF creating_steady]]] wtripleI)
    (auto simp: ww_state_def temp_free_def record_file_def)

lemma rename_record_triple:
  assumes "temp_key c temp"
  shows "wtriple (\<lambda>s. creating c r s \<and> snd (snd s) temp = Some (record_file r))
    (rename_record c temp (record_key c (mr_worktreeId r))) (\<lambda>_. wt_kept c None) (wt_kept c (Some (mr_branch r, mr_path r)))"
    (is "wtriple ?R _ _ ?K")
  unfolding rename_record_def
proof (rule triple_and_then [where Q' = "\<lambda>_. ?R"])
  let ?key = "record_key c (mr_worktreeId r)"
  have "steady ?R" by (rule steady_conj [OF creating_steady]) (simp add: steady_def)
  then show "wtriple ?R (wt_ask (\<lambda>t. if we_rename (wc_env c) t then Inr () else Inl WtSystem)) (\<lambda>_. ?R) ?K"
    by (rule triple_conseq [OF wkeeps_ask]) simp_all
  have moved: "wt_kept c None (n, l, d(?key := d temp, temp := None))" if "?R (n, l, d)" for n l d
  proof -
    have "wt_kept c None (n, l, d(?key \<mapsto> record_file r))"
      using that record_closes unfolding wt_kept_def fresh_def prod.case fst_conv by blast
    then have "wt_kept c None (n, l, d(?key \<mapsto> record_file r, temp := None))"
      using kept_temp [of c None] assms unfolding temp_free_def by blast
    then show ?thesis using that by simp
  qed
  show "wtriple ?R (\<lambda>w. (Inr (), w\<lparr>ww_disk := (ww_disk w)(?key := ww_disk w temp, temp := None)\<rparr>))
      (\<lambda>_. wt_kept c None) ?K" for x
    using moved by (intro wtripleI) (auto simp: ww_state_def)
qed

lemma write_record_triple:
  assumes "b = mr_branch r" "p = mr_path r"
  shows "wtriple (\<lambda>s. wt_kept c (Some (b, p)) s \<and> fresh c (mr_worktreeId r) s) (writeRecord c r)
    (\<lambda>_. wt_kept c None) (wt_kept c (Some (b, p)))"
proof -
  let ?key = "record_key c (mr_worktreeId r)"
  have undo: "wtriple (wt_kept c (Some (mr_branch r, mr_path r))) (and_then (wt_unlink c temp) (\<lambda>_. raise e))
      (\<lambda>_. wt_kept c None) (wt_kept c (Some (mr_branch r, mr_path r)))" if "temp_key c temp" for temp e
    by (rule triple_and_then [OF unlink_temp_record [OF kept_steady kept_temp that]]) (rule triple_raise)
  show ?thesis unfolding writeRecord_def assms
  proof (rule triple_and_then [OF creating_weaken [OF wkeeps_ask [OF creating_steady]]],
      rule triple_and_then [OF wtriple_lift [where Q = "\<lambda>destination s. destination = ?key \<and> creating c r s"]], simp, goal_cases)
    case (1 s x)
    then show ?case by (auto simp: registryPath_def record_key_def split: if_splits)
  next
    case (2 destination)
    show ?case unfolding Let_def
      by (rule triple_pure, rule triple_and_then [OF creating_weaken [OF wkeeps_ask [OF creating_steady]]],
          rule triple_and_then [OF creating_weaken [OF open_temp_triple [OF creating_steady creation_temp temp_key_record]]],
          rule triple_and_then [OF fill_temp_triple [OF temp_key_record]], simp only:,
          rule triple_catching [OF rename_record_triple [OF temp_key_record] undo [OF temp_key_record]])
  qed
qed

lemma undo_triple:
  assumes "p = mr_path r"
  shows "wtriple (wt_kept c (Some (b, p)))
    (and_then (wt_git c (mr_repositoryRoot r) [''worktree'', ''remove'', mr_path r] True) (\<lambda>rollback.
         if wo_exitCode rollback \<noteq> 0 then raise WtRecovery
         else
           and_then (wt_git c (mr_repositoryRoot r) [''branch'', ''-D'', mr_branch r] True) (\<lambda>_. raise e)))
    (\<lambda>_. wt_kept c None) (wt_kept c None)"
proof (rule triple_and_then [OF wtriple_git [where Q = "\<lambda>_. wt_kept c None"]], goal_cases)
  case (1 n l d e')
  then show ?case using removal_closes [of c b p n l d "mr_repositoryRoot r" True "Inl e'"] collided_later assms
    by (auto simp: wt_kept_def)
next
  case (2 n l d x)
  then show ?case using removal_closes [of c b p n l d "mr_repositoryRoot r" True "Inr x"] collided_later assms
    by (auto simp: wt_kept_def)
next
  case (3 x)
  show ?case by (intro wkeeps kept_steady) simp
qed

lemma write_or_undo_triple:
  assumes "b = mr_branch r" "p = mr_path r"
  shows "wtriple (\<lambda>s. wt_kept c (Some (b, p)) s \<and> fresh c (mr_worktreeId r) s) (write_or_undo c r)
    (\<lambda>_. wt_kept c None) (wt_kept c None)"
  unfolding write_or_undo_def
proof (rule triple_catching [OF write_record_triple [OF assms]])
  fix e
  show "wtriple (wt_kept c (Some (b, p)))
    (and_then (wt_git c (mr_repositoryRoot r) [''worktree'', ''remove'', mr_path r] True) (\<lambda>rollback.
         if wo_exitCode rollback \<noteq> 0 then raise WtRecovery
         else
           and_then (wt_git c (mr_repositoryRoot r) [''branch'', ''-D'', mr_branch r] True) (\<lambda>_. raise e)))
    (\<lambda>_. wt_kept c None) (wt_kept c None)" by (rule undo_triple [OF assms(2)])
qed

text \<open>Adding a worktree opens a creation, unless it fails.\<close>

lemma add_triple:
  assumes st: "steady F"
    and F: "\<And>n l d args wr r. F (n, l, d) \<Longrightarrow> F (Suc n, l @ [WtSpawned root (git_command args) wr r], d)"
  shows "wtriple (\<lambda>s. wt_kept c None s \<and> F s)
    (wt_git c root [''worktree'', ''add'', ''-b'', branch, path, ''HEAD''] True)
    (\<lambda>out s. F s \<and> (if wo_exitCode out \<noteq> 0 then wt_kept c None s else wt_kept c (Some (branch, path)) s)) (wt_kept c None)"
proof -
  have closed: "wt_kept c None (Suc n, l @ [WtSpawned root (git_command [''worktree'', ''add'', ''-b'', branch, path, ''HEAD'']) True r], d)"
    if "wt_kept c None (n, l, d)" "\<And>out. r = Inr out \<Longrightarrow> wo_exitCode out \<noteq> 0" for n l d r
    using that registry_later collided_later removal_tried_append
    by (auto simp: wt_kept_def tracked_def added_snoc) blast+
  have opened: "wt_kept c (Some (branch, path))
      (Suc n, l @ [WtSpawned root (git_command [''worktree'', ''add'', ''-b'', branch, path, ''HEAD'']) True r], d)"
    if "wt_kept c None (n, l, d)" for n l d r
    using that registry_later collided_later removal_tried_append
    by (auto simp: wt_kept_def tracked_def added_snoc) blast+
  show ?thesis
  proof (rule wtriple_git, goal_cases)
    case (1 n l d e)
    then show ?case using closed by blast
  next
    case (2 n l d x)
    then show ?case using closed [of n l d "Inr x"] opened F by auto
  qed
qed

lemma fresh_step: "fresh c worktreeId (n, l, d) \<Longrightarrow> fresh c worktreeId (Suc n, l', d)"
  using collided_later [of c n] by (auto simp: fresh_def intro: less_SucI)

text \<open>The clock cannot fail, so a creation stays open until the record is written or undone.\<close>

lemma wtriple_clock:
  assumes "\<And>n l d x. P (n, l, d) \<Longrightarrow> Q x (Suc n, l, d)"
  shows "wtriple P (wt_ask (\<lambda>t. Inr (f t))) Q E"
  using assms by (intro wtripleI) (auto simp: wt_ask_def ww_state_def)

lemma head_keeps: "wkeeps (wt_kept c None) (and_then (wt_head c p) (\<lambda>head. ret (v head)))"
  by (intro wkeeps inspecting_keeps kept_steady)

lemma register_triple:
  assumes "path = path_string (wc_managedRoot c @ [ri_fingerprint repo, worktreeId])"
  shows "wtriple (\<lambda>s. wt_kept c (Some (branch, path)) s \<and> fresh c worktreeId s)
    (and_then (wt_ask (\<lambda>t. Inr (we_iso (wc_env c) t))) (\<lambda>createdAt.
       (let r = new_record c repo worktreeId branch createdAt
        in and_then (write_or_undo c r) (\<lambda>_. and_then (wt_head c (mr_path r)) (\<lambda>head. ret (v r head))))))
    (\<lambda>_. wt_kept c None) (wt_kept c None)"
proof (rule triple_and_then [OF wtriple_clock [where
        Q = "\<lambda>createdAt s. wt_kept c (Some (branch, path)) s \<and> fresh c worktreeId s"]], goal_cases)
  case (1 n l d x)
  then show ?case using steadyD(1) [OF kept_steady] fresh_step by blast
next
  case (2 createdAt)
  let ?r = "new_record c repo worktreeId branch createdAt"
  have r: "mr_branch ?r = branch" "mr_path ?r = path" "mr_worktreeId ?r = worktreeId"
    by (simp_all add: new_record_def assms)
  show ?case unfolding Let_def
    by (rule triple_and_then [OF write_or_undo_triple [where r = ?r and b = branch and p = path, unfolded r] head_keeps]) simp_all
qed

lemma create_keeps: "wkeeps (wt_kept c None) (wt_create c cwdInput branchInput)"
proof -
  let ?K = "wt_kept c None"
  note st = kept_steady [of c None]
  have add: "wtriple (\<lambda>s. ?K s \<and> fresh c worktreeId s)
      (and_then (wt_git c root [''worktree'', ''add'', ''-b'', branch,
            path_string (wc_managedRoot c @ [ri_fingerprint repo, worktreeId]), ''HEAD''] True) (\<lambda>added.
          if wo_exitCode added \<noteq> 0 then raise WtConflict
          else
            and_then (wt_ask (\<lambda>t. Inr (we_iso (wc_env c) t))) (\<lambda>createdAt.
              (let r = new_record c repo worktreeId branch createdAt
               in and_then (write_or_undo c r) (\<lambda>_. and_then (wt_head c (mr_path r)) (\<lambda>head. ret (v r head)))))))
      (\<lambda>_. ?K) ?K"
    for root branch repo worktreeId and v :: "managed_record \<Rightarrow> string \<Rightarrow> worktree_view"
  proof (rule triple_and_then [OF add_triple [OF fresh_steady fresh_step]], assumption, goal_cases)
    case (1 out)
    show ?case
    proof (cases "wo_exitCode out = 0")
      case True
      show ?thesis by (simp add: True) (rule triple_conseq [OF register_triple [OF refl]]; simp)
    next
      case False
      then show ?thesis by (auto intro: triple_raise)
    qed
  qed
  have mk: "wtriple (\<lambda>s. ?K s \<and> fresh c worktreeId s) (wt_ask f) (\<lambda>_ s. ?K s \<and> fresh c worktreeId s) ?K" for worktreeId
      and f :: "nat \<Rightarrow> worktree_error + unit"
    by (rule wtriple_ask) (use steadyD(1) [OF kept_steady] fresh_step in blast)+
  have uuid: "wtriple ?K (wt_ask (\<lambda>t. Inr (we_uuid (wc_env c) t))) (\<lambda>worktreeId s. ?K s \<and> fresh c worktreeId s) ?K"
    by (intro wtripleI) (auto simp: wt_ask_def ww_state_def intro: fresh_uuid steadyD(1) [OF kept_steady])
  show ?thesis unfolding wt_create_def isDirtyTrackedOnly_def Let_def
    by (intro add [unfolded Let_def] triple_and_then [OF uuid] triple_and_then [OF mk] wkeeps inspecting_keeps
        repository_keeps st) simp
qed

definition loaded :: "worktree_config \<Rightarrow> managed_record \<Rightarrow> nat \<times> worktree_entry list \<times> task_disk \<Rightarrow> bool" where
  "loaded c r s \<longleftrightarrow> (case s of (n, l, d) \<Rightarrow> collided c n \<or> d (record_key c (mr_worktreeId r)) = Some (record_file r))"

lemma loaded_step: "loaded c r (n, l, d) \<Longrightarrow> loaded c r (Suc n, l', d)"
  using collided_later [of c n] by (auto simp: loaded_def)

lemma loaded_steady: "steady (\<lambda>s. wt_kept c None s \<and> loaded c r s)"
  using steadyD [OF kept_steady [of c None]] loaded_step [of c r] unfolding steady_def by blast

lemma load_record_triple:
  "wtriple (wt_kept c None) (loadRecord c worktreeId) (\<lambda>r s. wt_kept c None s \<and> loaded c r s) (wt_kept c None)"
proof (rule wtripleI)
  fix w res w' assume k: "wt_kept c None (ww_state w)" and e: "loadRecord c worktreeId w = (res, w')"
  have "loaded c r (ww_state w)" if "res = Inr r" for r
  proof (cases "collided c (ww_time w)")
    case False
    from e that obtain n v where f: "ww_disk w (record_key c worktreeId) = Some (TaskBytes n (Some v))"
      "jget v ''worktreeId'' = JString worktreeId" "r = record_of_json v"
      by (auto simp: loadRecord_def registryPath_def record_key_def split: if_splits option.splits task_file.splits)
    from k False have "registry_ok c (ww_time w) (ww_disk w)" by (auto simp: wt_kept_def tracked_def ww_state_def)
    with f(1) have "\<exists>r0 :: managed_record. TaskBytes n (Some v) = record_file r0 \<and> record_key c worktreeId = record_key c (mr_worktreeId r0)"
      unfolding registry_ok_def using record_no_temp by metis
    then obtain r0 where "TaskBytes n (Some v) = record_file r0" "record_key c worktreeId = record_key c (mr_worktreeId r0)" by blast
    with f show ?thesis by (simp add: loaded_def ww_state_def record_file_def)
  qed (simp add: loaded_def ww_state_def)
  with e k show "(\<forall>e. res = Inl e \<longrightarrow> wt_kept c None (ww_state w'))
      \<and> (\<forall>r. res = Inr r \<longrightarrow> wt_kept c None (ww_state w') \<and> loaded c r (ww_state w'))"
    by (auto simp: loadRecord_def)
qed

lemma status_keeps: "wkeeps (wt_kept c None) (wt_status c worktreeId)"
  unfolding wt_status_def by (intro wkeeps load_keeps verify_keeps kept_steady) (auto intro: wkeeps split: prod.splits)

lemma unlink_triple:
  "wtriple (\<lambda>s. wt_kept c None s \<and> loaded c r s \<and> removal_tried (mr_path r) (fst (snd s)))
     (and_then (wt_lift (registryPath c (mr_worktreeId r))) (\<lambda>path. and_then (wt_unlink c path) (\<lambda>_. ret v)))
     (\<lambda>_. wt_kept c None) (wt_kept c None)"
proof (rule triple_and_then [OF wtriple_lift [where Q = "\<lambda>path s. path = record_key c (mr_worktreeId r)
      \<and> wt_kept c None s \<and> loaded c r s \<and> removal_tried (mr_path r) (fst (snd s))"]], simp, goal_cases)
  case (1 s x)
  then show ?case by (auto simp: registryPath_def record_key_def split: if_splits)
next
  case (2 path)
  let ?P = "\<lambda>s. wt_kept c None s \<and> loaded c r s \<and> removal_tried (mr_path r) (fst (snd s))"
  show ?case
  proof (rule triple_pure)
    assume p: "path = record_key c (mr_worktreeId r)"
    have a: "wtriple ?P (wt_ask f) (\<lambda>_. ?P) (wt_kept c None)" for f :: "nat \<Rightarrow> worktree_error + unit"
      by (rule wtriple_ask) (use steadyD(1) [OF kept_steady] loaded_step in \<open>force\<close>)+
    have "wt_kept c None (n, l, d(record_key c (mr_worktreeId r) := None))" if "?P (n, l, d)" for n l d
      using that unlink_tracked [of c n l d r] by (auto simp: wt_kept_def loaded_def)
    then have u: "wtriple ?P (\<lambda>w. (Inr (), w\<lparr>ww_disk := (ww_disk w)(record_key c (mr_worktreeId r) := None)\<rparr>))
        (\<lambda>_. wt_kept c None) (wt_kept c None)" by (intro wtripleI) (auto simp: ww_state_def)
    show "wtriple ?P (and_then (wt_unlink c path) (\<lambda>_. ret v)) (\<lambda>_. wt_kept c None) (wt_kept c None)"
      unfolding p wt_unlink_def
      by (rule triple_and_then [OF triple_and_then [OF a u] triple_ret])
  qed
qed

lemma remove_keeps: "wkeeps (wt_kept c None) (wt_remove c worktreeId)"
  unfolding wt_remove_def
proof (rule triple_and_then [OF load_record_triple], goal_cases)
  case (1 r)
  let ?L = "\<lambda>s. wt_kept c None s \<and> loaded c r s"
  have git: "wtriple ?L (wt_git c (mr_repositoryRoot r) [''worktree'', ''remove'', mr_path r] True)
      (\<lambda>_ s. ?L s \<and> removal_tried (mr_path r) (fst (snd s))) (wt_kept c None)"
  proof (rule wtriple_git, goal_cases)
    case (1 n l d e)
    then show ?case using steadyD(2) [OF loaded_steady [of c r], of n l d "[''worktree'', ''remove'', mr_path r]"] by simp
  next
    case (2 n l d x)
    then show ?case using steadyD(2) [OF loaded_steady [of c r], of n l d "[''worktree'', ''remove'', mr_path r]"]
      by (auto simp: removal_tried_def)
  qed
  have "wtriple ?L (if dirty then raise WtDirty
       else
         and_then (wt_git c (mr_repositoryRoot r) [''worktree'', ''remove'', mr_path r] True) (\<lambda>removed.
           if wo_exitCode removed \<noteq> 0 then raise WtRecovery
           else
             and_then (wt_lift (registryPath c (mr_worktreeId r))) (\<lambda>path.
             and_then (wt_unlink c path) (\<lambda>_. ret (view_of_record WtRemove r head False True)))))
      (\<lambda>_. wt_kept c None) (wt_kept c None)" for head dirty
    by (intro triple_if triple_raise triple_and_then [OF git] triple_conseq [OF unlink_triple]) auto
  then show ?case
    by (intro triple_and_then [OF triple_conseq [OF verify_keeps [OF loaded_steady], where Q' = "\<lambda>_. ?L"]])
      (auto split: prod.splits)
qed

datatype worktree_request =
    RequestCreate string string
  | RequestStatus string
  | RequestRemove string

fun wt_operate :: "worktree_config \<Rightarrow> worktree_request \<Rightarrow> worktree_view worktree_m" where
  "wt_operate c (RequestCreate cwd branch) = wt_create c cwd branch"
| "wt_operate c (RequestStatus worktreeId) = wt_status c worktreeId"
| "wt_operate c (RequestRemove worktreeId) = wt_remove c worktreeId"

fun wt_perform :: "worktree_config \<Rightarrow> worktree_request list \<Rightarrow> worktree_world \<Rightarrow> worktree_world" where
  "wt_perform c [] w = w"
| "wt_perform c (q # qs) w = wt_perform c qs (snd (wt_operate c q w))"

definition start_worktrees :: worktree_world where
  "start_worktrees = \<lparr>ww_time = 0, ww_log = [], ww_disk = Map.empty\<rparr>"

lemma operate_worktree_keeps: "wkeeps (wt_kept c None) (wt_operate c q)"
  by (cases q) (simp_all add: create_keeps status_keeps remove_keeps)

lemma perform_kept: "wt_kept c None (ww_state w) \<Longrightarrow> wt_kept c None (ww_state (wt_perform c qs w))"
proof (induction c qs w rule: wt_perform.induct)
  case (2 c q qs w)
  have "wt_kept c None (ww_state (snd (wt_operate c q w)))"
    using wtripleD [OF operate_worktree_keeps 2(2) surjective_pairing] by (cases "fst (wt_operate c q w)") auto
  with 2(1) show ?case by simp
qed simp

text \<open>
  C8: No managed worktree is forgotten. After any requests, whatever Git, the disk and the path checks
  answer: a worktree that Git has added is in the registry, under its identifier and with its path and
  branch, or its removal was tried. So a failing write of the record never leaves a worktree that the service
  does not know, as long as the random identifiers drawn differ.
\<close>

theorem worktrees_tracked:
  assumes "inj_on (we_uuid (wc_env c)) {..<ww_time (wt_perform c requests start_worktrees)}"
    "WtSpawned dir (git_command [''worktree'', ''add'', ''-b'', branch, path, ''HEAD'']) wr (Inr out)
       \<in> set (ww_log (wt_perform c requests start_worktrees))" "wo_exitCode out = 0"
  shows "(\<exists>dir wr r. WtSpawned dir (git_command [''worktree'', ''remove'', path]) wr r
        \<in> set (ww_log (wt_perform c requests start_worktrees)))
    \<or> (\<exists>r. ww_disk (wt_perform c requests start_worktrees) (wc_registryDirectory c @ [mr_worktreeId r @ ''.json''])
          = Some (TaskBytes (serialized_size (record_json r)) (Some (record_json r)))
        \<and> mr_path r = path \<and> mr_branch r = branch)"
proof -
  let ?w = "wt_perform c requests start_worktrees"
  have "wt_kept c None (ww_state start_worktrees)"
    by (simp add: wt_kept_def tracked_def start_worktrees_def ww_state_def registry_ok_def added_def)
  from perform_kept [OF this] have "wt_kept c None (ww_state ?w)" .
  moreover have "\<not> collided c (ww_time ?w)"
    using assms(1) by (fastforce simp: collided_def inj_on_def)
  ultimately have "tracked c None (ww_state ?w)" by (simp add: wt_kept_def ww_state_def)
  moreover have "added branch path (ww_log ?w)" unfolding added_def using assms(2,3) by blast
  ultimately have "removal_tried path (ww_log ?w) \<or> registered c branch path (ww_disk ?w)"
    by (simp add: tracked_def ww_state_def)
  then show ?thesis unfolding removal_tried_def registered_def record_key_def record_file_def .
qed

section \<open>Only clean and owned worktrees are removed\<close>

definition wt_said :: "string \<Rightarrow> string list \<Rightarrow> worktree_out \<Rightarrow> worktree_entry list \<Rightarrow> bool" where
  "wt_said dir args out l \<longleftrightarrow> WtSpawned dir (git_command args) False (Inr out) \<in> set l"

text \<open>Everything a child that writes can be in a removal, and what was said before it.\<close>

definition removes_checked :: "worktree_config \<Rightarrow> managed_record \<Rightarrow> worktree_entry list \<Rightarrow> bool" where
  "removes_checked c r l \<longleftrightarrow> validateOwnedPath c r = Inr ()
     \<and> (\<exists>out. wt_said (mr_path r) [''branch'', ''--show-current''] out l \<and> js_trim (wo_stdout out) = mr_branch r)
     \<and> (\<exists>out. wt_said (mr_path r) [''status'', ''--porcelain=v1'', ''--untracked-files=normal''] out l
          \<and> wo_exitCode out = 0 \<and> wo_stdout out = [])"

definition reads_only :: "worktree_entry list \<Rightarrow> bool" where
  "reads_only l \<longleftrightarrow> (\<forall>dir args wr r. WtSpawned dir args wr r \<in> set l \<longrightarrow> \<not> wr)"

definition grows :: "(nat \<times> worktree_entry list \<times> task_disk \<Rightarrow> bool) \<Rightarrow> bool" where
  "grows F \<longleftrightarrow> (\<forall>n l d. F (n, l, d) \<longrightarrow> F (Suc n, l, d) \<and> (\<forall>e. F (Suc n, l @ [e], d)))"

abbreviation wt_reading :: "(nat \<times> worktree_entry list \<times> task_disk \<Rightarrow> bool) \<Rightarrow> nat \<times> worktree_entry list \<times> task_disk \<Rightarrow> bool" where
  "wt_reading F \<equiv> \<lambda>s. reads_only (fst (snd s)) \<and> F s"

abbreviation rtriple where
  "rtriple F m Q \<equiv> wtriple (wt_reading F) m (\<lambda>x. wt_reading (Q x)) (wt_reading (\<lambda>_. True))"

lemma reads_only_snoc [simp]: "reads_only (l @ [WtSpawned dir args wr r]) \<longleftrightarrow> reads_only l \<and> \<not> wr"
  by (auto simp: reads_only_def)

lemma rtriple_ask: "grows F \<Longrightarrow> rtriple F (wt_ask f) (\<lambda>_. F)"
  by (rule wtriple_ask) (auto simp: grows_def)

lemma rtriple_git:
  "grows F \<Longrightarrow> rtriple F (wt_git c dir args False) (\<lambda>out s. F s \<and> wt_said dir args out (fst (snd s)))"
  by (rule wtriple_git) (auto simp: grows_def wt_said_def)

lemma rtriple_bind: "rtriple F m Q' \<Longrightarrow> (\<And>x. rtriple (Q' x) (f x) Q) \<Longrightarrow> rtriple F (and_then m f) Q"
  by (rule triple_and_then)

lemma rtriple_raise: "rtriple F (raise e) Q"
  by (rule triple_raise) simp

lemma rtriple_ret: "(\<And>s. F s \<Longrightarrow> Q x s) \<Longrightarrow> rtriple F (ret x) Q"
  by (rule triple_ret) simp

lemma grows_said: "grows F \<Longrightarrow> grows (\<lambda>s. F s \<and> wt_said dir args out (fst (snd s)))"
  by (auto simp: grows_def wt_said_def)

lemma rtriple_drop: "rtriple F m Q \<Longrightarrow> (\<And>s. F' s \<Longrightarrow> F s) \<Longrightarrow> (\<And>x s. Q x s \<Longrightarrow> Q' x s) \<Longrightarrow> rtriple F' m Q'"
  by (erule triple_conseq) blast+

lemma branch_reads:
  assumes "grows F"
  shows "rtriple F (currentBranch c dir) (\<lambda>b s. F s \<and> (\<exists>out. wt_said dir [''branch'', ''--show-current''] out (fst (snd s))
    \<and> js_trim (wo_stdout out) = b))"
  unfolding currentBranch_def
proof (rule rtriple_bind [OF rtriple_git [OF assms]], intro triple_if rtriple_raise, rule wtriple_lift, goal_cases)
  case (2 out s x)
  then show ?case by (auto simp: wt_branch_def validateBranchName_def split: sum.splits if_splits)
qed simp

lemma dirty_reads:
  assumes "grows F"
  shows "rtriple F (isDirty c dir) (\<lambda>dirty s. F s \<and> (\<not> dirty \<longrightarrow>
    (\<exists>out. wt_said dir [''status'', ''--porcelain=v1'', ''--untracked-files=normal''] out (fst (snd s))
      \<and> wo_exitCode out = 0 \<and> wo_stdout out = [])))"
  unfolding isDirty_def wt_dirty_def
  by (rule rtriple_bind [OF rtriple_git [OF assms]], intro triple_if rtriple_raise rtriple_ret) auto

lemma head_reads: "grows F \<Longrightarrow> rtriple F (wt_head c dir) (\<lambda>_. F)"
  unfolding wt_head_def by (rule rtriple_bind [OF rtriple_git], assumption, intro triple_if rtriple_raise rtriple_ret) simp

lemma verify_reads:
  "rtriple (\<lambda>_. True) (verifyRecord c r) (\<lambda>(head, dirty) s. \<not> dirty \<longrightarrow> removes_checked c r (fst (snd s)))"
proof -
  let ?V = "\<lambda>s :: nat \<times> worktree_entry list \<times> task_disk. validateOwnedPath c r = Inr ()"
  let ?B = "\<lambda>s. ?V s \<and> (\<exists>out. wt_said (mr_path r) [''branch'', ''--show-current''] out (fst (snd s))
    \<and> js_trim (wo_stdout out) = mr_branch r)"
  have gV: "grows ?V" and gB: "grows ?B" by (auto simp: grows_def wt_said_def)
  have last: "rtriple ?B (and_then (wt_head c (mr_path r)) (\<lambda>head. and_then (isDirty c (mr_path r)) (\<lambda>dirty. ret (head, dirty))))
      (\<lambda>(head, dirty) s. \<not> dirty \<longrightarrow> removes_checked c r (fst (snd s)))"
    by (rule rtriple_bind [OF head_reads [OF gB] rtriple_bind [OF dirty_reads [OF gB] rtriple_ret]])
      (auto simp: removes_checked_def)
  have branch: "rtriple ?V (and_then (currentBranch c (mr_path r)) (\<lambda>branch.
        if branch \<noteq> mr_branch r then raise WtRecovery
        else and_then (wt_head c (mr_path r)) (\<lambda>head. and_then (isDirty c (mr_path r)) (\<lambda>dirty. ret (head, dirty)))))
      (\<lambda>(head, dirty) s. \<not> dirty \<longrightarrow> removes_checked c r (fst (snd s)))"
    by (rule rtriple_bind [OF branch_reads [OF gV]], intro triple_if rtriple_raise rtriple_drop [OF last]) auto
  show ?thesis
    unfolding verifyRecord_def wt_resolve_def wt_exists_def wt_realpath_def
  proof (rule rtriple_bind [where Q' = "\<lambda>_. ?V"], goal_cases)
    case 1
    show ?case by (rule wtriple_lift) auto
  next
    case (2 u)
    show ?case
      by (intro triple_if rtriple_raise rtriple_bind [OF rtriple_ask [OF gV]] branch
          rtriple_bind [OF rtriple_drop [OF rtriple_git [OF gV], where Q' = "\<lambda>_. ?V"]]) simp_all
  qed
qed

lemma load_reads:
  "wtriple (\<lambda>(n, l, d). l = [] \<and> d = disk) (loadRecord c worktreeId)
     (\<lambda>r (n, l, d). l = [] \<and> (\<exists>n v. disk (record_key c worktreeId) = Some (TaskBytes n (Some v)) \<and> recordShape v
        \<and> r = record_of_json v \<and> mr_worktreeId r = worktreeId)) (\<lambda>(n, l, d). l = [])"
  by (rule wtripleI)
    (auto simp: loadRecord_def registryPath_def record_key_def ww_state_def record_of_json_def
      split: if_splits option.splits task_file.splits)

lemma path_resolve_plain:
  assumes "CHR ''/'' \<notin> set s" "s \<noteq> []" "s \<noteq> ''.''" "s \<noteq> ''..''"
  shows "path_resolve base s = base @ [s]"
proof -
  have "\<not> isAbsolute s" using assms(1) by (cases s) (auto simp: isAbsolute_def)
  then show ?thesis using assms by (simp add: path_resolve_def split_char_none push_segment_def)
qed

lemma hex_plain: "list_all (\<lambda>ch. ch \<in> set ''0123456789abcdef'') s \<Longrightarrow> CHR ''/'' \<notin> set s"
  by (auto simp: list_all_iff)

lemma uuid_plain: "uuid_v4 s \<Longrightarrow> CHR ''/'' \<notin> set s"
proof
  assume u: "uuid_v4 s" and "CHR ''/'' \<in> set s"
  from this obtain i where i: "i < 36" "s ! i = CHR ''/''" by (auto simp: uuid_v4_def in_set_conv_nth)
  moreover from i(1) have "i \<in> set [0..<36]" by simp
  ultimately have "if i \<in> {8, 13, 18, 23} then s ! i = CHR ''-'' else if i = 14 then s ! i = CHR ''4''
      else if i = 19 then s ! i \<in> set ''89abAB'' else hex_digit (s ! i)" using u unfolding uuid_v4_def by blast
  with i(2) show False by (auto simp: hex_digit_def split: if_splits)
qed

lemma owned_path_shape:
  assumes "recordShape v"
  shows "ownedPath c (record_of_json v)
    = wc_managedRoot c @ [mr_repositoryFingerprint (record_of_json v), mr_worktreeId (record_of_json v)]"
proof -
  have s: "sha256_text (mr_repositoryFingerprint (record_of_json v))" "uuid_v4 (mr_worktreeId (record_of_json v))"
    using assms by (simp_all add: recordShape_def record_of_json_def)
  have "path_resolve b (mr_repositoryFingerprint (record_of_json v)) = b @ [mr_repositoryFingerprint (record_of_json v)]"
    "path_resolve b (mr_worktreeId (record_of_json v)) = b @ [mr_worktreeId (record_of_json v)]" for b
    using s hex_plain uuid_plain by (intro path_resolve_plain; fastforce simp: sha256_text_def uuid_v4_def)+
  then show ?thesis by (simp add: ownedPath_def)
qed

definition removal_of :: "worktree_config \<Rightarrow> string \<Rightarrow> task_disk \<Rightarrow> managed_record \<Rightarrow> bool" where
  "removal_of c worktreeId disk r \<longleftrightarrow> (\<exists>n v. disk (record_key c worktreeId) = Some (TaskBytes n (Some v))
     \<and> recordShape v \<and> r = record_of_json v \<and> mr_worktreeId r = worktreeId)"

definition removes_only :: "worktree_config \<Rightarrow> string \<Rightarrow> task_disk \<Rightarrow> worktree_entry list \<Rightarrow> bool" where
  "removes_only c worktreeId disk l \<longleftrightarrow> (\<forall>dir args res. WtSpawned dir args True res \<in> set l \<longrightarrow>
     (\<exists>r. removal_of c worktreeId disk r \<and> args = git_command [''worktree'', ''remove'', mr_path r] \<and> dir = mr_repositoryRoot r
        \<and> removes_checked c r l))"

lemma reads_remove: "reads_only l \<Longrightarrow> removes_only c worktreeId disk l"
  unfolding reads_only_def removes_only_def by blast

lemma removes_checked_append: "removes_checked c r l \<Longrightarrow> removes_checked c r (l @ es)"
  unfolding removes_checked_def wt_said_def set_append by blast

lemma removes_only_snoc:
  assumes "reads_only l" "removal_of c worktreeId disk r" "removes_checked c r l"
  shows "removes_only c worktreeId disk
    (l @ [WtSpawned (mr_repositoryRoot r) (git_command [''worktree'', ''remove'', mr_path r]) True res])"
proof -
  have "dir = mr_repositoryRoot r \<and> args = git_command [''worktree'', ''remove'', mr_path r]"
    if "WtSpawned dir args True res' \<in> set (l @ [WtSpawned (mr_repositoryRoot r)
        (git_command [''worktree'', ''remove'', mr_path r]) True res])" for dir args res'
    using that assms(1) by (auto simp: reads_only_def)
  then show ?thesis using assms(2) removes_checked_append [OF assms(3)] unfolding removes_only_def by blast
qed

lemma remove_log_triple:
  "wtriple (\<lambda>(n, l, d). l = [] \<and> d = disk) (wt_remove c worktreeId)
     (\<lambda>_ s. removes_only c worktreeId disk (fst (snd s))) (\<lambda>s. removes_only c worktreeId disk (fst (snd s)))"
  unfolding wt_remove_def
proof (rule triple_and_then [OF triple_conseq [OF load_reads, where
        Q' = "\<lambda>r s. removal_of c worktreeId disk r \<and> wt_reading (\<lambda>_. True) s" and P' = "\<lambda>(n, l, d). l = [] \<and> d = disk"]], goal_cases)
  case (4 r)
  let ?R = "\<lambda>s :: nat \<times> worktree_entry list \<times> task_disk. removes_only c worktreeId disk (fst (snd s))"
  show ?case
  proof (rule triple_pure, rule triple_and_then [OF triple_conseq [OF verify_reads, where
          Q' = "\<lambda>(head, dirty). wt_reading (\<lambda>s. \<not> dirty \<longrightarrow> removes_checked c r (fst (snd s)))"]], goal_cases)
    case (4 x)
    obtain head dirty where x: "x = (head, dirty)" by fastforce
    have git: "wtriple (wt_reading (\<lambda>s. removes_checked c r (fst (snd s))))
        (wt_git c (mr_repositoryRoot r) [''worktree'', ''remove'', mr_path r] True) (\<lambda>_. ?R) ?R"
      by (rule wtriple_git) (simp_all add: removes_only_snoc 4(1))
    have rest: "wtriple ?R (and_then (wt_lift (registryPath c (mr_worktreeId r))) (\<lambda>path.
        and_then (wt_unlink c path) (\<lambda>_. ret (view_of_record WtRemove r head False True)))) (\<lambda>_. ?R) ?R"
    proof -
      have a: "wkeeps ?R (wt_ask f)" for f :: "nat \<Rightarrow> worktree_error + unit" by (rule wtriple_ask) auto
      have u: "wkeeps ?R (\<lambda>w. (Inr (), w\<lparr>ww_disk := (ww_disk w)(p := None)\<rparr>))" for p
        by (intro wtripleI) (auto simp: ww_state_def)
      show ?thesis unfolding wt_unlink_def by (intro wkeeps a u)
    qed
    show ?case unfolding x prod.case
      by (intro triple_if triple_raise triple_and_then [OF triple_conseq [OF git, where Q' = "\<lambda>_. ?R"]])
        (auto intro: reads_remove rest)
  qed (auto intro: reads_remove)
qed (auto intro: reads_remove simp: removal_of_def reads_only_def)

text \<open>
  C9: Removal is checked. The only writing child that \<open>remove\<close> ever starts is the removal of one worktree: the
  one that a well-formed record under the given identifier names. Its path is the service's own directory for
  this repository and identifier, Git had reported the recorded branch in it, and the worktree had
  no change and no untracked file.
\<close>

theorem worktree_removal_checked:
  assumes "wt_remove c worktreeId w = (res, w')" "ww_log w = []" "WtSpawned dir args True r \<in> set (ww_log w')"
  shows "\<exists>n v. ww_disk w (wc_registryDirectory c @ [worktreeId @ ''.json'']) = Some (TaskBytes n (Some v)) \<and> recordShape v
    \<and> jget v ''worktreeId'' = JString worktreeId
    \<and> args = git_command [''worktree'', ''remove'', mr_path (record_of_json v)]
    \<and> path_resolve (wc_processCwd c) (mr_path (record_of_json v))
        = wc_managedRoot c @ [mr_repositoryFingerprint (record_of_json v), worktreeId]
    \<and> (\<exists>out. WtSpawned (mr_path (record_of_json v)) (git_command [''branch'', ''--show-current'']) False (Inr out)
          \<in> set (ww_log w') \<and> js_trim (wo_stdout out) = mr_branch (record_of_json v))
    \<and> (\<exists>out. WtSpawned (mr_path (record_of_json v))
          (git_command [''status'', ''--porcelain=v1'', ''--untracked-files=normal'']) False (Inr out) \<in> set (ww_log w')
          \<and> wo_exitCode out = 0 \<and> wo_stdout out = [])"
proof -
  have "removes_only c worktreeId (ww_disk w) (ww_log w')"
    using wtripleD [OF remove_log_triple [where disk = "ww_disk w"] _ assms(1)] assms(2)
    by (cases res) (auto simp: ww_state_def)
  with assms(3) obtain rc where rc: "removal_of c worktreeId (ww_disk w) rc"
    "args = git_command [''worktree'', ''remove'', mr_path rc]" "removes_checked c rc (ww_log w')"
    unfolding removes_only_def by blast
  from rc(1) obtain n v where v: "ww_disk w (wc_registryDirectory c @ [worktreeId @ ''.json'']) = Some (TaskBytes n (Some v))"
    "recordShape v" "rc = record_of_json v" "mr_worktreeId rc = worktreeId" by (auto simp: removal_of_def record_key_def)
  have "jget v ''worktreeId'' = JString worktreeId"
    using v by (auto simp: recordShape_def record_of_json_def is_JString_iff)
  moreover have "path_resolve (wc_processCwd c) (mr_path rc) = wc_managedRoot c @ [mr_repositoryFingerprint rc, worktreeId]"
    using rc(3) owned_path_shape [OF v(2)] v(3,4) by (auto simp: removes_checked_def validateOwnedPath_def split: if_splits)
  ultimately show ?thesis using v rc(2,3) unfolding removes_checked_def wt_said_def v(3) by blast
qed

section \<open>Examples\<close>

definition demo_wt_uuid :: "nat \<Rightarrow> string" where
  "demo_wt_uuid t = ''00000000-0000-4000-8000-0000000000'' @ [''0123456789abcdef'' ! (t div 16), ''0123456789abcdef'' ! (t mod 16)]"

definition demo_worktrees :: "(nat \<times> string) list \<Rightarrow> worktree_config" where
  "demo_worktrees script = \<lparr>wc_env = \<lparr>we_lstat = (\<lambda>_. demo_lst), we_real = (\<lambda>_. Some), we_exists = (\<lambda>_ _. Present ()),
       we_child = (\<lambda>t. ([GitStdout (map of_char (case map_of script t of None \<Rightarrow> [] | Some out \<Rightarrow> out))],
         GitClose (Some (if t = 7 then 1 else 0)))),
       we_mkdir = (\<lambda>_. True), we_open = (\<lambda>_. True), we_write = (\<lambda>_. True), we_rename = (\<lambda>_. True), we_unlink = (\<lambda>_. True),
       we_uuid = demo_wt_uuid, we_iso = (\<lambda>_. ''t''),
       we_getenv = (\<lambda>_. None), we_decode = map (\<lambda>b. char_of (unat b)),
       we_sha256 = (\<lambda>_. replicate 64 CHR ''0'')\<rparr>,
     wc_roots = [[''w'']], wc_maxCommandOutputBytes = 100, wc_registryDirectory = [''s''], wc_managedRoot = [''m''],
     wc_processCwd = []\<rparr>"

definition demo_create_config :: worktree_config where
  "demo_create_config = demo_worktrees [(1, ''/w''), (4, ''.git''), (17, replicate 40 CHR ''a'')]"

definition demo_worktree_made :: worktree_world where
  "demo_worktree_made = wt_perform demo_create_config [RequestCreate ''.'' ''topic''] start_worktrees"

definition demo_wt_out :: "nat \<Rightarrow> string \<Rightarrow> worktree_out" where
  "demo_wt_out t out = \<lparr>wo_exitCode = (if t = 7 then 1 else 0), wo_stdout = out\<rparr>"

lemma demo_wt_git:
  assumes "out = (case map_of script (ww_time w) of None \<Rightarrow> [] | Some s \<Rightarrow> s)" "length out \<le> 100"
  shows "wt_git (demo_worktrees script) cwd args wr w = (Inr (demo_wt_out (ww_time w) out), w\<lparr>ww_time := Suc (ww_time w),
    ww_log := ww_log w @ [WtSpawned cwd (git_command args) wr (Inr (demo_wt_out (ww_time w) out))]\<rparr>)"
proof -
  have "map (\<lambda>b. char_of (unat b)) (map of_char out :: byte list) = out" by (simp add: comp_def decode_char)
  then have "worktree_child (demo_worktrees script) ([GitStdout (map of_char out)],
      GitClose (Some (if ww_time w = 7 then 1 else 0))) = Inr (demo_wt_out (ww_time w) out)"
    using assms(2) by (simp add: worktree_child_def demo_worktrees_def collect_def Let_def demo_wt_out_def comp_def)
  moreover have "we_child (wc_env (demo_worktrees script)) (ww_time w)
      = ([GitStdout (map of_char out)], GitClose (Some (if ww_time w = 7 then 1 else 0)))"
    using assms(1) by (simp add: demo_worktrees_def)
  ultimately show ?thesis by (simp add: wt_git_def and_then_def wt_ask_def wt_lift_def)
qed

lemma demo_wt_ask:
  "wt_resolve (demo_worktrees script) ''.'' w = (Inr [''w''], w\<lparr>ww_time := Suc (ww_time w)\<rparr>)"
  "wt_resolve (demo_worktrees script) ''/w'' w = (Inr [''w''], w\<lparr>ww_time := Suc (ww_time w)\<rparr>)"
  "wt_realpath (demo_worktrees script) p w = (Inr p, w\<lparr>ww_time := Suc (ww_time w)\<rparr>)"
  "wt_exists (demo_worktrees script) s w = (Inr True, w\<lparr>ww_time := Suc (ww_time w)\<rparr>)"
proof -
  have "policy_resolve demo_lst Some [[''w'']] ''.'' = Inr [''w'']"
    "policy_resolve demo_lst Some [[''w'']] ''/w'' = Inr [''w'']" by code_simp+
  then show "wt_resolve (demo_worktrees script) ''.'' w = (Inr [''w''], w\<lparr>ww_time := Suc (ww_time w)\<rparr>)"
    "wt_resolve (demo_worktrees script) ''/w'' w = (Inr [''w''], w\<lparr>ww_time := Suc (ww_time w)\<rparr>)"
    by (simp_all add: wt_resolve_def wt_ask_def demo_worktrees_def)
qed (simp_all add: wt_realpath_def wt_exists_def wt_ask_def demo_worktrees_def)

lemma demo_wt_env:
  "we_mkdir (wc_env (demo_worktrees script)) t" "we_write (wc_env (demo_worktrees script)) t"
  "we_open (wc_env (demo_worktrees script)) t" "we_rename (wc_env (demo_worktrees script)) t"
  "we_uuid (wc_env (demo_worktrees script)) t = demo_wt_uuid t" "we_iso (wc_env (demo_worktrees script)) t = ''t''"
  "fingerprint (demo_worktrees script) s = replicate 64 CHR ''0''" "wc_managedRoot (demo_worktrees script) = [''m'']"
  "wc_registryDirectory (demo_worktrees script) = [''s'']" "wc_processCwd (demo_worktrees script) = []"
  by (simp_all add: demo_worktrees_def fingerprint_def)

lemma demo_wt_facts:
  "wo_exitCode (demo_wt_out t s) = (if t = 7 then 1 else 0)" "wo_stdout (demo_wt_out t s) = s"
  "wt_branch ''topic'' = Inr ''topic''" "js_trim ''/w'' = ''/w''" "js_trim ''.git'' = ''.git''"
  "js_trim ''topic'' = ''topic''" "js_trim (replicate 40 CHR ''a'') = replicate 40 CHR ''a''"
  "git_object_id (replicate 40 CHR ''a'')" "path_string [''w''] = ''/w''"
  by (simp_all add: demo_wt_out_def) code_simp+

lemma demo_create:
  "\<exists>d. snd (wt_create demo_create_config ''.'' ''topic'' start_worktrees) = d \<and> ww_time d = 18
     \<and> WtSpawned ''/w'' (git_command [''worktree'', ''add'', ''-b'', ''topic'',
         path_string [''m'', replicate 64 CHR ''0'', demo_wt_uuid 8], ''HEAD'']) True (Inr (demo_wt_out 10 [])) \<in> set (ww_log d)"
proof -
  have u: "uuid_v4 (demo_wt_uuid (Suc (Suc (Suc (Suc (Suc (Suc (Suc (Suc 0)))))))))" by code_simp
  show ?thesis
    by (simp add: u demo_create_config_def wt_create_def wt_repository_def isDirtyTrackedOnly_def wt_dirty_def
        and_then_def demo_wt_git demo_wt_ask demo_wt_env demo_wt_facts start_worktrees_def wt_ask_def wt_lift_def ret_def
        Let_def write_or_undo_def catching_def writeRecord_def open_temp_def fill_temp_def rename_record_def registryPath_def new_record_def wt_head_def)
      (simp add: numeral_nat)
qed

theorem worktrees_tracked_witness:
  "let w = wt_perform demo_create_config [RequestCreate ''.'' ''topic''] start_worktrees;
       path = path_string [''m'', replicate 64 CHR ''0'', demo_wt_uuid 8]
   in (\<exists>dir wr r. WtSpawned dir (git_command [''worktree'', ''remove'', path]) wr r \<in> set (ww_log w))
     \<or> (\<exists>r. ww_disk w (wc_registryDirectory demo_create_config @ [mr_worktreeId r @ ''.json''])
           = Some (TaskBytes (serialized_size (record_json r)) (Some (record_json r)))
         \<and> mr_path r = path \<and> mr_branch r = ''topic'')"
  unfolding Let_def
proof (rule worktrees_tracked)
  have d: "distinct (map demo_wt_uuid [0..<18])" by code_simp
  have "we_uuid (wc_env demo_create_config) = demo_wt_uuid" by (simp add: demo_create_config_def demo_worktrees_def)
  moreover have "ww_time (wt_perform demo_create_config [RequestCreate ''.'' ''topic''] start_worktrees) = 18"
    using demo_create by simp
  moreover have "{..<18} = set [0..<18 :: nat]" by auto
  ultimately show "inj_on (we_uuid (wc_env demo_create_config))
      {..<ww_time (wt_perform demo_create_config [RequestCreate ''.'' ''topic''] start_worktrees)}"
    using d by (simp only: distinct_map)
  show "WtSpawned ''/w'' (git_command [''worktree'', ''add'', ''-b'', ''topic'',
       path_string [''m'', replicate 64 CHR ''0'', demo_wt_uuid 8], ''HEAD'']) True (Inr (demo_wt_out 10 []))
     \<in> set (ww_log (wt_perform demo_create_config [RequestCreate ''.'' ''topic''] start_worktrees))"
    using demo_create by simp
  show "wo_exitCode (demo_wt_out 10 []) = 0" by (simp add: demo_wt_out_def)
qed

definition demo_wt_record :: managed_record where
  "demo_wt_record = \<lparr>mr_worktreeId = demo_wt_uuid 8, mr_repositoryRoot = ''/w'', mr_commonDir = ''/w/.git'',
     mr_repositoryFingerprint = replicate 64 CHR ''0'', mr_path = path_string [''m'', replicate 64 CHR ''0'', demo_wt_uuid 8],
     mr_branch = ''topic'', mr_createdAt = ''t''\<rparr>"

definition demo_remove_config :: worktree_config where
  "demo_remove_config = demo_worktrees [(12, ''/w/.git''), (14, ''topic''), (15, replicate 40 CHR ''a'')]"

definition demo_removal :: worktree_world where
  "demo_removal = \<lparr>ww_time = 10, ww_log = [], ww_disk = [[''s'', demo_wt_uuid 8 @ ''.json''] \<mapsto> TaskBytes 10 (Some (record_json demo_wt_record))]\<rparr>"

lemma split_join_path: "p \<noteq> [] \<Longrightarrow> \<forall>s \<in> set p. sep \<notin> set s \<Longrightarrow> split_char sep (join_with [sep] p) = p"
proof (induction p)
  case (Cons s p)
  then show ?case by (cases p) (simp_all add: split_char_none split_char_append)
qed simp

lemma resolve_path_string:
  assumes "norm_path p" "p \<noteq> []" "\<forall>s \<in> set p. CHR ''/'' \<notin> set s"
  shows "path_resolve base (path_string p) = p"
proof -
  have "foldl push_segment q p = q @ p" if "norm_path p" for q p
    using that by (induction p arbitrary: q) (auto simp: push_segment_def norm_path_def)
  moreover have "push_segment [] [] = []" by (simp add: push_segment_def)
  ultimately show ?thesis
    using assms split_join_path [of p "CHR ''/''"] by (simp add: path_resolve_def path_string_def isAbsolute_def)
qed

lemma demo_remove:
  "WtSpawned ''/w'' (git_command [''worktree'', ''remove'', mr_path demo_wt_record]) True (Inr (demo_wt_out 17 []))
     \<in> set (ww_log (snd (wt_remove demo_remove_config (demo_wt_uuid 8) demo_removal)))"
proof -
  have u: "uuid_v4 (demo_wt_uuid 8)" "recordShape (record_json demo_wt_record)"
    "jget (record_json demo_wt_record) ''worktreeId'' = JString (demo_wt_uuid 8)" by code_simp+
  have n: "norm_path [''m'', replicate 64 CHR ''0'', demo_wt_uuid 8]" "CHR ''/'' \<notin> set (demo_wt_uuid 8)" by code_simp+
  have "ownedPath demo_remove_config demo_wt_record = [''m'', replicate 64 CHR ''0'', demo_wt_uuid 8]"
    using owned_path_shape [OF u(2), of demo_remove_config] by (simp add: demo_wt_record_def demo_remove_config_def demo_wt_env)
  moreover have "path_resolve [] (mr_path demo_wt_record) = [''m'', replicate 64 CHR ''0'', demo_wt_uuid 8]"
    using n by (simp add: demo_wt_record_def resolve_path_string)
  moreover have "isInside [''m''] [''m'', replicate 64 CHR ''0'', demo_wt_uuid 8]" by code_simp
  ultimately have o: "validateOwnedPath demo_remove_config demo_wt_record = Inr ()"
    by (simp add: validateOwnedPath_def demo_remove_config_def demo_wt_env)
  have "path_resolve [] ''/w/.git'' = [''w'', ''.git'']" "isAbsolute ''/w/.git''" by code_simp+
  moreover have t: "path_string [''w'', ''.git''] = ''/w/.git''" "js_trim ''/w/.git'' = ''/w/.git''" by code_simp+
  ultimately have "common_candidate base ''/w/.git'' = [''w'', ''.git'']" for base by (simp add: common_candidate_def)
  note p = this t
  have r: "mr_repositoryRoot demo_wt_record = ''/w''" "mr_commonDir demo_wt_record = ''/w/.git''" "mr_branch demo_wt_record = ''topic''"
    "mr_worktreeId demo_wt_record = demo_wt_uuid 8" "mr_repositoryFingerprint demo_wt_record = replicate 64 CHR ''0''"
    by (simp_all add: demo_wt_record_def)
  show ?thesis
    using o by (simp add: wt_remove_def loadRecord_def registryPath_def and_then_def demo_removal_def u demo_remove_config_def
        verifyRecord_def wt_lift_def demo_wt_ask demo_wt_git demo_wt_env demo_wt_facts r p currentBranch_def wt_head_def
        isDirty_def wt_dirty_def ret_def wt_unlink_def wt_ask_def split: prod.splits)
qed

theorem worktree_removal_checked_witness:
  "\<exists>n v. ww_disk demo_removal (wc_registryDirectory demo_remove_config @ [demo_wt_uuid 8 @ ''.json'']) = Some (TaskBytes n (Some v))
     \<and> recordShape v \<and> path_resolve (wc_processCwd demo_remove_config) (mr_path (record_of_json v))
        = wc_managedRoot demo_remove_config @ [mr_repositoryFingerprint (record_of_json v), demo_wt_uuid 8]"
  using worktree_removal_checked [OF surjective_pairing _ demo_remove] by (fastforce simp: demo_removal_def)

end
